(* ===== verification/Go_Prelude.thy ===== *)
theory Go_Prelude
  imports Main "HOL-Library.Word" "HOL-Library.Sublist" "HOL-Library.Char_ord" "HOL-Library.List_Lexorder"
begin

unbundle bit_operations_syntax

text \<open>
  Shared vocabulary of the development: machine integers, byte strings and the part of Go's
  standard library the sources call on them (\<^verbatim>\<open>strings\<close>, \<^verbatim>\<open>path\<close>, \<^verbatim>\<open>encoding/binary\<close>,
  \<^verbatim>\<open>io.ReadFull\<close>).  A Go \<^verbatim>\<open>string\<close> is a sequence of bytes, modelled as a \<^typ>\<open>char list\<close>; a
  \<^verbatim>\<open>[]byte\<close> of a wire format is a list of 8-bit words.  Fallible calls return a sum whose
  left side is the error.
\<close>

section \<open>Machine integers\<close>

type_synonym u8 = "8 word"
type_synonym u32 = "32 word"
type_synonym u64 = "64 word"
type_synonym bytes = "u8 list"

named_theorems go_simps \<open>rewrite rules for the modelled part of Go's standard library\<close>

text \<open>Two's-complement wrap-around of Go's \<^verbatim>\<open>int64\<close> (and \<^verbatim>\<open>int\<close> on 64-bit targets).\<close>

definition i64 :: "int \<Rightarrow> int" where
  "i64 x = (x + 2 ^ 63) mod 2 ^ 64 - 2 ^ 63"

definition in_i64 :: "int \<Rightarrow> bool" where
  "in_i64 x \<longleftrightarrow> - (2 ^ 63) \<le> x \<and> x < 2 ^ 63"

lemma i64_id [simp]: "in_i64 x \<Longrightarrow> i64 x = x"
  by (simp add: i64_def in_i64_def)

lemma i64_0 [simp]: "i64 0 = 0"
  by (simp add: in_i64_def)

lemma i64_range: "in_i64 (i64 x)"
proof -
  have "0 \<le> (x + 2 ^ 63) mod 2 ^ 64" and "(x + 2 ^ 63) mod 2 ^ 64 < (2 ^ 64 :: int)"
    by simp_all
  then show ?thesis by (simp add: i64_def in_i64_def)
qed

lemma i64_add_left [simp]: "i64 (i64 x + y) = i64 (x + y)"
proof -
  have "(i64 x + y + 2 ^ 63) mod 2 ^ 64 = ((x + 2 ^ 63) mod 2 ^ 64 + y) mod 2 ^ 64"
    by (simp add: i64_def add.commute)
  also have "\<dots> = (x + y + 2 ^ 63) mod 2 ^ 64"
    unfolding mod_add_left_eq by (rule arg_cong [where f = "\<lambda>z. z mod 2 ^ 64"]) simp
  finally show ?thesis by (simp only: i64_def)
qed

lemma i64_add_right [go_simps]: "i64 (a + i64 b) = i64 (a + b)"
  using i64_add_left [of b a] by (simp add: add.commute)

lemma i64_diff_left [simp]: "i64 (i64 x - y) = i64 (x - y)"
  using i64_add_left [of x "- y"] by simp

lemma i64_idem [simp]: "i64 (i64 x) = i64 x"
  using i64_add_left [of x 0] by simp

text \<open>Big-endian 32-bit words, as \<^verbatim>\<open>encoding/binary\<close> reads and appends them.\<close>

definition be_put32 :: "u32 \<Rightarrow> bytes" where
  "be_put32 w = [ucast (drop_bit 24 w), ucast (drop_bit 16 w), ucast (drop_bit 8 w), ucast w]"

fun be_get32 :: "bytes \<Rightarrow> u32" where
  "be_get32 (a # b # c # d # _) =
     push_bit 24 (ucast a) OR push_bit 16 (ucast b) OR push_bit 8 (ucast c) OR ucast d"
| "be_get32 _ = 0"

lemma length_be_put32 [simp]: "length (be_put32 w) = 4"
  by (simp add: be_put32_def)

lemma be_put32_not_Nil [simp]: "be_put32 w \<noteq> []"
  by (simp add: be_put32_def)

lemma bit_be_get32:
  "n < 32 \<Longrightarrow> bit (be_get32 (a # b # c # d # rest)) n =
     (if n < 8 then bit d n else if n < 16 then bit c (n - 8)
      else if n < 24 then bit b (n - 16) else bit a (n - 24))"
  by (auto simp: bit_or_iff bit_push_bit_iff bit_ucast_iff not_less
      dest: bit_imp_le_length)

lemma be_get_put32 [simp]: "be_get32 (be_put32 w @ rest) = w"
  by (rule bit_word_eqI)
    (simp add: be_put32_def bit_be_get32 bit_ucast_iff bit_drop_bit_eq del: be_get32.simps,
      linarith)

lemma be_get_put32_Nil [simp]: "be_get32 (be_put32 w) = w"
  using be_get_put32 [of w "[]"] by simp

lemma and_not_mask: "(w :: 'a::len word) AND NOT (mask m) = push_bit m (drop_bit m w)"
  by (rule bit_word_eqI)
    (auto simp: bit_and_iff bit_not_iff bit_mask_iff bit_push_bit_iff bit_drop_bit_eq not_less)

lemma unat_and_not_mask:
  "unat ((w :: 'a::len word) AND NOT (mask m)) = 2 ^ m * (unat w div 2 ^ m)"
proof -
  have "unat w div 2 ^ m * 2 ^ m \<le> unat w" by (simp add: div_times_less_eq_dividend)
  then have "unat w div 2 ^ m * 2 ^ m < 2 ^ LENGTH('a)"
    using unsigned_less [of w] by (meson le_less_trans)
  then show ?thesis
    unfolding and_not_mask unsigned_push_bit_eq unsigned_drop_bit_eq
    by (simp add: push_bit_eq_mult drop_bit_eq_div take_bit_nat_eq_self mult.commute)
qed

lemma option_eqI: "(\<And>x. a = Some x \<longleftrightarrow> b = Some x) \<Longrightarrow> a = b"
  by (cases a; cases b) auto

section \<open>Bytes as characters\<close>

definition str_of_bytes :: "bytes \<Rightarrow> string" where
  "str_of_bytes bs = map (\<lambda>w. char_of (unat w)) bs"

definition to_bytes :: "string \<Rightarrow> bytes" where
  "to_bytes s = map (\<lambda>c. word_of_nat (of_char c)) s"

lemma of_char_byte [simp]: "of_char (char_of (unat (w :: u8))) = unat w"
proof -
  have "unat w < 2 ^ LENGTH(8)" by (rule unsigned_less)
  then show ?thesis by simp
qed

lemma to_bytes_of_bytes [simp]: "to_bytes (str_of_bytes bs) = bs"
  by (induction bs) (simp_all add: to_bytes_def str_of_bytes_def del: of_char_of)

lemma str_of_to_bytes [simp]: "str_of_bytes (to_bytes s) = s"
proof (induction s)
  case (Cons c s)
  have "unat (word_of_nat (of_char c) :: u8) = of_char c"
    using nat_of_char_less_256 [of c] by (simp add: unsigned_of_nat take_bit_nat_eq_self)
  with Cons show ?case by (simp add: to_bytes_def str_of_bytes_def)
qed (simp add: to_bytes_def str_of_bytes_def)

lemma length_to_bytes [simp]: "length (to_bytes s) = length s" "length (str_of_bytes b) = length b"
  by (simp_all add: to_bytes_def str_of_bytes_def)

lemma str_of_bytes_append [simp]: "str_of_bytes (a @ b) = str_of_bytes a @ str_of_bytes b"
  by (simp add: str_of_bytes_def)

lemma str_of_bytes_simps [simp]: "str_of_bytes [] = []" "str_of_bytes (b # bs) = char_of (unat b) # str_of_bytes bs"
  by (simp_all add: str_of_bytes_def)

section \<open>Reading from a byte stream\<close>

text \<open>
  \<^verbatim>\<open>io.ReadFull\<close> on a stream that ends after the listed bytes: nothing read is \<^verbatim>\<open>io.EOF\<close>, a
  partial read \<^verbatim>\<open>io.ErrUnexpectedEOF\<close>.
\<close>

datatype rd_error = EOF | UnexpectedEOF | RecordTooLarge nat | InputInvalid

definition read_full :: "nat \<Rightarrow> 'a list \<Rightarrow> rd_error + 'a list \<times> 'a list" where
  "read_full n br =
     (if n \<le> length br then Inr (take n br, drop n br)
      else if br = [] then Inl EOF else Inl UnexpectedEOF)"

lemma read_full_append [simp]: "length xs = n \<Longrightarrow> read_full n (xs @ ys) = Inr (xs, ys)"
  by (auto simp: read_full_def)

lemma read_full_exact [simp]: "length xs = n \<Longrightarrow> read_full n xs = Inr (xs, [])"
  by (auto simp: read_full_def)

lemma read_full_InrD: "read_full n br = Inr (a, b) \<Longrightarrow> br = a @ b \<and> length a = n"
  by (auto simp: read_full_def split: if_splits)

end
