(* ===== verification/Portmap.thy ===== *)
theory Portmap
  imports Go_Prelude
begin

unbundle bit_operations_syntax

text \<open>
  The static ONC RPC portmapper, \<^verbatim>\<open>portmap/portmap.go\<close>.  A connection is the finite list of
  bytes the peer sends before it closes; a datagram is a list of bytes.  Logging is left out:
  it reads the state and changes nothing.
\<close>

section \<open>Constants and state\<close>

definition rpcCall :: u32 where "rpcCall = 0"
definition rpcReply :: u32 where "rpcReply = 1"
definition rpcVersion :: u32 where "rpcVersion = 2"
definition replyMsgAccepted :: u32 where "replyMsgAccepted = 0"
definition acceptSuccess :: u32 where "acceptSuccess = 0"
definition portmapProg :: u32 where "portmapProg = 100000"
definition portmapVers :: u32 where "portmapVers = 2"
definition pmapProcNull :: u32 where "pmapProcNull = 0"
definition pmapProcGetport :: u32 where "pmapProcGetport = 3"
definition ipprotoTCP :: u32 where "ipprotoTCP = 6"
definition nfsProg :: u32 where "nfsProg = 100003"
definition mountProg :: u32 where "mountProg = 100005"
definition nlmProg :: u32 where "nlmProg = 100021"
definition maxRecord :: nat where "maxRecord = 65536"

lemmas portmap_consts = rpcCall_def rpcReply_def rpcVersion_def replyMsgAccepted_def
  acceptSuccess_def portmapProg_def portmapVers_def pmapProcNull_def pmapProcGetport_def
  ipprotoTCP_def nfsProg_def mountProg_def nlmProg_def

text \<open>\<^verbatim>\<open>Server.Port\<close> is a Go \<^verbatim>\<open>int\<close>; \<^verbatim>\<open>uint32(s.Port)\<close> keeps its low 32 bits.\<close>

record pm_server =
  Port :: int

record xdrReader =
  xr_b :: bytes
  xr_bad :: bool

section \<open>Operations\<close>

definition u32_rd :: "xdrReader \<Rightarrow> u32 \<times> xdrReader" where
  "u32_rd r = (if length (xr_b r) < 4 then (0, r\<lparr>xr_bad := True\<rparr>)
               else (be_get32 (xr_b r), r\<lparr>xr_b := drop 4 (xr_b r)\<rparr>))"

text \<open>\<^verbatim>\<open>(uint64(n) + 3) &^ 3\<close>: the length rounded up to a multiple of four.\<close>

definition pad4 :: "u32 \<Rightarrow> u64" where
  "pad4 n = (ucast n + 3) AND NOT 3"

definition skipOpaqueAuth :: "xdrReader \<Rightarrow> xdrReader" where
  "skipOpaqueAuth r =
     (let (_, r1) = u32_rd r; (len, r2) = u32_rd r1; n = unat (pad4 len)
      in if length (xr_b r2) < n then r2\<lparr>xr_bad := True\<rparr>
         else r2\<lparr>xr_b := drop n (xr_b r2)\<rparr>)"

definition getport :: "pm_server \<Rightarrow> u32 \<Rightarrow> u32 \<Rightarrow> u32" where
  "getport s prog prot =
     (if prot = ipprotoTCP \<and> (prog = nfsProg \<or> prog = mountProg \<or> prog = nlmProg)
      then word_of_int (Port s) else 0)"

definition reply :: "pm_server \<Rightarrow> bytes \<Rightarrow> bytes option" where
  "reply s msg =
     (let r = \<lparr>xr_b = msg, xr_bad = False\<rparr>;
          (xid, r) = u32_rd r;
          (mtype, r) = u32_rd r;
          (rvers, r) = u32_rd r;
          (prog0, r) = u32_rd r;
          (vers0, r) = u32_rd r
      in if mtype \<noteq> rpcCall \<or> rvers \<noteq> rpcVersion \<or> prog0 \<noteq> portmapProg \<or> vers0 \<noteq> portmapVers
         then None
         else
           (let (proc, r) = u32_rd r;
                r = skipOpaqueAuth r;
                r = skipOpaqueAuth r;
                hdr = be_put32 xid @ be_put32 rpcReply @ be_put32 replyMsgAccepted @
                      be_put32 0 @ be_put32 0 @ be_put32 acceptSuccess
            in if proc = pmapProcNull then (if xr_bad r then None else Some hdr)
               else if proc = pmapProcGetport then
                 (let (prog, r) = u32_rd r; (vers, r) = u32_rd r; (prot, r) = u32_rd r
                  in if xr_bad r then None else Some (hdr @ be_put32 (getport s prog prot)))
               else None))"

text \<open>
  RPC record marking (RFC 5531): a fragment header holds the length in its low 31 bits and the
  last-fragment flag in its top bit.
\<close>

definition frag_len :: "u32 \<Rightarrow> nat" where
  "frag_len h = unat (h AND NOT (push_bit 31 1))"

definition frag_last :: "u32 \<Rightarrow> bool" where
  "frag_last h \<longleftrightarrow> h AND push_bit 31 1 \<noteq> 0"

function readRecord_loop :: "bytes \<Rightarrow> bytes \<Rightarrow> rd_error + bytes \<times> bytes" where
  "readRecord_loop rec br =
     (case read_full 4 br of
        Inl e \<Rightarrow> Inl e
      | Inr (hdr, br1) \<Rightarrow>
          (let h = be_get32 hdr; n = frag_len h
           in if length rec + n > maxRecord then Inl (RecordTooLarge maxRecord)
              else (case read_full n br1 of
                      Inl e \<Rightarrow> Inl e
                    | Inr (body, br2) \<Rightarrow>
                        if frag_last h then Inr (rec @ body, br2)
                        else readRecord_loop (rec @ body) br2)))"
  by pat_completeness auto
termination
  by (relation "measure (\<lambda>(rec, br). length br)") (auto dest!: read_full_InrD)

declare readRecord_loop.simps [simp del]

definition readRecord :: "bytes \<Rightarrow> rd_error + bytes \<times> bytes" where
  "readRecord br = readRecord_loop [] br"

lemma readRecord_loop_consumes:
  "readRecord_loop rec br = Inr (out, rest) \<Longrightarrow>
     length rest + 4 \<le> length br \<and> length rec \<le> length out \<and> length out \<le> maxRecord"
proof (induction rec br rule: readRecord_loop.induct)
  case (1 rec br)
  from "1.prems" obtain hdr br1 body br2 where
    rd: "read_full 4 br = Inr (hdr, br1)" "read_full (frag_len (be_get32 hdr)) br1 = Inr (body, br2)"
    and small: "length rec + frag_len (be_get32 hdr) \<le> maxRecord"
    by (auto simp: readRecord_loop.simps [of rec br] Let_def split: sum.splits prod.splits if_splits)
  have len: "length br = 4 + frag_len (be_get32 hdr) + length br2" "length body = frag_len (be_get32 hdr)"
    using read_full_InrD [OF rd(1)] read_full_InrD [OF rd(2)] by auto
  show ?case
  proof (cases "frag_last (be_get32 hdr)")
    case True
    with "1.prems" rd small len show ?thesis
      by (auto simp: readRecord_loop.simps [of rec br])
  next
    case False
    with "1.prems" rd small have "readRecord_loop (rec @ body) br2 = Inr (out, rest)"
      by (simp add: readRecord_loop.simps [of rec br])
    with "1.IH" rd small False len show ?thesis by fastforce
  qed
qed

lemma readRecord_consumes: "readRecord br = Inr (out, rest) \<Longrightarrow> length rest < length br"
  using readRecord_loop_consumes [of "[]" br out rest] by (simp add: readRecord_def)

definition frame :: "bytes \<Rightarrow> bytes" where
  "frame resp = be_put32 (word_of_nat (length resp) OR push_bit 31 1) @ resp"

text \<open>
  \<^verbatim>\<open>serveConn\<close> answers calls until a read fails, a call gets no reply or a write fails.
  \<open>wr\<close> says whether writing the given bytes succeeds; the result is what was written.
\<close>

function serveConn_loop :: "(bytes \<Rightarrow> bool) \<Rightarrow> pm_server \<Rightarrow> bytes \<Rightarrow> bytes" where
  "serveConn_loop wr s br =
     (case readRecord br of
        Inl _ \<Rightarrow> []
      | Inr (rec, br1) \<Rightarrow>
          (case reply s rec of
             None \<Rightarrow> []
           | Some resp \<Rightarrow>
               if wr (frame resp) then frame resp @ serveConn_loop wr s br1 else []))"
  by pat_completeness auto
termination
  by (relation "measure (\<lambda>(wr, s, br). length br)") (auto dest: readRecord_consumes)

declare serveConn_loop.simps [simp del]

text \<open>\<^verbatim>\<open>ServeUDP\<close> answers each datagram on its own; a datagram longer than the buffer is cut.\<close>

definition serveUDP_step :: "pm_server \<Rightarrow> bytes \<Rightarrow> bytes option" where
  "serveUDP_step s pkt = reply s (take maxRecord pkt)"

section \<open>Reading a call\<close>

lemma u32_rd_put [simp]:
  "u32_rd \<lparr>xr_b = be_put32 w @ rest, xr_bad = bad\<rparr> = (w, \<lparr>xr_b = rest, xr_bad = bad\<rparr>)"
  by (simp add: u32_rd_def)

lemma u32_rd_put_exact [simp]:
  "u32_rd \<lparr>xr_b = be_put32 w, xr_bad = bad\<rparr> = (w, \<lparr>xr_b = [], xr_bad = bad\<rparr>)"
  by (simp add: u32_rd_def)

lemma unat_pad4: "unat (pad4 n) = 4 * ((unat n + 3) div 4)"
proof -
  have n: "unat n < 2 ^ 32" using unsigned_less [of n] by simp
  have "unat (ucast n + 3 :: u64) = unat n + 3"
    using n by (simp add: unat_word_ariths unsigned_ucast_eq take_bit_nat_eq_self)
  then show ?thesis
    using unat_and_not_mask [of "ucast n + 3 :: u64" 2] by (simp add: pad4_def mask_eq_exp_minus_1)
qed

text \<open>An \<^verbatim>\<open>opaque_auth\<close> on the wire: flavor, length, body padded to a multiple of four.\<close>

definition opaque_auth :: "u32 \<Rightarrow> bytes \<Rightarrow> bytes" where
  "opaque_auth flavor body =
     be_put32 flavor @ be_put32 (word_of_nat (length body)) @ body @
     replicate (4 * ((length body + 3) div 4) - length body) 0"

lemma skipOpaqueAuth_put [simp]:
  assumes "length body < 2 ^ 32"
  shows "skipOpaqueAuth \<lparr>xr_b = opaque_auth fl body @ rest, xr_bad = bad\<rparr> = \<lparr>xr_b = rest, xr_bad = bad\<rparr>"
proof -
  have "unat (word_of_nat (length body) :: u32) = length body"
    using assms by (simp add: unsigned_of_nat take_bit_nat_eq_self)
  then show ?thesis
    by (simp add: skipOpaqueAuth_def opaque_auth_def unat_pad4)
qed

text \<open>
  A well-formed call message, as RFC 5531 lays it out: xid, call, RPC version, program,
  version, procedure, credentials, verifier, arguments.  The credentials and the verifier are
  each given with their flavor (\<^verbatim>\<open>AUTH_NONE\<close> is 0, \<^verbatim>\<open>AUTH_UNIX\<close> is 1).
\<close>

definition rpc_call :: "u32 \<Rightarrow> u32 \<Rightarrow> u32 \<times> bytes \<Rightarrow> u32 \<times> bytes \<Rightarrow> bytes \<Rightarrow> bytes" where
  "rpc_call xid proc cred verf args =
     be_put32 xid @ be_put32 rpcCall @ be_put32 rpcVersion @ be_put32 portmapProg @
     be_put32 portmapVers @ be_put32 proc @ opaque_auth (fst cred) (snd cred) @ opaque_auth (fst verf) (snd verf) @ args"

definition reply_header :: "u32 \<Rightarrow> bytes" where
  "reply_header xid = be_put32 xid @ be_put32 rpcReply @ be_put32 replyMsgAccepted @
     be_put32 0 @ be_put32 0 @ be_put32 acceptSuccess"

lemma length_reply_header [simp]: "length (reply_header xid) = 24"
  by (simp add: reply_header_def)

lemma reply_getport:
  assumes "length (snd cred) < 2 ^ 32" and "length (snd verf) < 2 ^ 32"
  shows "reply s (rpc_call xid pmapProcGetport cred verf
            (be_put32 prog @ be_put32 vers @ be_put32 prot @ rest)) =
         Some (reply_header xid @ be_put32 (getport s prog prot))"
  using assms by (simp add: reply_def rpc_call_def reply_header_def pmapProcGetport_def pmapProcNull_def)

lemma reply_null:
  assumes "length (snd cred) < 2 ^ 32" and "length (snd verf) < 2 ^ 32"
  shows "reply s (rpc_call xid pmapProcNull cred verf rest) = Some (reply_header xid)"
  using assms by (simp add: reply_def rpc_call_def reply_header_def)

lemma u32_rd_bad: "xr_bad r \<Longrightarrow> xr_bad (snd (u32_rd r))"
  by (simp add: u32_rd_def)

lemma reply_SomeD:
  assumes "reply s msg = Some b"
  shows "take 4 b = be_put32 (fst (u32_rd \<lparr>xr_b = msg, xr_bad = False\<rparr>)) \<and> (length b = 24 \<or> length b = 28)"
  using assms by (auto simp: reply_def Let_def split: prod.splits if_splits)

section \<open>Record marking\<close>

lemma bit_top32: "bit (push_bit 31 1 :: u32) k \<longleftrightarrow> k = 31"
  by (simp only: bit_push_bit_iff bit_1_iff) auto

lemma frag_len_last:
  assumes "n < 2 ^ 31"
  shows "frag_len (word_of_nat n OR push_bit 31 1) = n" "frag_last (word_of_nat n OR push_bit 31 1)"
    "frag_len (word_of_nat n) = n" "\<not> frag_last (word_of_nat n)"
proof -
  have "\<not> bit n 31"
    using assms by (simp add: bit_iff_odd)
  then have b: "\<not> bit (word_of_nat n :: u32) 31"
    by (simp add: bit_of_nat_iff)
  have "((word_of_nat n :: u32) OR push_bit 31 1) AND NOT (push_bit 31 1) = word_of_nat n"
    using b by (intro bit_word_eqI) (auto simp only: bit_and_iff bit_or_iff bit_not_iff bit_top32 possible_bit_word)
  moreover have "(word_of_nat n :: u32) AND NOT (push_bit 31 1) = word_of_nat n"
    using b by (intro bit_word_eqI) (auto simp only: bit_and_iff bit_not_iff bit_top32 possible_bit_word)
  moreover have "unat (word_of_nat n :: u32) = n"
    using assms by (simp add: unsigned_of_nat take_bit_nat_eq_self)
  ultimately show "frag_len (word_of_nat n OR push_bit 31 1) = n" "frag_len (word_of_nat n) = n"
    by (simp_all only: frag_len_def)
  have "bit (((word_of_nat n :: u32) OR push_bit 31 1) AND push_bit 31 1) 31"
    unfolding bit_and_iff bit_or_iff bit_top32 by simp
  then show "frag_last (word_of_nat n OR push_bit 31 1)"
    unfolding frag_last_def by (metis bit_0_eq bot_apply bot_bool_def)
  have "(word_of_nat n :: u32) AND push_bit 31 1 = 0"
    using b by (intro bit_word_eqI) (auto simp only: bit_and_iff bit_top32 bit_0_eq bot_apply bot_bool_def)
  then show "\<not> frag_last (word_of_nat n)"
    by (simp only: frag_last_def)
qed

text \<open>One record as a peer may send it: some non-last fragments, then a last one.\<close>

definition fragment :: "bytes \<Rightarrow> bytes" where
  "fragment b = be_put32 (word_of_nat (length b)) @ b"

definition record_of :: "bytes list \<Rightarrow> bytes \<Rightarrow> bytes" where
  "record_of frags final = concat (map fragment frags) @ frame final"

lemma readRecord_loop_frags:
  "length rec + length (concat frags) + length final \<le> maxRecord \<Longrightarrow>
   readRecord_loop rec (record_of frags final @ rest) = Inr (rec @ concat frags @ final, rest)"
proof (induction frags arbitrary: rec)
  case Nil
  then have "length final < 2 ^ 31" by (simp add: maxRecord_def)
  with Nil show ?case
    by (simp add: record_of_def frame_def readRecord_loop.simps [of rec] frag_len_last [simplified])
next
  case (Cons f frags)
  then have "length f < 2 ^ 31" by (simp add: maxRecord_def)
  moreover have "readRecord_loop (rec @ f) (record_of frags final @ rest) =
      Inr ((rec @ f) @ concat frags @ final, rest)"
    using Cons by (intro Cons.IH) simp
  ultimately show ?case
    using Cons.prems
    by (simp add: record_of_def fragment_def readRecord_loop.simps [of rec] frag_len_last [simplified])
qed

lemma readRecord_frame:
  "length b \<le> maxRecord \<Longrightarrow> readRecord (frame b @ rest) = Inr (b, rest)"
  using readRecord_loop_frags [of "[]" "[]" b rest] by (simp add: readRecord_def record_of_def)

lemma reply_fits: "reply s msg = Some b \<Longrightarrow> length b \<le> maxRecord"
  using reply_SomeD [of s msg b] by (auto simp: maxRecord_def)

section \<open>Properties\<close>

text \<open>
  C39. A GETPORT call, whatever the flavor and the body of its credentials and of its verifier,
  and whatever its version and trailing bytes, is answered with the caller's transaction id and the configured port for the NFS, MOUNT and NLM
  programs over TCP, and with port 0 for every other program or protocol.
\<close>

theorem portmap_getport_correct:
  assumes "length (snd cred) < 2 ^ 32" and "length (snd verf) < 2 ^ 32"
  shows "reply s (rpc_call xid pmapProcGetport cred verf
            (be_put32 prog @ be_put32 vers @ be_put32 prot @ rest)) =
         Some (reply_header xid @ be_put32
           (if prot = 6 \<and> prog \<in> {100003, 100005, 100021} then word_of_int (Port s) else 0))"
  using reply_getport [OF assms, of s xid prog vers prot rest]
  by (simp add: getport_def portmap_consts)

theorem portmap_getport_correct_witness:
  "length [1, 2, 3 :: u8] < 2 ^ 32 \<and>
   reply \<lparr>Port = 2049\<rparr> (rpc_call 7 pmapProcGetport (1, [1, 2, 3]) (0, [])
     (be_put32 100003 @ be_put32 3 @ be_put32 6 @ [])) = Some (reply_header 7 @ be_put32 2049)"
  using portmap_getport_correct [of "(1, [1, 2, 3])" "(0, [])" "\<lparr>Port = 2049\<rparr>" 7 100003 3 6 "[]"]
  by simp

lemma serveConn_step:
  assumes "length (concat frags) + length final \<le> maxRecord"
    and "reply s (concat frags @ final) = Some b"
  shows "serveConn_loop (\<lambda>_. True) s (record_of frags final @ rest) =
     frame b @ serveConn_loop (\<lambda>_. True) s rest"
  using assms readRecord_loop_frags [of "[]" frags final rest]
  by (subst serveConn_loop.simps) (simp add: readRecord_def)

definition sent_stream :: "(bytes list \<times> bytes) list \<Rightarrow> bytes" where
  "sent_stream calls = concat (map (\<lambda>(frags, final). record_of frags final) calls)"

text \<open>
  C38. The TCP side is a faithful server loop: on a stream of framed records that all get a
  reply and a connection that accepts writes, it writes exactly the framed replies, one per
  call and in the order of the calls, whatever fragments the records were split into.
\<close>

theorem portmap_serveConn_replies:
  assumes "\<forall>(frags, final) \<in> set calls. length (concat frags) + length final \<le> maxRecord"
    and "map (\<lambda>(frags, final). reply s (concat frags @ final)) calls = map Some resps"
  shows "serveConn_loop (\<lambda>_. True) s (sent_stream calls) = concat (map frame resps)"
  using assms
proof (induction calls arbitrary: resps)
  case Nil
  then show ?case
    by (simp add: sent_stream_def serveConn_loop.simps readRecord_def readRecord_loop.simps [of "[]"] read_full_def)
next
  case (Cons c calls)
  obtain frags final where c: "c = (frags, final)" by (cases c)
  with Cons.prems obtain b bs where r: "resps = b # bs" "reply s (concat frags @ final) = Some b"
      "map (\<lambda>(frags, final). reply s (concat frags @ final)) calls = map Some bs"
    by auto
  have "serveConn_loop (\<lambda>_. True) s (sent_stream calls) = concat (map frame bs)"
    using Cons.prems r by (intro Cons.IH) auto
  with Cons.prems c r show ?case
    using serveConn_step [of frags final s b "sent_stream calls"] by (simp add: sent_stream_def)
qed

theorem portmap_serveConn_replies_witness:
  "serveConn_loop (\<lambda>_. True) \<lparr>Port = 2049\<rparr>
     (sent_stream [([], rpc_call 7 pmapProcNull (0, []) (0, []) []), ([], rpc_call 8 pmapProcNull (0, []) (0, []) [])]) =
   frame (reply_header 7) @ frame (reply_header 8)"
proof -
  have len: "length (rpc_call x pmapProcNull (0, []) (0, []) []) \<le> maxRecord" for x
    by (simp add: rpc_call_def opaque_auth_def maxRecord_def)
  show ?thesis
    using portmap_serveConn_replies
      [of "[([], rpc_call 7 pmapProcNull (0, []) (0, []) []), ([], rpc_call 8 pmapProcNull (0, []) (0, []) [])]"
        "\<lparr>Port = 2049\<rparr>" "[reply_header 7, reply_header 8]"]
    by (simp add: len reply_null)
qed

text \<open>
  C40. Record reading is the inverse of record writing, for every way of cutting the record
  into fragments, and it never accumulates more than \<^verbatim>\<open>maxRecord\<close> bytes: a result is at most
  that long and strictly consumes input, and an announced length over the bound is refused.
\<close>

theorem portmap_readRecord_bounded_roundtrip:
  "(\<forall>frags final rest. length (concat frags) + length final \<le> maxRecord \<longrightarrow>
      readRecord (record_of frags final @ rest) = Inr (concat frags @ final, rest)) \<and>
   (\<forall>br out rest. readRecord br = Inr (out, rest) \<longrightarrow>
      length out \<le> maxRecord \<and> length rest + 4 \<le> length br) \<and>
   (\<forall>h rest. maxRecord < frag_len h \<longrightarrow>
      readRecord (be_put32 h @ rest) = Inl (RecordTooLarge maxRecord))"
proof (intro conjI allI impI)
  show "readRecord (record_of frags final @ rest) = Inr (concat frags @ final, rest)"
    if "length (concat frags) + length final \<le> maxRecord" for frags final rest
    using readRecord_loop_frags [of "[]" frags final rest] that by (simp add: readRecord_def)
  show "length out \<le> maxRecord" "length rest + 4 \<le> length br"
    if "readRecord br = Inr (out, rest)" for br out rest
    using readRecord_loop_consumes [of "[]" br out rest] that by (simp_all add: readRecord_def)
  show "readRecord (be_put32 h @ rest) = Inl (RecordTooLarge maxRecord)"
    if "maxRecord < frag_len h" for h rest
    using that by (simp add: readRecord_def readRecord_loop.simps [of "[]"])
qed

theorem portmap_readRecord_bounded_roundtrip_witness:
  "readRecord (record_of [[1], [2]] [3] @ [9]) = Inr ([1, 2, 3], [9])"
proof -
  have "length (concat [[1], [2]]) + length [3] \<le> maxRecord" by (simp add: maxRecord_def)
  from portmap_readRecord_bounded_roundtrip [THEN conjunct1, rule_format, OF this, of "[9]"]
  show ?thesis by simp
qed

end
