(* ===== verification/Go_Strings.thy ===== *)
theory Go_Strings
  imports Go_Prelude "HOL-Library.Sublist"
begin

text \<open>
  The functions of Go's \<^verbatim>\<open>strings\<close> and \<^verbatim>\<open>path\<close> packages that the file system uses, on byte strings
  (a \<^typ>\<open>char\<close> is a byte), and the lemmas the path components share.
\<close>

abbreviation slash :: char where "slash \<equiv> CHR ''/''"
abbreviation dot :: char where "dot \<equiv> CHR ''.''"
abbreviation at_sign :: char where "at_sign \<equiv> CHR ''@''"

named_theorems str_simps \<open>evaluation of string functions on composed strings\<close>

section \<open>strings\<close>

definition cutPrefix :: "string \<Rightarrow> string \<Rightarrow> string \<times> bool" where
  "cutPrefix s p = (if prefix p s then (drop (length p) s, True) else (s, False))"

definition cutSuffix :: "string \<Rightarrow> string \<Rightarrow> string \<times> bool" where
  "cutSuffix s p = (if suffix p s then (take (length s - length p) s, True) else (s, False))"

definition trimPrefix :: "string \<Rightarrow> string \<Rightarrow> string" where
  "trimPrefix s p = fst (cutPrefix s p)"

definition trimSuffix :: "string \<Rightarrow> string \<Rightarrow> string" where
  "trimSuffix s p = fst (cutSuffix s p)"

text \<open>\<^verbatim>\<open>Cut\<close>: the parts around the first instance of the separator.\<close>

fun cut_at :: "string \<Rightarrow> string \<Rightarrow> (string \<times> string) option" where
  "cut_at sep [] = (if sep = [] then Some ([], []) else None)"
| "cut_at sep (c # cs) =
     (if prefix sep (c # cs) then Some ([], drop (length sep) (c # cs))
      else map_option (\<lambda>(b, a). (c # b, a)) (cut_at sep cs))"

definition cut :: "string \<Rightarrow> string \<Rightarrow> string \<times> string \<times> bool" where
  "cut s sep = (case cut_at sep s of None \<Rightarrow> (s, [], False) | Some (b, a) \<Rightarrow> (b, a, True))"

text \<open>\<^verbatim>\<open>Split\<close> and \<^verbatim>\<open>Join\<close> on one separator byte.\<close>

fun split_on :: "char \<Rightarrow> string \<Rightarrow> string list" where
  "split_on x [] = [[]]"
| "split_on x (c # cs) =
     (if c = x then [] # split_on x cs
      else (case split_on x cs of [] \<Rightarrow> [[c]] | s # ss \<Rightarrow> (c # s) # ss))"

fun join_on :: "char \<Rightarrow> string list \<Rightarrow> string" where
  "join_on x [] = []"
| "join_on x [s] = s"
| "join_on x (s # t # ss) = s @ x # join_on x (t # ss)"

section \<open>path\<close>

definition rstrip :: "char \<Rightarrow> string \<Rightarrow> string" where
  "rstrip x s = rev (dropWhile (\<lambda>c. c = x) (rev s))"

definition after_last :: "char \<Rightarrow> string \<Rightarrow> string" where
  "after_last x s = rev (takeWhile (\<lambda>c. c \<noteq> x) (rev s))"

definition upto_last :: "char \<Rightarrow> string \<Rightarrow> string" where
  "upto_last x s = rev (dropWhile (\<lambda>c. c \<noteq> x) (rev s))"

definition path_Base :: "string \<Rightarrow> string" where
  "path_Base p =
     (if p = [] then [dot]
      else let b = after_last slash (rstrip slash p) in if b = [] then [slash] else b)"

definition path_Ext :: "string \<Rightarrow> string" where
  "path_Ext p =
     (let e = takeWhile (\<lambda>c. c \<noteq> dot \<and> c \<noteq> slash) (rev p);
          rest = drop (length e) (rev p)
      in if rest \<noteq> [] \<and> List.hd rest = dot then dot # rev e else [])"

fun clean_segs :: "bool \<Rightarrow> string list \<Rightarrow> string list \<Rightarrow> string list" where
  "clean_segs rooted stack [] = rev stack"
| "clean_segs rooted stack (s # ss) =
     (if s = [] \<or> s = [dot] then clean_segs rooted stack ss
      else if s = [dot, dot] then
        (if stack \<noteq> [] \<and> List.hd stack \<noteq> [dot, dot] then clean_segs rooted (tl stack) ss
         else if rooted then clean_segs rooted stack ss
         else clean_segs rooted (s # stack) ss)
      else clean_segs rooted (s # stack) ss)"

definition path_Clean :: "string \<Rightarrow> string" where
  "path_Clean p =
     (let rooted = (p \<noteq> [] \<and> List.hd p = slash);
          out = (if rooted then [slash] else []) @ join_on slash (clean_segs rooted [] (split_on slash p))
      in if out = [] then [dot] else out)"

definition path_Dir :: "string \<Rightarrow> string" where
  "path_Dir p = path_Clean (upto_last slash p)"

section \<open>Lemmas\<close>

lemma cutPrefix_append [str_simps]: "cutPrefix (p @ s) p = (s, True)"
  by (simp add: cutPrefix_def)

lemma cutSuffix_append [str_simps]: "cutSuffix (s @ p) p = (s, True)"
  by (simp add: cutSuffix_def suffix_def)

lemma trimSuffix_append [str_simps]: "trimSuffix (s @ p) p = s"
  by (simp add: trimSuffix_def cutSuffix_append)

lemma trimSuffix_none [str_simps]: "\<not> suffix p s \<Longrightarrow> trimSuffix s p = s"
  by (simp add: trimSuffix_def cutSuffix_def)

lemma cut_at_char: "x \<notin> set a \<Longrightarrow> cut_at [x] (a @ x # b) = Some (a, b)"
  by (induction a) auto

lemma cut_at_None: "x \<notin> set a \<Longrightarrow> x \<in> set sep \<Longrightarrow> cut_at sep a = None"
proof (induction a)
  case (Cons c cs)
  then have "\<not> prefix sep (c # cs)" using set_mono_prefix [of sep "c # cs"] by auto
  with Cons show ?case by simp
qed auto

lemma cut_at_two:
  assumes "y \<notin> set a" "x \<noteq> y"
  shows "cut_at (x # y # r) (a @ x # y # r @ b) = Some (a, b)"
  using assms(1)
proof (induction a)
  case (Cons c cs)
  then have "\<not> prefix (x # y # r) (c # cs @ x # y # r @ b)" using assms(2) by (cases cs) auto
  with Cons show ?case by simp
qed simp

lemma cut_char [str_simps]: "x \<notin> set a \<Longrightarrow> cut (a @ x # b) [x] = (a, b, True)"
  by (simp add: cut_def cut_at_char)

lemma cut_none [str_simps]: "x \<notin> set a \<Longrightarrow> cut a [x] = (a, [], False)"
  by (simp add: cut_def cut_at_None)

lemma cut_two [str_simps]: "y \<notin> set a \<Longrightarrow> x \<noteq> y \<Longrightarrow> cut (a @ x # y # r @ b) (x # y # r) = (a, b, True)"
  by (simp add: cut_def cut_at_two)

lemma cut_at_sound: "cut_at sep s = Some (b, a) \<Longrightarrow> s = b @ sep @ a"
proof (induction s arbitrary: b)
  case (Cons c cs)
  show ?case
  proof (cases "prefix sep (c # cs)")
    case True
    with Cons.prems have "b = []" "a = drop (length sep) (c # cs)" by auto
    with True show ?thesis by (metis append_Nil append_eq_conv_conj prefixE)
  next
    case False
    with Cons.prems obtain b' where "cut_at sep cs = Some (b', a)" "b = c # b'" by auto
    with Cons.IH show ?thesis by simp
  qed
qed (simp split: if_splits)

lemma cut_at_char_free: "cut_at [x] s = Some (b, a) \<Longrightarrow> x \<notin> set b"
  by (induction s arbitrary: b) (auto split: if_splits)

lemma cut_found: "cut s sep = (b, a, True) \<Longrightarrow> s = b @ sep @ a"
  by (auto simp: cut_def cut_at_sound split: option.splits)

lemma split_on_nonempty [simp]: "split_on x s \<noteq> []"
  by (induction s) (auto split: list.split)

lemma split_on_free: "x \<notin> set s \<Longrightarrow> split_on x s = [s]"
  by (induction s) auto

lemma split_on_append: "x \<notin> set s \<Longrightarrow> split_on x (s @ x # t) = s # split_on x t"
  by (induction s) auto

lemma split_join:
  "ss \<noteq> [] \<Longrightarrow> \<forall>s \<in> set ss. x \<notin> set s \<Longrightarrow> split_on x (join_on x ss) = ss"
  by (induction x ss rule: join_on.induct) (auto simp: split_on_free split_on_append)

lemma join_on_cons: "ss \<noteq> [] \<Longrightarrow> join_on x (s # ss) = s @ x # join_on x ss"
  by (cases ss) auto

lemma join_split [simp]: "join_on x (split_on x s) = s"
proof (induction s)
  case (Cons c s)
  obtain t ts where t: "split_on x s = t # ts" by (cases "split_on x s") auto
  have "join_on x ((c # t) # ts) = c # join_on x (t # ts)" by (cases ts) auto
  with Cons t show ?case by (auto simp: join_on_cons)
qed simp

lemma split_on_segs: "t \<in> set (split_on x s) \<Longrightarrow> x \<notin> set t"
proof (induction s arbitrary: t)
  case (Cons c s)
  obtain u us where u: "split_on x s = u # us" by (cases "split_on x s") auto
  then have "x \<notin> set u" "t' \<in> set us \<Longrightarrow> x \<notin> set t'" for t' using Cons.IH by auto
  then show ?case using Cons.prems u by (auto split: if_splits)
qed simp

lemma split_eq_Nil_iff: "split_on x s = [[]] \<longleftrightarrow> s = []"
  by (metis join_on.simps(2) join_split split_on.simps(1))

lemma after_last_append [str_simps]: "x \<notin> set b \<Longrightarrow> after_last x (a @ x # b) = b"
proof -
  assume a: "x \<notin> set b"
  have "takeWhile (\<lambda>c. c \<noteq> x) (rev b @ x # rev a) = rev b"
    using a by (subst takeWhile_append2) auto
  then show ?thesis by (simp add: after_last_def)
qed

lemma after_last_free [str_simps]: "x \<notin> set b \<Longrightarrow> after_last x b = b"
proof -
  assume "x \<notin> set b"
  then have "takeWhile (\<lambda>c. c \<noteq> x) (rev b) = rev b" by (subst takeWhile_eq_all_conv) auto
  then show ?thesis by (simp only: after_last_def rev_rev_ident)
qed

lemma rstrip_id [str_simps]: "b \<noteq> [] \<Longrightarrow> last b \<noteq> x \<Longrightarrow> rstrip x b = b"
  by (cases b rule: rev_cases) (auto simp: rstrip_def)

lemma path_Base_append [str_simps]: "b \<noteq> [] \<Longrightarrow> slash \<notin> set b \<Longrightarrow> path_Base (a @ slash # b) = b"
proof -
  assume b: "b \<noteq> []" "slash \<notin> set b"
  then have "last b \<noteq> slash" by (metis last_in_set)
  with b show ?thesis by (simp add: path_Base_def rstrip_id after_last_append)
qed

lemma path_Base_free [str_simps]: "b \<noteq> [] \<Longrightarrow> slash \<notin> set b \<Longrightarrow> path_Base b = b"
proof -
  assume b: "b \<noteq> []" "slash \<notin> set b"
  then have "last b \<noteq> slash" by (metis last_in_set)
  with b show ?thesis by (simp add: path_Base_def rstrip_id after_last_free)
qed

lemma path_Ext_append [str_simps]:
  assumes "dot \<notin> set e" "slash \<notin> set e"
  shows "path_Ext (a @ dot # e) = dot # e"
proof -
  have "takeWhile (\<lambda>c. c \<noteq> dot \<and> c \<noteq> slash) (rev e @ dot # rev a) = rev e"
    using assms by (subst takeWhile_append2) auto
  then show ?thesis by (simp add: path_Ext_def Let_def)
qed

lemma split_on_append2: "split_on x (a @ x # b) = split_on x a @ split_on x b"
proof (induction a)
  case (Cons c a)
  then show ?case by (cases "split_on x a") auto
qed simp

lemma split_on_extend: "x \<notin> set b \<Longrightarrow> split_on x (a @ b) = butlast (split_on x a) @ [last (split_on x a) @ b]"
proof (induction a)
  case (Cons c a)
  then show ?case by (cases "split_on x a") auto
qed (simp add: split_on_free)

section \<open>Clean relative paths\<close>

definition clean_name :: "string \<Rightarrow> bool" where
  "clean_name s \<longleftrightarrow> s \<noteq> [] \<and> s \<noteq> [dot] \<and> s \<noteq> [dot, dot] \<and> slash \<notin> set s"

lemma clean_segs_id: "list_all clean_name ss \<Longrightarrow> clean_segs r stk (ss @ [[]]) = rev stk @ ss"
  by (induction ss arbitrary: stk) (auto simp: clean_name_def)

lemma join_on_append: "ss \<noteq> [] \<Longrightarrow> ts \<noteq> [] \<Longrightarrow> join_on x (ss @ ts) = join_on x ss @ x # join_on x ts"
  by (induction x ss rule: join_on.induct) (auto simp: join_on_cons)

lemma join_on_hd:
  assumes "list_all clean_name ss" "ss \<noteq> []"
  shows "join_on slash ss \<noteq> []" "List.hd (join_on slash ss) \<noteq> slash"
proof -
  from assms obtain s t where s: "ss = s # t" "s \<noteq> []" "slash \<notin> set s" by (cases ss) (auto simp: clean_name_def)
  then obtain c s' where "s = c # s'" "c \<noteq> slash" by (cases s) auto
  with s show "join_on slash ss \<noteq> []" "List.hd (join_on slash ss) \<noteq> slash" by (cases t; auto)+
qed

lemma upto_last_append: "x \<notin> set b \<Longrightarrow> upto_last x (a @ x # b) = a @ [x]"
proof -
  assume "x \<notin> set b"
  then have "dropWhile (\<lambda>c. c \<noteq> x) (rev b @ x # rev a) = x # rev a" by (subst dropWhile_append2) auto
  then show ?thesis by (simp add: upto_last_def)
qed

lemma upto_last_free: "x \<notin> set b \<Longrightarrow> upto_last x b = []"
  by (auto simp: upto_last_def)

lemma path_Dir_name: "slash \<notin> set x \<Longrightarrow> path_Dir x = [dot]"
  by (simp add: path_Dir_def upto_last_free path_Clean_def)

lemma split_join_slash:
  assumes "list_all clean_name ss" "ss \<noteq> []"
  shows "split_on slash (join_on slash ss @ [slash]) = ss @ [[]]"
proof -
  have "split_on slash (join_on slash (ss @ [[]])) = ss @ [[]]"
    using assms by (intro split_join) (auto simp: clean_name_def list_all_iff)
  then show ?thesis using assms by (simp add: join_on_append)
qed

lemma path_Dir_join:
  assumes "list_all clean_name ss" "ss \<noteq> []" "slash \<notin> set x"
  shows "path_Dir (join_on slash (ss @ [x])) = join_on slash ss"
proof -
  note h = join_on_hd [OF assms(1,2)]
  have "upto_last slash (join_on slash (ss @ [x])) = join_on slash ss @ [slash]"
    using assms by (simp add: join_on_append upto_last_append)
  then show ?thesis
    using h assms by (simp add: path_Dir_def path_Clean_def split_join_slash clean_segs_id Let_def)
qed

text \<open>\<^verbatim>\<open>path.Dir\<close> of a path that is not rooted is shorter or \<^verbatim>\<open>.\<close>, and never empty.\<close>

definition weight :: "string list \<Rightarrow> nat" where
  "weight ss = sum_list (map (\<lambda>s. if s = [] then 0 else Suc (length s)) ss)"

lemma weight_simps [simp]:
  "weight [] = 0" "weight (s # ss) = (if s = [] then 0 else Suc (length s)) + weight ss" "weight (a @ b) = weight a + weight b"
  by (simp_all add: weight_def)

lemma clean_segs_weight: "weight (clean_segs r stk ss) \<le> weight (rev stk) + weight ss"
proof (induction r stk ss rule: clean_segs.induct)
  case (2 rooted stack s ss)
  then show ?case by (cases stack) (auto simp: Let_def)
qed simp

lemma clean_segs_set: "set (clean_segs r stk ss) \<subseteq> set stk \<union> {s \<in> set ss. s \<noteq> []}"
proof (induction r stk ss rule: clean_segs.induct)
  case (2 rooted stack s ss)
  then show ?case by (cases stack) auto
qed simp

lemma join_weight: "[] \<notin> set ss \<Longrightarrow> ss \<noteq> [] \<Longrightarrow> Suc (length (join_on x ss)) = weight ss"
  by (induction x ss rule: join_on.induct) auto

lemma join_hd_char:
  assumes "ss \<noteq> []" "[] \<notin> set ss" "\<And>t. t \<in> set ss \<Longrightarrow> x \<notin> set t"
  shows "List.hd (join_on x ss) \<noteq> x"
proof -
  obtain s ts where s: "ss = s # ts" "s \<noteq> []" "x \<notin> set s" using assms by (cases ss) auto
  then obtain c s' where "s = c # s'" "c \<noteq> x" by (cases s) auto
  with s show ?thesis by (cases ts) auto
qed

lemma split_weight: "weight (split_on x s) \<le> Suc (length s)"
proof -
  have "sum_list (map (\<lambda>t. Suc (length t)) (split_on x s)) = Suc (length s)"
  proof (induction s)
    case (Cons c s)
    then show ?case by (cases "split_on x s") auto
  qed simp
  moreover have "weight ss \<le> sum_list (map (\<lambda>t. Suc (length t)) ss)" for ss by (induction ss) auto
  ultimately show ?thesis by metis
qed

lemma split_weight_slash: "weight (split_on x (s @ [x])) \<le> Suc (length s)"
proof -
  have "split_on x (s @ [x]) = split_on x s @ [[]]"
  proof (induction s)
    case (Cons c s)
    then show ?case by (cases "split_on x s") auto
  qed simp
  then show ?thesis using split_weight [of x s] by simp
qed

lemma path_Dir_nonempty: "path_Dir p \<noteq> []"
  by (simp add: path_Dir_def path_Clean_def Let_def)

lemma path_Dir_shorter:
  assumes "p = [] \<or> List.hd p \<noteq> slash"
  shows "path_Dir p = [dot] \<or> (length (path_Dir p) < length p \<and> List.hd (path_Dir p) \<noteq> slash)"
proof (cases "slash \<in> set p")
  case False
  then show ?thesis by (simp add: path_Dir_name)
next
  case True
  then obtain a b where p: "p = a @ slash # b" "slash \<notin> set b" by (meson split_list_last)
  with assms have a: "a \<noteq> []" "List.hd a \<noteq> slash" by (cases a; auto)+
  let ?c = "clean_segs False [] (split_on slash (a @ [slash]))"
  have c: "[] \<notin> set ?c" using clean_segs_set [of False "[]"] by fastforce
  have d: "path_Dir p = (if join_on slash ?c = [] then [dot] else join_on slash ?c)"
    using a by (simp add: path_Dir_def upto_last_append p path_Clean_def Let_def)
  have "slash \<notin> set t" if "t \<in> set ?c" for t
    using clean_segs_set [of False "[]" "split_on slash (a @ [slash])"] that split_on_segs by fastforce
  then have "List.hd (join_on slash ?c) \<noteq> slash" if "?c \<noteq> []"
    using join_hd_char [OF that] c by auto
  moreover have "?c \<noteq> [] \<Longrightarrow> length (join_on slash ?c) < length p"
    using join_weight [OF c, of slash] clean_segs_weight [of False "[]" "split_on slash (a @ [slash])"]
      split_weight_slash [of slash a] p by simp
  moreover have "join_on slash ?c = []" if "?c = []" using that by simp
  ultimately show ?thesis using d by (cases "?c = []") auto
qed

end
