(* ===== verification/Go_Encoding.thy ===== *)
theory Go_Encoding
  imports Go_Strings
begin

text \<open>
  The parts of Go's \<^verbatim>\<open>strconv\<close>, \<^verbatim>\<open>encoding/hex\<close>, \<^verbatim>\<open>strings\<close> (white space) and \<^verbatim>\<open>net/url\<close> packages that the stores
  use, and the lemmas that decoding undoes encoding.
\<close>

abbreviation NL :: char where "NL \<equiv> CHR 0x0A"

section \<open>Numbers and hex\<close>

definition digit :: "char \<Rightarrow> nat option" where
  "digit c = (let n = (of_char c :: nat) in if 48 \<le> n \<and> n \<le> 57 then Some (n - 48) else None)"

fun dec :: "nat \<Rightarrow> string" where
  "dec n = (if n < 10 then [char_of (48 + n)] else dec (n div 10) @ [char_of (48 + n mod 10)])"

declare dec.simps [simp del]

fun digits_val :: "nat \<Rightarrow> string \<Rightarrow> nat option" where
  "digits_val acc [] = Some acc"
| "digits_val acc (c # cs) = (case digit c of None \<Rightarrow> None | Some d \<Rightarrow> digits_val (10 * acc + d) cs)"

text \<open>\<^verbatim>\<open>strconv.Atoi\<close>: an optional sign, decimal digits, and the range of \<^verbatim>\<open>int\<close>.\<close>

definition atoi :: "string \<Rightarrow> int option" where
  "atoi s =
     (let neg = (s \<noteq> [] \<and> List.hd s = CHR ''-'');
          ds = (if s \<noteq> [] \<and> (List.hd s = CHR ''-'' \<or> List.hd s = CHR ''+'') then tl s else s) in
      if ds = [] then None
      else case digits_val 0 ds of
        None \<Rightarrow> None
      | Some n \<Rightarrow> let v = (if neg then - int n else int n) in if in_i64 v then Some v else None)"

lemma digit_char [simp]: "n < 10 \<Longrightarrow> digit (char_of (48 + n)) = Some n"
  by (simp add: digit_def Let_def)

lemma digits_val_append: "digits_val a (s @ t) = (case digits_val a s of None \<Rightarrow> None | Some b \<Rightarrow> digits_val b t)"
  by (induction s arbitrary: a) (auto split: option.split)

lemma digits_val_dec: "digits_val 0 (dec n) = Some n"
proof (induction n rule: dec.induct)
  case (1 n)
  show ?case
  proof (cases "n < 10")
    case True
    then show ?thesis by (subst dec.simps) simp
  next
    case False
    with 1 have "digits_val 0 (dec (n div 10)) = Some (n div 10)" by simp
    with False show ?thesis by (subst dec.simps) (simp add: digits_val_append)
  qed
qed

lemma dec_digits: "c \<in> set (dec n) \<Longrightarrow> digit c \<noteq> None"
proof (induction n rule: dec.induct)
  case (1 n)
  then show ?case by (subst (asm) dec.simps) (auto split: if_splits)
qed

lemma dec_nonempty: "dec n \<noteq> []"
  by (subst dec.simps) simp

lemma digit_cases: "digit c \<noteq> None \<Longrightarrow> c \<noteq> CHR ''-'' \<and> c \<noteq> CHR ''+'' \<and> c \<noteq> CHR '' '' \<and> c \<noteq> CHR 0x0A"
  by (auto simp: digit_def Let_def split: if_splits)

lemma atoi_dec: "in_i64 (int n) \<Longrightarrow> atoi (dec n) = Some (int n)"
proof -
  assume n: "in_i64 (int n)"
  obtain c cs where d: "dec n = c # cs" using dec_nonempty by (cases "dec n") auto
  then have "c \<noteq> CHR ''-''" "c \<noteq> CHR ''+''" using dec_digits [of c n] digit_cases by auto
  then show ?thesis using n d digits_val_dec [of n] by (simp add: atoi_def)
qed

definition hex_digit :: "char \<Rightarrow> nat option" where
  "hex_digit c = (let n = (of_char c :: nat) in
     if 48 \<le> n \<and> n \<le> 57 then Some (n - 48)
     else if 97 \<le> n \<and> n \<le> 102 then Some (n - 87)
     else if 65 \<le> n \<and> n \<le> 70 then Some (n - 55) else None)"

fun hex_decode :: "string \<Rightarrow> string option" where
  "hex_decode [] = Some []"
| "hex_decode [c] = None"
| "hex_decode (a # b # cs) =
     (case hex_digit a of None \<Rightarrow> None
      | Some x \<Rightarrow> (case hex_digit b of None \<Rightarrow> None
      | Some y \<Rightarrow> map_option (\<lambda>s. char_of (16 * x + y) # s) (hex_decode cs)))"

definition hex_char :: "nat \<Rightarrow> char" where
  "hex_char n = (if n < 10 then char_of (48 + n) else char_of (87 + n))"

definition hex_encode :: "string \<Rightarrow> string" where
  "hex_encode s = concat (map (\<lambda>c. [hex_char (of_char c div 16), hex_char (of_char c mod 16)]) s)"

lemma hex_digit_char: "n < 16 \<Longrightarrow> hex_digit (hex_char n) = Some n"
  by (auto simp: hex_digit_def hex_char_def Let_def)

lemma nibbles: "(of_char c :: nat) div 16 < 16" "(of_char c :: nat) mod 16 < 16"
  using nat_of_char_less_256 [of c] by (simp_all add: less_mult_imp_div_less)

lemma hex_roundtrip: "hex_decode (hex_encode s) = Some s"
proof (induction s)
  case (Cons c s)
  show ?case using Cons nibbles [of c] by (simp add: hex_encode_def hex_digit_char)
qed (simp add: hex_encode_def)

lemma length_hex_encode [simp]: "length (hex_encode s) = 2 * length s"
  by (induction s) (simp_all add: hex_encode_def)

section \<open>White space\<close>

text \<open>
  A string is its bytes.  \<open>space_width\<close> is the length of the white space rune (\<^verbatim>\<open>unicode.IsSpace\<close>, in
  UTF-8) that a string starts with, or 0: the ASCII ones, U+0085, U+00A0, U+1680, U+2000 to U+200A, U+2028, U+2029,
  U+202F, U+205F and U+3000.  Their first bytes are no continuation bytes, so looking for one at
  every byte is looking at every rune.
\<close>

definition is_space :: "char \<Rightarrow> bool" where
  "is_space c \<longleftrightarrow> (let n = (of_char c :: nat) in n = 32 \<or> (9 \<le> n \<and> n \<le> 13))"

definition byte_at :: "nat \<Rightarrow> string \<Rightarrow> nat" where
  "byte_at i s = (if i < length s then of_char (s ! i) else 0)"

definition space_width :: "string \<Rightarrow> nat" where
  "space_width s =
     (if s = [] then 0
      else let a = byte_at 0 s; b = byte_at 1 s; c = byte_at 2 s in
      if a = 32 \<or> (9 \<le> a \<and> a \<le> 13) then 1
      else if a = 0xC2 \<and> (b = 0x85 \<or> b = 0xA0) then 2
      else if (a = 0xE1 \<and> b = 0x9A \<and> c = 0x80) \<or>
              (a = 0xE2 \<and> b = 0x80 \<and> (0x80 \<le> c \<and> c \<le> 0x8A \<or> c = 0xA8 \<or> c = 0xA9 \<or> c = 0xAF)) \<or>
              (a = 0xE2 \<and> b = 0x81 \<and> c = 0x9F) \<or> (a = 0xE3 \<and> b = 0x80 \<and> c = 0x80) then 3
      else 0)"

text \<open>\<^verbatim>\<open>strings.Fields\<close>: \<open>cur\<close> is the word read so far.\<close>

function fields_aux :: "string \<Rightarrow> string \<Rightarrow> string list" where
  "fields_aux cur [] = (if cur = [] then [] else [cur])"
| "fields_aux cur (c # cs) =
     (let n = space_width (c # cs) in
      if n = 0 then fields_aux (cur @ [c]) cs
      else if cur = [] then fields_aux [] (drop (n - 1) cs) else cur # fields_aux [] (drop (n - 1) cs))"
  by pat_completeness auto
termination by (relation "measure (\<lambda>(cur, s). length s)") auto

definition str_fields :: "string \<Rightarrow> string list" where
  "str_fields s = fields_aux [] s"

text \<open>\<^verbatim>\<open>strings.TrimSpace\<close>: the leading, then the trailing white space runes.\<close>

function trim_left :: "string \<Rightarrow> string" where
  "trim_left s = (if space_width s = 0 then s else trim_left (drop (space_width s) s))"
  by pat_completeness auto
termination by (relation "measure length") (auto simp: space_width_def)

declare trim_left.simps [simp del]

definition last_space :: "string \<Rightarrow> nat" where
  "last_space s = (let at = (\<lambda>k. k \<le> length s \<and> space_width (drop (length s - k) s) = k) in
     if at 1 then 1 else if at 2 then 2 else if at 3 then 3 else 0)"

function trim_right :: "string \<Rightarrow> string" where
  "trim_right s = (if s = [] \<or> last_space s = 0 then s else trim_right (take (length s - last_space s) s))"
  by pat_completeness auto
termination by (relation "measure length") auto

declare trim_right.simps [simp del]

definition trimSpace :: "string \<Rightarrow> string" where
  "trimSpace s = trim_right (trim_left s)"

text \<open>A word: no white space rune starts anywhere in it.\<close>

fun no_space :: "string \<Rightarrow> bool" where
  "no_space [] \<longleftrightarrow> True"
| "no_space (c # s) \<longleftrightarrow> space_width (c # s) = 0 \<and> no_space s"

definition ascii_word :: "string \<Rightarrow> bool" where
  "ascii_word w \<longleftrightarrow> list_all (\<lambda>c. \<not> is_space c \<and> (of_char c :: nat) < 128) w"

lemma space_width_Nil [simp]: "space_width [] = 0"
  by (simp add: space_width_def)

lemma is_space_less: "is_space c \<Longrightarrow> (of_char c :: nat) < 128"
  by (auto simp: is_space_def Let_def)

lemma space_width_ascii: "(of_char c :: nat) < 128 \<Longrightarrow> space_width (c # s) = (if is_space c then 1 else 0)"
  by (auto simp: space_width_def is_space_def byte_at_def Let_def)

lemma space_width_boundary:
  assumes "(of_char d :: nat) < 128"
  shows "space_width (c # w @ d # s) = space_width (c # w)"
proof -
  consider "w = []" | e where "w = [e]" | e f v where "w = e # f # v" by (metis list.exhaust)
  then show ?thesis using assms by cases (auto simp: space_width_def byte_at_def Let_def)
qed

lemma fields_aux_word: "no_space w \<Longrightarrow> is_space d \<Longrightarrow> fields_aux cur (w @ d # s) = fields_aux (cur @ w) (d # s)"
proof (induction w arbitrary: cur)
  case (Cons c w)
  then show ?case using space_width_boundary [OF is_space_less [OF Cons.prems(2)], of c w s] by (simp del: fields_aux.simps(2)) (simp add: Let_def)
qed simp

lemma space_width_le: "space_width s \<le> length s"
proof -
  consider "s = []" | a where "s = [a]" | a b where "s = [a, b]" | a b c v where "s = a # b # c # v" by (metis list.exhaust)
  then show ?thesis by cases (simp_all add: space_width_def byte_at_def Let_def)
qed

lemma fields_aux_append:
  assumes "is_space d"
  shows "fields_aux cur (s @ d # t) = fields_aux cur s @ fields_aux [] t"
proof (induction cur s rule: fields_aux.induct)
  case (1 cur)
  then show ?case using space_width_ascii [OF is_space_less [OF assms]] assms by simp
next
  case (2 cur c cs)
  let ?n = "space_width (c # cs)"
  have n: "space_width (c # cs @ d # t) = ?n" by (rule space_width_boundary [OF is_space_less [OF assms]])
  have "?n - 1 \<le> length cs" using space_width_le [of "c # cs"] by simp
  then have "drop (?n - 1) (cs @ d # t) = drop (?n - 1) cs @ d # t" by simp
  then show ?case using 2 n by (auto simp: Let_def)
qed

lemma fields_words:
  assumes "no_space w" "w \<noteq> []" "is_space c"
  shows "str_fields (w @ c # s) = w # str_fields s"
  using assms space_width_ascii [OF is_space_less [OF assms(3)]] by (simp add: str_fields_def fields_aux_word)

lemma space_chars [simp]: "is_space CHR '' ''" "is_space (CHR 0x0A)"
  by (simp_all add: is_space_def)

lemma fields_Nil [simp]: "str_fields [] = []"
  by (simp add: str_fields_def)

lemma ascii_word_Cons [simp]: "ascii_word [] " "ascii_word (c # w) \<longleftrightarrow> \<not> is_space c \<and> (of_char c :: nat) < 128 \<and> ascii_word w"
  "ascii_word (u @ w) \<longleftrightarrow> ascii_word u \<and> ascii_word w"
  by (auto simp: ascii_word_def)

lemma no_space_ascii_append: "ascii_word u \<Longrightarrow> no_space (u @ v) = no_space v"
  by (induction u) (simp_all add: space_width_ascii)

lemma ascii_word_no_space: "ascii_word w \<Longrightarrow> no_space w"
  using no_space_ascii_append [of w "[]"] by simp

lemma no_space_append_ascii: "no_space u \<Longrightarrow> ascii_word v \<Longrightarrow> no_space (u @ v)"
proof (induction u)
  case (Cons c u)
  then show ?case
    by (cases v) (auto simp: space_width_boundary)
qed (simp add: ascii_word_no_space)

lemma no_space_char: "no_space w \<Longrightarrow> is_space c \<Longrightarrow> c \<notin> set w"
  by (induction w) (auto simp: space_width_ascii is_space_less)

lemma digit_word: "digit c \<noteq> None \<Longrightarrow> \<not> is_space c \<and> (of_char c :: nat) < 128"
  by (auto simp: digit_def is_space_def Let_def split: if_splits)

lemma dec_word: "ascii_word (dec n)"
  unfolding ascii_word_def list_all_iff using dec_digits digit_word by blast

lemma hex_char_word: "n < 16 \<Longrightarrow> \<not> is_space (hex_char n) \<and> (of_char (hex_char n) :: nat) < 128"
  by (auto simp: hex_char_def is_space_def)

lemma hex_word: "ascii_word (hex_encode s)"
  by (induction s) (simp_all add: hex_encode_def hex_char_word nibbles)

lemmas dec_no_space = ascii_word_no_space [OF dec_word] and hex_no_space = ascii_word_no_space [OF hex_word]

lemma no_space_no_nl: "no_space w \<Longrightarrow> CHR 0x0A \<notin> set w"
  by (simp add: no_space_char)

lemma trim_line:
  assumes "ascii_word w" "w \<noteq> []" "is_space c"
  shows "trimSpace (w @ [c]) = w"
proof -
  obtain d v where w: "w = d # v" "\<not> is_space d" "(of_char d :: nat) < 128" using assms by (cases w) auto
  obtain u e where u: "w = u @ [e]" using assms(2) by (metis rev_exhaust)
  then have e: "\<not> is_space e" "(of_char e :: nat) < 128" "ascii_word u" using assms(1) by simp_all
  have "trim_left (w @ [c]) = w @ [c]" by (subst trim_left.simps) (simp add: w space_width_ascii)
  moreover have "last_space (w @ [c]) = 1" using assms(3) by (simp add: last_space_def space_width_ascii is_space_less)
  moreover have "last_space w = 0"
  proof -
    have "space_width (drop (length w - k) w) \<le> 0" if "k \<in> {1, 2, 3}" "k \<le> length w" for k
    proof -
      have "ascii_word (drop (length w - k) w)" using assms(1) set_drop_subset [of "length w - k" w] by (auto simp: ascii_word_def list_all_iff)
      then show ?thesis by (cases "drop (length w - k) w") (simp_all add: space_width_ascii)
    qed
    from this [of 1] this [of 2] this [of 3] show ?thesis by (auto simp: last_space_def Let_def)
  qed
  ultimately show ?thesis unfolding trimSpace_def by (simp add: trim_right.simps [of "w @ [c]"] trim_right.simps [of w])
qed

section \<open>URL escaping\<close>

text \<open>\<^verbatim>\<open>url.PathEscape\<close> and \<^verbatim>\<open>url.PathUnescape\<close>.\<close>

definition is_alnum :: "char \<Rightarrow> bool" where
  "is_alnum c \<longleftrightarrow> (let n = (of_char c :: nat) in (48 \<le> n \<and> n \<le> 57) \<or> (65 \<le> n \<and> n \<le> 90) \<or> (97 \<le> n \<and> n \<le> 122))"

definition shouldEscape :: "char \<Rightarrow> bool" where
  "shouldEscape c \<longleftrightarrow> \<not> (is_alnum c \<or> c \<in> set ''-_.~$&+:=@'')"

definition upperhex :: "nat \<Rightarrow> char" where
  "upperhex n = (if n < 10 then char_of (48 + n) else char_of (55 + n))"

definition url_PathEscape :: "string \<Rightarrow> string" where
  "url_PathEscape s =
     concat (map (\<lambda>c. if shouldEscape c then [CHR ''%'', upperhex (of_char c div 16), upperhex (of_char c mod 16)] else [c]) s)"

fun url_PathUnescape :: "string \<Rightarrow> string option" where
  "url_PathUnescape [] = Some []"
| "url_PathUnescape (c # s) =
     (if c = CHR ''%'' then
        (case s of
           a # b # r \<Rightarrow>
             (case (hex_digit a, hex_digit b) of
                (Some x, Some y) \<Rightarrow> map_option (\<lambda>t. char_of (16 * x + y) # t) (url_PathUnescape r)
              | _ \<Rightarrow> None)
         | _ \<Rightarrow> None)
      else map_option (\<lambda>t. c # t) (url_PathUnescape s))"

lemma hex_digit_upper: "n < 16 \<Longrightarrow> hex_digit (upperhex n) = Some n"
  by (auto simp: hex_digit_def upperhex_def Let_def)

lemma percent_escaped: "shouldEscape CHR ''%''"
  by (simp add: shouldEscape_def is_alnum_def)

lemma url_roundtrip: "url_PathUnescape (url_PathEscape s) = Some s"
proof (induction s)
  case (Cons c s)
  show ?case
  proof (cases "shouldEscape c")
    case True
    have u: "url_PathEscape (c # s) = CHR ''%'' # upperhex (of_char c div 16) # upperhex (of_char c mod 16) # url_PathEscape s"
      using True by (simp add: url_PathEscape_def)
    have "char_of (16 * (of_char c div 16) + of_char c mod 16 :: nat) = c" by simp
    then show ?thesis unfolding u using Cons nibbles [of c] by (simp add: hex_digit_upper)
  next
    case False
    then have "c \<noteq> CHR ''%''" using percent_escaped by blast
    moreover have "url_PathEscape (c # s) = c # url_PathEscape s" using False by (simp add: url_PathEscape_def)
    ultimately show ?thesis using Cons by simp
  qed
qed (simp add: url_PathEscape_def)

lemma upperhex_alnum: "n < 16 \<Longrightarrow> is_alnum (upperhex n)"
  by (auto simp: is_alnum_def upperhex_def Let_def)

lemma url_PathEscape_chars: "c \<in> set (url_PathEscape s) \<Longrightarrow> c = CHR ''%'' \<or> is_alnum c \<or> (c \<in> set s \<and> \<not> shouldEscape c)"
  using upperhex_alnum nibbles by (fastforce simp: url_PathEscape_def split: if_splits)

lemma escape_free:
  assumes "shouldEscape x" "x \<noteq> CHR ''%''" "\<not> is_alnum x"
  shows "x \<notin> set (url_PathEscape s)"
  using url_PathEscape_chars [of x s] assms by blast

lemma escape_free_at: "at_sign \<notin> set s \<Longrightarrow> at_sign \<notin> set (url_PathEscape s)"
  using url_PathEscape_chars [of at_sign s] by (auto simp: is_alnum_def)

lemma special_escaped [simp]: "CHR ''('' \<notin> set (url_PathEscape s)" "NL \<notin> set (url_PathEscape s)"
  by (rule escape_free; simp add: shouldEscape_def is_alnum_def)+

text \<open>\<^verbatim>\<open>url.QueryEscape\<close> and its inverse, by which a server reads a query.\<close>

definition query_plain :: "char \<Rightarrow> bool" where
  "query_plain c \<longleftrightarrow> is_alnum c \<or> c \<in> set ''-_.~''"

definition url_QueryEscape :: "string \<Rightarrow> string" where
  "url_QueryEscape s =
     concat (map (\<lambda>c. if c = CHR '' '' then ''+''
       else if query_plain c then [c] else [CHR ''%'', upperhex (of_char c div 16), upperhex (of_char c mod 16)]) s)"

definition url_QueryUnescape :: "string \<Rightarrow> string option" where
  "url_QueryUnescape s = url_PathUnescape (map (\<lambda>c. if c = CHR ''+'' then CHR '' '' else c) s)"

lemma upperhex_chars: "n < 16 \<Longrightarrow> upperhex n \<noteq> CHR ''+''"
  using upperhex_alnum [of n] by (auto simp: is_alnum_def)

lemma query_roundtrip: "url_QueryUnescape (url_QueryEscape s) = Some s"
proof (induction s)
  case (Cons c s)
  let ?m = "map (\<lambda>c. if c = CHR ''+'' then CHR '' '' else c)"
  have u: "?m (url_QueryEscape (c # s)) = ?m (if c = CHR '' '' then ''+''
       else if query_plain c then [c] else [CHR ''%'', upperhex (of_char c div 16), upperhex (of_char c mod 16)]) @ ?m (url_QueryEscape s)"
    by (simp add: url_QueryEscape_def)
  consider "c = CHR '' ''" | "c \<noteq> CHR '' ''" "query_plain c" | "c \<noteq> CHR '' ''" "\<not> query_plain c" by blast
  then show ?case
  proof cases
    case 1
    with Cons show ?thesis unfolding url_QueryUnescape_def u by simp
  next
    case 2
    then have "c \<noteq> CHR ''%'' \<and> c \<noteq> CHR ''+''" by (auto simp: query_plain_def is_alnum_def)
    with 2 Cons show ?thesis unfolding url_QueryUnescape_def u by simp
  next
    case 3
    have "char_of (16 * (of_char c div 16) + of_char c mod 16 :: nat) = c" by simp
    with 3 Cons show ?thesis unfolding url_QueryUnescape_def u
      using nibbles [of c] by (simp add: upperhex_chars hex_digit_upper)
  qed
qed (simp add: url_QueryUnescape_def url_QueryEscape_def)

end
