(* ===== verification/Git_Helper.thy ===== *)
theory Git_Helper
  imports Go_Encoding
begin

text \<open>
  The \<^verbatim>\<open>git cat-file --batch\<close> helper of \<^verbatim>\<open>store/gitstore/gitstore.go\<close>: the queue of object requests and
  the goroutine that serves it, as a step relation over the states the mutex and the channels allow,
  and the parser of the helper's answers.
\<close>

section \<open>Requests\<close>

record objRequest =
  rq_id :: nat
  rq_rev :: string
  rq_stop :: bool

datatype obj_response = Resp_Empty | Resp_Missing | Resp_Obj string string string | Resp_Err

text \<open>
  A helper goroutine: starting its process, at the top of its loop, blocked waiting for work, serving
  a request, or leaving (with a stop request still to answer, or not).
\<close>

datatype worker = Starting | Looping | Blocked | Serving objRequest | Exiting "nat option"

text \<open>
  \<open>queued\<close>, \<open>served\<close> and \<open>immediate\<close> are traces: the requests put in the queue, the answers the helpers
  sent, and the stop requests answered without a helper.
\<close>

record git_state =
  pendReq :: "objRequest list"
  wake :: "bool option"
  catFileBatchRunning :: bool
  workers :: "worker list"
  queued :: "nat list"
  served :: "(nat \<times> obj_response) list"
  immediate :: "nat list"

definition git_init :: git_state where
  "git_init = \<lparr>pendReq = [], wake = None, catFileBatchRunning = False, workers = [], queued = [], served = [], immediate = []\<rparr>"

definition startRequest :: "objRequest \<Rightarrow> git_state \<Rightarrow> git_state" where
  "startRequest req s =
     (if rq_stop req \<and> \<not> catFileBatchRunning s then s\<lparr>immediate := immediate s @ [rq_id req]\<rparr>
      else
      let s = s\<lparr>pendReq := pendReq s @ [req], queued := queued s @ [rq_id req], wake := Some True\<rparr> in
      if \<not> catFileBatchRunning s
      then s\<lparr>catFileBatchRunning := True, workers := workers s @ [Starting]\<rparr>
      else s)"

definition tryTakePendingRequest :: "git_state \<Rightarrow> objRequest option \<times> git_state" where
  "tryTakePendingRequest s =
     (let s = (if wake s = None then s\<lparr>wake := Some False\<rparr> else s) in
      case pendReq s of
        req # rest \<Rightarrow> (Some req, s\<lparr>pendReq := rest\<rparr>)
      | [] \<Rightarrow> (None, s))"

text \<open>\<^verbatim>\<open>noteCatFileBatchDone\<close>, the last act of the helper that is worker \<open>i\<close>.\<close>

definition noteCatFileBatchDone :: "nat \<Rightarrow> git_state \<Rightarrow> git_state" where
  "noteCatFileBatchDone i s =
     (let ws = take i (workers s) @ drop (Suc i) (workers s) in
      if pendReq s = []
      then s\<lparr>workers := ws @ [Starting], wake := Some True\<rparr>
      else s\<lparr>workers := ws, catFileBatchRunning := False\<rparr>)"

definition at_worker :: "git_state \<Rightarrow> nat \<Rightarrow> worker \<Rightarrow> bool" where
  "at_worker s i w \<longleftrightarrow> i < length (workers s) \<and> workers s ! i = w"

definition set_worker :: "nat \<Rightarrow> worker \<Rightarrow> git_state \<Rightarrow> git_state" where
  "set_worker i w s = s\<lparr>workers := (workers s)[i := w]\<rparr>"

definition answer :: "nat \<Rightarrow> obj_response \<Rightarrow> git_state \<Rightarrow> git_state" where
  "answer k r s = s\<lparr>served := served s @ [(k, r)]\<rparr>"

inductive git_step :: "git_state \<Rightarrow> git_state \<Rightarrow> bool" where
  submit: "git_step s (startRequest req s)"
| start_ok: "at_worker s i Starting \<Longrightarrow> git_step s (set_worker i Looping s)"
| start_fail: "at_worker s i Starting \<Longrightarrow> git_step s (set_worker i (Exiting None) s)"
| take_req: "at_worker s i Looping \<Longrightarrow> tryTakePendingRequest s = (Some req, s') \<Longrightarrow>
    git_step s (set_worker i (if rq_stop req then Exiting (Some (rq_id req)) else Serving req) s')"
| take_none: "at_worker s i Looping \<Longrightarrow> tryTakePendingRequest s = (None, s') \<Longrightarrow> git_step s (set_worker i Blocked s')"
| woken: "at_worker s i Blocked \<Longrightarrow> wake s = Some True \<Longrightarrow> git_step s (set_worker i Looping (s\<lparr>wake := Some False\<rparr>))"
| timeout: "at_worker s i Blocked \<Longrightarrow> git_step s (set_worker i (Exiting None) s)"
| serve_ok: "at_worker s i (Serving req) \<Longrightarrow> r = Resp_Missing \<or> r = Resp_Obj t c h \<Longrightarrow>
    git_step s (set_worker i Looping (answer (rq_id req) r s))"
| serve_err: "at_worker s i (Serving req) \<Longrightarrow> git_step s (set_worker i (Exiting None) (answer (rq_id req) Resp_Err s))"
| answer_stop: "at_worker s i (Exiting (Some k)) \<Longrightarrow> git_step s (set_worker i (Exiting None) (answer k Resp_Empty s))"
| finish: "at_worker s i (Exiting None) \<Longrightarrow> git_step s (noteCatFileBatchDone i s)"

inductive_cases git_stepE: "git_step s s'"

definition git_reachable :: "git_state \<Rightarrow> bool" where
  "git_reachable s \<longleftrightarrow> git_step\<^sup>*\<^sup>* git_init s"

section \<open>The queue\<close>

fun in_service :: "worker \<Rightarrow> nat list" where
  "in_service (Serving req) = [rq_id req]"
| "in_service (Exiting (Some k)) = [k]"
| "in_service _ = []"

definition queue_inv :: "git_state \<Rightarrow> bool" where
  "queue_inv s \<longleftrightarrow>
     (\<exists>w. workers s = (if catFileBatchRunning s then [w] else [])) \<and>
     map fst (served s) @ concat (map in_service (workers s)) @ map rq_id (pendReq s) = queued s"

lemma queue_inv_one: "queue_inv s \<Longrightarrow> at_worker s i w \<Longrightarrow> i = 0 \<and> workers s = [w] \<and> catFileBatchRunning s"
  by (auto simp: queue_inv_def at_worker_def split: if_splits)

lemma queue_inv_step:
  assumes "git_step s s'" "queue_inv s"
  shows "queue_inv s'"
  using assms(1)
proof cases
  case (submit req)
  with assms(2) show ?thesis
    by (auto simp: queue_inv_def startRequest_def Let_def split: if_splits)
next
  case (take_req i req s1)
  note w = queue_inv_one [OF assms(2) take_req(2)]
  from take_req(3) have "pendReq s = req # pendReq s1" "workers s1 = workers s" "served s1 = served s"
    "queued s1 = queued s" "catFileBatchRunning s1 = catFileBatchRunning s"
    by (auto simp: tryTakePendingRequest_def Let_def split: list.splits if_splits)
  with w assms(2) take_req show ?thesis by (auto simp: queue_inv_def set_worker_def)
next
  case (take_none i s1)
  note w = queue_inv_one [OF assms(2) take_none(2)]
  from take_none(3) have "pendReq s = pendReq s1" "workers s1 = workers s" "served s1 = served s"
    "queued s1 = queued s" "catFileBatchRunning s1 = catFileBatchRunning s"
    by (auto simp: tryTakePendingRequest_def Let_def split: list.splits if_splits)
  with w assms(2) take_none show ?thesis by (auto simp: queue_inv_def set_worker_def)
next
  case (finish i)
  note w = queue_inv_one [OF assms(2) finish(2)]
  with assms(2) finish show ?thesis by (auto simp: queue_inv_def noteCatFileBatchDone_def)
qed (use assms(2) queue_inv_one [OF assms(2)] in \<open>fastforce simp: queue_inv_def set_worker_def answer_def\<close>)+

text \<open>
  C24. The request queue loses nothing and keeps order, in every reachable state of every interleaving
  of callers and helpers: the answers sent so far, the request in service and the queue together are
  exactly the requests queued, in their order (each answered at most once, first come first
  served), there is never more than one helper, and the running flag says whether there is one.
\<close>
theorem git_queue_fifo:
  assumes "git_reachable s"
  shows "map fst (served s) @ concat (map in_service (workers s)) @ map rq_id (pendReq s) = queued s \<and>
    length (workers s) = (if catFileBatchRunning s then 1 else 0)"
proof -
  from assms have "git_step\<^sup>*\<^sup>* git_init s" by (simp add: git_reachable_def)
  then have "queue_inv s"
  proof (induction rule: rtranclp_induct)
    case base
    show ?case by (simp add: queue_inv_def git_init_def)
  qed (rule queue_inv_step)
  then show ?thesis by (auto simp: queue_inv_def)
qed

text \<open>A request left behind when a helper leaves: the queue is not empty and nobody serves it.\<close>

definition orphaned :: git_state where
  "orphaned = git_init\<lparr>pendReq := [\<lparr>rq_id = 1, rq_rev = ''r'', rq_stop = False\<rparr>], wake := Some True, queued := [1]\<rparr>"

lemma orphaned_reachable: "git_reachable orphaned"
proof -
  let ?r = "\<lparr>rq_id = 1, rq_rev = ''r'', rq_stop = False\<rparr>"
  let ?s1 = "startRequest ?r git_init"
  let ?s2 = "set_worker 0 (Exiting None) ?s1"
  have "git_step git_init ?s1" by (rule submit)
  moreover have "git_step ?s1 ?s2"
    by (rule start_fail) (simp add: at_worker_def startRequest_def git_init_def Let_def)
  moreover have "git_step ?s2 (noteCatFileBatchDone 0 ?s2)"
    by (rule finish) (simp add: at_worker_def startRequest_def git_init_def Let_def set_worker_def)
  moreover have "noteCatFileBatchDone 0 ?s2 = orphaned"
    by (simp add: noteCatFileBatchDone_def orphaned_def startRequest_def git_init_def Let_def set_worker_def)
  ultimately show ?thesis unfolding git_reachable_def by (metis (no_types, lifting) rtranclp.simps)
qed

theorem git_queue_fifo_witness:
  "map fst (served orphaned) @ concat (map in_service (workers orphaned)) @ map rq_id (pendReq orphaned) = queued orphaned \<and>
   length (workers orphaned) = (if catFileBatchRunning orphaned then 1 else 0)"
  by (rule git_queue_fifo [OF orphaned_reachable])

text \<open>
  A helper that leaves while requests are queued strands them: a state is reachable in which a
  request waits, no helper runs, and no step but another caller's request is possible.
\<close>
theorem git_request_stranded:
  "\<exists>s. git_reachable s \<and> pendReq s \<noteq> [] \<and> workers s = [] \<and>
     (\<forall>s'. git_step s s' \<longrightarrow> (\<exists>req. s' = startRequest req s))"
proof (rule exI [of _ orphaned], intro conjI allI impI)
  show "git_reachable orphaned" by (rule orphaned_reachable)
  show "pendReq orphaned \<noteq> []" "workers orphaned = []" by (simp_all add: orphaned_def git_init_def)
  fix s' assume "git_step orphaned s'"
  then show "\<exists>req. s' = startRequest req orphaned"
    by cases (auto simp: at_worker_def orphaned_def git_init_def)
qed

section \<open>Object names\<close>

text \<open>
  \<^verbatim>\<open>hex.Decode\<close> into the 20 bytes of an \<^verbatim>\<open>objRef\<close>: a shorter name leaves zero bytes, the
  twenty-first good pair of digits is an index out of range.
\<close>

datatype ref_result = Ref string | Ref_Err | Ref_Panic

definition hex_objRef :: "string \<Rightarrow> ref_result" where
  "hex_objRef s =
     (if 42 \<le> length s then (if hex_decode (take 42 s) = None then Ref_Err else Ref_Panic)
      else case hex_decode s of
        None \<Rightarrow> Ref_Err
      | Some ref \<Rightarrow> Ref (ref @ replicate (20 - length ref) (CHR 0x00)))"

lemma hex_objRef_encode [simp]: "length ref = 20 \<Longrightarrow> hex_objRef (hex_encode ref) = Ref ref"
  by (simp add: hex_objRef_def hex_roundtrip)

section \<open>The helper's answers\<close>

definition maxObjSize :: int where
  "maxObjSize = push_bit 20 512"

text \<open>\<^verbatim>\<open>br.ReadBytes\<close>: the line with its newline, and what follows; no newline is an error.\<close>

definition readLine :: "string \<Rightarrow> (string \<times> string) option" where
  "readLine s = map_option (\<lambda>(l, r). (l @ [CHR 0x0A], r)) (cut_at [CHR 0x0A] s)"

datatype cat_result = Cat_Missing | Cat_Obj string string string | Cat_Err | Cat_Panic

text \<open>
  The answer to one request, from the helper's output: the result and the rest of the output.  An
  error ends the helper.
\<close>

definition read_answer :: "string \<Rightarrow> cat_result \<times> string" where
  "read_answer out =
     (case readLine out of
        None \<Rightarrow> (Cat_Err, out)
      | Some (line, rest) \<Rightarrow>
          (case str_fields line of
             hash # objType # extra \<Rightarrow>
               (if objType = ''missing'' then (Cat_Missing, rest)
                else case extra of
                  [sizeStr] \<Rightarrow>
                    (case atoi sizeStr of
                       None \<Rightarrow> (Cat_Err, rest)
                     | Some sz \<Rightarrow>
                         (if sz < 0 \<or> sz > maxObjSize then (Cat_Err, rest)
                          else
                          let n = nat sz in
                          if length rest < Suc n then (Cat_Err, rest)
                          else if rest ! n \<noteq> CHR 0x0A then (Cat_Err, drop (Suc n) rest)
                          else case hex_objRef hash of
                            Ref_Err \<Rightarrow> (Cat_Err, drop (Suc n) rest)
                          | Ref_Panic \<Rightarrow> (Cat_Panic, drop (Suc n) rest)
                          | Ref ref \<Rightarrow> (Cat_Obj objType (take n rest) ref, drop (Suc n) rest)))
                | _ \<Rightarrow> (Cat_Err, rest))
           | _ \<Rightarrow> (Cat_Err, rest)))"

text \<open>What \<^verbatim>\<open>git cat-file --batch\<close> prints for a present and for a missing object.\<close>

definition git_present :: "string \<Rightarrow> string \<Rightarrow> string \<Rightarrow> string" where
  "git_present ref typ content = hex_encode ref @ '' '' @ typ @ '' '' @ dec (length content) @ [CHR 0x0A] @ content @ [CHR 0x0A]"

definition git_missing :: "string \<Rightarrow> string" where
  "git_missing rv = rv @ '' missing'' @ [CHR 0x0A]"

lemma readLine_line: "CHR 0x0A \<notin> set l \<Longrightarrow> readLine (l @ CHR 0x0A # r) = Some (l @ [CHR 0x0A], r)"
  by (simp add: readLine_def cut_at_char)

lemma read_present:
  assumes "length ref = 20" "no_space typ" "typ \<noteq> []" "typ \<noteq> ''missing''" "int (length content) \<le> maxObjSize"
  shows "read_answer (git_present ref typ content @ rest) = (Cat_Obj typ content ref, rest)"
proof -
  let ?sz = "dec (length content)"
  define l where "l = hex_encode ref @ '' '' @ typ @ '' '' @ ?sz"
  have nl: "CHR 0x0A \<notin> set l"
    using hex_no_space [of ref] assms(2) dec_no_space [of "length content"] by (auto simp: l_def dest!: no_space_no_nl)
  have "hex_encode ref \<noteq> []" using assms(1) by (cases ref) (auto simp: hex_encode_def)
  then have f: "str_fields (l @ [CHR 0x0A]) = [hex_encode ref, typ, ?sz]"
    using hex_no_space assms(2,3) dec_no_space dec_nonempty by (simp add: l_def fields_words)
  have "git_present ref typ content @ rest = l @ CHR 0x0A # content @ CHR 0x0A # rest"
    by (simp add: git_present_def l_def)
  then have rl: "readLine (git_present ref typ content @ rest) = Some (l @ [CHR 0x0A], content @ CHR 0x0A # rest)"
    using readLine_line [OF nl] by simp
  have "in_i64 (int (length content))" using assms(5) by (simp add: maxObjSize_def in_i64_def push_bit_eq_mult)
  then have a: "atoi ?sz = Some (int (length content))" by (rule atoi_dec)
  show ?thesis using assms(1,4,5) by (simp add: read_answer_def rl f a Let_def)
qed

lemma missing_word: "no_space ''missing''"
  by (rule ascii_word_no_space) (simp add: is_space_def)

text \<open>The fields of the line for a missing revision are those of the revision, then \<^verbatim>\<open>missing\<close>.\<close>

lemma missing_fields: "str_fields ((rv @ '' missing'') @ [CHR 0x0A]) = str_fields rv @ [''missing'']"
  using fields_aux_append [of "CHR '' ''" "[]" rv "''missing'' @ [CHR 0x0A]"] fields_words [of "''missing''" "CHR 0x0A" "[]"] missing_word
  by (simp add: str_fields_def)

lemma read_missing:
  assumes "no_space rv" "rv \<noteq> []"
  shows "read_answer (git_missing rv @ rest) = (Cat_Missing, rest)"
proof -
  have "str_fields ((rv @ '' missing'') @ [CHR 0x0A]) = [rv, ''missing'']"
    using fields_words [of rv "CHR '' ''" "''missing'' @ [CHR 0x0A]"] assms
      fields_words [of "''missing''" "CHR 0x0A" "[]"] missing_word by simp
  moreover have "readLine (git_missing rv @ rest) = Some ((rv @ '' missing'') @ [CHR 0x0A], rest)"
    using readLine_line [of "rv @ '' missing''" rest] no_space_no_nl [OF assms(1)] by (simp add: git_missing_def)
  ultimately show ?thesis by (simp add: read_answer_def)
qed

lemma read_missing_spaced:
  assumes "CHR 0x0A \<notin> set rv" "str_fields rv = a # b # more'" "b \<noteq> ''missing''"
  shows "read_answer (git_missing rv @ rest) = (Cat_Err, rest)"
proof -
  have "readLine (git_missing rv @ rest) = Some ((rv @ '' missing'') @ [CHR 0x0A], rest)"
    using readLine_line [of "rv @ '' missing''" rest] assms(1) by (simp add: git_missing_def)
  moreover have "atoi ''missing'' = None" by code_simp
  ultimately show ?thesis using assms(2,3) missing_fields [of rv] by (cases more') (auto simp: read_answer_def split: list.splits)
qed



end
