(* ===== verification/Mod_Path.thy ===== *)
theory Mod_Path
  imports Go_Strings "HOL-Library.AList"
begin

text \<open>
  The path grammar of the file system: \<^verbatim>\<open>path.go\<close>, the tsgo helpers of \<^verbatim>\<open>tsgo.go\<close> and the path
  builders of \<^verbatim>\<open>gomodfs.go\<close>.  The escaping functions of \<^verbatim>\<open>golang.org/x/mod/module\<close> are not in the
  repository: they are the fields of the parameter \<open>xmod\<close>, \<^term>\<open>None\<close> being an error.
\<close>

section \<open>Data\<close>

record mod_version =
  Module :: string
  Version :: string

definition no_mv :: mod_version where
  "no_mv = \<lparr>Module = [], Version = []\<rparr>"

definition mv_IsValid :: "mod_version \<Rightarrow> bool" where
  "mv_IsValid mv \<longleftrightarrow> Module mv \<noteq> [] \<and> Version mv \<noteq> []"

record xmod =
  UnescapePath :: "string \<Rightarrow> string option"
  UnescapeVersion :: "string \<Rightarrow> string option"
  EscapePath :: "string \<Rightarrow> string option"
  EscapeVersion :: "string \<Rightarrow> string option"

record gmPath =
  WellKnown :: string
  NotExist :: bool
  CacheDownloadFileExt :: string
  InZip :: bool
  Path :: string
  ModVersion :: mod_version

definition zero_path :: gmPath where
  "zero_path = \<lparr>WellKnown = [], NotExist = False, CacheDownloadFileExt = [], InZip = False,
     Path = [], ModVersion = no_mv\<rparr>"

definition statusFile :: string where
  "statusFile = ''.gomodfs-status''"

definition wkTSGoExtracted :: string where
  "wkTSGoExtracted = ''tsgo.extracted''"

section \<open>tsgo\<close>

record tsgoTriple =
  OS :: string
  Arch :: string
  Hash :: string

definition tsGoGeese :: "string list" where
  "tsGoGeese = [''linux'', ''darwin'', ''windows'']"

definition tsGoGoarches :: "string list" where
  "tsGoGoarches = [''amd64'', ''arm64'']"

definition validTSGoOSARCH :: "string \<Rightarrow> string \<Rightarrow> bool" where
  "validTSGoOSARCH goos goarch \<longleftrightarrow>
     (goos = ''linux'' \<or> goos = ''darwin'' \<or> goos = ''windows'') \<and> (goarch = ''amd64'' \<or> goarch = ''arm64'')"

definition tsgoExtractedFileContents :: "string \<Rightarrow> string" where
  "tsgoExtractedFileContents hash = hash @ [CHR 0x0A]"

definition tsGoVersion :: "tsgoTriple \<Rightarrow> string" where
  "tsGoVersion t = ''tsgo-'' @ OS t @ ''-'' @ Arch t @ ''-'' @ Hash t"

definition tsGoZipRoot :: "tsgoTriple \<Rightarrow> string" where
  "tsGoZipRoot t = ''tsgo-'' @ OS t @ ''-'' @ Arch t @ ''/'' @ Hash t"

definition isTSGoModule :: "mod_version \<Rightarrow> tsgoTriple option" where
  "isTSGoModule mv =
     (if Module mv \<noteq> ''github.com/tailscale/go'' then None
      else let (rest, ok) = cutPrefix (Version mv) ''tsgo-'' in
      if \<not> ok then None
      else let (goos, rest, ok) = cut rest ''-'' in
      if \<not> ok then None
      else let (goarch, hash, ok) = cut rest ''-'' in
      if \<not> ok then None
      else Some \<lparr>OS = goos, Arch = goarch, Hash = hash\<rparr>)"

text \<open>
  The source ranges over runes; a byte that is not ASCII starts or continues a rune that is no hex
  digit, so ranging over bytes accepts the same strings.
\<close>

definition isHexChar :: "char \<Rightarrow> bool" where
  "isHexChar r \<longleftrightarrow>
     (let n = (of_char r :: nat) in 48 \<le> n \<and> n \<le> 57 \<or> 97 \<le> n \<and> n \<le> 102 \<or> 65 \<le> n \<and> n \<le> 70)"

definition parseTSGoPath :: "string \<Rightarrow> gmPath" where
  "parseTSGoPath name0 =
     (let ret = zero_path; (name, ok) = cutPrefix name0 ''tsgo-'' in
      if \<not> ok then ret
      else let (osHyphenArch, rest, ok) = cut name ''/'' in
      if \<not> ok then ret
      else let (goos, goarch, ok) = cut osHyphenArch ''-'' in
      if \<not> ok then ret
      else if \<not> validTSGoOSARCH goos goarch then ret\<lparr>NotExist := True\<rparr>
      else let (firstSeg, rest, _) = cut rest ''/'';
               (hash, wantExtractedFile) = cutSuffix firstSeg ''.extracted'';
               ret = (if length hash \<noteq> 40 then ret\<lparr>NotExist := True\<rparr> else ret) in
      if \<not> list_all isHexChar hash then ret\<lparr>NotExist := True\<rparr>
      else let ret = ret\<lparr>ModVersion := \<lparr>Module = ''github.com/tailscale/go'',
                 Version = tsGoVersion \<lparr>OS = goos, Arch = goarch, Hash = hash\<rparr>\<rparr>\<rparr> in
      if wantExtractedFile then ret\<lparr>WellKnown := ''tsgo.extracted''\<rparr>
      else ret\<lparr>Path := trimSuffix rest ''/'', InZip := True\<rparr>)"

section \<open>Parsing\<close>

text \<open>\<^verbatim>\<open>parseModVersion\<close> without its memo table: the module version, as far as decoded, and success.\<close>

definition parseModVersion :: "xmod \<Rightarrow> string \<Rightarrow> string \<Rightarrow> mod_version \<times> bool" where
  "parseModVersion X escMod escVer =
     (case UnescapePath X escMod of
        None \<Rightarrow> (no_mv, False)
      | Some m \<Rightarrow>
          (case UnescapeVersion X escVer of
             None \<Rightarrow> (no_mv\<lparr>Module := m\<rparr>, False)
           | Some v \<Rightarrow> (\<lparr>Module = m, Version = v\<rparr>, True)))"

type_synonym seen_pairs = "((string \<times> string) \<times> mod_version) list"

definition parseModVersion_memo ::
  "xmod \<Rightarrow> seen_pairs \<Rightarrow> string \<Rightarrow> string \<Rightarrow> (mod_version \<times> bool) \<times> seen_pairs" where
  "parseModVersion_memo X seen escMod escVer =
     (case map_of seen (escMod, escVer) of
        Some v \<Rightarrow> ((v, True), seen)
      | None \<Rightarrow>
          (case UnescapePath X escMod of
             None \<Rightarrow> ((no_mv, False), seen)
           | Some m \<Rightarrow>
               (case UnescapeVersion X escVer of
                  None \<Rightarrow> ((no_mv\<lparr>Module := m\<rparr>, False), seen)
                | Some v \<Rightarrow>
                    let mv = \<lparr>Module = m, Version = v\<rparr>
                    in ((mv, True), AList.update (escMod, escVer) mv seen))))"

text \<open>
  \<^verbatim>\<open>parsePath\<close>, over the way it decodes a module version: its branch for \<^verbatim>\<open>cache/download/\<close>, its
  branch for zip paths, and the whole.
\<close>

definition parse_download ::
  "(string \<Rightarrow> string \<Rightarrow> (mod_version \<times> bool) \<times> 's) \<Rightarrow> 's \<Rightarrow> bool \<Rightarrow> string \<Rightarrow> gmPath \<times> 's" where
  "parse_download pmv s isDotFile dlSuffix =
     (let ret = zero_path in
      if isDotFile then (ret\<lparr>NotExist := True\<rparr>, s)
      else let (escMod, escVer, ok) = cut dlSuffix ''/@v/'' in
      if \<not> ok then (ret, s)
      else let ext = path_Ext escVer in
      if ext = [] then (ret, s)
      else if ext = ''.mod'' \<or> ext = ''.ziphash'' \<or> ext = ''.info'' then
        (let ret = ret\<lparr>CacheDownloadFileExt := tl ext\<rparr>;
             escVer = trimSuffix escVer ext;
             r = pmv escMod escVer;
             ret = ret\<lparr>ModVersion := fst (fst r)\<rparr>
         in (if snd (fst r) then ret else ret\<lparr>NotExist := True\<rparr>, snd r))
      else (ret\<lparr>NotExist := True\<rparr>, s))"

definition parse_zip ::
  "(string \<Rightarrow> string \<Rightarrow> (mod_version \<times> bool) \<times> 's) \<Rightarrow> 's \<Rightarrow> bool \<Rightarrow> string \<Rightarrow> gmPath \<times> 's" where
  "parse_zip pmv s isDotFile name =
     (let ret = zero_path; (escMod, verAndPath, ok) = cut name ''@'' in
      if \<not> ok then (if isDotFile then ret\<lparr>NotExist := True\<rparr> else ret, s)
      else let (escVer, path, _) = cut verAndPath ''/'';
               r = pmv escMod escVer;
               ret = ret\<lparr>ModVersion := fst (fst r)\<rparr>
           in (if snd (fst r) then ret\<lparr>Path := trimSuffix path ''/'', InZip := True\<rparr>
               else ret\<lparr>NotExist := True\<rparr>, snd r))"

definition parsePath_with ::
  "(string \<Rightarrow> string \<Rightarrow> (mod_version \<times> bool) \<times> 's) \<Rightarrow> 's \<Rightarrow> string \<Rightarrow> gmPath \<times> 's" where
  "parsePath_with pmv s name =
     (let ret = zero_path in
      if name = statusFile then (ret\<lparr>WellKnown := statusFile\<rparr>, s)
      else
      let base = path_Base name;
          isDotFile = (name \<noteq> [] \<and> prefix ''.'' base) in
      if prefix ''tsgo-'' name then
        (if isDotFile then (ret\<lparr>NotExist := True\<rparr>, s) else (parseTSGoPath name, s))
      else
      let (dlSuffix, ok) = cutPrefix name ''cache/download/'' in
      if ok then parse_download pmv s isDotFile dlSuffix
      else parse_zip pmv s isDotFile name)"

definition parsePath :: "xmod \<Rightarrow> string \<Rightarrow> gmPath" where
  "parsePath X name = fst (parsePath_with (\<lambda>em ev. (parseModVersion X em ev, ())) () name)"

definition parsePath_memo :: "xmod \<Rightarrow> seen_pairs \<Rightarrow> string \<Rightarrow> gmPath \<times> seen_pairs" where
  "parsePath_memo X seen name = parsePath_with (parseModVersion_memo X seen) seen name"

section \<open>Building paths\<close>

definition from_opt :: "string option \<Rightarrow> string" where
  "from_opt x = (case x of None \<Rightarrow> [] | Some s \<Rightarrow> s)"

definition cdPath :: "xmod \<Rightarrow> mod_version \<Rightarrow> string \<Rightarrow> string" where
  "cdPath X mv ext =
     (let escMod = from_opt (EscapePath X (Module mv));
          escVer = from_opt (EscapeVersion X (Version mv))
      in ''cache/download/'' @ escMod @ ''/@v/'' @ escVer @ ''.'' @ ext)"

definition modVerZipPrefix :: "xmod \<Rightarrow> mod_version \<Rightarrow> string option" where
  "modVerZipPrefix X mv =
     (case isTSGoModule mv of
        Some trip \<Rightarrow> Some (tsGoZipRoot trip)
      | None \<Rightarrow>
          (case EscapePath X (Module mv) of
             None \<Rightarrow> None
           | Some modEsc \<Rightarrow>
               (case EscapeVersion X (Version mv) of
                  None \<Rightarrow> None
                | Some verEsc \<Rightarrow> Some (modEsc @ ''@'' @ verEsc))))"

definition joinSegs :: "string list \<Rightarrow> string" where
  "joinSegs s = join_on slash s"

definition splitSegs :: "string \<Rightarrow> string list" where
  "splitSegs s = (if s = [] then [] else split_on slash s)"

definition emptyPathJoin :: "string \<Rightarrow> string \<Rightarrow> string" where
  "emptyPathJoin a b = (if b = [] then a else if a = [] then b else a @ ''/'' @ b)"

text \<open>\<^verbatim>\<open>funcSmallSet\<close>: a memoised function over its table of results so far.\<close>

definition funcSmallSet :: "('k \<Rightarrow> 'v) \<Rightarrow> ('k \<times> 'v) list option \<Rightarrow> 'k \<Rightarrow> 'v \<times> ('k \<times> 'v) list option" where
  "funcSmallSet f latest k =
     (case latest of
        Some m \<Rightarrow> (case map_of m k of Some v \<Rightarrow> (v, latest) | None \<Rightarrow> let v = f k in (v, Some (AList.update k v m)))
      | None \<Rightarrow> let v = f k in (v, Some (AList.update k v [])))"

section \<open>The documented behaviour of the escaping functions\<close>

text \<open>
  An escaped module path or version is decoded back; an escaped path has no \<^verbatim>\<open>@\<close>, its first element
  contains a dot, and no element is empty, \<^verbatim>\<open>.\<close> or \<^verbatim>\<open>..\<close> (\<^verbatim>\<open>module.CheckPath\<close>); an escaped version is a
  non-empty path element.
\<close>

definition xmod_ok :: "xmod \<Rightarrow> bool" where
  "xmod_ok X \<longleftrightarrow>
     (\<forall>m e. EscapePath X m = Some e \<longrightarrow> UnescapePath X e = Some m \<and> at_sign \<notin> set e \<and>
        e \<noteq> [] \<and> List.hd e \<noteq> slash \<and> dot \<in> set (takeWhile (\<lambda>c. c \<noteq> slash) e) \<and>
        list_all clean_name (split_on slash e)) \<and>
     (\<forall>v e. EscapeVersion X v = Some e \<longrightarrow> UnescapeVersion X e = Some v \<and> e \<noteq> [] \<and> slash \<notin> set e)"

lemma xmod_path:
  "xmod_ok X \<Longrightarrow> EscapePath X m = Some e \<Longrightarrow> UnescapePath X e = Some m \<and> at_sign \<notin> set e \<and>
     e \<noteq> [] \<and> List.hd e \<noteq> slash \<and> dot \<in> set (takeWhile (\<lambda>c. c \<noteq> slash) e) \<and>
     list_all clean_name (split_on slash e)"
  by (simp add: xmod_ok_def)

lemma xmod_version:
  "xmod_ok X \<Longrightarrow> EscapeVersion X v = Some e \<Longrightarrow> UnescapeVersion X e = Some v \<and> e \<noteq> [] \<and> slash \<notin> set e"
  by (simp add: xmod_ok_def)

lemma not_cache_prefix:
  assumes "dot \<in> set (takeWhile (\<lambda>c. c \<noteq> slash) e)"
  shows "\<not> prefix ''cache/download/'' (e @ s)"
proof
  assume "prefix ''cache/download/'' (e @ s)"
  then obtain z where z: "e @ s = ''cache/'' @ z" by (auto elim!: prefixE)
  have "takeWhile (\<lambda>c. c \<noteq> slash) (e @ s) = ''cache''" by (simp add: z)
  moreover have "set (takeWhile (\<lambda>c. c \<noteq> slash) e) \<subseteq> set (takeWhile (\<lambda>c. c \<noteq> slash) (e @ s))"
    by (subst takeWhile_append) (auto dest: set_takeWhileD)
  ultimately have "dot \<in> set ''cache''" using assms by auto
  then show False by simp
qed

section \<open>Memoisation\<close>

definition memo_ok :: "xmod \<Rightarrow> seen_pairs \<Rightarrow> bool" where
  "memo_ok X seen \<longleftrightarrow> (\<forall>em ev v. map_of seen (em, ev) = Some v \<longrightarrow> parseModVersion X em ev = (v, True))"

lemma parseModVersion_memo_miss:
  assumes "map_of seen (em, ev) = None"
  shows "parseModVersion_memo X seen em ev = (parseModVersion X em ev,
    if snd (parseModVersion X em ev) then AList.update (em, ev) (fst (parseModVersion X em ev)) seen else seen)"
  using assms by (simp add: parseModVersion_memo_def parseModVersion_def Let_def split: option.split)

lemma parseModVersion_memo_ok:
  assumes "memo_ok X seen"
  shows "fst (parseModVersion_memo X seen em ev) = parseModVersion X em ev \<and>
    memo_ok X (snd (parseModVersion_memo X seen em ev))"
proof (cases "map_of seen (em, ev)")
  case None
  then show ?thesis
    using assms by (simp add: parseModVersion_memo_miss memo_ok_def update_conv' prod_eq_iff)
next
  case (Some v)
  moreover from assms Some have "parseModVersion X em ev = (v, True)" by (simp add: memo_ok_def)
  ultimately show ?thesis using assms by (simp add: parseModVersion_memo_def)
qed

lemma parse_download_rel:
  assumes "\<And>em ev. fst (f em ev) = fst (g em ev)" "\<And>em ev. Q (snd (f em ev))" "Q s"
  shows "fst (parse_download f s d n) = fst (parse_download g t d n)" "Q (snd (parse_download f s d n))"
  by (simp_all add: parse_download_def Let_def assms split: prod.split)

lemma parse_zip_rel:
  assumes "\<And>em ev. fst (f em ev) = fst (g em ev)" "\<And>em ev. Q (snd (f em ev))" "Q s"
  shows "fst (parse_zip f s d n) = fst (parse_zip g t d n)" "Q (snd (parse_zip f s d n))"
  by (simp_all add: parse_zip_def Let_def assms split: prod.split)

lemma parsePath_with_rel:
  assumes "\<And>em ev. fst (f em ev) = fst (g em ev)" "\<And>em ev. Q (snd (f em ev))" "Q s"
  shows "fst (parsePath_with f s name) = fst (parsePath_with g t name)" "Q (snd (parsePath_with f s name))"
proof -
  note d = parse_download_rel [of f g Q, OF assms] and z = parse_zip_rel [of f g Q, OF assms]
  show "fst (parsePath_with f s name) = fst (parsePath_with g t name)"
    unfolding parsePath_with_def Let_def case_prod_beta d(1) [of _ _ t] z(1) [of _ _ t]
      if_distrib [of fst] fst_conv by (rule refl)
  show "Q (snd (parsePath_with f s name))"
    unfolding parsePath_with_def Let_def case_prod_beta by (simp only: if_distrib [of snd] if_distrib [of Q] snd_conv d(2) z(2) assms(3) if_cancel)
qed

fun parse_seq :: "xmod \<Rightarrow> seen_pairs \<Rightarrow> string list \<Rightarrow> gmPath list" where
  "parse_seq X seen [] = []"
| "parse_seq X seen (n # ns) = (let (p, seen) = parsePath_memo X seen n in p # parse_seq X seen ns)"

lemma parsePath_memo_ok:
  assumes "memo_ok X seen"
  shows "fst (parsePath_memo X seen n) = parsePath X n" "memo_ok X (snd (parsePath_memo X seen n))"
proof -
  note m = parseModVersion_memo_ok [OF assms]
  have "\<And>em ev. fst (parseModVersion_memo X seen em ev) = fst (parseModVersion X em ev, ())"
    "\<And>em ev. memo_ok X (snd (parseModVersion_memo X seen em ev))" using m by simp_all
  note r = parsePath_with_rel [where f = "parseModVersion_memo X seen" and g = "\<lambda>em ev. (parseModVersion X em ev, ())"
      and Q = "memo_ok X", OF this assms]
  show "fst (parsePath_memo X seen n) = parsePath X n" "memo_ok X (snd (parsePath_memo X seen n))"
    unfolding parsePath_memo_def parsePath_def by (rule r)+
qed

text \<open>
  Memoising \<^verbatim>\<open>parseModVersion\<close> is invisible: over any sequence of calls of \<^verbatim>\<open>parsePath\<close> that share
  the \<^verbatim>\<open>seenPairs\<close> table, starting from an empty table, every call returns what parsing its path
  without the table returns, failures included (which are never memoised).
\<close>
theorem parsePath_memo_transparent: "parse_seq X [] names = map (parsePath X) names"
proof -
  have "memo_ok X seen \<Longrightarrow> parse_seq X seen names = map (parsePath X) names" for seen
  proof (induction names arbitrary: seen)
    case (Cons n ns)
    then show ?case using parsePath_memo_ok [OF Cons.prems, of n] by (simp add: case_prod_beta)
  qed simp
  then show ?thesis by (simp add: memo_ok_def)
qed

section \<open>Round trips\<close>

lemma parsePath_zip:
  assumes m: "UnescapePath X em = Some m" and v: "UnescapeVersion X ev = Some v"
    and em: "at_sign \<notin> set em" "\<not> prefix ''tsgo-'' (em @ at_sign # s)" "\<not> prefix ''cache/download/'' (em @ at_sign # s)"
    and s: "cut s ''/'' = (ev, p, b)"
  shows "parsePath X (em @ at_sign # s) = zero_path\<lparr>ModVersion := \<lparr>Module = m, Version = v\<rparr>,
    Path := trimSuffix p ''/'', InZip := True\<rparr>"
proof -
  have "em @ at_sign # s \<noteq> statusFile"
  proof
    assume "em @ at_sign # s = statusFile"
    then have "at_sign \<in> set statusFile" by (metis in_set_conv_decomp)
    then show False by (simp add: statusFile_def)
  qed
  then show ?thesis
    using em s m v by (simp add: parsePath_def parsePath_with_def parse_zip_def cutPrefix_def cut_char parseModVersion_def)
qed

lemma not_prefix_tsgo:
  assumes "\<not> prefix ''tsgo-'' (a @ at_sign # b)"
  shows "\<not> prefix ''tsgo-'' (a @ at_sign # b @ c)"
proof
  assume "prefix ''tsgo-'' (a @ at_sign # b @ c)"
  then have "prefix ''tsgo-'' ((a @ at_sign # b) @ c)" by simp
  then have "prefix (a @ at_sign # b) ''tsgo-''"
    using assms by (metis prefix_same_cases prefixI)
  then obtain z where z: "''tsgo-'' = (a @ at_sign # b) @ z" by (rule prefixE)
  have "at_sign \<in> set ((a @ at_sign # b) @ z)" by simp
  then show False unfolding z [symmetric] by simp
qed

lemma hexChar_no_dash: "isHexChar c \<Longrightarrow> c \<noteq> CHR ''-'' \<and> c \<noteq> slash \<and> c \<noteq> dot"
  by (auto simp: isHexChar_def)

lemma valid_osarch_chars:
  assumes "validTSGoOSARCH goos goarch"
  shows "CHR ''-'' \<notin> set goos" "slash \<notin> set goos" "CHR ''-'' \<notin> set goarch" "slash \<notin> set goarch"
  using assms by (auto simp: validTSGoOSARCH_def)

lemma zip_path_parsed:
  assumes X: "xmod_ok X" and pre: "modVerZipPrefix X mv = Some pre" and "isTSGoModule mv = None"
    and "\<not> prefix ''tsgo-'' pre" and p: "\<not> suffix ''/'' p"
  shows "parsePath X (emptyPathJoin pre p) = zero_path\<lparr>ModVersion := mv, Path := p, InZip := True\<rparr> \<and>
    (p \<noteq> [] \<longrightarrow> parsePath X (emptyPathJoin pre (p @ ''/'')) = zero_path\<lparr>ModVersion := mv, Path := p, InZip := True\<rparr>)"
proof -
  from pre assms(3) obtain em ev where e: "EscapePath X (Module mv) = Some em" "EscapeVersion X (Version mv) = Some ev"
    "pre = em @ at_sign # ev" by (auto simp: modVerZipPrefix_def split: option.splits)
  note xp = xmod_path [OF X e(1)] and xv = xmod_version [OF X e(2)]
  have nts: "\<not> prefix ''tsgo-'' (em @ at_sign # ev @ t)" for t
    using not_prefix_tsgo [of em "ev" t] assms(4) by (simp add: e(3))
  have ncd: "\<not> prefix ''cache/download/'' (em @ t)" for t using not_cache_prefix xp by blast
  have mv: "\<lparr>Module = Module mv, Version = Version mv\<rparr> = mv" by simp
  have z: "parsePath X (em @ at_sign # ev @ t) = zero_path\<lparr>ModVersion := mv, Path := trimSuffix q ''/'', InZip := True\<rparr>"
    if "cut (ev @ t) ''/'' = (ev, q, b)" for t q b
    using parsePath_zip [of X em "Module mv" ev "Version mv" "ev @ t" q b] xp xv nts ncd that mv by simp
  have t: "trimSuffix p ''/'' = p" "trimSuffix (p @ ''/'') ''/'' = p" using p by (simp_all add: str_simps)
  show ?thesis
    using z [of "[]" "[]" False] z [of "''/'' @ p" p True] z [of "''/'' @ p @ ''/''" "p @ ''/''" True] xv t
    by (auto simp: emptyPathJoin_def e(3) cut_none cut_char trimSuffix_none)
qed

text \<open>
  C27. Every path inside a module's zip is parsed back to that module version and path: for an
  escapable module version whose prefix is not in the tsgo name space, parsing the prefix that
  \<^verbatim>\<open>modVerZipPrefix\<close> builds joined with any path \<open>p\<close> without a trailing slash gives exactly the
  zip path \<open>p\<close> of that module version, and a trailing slash after \<open>p\<close> changes nothing.
\<close>
theorem zip_path_roundtrip:
  assumes X: "xmod_ok X" and pre: "modVerZipPrefix X mv = Some pre" and "isTSGoModule mv = None"
    and "\<not> prefix ''tsgo-'' pre" and p: "\<not> suffix ''/'' p"
  shows "parsePath X (emptyPathJoin pre p) = zero_path\<lparr>ModVersion := mv, Path := p, InZip := True\<rparr> \<and>
    (p \<noteq> [] \<longrightarrow> parsePath X (emptyPathJoin pre (p @ ''/'')) = zero_path\<lparr>ModVersion := mv, Path := p, InZip := True\<rparr>)"
  by (rule zip_path_parsed [OF assms])

text \<open>A concrete instance of the escaping functions, for evaluating paths.\<close>

definition mem_xmod :: xmod where
  "mem_xmod = \<lparr>
     UnescapePath = (\<lambda>s. if s = ''go4.org/mem'' then Some s else None),
     UnescapeVersion = (\<lambda>s. if s = ''v1.2.3'' then Some s else None),
     EscapePath = (\<lambda>s. if s = ''go4.org/mem'' then Some s else None),
     EscapeVersion = (\<lambda>s. if s = ''v1.2.3'' then Some s else None)\<rparr>"

lemma mem_xmod_ok: "xmod_ok mem_xmod"
  by (auto simp: xmod_ok_def mem_xmod_def clean_name_def)

theorem zip_path_roundtrip_witness:
  "parsePath mem_xmod ''go4.org/mem@v1.2.3/a/b.go'' =
     zero_path\<lparr>ModVersion := \<lparr>Module = ''go4.org/mem'', Version = ''v1.2.3''\<rparr>, Path := ''a/b.go'', InZip := True\<rparr>"
  using zip_path_roundtrip [OF mem_xmod_ok, of "\<lparr>Module = ''go4.org/mem'', Version = ''v1.2.3''\<rparr>" "''go4.org/mem@v1.2.3''" "''a/b.go''"]
  by (simp add: modVerZipPrefix_def isTSGoModule_def mem_xmod_def emptyPathJoin_def suffix_def)

lemma cdPath_parsed:
  assumes X: "xmod_ok X" and e: "EscapePath X (Module mv) = Some em" "EscapeVersion X (Version mv) = Some ev"
    and "\<not> prefix ''.'' ev" and ext: "ext \<in> {''mod'', ''ziphash'', ''info''}"
  shows "parsePath X (cdPath X mv ext) = zero_path\<lparr>CacheDownloadFileExt := ext, ModVersion := mv\<rparr>"
proof -
  note xp = xmod_path [OF X e(1)] and xv = xmod_version [OF X e(2)]
  define s where "s = em @ ''/@v/'' @ ev @ dot # ext"
  have cd: "cdPath X mv ext = ''cache/download/'' @ s" by (simp add: cdPath_def e from_opt_def s_def)
  have ns: "slash \<notin> set (ev @ dot # ext)" using xv ext by auto
  have "cdPath X mv ext = (''cache/download/'' @ em @ ''/@v'') @ slash # (ev @ dot # ext)" by (simp add: cd s_def)
  then have base: "path_Base (cdPath X mv ext) = ev @ dot # ext"
    using ns by (simp only: path_Base_append append_is_Nil_conv list.distinct not_False_eq_True simp_thms)
  have nd: "\<not> prefix ''.'' (ev @ dot # ext)" using assms(4) xv by (cases ev) auto
  have dl: "cut s ''/@v/'' = (em, ev @ dot # ext, True)"
    using cut_two [of at_sign em slash "''v/''" "ev @ dot # ext"] xp by (simp add: s_def)
  have ex: "path_Ext (ev @ dot # ext) = dot # ext" using ext by (intro path_Ext_append) auto
  have tr: "trimSuffix (ev @ dot # ext) (dot # ext) = ev" by (rule trimSuffix_append)
  have pm: "parseModVersion X em ev = (mv, True)" using xp xv by (simp add: parseModVersion_def)
  have "parse_download (\<lambda>em ev. (parseModVersion X em ev, ())) () False s =
      (zero_path\<lparr>CacheDownloadFileExt := ext, ModVersion := mv\<rparr>, ())"
    using ext by (auto simp: parse_download_def dl ex tr pm)
  moreover have "cdPath X mv ext \<noteq> statusFile" "\<not> prefix ''tsgo-'' (cdPath X mv ext)"
    by (simp_all add: cd statusFile_def)
  ultimately show ?thesis
    using base nd by (simp add: parsePath_def parsePath_with_def cd cutPrefix_def)
qed

text \<open>
  C28. The \<^verbatim>\<open>cache/download\<close> file of an escapable module version is parsed back: for each of the
  three extensions, parsing the path that \<^verbatim>\<open>cdPath\<close> builds gives the extension and the module
  version, and no other field.
\<close>
theorem cdPath_roundtrip:
  assumes X: "xmod_ok X" and e: "EscapePath X (Module mv) = Some em" "EscapeVersion X (Version mv) = Some ev"
    and "\<not> prefix ''.'' ev" and ext: "ext \<in> {''mod'', ''ziphash'', ''info''}"
  shows "parsePath X (cdPath X mv ext) = zero_path\<lparr>CacheDownloadFileExt := ext, ModVersion := mv\<rparr>"
  by (rule cdPath_parsed [OF assms])

theorem cdPath_roundtrip_witness:
  "parsePath mem_xmod ''cache/download/go4.org/mem/@v/v1.2.3.info'' =
     zero_path\<lparr>CacheDownloadFileExt := ''info'', ModVersion := \<lparr>Module = ''go4.org/mem'', Version = ''v1.2.3''\<rparr>\<rparr>"
  using cdPath_roundtrip [OF mem_xmod_ok, of "\<lparr>Module = ''go4.org/mem'', Version = ''v1.2.3''\<rparr>" "''go4.org/mem''" "''v1.2.3''" "''info''"]
  by (simp add: mem_xmod_def cdPath_def from_opt_def)

text \<open>
  The Tailscale Go toolchain's name space: for a supported system and a 40-digit hash, the version
  \<^verbatim>\<open>tsGoVersion\<close> writes is read back by \<^verbatim>\<open>isTSGoModule\<close>, the zip prefix of that module is the
  \<^verbatim>\<open>tsgo-os-arch/hash\<close> directory, a path in it that is not a dot file is parsed back to that module
  and path, and the \<^verbatim>\<open>.extracted\<close> file beside it to the well-known marker.
\<close>
theorem tsgo_roundtrip:
  assumes v: "validTSGoOSARCH (OS t) (Arch t)" and len: "length (Hash t) = 40" and hex: "list_all isHexChar (Hash t)"
    and p: "\<not> suffix ''/'' p" and nd: "\<not> prefix ''.'' (path_Base (emptyPathJoin (tsGoZipRoot t) p))"
  shows "isTSGoModule \<lparr>Module = ''github.com/tailscale/go'', Version = tsGoVersion t\<rparr> = Some t \<and>
    modVerZipPrefix X \<lparr>Module = ''github.com/tailscale/go'', Version = tsGoVersion t\<rparr> = Some (tsGoZipRoot t) \<and>
    parsePath X (emptyPathJoin (tsGoZipRoot t) p) =
      zero_path\<lparr>ModVersion := \<lparr>Module = ''github.com/tailscale/go'', Version = tsGoVersion t\<rparr>, Path := p, InZip := True\<rparr> \<and>
    parsePath X (tsGoZipRoot t @ ''.extracted'') =
      zero_path\<lparr>ModVersion := \<lparr>Module = ''github.com/tailscale/go'', Version = tsGoVersion t\<rparr>, WellKnown := wkTSGoExtracted\<rparr>"
proof -
  note c = valid_osarch_chars [OF v]
  have h: "c \<in> set (Hash t) \<Longrightarrow> c \<noteq> slash \<and> c \<noteq> dot" for c using hex hexChar_no_dash by (auto simp: list_all_iff)
  have hs: "slash \<notin> set (Hash t)" "dot \<notin> set (Hash t)" using h by blast+
  have mod1: "isTSGoModule \<lparr>Module = ''github.com/tailscale/go'', Version = tsGoVersion t\<rparr> = Some t"
    using c by (simp add: isTSGoModule_def tsGoVersion_def cutPrefix_def cut_char)
  have noext: "cutSuffix (Hash t) ''.extracted'' = (Hash t, False)"
    using hs(2) by (auto simp: cutSuffix_def suffix_def)
  have ext: "cutSuffix (Hash t @ ''.extracted'') ''.extracted'' = (Hash t, True)" by (rule cutSuffix_append)
  have c1: "cut (OS t @ CHR ''-'' # Arch t @ slash # r) ''/'' = (OS t @ CHR ''-'' # Arch t, r, True)" for r
    using cut_char [of slash "OS t @ CHR ''-'' # Arch t" r] c by simp
  have c2: "cut (OS t @ CHR ''-'' # Arch t) ''-'' = (OS t, Arch t, True)" using c by (simp add: cut_char)
  have tv: "tsGoVersion \<lparr>OS = OS t, Arch = Arch t, Hash = Hash t\<rparr> = tsGoVersion t" by (simp add: tsGoVersion_def)
  note ev = parseTSGoPath_def cutPrefix_def c1 c2 v len hex Let_def tsGoZipRoot_def tv
  have root: "parseTSGoPath (tsGoZipRoot t) =
      zero_path\<lparr>ModVersion := \<lparr>Module = ''github.com/tailscale/go'', Version = tsGoVersion t\<rparr>, Path := [], InZip := True\<rparr>"
    using hs by (simp add: ev noext cut_none trimSuffix_none)
  have sub: "parseTSGoPath (tsGoZipRoot t @ slash # p) =
      zero_path\<lparr>ModVersion := \<lparr>Module = ''github.com/tailscale/go'', Version = tsGoVersion t\<rparr>, Path := p, InZip := True\<rparr>"
    using hs p by (simp add: ev noext cut_char trimSuffix_none)
  have wk: "parseTSGoPath (tsGoZipRoot t @ ''.extracted'') =
      zero_path\<lparr>ModVersion := \<lparr>Module = ''github.com/tailscale/go'', Version = tsGoVersion t\<rparr>, WellKnown := wkTSGoExtracted\<rparr>"
    using hs by (simp add: ev ext [simplified] cut_none wkTSGoExtracted_def)
  have pp: "parsePath X (tsGoZipRoot t @ s) = parseTSGoPath (tsGoZipRoot t @ s)"
    if "\<not> prefix ''.'' (path_Base (tsGoZipRoot t @ s))" for s
    using that by (simp add: parsePath_def parsePath_with_def tsGoZipRoot_def statusFile_def)
  have "path_Base (tsGoZipRoot t @ ''.extracted'') = Hash t @ ''.extracted''"
    using path_Base_append [of "Hash t @ ''.extracted''" "''tsgo-'' @ OS t @ ''-'' @ Arch t"] hs
    by (simp add: tsGoZipRoot_def)
  moreover have "\<not> prefix ''.'' (Hash t @ ''.extracted'')" using hs len by (cases "Hash t") auto
  ultimately have "parsePath X (tsGoZipRoot t @ ''.extracted'') = parseTSGoPath (tsGoZipRoot t @ ''.extracted'')"
    by (intro pp) simp
  moreover have "parsePath X (emptyPathJoin (tsGoZipRoot t) p) =
      zero_path\<lparr>ModVersion := \<lparr>Module = ''github.com/tailscale/go'', Version = tsGoVersion t\<rparr>, Path := p, InZip := True\<rparr>"
    using pp [of "[]"] pp [of "slash # p"] nd root sub by (auto simp: emptyPathJoin_def tsGoZipRoot_def split: if_splits)
  ultimately show ?thesis using mod1 wk by (simp add: modVerZipPrefix_def)
qed

theorem tsgo_roundtrip_witness:
  "parsePath mem_xmod (''tsgo-linux-amd64/'' @ replicate 40 CHR ''a'' @ ''/src/os'') =
     zero_path\<lparr>ModVersion := \<lparr>Module = ''github.com/tailscale/go'', Version = ''tsgo-linux-amd64-'' @ replicate 40 CHR ''a''\<rparr>,
       Path := ''src/os'', InZip := True\<rparr>"
proof -
  let ?t = "\<lparr>OS = ''linux'', Arch = ''amd64'', Hash = replicate 40 CHR ''a''\<rparr>"
  have b: "path_Base (emptyPathJoin (tsGoZipRoot ?t) ''src/os'') = ''os''"
    using path_Base_append [of "''os''" "tsGoZipRoot ?t @ ''/src''"] by (simp add: emptyPathJoin_def tsGoZipRoot_def)
  show ?thesis
    using tsgo_roundtrip [of ?t "''src/os''" mem_xmod] b
    by (simp add: validTSGoOSARCH_def isHexChar_def list_all_iff suffix_def emptyPathJoin_def tsGoZipRoot_def tsGoVersion_def)
qed

section \<open>What a parsed path says of its name\<close>

lemma cutPrefix_found: "cutPrefix s p = (r, True) \<Longrightarrow> s = p @ r"
  by (auto simp: cutPrefix_def elim!: prefixE split: if_splits)

lemma cutSuffix_found: "cutSuffix s p = (r, b) \<Longrightarrow> s = r @ (if b then p else [])"
  by (auto simp: cutSuffix_def suffix_def split: if_splits)

lemma path_Ext_suffix: "path_Ext s \<noteq> [] \<Longrightarrow> \<exists>a. s = a @ path_Ext s"
proof -
  assume a: "path_Ext s \<noteq> []"
  let ?P = "\<lambda>c. c \<noteq> dot \<and> c \<noteq> slash"
  define e where "e = takeWhile ?P (rev s)"
  from a have r: "drop (length e) (rev s) \<noteq> []" "List.hd (drop (length e) (rev s)) = dot"
    and x: "path_Ext s = dot # rev e"
    by (auto simp: path_Ext_def e_def Let_def split: if_splits)
  have "rev s = e @ drop (length e) (rev s)" by (simp add: e_def dropWhile_eq_drop [symmetric])
  also have "\<dots> = e @ dot # tl (drop (length e) (rev s))" using r by (metis list.collapse)
  finally have "s = rev (tl (drop (length e) (rev s))) @ dot # rev e"
    by (metis append.assoc append_Cons append_Nil rev.simps(2) rev_append rev_rev_ident)
  with x show ?thesis by metis
qed

lemma parseTSGoPath_sound:
  assumes "parseTSGoPath name = p"
  shows "CacheDownloadFileExt p = []" "WellKnown p = [] \<or> WellKnown p = wkTSGoExtracted \<and> \<not> InZip p"
    "\<not> NotExist p \<and> (InZip p \<or> WellKnown p \<noteq> []) \<Longrightarrow> \<exists>t. validTSGoOSARCH (OS t) (Arch t) \<and> length (Hash t) = 40 \<and>
       list_all isHexChar (Hash t) \<and> ModVersion p = \<lparr>Module = ''github.com/tailscale/go'', Version = tsGoVersion t\<rparr> \<and>
       prefix (tsGoZipRoot t) name"
proof -
  show "CacheDownloadFileExt p = []" "WellKnown p = [] \<or> WellKnown p = wkTSGoExtracted \<and> \<not> InZip p"
    unfolding assms [symmetric] parseTSGoPath_def Let_def
    by (simp_all add: zero_path_def wkTSGoExtracted_def split: prod.split)
  assume c: "\<not> NotExist p \<and> (InZip p \<or> WellKnown p \<noteq> [])"
  obtain n1 b1 where n1: "cutPrefix name ''tsgo-'' = (n1, b1)" by fastforce
  obtain oa r1 b2 where r1: "cut n1 ''/'' = (oa, r1, b2)" using prod_cases3 by blast
  obtain os ar b3 where os: "cut oa ''-'' = (os, ar, b3)" using prod_cases3 by blast
  obtain fs r2 b4 where fs: "cut r1 ''/'' = (fs, r2, b4)" using prod_cases3 by blast
  obtain ha b5 where ha: "cutSuffix fs ''.extracted'' = (ha, b5)" by fastforce
  have *: "b1 \<and> b2 \<and> b3 \<and> validTSGoOSARCH os ar \<and> length ha = 40 \<and> list_all isHexChar ha \<and>
      ModVersion p = \<lparr>Module = ''github.com/tailscale/go'', Version = tsGoVersion \<lparr>OS = os, Arch = ar, Hash = ha\<rparr>\<rparr>"
    using c unfolding assms [symmetric] parseTSGoPath_def Let_def n1 r1 os fs ha
    by (auto simp: zero_path_def n1 r1 os fs ha split: if_splits)
  have "name = ''tsgo-'' @ n1" by (rule cutPrefix_found) (simp add: n1 *)
  moreover have "n1 = oa @ ''/'' @ r1" by (rule cut_found) (simp add: r1 *)
  moreover have "oa = os @ ''-'' @ ar" by (rule cut_found) (simp add: os *)
  moreover have "\<exists>z. r1 = ha @ z"
    using fs ha cutSuffix_found [OF ha] cut_found [of r1 "''/''" fs r2] by (cases b4) (auto simp: cut_def split: option.splits)
  ultimately have "prefix (tsGoZipRoot \<lparr>OS = os, Arch = ar, Hash = ha\<rparr>) name"
    by (auto simp: tsGoZipRoot_def)
  with * show "\<exists>t. validTSGoOSARCH (OS t) (Arch t) \<and> length (Hash t) = 40 \<and>
       list_all isHexChar (Hash t) \<and> ModVersion p = \<lparr>Module = ''github.com/tailscale/go'', Version = tsGoVersion t\<rparr> \<and>
       prefix (tsGoZipRoot t) name"
    by (intro exI [of _ "\<lparr>OS = os, Arch = ar, Hash = ha\<rparr>"]) simp
qed

lemma parseModVersion_ok:
  "parseModVersion X em ev = (mv, True) \<Longrightarrow>
   UnescapePath X em = Some (Module mv) \<and> UnescapeVersion X ev = Some (Version mv)"
  by (auto simp: parseModVersion_def split: option.splits)

lemma parse_download_sound:
  assumes "fst (parse_download (\<lambda>em ev. (parseModVersion X em ev, ())) () d n) = p"
  shows "CacheDownloadFileExt p \<in> {[], ''mod'', ''ziphash'', ''info''}" "WellKnown p = []" "\<not> InZip p"
    "\<not> NotExist p \<and> CacheDownloadFileExt p \<noteq> [] \<Longrightarrow> \<exists>em ev. UnescapePath X em = Some (Module (ModVersion p)) \<and>
       UnescapeVersion X ev = Some (Version (ModVersion p)) \<and> n = em @ ''/@v/'' @ ev @ ''.'' @ CacheDownloadFileExt p"
proof -
  obtain em ev0 b where c: "cut n ''/@v/'' = (em, ev0, b)" using prod_cases3 by blast
  let ?ev = "trimSuffix ev0 (path_Ext ev0)"
  note p = assms [symmetric, unfolded parse_download_def Let_def c prod.case]
  show "CacheDownloadFileExt p \<in> {[], ''mod'', ''ziphash'', ''info''}" "WellKnown p = []" "\<not> InZip p"
    by (auto simp: p zero_path_def)
  assume a: "\<not> NotExist p \<and> CacheDownloadFileExt p \<noteq> []"
  then have *: "b" "path_Ext ev0 \<noteq> []" "path_Ext ev0 = dot # CacheDownloadFileExt p" "parseModVersion X em ?ev = (ModVersion p, True)"
    by (auto simp: p zero_path_def prod_eq_iff split: if_splits)
  obtain ev where "ev0 = ev @ path_Ext ev0" using path_Ext_suffix [OF *(2)] by blast
  moreover from this have "?ev = ev" by (metis trimSuffix_append)
  moreover have "n = em @ ''/@v/'' @ ev0" by (rule cut_found) (simp add: c *(1))
  ultimately show "\<exists>em ev. UnescapePath X em = Some (Module (ModVersion p)) \<and>
       UnescapeVersion X ev = Some (Version (ModVersion p)) \<and> n = em @ ''/@v/'' @ ev @ ''.'' @ CacheDownloadFileExt p"
    using *(3) parseModVersion_ok [OF *(4)] by (metis append_Cons append_Nil)
qed

lemma parse_zip_sound:
  assumes "fst (parse_zip (\<lambda>em ev. (parseModVersion X em ev, ())) () d n) = p"
  shows "CacheDownloadFileExt p = []" "WellKnown p = []" "\<not> (InZip p \<and> NotExist p)"
    "InZip p \<Longrightarrow> \<exists>em ev. UnescapePath X em = Some (Module (ModVersion p)) \<and>
       UnescapeVersion X ev = Some (Version (ModVersion p)) \<and>
       (n = em @ ''@'' @ ev \<and> Path p = [] \<or> (\<exists>q. n = em @ ''@'' @ ev @ ''/'' @ q \<and> Path p = trimSuffix q ''/''))"
proof -
  obtain em vp b where c: "cut n ''@'' = (em, vp, b)" using prod_cases3 by blast
  obtain ev q b2 where c2: "cut vp ''/'' = (ev, q, b2)" using prod_cases3 by blast
  note p = assms [symmetric, unfolded parse_zip_def Let_def c c2 prod.case]
  show "CacheDownloadFileExt p = []" "WellKnown p = []" "\<not> (InZip p \<and> NotExist p)"
    by (auto simp: p c2 zero_path_def)
  assume a: "InZip p"
  then have *: "b" "parseModVersion X em ev = (ModVersion p, True)" "Path p = trimSuffix q ''/''"
    by (auto simp: p c2 zero_path_def prod_eq_iff split: if_splits)
  have n: "n = em @ ''@'' @ vp" by (rule cut_found) (simp add: c *(1))
  have "vp = ev @ ''/'' @ q" if b2 by (rule cut_found) (simp add: c2 that)
  moreover have "vp = ev \<and> q = []" if "\<not> b2" using c2 that by (auto simp: cut_def split: option.splits)
  ultimately show "\<exists>em ev. UnescapePath X em = Some (Module (ModVersion p)) \<and>
       UnescapeVersion X ev = Some (Version (ModVersion p)) \<and>
       (n = em @ ''@'' @ ev \<and> Path p = [] \<or> (\<exists>q. n = em @ ''@'' @ ev @ ''/'' @ q \<and> Path p = trimSuffix q ''/''))"
    using n *(3) parseModVersion_ok [OF *(2)]
    by - (rule exI [of _ em], rule exI [of _ ev], cases b2; auto simp: trimSuffix_none)
qed

text \<open>
  C29. What a parsed path promises, for every name: the extension is none or one of the three served
  ones, the well-known marker none or one of the two, the kinds exclude each other, and a path that
  may exist and names a module file or a zip path carries a module version decoded from that very
  name (or, under \<^verbatim>\<open>tsgo-\<close>, built from its supported system and its 40-digit hash); a zip path
  marked as not existing occurs only under \<^verbatim>\<open>tsgo-\<close>.
\<close>
theorem parsePath_sound:
  "let p = parsePath X name in
    CacheDownloadFileExt p \<in> {[], ''mod'', ''ziphash'', ''info''} \<and> WellKnown p \<in> {[], statusFile, wkTSGoExtracted} \<and>
    \<not> (InZip p \<and> (CacheDownloadFileExt p \<noteq> [] \<or> WellKnown p \<noteq> [])) \<and>
    (\<not> NotExist p \<and> CacheDownloadFileExt p \<noteq> [] \<longrightarrow> (\<exists>em ev. UnescapePath X em = Some (Module (ModVersion p)) \<and>
       UnescapeVersion X ev = Some (Version (ModVersion p)) \<and>
       name = ''cache/download/'' @ em @ ''/@v/'' @ ev @ ''.'' @ CacheDownloadFileExt p)) \<and>
    (InZip p \<and> \<not> prefix ''tsgo-'' name \<longrightarrow> \<not> NotExist p \<and> (\<exists>em ev. UnescapePath X em = Some (Module (ModVersion p)) \<and>
       UnescapeVersion X ev = Some (Version (ModVersion p)) \<and>
       (name = em @ ''@'' @ ev \<and> Path p = [] \<or> (\<exists>q. name = em @ ''@'' @ ev @ ''/'' @ q \<and> Path p = trimSuffix q ''/'')))) \<and>
    (\<not> NotExist p \<and> prefix ''tsgo-'' name \<and> (InZip p \<or> WellKnown p \<noteq> []) \<longrightarrow>
       (\<exists>t. validTSGoOSARCH (OS t) (Arch t) \<and> length (Hash t) = 40 \<and> list_all isHexChar (Hash t) \<and>
         ModVersion p = \<lparr>Module = ''github.com/tailscale/go'', Version = tsGoVersion t\<rparr> \<and> prefix (tsGoZipRoot t) name))"
proof -
  let ?d = "name \<noteq> [] \<and> prefix ''.'' (path_Base name)"
  let ?f = "\<lambda>em ev. (parseModVersion X em ev, ())"
  consider (status) "name = statusFile"
    | (dotfile) "name \<noteq> statusFile" "prefix ''tsgo-'' name" ?d
    | (tsgo) "name \<noteq> statusFile" "prefix ''tsgo-'' name" "\<not> ?d"
    | (down) n where "name \<noteq> statusFile" "\<not> prefix ''tsgo-'' name" "name = ''cache/download/'' @ n"
    | (zip) "name \<noteq> statusFile" "\<not> prefix ''tsgo-'' name" "\<not> prefix ''cache/download/'' name"
    by (metis prefixE)
  then show ?thesis
  proof cases
    case status
    then show ?thesis by (simp add: parsePath_def parsePath_with_def zero_path_def statusFile_def)
  next
    case dotfile
    then have "parsePath X name = zero_path\<lparr>NotExist := True\<rparr>" by (simp add: parsePath_def parsePath_with_def)
    then show ?thesis by (simp add: zero_path_def)
  next
    case tsgo
    then have "parseTSGoPath name = parsePath X name" by (auto simp: parsePath_def parsePath_with_def)
    from parseTSGoPath_sound [OF this] tsgo(2) show ?thesis unfolding Let_def by auto
  next
    case down
    then have "fst (parse_download ?f () ?d n) = parsePath X name"
      by (simp add: parsePath_def parsePath_with_def cutPrefix_def)
    from parse_download_sound [OF this] down show ?thesis unfolding Let_def by auto
  next
    case zip
    then have "fst (parse_zip ?f () ?d name) = parsePath X name"
      by (simp add: parsePath_def parsePath_with_def cutPrefix_def)
    from parse_zip_sound [OF this] zip show ?thesis unfolding Let_def by auto
  qed
qed

theorem parsePath_sound_witness:
  "InZip (parsePath mem_xmod ''go4.org/mem@v1.2.3/a'') \<and> \<not> NotExist (parsePath mem_xmod ''go4.org/mem@v1.2.3/a'')"
proof -
  have "InZip (parsePath mem_xmod ''go4.org/mem@v1.2.3/a'')" "\<not> prefix ''tsgo-'' ''go4.org/mem@v1.2.3/a''"
    by code_simp+
  with parsePath_sound [of mem_xmod "''go4.org/mem@v1.2.3/a''"] show ?thesis unfolding Let_def by blast
qed

end
