(* ===== verification/Store_Iface.thy ===== *)
theory Store_Iface
  imports Mod_Path
begin

text \<open>
  The interface between the file system and its cache storage, \<^verbatim>\<open>store/store.go\<close>: the data a store
  exchanges, the operations of the \<^verbatim>\<open>Store\<close> interface as a record of functions over the store's own
  state, Go errors with \<^verbatim>\<open>errors.Is\<close>, and results that may also be a panic.
\<close>

section \<open>Errors and results\<close>

text \<open>\<^verbatim>\<open>fmt.Errorf\<close> with \<^verbatim>\<open>%w\<close> and \<^verbatim>\<open>errors.Join\<close> wrap errors; \<^verbatim>\<open>errors.Is\<close> looks inside.\<close>

datatype err =
  ErrCacheMiss | ErrIsDir | ErrNotExist | ErrPermission | IoEOF | EIO | StaleErr | ErrMsg string | Wrap string "err list"

fun errors_Is :: "err \<Rightarrow> err \<Rightarrow> bool" where
  "errors_Is (Wrap s es) t = (Wrap s es = t \<or> list_ex (\<lambda>e. errors_Is e t) es)"
| "errors_Is e t = (e = t)"

datatype 'a res = Ok 'a | Fail err | Panic

fun rbind :: "'a res \<times> 's \<Rightarrow> ('a \<Rightarrow> 's \<Rightarrow> 'b res \<times> 's) \<Rightarrow> 'b res \<times> 's" where
  "rbind (Ok x, s) f = f x s"
| "rbind (Fail e, s) f = (Fail e, s)"
| "rbind (Panic, s) f = (Panic, s)"

lemma rbind_Ok_iff: "rbind m f = (Ok y, s') \<longleftrightarrow> (\<exists>x s. m = (Ok x, s) \<and> f x s = (Ok y, s'))"
  by (cases "(m, f)" rule: rbind.cases) auto

lemma rbind_state: "(\<And>x s. snd (f x s) = s) \<Longrightarrow> snd (rbind m f) = snd m"
  by (cases "(m, f)" rule: rbind.cases) auto

fun of_sum :: "err + 'a \<Rightarrow> 'a res" where
  "of_sum (Inl e) = Fail e"
| "of_sum (Inr x) = Ok x"

section \<open>Data\<close>

text \<open>
  File modes: whether the directory bit is set, and the other bits.  The interface allows no others
  than permissions; a store that meets a symlink or a submodule has \<^verbatim>\<open>fs.ModeSymlink\<close> or
  \<^verbatim>\<open>fs.ModeIrregular\<close> there.  In a module to be put, a nil slice is \<^term>\<open>None\<close>.
\<close>

record fmode =
  is_dir :: bool
  perm :: nat

record dirent =
  d_name :: string
  d_mode :: fmode
  d_size :: int

record put_file =
  pf_path :: string
  pf_mode :: fmode
  pf_content :: bytes

record put_data =
  InfoFile :: "bytes option"
  ModFile :: "bytes option"
  ZipHash :: "bytes option"
  Files :: "put_file list"

record file_info =
  fi_name :: string
  fi_size :: int
  fi_mode :: fmode

section \<open>The store\<close>

text \<open>
  The operations over a store state \<open>'st\<close> and module handles \<open>'h\<close>.  Reads may fill caches of the
  store; those are below this interface.
\<close>

record ('st, 'h) store_ops =
  CachedModules :: "'st \<Rightarrow> err + mod_version list"
  GetZipRoot :: "'st \<Rightarrow> mod_version \<Rightarrow> err + 'h"
  GetInfoFile :: "'st \<Rightarrow> mod_version \<Rightarrow> err + bytes"
  GetModFile :: "'st \<Rightarrow> mod_version \<Rightarrow> err + bytes"
  GetZipHash :: "'st \<Rightarrow> 'h \<Rightarrow> err + bytes"
  GetFile :: "'st \<Rightarrow> 'h \<Rightarrow> string \<Rightarrow> err + bytes"
  Stat :: "'st \<Rightarrow> 'h \<Rightarrow> string \<Rightarrow> err + file_info"
  Readdir :: "'st \<Rightarrow> 'h \<Rightarrow> string \<Rightarrow> err + dirent list"
  PutModFile :: "'st \<Rightarrow> mod_version \<Rightarrow> bytes \<Rightarrow> err option \<times> 'st"
  PutInfoFile :: "'st \<Rightarrow> mod_version \<Rightarrow> bytes \<Rightarrow> err option \<times> 'st"
  PutModule :: "'st \<Rightarrow> mod_version \<Rightarrow> put_data \<Rightarrow> 'h res \<times> 'st"

end
