(* ===== verification/Git_Objects.thy ===== *)
theory Git_Objects
  imports Git_Helper Store_Iface "HOL-Library.Multiset"
begin

text \<open>
  How \<^verbatim>\<open>store/gitstore/gitstore.go\<close> turns a module's files into git objects: the tree builder with its
  directory entries, tree and blob objects, and the pack file they are sent in.  SHA-1 and the zlib
  stream are parameters; the order in which Go ranges over a map is a parameter too.
\<close>

section \<open>Objects and the tree builder\<close>

record fileInfo =
  b_contents :: string
  b_mode :: fmode
  b_gitHash :: string

record gobject =
  o_typ :: string
  o_content :: string
  o_hash :: string

text \<open>The maps \<^verbatim>\<open>f\<close> and \<^verbatim>\<open>hashSet\<close> are association lists with distinct keys.\<close>

record treeBuilder =
  tb_f :: "(string \<times> fileInfo) list"
  hashSet :: "(string \<times> gobject) list"
  hashes :: "string list"

definition newTreeBuilder :: treeBuilder where
  "newTreeBuilder = \<lparr>tb_f = [], hashSet = [], hashes = []\<rparr>"

abbreviation NUL :: char where "NUL \<equiv> CHR 0x00"

definition zeroRef :: string where
  "zeroRef = replicate 20 NUL"

definition obj_preimage :: "string \<Rightarrow> string \<Rightarrow> string" where
  "obj_preimage typ contents = typ @ '' '' @ dec (length contents) @ [NUL] @ contents"

definition mkObjRef :: "(string \<Rightarrow> string) \<Rightarrow> string \<Rightarrow> string \<Rightarrow> string" where
  "mkObjRef sha typ contents = sha (obj_preimage typ contents)"

definition addHash :: "string \<Rightarrow> string \<Rightarrow> string \<Rightarrow> treeBuilder \<Rightarrow> unit res \<times> treeBuilder" where
  "addHash hash objType contents tb =
     (if map_of (hashSet tb) hash \<noteq> None then (Ok (), tb)
      else if hash = zeroRef then (Panic, tb)
      else (Ok (), tb\<lparr>hashSet := (hash, \<lparr>o_typ = objType, o_content = contents, o_hash = hash\<rparr>) # hashSet tb,
                      hashes := hashes tb @ [hash]\<rparr>))"

fun map_put :: "'k \<Rightarrow> 'v \<Rightarrow> ('k \<times> 'v) list \<Rightarrow> ('k \<times> 'v) list" where
  "map_put k v [] = [(k, v)]"
| "map_put k v ((a, b) # m) = (if a = k then (k, v) # m else (a, b) # map_put k v m)"

text \<open>\<open>rd\<close> is what opening and reading the file gives.\<close>

definition addFile :: "(string \<Rightarrow> string) \<Rightarrow> string \<Rightarrow> err + string \<Rightarrow> fmode \<Rightarrow> treeBuilder \<Rightarrow> unit res \<times> treeBuilder" where
  "addFile sha name rd mode tb =
     (case rd of
        Inl e \<Rightarrow> (Fail (Wrap ''failed to read file'' [e]), tb)
      | Inr all \<Rightarrow>
          let blobRef = mkObjRef sha ''blob'' all;
              fi = \<lparr>b_contents = all, b_mode = mode, b_gitHash = blobRef\<rparr>
          in addHash blobRef ''blob'' all (tb\<lparr>tb_f := map_put name fi (tb_f tb)\<rparr>))"

section \<open>Directory entries\<close>

record dirEnt =
  e_base :: string
  e_sortKey :: string
  e_isDir :: bool
  e_fi :: fileInfo

definition newEnt :: "string \<Rightarrow> fileInfo \<Rightarrow> dirEnt" where
  "newEnt suf fi =
     (let (base, _, ok) = cut suf [slash]
      in \<lparr>e_base = base, e_sortKey = (if ok then base @ [slash] else base), e_isDir = ok, e_fi = fi\<rparr>)"

text \<open>The loop over the map; \<^const>\<open>None\<close> is the panic on a name that is both a file and a directory.\<close>

fun dirEnts_loop :: "string \<Rightarrow> (string \<times> dirEnt) list \<Rightarrow> (string \<times> fileInfo) list \<Rightarrow> (string \<times> dirEnt) list option" where
  "dirEnts_loop pre names [] = Some names"
| "dirEnts_loop pre names ((filename, fi) # rest) =
     (let (suf, ok) = cutPrefix filename pre in
      if \<not> ok then dirEnts_loop pre names rest
      else
      let e = newEnt suf fi in
      case map_of names (e_base e) of
        Some was \<Rightarrow>
          (if (e_isDir was \<or> e_isDir e) \<and> e_isDir was \<noteq> e_isDir e then None
           else dirEnts_loop pre names rest)
      | None \<Rightarrow> dirEnts_loop pre ((e_base e, e) # names) rest)"

definition dirEnts :: "(string \<times> fileInfo) list \<Rightarrow> string \<Rightarrow> dirEnt list option" where
  "dirEnts files pre = map_option (\<lambda>names. sort_key e_sortKey (map snd names)) (dirEnts_loop pre [] files)"

section \<open>Trees\<close>

text \<open>\<^verbatim>\<open>mode & execBits != 0\<close> with \<^verbatim>\<open>execBits = 0111\<close>.\<close>

definition execBits :: nat where
  "execBits = 73"

definition ent_mode :: "dirEnt \<Rightarrow> string" where
  "ent_mode e =
     (if e_isDir e then ''40000''
      else if (perm (b_mode (e_fi e)) AND execBits) \<noteq> 0 then ''100755'' else ''100644'')"

definition ent_bytes :: "string \<Rightarrow> string \<Rightarrow> string \<Rightarrow> string" where
  "ent_bytes mode base h = mode @ '' '' @ base @ [NUL] @ h"

text \<open>The loop over the entries of one directory; \<open>rec\<close> builds a sub-tree.  \<^const>\<open>None\<close> is out of fuel.\<close>

fun build_ents ::
  "(string \<Rightarrow> treeBuilder \<Rightarrow> (string res \<times> treeBuilder) option) \<Rightarrow> string \<Rightarrow> dirEnt list \<Rightarrow> string \<Rightarrow> treeBuilder \<Rightarrow>
   (string res \<times> treeBuilder) option" where
  "build_ents rec dir [] buf tb = Some (Ok buf, tb)"
| "build_ents rec dir (e # es) buf tb =
     (if NUL \<in> set (e_base e) \<or> slash \<in> set (e_base e) then Some (Fail (ErrMsg ''invalid file name in tree''), tb)
      else if e_isDir e then
        (case rec (dir @ e_base e @ [slash]) tb of
           None \<Rightarrow> None
         | Some (Ok h, tb1) \<Rightarrow> build_ents rec dir es (buf @ ent_bytes (ent_mode e) (e_base e) h) tb1
         | Some (Fail x, tb1) \<Rightarrow> Some (Fail (Wrap ''failed to build sub-tree'' [x]), tb1)
         | Some (Panic, tb1) \<Rightarrow> Some (Panic, tb1))
      else build_ents rec dir es (buf @ ent_bytes (ent_mode e) (e_base e) (b_gitHash (e_fi e))) tb)"

definition addTree :: "(string \<Rightarrow> string) \<Rightarrow> string \<Rightarrow> treeBuilder \<Rightarrow> string res \<times> treeBuilder" where
  "addTree sha buf tb =
     (let treeRef = mkObjRef sha ''tree'' buf
      in case addHash treeRef ''tree'' buf tb of (Ok _, tb1) \<Rightarrow> (Ok treeRef, tb1) | (Fail e, tb1) \<Rightarrow> (Fail e, tb1) | (Panic, tb1) \<Rightarrow> (Panic, tb1))"

text \<open>\<open>ord dir\<close> is the order in which the call for \<open>dir\<close> ranges over the map of files.\<close>

fun buildTree ::
  "(string \<Rightarrow> string) \<Rightarrow> (string \<Rightarrow> (string \<times> fileInfo) list \<Rightarrow> (string \<times> fileInfo) list) \<Rightarrow> nat \<Rightarrow> string \<Rightarrow> treeBuilder \<Rightarrow>
   (string res \<times> treeBuilder) option" where
  "buildTree sha ord 0 dir tb = None"
| "buildTree sha ord (Suc n) dir tb =
     (case dirEnts (ord dir (tb_f tb)) dir of
        None \<Rightarrow> Some (Panic, tb)
      | Some ents \<Rightarrow>
          (case build_ents (buildTree sha ord n) dir ents [] tb of
             None \<Rightarrow> None
           | Some (Ok buf, tb1) \<Rightarrow> Some (addTree sha buf tb1)
           | Some (Fail e, tb1) \<Rightarrow> Some (Fail e, tb1)
           | Some (Panic, tb1) \<Rightarrow> Some (Panic, tb1)))"

section \<open>Directory entries do not depend on the map's order\<close>

text \<open>What a tree records of an entry: for a directory, not the file it was first seen with.\<close>

definition ent_view :: "dirEnt \<Rightarrow> string \<times> fileInfo option" where
  "ent_view e = (e_base e, if e_isDir e then None else Some (e_fi e))"

definition view_key :: "string \<times> fileInfo option \<Rightarrow> string" where
  "view_key v = (case v of (b, None) \<Rightarrow> b @ [slash] | (b, Some _) \<Rightarrow> b)"

definition ents_under :: "(string \<times> fileInfo) list \<Rightarrow> string \<Rightarrow> dirEnt set" where
  "ents_under files pre = {newEnt suf fi | suf fi. (pre @ suf, fi) \<in> set files}"

definition no_conflict :: "(string \<times> fileInfo) list \<Rightarrow> bool" where
  "no_conflict files \<longleftrightarrow> distinct (map fst files) \<and>
     list_all (\<lambda>f. list_all (\<lambda>g. \<not> prefix (f @ [slash]) g) (map fst files)) (map fst files)"

definition keyed :: "(string \<times> dirEnt) list \<Rightarrow> bool" where
  "keyed names \<longleftrightarrow> distinct (map fst names) \<and> (\<forall>(b, e) \<in> set names. b = e_base e)"

lemma newEnt_cases:
  obtains "slash \<notin> set suf" "newEnt suf fi = \<lparr>e_base = suf, e_sortKey = suf, e_isDir = False, e_fi = fi\<rparr>"
  | b r where "slash \<notin> set b" "suf = b @ slash # r"
    "newEnt suf fi = \<lparr>e_base = b, e_sortKey = b @ [slash], e_isDir = True, e_fi = fi\<rparr>"
proof (cases "slash \<in> set suf")
  case True
  then obtain b r where "suf = b @ slash # r" "slash \<notin> set b" by (meson split_list_first)
  then show ?thesis using that(2) by (simp add: newEnt_def cut_char)
next
  case False
  then show ?thesis using that(1) by (simp add: newEnt_def cut_none)
qed

lemma newEnt_key: "e_sortKey (newEnt suf fi) = view_key (ent_view (newEnt suf fi))"
  by (rule newEnt_cases [of suf fi]) (simp_all add: ent_view_def view_key_def)

lemma newEnt_base_free: "slash \<notin> set (e_base (newEnt suf fi))"
  by (rule newEnt_cases [of suf fi]) simp_all

lemma ents_under_Cons:
  "ents_under ((f, fi) # files) pre =
     (if prefix pre f then insert (newEnt (drop (length pre) f) fi) (ents_under files pre) else ents_under files pre)"
proof -
  have "ents_under ((f, fi) # files) pre = {newEnt suf fi | suf. f = pre @ suf} \<union> ents_under files pre"
    unfolding ents_under_def list.set by blast
  moreover have "{newEnt suf fi | suf. f = pre @ suf} = (if prefix pre f then {newEnt (drop (length pre) f) fi} else {})"
    by (auto simp: prefix_def)
  ultimately show ?thesis by simp
qed

definition consistent :: "dirEnt set \<Rightarrow> bool" where
  "consistent E \<longleftrightarrow> (\<forall>e \<in> E. \<forall>e' \<in> E. e_base e = e_base e' \<longrightarrow> ent_view e = ent_view e')"

lemma consistentD: "consistent E \<Longrightarrow> e \<in> E \<Longrightarrow> e' \<in> E \<Longrightarrow> e_base e = e_base e' \<Longrightarrow> ent_view e = ent_view e'"
  unfolding consistent_def by blast

lemma consistent_mono: "consistent E \<Longrightarrow> E' \<subseteq> E \<Longrightarrow> consistent E'"
  by (auto simp: consistent_def)

lemma dirEnts_loop_ok:
  assumes "consistent (snd ` set names \<union> ents_under files pre)" and "keyed names"
  shows "\<exists>ns. dirEnts_loop pre names files = Some ns \<and> keyed ns \<and> snd ` set ns \<subseteq> snd ` set names \<union> ents_under files pre \<and>
    ent_view ` snd ` set ns = ent_view ` (snd ` set names \<union> ents_under files pre)"
  using assms
proof (induction files arbitrary: names)
  case Nil
  then show ?case by (simp add: ents_under_def)
next
  case (Cons p files)
  obtain f fi where p: "p = (f, fi)" by (cases p)
  show ?case
  proof (cases "prefix pre f")
    case False
    then have "ents_under (p # files) pre = ents_under files pre" "dirEnts_loop pre names (p # files) = dirEnts_loop pre names files"
      by (simp_all add: p ents_under_Cons cutPrefix_def)
    then show ?thesis using Cons.IH [of names] Cons.prems by simp
  next
    case True
    define e where "e = newEnt (drop (length pre) f) fi"
    have U: "ents_under (p # files) pre = insert e (ents_under files pre)"
      using True by (simp add: p ents_under_Cons e_def)
    show ?thesis
    proof (cases "map_of names (e_base e)")
      case None
      have "keyed ((e_base e, e) # names)"
        using Cons.prems(2) None by (auto simp: keyed_def map_of_eq_None_iff)
      moreover have "snd ` set ((e_base e, e) # names) \<union> ents_under files pre = snd ` set names \<union> ents_under (p # files) pre"
        unfolding U by auto
      moreover have "dirEnts_loop pre names (p # files) = dirEnts_loop pre ((e_base e, e) # names) files"
        using None True by (simp add: p cutPrefix_def e_def [symmetric])
      ultimately show ?thesis using Cons.IH [of "(e_base e, e) # names"] Cons.prems(1) by metis
    next
      case (Some was)
      then have w: "was \<in> snd ` set names" "e_base was = e_base e"
        using Cons.prems(2) by (force simp: keyed_def dest: map_of_SomeD)+
      then have v: "ent_view was = ent_view e" using consistentD [OF Cons.prems(1)] U by blast
      then have d: "e_isDir was = e_isDir e" by (auto simp: ent_view_def split: if_splits)
      obtain ns where ns: "dirEnts_loop pre names files = Some ns" "keyed ns"
        "snd ` set ns \<subseteq> snd ` set names \<union> ents_under files pre"
        "ent_view ` snd ` set ns = ent_view ` (snd ` set names \<union> ents_under files pre)"
        using Cons.IH [of names] consistent_mono [OF Cons.prems(1)] Cons.prems(2) U
        by (metis Un_mono subset_insertI subset_refl)
      have "dirEnts_loop pre names (p # files) = Some ns"
        using ns(1) Some d True by (simp add: p cutPrefix_def e_def [symmetric])
      moreover have "ent_view ` (snd ` set names \<union> ents_under (p # files) pre) =
        ent_view ` (snd ` set names \<union> ents_under files pre)"
        using imageI [OF w(1), of ent_view] v unfolding U by (simp add: image_Un insert_absorb)
      ultimately show ?thesis using ns U by auto
    qed
  qed
qed

lemma ents_consistent:
  assumes "no_conflict files" "e \<in> ents_under files pre" "e' \<in> ents_under files pre" "e_base e = e_base e'"
  shows "ent_view e = ent_view e'"
proof -
  obtain s1 f1 s2 f2 where m: "e = newEnt s1 f1" "(pre @ s1, f1) \<in> set files" "e' = newEnt s2 f2" "(pre @ s2, f2) \<in> set files"
    using assms(2,3) by (auto simp: ents_under_def)
  have nc: "\<not> prefix ((pre @ s1) @ [slash]) (pre @ s2)" "\<not> prefix ((pre @ s2) @ [slash]) (pre @ s1)"
    using assms(1) m(2,4) by (force simp: no_conflict_def list_all_iff)+
  have u: "s1 = s2 \<Longrightarrow> f1 = f2"
    using assms(1) m(2,4) by (auto simp: no_conflict_def dest: eq_key_imp_eq_value)
  show ?thesis
  proof (rule newEnt_cases [of s1 f1])
    assume 1: "slash \<notin> set s1" "newEnt s1 f1 = \<lparr>e_base = s1, e_sortKey = s1, e_isDir = False, e_fi = f1\<rparr>"
    show ?thesis
    proof (rule newEnt_cases [of s2 f2])
      assume "newEnt s2 f2 = \<lparr>e_base = s2, e_sortKey = s2, e_isDir = False, e_fi = f2\<rparr>"
      with 1 show ?thesis using assms(4) m(1,3) u by (simp add: ent_view_def)
    next
      fix b r assume "s2 = b @ slash # r" "newEnt s2 f2 = \<lparr>e_base = b, e_sortKey = b @ [slash], e_isDir = True, e_fi = f2\<rparr>"
      with 1 show ?thesis using assms(4) m(1,3) nc(1) by simp
    qed
  next
    fix b r assume 1: "s1 = b @ slash # r" "newEnt s1 f1 = \<lparr>e_base = b, e_sortKey = b @ [slash], e_isDir = True, e_fi = f1\<rparr>"
    show ?thesis
    proof (rule newEnt_cases [of s2 f2])
      assume "newEnt s2 f2 = \<lparr>e_base = s2, e_sortKey = s2, e_isDir = False, e_fi = f2\<rparr>"
      with 1 show ?thesis using assms(4) m(1,3) nc(2) by simp
    next
      fix b' r' assume "newEnt s2 f2 = \<lparr>e_base = b', e_sortKey = b' @ [slash], e_isDir = True, e_fi = f2\<rparr>"
      with 1 show ?thesis using assms(4) m(1,3) by (simp add: ent_view_def)
    qed
  qed
qed

lemma ents_under_consistent: "no_conflict files \<Longrightarrow> consistent (ents_under files pre)"
  using ents_consistent unfolding consistent_def by blast

lemma dirEnts_ok:
  assumes "no_conflict files"
  shows "\<exists>ents. dirEnts files pre = Some ents \<and> set ents \<subseteq> ents_under files pre \<and>
    ent_view ` set ents = ent_view ` ents_under files pre \<and>
    distinct (map e_base ents) \<and> sorted (map e_sortKey ents)"
proof -
  have "keyed []" by (simp add: keyed_def)
  with dirEnts_loop_ok [of "[]" files pre] ents_under_consistent [OF assms, of pre]
  obtain ns where ns: "dirEnts_loop pre [] files = Some ns" "keyed ns" "snd ` set ns \<subseteq> ents_under files pre"
    "ent_view ` snd ` set ns = ent_view ` ents_under files pre" by auto
  have "map fst ns = map (e_base \<circ> snd) ns" using ns(2) by (auto simp: keyed_def)
  then have "distinct (map e_base (map snd ns))" using ns(2) unfolding keyed_def map_map by metis
  then have "distinct (map e_base (sort_key e_sortKey (map snd ns)))"
    by (metis distinct_map distinct_sort set_sort)
  with ns show ?thesis by (simp add: dirEnts_def)
qed

lemma view_key_inj: "slash \<notin> set (fst v) \<Longrightarrow> slash \<notin> set (fst w) \<Longrightarrow> view_key v = view_key w \<Longrightarrow> fst v = fst w \<and> (snd v = None \<longleftrightarrow> snd w = None)"
  by (cases v; cases w) (auto simp: view_key_def split: option.splits)

lemma ents_key_view: "e \<in> ents_under files pre \<Longrightarrow> e_sortKey e = view_key (ent_view e) \<and> slash \<notin> set (e_base e)"
  by (auto simp: ents_under_def newEnt_key newEnt_base_free)

lemma dirEnts_sorted_views:
  assumes "set ents \<subseteq> ents_under files pre" "distinct (map e_base ents)" "sorted (map e_sortKey ents)"
  shows "sorted (map view_key (map ent_view ents))" "distinct (map view_key (map ent_view ents))"
proof -
  have k: "map view_key (map ent_view ents) = map e_sortKey ents"
    using assms(1) ents_key_view by (auto simp: subset_iff)
  then show "sorted (map view_key (map ent_view ents))" using assms(3) by (simp only:)
  have "inj_on e_sortKey (set ents)"
  proof (rule inj_onI)
    fix x y assume xy: "x \<in> set ents" "y \<in> set ents" "e_sortKey x = e_sortKey y"
    then have "view_key (ent_view x) = view_key (ent_view y)" "slash \<notin> set (e_base x)" "slash \<notin> set (e_base y)"
      using assms(1) ents_key_view by (metis subsetD)+
    then have "e_base x = e_base y"
      using view_key_inj [of "ent_view x" "ent_view y"] by (simp add: ent_view_def)
    then show "x = y" using assms(2) xy by (auto simp: distinct_map inj_on_def)
  qed
  then show "distinct (map view_key (map ent_view ents))"
    unfolding k using assms(2) by (simp add: distinct_map)
qed

lemma ents_under_cong: "set files = set files' \<Longrightarrow> ents_under files pre = ents_under files' pre"
  by (simp add: ents_under_def)

lemma no_conflict_mset: "mset files' = mset files \<Longrightarrow> no_conflict files' = no_conflict files"
proof -
  assume a: "mset files' = mset files"
  then have "set files' = set files" by (rule mset_eq_setD)
  moreover have "mset (map fst files') = mset (map fst files)" using a by (simp add: mset_map)
  then have "distinct (map fst files') = distinct (map fst files)" by (metis mset_eq_imp_distinct_iff)
  ultimately show ?thesis by (simp add: no_conflict_def list_all_iff)
qed

lemma dirEnts_order:
  assumes "no_conflict files" "mset files' = mset files" "dirEnts files pre = Some ents"
  shows "\<exists>ents'. dirEnts files' pre = Some ents' \<and> map ent_view ents' = map ent_view ents"
proof -
  have s: "set files' = set files" using assms(2) by (rule mset_eq_setD)
  note U = ents_under_cong [OF s, of pre]
  obtain ents' where e': "dirEnts files' pre = Some ents'" "set ents' \<subseteq> ents_under files' pre"
    "ent_view ` set ents' = ent_view ` ents_under files' pre" "distinct (map e_base ents')" "sorted (map e_sortKey ents')"
    using dirEnts_ok [of files' pre] assms(1) no_conflict_mset [OF assms(2)] by auto
  have e: "set ents \<subseteq> ents_under files pre" "ent_view ` set ents = ent_view ` ents_under files pre"
    "distinct (map e_base ents)" "sorted (map e_sortKey ents)"
    using dirEnts_ok [OF assms(1), of pre] assms(3) by auto
  have v: "set (map ent_view ents') = set (map ent_view ents)" using e(2) e'(3) U by simp
  have "inj_on view_key (set (map ent_view ents))"
    using dirEnts_sorted_views(2) [OF e(1,3,4)] by (rule distinct_map [THEN iffD1, THEN conjunct2])
  then have "inj_on view_key (set (map ent_view ents') \<union> set (map ent_view ents))" unfolding v by simp
  then have "map ent_view ents' = map ent_view ents"
    using dirEnts_sorted_views [OF e(1,3,4)] dirEnts_sorted_views [OF e'(2,4,5)] v
    by (rule_tac map_sorted_distinct_set_unique [of view_key])
  with e'(1) show ?thesis by blast
qed

end
