(* ===== verification/Git_Trees.thy ===== *)
theory Git_Trees
  imports Git_Objects
begin

text \<open>
  What the tree builder of \<^theory_text>\<open>Git_Objects\<close> produces, read back the way git reads it: a reader of tree
  objects, the lookup of a path from a tree, the abstract tree a directory of files stands for, and
  the refinement from the builder to it.
\<close>

section \<open>Reading trees\<close>

text \<open>Git's tree format: for each entry, mode, space, name, NUL and the 20 bytes of the reference.\<close>

lemma cut_at_shorter: "cut_at [x] s = Some (b, a) \<Longrightarrow> length a < length s"
  by (drule cut_at_sound) simp

function parse_tree :: "string \<Rightarrow> (string \<times> string \<times> string) list option" where
  "parse_tree s =
     (if s = [] then Some []
      else case cut_at '' '' s of
        None \<Rightarrow> None
      | Some (mode, r1) \<Rightarrow>
          (case cut_at [NUL] r1 of
             None \<Rightarrow> None
           | Some (name, r2) \<Rightarrow>
               (if length r2 < 20 then None
                else map_option (\<lambda>es. (mode, name, take 20 r2) # es) (parse_tree (drop 20 r2)))))"
  by pat_completeness auto
termination
  by (relation "measure length") (auto dest!: cut_at_shorter)

declare parse_tree.simps [simp del]

text \<open>
  A set of objects: the type and contents of each name.  The mode and reference at a path below the tree
  \<open>r\<close> in it.
\<close>

type_synonym objects = "string \<Rightarrow> (string \<times> string) option"

fun git_lookup :: "objects \<Rightarrow> string \<Rightarrow> string \<Rightarrow> string list \<Rightarrow> (string \<times> string) option" where
  "git_lookup obs m r [] = Some (m, r)"
| "git_lookup obs m r (p # ps) =
     (case obs r of
        None \<Rightarrow> None
      | Some (ty, c) \<Rightarrow>
          (if ty \<noteq> ''tree'' then None
           else case parse_tree c of
             None \<Rightarrow> None
           | Some es \<Rightarrow>
               (case find (\<lambda>(_, n, _). n = p) es of
                  None \<Rightarrow> None
                | Some (m', _, h) \<Rightarrow> git_lookup obs m' h ps)))"

text \<open>The mode at a path and, for a file, its contents.\<close>

definition git_view :: "objects \<Rightarrow> string \<Rightarrow> string list \<Rightarrow> (string \<times> string option) option" where
  "git_view obs r ps =
     (case git_lookup obs ''40000'' r ps of
        None \<Rightarrow> None
      | Some (m, h) \<Rightarrow>
          (case obs h of
             None \<Rightarrow> None
           | Some (ty, c) \<Rightarrow> Some (m, if ty = ''blob'' then Some c else None)))"

text \<open>The objects a builder holds.\<close>

definition objs_of :: "(string \<times> gobject) list \<Rightarrow> objects" where
  "objs_of hs h = map_option (\<lambda>ob. (o_typ ob, o_content ob)) (map_of hs h)"

text \<open>The same question asked of the files themselves.\<close>

definition blob_mode :: "fileInfo \<Rightarrow> string" where
  "blob_mode fi = (if (perm (b_mode fi) AND execBits) \<noteq> 0 then ''100755'' else ''100644'')"

definition file_view :: "(string \<times> fileInfo) list \<Rightarrow> string \<Rightarrow> (string \<times> string option) option" where
  "file_view files name =
     (case map_of files name of
        Some fi \<Rightarrow> Some (blob_mode fi, Some (b_contents fi))
      | None \<Rightarrow> if list_ex (\<lambda>f. prefix (name @ [slash]) f) (map fst files) then Some (''40000'', None) else None)"

section \<open>Abstract trees\<close>

datatype gtree = GBlob string | GTree "(string \<times> string \<times> gtree) list"

fun gref :: "(string \<Rightarrow> string) \<Rightarrow> gtree \<Rightarrow> string" where
  "gref sha (GBlob c) = mkObjRef sha ''blob'' c"
| "gref sha (GTree es) = mkObjRef sha ''tree'' (concat (map (\<lambda>(m, n, t). ent_bytes m n (gref sha t)) es))"

definition gbytes :: "(string \<Rightarrow> string) \<Rightarrow> (string \<times> string \<times> gtree) list \<Rightarrow> string" where
  "gbytes sha es = concat (map (\<lambda>(m, n, t). ent_bytes m n (gref sha t)) es)"

lemma gref_GTree: "gref sha (GTree es) = mkObjRef sha ''tree'' (gbytes sha es)"
  by (simp add: gbytes_def)

declare gref.simps(2) [simp del]

fun gobjs :: "(string \<Rightarrow> string) \<Rightarrow> gtree \<Rightarrow> (string \<times> string) list" where
  "gobjs sha (GBlob c) = [(''blob'', c)]"
| "gobjs sha (GTree es) = (''tree'', gbytes sha es) # concat (map (\<lambda>(m, n, t). gobjs sha t) es)"

text \<open>All objects of the tree are there.\<close>

definition stored :: "(string \<Rightarrow> string) \<Rightarrow> (string \<times> gobject) list \<Rightarrow> gtree \<Rightarrow> bool" where
  "stored sha hs T \<longleftrightarrow>
     (\<forall>(ty, c) \<in> set (gobjs sha T). map_of hs (mkObjRef sha ty c) = Some \<lparr>o_typ = ty, o_content = c, o_hash = mkObjRef sha ty c\<rparr>)"

definition present :: "(string \<Rightarrow> string) \<Rightarrow> objects \<Rightarrow> gtree \<Rightarrow> bool" where
  "present sha obs T \<longleftrightarrow> (\<forall>(ty, c) \<in> set (gobjs sha T). obs (mkObjRef sha ty c) = Some (ty, c))"

fun wf_tree :: "gtree \<Rightarrow> bool" where
  "wf_tree (GBlob c) = True"
| "wf_tree (GTree es) = list_all (\<lambda>(m, n, t). CHR '' '' \<notin> set m \<and> NUL \<notin> set n \<and> wf_tree t) es"

fun tree_lookup :: "string \<Rightarrow> gtree \<Rightarrow> string list \<Rightarrow> (string \<times> gtree) option" where
  "tree_lookup m t [] = Some (m, t)"
| "tree_lookup m (GBlob c) (p # ps) = None"
| "tree_lookup m (GTree es) (p # ps) =
     (case find (\<lambda>(_, n, _). n = p) es of None \<Rightarrow> None | Some (m', _, t) \<Rightarrow> tree_lookup m' t ps)"

lemma parse_tree_ent:
  assumes "CHR '' '' \<notin> set m" "NUL \<notin> set n" "length h = 20"
  shows "parse_tree (ent_bytes m n h @ s) = map_option (\<lambda>es. (m, n, h) # es) (parse_tree s)"
proof -
  have e: "ent_bytes m n h @ s = m @ CHR '' '' # (n @ NUL # (h @ s))" by (simp add: ent_bytes_def)
  have "cut_at '' '' (ent_bytes m n h @ s) = Some (m, n @ NUL # (h @ s))"
    unfolding e by (rule cut_at_char [OF assms(1)])
  moreover have "cut_at [NUL] (n @ NUL # (h @ s)) = Some (n, h @ s)" by (rule cut_at_char [OF assms(2)])
  moreover have "ent_bytes m n h @ s \<noteq> []" by (simp add: e)
  ultimately show ?thesis using assms(3) by (subst parse_tree.simps) auto
qed

lemma parse_tree_gbytes:
  assumes "\<And>x. length (sha x) = 20" "wf_tree (GTree es)"
  shows "parse_tree (gbytes sha es) = Some (map (\<lambda>(m, n, t). (m, n, gref sha t)) es)"
  using assms(2)
proof (induction es)
  case Nil
  show ?case by (subst parse_tree.simps) (simp add: gbytes_def)
next
  case (Cons e es)
  obtain m n t where e: "e = (m, n, t)" by (cases e)
  have "length (gref sha t) = 20"
    by (cases t) (simp_all add: gref_GTree mkObjRef_def assms(1))
  with Cons show ?case
    by (simp add: e gbytes_def parse_tree_ent)
qed

lemma find_map: "find P (map f xs) = map_option f (find (P \<circ> f) xs)"
  by (induction xs) auto

lemma stored_sub: "stored sha hs (GTree es) \<Longrightarrow> (m, n, t) \<in> set es \<Longrightarrow> stored sha hs t"
  by (fastforce simp: stored_def)

lemma stored_top: "stored sha hs (GTree es) \<Longrightarrow>
   map_of hs (gref sha (GTree es)) = Some \<lparr>o_typ = ''tree'', o_content = gbytes sha es, o_hash = gref sha (GTree es)\<rparr>"
  by (simp add: stored_def gref_GTree)

lemma stored_blob: "stored sha hs (GBlob c) \<Longrightarrow>
   map_of hs (gref sha (GBlob c)) = Some \<lparr>o_typ = ''blob'', o_content = c, o_hash = gref sha (GBlob c)\<rparr>"
  by (simp add: stored_def)

lemma stored_mono: "stored sha hs T \<Longrightarrow> map_of hs \<subseteq>\<^sub>m map_of hs' \<Longrightarrow> stored sha hs' T"
  unfolding stored_def map_le_def by (fastforce simp: dom_def)

lemma stored_present: "stored sha hs T \<Longrightarrow> present sha (objs_of hs) T"
  by (fastforce simp: stored_def present_def objs_of_def)

lemma present_sub: "present sha obs (GTree es) \<Longrightarrow> (m, n, t) \<in> set es \<Longrightarrow> present sha obs t"
  by (fastforce simp: present_def)

lemma present_top:
  "present sha obs (GTree es) \<Longrightarrow> obs (gref sha (GTree es)) = Some (''tree'', gbytes sha es)"
  "present sha obs (GBlob c) \<Longrightarrow> obs (gref sha (GBlob c)) = Some (''blob'', c)"
  by (simp_all add: present_def gref_GTree)

lemma find_entry: "find (\<lambda>(_, n, _). n = p) es = Some (m, n, t) \<Longrightarrow> (m, n, t) \<in> set es \<and> n = p"
  by (induction es) (auto split: if_splits)

lemma tree_lookup_present: "present sha obs T \<Longrightarrow> tree_lookup m T ps = Some (m', t) \<Longrightarrow> present sha obs t"
proof (induction m T ps rule: tree_lookup.induct)
  case (3 m es p ps)
  then show ?case using present_sub by (fastforce split: option.splits dest: find_entry)
qed simp_all

lemma git_lookup_present:
  assumes "\<And>x. length (sha x) = 20"
  shows "present sha obs T \<Longrightarrow> wf_tree T \<Longrightarrow>
    git_lookup obs m (gref sha T) ps = map_option (\<lambda>(m, t). (m, gref sha t)) (tree_lookup m T ps)"
proof (induction ps arbitrary: T m)
  case Nil
  show ?case by simp
next
  case (Cons p ps)
  show ?case
  proof (cases T)
    case (GBlob c)
    then show ?thesis using present_top(2) [of sha obs c] Cons.prems(1) by simp
  next
    case (GTree es)
    note p = parse_tree_gbytes [OF assms Cons.prems(2) [unfolded GTree]]
    note s = Cons.prems(1) [unfolded GTree]
    show ?thesis
    proof (cases "find (\<lambda>(_, n, _). n = p) es")
      case None
      then show ?thesis by (simp add: GTree present_top(1) [OF s] p find_map comp_def case_prod_beta')
    next
      case (Some e)
      obtain m' n t where e: "e = (m', n, t)" by (cases e)
      then have "present sha obs t" "wf_tree t"
        using find_entry [OF Some [unfolded e]] present_sub [OF s] Cons.prems(2) by (auto simp: GTree list_all_iff)
      then show ?thesis using Cons.IH [of t m'] Some
        by (simp add: GTree present_top(1) [OF s] p find_map comp_def case_prod_beta' e)
    qed
  qed
qed

lemma git_view_present:
  assumes "\<And>x. length (sha x) = 20" "present sha obs T" "wf_tree T"
  shows "git_view obs (gref sha T) ps = map_option (\<lambda>(m, t). (m, case t of GBlob c \<Rightarrow> Some c | GTree _ \<Rightarrow> None)) (tree_lookup ''40000'' T ps)"
proof (cases "tree_lookup ''40000'' T ps")
  case (Some mt)
  obtain m t where mt: "mt = (m, t)" by (cases mt)
  then have "present sha obs t" using tree_lookup_present [OF assms(2)] Some by blast
  then show ?thesis using Some mt git_lookup_present [OF assms] by (cases t) (auto simp: git_view_def present_top(1) dest: present_top(2))
qed (simp add: git_view_def git_lookup_present [OF assms])

section \<open>The tree of a directory\<close>

definition dir_views :: "(string \<times> fileInfo) list \<Rightarrow> string \<Rightarrow> (string \<times> fileInfo option) list" where
  "dir_views files dir = (case dirEnts files dir of None \<Rightarrow> [] | Some ents \<Rightarrow> map ent_view ents)"

fun tree_of :: "nat \<Rightarrow> (string \<times> fileInfo) list \<Rightarrow> string \<Rightarrow> gtree" where
  "tree_of 0 files dir = GTree []"
| "tree_of (Suc n) files dir =
     GTree (map (\<lambda>(b, v). case v of
        None \<Rightarrow> (''40000'', b, tree_of n files (dir @ b @ [slash]))
      | Some fi \<Rightarrow> (blob_mode fi, b, GBlob (b_contents fi))) (dir_views files dir))"

lemma dir_views_set:
  assumes "no_conflict files"
  shows "set (dir_views files dir) = ent_view ` ents_under files dir" "distinct (map fst (dir_views files dir))"
proof -
  obtain ents where e: "dirEnts files dir = Some ents" "ent_view ` set ents = ent_view ` ents_under files dir"
    "distinct (map e_base ents)" using dirEnts_ok [OF assms, of dir] by blast
  show "set (dir_views files dir) = ent_view ` ents_under files dir" using e by (simp add: dir_views_def)
  have "map fst (dir_views files dir) = map e_base ents" by (simp add: e(1) dir_views_def ent_view_def)
  then show "distinct (map fst (dir_views files dir))" using e(3) by simp
qed

lemma views_iff:
  assumes "no_conflict files"
  shows "(b, Some fi) \<in> set (dir_views files dir) \<longleftrightarrow> slash \<notin> set b \<and> (dir @ b, fi) \<in> set files"
    and "(b, None) \<in> set (dir_views files dir) \<longleftrightarrow>
      slash \<notin> set b \<and> (\<exists>f \<in> set (map fst files). prefix (dir @ b @ [slash]) f)"
proof -
  have n: "slash \<notin> set b \<Longrightarrow> newEnt b fi = \<lparr>e_base = b, e_sortKey = b, e_isDir = False, e_fi = fi\<rparr>" for b fi
    by (simp add: newEnt_def cut_none)
  have d: "slash \<notin> set b \<Longrightarrow> newEnt (b @ slash # r) fi = \<lparr>e_base = b, e_sortKey = b @ [slash], e_isDir = True, e_fi = fi\<rparr>" for b r fi
    by (simp add: newEnt_def cut_char)
  have v: "ent_view (newEnt s x) = (b, Some fi) \<longleftrightarrow> slash \<notin> set b \<and> s = b \<and> x = fi" for s x
    by (rule newEnt_cases [of s x]) (auto simp: ent_view_def)
  have w: "ent_view (newEnt s x) = (b, None) \<longleftrightarrow> slash \<notin> set b \<and> (\<exists>r. s = b @ slash # r)" for s x
  proof
    show "ent_view (newEnt s x) = (b, None) \<Longrightarrow> slash \<notin> set b \<and> (\<exists>r. s = b @ slash # r)"
      by (rule newEnt_cases [of s x]) (auto simp: ent_view_def)
  qed (auto simp: d ent_view_def)
  have i: "y \<in> set (dir_views files dir) \<longleftrightarrow> (\<exists>s x. (dir @ s, x) \<in> set files \<and> ent_view (newEnt s x) = y)" for y
    unfolding dir_views_set(1) [OF assms] ents_under_def by blast
  show "(b, Some fi) \<in> set (dir_views files dir) \<longleftrightarrow> slash \<notin> set b \<and> (dir @ b, fi) \<in> set files"
    unfolding i v by blast
  have "(b, None) \<in> set (dir_views files dir) \<longleftrightarrow> (\<exists>s x. (dir @ s, x) \<in> set files \<and> ent_view (newEnt s x) = (b, None))"
    by (rule i)
  also have "\<dots> \<longleftrightarrow> slash \<notin> set b \<and> (\<exists>r x. (dir @ b @ slash # r, x) \<in> set files)"
    unfolding w by blast
  also have "\<dots> \<longleftrightarrow> slash \<notin> set b \<and> (\<exists>f \<in> set (map fst files). prefix (dir @ b @ [slash]) f)"
    by (force simp: prefix_def)
  finally show "(b, None) \<in> set (dir_views files dir) \<longleftrightarrow>
      slash \<notin> set b \<and> (\<exists>f \<in> set (map fst files). prefix (dir @ b @ [slash]) f)" .
qed

text \<open>Enough fuel for the directory \<open>dir\<close>.\<close>

definition deep_enough :: "nat \<Rightarrow> (string \<times> fileInfo) list \<Rightarrow> string \<Rightarrow> bool" where
  "deep_enough n files dir \<longleftrightarrow> 0 < n \<and> (\<forall>f \<in> set (map fst files). prefix dir f \<longrightarrow> length f < length dir + n)"

lemma deep_enough_sub:
  assumes "deep_enough (Suc n) files dir" "f \<in> set (map fst files)" "prefix (dir @ b @ [slash]) f"
  shows "deep_enough n files (dir @ b @ [slash])"
proof -
  have "length g < length dir + Suc n" if "g \<in> set (map fst files)" "prefix (dir @ b @ [slash]) g" for g
    using assms(1) that by (auto simp: deep_enough_def prefix_def)
  then have l: "length g < length (dir @ b @ [slash]) + n" if "g \<in> set (map fst files)" "prefix (dir @ b @ [slash]) g" for g
    using that by fastforce
  moreover have "0 < n" using l [OF assms(2,3)] prefix_length_le [OF assms(3)] by simp
  ultimately show ?thesis unfolding deep_enough_def by blast
qed

lemma find_distinct:
  assumes "distinct (map fst vs)"
  shows "find (\<lambda>v. fst v = b) vs = Some (b, x) \<longleftrightarrow> (b, x) \<in> set vs"
  using assms by (induction vs) (force simp: image_iff)+

lemma find_None_fst: "find (\<lambda>v. fst v = b) vs = None \<longleftrightarrow> b \<notin> fst ` set vs"
  by (induction vs) auto

definition ent_of :: "nat \<Rightarrow> (string \<times> fileInfo) list \<Rightarrow> string \<Rightarrow> string \<times> fileInfo option \<Rightarrow> string \<times> string \<times> gtree" where
  "ent_of n files dir = (\<lambda>(b, v). case v of
        None \<Rightarrow> (''40000'', b, tree_of n files (dir @ b @ [slash]))
      | Some fi \<Rightarrow> (blob_mode fi, b, GBlob (b_contents fi)))"

lemma tree_of_Suc: "tree_of (Suc n) files dir = GTree (map (ent_of n files dir) (dir_views files dir))"
  by (simp add: ent_of_def)

lemma ent_of_name [simp]: "fst (snd (ent_of n files dir v)) = fst v"
  by (cases v; cases "snd v") (simp_all add: ent_of_def)

declare tree_of.simps(2) [simp del]

text \<open>What a path leads to in the tree of a directory.\<close>

definition sub_view :: "string \<times> gtree \<Rightarrow> string \<times> string option" where
  "sub_view mt = (fst mt, case snd mt of GBlob c \<Rightarrow> Some c | GTree _ \<Rightarrow> None)"

lemma file_view_file:
  assumes "no_conflict files" "(name, fi) \<in> set files"
  shows "file_view files name = Some (blob_mode fi, Some (b_contents fi))"
  using assms by (simp add: file_view_def no_conflict_def)

lemma no_conflictD: "no_conflict files \<Longrightarrow> f \<in> fst ` set files \<Longrightarrow> g \<in> fst ` set files \<Longrightarrow> \<not> prefix (f @ [slash]) g"
  unfolding no_conflict_def list_all_iff set_map by blast

lemma file_view_below_file:
  assumes "no_conflict files" "(name, fi) \<in> set files"
  shows "file_view files (name @ slash # s) = None"
proof -
  have "\<not> prefix (name @ [slash]) f" if "f \<in> fst ` set files" for f
    using no_conflictD [OF assms(1) _ that] imageI [OF assms(2), of fst] by simp
  then have n: "\<not> prefix (name @ slash # s) f" if "f \<in> fst ` set files" for f s
    using that append_prefixD [of "name @ [slash]" s f] by auto
  then have "map_of files (name @ slash # s) = None" by (auto simp: map_of_eq_None_iff)
  then show ?thesis using n [of _ "s @ [slash]"] by (auto simp: file_view_def list_ex_iff)
qed

lemma tree_lookup_tree_of:
  assumes "no_conflict files"
  shows "deep_enough n files dir \<Longrightarrow> ps \<noteq> [] \<Longrightarrow> list_all (\<lambda>p. slash \<notin> set p) ps \<Longrightarrow>
    map_option sub_view (tree_lookup m (tree_of n files dir) ps) = file_view files (dir @ join_on slash ps)"
proof (induction ps arbitrary: n dir m)
  case (Cons p ps)
  note F = views_iff [OF assms] and D = dir_views_set(2) [OF assms, of dir]
  obtain k where n: "n = Suc k" using Cons.prems(1) by (cases n) (auto simp: deep_enough_def)
  have lk: "tree_lookup m (tree_of n files dir) (p # ps) =
     (case find (\<lambda>v. fst v = p) (dir_views files dir) of None \<Rightarrow> None
      | Some v \<Rightarrow> tree_lookup (fst (ent_of k files dir v)) (snd (snd (ent_of k files dir v))) ps)"
    by (simp add: n tree_of_Suc find_map comp_def case_prod_beta' split: option.split)
  have p: "slash \<notin> set p" using Cons.prems(3) by simp
  show ?case
  proof (cases "find (\<lambda>v. fst v = p) (dir_views files dir)")
    case None
    then have n1: "(p, v) \<notin> set (dir_views files dir)" for v by (force simp: find_None_fst)
    have nf: "(dir @ p, fi) \<notin> set files" for fi using F(1) [of p fi dir] p n1 by blast
    have nf2: "\<not> prefix (dir @ p @ [slash]) f" if "f \<in> fst ` set files" for f
      using F(2) [of p dir] p n1 that unfolding set_map by blast
    have "map_of files (dir @ p @ slash # s) = None" for s
      using nf2 [of "dir @ p @ slash # s"] by (simp add: map_of_eq_None_iff) blast
    moreover have "map_of files (dir @ p) = None" using nf by (force simp: map_of_eq_None_iff)
    moreover have "\<not> prefix (dir @ p @ slash # s) f" if "f \<in> fst ` set files" for f s
      using nf2 [OF that] append_prefixD [of "dir @ p @ [slash]" s f] by auto
    ultimately have "file_view files (dir @ join_on slash (p # ps)) = None"
      by (cases ps) (auto simp: file_view_def list_ex_iff)
    then show ?thesis using lk None by simp
  next
    case (Some v)
    then have vp: "fst v = p" by (auto simp: find_Some_iff)
    then have "find (\<lambda>v. fst v = p) (dir_views files dir) = Some (p, snd v)" using Some by (metis prod.collapse)
    then have vs: "(p, snd v) \<in> set (dir_views files dir)" using find_distinct [OF D] by blast
    show ?thesis
    proof (cases "snd v")
      case (Some fi)
      then have f: "(dir @ p, fi) \<in> set files" using F(1) vs by auto
      show ?thesis
      proof (cases ps)
        case Nil
        then show ?thesis using lk \<open>find _ _ = Some v\<close> vp Some file_view_file [OF assms f]
          by (cases v) (simp add: ent_of_def sub_view_def)
      next
        case (Cons q qs)
        then show ?thesis using lk \<open>find _ _ = Some v\<close> vp Some file_view_below_file [OF assms f, of "join_on slash ps"]
          by (cases v) (simp add: ent_of_def)
      qed
    next
      case None
      then obtain f where f: "f \<in> set (map fst files)" "prefix (dir @ p @ [slash]) f" using F(2) vs by auto
      note de = deep_enough_sub [OF Cons.prems(1) [unfolded n] f]
      have lk': "tree_lookup m (tree_of n files dir) (p # ps) = tree_lookup ''40000'' (tree_of k files (dir @ p @ [slash])) ps"
        using lk Some vp None by (cases v) (simp add: ent_of_def)
      show ?thesis
      proof (cases ps)
        case Nil
        have "map_of files (dir @ p) = None"
        proof (rule ccontr)
          assume "map_of files (dir @ p) \<noteq> None"
          then have "dir @ p \<in> fst ` set files" by (simp add: map_of_eq_None_iff)
          then show False using no_conflictD [OF assms, of "dir @ p" f] f by simp
        qed
        then have "file_view files (dir @ p) = Some (''40000'', None)" using f by (auto simp: file_view_def list_ex_iff)
        then show ?thesis using lk' Nil by (cases k) (simp_all add: sub_view_def tree_of_Suc)
      next
        case (Cons q qs)
        then have "map_option sub_view (tree_lookup ''40000'' (tree_of k files (dir @ p @ [slash])) ps) =
          file_view files ((dir @ p @ [slash]) @ join_on slash ps)"
          using Cons.prems(3) by (intro Cons.IH [OF de]) simp_all
        then show ?thesis using lk' Cons by simp
      qed
    qed
  qed
qed simp

section \<open>The builder builds the tree\<close>

text \<open>SHA-1 tells the objects at hand apart, and none of them has the all-zero name.\<close>

definition hash_ok :: "(string \<Rightarrow> string) \<Rightarrow> (string \<times> string) set \<Rightarrow> bool" where
  "hash_ok sha S \<longleftrightarrow> inj_on (\<lambda>(ty, c). mkObjRef sha ty c) S \<and> (\<forall>(ty, c) \<in> S. mkObjRef sha ty c \<noteq> zeroRef)"

text \<open>The builder holds these files, their blobs, and otherwise only objects of \<open>S\<close> under their names, each
  of them listed once.\<close>

definition tb_inv :: "(string \<Rightarrow> string) \<Rightarrow> (string \<times> string) set \<Rightarrow> (string \<times> fileInfo) list \<Rightarrow> treeBuilder \<Rightarrow> bool" where
  "tb_inv sha S files tb \<longleftrightarrow> tb_f tb = files \<and> distinct (hashes tb) \<and> set (hashes tb) = dom (map_of (hashSet tb)) \<and>
     (\<forall>k ob. map_of (hashSet tb) k = Some ob \<longrightarrow>
        (o_typ ob, o_content ob) \<in> S \<and> o_hash ob = k \<and> k = mkObjRef sha (o_typ ob) (o_content ob)) \<and>
     (\<forall>(_, fi) \<in> set files. b_gitHash fi = mkObjRef sha ''blob'' (b_contents fi) \<and> stored sha (hashSet tb) (GBlob (b_contents fi)))"

definition tb_le :: "treeBuilder \<Rightarrow> treeBuilder \<Rightarrow> bool" where
  "tb_le tb tb' \<longleftrightarrow> map_of (hashSet tb) \<subseteq>\<^sub>m map_of (hashSet tb')"

lemma tb_le_refl [simp]: "tb_le tb tb" and tb_le_trans: "tb_le a b \<Longrightarrow> tb_le b c \<Longrightarrow> tb_le a c"
  by (auto simp: tb_le_def intro: map_le_trans)

lemma stored_le: "stored sha (hashSet tb) T \<Longrightarrow> tb_le tb tb' \<Longrightarrow> stored sha (hashSet tb') T"
  unfolding tb_le_def by (rule stored_mono)

lemma addHash_ok:
  assumes "hash_ok sha S" "tb_inv sha S files tb" "(ty, c) \<in> S"
  shows "\<exists>tb'. addHash (mkObjRef sha ty c) ty c tb = (Ok (), tb') \<and> tb_inv sha S files tb' \<and> tb_le tb tb' \<and>
    map_of (hashSet tb') (mkObjRef sha ty c) = Some \<lparr>o_typ = ty, o_content = c, o_hash = mkObjRef sha ty c\<rparr>"
proof (cases "map_of (hashSet tb) (mkObjRef sha ty c)")
  case None
  let ?o = "\<lparr>o_typ = ty, o_content = c, o_hash = mkObjRef sha ty c\<rparr>"
  let ?tb = "tb\<lparr>hashSet := (mkObjRef sha ty c, ?o) # hashSet tb, hashes := hashes tb @ [mkObjRef sha ty c]\<rparr>"
  have "mkObjRef sha ty c \<noteq> zeroRef" using assms(1,3) by (auto simp: hash_ok_def)
  then have a: "addHash (mkObjRef sha ty c) ty c tb = (Ok (), ?tb)" using None by (simp add: addHash_def)
  have le: "tb_le tb ?tb" using None by (simp add: tb_le_def map_le_def dom_def)
  have "tb_inv sha S files ?tb"
    using assms(2,3) stored_le [OF _ le] None by (auto simp: tb_inv_def)
  with a le show ?thesis by auto
next
  case (Some ob)
  then have o: "(o_typ ob, o_content ob) \<in> S" "o_hash ob = mkObjRef sha ty c" "mkObjRef sha (o_typ ob) (o_content ob) = mkObjRef sha ty c"
    using assms(2) by (auto simp: tb_inv_def)
  then have "(o_typ ob, o_content ob) = (ty, c)"
    using assms(1,3) inj_onD [of "\<lambda>(ty, c). mkObjRef sha ty c" S "(o_typ ob, o_content ob)" "(ty, c)"]
    by (simp add: hash_ok_def)
  then have "ob = \<lparr>o_typ = ty, o_content = c, o_hash = mkObjRef sha ty c\<rparr>" using o(2) by (cases ob) simp
  then show ?thesis using Some assms(2) by (simp add: addHash_def)
qed

lemma build_ents_ok:
  assumes rec: "\<And>b tb. (b, None) \<in> ent_view ` set es \<Longrightarrow> tb_inv sha S files tb \<Longrightarrow>
      \<exists>tb'. rec (dir @ b @ [slash]) tb = Some (Ok (gref sha (tree_of n files (dir @ b @ [slash]))), tb') \<and>
        tb_inv sha S files tb' \<and> tb_le tb tb' \<and> stored sha (hashSet tb') (tree_of n files (dir @ b @ [slash]))"
    and names: "\<forall>e \<in> set es. NUL \<notin> set (e_base e) \<and> slash \<notin> set (e_base e)"
    and fis: "\<forall>e \<in> set es. \<not> e_isDir e \<longrightarrow> e_fi e \<in> snd ` set files"
    and inv: "tb_inv sha S files tb"
  shows "\<exists>tb'. build_ents rec dir es buf tb = Some (Ok (buf @ gbytes sha (map (ent_of n files dir) (map ent_view es))), tb') \<and>
    tb_inv sha S files tb' \<and> tb_le tb tb' \<and>
    (\<forall>v \<in> ent_view ` set es. stored sha (hashSet tb') (snd (snd (ent_of n files dir v))))"
  using assms
proof (induction es arbitrary: buf tb)
  case Nil
  then show ?case by (simp add: gbytes_def)
next
  case (Cons e es)
  let ?out = "\<lambda>v. gbytes sha [ent_of n files dir v]"
  note IH = Cons.IH [OF Cons.prems(1)]
  have g: "gbytes sha (map (ent_of n files dir) (map ent_view (e # es))) =
     ?out (ent_view e) @ gbytes sha (map (ent_of n files dir) (map ent_view es))" by (simp add: gbytes_def)
  have nm: "\<not> (NUL \<in> set (e_base e) \<or> slash \<in> set (e_base e))" using Cons.prems(2) by simp
  show ?case
  proof (cases "e_isDir e")
    case True
    let ?d = "dir @ e_base e @ [slash]"
    have v: "ent_view e = (e_base e, None)" using True by (simp add: ent_view_def)
    then obtain tb1 where r: "rec ?d tb = Some (Ok (gref sha (tree_of n files ?d)), tb1)"
      "tb_inv sha S files tb1" "tb_le tb tb1" "stored sha (hashSet tb1) (tree_of n files ?d)"
      using Cons.prems(1) [of "e_base e" tb] Cons.prems(4) by auto
    have o: "?out (ent_view e) = ent_bytes (ent_mode e) (e_base e) (gref sha (tree_of n files ?d))"
      using True by (simp add: v ent_of_def gbytes_def ent_mode_def)
    obtain tb2 where i: "build_ents rec dir es (buf @ ?out (ent_view e)) tb1 =
         Some (Ok ((buf @ ?out (ent_view e)) @ gbytes sha (map (ent_of n files dir) (map ent_view es))), tb2)"
      "tb_inv sha S files tb2" "tb_le tb1 tb2" "\<forall>v \<in> ent_view ` set es. stored sha (hashSet tb2) (snd (snd (ent_of n files dir v)))"
      using IH [of tb1 "buf @ ?out (ent_view e)"] r(2) Cons.prems(2,3) by auto
    have "build_ents rec dir (e # es) buf tb = build_ents rec dir es (buf @ ?out (ent_view e)) tb1"
      using nm True r(1) by (simp add: o)
    moreover have "stored sha (hashSet tb2) (snd (snd (ent_of n files dir (ent_view e))))"
      using stored_le [OF r(4) i(3)] by (simp add: v ent_of_def)
    ultimately show ?thesis using i tb_le_trans [OF r(3) i(3)] g by simp
  next
    case False
    then have v: "ent_view e = (e_base e, Some (e_fi e))" by (simp add: ent_view_def)
    obtain fn where "(fn, e_fi e) \<in> set files" using Cons.prems(3) False by auto
    then have f: "b_gitHash (e_fi e) = mkObjRef sha ''blob'' (b_contents (e_fi e))"
      "stored sha (hashSet tb) (GBlob (b_contents (e_fi e)))" using Cons.prems(4) by (auto simp: tb_inv_def)
    have o: "?out (ent_view e) = ent_bytes (ent_mode e) (e_base e) (b_gitHash (e_fi e))"
      using False by (simp add: v ent_of_def gbytes_def ent_mode_def blob_mode_def f)
    obtain tb2 where i: "build_ents rec dir es (buf @ ?out (ent_view e)) tb =
         Some (Ok ((buf @ ?out (ent_view e)) @ gbytes sha (map (ent_of n files dir) (map ent_view es))), tb2)"
      "tb_inv sha S files tb2" "tb_le tb tb2" "\<forall>v \<in> ent_view ` set es. stored sha (hashSet tb2) (snd (snd (ent_of n files dir v)))"
      using IH [of tb "buf @ ?out (ent_view e)"] Cons.prems(2,3,4) by auto
    have "build_ents rec dir (e # es) buf tb = build_ents rec dir es (buf @ ?out (ent_view e)) tb"
      using nm False by (simp add: o)
    moreover have "stored sha (hashSet tb2) (snd (snd (ent_of n files dir (ent_view e))))"
      using stored_le [OF f(2) i(3)] by (simp add: v ent_of_def)
    ultimately show ?thesis using i g by simp
  qed
qed

lemma stored_GTreeI:
  assumes "map_of hs (gref sha (GTree es)) = Some \<lparr>o_typ = ''tree'', o_content = gbytes sha es, o_hash = gref sha (GTree es)\<rparr>"
    and "\<forall>e \<in> set es. stored sha hs (snd (snd e))"
  shows "stored sha hs (GTree es)"
proof -
  have "map_of hs (mkObjRef sha ty c) = Some \<lparr>o_typ = ty, o_content = c, o_hash = mkObjRef sha ty c\<rparr>"
    if tc: "(ty, c) \<in> set (gobjs sha (GTree es))" for ty c
  proof (cases "ty = ''tree'' \<and> c = gbytes sha es")
    case True
    then show ?thesis using assms(1) by (simp add: gref_GTree)
  next
    case False
    then obtain m n t where "(m, n, t) \<in> set es" "(ty, c) \<in> set (gobjs sha t)" using tc by auto
    then show ?thesis using assms(2) by (fastforce simp: stored_def)
  qed
  then show ?thesis unfolding stored_def by blast
qed

lemma gobjs_sub: "(m, n, t) \<in> set es \<Longrightarrow> set (gobjs sha t) \<subseteq> set (gobjs sha (GTree es))"
  by fastforce

lemma ents_under_props:
  assumes "e \<in> ents_under files dir" "\<forall>f \<in> fst ` set files. NUL \<notin> set f"
  shows "NUL \<notin> set (e_base e) \<and> slash \<notin> set (e_base e) \<and> e_fi e \<in> snd ` set files"
proof -
  obtain s fi where s: "e = newEnt s fi" "(dir @ s, fi) \<in> set files" using assms(1) by (auto simp: ents_under_def)
  then have "NUL \<notin> set s" using assms(2) by force
  then have "NUL \<notin> set (e_base e)" by (rule_tac newEnt_cases [of s fi]) (auto simp: s(1))
  moreover have "e_fi e = fi" by (rule newEnt_cases [of s fi]) (auto simp: s(1))
  ultimately show ?thesis using newEnt_base_free [of s fi] s by force
qed

lemma buildTree_ok:
  assumes nc: "no_conflict files" and nul: "\<forall>f \<in> fst ` set files. NUL \<notin> set f" and h: "hash_ok sha S"
    and ord: "\<And>d xs. mset (ord d xs) = mset xs"
  shows "deep_enough n files dir \<Longrightarrow> tb_inv sha S files tb \<Longrightarrow> set (gobjs sha (tree_of n files dir)) \<subseteq> S \<Longrightarrow>
    \<exists>tb'. buildTree sha ord n dir tb = Some (Ok (gref sha (tree_of n files dir)), tb') \<and>
      tb_inv sha S files tb' \<and> tb_le tb tb' \<and> stored sha (hashSet tb') (tree_of n files dir)"
proof (induction n arbitrary: dir tb)
  case 0
  then show ?case by (simp add: deep_enough_def)
next
  case (Suc n)
  have "mset (ord dir files) = mset files" by (rule ord)
  moreover obtain ents0 where "dirEnts files dir = Some ents0" using dirEnts_ok [OF nc] by blast
  ultimately obtain ents where e: "dirEnts (ord dir files) dir = Some ents" "map ent_view ents = dir_views files dir"
    using dirEnts_order [OF nc] by (fastforce simp: dir_views_def)
  have "no_conflict (ord dir files)" using no_conflict_mset [OF ord] nc by blast
  then have u: "set ents \<subseteq> ents_under files dir"
    using dirEnts_ok [of "ord dir files" dir] e(1) ents_under_cong [OF mset_eq_setD [OF ord]] by auto
  have vs: "ent_view ` set ents = set (dir_views files dir)" using e(2) by (metis set_map)
  have rec: "\<exists>tb'. buildTree sha ord n (dir @ b @ [slash]) tb = Some (Ok (gref sha (tree_of n files (dir @ b @ [slash]))), tb') \<and>
        tb_inv sha S files tb' \<and> tb_le tb tb' \<and> stored sha (hashSet tb') (tree_of n files (dir @ b @ [slash]))"
    if b: "(b, None) \<in> ent_view ` set ents" and i: "tb_inv sha S files tb" for b tb
  proof (rule Suc.IH [OF _ i])
    have bv: "(b, None) \<in> set (dir_views files dir)" using b vs by simp
    then obtain f where "f \<in> set (map fst files)" "prefix (dir @ b @ [slash]) f" using views_iff(2) [OF nc] by blast
    then show "deep_enough n files (dir @ b @ [slash])" by (rule deep_enough_sub [OF Suc.prems(1)])
    have "(''40000'', b, tree_of n files (dir @ b @ [slash])) \<in> set (map (ent_of n files dir) (dir_views files dir))"
      using bv by (force simp: ent_of_def image_iff)
    then show "set (gobjs sha (tree_of n files (dir @ b @ [slash]))) \<subseteq> S"
      using gobjs_sub Suc.prems(3) unfolding tree_of_Suc by fast
  qed
  have names: "\<forall>e \<in> set ents. NUL \<notin> set (e_base e) \<and> slash \<notin> set (e_base e)"
    and fis: "\<forall>e \<in> set ents. \<not> e_isDir e \<longrightarrow> e_fi e \<in> snd ` set files"
    using u ents_under_props [OF _ nul] by blast+
  let ?es = "map (ent_of n files dir) (dir_views files dir)"
  obtain tb1 where b: "build_ents (buildTree sha ord n) dir ents [] tb = Some (Ok (gbytes sha ?es), tb1)"
    "tb_inv sha S files tb1" "tb_le tb tb1" "\<forall>v \<in> set (dir_views files dir). stored sha (hashSet tb1) (snd (snd (ent_of n files dir v)))"
    using build_ents_ok [of ents sha S files "buildTree sha ord n" dir n tb "[]", OF rec names fis Suc.prems(2)]
    unfolding e(2) vs append_Nil by blast
  have "(''tree'', gbytes sha ?es) \<in> S" using Suc.prems(3) by (simp add: tree_of_Suc)
  from addHash_ok [OF h b(2) this] obtain tb2 where a:
    "addHash (gref sha (GTree ?es)) ''tree'' (gbytes sha ?es) tb1 = (Ok (), tb2)"
    "tb_inv sha S files tb2" "tb_le tb1 tb2"
    "map_of (hashSet tb2) (gref sha (GTree ?es)) = Some \<lparr>o_typ = ''tree'', o_content = gbytes sha ?es, o_hash = gref sha (GTree ?es)\<rparr>"
    by (auto simp: gref_GTree)
  have "buildTree sha ord (Suc n) dir tb = Some (addTree sha (gbytes sha ?es) tb1)"
    using e(1) b(1) Suc.prems(2) by (simp add: tb_inv_def)
  also have "\<dots> = Some (Ok (gref sha (GTree ?es)), tb2)" using a(1) by (simp add: addTree_def gref_GTree)
  finally have "buildTree sha ord (Suc n) dir tb = Some (Ok (gref sha (GTree ?es)), tb2)" .
  moreover have "stored sha (hashSet tb2) (GTree ?es)"
    using stored_GTreeI [OF a(4)] b(4) stored_le [OF _ a(3)] by auto
  ultimately show ?case using a(2) tb_le_trans [OF b(3) a(3)] unfolding tree_of_Suc by blast
qed

lemma wf_tree_of:
  assumes "no_conflict files" "\<forall>f \<in> fst ` set files. NUL \<notin> set f"
  shows "wf_tree (tree_of n files dir)"
proof (induction n arbitrary: dir)
  case (Suc n)
  have "NUL \<notin> set (fst v)" if "v \<in> set (dir_views files dir)" for v
    using that ents_under_props [OF _ assms(2)] unfolding dir_views_set(1) [OF assms(1)] by (auto simp: ent_view_def)
  moreover have "CHR '' '' \<notin> set (fst (ent_of n files dir v)) \<and> wf_tree (snd (snd (ent_of n files dir v)))" for v
    using Suc by (cases v; cases "snd v") (simp_all add: ent_of_def blob_mode_def)
  ultimately show ?case by (auto simp: tree_of_Suc list_all_iff case_prod_beta')
qed simp

section \<open>A module's files\<close>

text \<open>Adding files one after the other: name, what opening and reading gives, and mode.\<close>

fun addFiles :: "(string \<Rightarrow> string) \<Rightarrow> (string \<times> (err + string) \<times> fmode) list \<Rightarrow> treeBuilder \<Rightarrow> unit res \<times> treeBuilder" where
  "addFiles sha [] tb = (Ok (), tb)"
| "addFiles sha ((name, rd, mode) # fs) tb =
     rbind (addFile sha name rd mode tb) (\<lambda>_ tb1. addFiles sha fs tb1)"

definition tree_fuel :: "(string \<times> fileInfo) list \<Rightarrow> nat" where
  "tree_fuel files = Suc (sum_list (map (length \<circ> fst) files))"

definition readable :: "(string \<times> string \<times> fmode) list \<Rightarrow> (string \<times> (err + string) \<times> fmode) list" where
  "readable adds = map (\<lambda>(n, c, m). (n, Inr c, m)) adds"

definition files_of :: "(string \<Rightarrow> string) \<Rightarrow> (string \<times> string \<times> fmode) list \<Rightarrow> (string \<times> fileInfo) list" where
  "files_of sha adds = map (\<lambda>(n, c, m). (n, \<lparr>b_contents = c, b_mode = m, b_gitHash = mkObjRef sha ''blob'' c\<rparr>)) adds"

definition module_tree :: "(string \<times> fileInfo) list \<Rightarrow> gtree" where
  "module_tree files = tree_of (tree_fuel files) files []"

definition module_objects :: "(string \<Rightarrow> string) \<Rightarrow> (string \<times> fileInfo) list \<Rightarrow> (string \<times> string) list" where
  "module_objects sha files = map (\<lambda>(_, fi). (''blob'', b_contents fi)) files @ gobjs sha (module_tree files)"

lemma deep_enough_fuel: "deep_enough (tree_fuel files) files []"
proof -
  have "length f \<le> sum_list (map (length \<circ> fst) files)" if "f \<in> set (map fst files)" for f
    using that member_le_sum_list [of "length f" "map (length \<circ> fst) files"] by force
  then show ?thesis by (auto simp: deep_enough_def tree_fuel_def less_Suc_eq_le)
qed

lemma map_put_new: "k \<notin> fst ` set m \<Longrightarrow> map_put k v m = m @ [(k, v)]"
  by (induction m) auto

lemma tb_inv_f: "tb_inv sha S files tb \<Longrightarrow> b_gitHash fi = mkObjRef sha ''blob'' (b_contents fi) \<Longrightarrow>
    stored sha (hashSet tb) (GBlob (b_contents fi)) \<Longrightarrow> tb_inv sha S (files @ [(n, fi)]) (tb\<lparr>tb_f := files @ [(n, fi)]\<rparr>)"
  by (auto simp: tb_inv_def)

lemma addFile_ok:
  assumes "hash_ok sha S" "tb_inv sha S files tb" "(''blob'', c) \<in> S" "n \<notin> fst ` set files"
  shows "\<exists>tb'. addFile sha n (Inr c) m tb = (Ok (), tb') \<and> tb_inv sha S (files @ files_of sha [(n, c, m)]) tb'"
proof -
  let ?fi = "\<lparr>b_contents = c, b_mode = m, b_gitHash = mkObjRef sha ''blob'' c\<rparr>"
  obtain tb1 where a: "addHash (mkObjRef sha ''blob'' c) ''blob'' c tb = (Ok (), tb1)" "tb_inv sha S files tb1"
    "map_of (hashSet tb1) (mkObjRef sha ''blob'' c) = Some \<lparr>o_typ = ''blob'', o_content = c, o_hash = mkObjRef sha ''blob'' c\<rparr>"
    using addHash_ok [OF assms(1,2,3)] by blast
  have f: "tb_f tb = files" "tb_f tb1 = files" using assms(2) a(2) by (auto simp: tb_inv_def)
  have "addHash (mkObjRef sha ''blob'' c) ''blob'' c (tb\<lparr>tb_f := files @ [(n, ?fi)]\<rparr>) = (Ok (), tb1\<lparr>tb_f := files @ [(n, ?fi)]\<rparr>)"
    using a(1) by (auto simp: addHash_def split: if_splits)
  moreover have "tb_inv sha S (files @ [(n, ?fi)]) (tb1\<lparr>tb_f := files @ [(n, ?fi)]\<rparr>)"
    using tb_inv_f [OF a(2), of ?fi n] a(3) by (simp add: stored_def)
  ultimately show ?thesis using assms(4) f(1) by (simp add: addFile_def map_put_new files_of_def Let_def)
qed

lemma addFiles_ok:
  assumes "hash_ok sha S" "tb_inv sha S files tb" "\<forall>(_, c, _) \<in> set adds. (''blob'', c) \<in> S"
    "distinct (map fst (files @ files_of sha adds))"
  shows "\<exists>tb'. addFiles sha (readable adds) tb = (Ok (), tb') \<and> tb_inv sha S (files @ files_of sha adds) tb'"
  using assms(2-4)
proof (induction adds arbitrary: files tb)
  case Nil
  then show ?case by (simp add: readable_def files_of_def)
next
  case (Cons a adds)
  obtain n c m where a: "a = (n, c, m)" by (cases a)
  have "n \<notin> fst ` set files" "(''blob'', c) \<in> S" using Cons.prems(2,3) by (auto simp: a files_of_def)
  then obtain tb1 where t: "addFile sha n (Inr c) m tb = (Ok (), tb1)" "tb_inv sha S (files @ files_of sha [(n, c, m)]) tb1"
    using addFile_ok [OF assms(1) Cons.prems(1)] by blast
  have s: "(files @ files_of sha [(n, c, m)]) @ files_of sha adds = files @ files_of sha (a # adds)"
    by (simp add: files_of_def a)
  obtain tb2 where "addFiles sha (readable adds) tb1 = (Ok (), tb2)" "tb_inv sha S (files @ files_of sha (a # adds)) tb2"
    using Cons.IH [OF t(2)] Cons.prems(2,3) unfolding s by auto
  then show ?case using t(1) by (simp add: readable_def a)
qed

lemma tb_inv_new: "tb_inv sha S [] newTreeBuilder"
  by (simp add: tb_inv_def newTreeBuilder_def)

lemma module_objects_blobs: "\<forall>(_, c, _) \<in> set adds. (''blob'', c) \<in> set (module_objects sha (files_of sha adds))"
  by (force simp: module_objects_def files_of_def)

lemma module_names: "list_all (\<lambda>a. NUL \<notin> set (fst a)) adds \<Longrightarrow> \<forall>f \<in> fst ` set (files_of sha adds). NUL \<notin> set f"
  by (force simp: files_of_def list_all_iff)

lemma module_tree_wf:
  "no_conflict (files_of sha adds) \<Longrightarrow> list_all (\<lambda>a. NUL \<notin> set (fst a)) adds \<Longrightarrow> wf_tree (module_tree (files_of sha adds))"
  unfolding module_tree_def using wf_tree_of module_names by blast

lemma tree_lookup_module:
  "no_conflict files \<Longrightarrow> ps \<noteq> [] \<Longrightarrow> list_all (\<lambda>p. slash \<notin> set p) ps \<Longrightarrow>
     map_option sub_view (tree_lookup m (module_tree files) ps) = file_view files (join_on slash ps)"
  using tree_lookup_tree_of [OF _ deep_enough_fuel, of files ps m] by (simp add: module_tree_def)

lemma module_tree_built:
  assumes "\<And>d xs. mset (ord d xs) = mset xs" "no_conflict (files_of sha adds)" "list_all (\<lambda>a. NUL \<notin> set (fst a)) adds"
    and "hash_ok sha (set (module_objects sha (files_of sha adds)))"
  shows "\<exists>tb tb'. addFiles sha (readable adds) newTreeBuilder = (Ok (), tb) \<and> tb_f tb = files_of sha adds \<and>
    buildTree sha ord (tree_fuel (files_of sha adds)) [] tb = Some (Ok (gref sha (module_tree (files_of sha adds))), tb') \<and>
    tb_inv sha (set (module_objects sha (files_of sha adds))) (files_of sha adds) tb' \<and>
    stored sha (hashSet tb') (module_tree (files_of sha adds))"
proof -
  let ?F = "files_of sha adds" and ?S = "set (module_objects sha (files_of sha adds))"
  have "distinct (map fst ([] @ ?F))" using assms(2) by (simp add: no_conflict_def)
  then obtain tb where a: "addFiles sha (readable adds) newTreeBuilder = (Ok (), tb)" "tb_inv sha ?S ?F tb"
    using addFiles_ok [OF assms(4) tb_inv_new module_objects_blobs] by auto
  have "set (gobjs sha (tree_of (tree_fuel ?F) ?F [])) \<subseteq> ?S" by (auto simp: module_objects_def module_tree_def)
  then show ?thesis
    using a buildTree_ok [where ord = ord, OF assms(2) module_names [OF assms(3)] assms(4) _ deep_enough_fuel a(2)] assms(1)
    by (auto simp: module_tree_def tb_inv_def)
qed

text \<open>
  C17. The git tree of a module is its files: for any files whose names have no NUL and are not both a
  file and a directory, whatever order the maps are ranged over in, the builder ends, returns the
  same tree reference, and reading that tree the way git does yields at every path exactly the file
  added there, with its contents and executable bit, a directory where files lie below, and nothing
  anywhere else (as long as SHA-1 tells the module's objects apart).
\<close>
theorem git_tree_is_module:
  assumes "\<And>x. length (sha x) = 20" "\<And>d xs. mset (ord d xs) = mset xs"
    and "no_conflict (files_of sha adds)" "list_all (\<lambda>a. NUL \<notin> set (fst a)) adds"
    and "hash_ok sha (set (module_objects sha (files_of sha adds)))"
  shows "\<exists>tb tb'. addFiles sha (readable adds) newTreeBuilder = (Ok (), tb) \<and>
    buildTree sha ord (tree_fuel (files_of sha adds)) [] tb = Some (Ok (gref sha (module_tree (files_of sha adds))), tb') \<and>
    (\<forall>ps. ps \<noteq> [] \<longrightarrow> list_all (\<lambda>p. slash \<notin> set p) ps \<longrightarrow>
       git_view (objs_of (hashSet tb')) (gref sha (module_tree (files_of sha adds))) ps = file_view (files_of sha adds) (join_on slash ps))"
proof -
  let ?T = "module_tree (files_of sha adds)"
  obtain tb tb' where t: "addFiles sha (readable adds) newTreeBuilder = (Ok (), tb)"
    "buildTree sha ord (tree_fuel (files_of sha adds)) [] tb = Some (Ok (gref sha ?T), tb')" "stored sha (hashSet tb') ?T"
    using module_tree_built [where ord = ord, OF assms(2-5)] by blast
  have "git_view (objs_of (hashSet tb')) (gref sha ?T) ps = file_view (files_of sha adds) (join_on slash ps)"
    if ps: "ps \<noteq> []" "list_all (\<lambda>p. slash \<notin> set p) ps" for ps
    using tree_lookup_module [OF assms(3) ps, of "''40000''"] git_view_present [OF assms(1) stored_present [OF t(3)] module_tree_wf [OF assms(3,4)]]
    by (simp add: sub_view_def [abs_def] case_prod_beta')
  with t(1,2) show ?thesis by blast
qed

text \<open>A small module, and a hash that tells its objects apart.\<close>

definition toy_sha :: "string \<Rightarrow> string" where
  "toy_sha s = take 20 (char_of (length s) # rev s @ replicate 20 CHR ''-'')"

definition toy_adds :: "(string \<times> string \<times> fmode) list" where
  "toy_adds = [(''mod'', ''module m'', \<lparr>is_dir = False, perm = 420\<rparr>), (''zip/a.go'', ''A'', \<lparr>is_dir = False, perm = 420\<rparr>),
     (''zip/b/run'', ''B'', \<lparr>is_dir = False, perm = 493\<rparr>)]"

lemma hash_ok_list:
  "hash_ok sha (set xs) \<longleftrightarrow> distinct (map (\<lambda>(ty, c). mkObjRef sha ty c) (remdups xs)) \<and>
     list_all (\<lambda>(ty, c). mkObjRef sha ty c \<noteq> zeroRef) xs"
  by (simp add: hash_ok_def distinct_map list_all_iff)

lemma toy_sha_length: "length (toy_sha x) = 20"
  by (simp add: toy_sha_def)

lemma toy_no_conflict: "no_conflict (files_of toy_sha toy_adds)"
  by code_simp

lemma toy_hash_ok: "hash_ok toy_sha (set (module_objects toy_sha (files_of toy_sha toy_adds)))"
  unfolding hash_ok_list by code_simp

theorem git_tree_is_module_witness:
  "\<exists>tb tb'. addFiles toy_sha (readable toy_adds) newTreeBuilder = (Ok (), tb) \<and>
    buildTree toy_sha (\<lambda>d. rev) (tree_fuel (files_of toy_sha toy_adds)) [] tb =
      Some (Ok (gref toy_sha (module_tree (files_of toy_sha toy_adds))), tb') \<and>
    (\<forall>ps. ps \<noteq> [] \<longrightarrow> list_all (\<lambda>p. slash \<notin> set p) ps \<longrightarrow>
       git_view (objs_of (hashSet tb')) (gref toy_sha (module_tree (files_of toy_sha toy_adds))) ps =
         file_view (files_of toy_sha toy_adds) (join_on slash ps))"
  by (rule git_tree_is_module [OF toy_sha_length _ toy_no_conflict _ toy_hash_ok])
    (simp_all add: toy_adds_def)

end
