(* ===== verification/Git_Pack.thy ===== *)
theory Git_Pack
  imports Git_Trees
begin

text \<open>
  How \<^verbatim>\<open>store/gitstore/gitstore.go\<close> sends objects to git: \<^verbatim>\<open>packWriter\<close> and \<^verbatim>\<open>sendToGit\<close>.  The commands
  of git are a record of functions over the repository's state; zlib and SHA-1 are parameters.
\<close>

section \<open>The pack writer\<close>

text \<open>\<open>pw_s1\<close> is what was written to the running hash; it is never nil.\<close>

record packWriter =
  pw_s1 :: string
  pw_closed :: bool
  pw_buf :: string

definition pw_Write :: "string \<Rightarrow> packWriter \<Rightarrow> unit res \<times> packWriter" where
  "pw_Write p pw =
     (if pw_closed pw then (Fail (ErrMsg ''packWriter already closed''), pw)
      else (Ok (), pw\<lparr>pw_buf := pw_buf pw @ p, pw_s1 := pw_s1 pw @ p\<rparr>))"

definition newPackWriter :: "nat \<Rightarrow> packWriter" where
  "newPackWriter numObjs =
     snd (pw_Write (''PACK'' @ str_of_bytes (be_put32 2) @ str_of_bytes (be_put32 (word_of_nat numObjs)))
       \<lparr>pw_s1 = [], pw_closed = False, pw_buf = []\<rparr>)"

definition continueBit :: u8 where
  "continueBit = 0x80"

function size_loop :: "nat \<Rightarrow> bytes" where
  "size_loop sz =
     (if sz = 0 then []
      else
      let b = word_of_nat (take_bit 7 sz);
          sz' = drop_bit 7 sz;
          b' = (if sz' \<noteq> 0 then b OR continueBit else b)
      in b' # size_loop sz')"
  by pat_completeness auto
termination
  by (relation "measure id") (simp_all add: drop_bit_eq_div div_less_dividend)

declare size_loop.simps [simp del]

definition obj_header :: "u8 \<Rightarrow> nat \<Rightarrow> bytes" where
  "obj_header typ sz =
     (let firstSizeBits = word_of_nat (take_bit 4 sz);
          sz' = drop_bit 4 sz;
          firstByte = push_bit 4 (typ AND 0x7) OR firstSizeBits;
          firstByte = (if sz' \<noteq> 0 then firstByte OR continueBit else firstByte)
      in firstByte # size_loop sz')"

definition pack_typ :: "string \<Rightarrow> u8 option" where
  "pack_typ t = (if t = ''tree'' then Some 2 else if t = ''blob'' then Some 3 else None)"

text \<open>
  \<open>zlib\<close> is the whole stream its writer produces for some contents.  The result of writing the header
  is ignored by the code; a closed pack writer fails the zlib writer.
\<close>

definition writePackObject :: "(string \<Rightarrow> string) \<Rightarrow> gobject \<Rightarrow> packWriter \<Rightarrow> unit res \<times> packWriter" where
  "writePackObject zlib obj pw =
     (case pack_typ (o_typ obj) of
        None \<Rightarrow> (Panic, pw)
      | Some typ \<Rightarrow>
          let (_, pw1) = pw_Write (str_of_bytes (obj_header typ (length (o_content obj)))) pw
          in pw_Write (zlib (o_content obj)) pw1)"

definition pw_Close :: "(string \<Rightarrow> string) \<Rightarrow> packWriter \<Rightarrow> packWriter" where
  "pw_Close sha pw = pw\<lparr>pw_buf := pw_buf pw @ sha (pw_s1 pw), pw_closed := True\<rparr>"

section \<open>Reading packs\<close>

text \<open>Git's pack format, version 2, for packs without deltas.\<close>

fun parse_varint :: "string \<Rightarrow> (nat \<times> string) option" where
  "parse_varint [] = None"
| "parse_varint (c # s) =
     (let b = (of_char c :: nat) in
      if 128 \<le> b then map_option (\<lambda>(n, r). (b - 128 + 128 * n, r)) (parse_varint s)
      else Some (b, s))"

fun parse_header :: "string \<Rightarrow> (nat \<times> nat \<times> string) option" where
  "parse_header [] = None"
| "parse_header (c # s) =
     (let b = (of_char c :: nat); t = b div 16 mod 8; lo = b mod 16 in
      if 128 \<le> b then map_option (\<lambda>(n, r). (t, lo + 16 * n, r)) (parse_varint s)
      else Some (t, lo, s))"

definition typ_name :: "nat \<Rightarrow> string option" where
  "typ_name t = (if t = 2 then Some ''tree'' else if t = 3 then Some ''blob'' else None)"

fun parse_objects :: "(string \<Rightarrow> (string \<times> string) option) \<Rightarrow> nat \<Rightarrow> string \<Rightarrow> ((string \<times> string) list \<times> string) option" where
  "parse_objects inflate 0 s = Some ([], s)"
| "parse_objects inflate (Suc k) s =
     (case parse_header s of
        None \<Rightarrow> None
      | Some (t, sz, r) \<Rightarrow>
          (case (typ_name t, inflate r) of
             (Some ty, Some (c, r')) \<Rightarrow>
               (if length c \<noteq> sz then None
                else map_option (\<lambda>(os, r''). ((ty, c) # os, r'')) (parse_objects inflate k r'))
           | _ \<Rightarrow> None))"

definition parse_pack :: "(string \<Rightarrow> string) \<Rightarrow> (string \<Rightarrow> (string \<times> string) option) \<Rightarrow> string \<Rightarrow> (string \<times> string) list option" where
  "parse_pack sha inflate p =
     (if length p < 12 \<or> take 4 p \<noteq> ''PACK'' \<or> be_get32 (to_bytes (take 4 (drop 4 p))) \<noteq> 2 then None
      else case parse_objects inflate (unat (be_get32 (to_bytes (take 4 (drop 8 p))))) (drop 12 p) of
        None \<Rightarrow> None
      | Some (os, trailer) \<Rightarrow> if trailer = sha (take (length p - length trailer) p) then Some os else None)"

section \<open>Packs are read back\<close>

lemma unat_low7: "unat (word_of_nat (take_bit 7 n) :: u8) = n mod 128"
proof -
  have "n mod 128 < 256" using mod_less_divisor [of 128 n] by linarith
  then show ?thesis by (simp add: unsigned_of_nat take_bit_eq_mod)
qed

lemma or_disjoint_nat: "a < 2 ^ k \<Longrightarrow> push_bit k b OR a = 2 ^ k * b + (a :: nat)"
proof -
  assume "a < 2 ^ k"
  then have "take_bit k a = a" by (simp add: take_bit_nat_eq_self)
  then have "\<not> (k \<le> i \<and> bit a i)" for i using bit_take_bit_iff [of k a i] by auto
  then have "push_bit k b AND a = 0" by (intro bit_eqI) (auto simp: bit_and_iff bit_push_bit_iff)
  then have "push_bit k b OR a = push_bit k b + a" by (rule disjunctive_add_eq_or [symmetric])
  then show ?thesis by (simp add: push_bit_eq_mult mult.commute)
qed

lemma unat_or_continue: "unat (w :: u8) < 128 \<Longrightarrow> unat (w OR continueBit) = unat w + 128"
  using or_disjoint_nat [of "unat w" 7 1] by (simp add: continueBit_def unsigned_or_eq push_bit_eq_mult or.commute)

lemma parse_varint_size: "sz \<noteq> 0 \<Longrightarrow> parse_varint (str_of_bytes (size_loop sz) @ s) = Some (sz, s)"
proof (induction sz rule: less_induct)
  case (less sz)
  have l: "unat (word_of_nat (take_bit 7 sz) :: u8) < 128" by (simp add: unat_low7)
  have d: "drop_bit 7 sz = sz div 128" by (simp add: drop_bit_eq_div)
  show ?case
  proof (cases "sz div 128 = 0")
    case True
    then have "size_loop sz = [word_of_nat (take_bit 7 sz)]"
      using less.prems by (subst size_loop.simps) (simp add: d size_loop.simps [of 0] Let_def)
    moreover have "sz < 128" using True by (simp add: div_eq_0_iff)
    ultimately show ?thesis using l by (simp add: unat_low7 Let_def)
  next
    case False
    then have "size_loop sz = (word_of_nat (take_bit 7 sz) OR continueBit) # size_loop (sz div 128)"
      using less.prems by (subst size_loop.simps) (simp add: d Let_def)
    moreover have "parse_varint (str_of_bytes (size_loop (sz div 128)) @ s) = Some (sz div 128, s)"
      using less.IH False by simp
    ultimately show ?thesis using unat_or_continue [OF l] by (simp add: unat_low7 Let_def)
  qed
qed

lemma parse_header_obj:
  assumes "t = 2 \<or> t = 3"
  shows "parse_header (str_of_bytes (obj_header t sz) @ s) = Some (unat t, sz, s)"
proof -
  let ?lo = "word_of_nat (take_bit 4 sz) :: u8"
  define fb where "fb = push_bit 4 (t AND 0x7) OR ?lo"
  have lo: "unat ?lo = sz mod 16"
  proof -
    have "sz mod 16 < 256" using mod_less_divisor [of 16 sz] by linarith
    then show ?thesis by (simp add: unsigned_of_nat take_bit_eq_mod)
  qed
  have "unat fb = push_bit 4 (unat t) OR unat ?lo"
    using assms by (auto simp: fb_def unsigned_or_eq push_bit_eq_mult)
  also have "\<dots> = 16 * unat t + sz mod 16"
    using or_disjoint_nat [of "unat ?lo" 4 "unat t"] by (simp add: lo)
  finally have fb: "unat fb = 16 * unat t + sz mod 16" .
  have t: "unat t = 2 \<or> unat t = 3" using assms by auto
  have lt: "unat fb < 128" using t mod_less_divisor [of 16 sz] unfolding fb by auto
  have d: "drop_bit 4 sz = sz div 16" by (simp add: drop_bit_eq_div)
  show ?thesis
  proof (cases "sz div 16 = 0")
    case True
    then have "obj_header t sz = [fb]" by (simp add: fb_def obj_header_def Let_def d size_loop.simps [of 0])
    moreover have "sz < 16" using True by (simp add: div_eq_0_iff)
    ultimately show ?thesis using lt t by (auto simp: fb Let_def)
  next
    case False
    then have h: "obj_header t sz = (fb OR continueBit) # size_loop (sz div 16)" by (simp add: fb_def obj_header_def Let_def d)
    have "parse_varint (str_of_bytes (size_loop (sz div 16)) @ s) = Some (sz div 16, s)"
      by (rule parse_varint_size [OF False])
    moreover have e: "16 * unat t + sz mod 16 + 128 = sz mod 16 + 16 * (unat t + 8)" by simp
    have "(16 * unat t + sz mod 16 + 128) div 16 = unat t + 8" unfolding e by simp
    then have "(16 * unat t + sz mod 16 + 128) div 16 mod 8 = unat t" using t by auto
    moreover have "(16 * unat t + sz mod 16 + 128) mod 16 = sz mod 16" unfolding e mod_mult_self2 by simp
    ultimately show ?thesis unfolding h using unat_or_continue [OF lt] by (simp add: fb Let_def)
  qed
qed

text \<open>The pack of a list of objects.\<close>

fun writeObjs :: "(string \<Rightarrow> string) \<Rightarrow> gobject list \<Rightarrow> packWriter \<Rightarrow> unit res \<times> packWriter" where
  "writeObjs zlib [] pw = (Ok (), pw)"
| "writeObjs zlib (ob # os) pw = rbind (writePackObject zlib ob pw) (\<lambda>_ pw1. writeObjs zlib os pw1)"

definition obj_bytes :: "(string \<Rightarrow> string) \<Rightarrow> gobject \<Rightarrow> string" where
  "obj_bytes zlib ob =
     (case pack_typ (o_typ ob) of None \<Rightarrow> [] | Some typ \<Rightarrow> str_of_bytes (obj_header typ (length (o_content ob))) @ zlib (o_content ob))"

lemma writeObjs_ok:
  assumes "list_all (\<lambda>ob. o_typ ob = ''tree'' \<or> o_typ ob = ''blob'') os" "\<not> pw_closed pw"
  shows "writeObjs zlib os pw = (Ok (), pw\<lparr>pw_buf := pw_buf pw @ concat (map (obj_bytes zlib) os), pw_s1 := pw_s1 pw @ concat (map (obj_bytes zlib) os)\<rparr>)"
  using assms
proof (induction os arbitrary: pw)
  case (Cons ob os)
  from Cons.prems have "\<exists>tw. pack_typ (o_typ ob) = Some tw" by (auto simp: pack_typ_def)
  then obtain tw where t: "pack_typ (o_typ ob) = Some tw" ..
  let ?pw = "pw\<lparr>pw_buf := pw_buf pw @ obj_bytes zlib ob, pw_s1 := pw_s1 pw @ obj_bytes zlib ob\<rparr>"
  have "writePackObject zlib ob pw = (Ok (), ?pw)"
    using Cons.prems(2) by (simp add: writePackObject_def t pw_Write_def obj_bytes_def)
  then show ?case using Cons.IH [of ?pw] Cons.prems by simp
qed simp

lemma parse_objects_bytes:
  assumes "\<And>c r. inflate (zlib c @ r) = Some (c, r)"
  shows "list_all (\<lambda>ob. o_typ ob = ''tree'' \<or> o_typ ob = ''blob'') os \<Longrightarrow>
    parse_objects inflate (length os) (concat (map (obj_bytes zlib) os) @ r) = Some (map (\<lambda>ob. (o_typ ob, o_content ob)) os, r)"
proof (induction os)
  case (Cons ob os)
  from Cons.prems obtain tw where t: "pack_typ (o_typ ob) = Some tw" "tw = 2 \<or> tw = 3" "typ_name (unat tw) = Some (o_typ ob)"
    by (auto simp: pack_typ_def typ_name_def)
  show ?case using Cons parse_header_obj [OF t(2)] t(1,3) assms
    by (simp add: obj_bytes_def)
qed simp

lemma take_drop_pre: "length a = n \<Longrightarrow> take n (a @ b) = a \<and> drop n (a @ b) = b"
  by simp

lemma parse_pack_objs:
  assumes "\<And>c r. inflate (zlib c @ r) = Some (c, r)" "length os < 2 ^ 32"
    and "list_all (\<lambda>ob. o_typ ob = ''tree'' \<or> o_typ ob = ''blob'') os"
    and "writeObjs zlib os (newPackWriter (length os)) = (r, pw)"
  shows "r = Ok () \<and> \<not> pw_closed pw \<and>
    parse_pack sha inflate (pw_buf (pw_Close sha pw)) = Some (map (\<lambda>ob. (o_typ ob, o_content ob)) os)"
proof -
  let ?n = "str_of_bytes (be_put32 (word_of_nat (length os)))" and ?v = "str_of_bytes (be_put32 2)"
  let ?b = "concat (map (obj_bytes zlib) os)"
  define h where "h = ''PACK'' @ ?v @ ?n"
  have h: "length h = 12" "take 4 h = ''PACK''" "take 4 (drop 4 h) = ?v" "take 4 (drop 8 h) = ?n"
    by (simp_all add: h_def)
  have new: "newPackWriter (length os) = \<lparr>pw_s1 = h, pw_closed = False, pw_buf = h\<rparr>"
    by (simp add: newPackWriter_def pw_Write_def h_def)
  then have pw: "r = Ok ()" "pw = \<lparr>pw_s1 = h @ ?b, pw_closed = False, pw_buf = h @ ?b\<rparr>"
    using assms(4) writeObjs_ok [OF assms(3), of "newPackWriter (length os)" zlib] by auto
  let ?p = "h @ ?b @ sha (h @ ?b)"
  have buf: "pw_buf (pw_Close sha pw) = ?p" by (simp add: pw(2) pw_Close_def)
  have "take (length ?p - length (sha (h @ ?b))) ?p = h @ ?b" by simp
  moreover have "take 4 ?p = ''PACK''" "take 4 (drop 4 ?p) = ?v" "take 4 (drop 8 ?p) = ?n" "drop 12 ?p = ?b @ sha (h @ ?b)"
    using h by simp_all
  moreover have "unat (word_of_nat (length os) :: u32) = length os"
    using assms(2) by (simp add: unsigned_of_nat take_bit_nat_eq_self)
  moreover have "\<not> length ?p < 12" using h(1) by simp
  ultimately have "parse_pack sha inflate ?p = Some (map (\<lambda>ob. (o_typ ob, o_content ob)) os)"
    using parse_objects_bytes [OF assms(1,3), of "sha (h @ ?b)"]
    unfolding parse_pack_def by (simp del: length_append take_append drop_append)
  then show ?thesis using pw buf by simp
qed

text \<open>
  C26. A pack is read back by git's format as the objects written to it, in order, for every list of
  trees and blobs (fewer than \<open>2 ^ 32\<close>) of any size: the header counts them, each entry has its type
  and size, each zlib stream its contents, and the trailer is the hash of all that precedes it.
\<close>
theorem pack_roundtrip:
  assumes "\<And>c r. inflate (zlib c @ r) = Some (c, r)" "length os < 2 ^ 32"
    and "list_all (\<lambda>ob. o_typ ob = ''tree'' \<or> o_typ ob = ''blob'') os"
  shows "\<exists>pw. writeObjs zlib os (newPackWriter (length os)) = (Ok (), pw) \<and>
    parse_pack sha inflate (pw_buf (pw_Close sha pw)) = Some (map (\<lambda>ob. (o_typ ob, o_content ob)) os)"
proof -
  obtain r pw where w: "writeObjs zlib os (newPackWriter (length os)) = (r, pw)" by (cases "writeObjs zlib os (newPackWriter (length os))")
  then show ?thesis using parse_pack_objs [where inflate = inflate and sha = sha, OF _ assms(2,3) w] assms(1) by auto
qed

text \<open>A stand-in for zlib: an escaped copy with an end mark.\<close>

fun toy_zlib :: "string \<Rightarrow> string" where
  "toy_zlib [] = ''.''"
| "toy_zlib (c # s) = CHR ''+'' # c # toy_zlib s"

fun toy_inflate :: "string \<Rightarrow> (string \<times> string) option" where
  "toy_inflate [] = None"
| "toy_inflate [c] = (if c = dot then Some ([], []) else None)"
| "toy_inflate (a # b # s) =
     (if a = dot then Some ([], b # s) else map_option (\<lambda>(c, r). (b # c, r)) (toy_inflate s))"

lemma toy_inflate_zlib: "toy_inflate (toy_zlib c @ r) = Some (c, r)"
  by (induction c) (cases r; simp)+

theorem pack_roundtrip_witness:
  "\<exists>pw. writeObjs toy_zlib [\<lparr>o_typ = ''blob'', o_content = ''hi'', o_hash = zeroRef\<rparr>] (newPackWriter (length [\<lparr>o_typ = ''blob'', o_content = ''hi'', o_hash = zeroRef\<rparr>])) = (Ok (), pw) \<and>
    parse_pack toy_sha toy_inflate (pw_buf (pw_Close toy_sha pw)) =
      Some (map (\<lambda>ob. (o_typ ob, o_content ob)) [\<lparr>o_typ = ''blob'', o_content = ''hi'', o_hash = zeroRef\<rparr>])"
  by (rule pack_roundtrip [OF toy_inflate_zlib]) simp_all

section \<open>Sending objects\<close>

text \<open>
  The git commands the store runs, over the repository's state: \<^verbatim>\<open>cat-file --batch-check\<close> (an error of
  starting it, or its output and whether it failed), \<^verbatim>\<open>index-pack\<close>, \<^verbatim>\<open>update-ref\<close>, \<^verbatim>\<open>hash-object -w\<close>,
  \<^verbatim>\<open>ls-tree -t -r\<close> of a tree-ish, \<^verbatim>\<open>for-each-ref\<close>, and the object at a revision, as the batch helper
  answers it.
\<close>

record 'g git_cmds =
  g_batch_check :: "'g \<Rightarrow> string \<Rightarrow> err + string \<times> err option"
  g_index_pack :: "'g \<Rightarrow> string \<Rightarrow> err option \<times> 'g"
  g_update_ref :: "'g \<Rightarrow> string \<Rightarrow> string \<Rightarrow> err option \<times> 'g"
  g_hash_object :: "'g \<Rightarrow> string \<Rightarrow> (err + string) \<times> 'g"
  g_ls_tree :: "'g \<Rightarrow> string \<Rightarrow> err + string"
  g_for_each_ref :: "'g \<Rightarrow> err + string"
  g_cat_file :: "'g \<Rightarrow> string \<Rightarrow> obj_response"

text \<open>
  \<^verbatim>\<open>bufio.Scanner\<close>: lines without their end (LF or CRLF), the last one also when unterminated; a line
  that fills the 64 KB buffer stops the scan with an error.
\<close>

definition drop_cr :: "string \<Rightarrow> string" where
  "drop_cr l = (if l \<noteq> [] \<and> last l = CHR 0x0D then butlast l else l)"

definition maxTokenSize :: nat where
  "maxTokenSize = 65536"

definition scan_lines :: "string \<Rightarrow> string list \<times> bool" where
  "scan_lines out =
     (let ls = split_on NL out;
          ls = (if last ls = [] then butlast ls else ls);
          ok = takeWhile (\<lambda>l. length l < maxTokenSize) ls
      in (map drop_cr ok, length ok < length ls))"

fun missing_loop :: "string list \<Rightarrow> string list \<Rightarrow> string list res" where
  "missing_loop [] acc = Ok acc"
| "missing_loop (line # ls) acc =
     (let (h, ok) = cutSuffix line '' missing'' in
      if \<not> ok then missing_loop ls acc
      else case hex_objRef h of
        Ref_Err \<Rightarrow> Fail (ErrMsg ''error decoding hash in cat-file batch output'')
      | Ref_Panic \<Rightarrow> Panic
      | Ref ref \<Rightarrow> missing_loop ls (acc @ [ref]))"

record sendToGitStats =
  st_Trees :: nat
  st_TreeBytes :: nat
  st_Blobs :: nat
  st_BlobBytes :: nat

definition zero_stats :: sendToGitStats where
  "zero_stats = \<lparr>st_Trees = 0, st_TreeBytes = 0, st_Blobs = 0, st_BlobBytes = 0\<rparr>"

fun send_loop :: "(string \<Rightarrow> string) \<Rightarrow> (string \<times> gobject) list \<Rightarrow> string list \<Rightarrow> sendToGitStats \<Rightarrow> packWriter \<Rightarrow> sendToGitStats res \<times> packWriter" where
  "send_loop zlib hs [] st pw = (Ok st, pw)"
| "send_loop zlib hs (hash # rest) st pw =
     (case map_of hs hash of
        None \<Rightarrow> (Fail (ErrMsg ''missing hash not found in treeBuilder''), pw)
      | Some obj \<Rightarrow>
          if o_typ obj = ''blob'' then
            rbind (writePackObject zlib obj pw)
              (\<lambda>_. send_loop zlib hs rest (st\<lparr>st_Blobs := Suc (st_Blobs st), st_BlobBytes := st_BlobBytes st + length (o_content obj)\<rparr>))
          else if o_typ obj = ''tree'' then
            rbind (writePackObject zlib obj pw)
              (\<lambda>_. send_loop zlib hs rest (st\<lparr>st_Trees := Suc (st_Trees st), st_TreeBytes := st_TreeBytes st + length (o_content obj)\<rparr>))
          else (Fail (ErrMsg ''unknown object type''), pw))"

definition chk_input :: "string list \<Rightarrow> string" where
  "chk_input hs = concat (map (\<lambda>h. hex_encode h @ [NL]) hs)"

definition find_missing :: "'g git_cmds \<Rightarrow> 'g \<Rightarrow> string list \<Rightarrow> string list res" where
  "find_missing G g hs =
     (case g_batch_check G g (chk_input hs) of
        Inl e \<Rightarrow> Fail (Wrap ''failed to start git cat-file'' [e])
      | Inr (out, werr) \<Rightarrow>
          let (ls, tooLong) = scan_lines out in
          case missing_loop ls [] of
            Ok missing \<Rightarrow>
              if tooLong then Fail (ErrMsg ''failed to read git cat-file output'')
              else (case werr of Some e \<Rightarrow> Fail (Wrap ''git cat-file command failed'' [e]) | None \<Rightarrow> Ok missing)
          | Fail e \<Rightarrow> Fail e
          | Panic \<Rightarrow> Panic)"

definition sendToGit :: "(string \<Rightarrow> string) \<Rightarrow> (string \<Rightarrow> string) \<Rightarrow> 'g git_cmds \<Rightarrow> treeBuilder \<Rightarrow> 'g \<Rightarrow> sendToGitStats res \<times> 'g" where
  "sendToGit sha zlib G tb g =
     (case find_missing G g (hashes tb) of
        Panic \<Rightarrow> (Panic, g)
      | Fail e \<Rightarrow> (Fail e, g)
      | Ok missing \<Rightarrow>
          if missing = [] then (Ok zero_stats, g)
          else case send_loop zlib (hashSet tb) missing zero_stats (newPackWriter (length missing)) of
            (Ok st, pw) \<Rightarrow>
              (case g_index_pack G g (pw_buf (pw_Close sha pw)) of
                 (None, g1) \<Rightarrow> (Ok st, g1)
               | (Some e, g1) \<Rightarrow> (Fail (Wrap ''failed to run git index-pack'' [e]), g1))
          | (Fail e, pw) \<Rightarrow> (Fail e, g)
          | (Panic, pw) \<Rightarrow> (Panic, g))"

text \<open>What \<^verbatim>\<open>cat-file --batch-check\<close> prints for a list of object names; \<open>has\<close> are the objects there.\<close>

definition batch_line :: "(string \<Rightarrow> (string \<times> string) option) \<Rightarrow> string \<Rightarrow> string" where
  "batch_line has h =
     (case has h of None \<Rightarrow> hex_encode h @ '' missing''
      | Some (ty, c) \<Rightarrow> hex_encode h @ '' '' @ ty @ '' '' @ dec (length c))"

definition batch_answer :: "(string \<Rightarrow> (string \<times> string) option) \<Rightarrow> string list \<Rightarrow> string" where
  "batch_answer has hs = concat (map (\<lambda>h. batch_line has h @ [NL]) hs)"

lemma dec_length: "n < 10 ^ Suc k \<Longrightarrow> length (dec n) \<le> Suc k"
proof (induction k arbitrary: n)
  case 0
  then show ?case by (subst dec.simps) simp
next
  case (Suc k)
  then have "n div 10 < 10 ^ Suc k" by (simp add: less_mult_imp_div_less)
  then have "length (dec (n div 10)) \<le> Suc k" by (rule Suc.IH)
  then show ?case by (subst dec.simps) simp
qed

lemma split_lines: "(\<And>x. x \<in> set xs \<Longrightarrow> NL \<notin> set (f x)) \<Longrightarrow> split_on NL (concat (map (\<lambda>x. f x @ [NL]) xs)) = map f xs @ [[]]"
  by (induction xs) (simp_all add: split_on_append)

lemma scan_lines_map:
  assumes "\<And>x. x \<in> set xs \<Longrightarrow> NL \<notin> set (f x) \<and> drop_cr (f x) = f x \<and> length (f x) < maxTokenSize"
  shows "scan_lines (concat (map (\<lambda>x. f x @ [NL]) xs)) = (map f xs, False)"
proof -
  define ls where "ls = map f xs"
  have "split_on NL (concat (map (\<lambda>x. f x @ [NL]) xs)) = ls @ [[]]" unfolding ls_def using assms by (intro split_lines) blast
  moreover have "takeWhile (\<lambda>l. length l < maxTokenSize) ls = ls" using assms by (auto simp: takeWhile_eq_all_conv ls_def)
  moreover have "map drop_cr ls = ls" using assms by (simp add: ls_def)
  ultimately have "scan_lines (concat (map (\<lambda>x. f x @ [NL]) xs)) = (ls, False)"
    unfolding scan_lines_def Let_def by (simp del: takeWhile_eq_all_conv)
  then show ?thesis by (simp add: ls_def)
qed

text \<open>The objects of a repository that the store can have written.\<close>

definition plain_objs :: "(string \<Rightarrow> (string \<times> string) option) \<Rightarrow> bool" where
  "plain_objs has \<longleftrightarrow> (\<forall>h ty c. has h = Some (ty, c) \<longrightarrow> (ty = ''tree'' \<or> ty = ''blob'') \<and> length c < 10 ^ 19)"

lemma dec_last: "digit (last (dec n)) \<noteq> None"
  using dec_digits last_in_set [OF dec_nonempty] by blast

lemma batch_line_ok:
  assumes "plain_objs has" "length h = 20"
  shows "NL \<notin> set (batch_line has h) \<and> drop_cr (batch_line has h) = batch_line has h \<and> length (batch_line has h) < maxTokenSize"
proof (cases "has h")
  case None
  then show ?thesis using assms(2) no_space_no_nl [OF hex_no_space, of h]
    by (simp add: batch_line_def drop_cr_def maxTokenSize_def)
next
  case (Some tc)
  obtain ty c where tc: "tc = (ty, c)" by (cases tc)
  have ty: "ty = ''tree'' \<or> ty = ''blob''" and c: "length c < 10 ^ Suc 18"
    using assms(1) Some tc by (auto simp: plain_objs_def)
  have "last (dec (length c)) \<noteq> CHR 0x0D" using dec_last [of "length c"] by (auto simp: digit_def Let_def split: if_splits)
  then show ?thesis
    using ty dec_length [OF c] Some tc assms(2) no_space_no_nl [OF hex_no_space, of h] no_space_no_nl [OF dec_no_space, of "length c"] dec_nonempty
    by (auto simp: batch_line_def drop_cr_def maxTokenSize_def)
qed

lemma missing_loop_answer:
  assumes "plain_objs has"
  shows "list_all (\<lambda>h. length h = 20) hs \<Longrightarrow>
    missing_loop (map (batch_line has) hs) acc = Ok (acc @ filter (\<lambda>h. has h = None) hs)"
proof (induction hs arbitrary: acc)
  case (Cons h hs)
  show ?case
  proof (cases "has h")
    case None
    then show ?thesis using Cons by (simp add: batch_line_def cutSuffix_append)
  next
    case (Some tc)
    obtain ty c where tc: "tc = (ty, c)" by (cases tc)
    have "\<not> suffix '' missing'' (batch_line has h)"
    proof
      assume "suffix '' missing'' (batch_line has h)"
      then have "last (batch_line has h) = CHR ''g''" by (auto simp: suffix_def)
      then have "last (dec (length c)) = CHR ''g''" using Some tc dec_nonempty by (simp add: batch_line_def)
      then show False using dec_last [of "length c"] by (simp add: digit_def)
    qed
    then show ?thesis using Cons Some by (simp add: cutSuffix_def)
  qed
qed simp

lemma find_missing_ok:
  assumes "plain_objs has" "list_all (\<lambda>h. length h = 20) hs"
    "g_batch_check G g (chk_input hs) = Inr (batch_answer has hs, None)"
  shows "find_missing G g hs = Ok (filter (\<lambda>h. has h = None) hs)"
proof -
  have "scan_lines (batch_answer has hs) = (map (batch_line has) hs, False)"
    unfolding batch_answer_def using batch_line_ok [OF assms(1)] assms(2) by (intro scan_lines_map) (auto simp: list_all_iff)
  then show ?thesis using missing_loop_answer [OF assms(1,2), of "[]"] assms(3) by (simp add: find_missing_def)
qed

lemma send_loop_objs:
  assumes "list_all (\<lambda>h. case map_of hs h of Some ob \<Rightarrow> o_typ ob = ''tree'' \<or> o_typ ob = ''blob'' | None \<Rightarrow> False) ms"
    "\<not> pw_closed pw"
  shows "\<exists>st'. send_loop zlib hs ms st pw = (Ok st', snd (writeObjs zlib (map (\<lambda>h. the (map_of hs h)) ms) pw)) \<and>
     st_Trees st' + st_Blobs st' = st_Trees st + st_Blobs st + length ms \<and>
     st_TreeBytes st' + st_BlobBytes st' = st_TreeBytes st + st_BlobBytes st + sum_list (map (\<lambda>h. length (o_content (the (map_of hs h)))) ms)"
  using assms
proof (induction ms arbitrary: st pw)
  case (Cons h ms)
  then obtain ob where ob: "map_of hs h = Some ob" "o_typ ob = ''tree'' \<or> o_typ ob = ''blob''" by (auto split: option.splits)
  let ?pw = "pw\<lparr>pw_buf := pw_buf pw @ obj_bytes zlib ob, pw_s1 := pw_s1 pw @ obj_bytes zlib ob\<rparr>"
  have w: "writePackObject zlib ob pw = (Ok (), ?pw)"
    using ob(2) Cons.prems(2) by (auto simp: writePackObject_def pw_Write_def obj_bytes_def pack_typ_def)
  let ?st = "if o_typ ob = ''blob'' then st\<lparr>st_Blobs := Suc (st_Blobs st), st_BlobBytes := st_BlobBytes st + length (o_content ob)\<rparr>
     else st\<lparr>st_Trees := Suc (st_Trees st), st_TreeBytes := st_TreeBytes st + length (o_content ob)\<rparr>"
  have ms: "list_all (\<lambda>h. case map_of hs h of Some ob \<Rightarrow> o_typ ob = ''tree'' \<or> o_typ ob = ''blob'' | None \<Rightarrow> False) ms"
    "\<not> pw_closed ?pw" using Cons.prems by simp_all
  have "send_loop zlib hs (h # ms) st pw = send_loop zlib hs ms ?st ?pw" using ob w by auto
  moreover obtain st' where "send_loop zlib hs ms ?st ?pw = (Ok st', snd (writeObjs zlib (map (\<lambda>h. the (map_of hs h)) ms) ?pw))"
    "st_Trees st' + st_Blobs st' = st_Trees ?st + st_Blobs ?st + length ms"
    "st_TreeBytes st' + st_BlobBytes st' = st_TreeBytes ?st + st_BlobBytes ?st + sum_list (map (\<lambda>h. length (o_content (the (map_of hs h)))) ms)"
    using Cons.IH [OF ms, of ?st] by blast
  ultimately show ?case using ob w by (auto split: if_splits)
qed simp

definition sendable :: "treeBuilder \<Rightarrow> bool" where
  "sendable tb \<longleftrightarrow> length (hashes tb) < 2 ^ 32 \<and>
     list_all (\<lambda>h. length h = 20 \<and> (case map_of (hashSet tb) h of Some ob \<Rightarrow> o_typ ob = ''tree'' \<or> o_typ ob = ''blob'' | None \<Rightarrow> False)) (hashes tb)"

lemma sendToGit_missing:
  assumes "\<And>c r. inflate (zlib c @ r) = Some (c, r)" "plain_objs has" "sendable tb"
    and "g_batch_check G g (chk_input (hashes tb)) = Inr (batch_answer has (hashes tb), None)"
  shows "if filter (\<lambda>h. has h = None) (hashes tb) = [] then sendToGit sha zlib G tb g = (Ok zero_stats, g)
    else \<exists>p st. parse_pack sha inflate p =
           Some (map (\<lambda>h. let ob = the (map_of (hashSet tb) h) in (o_typ ob, o_content ob)) (filter (\<lambda>h. has h = None) (hashes tb))) \<and>
         st_Trees st + st_Blobs st = length (filter (\<lambda>h. has h = None) (hashes tb)) \<and>
         sendToGit sha zlib G tb g =
           (case g_index_pack G g p of (None, g1) \<Rightarrow> (Ok st, g1) | (Some e, g1) \<Rightarrow> (Fail (Wrap ''failed to run git index-pack'' [e]), g1))"
proof -
  let ?m = "filter (\<lambda>h. has h = None) (hashes tb)"
  have l20: "list_all (\<lambda>h. length h = 20) (hashes tb)" using assms(3) by (simp add: sendable_def list_all_iff)
  note fm = find_missing_ok [OF assms(2) l20 assms(4)]
  show ?thesis
  proof (cases "?m = []")
    case True
    then show ?thesis using fm by (simp add: sendToGit_def)
  next
    case False
    let ?os = "map (\<lambda>h. the (map_of (hashSet tb) h)) ?m"
    let ?pw0 = "newPackWriter (length ?m)"
    have ok: "list_all (\<lambda>h. case map_of (hashSet tb) h of Some ob \<Rightarrow> o_typ ob = ''tree'' \<or> o_typ ob = ''blob'' | None \<Rightarrow> False) ?m"
      using assms(3) by (simp add: sendable_def list_all_iff)
    then have tys: "list_all (\<lambda>ob. o_typ ob = ''tree'' \<or> o_typ ob = ''blob'') ?os"
      by (auto simp: list_all_iff split: option.splits)
    have len: "length ?os < 2 ^ 32" using assms(3) length_filter_le [of "\<lambda>h. has h = None" "hashes tb"]
      unfolding sendable_def length_map by (meson le_less_trans)
    have "\<not> pw_closed ?pw0" by (simp add: newPackWriter_def pw_Write_def)
    then obtain st where s: "send_loop zlib (hashSet tb) ?m zero_stats ?pw0 = (Ok st, snd (writeObjs zlib ?os ?pw0))"
      "st_Trees st + st_Blobs st = length ?m"
      using send_loop_objs [OF ok, of ?pw0 zlib zero_stats] by (auto simp: zero_stats_def)
    obtain r pw where w: "writeObjs zlib ?os (newPackWriter (length ?os)) = (r, pw)" by (cases "writeObjs zlib ?os (newPackWriter (length ?os))")
    have p: "parse_pack sha inflate (pw_buf (pw_Close sha pw)) = Some (map (\<lambda>ob. (o_typ ob, o_content ob)) ?os)"
      using parse_pack_objs [where inflate = inflate and sha = sha, OF _ len tys w] assms(1) by blast
    have "sendToGit sha zlib G tb g =
           (case g_index_pack G g (pw_buf (pw_Close sha pw)) of (None, g1) \<Rightarrow> (Ok st, g1) | (Some e, g1) \<Rightarrow> (Fail (Wrap ''failed to run git index-pack'' [e]), g1))"
      using fm False s(1) w by (simp add: sendToGit_def)
    moreover have "map (\<lambda>ob. (o_typ ob, o_content ob)) ?os = map (\<lambda>h. let ob = the (map_of (hashSet tb) h) in (o_typ ob, o_content ob)) ?m"
      by (simp add: Let_def)
    ultimately show ?thesis using False p s(2) by (metis (no_types, lifting))
  qed
qed

text \<open>
  C18. Exactly the objects git lacks are sent, each once, in the builder's order: when the answer of
  \<^verbatim>\<open>cat-file --batch-check\<close> is as documented, \<^verbatim>\<open>sendToGit\<close> runs \<^verbatim>\<open>index-pack\<close> on a pack that reads back as the
  missing objects (and counts them), passes its error on, and runs nothing when none is missing.
\<close>
theorem sendToGit_sends_missing:
  assumes "\<And>c r. inflate (zlib c @ r) = Some (c, r)" "plain_objs has" "sendable tb"
    and "g_batch_check G g (chk_input (hashes tb)) = Inr (batch_answer has (hashes tb), None)"
  shows "if filter (\<lambda>h. has h = None) (hashes tb) = [] then sendToGit sha zlib G tb g = (Ok zero_stats, g)
    else \<exists>p st. parse_pack sha inflate p =
           Some (map (\<lambda>h. let ob = the (map_of (hashSet tb) h) in (o_typ ob, o_content ob)) (filter (\<lambda>h. has h = None) (hashes tb))) \<and>
         st_Trees st + st_Blobs st = length (filter (\<lambda>h. has h = None) (hashes tb)) \<and>
         sendToGit sha zlib G tb g =
           (case g_index_pack G g p of (None, g1) \<Rightarrow> (Ok st, g1) | (Some e, g1) \<Rightarrow> (Fail (Wrap ''failed to run git index-pack'' [e]), g1))"
  by (rule sendToGit_missing [where inflate = inflate and zlib = zlib and has = has, OF assms])

text \<open>A builder with one object, and a repository that lacks it.\<close>

definition toy_tb :: treeBuilder where
  "toy_tb = (let h = mkObjRef toy_sha ''blob'' ''hi'' in \<lparr>tb_f = [], hashSet = [(h, \<lparr>o_typ = ''blob'', o_content = ''hi'', o_hash = h\<rparr>)], hashes = [h]\<rparr>)"

definition toy_cmds :: "string list git_cmds" where
  "toy_cmds = \<lparr>g_batch_check = (\<lambda>g inp. Inr (batch_answer (\<lambda>_. None) (hashes toy_tb), None)),
     g_index_pack = (\<lambda>g p. (None, p # g)), g_update_ref = (\<lambda>g r h. (None, g)), g_hash_object = (\<lambda>g c. (Inr [], g)),
     g_ls_tree = (\<lambda>g r. Inr []), g_for_each_ref = (\<lambda>g. Inr []), g_cat_file = (\<lambda>g r. Resp_Missing)\<rparr>"

theorem sendToGit_sends_missing_witness:
  "\<exists>p st. parse_pack toy_sha toy_inflate p = Some [(''blob'', ''hi'')] \<and> st_Trees st + st_Blobs st = 1 \<and>
     sendToGit toy_sha toy_zlib toy_cmds toy_tb [] =
       (case g_index_pack toy_cmds [] p of (None, g1) \<Rightarrow> (Ok st, g1) | (Some e, g1) \<Rightarrow> (Fail (Wrap ''failed to run git index-pack'' [e]), g1))"
proof -
  have "sendable toy_tb" by (simp add: sendable_def toy_tb_def Let_def mkObjRef_def toy_sha_length)
  moreover have "g_batch_check toy_cmds [] (chk_input (hashes toy_tb)) = Inr (batch_answer (\<lambda>_. None) (hashes toy_tb), None)"
    by (simp add: toy_cmds_def)
  ultimately show ?thesis
    using sendToGit_sends_missing [where has = "\<lambda>_. None" and sha = toy_sha, OF toy_inflate_zlib, of toy_tb toy_cmds "[]"]
    by (simp add: plain_objs_def toy_tb_def Let_def)
qed

end
