(* ===== verification/Git_Store.thy ===== *)
theory Git_Store
  imports Git_Pack
begin

text \<open>
  The store on a git repository, \<^verbatim>\<open>store/gitstore/gitstore.go\<close>: reference names, module handles made from
  \<^verbatim>\<open>git ls-tree\<close>, and the operations of the \<^verbatim>\<open>Store\<close> interface over the commands of git.
\<close>

section \<open>Reference names\<close>

definition refName :: "xmod \<Rightarrow> mod_version \<Rightarrow> err + string" where
  "refName X h =
     (case EscapePath X (Module h) of
        None \<Rightarrow> Inl (ErrMsg ''failed to escape module name'')
      | Some escModuleName \<Rightarrow>
          (case EscapeVersion X (Version h) of
             None \<Rightarrow> Inl (ErrMsg ''failed to escape version'')
           | Some escVersion \<Rightarrow> Inr (''refs/gomod/'' @ url_PathEscape escModuleName @ ''@'' @ url_PathEscape escVersion)))"

definition modRefName :: "xmod \<Rightarrow> mod_version \<Rightarrow> err + string" where
  "modRefName X h = (case refName X h of Inl e \<Rightarrow> Inl e | Inr base \<Rightarrow> Inr (base @ ''(mod)''))"

definition infoRefName :: "xmod \<Rightarrow> mod_version \<Rightarrow> err + string" where
  "infoRefName X h = (case refName X h of Inl e \<Rightarrow> Inl e | Inr base \<Rightarrow> Inr (base @ ''(info)''))"

section \<open>Objects by revision\<close>

definition errMissing :: err where
  "errMissing = ErrMsg ''gitstore: missing object''"

definition anyType :: string where
  "anyType = ''_anytype_''"

definition getObject :: "'g git_cmds \<Rightarrow> 'g \<Rightarrow> string \<Rightarrow> string \<Rightarrow> err + gobject" where
  "getObject G g rv wantType =
     (case g_cat_file G g rv of
        Resp_Missing \<Rightarrow> Inl errMissing
      | Resp_Err \<Rightarrow> Inl (ErrMsg ''cat-file batch error'')
      | Resp_Obj t c h \<Rightarrow>
          if wantType \<noteq> anyType \<and> t \<noteq> wantType then Inl (ErrMsg ''expected another type'')
          else Inr \<lparr>o_typ = t, o_content = c, o_hash = h\<rparr>
      | Resp_Empty \<Rightarrow>
          if wantType \<noteq> anyType \<and> [] \<noteq> wantType then Inl (ErrMsg ''expected another type'')
          else Inr \<lparr>o_typ = [], o_content = [], o_hash = zeroRef\<rparr>)"

section \<open>Module handles\<close>

record blobMeta =
  m_Blob :: string
  m_Size :: int
  m_Mode :: fmode

record modHandle =
  modTree :: string
  mh_blobMeta :: "(string \<times> blobMeta) list"
  mh_dirEnts :: "(string \<times> dirent list) list"

definition modeSymlink :: nat where "modeSymlink = 2 ^ 27"
definition modeIrregular :: nat where "modeIrregular = 2 ^ 19"

definition fileModeFromGitOctalBytes :: "string \<Rightarrow> fmode" where
  "fileModeFromGitOctalBytes octal =
     (if octal = ''040000'' then \<lparr>is_dir = True, perm = 493\<rparr>
      else if octal = ''100644'' then \<lparr>is_dir = False, perm = 420\<rparr>
      else if octal = ''100755'' then \<lparr>is_dir = False, perm = 493\<rparr>
      else if octal = ''120000'' then \<lparr>is_dir = False, perm = 493 + modeSymlink\<rparr>
      else if octal = ''160000'' then \<lparr>is_dir = False, perm = 493 + modeIrregular\<rparr>
      else \<lparr>is_dir = False, perm = 0\<rparr>)"

text \<open>
  \<^verbatim>\<open>strconv.Unquote\<close> on a double-quoted string: single-character, octal, hexadecimal and Unicode
  escapes; unescaped bytes of 128 and above are copied, as they are when they are valid UTF-8 (git
  escapes them).
\<close>

definition utf8_encode :: "nat \<Rightarrow> string option" where
  "utf8_encode v =
     (if v < 0x80 then Some [char_of v]
      else if v < 0x800 then Some [char_of (0xC0 + v div 64), char_of (0x80 + v mod 64)]
      else if 0xD800 \<le> v \<and> v \<le> 0xDFFF then None
      else if v < 0x10000 then Some [char_of (0xE0 + v div 4096), char_of (0x80 + v div 64 mod 64), char_of (0x80 + v mod 64)]
      else if v \<le> 0x10FFFF then
        Some [char_of (0xF0 + v div 262144), char_of (0x80 + v div 4096 mod 64), char_of (0x80 + v div 64 mod 64), char_of (0x80 + v mod 64)]
      else None)"

fun hex_val :: "nat \<Rightarrow> string \<Rightarrow> nat option" where
  "hex_val acc [] = Some acc"
| "hex_val acc (c # s) = (case hex_digit c of None \<Rightarrow> None | Some d \<Rightarrow> hex_val (16 * acc + d) s)"

text \<open>An escape after the backslash: the bytes it stands for, and the number of characters read.\<close>

definition oct_digit :: "char \<Rightarrow> nat option" where
  "oct_digit c = (let n = (of_char c :: nat) in if 48 \<le> n \<and> n \<le> 55 then Some (n - 48) else None)"

definition simple_escape :: "char \<Rightarrow> char option" where
  "simple_escape c =
     map_of [(CHR ''a'', CHR 0x07), (CHR ''b'', CHR 0x08), (CHR ''f'', CHR 0x0C), (CHR ''n'', CHR 0x0A), (CHR ''r'', CHR 0x0D),
       (CHR ''t'', CHR 0x09), (CHR ''v'', CHR 0x0B), (CHR 0x5C, CHR 0x5C), (CHR 0x22, CHR 0x22)] c"

definition unquote_escape :: "string \<Rightarrow> (string \<times> nat) option" where
  "unquote_escape s =
     (case s of
        [] \<Rightarrow> None
      | e # r \<Rightarrow>
          (case simple_escape e of
             Some x \<Rightarrow> Some ([x], 1)
           | None \<Rightarrow>
               (if e = CHR ''x'' then
                  (if length r < 2 then None else map_option (\<lambda>v. ([char_of v], 3)) (hex_val 0 (take 2 r)))
                else if e = CHR ''u'' then
                  (if length r < 4 then None else Option.bind (hex_val 0 (take 4 r)) (\<lambda>v. map_option (\<lambda>b. (b, 5)) (utf8_encode v)))
                else if e = CHR ''U'' then
                  (if length r < 8 then None else Option.bind (hex_val 0 (take 8 r)) (\<lambda>v. map_option (\<lambda>b. (b, 9)) (utf8_encode v)))
                else
                  (case r of
                     e2 # e3 # _ \<Rightarrow>
                       (case (oct_digit e, oct_digit e2, oct_digit e3) of
                          (Some x, Some y, Some z) \<Rightarrow>
                            if 64 * x + 8 * y + z > 255 then None else Some ([char_of (64 * x + 8 * y + z)], 3)
                        | _ \<Rightarrow> None)
                   | _ \<Rightarrow> None))))"

function unquote_body :: "string \<Rightarrow> string option" where
  "unquote_body [] = None"
| "unquote_body (c # s) =
     (if c = CHR 0x22 then (if s = [] then Some [] else None)
      else if c = NL then None
      else if c = CHR 0x5C then
        (case unquote_escape s of
           None \<Rightarrow> None
         | Some (b, n) \<Rightarrow> map_option (\<lambda>t. b @ t) (unquote_body (drop n s)))
      else map_option (\<lambda>t. c # t) (unquote_body s))"
  by pat_completeness auto
termination
  by (relation "measure length") auto

definition unquote :: "string \<Rightarrow> string option" where
  "unquote s = (case s of c # b \<Rightarrow> if c = CHR 0x22 then unquote_body b else None | [] \<Rightarrow> None)"

text \<open>
  One line of \<^verbatim>\<open>ls-tree\<close>: the object's name, its mode, its size and its path.  \<open>ParseInt\<close> is that of the
  package \<^verbatim>\<open>go4.org/mem\<close>.
\<close>

definition ls_line :: "(string \<Rightarrow> int option) \<Rightarrow> string \<Rightarrow> (string \<times> fmode \<times> int \<times> string) res" where
  "ls_line ParseInt line =
     (let (hexRef, rest, ok) = cut line '' '' in
      if \<not> ok then Fail (ErrMsg ''unexpected git ls-tree output'')
      else case hex_objRef hexRef of
        Ref_Err \<Rightarrow> Fail (ErrMsg ''failed to decode hex in ls-tree line'')
      | Ref_Panic \<Rightarrow> Panic
      | Ref ref \<Rightarrow>
          (let (modeOct, rest, ok) = cut rest '' '' in
           if \<not> ok then Fail (ErrMsg ''unexpected git ls-tree output'')
           else
           let mode = fileModeFromGitOctalBytes modeOct;
               (sizeStr, rest, ok) = cut rest '' '' in
           if \<not> ok \<or> (is_dir mode \<and> sizeStr \<noteq> ''-'') then Fail (ErrMsg ''unexpected git ls-tree output'')
           else case (if is_dir mode then Some 0 else ParseInt sizeStr) of
             None \<Rightarrow> Fail (ErrMsg ''failed to parse size in ls-tree line'')
           | Some sz \<Rightarrow>
               (case (if prefix [CHR 0x22] rest then unquote rest else Some rest) of
                  None \<Rightarrow> Fail (ErrMsg ''failed to unquote git-escaped path'')
                | Some pathFromRoot \<Rightarrow> Ok (ref, mode, sz, pathFromRoot))))"

definition add_ent :: "string \<times> fmode \<times> int \<times> string \<Rightarrow> modHandle \<Rightarrow> modHandle" where
  "add_ent x mh =
     (case x of (ref, mode, sz, p) \<Rightarrow>
        let mh = (if \<not> is_dir mode then mh\<lparr>mh_blobMeta := map_put p \<lparr>m_Blob = ref, m_Size = sz, m_Mode = mode\<rparr> (mh_blobMeta mh)\<rparr> else mh);
            ent = \<lparr>d_name = path_Base p, d_mode = mode, d_size = sz\<rparr>;
            dir = path_Dir p;
            dir = (if dir = ''.'' then [] else dir);
            old = (case map_of (mh_dirEnts mh) dir of None \<Rightarrow> [] | Some es \<Rightarrow> es)
        in mh\<lparr>mh_dirEnts := map_put dir (old @ [ent]) (mh_dirEnts mh)\<rparr>)"

function ls_loop :: "(string \<Rightarrow> int option) \<Rightarrow> string \<Rightarrow> modHandle \<Rightarrow> modHandle res" where
  "ls_loop ParseInt remain mh =
     (if remain = [] then Ok mh
      else case cut_at [NL] remain of
        None \<Rightarrow> Fail (ErrMsg ''unexpected git ls-tree output'')
      | Some (line, rest) \<Rightarrow>
          (case ls_line ParseInt line of
             Fail e \<Rightarrow> Fail e
           | Panic \<Rightarrow> Panic
           | Ok x \<Rightarrow> ls_loop ParseInt rest (add_ent x mh)))"
  by pat_completeness auto
termination
  by (relation "measure (\<lambda>(_, r, _). length r)") (auto dest: cut_at_shorter)

declare ls_loop.simps [simp del]

definition newModHandle :: "(string \<Rightarrow> int option) \<Rightarrow> 'g git_cmds \<Rightarrow> 'g \<Rightarrow> string \<Rightarrow> modHandle res" where
  "newModHandle ParseInt G g tree =
     (case g_ls_tree G g (hex_encode tree @ '':zip'') of
        Inl e \<Rightarrow> Fail (Wrap ''failed to get zip root tree'' [e])
      | Inr out \<Rightarrow> ls_loop ParseInt out \<lparr>modTree = tree, mh_blobMeta = [], mh_dirEnts = []\<rparr>)"

section \<open>The operations of the store\<close>

definition git_GetFile :: "'g git_cmds \<Rightarrow> 'g \<Rightarrow> modHandle \<Rightarrow> string \<Rightarrow> err + bytes" where
  "git_GetFile G g mh path =
     (if map_of (mh_dirEnts mh) path \<noteq> None then Inl ErrIsDir
      else case getObject G g (hex_encode (modTree mh) @ '':zip/'' @ path) anyType of
        Inl e \<Rightarrow> if errors_Is e errMissing then Inl ErrNotExist else Inl e
      | Inr obj \<Rightarrow>
          if o_typ obj = ''tree'' then Inl ErrIsDir
          else if o_typ obj \<noteq> ''blob'' then Inl (ErrMsg ''expected a blob'')
          else Inr (to_bytes (o_content obj)))"

definition git_Stat :: "modHandle \<Rightarrow> string \<Rightarrow> err + file_info" where
  "git_Stat mh modPath =
     (if map_of (mh_dirEnts mh) modPath \<noteq> None
      then Inr \<lparr>fi_name = path_Base modPath, fi_size = 0, fi_mode = \<lparr>is_dir = True, perm = 493\<rparr>\<rparr>
      else case map_of (mh_blobMeta mh) modPath of
        Some meta \<Rightarrow> Inr \<lparr>fi_name = path_Base modPath, fi_size = m_Size meta, fi_mode = m_Mode meta\<rparr>
      | None \<Rightarrow> Inl ErrNotExist)"

definition git_GetInfoFile :: "xmod \<Rightarrow> 'g git_cmds \<Rightarrow> 'g \<Rightarrow> mod_version \<Rightarrow> err + bytes" where
  "git_GetInfoFile X G g mv =
     (case refName X mv of
        Inl e \<Rightarrow> Inl e
      | Inr ref \<Rightarrow>
          (case getObject G g (ref @ '':info'') ''blob'' of
             Inr obj \<Rightarrow> Inr (to_bytes (o_content obj))
           | Inl _ \<Rightarrow>
               (case infoRefName X mv of
                  Inl e \<Rightarrow> Inl e
                | Inr ref \<Rightarrow>
                    (case getObject G g ref ''blob'' of
                       Inr obj \<Rightarrow> Inr (to_bytes (o_content obj))
                     | Inl e \<Rightarrow> if errors_Is e errMissing then Inl ErrCacheMiss else Inl e))))"

definition git_GetModFile :: "xmod \<Rightarrow> 'g git_cmds \<Rightarrow> 'g \<Rightarrow> mod_version \<Rightarrow> err + bytes" where
  "git_GetModFile X G g mv =
     (case modRefName X mv of
        Inl e \<Rightarrow> Inl e
      | Inr ref \<Rightarrow>
          (case getObject G g ref ''blob'' of
             Inr obj \<Rightarrow> Inr (to_bytes (o_content obj))
           | Inl e \<Rightarrow> if errors_Is e errMissing then Inl ErrCacheMiss else Inl e))"

definition put_blob_ref :: "'g git_cmds \<Rightarrow> 'g \<Rightarrow> string \<Rightarrow> bytes \<Rightarrow> err option \<times> 'g" where
  "put_blob_ref G g ref data =
     (case g_hash_object G g (str_of_bytes data) of
        (Inl e, g1) \<Rightarrow> (Some (Wrap ''failed to hash object'' [e]), g1)
      | (Inr out, g1) \<Rightarrow>
          (case g_update_ref G g1 ref (trimSpace out) of
             (Some e, g2) \<Rightarrow> (Some (Wrap ''failed to update blob ref'' [e]), g2)
           | (None, g2) \<Rightarrow> (None, g2)))"

definition git_PutModFile :: "xmod \<Rightarrow> 'g git_cmds \<Rightarrow> 'g \<Rightarrow> mod_version \<Rightarrow> bytes \<Rightarrow> err option \<times> 'g" where
  "git_PutModFile X G g mv data =
     (case modRefName X mv of Inl e \<Rightarrow> (Some e, g) | Inr ref \<Rightarrow> put_blob_ref G g ref data)"

definition git_PutInfoFile :: "xmod \<Rightarrow> 'g git_cmds \<Rightarrow> 'g \<Rightarrow> mod_version \<Rightarrow> bytes \<Rightarrow> err option \<times> 'g" where
  "git_PutInfoFile X G g mv data =
     (case infoRefName X mv of Inl e \<Rightarrow> (Some e, g) | Inr ref \<Rightarrow> put_blob_ref G g ref data)"

definition git_GetZipRoot :: "xmod \<Rightarrow> (string \<Rightarrow> int option) \<Rightarrow> 'g git_cmds \<Rightarrow> 'g \<Rightarrow> mod_version \<Rightarrow> modHandle res" where
  "git_GetZipRoot X ParseInt G g mv =
     (case refName X mv of
        Inl e \<Rightarrow> Fail e
      | Inr ref \<Rightarrow>
          (case getObject G g (ref @ ''^{tree}'') ''tree'' of
             Inl e \<Rightarrow> if errors_Is e errMissing then Fail ErrCacheMiss else Fail (Wrap ''failed to get zip root tree'' [e])
           | Inr obj \<Rightarrow> newModHandle ParseInt G g (o_hash obj)))"

definition git_GetZipHash :: "'g git_cmds \<Rightarrow> 'g \<Rightarrow> modHandle \<Rightarrow> err + bytes" where
  "git_GetZipHash G g mh =
     (case getObject G g (hex_encode (modTree mh) @ '':ziphash'') ''blob'' of
        Inl e \<Rightarrow> Inl e
      | Inr obj \<Rightarrow> Inr (to_bytes (o_content obj)))"

definition git_Readdir :: "modHandle \<Rightarrow> string \<Rightarrow> err + dirent list" where
  "git_Readdir mh path = Inr (case map_of (mh_dirEnts mh) path of None \<Rightarrow> [] | Some es \<Rightarrow> es)"

text \<open>The environment of \<^verbatim>\<open>PutModule\<close>: SHA-1, zlib, and the orders in which maps are ranged over.\<close>

record put_env =
  pe_sha :: "string \<Rightarrow> string"
  pe_zlib :: "string \<Rightarrow> string"
  pe_parts :: "(string \<times> bytes option) list \<Rightarrow> (string \<times> bytes option) list"
  pe_files :: "string \<Rightarrow> (string \<times> fileInfo) list \<Rightarrow> (string \<times> fileInfo) list"

definition part_files :: "(string \<times> bytes option) list \<Rightarrow> (string \<times> (err + string) \<times> fmode) list" where
  "part_files parts = [(ext, Inr (str_of_bytes b), \<lparr>is_dir = False, perm = 420\<rparr>). (ext, Some b) \<leftarrow> parts]"

definition zip_files :: "put_file list \<Rightarrow> (string \<times> (err + string) \<times> fmode) list" where
  "zip_files fs = map (\<lambda>f. (''zip/'' @ pf_path f, Inr (str_of_bytes (pf_content f)), pf_mode f)) fs"

definition git_PutModule ::
  "xmod \<Rightarrow> (string \<Rightarrow> int option) \<Rightarrow> put_env \<Rightarrow> 'g git_cmds \<Rightarrow> 'g \<Rightarrow> mod_version \<Rightarrow> put_data \<Rightarrow> modHandle res \<times> 'g" where
  "git_PutModule X ParseInt P G g mv data =
     (case refName X mv of
        Inl e \<Rightarrow> (Fail e, g)
      | Inr ref \<Rightarrow>
          let parts = pe_parts P [(''ziphash'', ZipHash data), (''info'', InfoFile data), (''mod'', ModFile data)];
              adds = part_files parts @ zip_files (Files data)
          in case addFiles (pe_sha P) adds newTreeBuilder of
            (Fail e, tb) \<Rightarrow> (Fail (Wrap ''failed to add file'' [e]), g)
          | (Panic, tb) \<Rightarrow> (Panic, g)
          | (Ok _, tb) \<Rightarrow>
              (case buildTree (pe_sha P) (pe_files P) (tree_fuel (tb_f tb)) [] tb of
                 None \<Rightarrow> (Panic, g)
               | Some (Panic, tb1) \<Rightarrow> (Panic, g)
               | Some (Fail e, tb1) \<Rightarrow> (Fail (Wrap ''failed to build git tree'' [e]), g)
               | Some (Ok treeHash, tb1) \<Rightarrow>
                   (case sendToGit (pe_sha P) (pe_zlib P) G tb1 g of
                      (Panic, g1) \<Rightarrow> (Panic, g1)
                    | (_, g1) \<Rightarrow>
                        (case g_update_ref G g1 ref (hex_encode treeHash) of
                           (Some e, g2) \<Rightarrow> (Fail (Wrap ''failed to update tree ref'' [e]), g2)
                         | (None, g2) \<Rightarrow> (newModHandle ParseInt G g2 treeHash, g2)))))"

section \<open>Cached modules\<close>

definition cached_line :: "xmod \<Rightarrow> string \<Rightarrow> mod_version option" where
  "cached_line X line =
     (let line = takeWhile (\<lambda>c. c \<noteq> CHR ''('') line;
          (rest, ok) = cutPrefix line ''gomod/'' in
      if \<not> ok then None
      else
      let (modEsc2, verEsc2, ok) = cut rest ''@'' in
      if \<not> ok then None
      else case (url_PathUnescape modEsc2, url_PathUnescape verEsc2) of
        (Some modEsc, Some verEsc) \<Rightarrow>
          (case (UnescapePath X modEsc, UnescapeVersion X verEsc) of
             (Some m, Some v) \<Rightarrow> Some \<lparr>Module = m, Version = v\<rparr>
           | _ \<Rightarrow> None)
      | _ \<Rightarrow> None)"

fun cached_loop :: "xmod \<Rightarrow> string list \<Rightarrow> mod_version list \<Rightarrow> mod_version list" where
  "cached_loop X [] mods = mods"
| "cached_loop X (line # ls) mods =
     (case cached_line X line of
        None \<Rightarrow> cached_loop X ls mods
      | Some mv \<Rightarrow> if mv \<in> set mods then cached_loop X ls mods else cached_loop X ls (mods @ [mv]))"

definition git_CachedModules :: "xmod \<Rightarrow> 'g git_cmds \<Rightarrow> 'g \<Rightarrow> err + mod_version list" where
  "git_CachedModules X G g =
     (case g_for_each_ref G g of
        Inl e \<Rightarrow> Inl (Wrap ''failed to list git refs'' [e])
      | Inr out \<Rightarrow> Inr (cached_loop X (split_on NL out) []))"

section \<open>Reference names are read back\<close>

text \<open>How \<^verbatim>\<open>for-each-ref --format=%(refname:short)\<close> prints a reference below \<^verbatim>\<open>refs/\<close>.\<close>

definition short_ref :: "string \<Rightarrow> string" where
  "short_ref r = trimPrefix r ''refs/''"

lemma takeWhile_stop: "x \<notin> set b \<Longrightarrow> s = [] \<or> List.hd s = x \<Longrightarrow> takeWhile (\<lambda>c. c \<noteq> x) (b @ s) = b"
  by (induction b) (cases s; auto)+

lemma cached_line_ref:
  assumes "xmod_ok X" "refName X mv = Inr r" "s \<in> {[], ''(mod)'', ''(info)''}"
  shows "cached_line X (short_ref (r @ s)) = Some mv \<and> NL \<notin> set (short_ref (r @ s))"
proof -
  obtain em ev where e: "EscapePath X (Module mv) = Some em" "EscapeVersion X (Version mv) = Some ev"
    and r: "r = ''refs/gomod/'' @ url_PathEscape em @ ''@'' @ url_PathEscape ev"
    using assms(2) by (auto simp: refName_def split: option.splits)
  let ?b = "''gomod/'' @ url_PathEscape em @ at_sign # url_PathEscape ev"
  have sh: "short_ref (r @ s) = ?b @ s" by (simp add: short_ref_def r trimPrefix_def cutPrefix_def prefix_def)
  have "CHR ''('' \<notin> set ?b" by simp
  then have tw: "takeWhile (\<lambda>c. c \<noteq> CHR ''('') (?b @ s) = ?b"
    by (rule takeWhile_stop) (use assms(3) in auto)
  have "cutPrefix ?b ''gomod/'' = (url_PathEscape em @ at_sign # url_PathEscape ev, True)"
    by (simp add: cutPrefix_def prefix_def)
  moreover have "cut (url_PathEscape em @ at_sign # url_PathEscape ev) ''@'' = (url_PathEscape em, url_PathEscape ev, True)"
    using cut_char escape_free_at xmod_path [OF assms(1) e(1)] by blast
  moreover have "UnescapePath X em = Some (Module mv)" "UnescapeVersion X ev = Some (Version mv)"
    using xmod_path [OF assms(1) e(1)] xmod_version [OF assms(1) e(2)] by auto
  ultimately have "cached_line X (short_ref (r @ s)) = Some mv"
    unfolding cached_line_def sh tw Let_def by (simp add: url_roundtrip)
  moreover have "NL \<notin> set (short_ref (r @ s))" unfolding sh using assms(3) by auto
  ultimately show ?thesis by blast
qed

lemma cached_loop_spec:
  "distinct mods \<Longrightarrow> distinct (cached_loop X ls mods) \<and> set (cached_loop X ls mods) = set mods \<union> {mv. Some mv \<in> cached_line X ` set ls}"
proof (induction ls arbitrary: mods)
  case (Cons l ls)
  show ?case
  proof (cases "cached_line X l")
    case None
    then show ?thesis using Cons by auto
  next
    case (Some mv)
    then show ?thesis using Cons.IH [of mods] Cons.IH [of "mods @ [mv]"] Cons.prems by auto
  qed
qed auto

lemma cached_line_Nil: "cached_line X [] = None"
  by (simp add: cached_line_def cutPrefix_def)

text \<open>
  C20. The modules in the repository are listed exactly: whatever the references of module versions
  (trees, lone \<^verbatim>\<open>.mod\<close> and \<^verbatim>\<open>.info\<close> blobs, in any order and number), the listing decodes each back to its
  module version, loses none, adds none and names none twice.
\<close>
theorem cached_modules_exact:
  assumes "xmod_ok X"
    and "list_all (\<lambda>(mv, r, s). refName X mv = Inr r \<and> s \<in> {[], ''(mod)'', ''(info)''}) refs"
    and "g_for_each_ref G g = Inr (concat (map (\<lambda>(mv, r, s). short_ref (r @ s) @ [NL]) refs))"
  shows "\<exists>ms. git_CachedModules X G g = Inr ms \<and> distinct ms \<and> set ms = fst ` set refs"
proof -
  let ?f = "\<lambda>x. short_ref (fst (snd x) @ snd (snd x))"
  have l: "cached_line X (?f x) = Some (fst x) \<and> NL \<notin> set (?f x)" if "x \<in> set refs" for x
  proof -
    have "refName X (fst x) = Inr (fst (snd x)) \<and> snd (snd x) \<in> {[], ''(mod)'', ''(info)''}"
      using assms(2) that unfolding list_all_iff case_prod_beta' by blast
    then show ?thesis using cached_line_ref [OF assms(1)] by blast
  qed
  have "split_on NL (concat (map (\<lambda>x. ?f x @ [NL]) refs)) = map ?f refs @ [[]]"
    using l by (intro split_lines) blast
  then have "git_CachedModules X G g = Inr (cached_loop X (map ?f refs @ [[]]) [])"
    using assms(3) by (simp add: git_CachedModules_def case_prod_beta')
  moreover have "{mv. Some mv \<in> cached_line X ` set (map ?f refs @ [[]])} = fst ` set refs"
    using l by (force simp: cached_line_Nil image_iff)
  ultimately show ?thesis using cached_loop_spec [of "[]" X "map ?f refs @ [[]]"] by auto
qed

text \<open>Two references of one module.\<close>

definition toy_refs :: "(mod_version \<times> string \<times> string) list" where
  "toy_refs = [(\<lparr>Module = ''go4.org/mem'', Version = ''v1.2.3''\<rparr>, ''refs/gomod/go4.org%2Fmem@v1.2.3'', []),
     (\<lparr>Module = ''go4.org/mem'', Version = ''v1.2.3''\<rparr>, ''refs/gomod/go4.org%2Fmem@v1.2.3'', ''(mod)'')]"

theorem cached_modules_exact_witness:
  "\<exists>ms. git_CachedModules mem_xmod (toy_cmds\<lparr>g_for_each_ref := \<lambda>g. Inr (concat (map (\<lambda>(mv, r, s). short_ref (r @ s) @ [NL]) toy_refs))\<rparr>) [] = Inr ms \<and>
     distinct ms \<and> set ms = fst ` set toy_refs"
proof (rule cached_modules_exact [OF mem_xmod_ok])
  show "list_all (\<lambda>(mv, r, s). refName mem_xmod mv = Inr r \<and> s \<in> {[], ''(mod)'', ''(info)''}) toy_refs" by code_simp
qed simp

end
