(* ===== verification/Git_Listing.thy ===== *)
theory Git_Listing
  imports Git_Store
begin

text \<open>
  Module handles are what \<^verbatim>\<open>git ls-tree\<close> prints: its output format with C-style quoted paths, the lemma
  that quoting is undone, and the theorem that \<^verbatim>\<open>Stat\<close> and \<^verbatim>\<open>Readdir\<close> answer from a handle exactly as the
  listed tree says.
\<close>

section \<open>Quoting\<close>

definition quoted_char :: "char \<Rightarrow> bool" where
  "quoted_char c \<longleftrightarrow> (let n = (of_char c :: nat) in n < 32 \<or> 127 \<le> n \<or> c = CHR 0x22 \<or> c = CHR 0x5C)"

definition oct_char :: "nat \<Rightarrow> char" where
  "oct_char n = char_of (48 + n)"

definition quote_char :: "char \<Rightarrow> string" where
  "quote_char c =
     (if \<not> quoted_char c then [c]
      else CHR 0x5C #
        (case map_of [(CHR 0x07, CHR ''a''), (CHR 0x08, CHR ''b''), (CHR 0x0C, CHR ''f''), (CHR 0x0A, CHR ''n''), (CHR 0x0D, CHR ''r''),
            (CHR 0x09, CHR ''t''), (CHR 0x0B, CHR ''v''), (CHR 0x5C, CHR 0x5C), (CHR 0x22, CHR 0x22)] c of
           Some e \<Rightarrow> [e]
         | None \<Rightarrow> let n = (of_char c :: nat) in [oct_char (n div 64), oct_char (n div 8 mod 8), oct_char (n mod 8)]))"

definition git_quote :: "string \<Rightarrow> string" where
  "git_quote p = (if list_ex quoted_char p then CHR 0x22 # concat (map quote_char p) @ [CHR 0x22] else p)"

lemma oct_digit_char: "n < 8 \<Longrightarrow> oct_digit (oct_char n) = Some n"
  by (simp add: oct_digit_def oct_char_def Let_def)

lemma oct_not_simple: "n < 8 \<Longrightarrow> simple_escape (oct_char n) = None \<and> oct_char n \<noteq> CHR ''x'' \<and> oct_char n \<noteq> CHR ''u'' \<and> oct_char n \<noteq> CHR ''U''"
proof -
  assume "n < 8"
  then have "(of_char (oct_char n) :: nat) = 48 + n" by (simp add: oct_char_def)
  then have "oct_char n \<noteq> c" if "of_char c \<ge> (56 :: nat) \<or> of_char c < (48 :: nat)" for c using that \<open>n < 8\<close> by auto
  then show ?thesis by (simp add: simple_escape_def)
qed

lemma oct_value: "64 * (n div 64) + 8 * (n div 8 mod 8) + n mod 8 = (n :: nat)"
proof -
  have "n div 8 = 8 * (n div 64) + n div 8 mod 8"
    using div_mult2_eq [of n 8 8] mult_div_mod_eq [of 8 "n div 8"] by simp
  then have "8 * (n div 8) = 64 * (n div 64) + 8 * (n div 8 mod 8)" by simp
  then show ?thesis using mult_div_mod_eq [of 8 n] by linarith
qed

lemma octal_digits: "(of_char c :: nat) div 64 < 8" "(of_char c :: nat) div 8 mod 8 < 8" "(of_char c :: nat) mod 8 < 8"
  using nat_of_char_less_256 [of c] by linarith+

lemma append_single: "(@) [c] = (#) c"
  by (rule ext) simp

lemma unquote_quote_char: "unquote_body (quote_char c @ s) = map_option (\<lambda>t. c # t) (unquote_body s)"
proof (cases "quoted_char c")
  case False
  then have "c \<noteq> CHR 0x22" "c \<noteq> CHR 0x5C" "c \<noteq> NL" by (auto simp: quoted_char_def)
  then show ?thesis using False by (simp add: quote_char_def)
next
  case True
  let ?M = "[(CHR 0x07, CHR ''a''), (CHR 0x08, CHR ''b''), (CHR 0x0C, CHR ''f''), (CHR 0x0A, CHR ''n''), (CHR 0x0D, CHR ''r''),
            (CHR 0x09, CHR ''t''), (CHR 0x0B, CHR ''v''), (CHR 0x5C, CHR 0x5C), (CHR 0x22, CHR 0x22)]"
  show ?thesis
  proof (cases "map_of ?M c")
    case (Some e)
    then have "simple_escape e = Some c" by (auto simp: simple_escape_def split: if_splits)
    then have "unquote_escape (e # s) = Some ([c], 1)" by (simp add: unquote_escape_def)
    then show ?thesis using True Some by (simp add: quote_char_def append_single)
  next
    case None
    let ?n = "of_char c :: nat"
    have lt: "\<not> 255 < ?n" using nat_of_char_less_256 [of c] by linarith
    note d = octal_digits [of c]
    let ?e = "[oct_char (?n div 64), oct_char (?n div 8 mod 8), oct_char (?n mod 8)]"
    have "unquote_escape (?e @ s) = Some ([c], 3)"
      using oct_not_simple [OF d(1)] d lt by (simp add: unquote_escape_def oct_digit_char oct_value)
    then show ?thesis using True None by (simp add: quote_char_def Let_def append_single)
  qed
qed

lemma unquote_body_concat: "unquote_body (concat (map quote_char p) @ [CHR 0x22]) = Some p"
  by (induction p) (simp_all add: unquote_quote_char)

lemma unquote_git_quote: "(if prefix [CHR 0x22] (git_quote p) then unquote (git_quote p) else Some (git_quote p)) = Some p"
proof (cases "list_ex quoted_char p")
  case True
  then show ?thesis by (simp add: git_quote_def unquote_def unquote_body_concat)
next
  case False
  moreover from False have "\<not> prefix [CHR 0x22] p" by (cases p) (auto simp: quoted_char_def)
  ultimately show ?thesis by (simp add: git_quote_def)
qed

lemma git_quote_no_nl: "NL \<notin> set (git_quote p)"
proof -
  have "NL \<notin> set (quote_char c)" for c
  proof -
    have o: "oct_char n \<noteq> NL" if "n < 8" for n
    proof
      assume "oct_char n = NL"
      then have "(of_char (oct_char n) :: nat) = 10" by simp
      then show False using that by (simp add: oct_char_def)
    qed
    have "NL \<notin> set [oct_char (of_char c div 64), oct_char (of_char c div 8 mod 8), oct_char (of_char c mod 8)]"
      using o [OF octal_digits(1) [of c]] o [OF octal_digits(2) [of c]] o [OF octal_digits(3) [of c]] by auto
    then show ?thesis
      by (auto simp: quote_char_def quoted_char_def Let_def split: option.splits if_splits dest!: map_of_SomeD)
  qed
  then show ?thesis by (auto simp: git_quote_def quoted_char_def list_ex_iff)
qed

section \<open>Listings\<close>

text \<open>An entry of a tree listed recursively: its mode as git prints it, object, size and path.\<close>

record ls_entry =
  l_mode :: string
  l_ref :: string
  l_size :: nat
  l_path :: "string list"

definition ls_text :: "ls_entry \<Rightarrow> string" where
  "ls_text e = hex_encode (l_ref e) @ '' '' @ l_mode e @ '' '' @
     (if l_mode e = ''040000'' then ''-'' else dec (l_size e)) @ '' '' @ git_quote (join_on slash (l_path e))"

definition ls_output :: "ls_entry list \<Rightarrow> string" where
  "ls_output es = concat (map (\<lambda>e. ls_text e @ [NL]) es)"

definition entry_ok :: "ls_entry \<Rightarrow> bool" where
  "entry_ok e \<longleftrightarrow> l_mode e \<in> {''040000'', ''100644'', ''100755''} \<and> length (l_ref e) = 20 \<and> l_size e < 2 ^ 63 \<and>
     l_path e \<noteq> [] \<and> list_all clean_name (l_path e)"

definition ent_size :: "ls_entry \<Rightarrow> int" where
  "ent_size e = (if l_mode e = ''040000'' then 0 else int (l_size e))"

definition ent_dirent :: "ls_entry \<Rightarrow> dirent" where
  "ent_dirent e = \<lparr>d_name = last (l_path e), d_mode = fileModeFromGitOctalBytes (l_mode e), d_size = ent_size e\<rparr>"

definition good_ParseInt :: "(string \<Rightarrow> int option) \<Rightarrow> bool" where
  "good_ParseInt PI \<longleftrightarrow> (\<forall>n < 2 ^ 63. PI (dec n) = Some (int n))"

lemma octal_modes:
  "l_mode e \<in> {''040000'', ''100644'', ''100755''} \<Longrightarrow> is_dir (fileModeFromGitOctalBytes (l_mode e)) = (l_mode e = ''040000'')"
  by (auto simp: fileModeFromGitOctalBytes_def)

lemma ls_line_text:
  assumes "good_ParseInt PI" "entry_ok e"
  shows "ls_line PI (ls_text e) = Ok (l_ref e, fileModeFromGitOctalBytes (l_mode e), ent_size e, join_on slash (l_path e))"
proof -
  let ?q = "git_quote (join_on slash (l_path e))"
  let ?z = "if l_mode e = ''040000'' then ''-'' else dec (l_size e)"
  have m: "l_mode e \<in> {''040000'', ''100644'', ''100755''}" "length (l_ref e) = 20" "l_size e < 2 ^ 63"
    using assms(2) by (auto simp: entry_ok_def)
  have sp: "CHR '' '' \<notin> set w" if "no_space w" for w using that by (simp add: no_space_char)
  have c1: "cut (ls_text e) '' '' = (hex_encode (l_ref e), l_mode e @ CHR '' '' # ?z @ CHR '' '' # ?q, True)"
    using cut_char [OF sp [OF hex_no_space], of "l_ref e" "l_mode e @ CHR '' '' # ?z @ CHR '' '' # ?q"] by (simp add: ls_text_def)
  have c2: "cut (l_mode e @ CHR '' '' # ?z @ CHR '' '' # ?q) '' '' = (l_mode e, ?z @ CHR '' '' # ?q, True)"
    using m(1) by (intro cut_char) auto
  have c3: "cut (?z @ CHR '' '' # ?q) '' '' = (?z, ?q, True)"
    using sp [OF dec_no_space] by (intro cut_char) auto
  have z: "(if is_dir (fileModeFromGitOctalBytes (l_mode e)) then Some 0 else PI ?z) = Some (ent_size e)"
    using assms(1) m octal_modes [OF m(1)] by (auto simp: good_ParseInt_def ent_size_def)
  have g: "\<not> (is_dir (fileModeFromGitOctalBytes (l_mode e)) \<and> ?z \<noteq> ''-'')" using octal_modes [OF m(1)] by simp
  show ?thesis
    unfolding ls_line_def c1 Let_def case_prod_conv hex_objRef_encode [OF m(2)] ref_result.case c2 c3 z unquote_git_quote option.case
    using g by simp
qed

definition parent_dir :: "ls_entry \<Rightarrow> string" where
  "parent_dir e = join_on slash (butlast (l_path e))"

lemma path_parts:
  assumes "entry_ok e"
  shows "path_Base (join_on slash (l_path e)) = last (l_path e)"
    "(if path_Dir (join_on slash (l_path e)) = ''.'' then [] else path_Dir (join_on slash (l_path e))) = parent_dir e"
proof -
  have ok: "l_path e \<noteq> []" "list_all clean_name (l_path e)" using assms by (auto simp: entry_ok_def)
  obtain ss x where p: "l_path e = ss @ [x]" using ok(1) by (cases "l_path e" rule: rev_cases) auto
  have x: "x \<noteq> []" "slash \<notin> set x" and ss: "list_all clean_name ss" using ok(2) by (auto simp: p clean_name_def)
  show "path_Base (join_on slash (l_path e)) = last (l_path e)"
    using x by (cases "ss = []") (simp_all add: p path_Base_free path_Base_append join_on_append)
  show "(if path_Dir (join_on slash (l_path e)) = ''.'' then [] else path_Dir (join_on slash (l_path e))) = parent_dir e"
  proof (cases "ss = []")
    case True
    then show ?thesis using x by (simp add: p parent_dir_def path_Dir_name)
  next
    case False
    have "join_on slash ss \<noteq> ''.''"
    proof
      assume "join_on slash ss = ''.''"
      then have "split_on slash ''.'' = ss" using split_join [of ss slash] ss False by (auto simp: list_all_iff clean_name_def)
      then show False using ss by (auto simp: clean_name_def)
    qed
    then show ?thesis using False path_Dir_join [OF ss False x(2)] by (simp add: p parent_dir_def)
  qed
qed

section \<open>Handles of listings\<close>

definition ent_meta :: "ls_entry \<Rightarrow> blobMeta" where
  "ent_meta e = \<lparr>m_Blob = l_ref e, m_Size = ent_size e, m_Mode = fileModeFromGitOctalBytes (l_mode e)\<rparr>"

definition ls_files :: "ls_entry list \<Rightarrow> (string \<times> blobMeta) list" where
  "ls_files es = map (\<lambda>e. (join_on slash (l_path e), ent_meta e)) (filter (\<lambda>e. l_mode e \<noteq> ''040000'') es)"

definition ls_children :: "ls_entry list \<Rightarrow> string \<Rightarrow> dirent list" where
  "ls_children es d = map ent_dirent (filter (\<lambda>e. parent_dir e = d) es)"

definition handle_of_ls :: "string \<Rightarrow> ls_entry list \<Rightarrow> modHandle \<Rightarrow> bool" where
  "handle_of_ls tree es mh \<longleftrightarrow> modTree mh = tree \<and>
     (\<forall>p. map_of (mh_blobMeta mh) p = map_of (rev (ls_files es)) p) \<and>
     (\<forall>d. map_of (mh_dirEnts mh) d = (if ls_children es d = [] then None else Some (ls_children es d)))"

lemma map_of_map_put: "map_of (map_put k v m) p = (if p = k then Some v else map_of m p)"
  by (induction m) auto

lemma add_ent_handle:
  assumes "entry_ok e" "handle_of_ls tree es mh"
  shows "handle_of_ls tree (es @ [e])
    (add_ent (l_ref e, fileModeFromGitOctalBytes (l_mode e), ent_size e, join_on slash (l_path e)) mh)"
proof -
  have m: "l_mode e \<in> {''040000'', ''100644'', ''100755''}" using assms(1) by (simp add: entry_ok_def)
  note P = path_parts [OF assms(1)]
  let ?a = "add_ent (l_ref e, fileModeFromGitOctalBytes (l_mode e), ent_size e, join_on slash (l_path e)) mh"
  have "map_of (mh_dirEnts ?a) d = (if ls_children (es @ [e]) d = [] then None else Some (ls_children (es @ [e]) d))" for d
    using assms(2) by (auto simp: add_ent_def Let_def P map_of_map_put handle_of_ls_def ls_children_def ent_dirent_def)
  moreover have "map_of (mh_blobMeta ?a) p = map_of (rev (ls_files (es @ [e]))) p" for p
    using assms(2) octal_modes [OF m] by (auto simp: add_ent_def Let_def map_of_map_put handle_of_ls_def ls_files_def ent_meta_def)
  moreover have "modTree ?a = tree" using assms(2) by (simp add: add_ent_def Let_def handle_of_ls_def)
  ultimately show ?thesis by (simp add: handle_of_ls_def)
qed

lemma ls_text_no_nl: "entry_ok e \<Longrightarrow> NL \<notin> set (ls_text e)"
  using no_space_no_nl [OF hex_no_space] no_space_no_nl [OF dec_no_space] git_quote_no_nl
  by (auto simp: ls_text_def entry_ok_def)

lemma ls_loop_output:
  assumes "good_ParseInt PI"
  shows "list_all entry_ok es \<Longrightarrow> handle_of_ls tree done mh \<Longrightarrow>
    \<exists>mh'. ls_loop PI (ls_output es) mh = Ok mh' \<and> handle_of_ls tree (done @ es) mh'"
proof (induction es arbitrary: "done" mh)
  case Nil
  then show ?case by (subst ls_loop.simps) (simp add: ls_output_def)
next
  case (Cons e es)
  have e: "entry_ok e" using Cons.prems(1) by simp
  let ?mh = "add_ent (l_ref e, fileModeFromGitOctalBytes (l_mode e), ent_size e, join_on slash (l_path e)) mh"
  have out: "ls_output (e # es) = ls_text e @ NL # ls_output es" by (simp add: ls_output_def)
  have "cut_at [NL] (ls_output (e # es)) = Some (ls_text e, ls_output es)"
    unfolding out by (rule cut_at_char [OF ls_text_no_nl [OF e]])
  then have "ls_loop PI (ls_output (e # es)) mh = ls_loop PI (ls_output es) ?mh"
    using ls_line_text [OF assms e] by (subst ls_loop.simps) (simp add: out)
  moreover obtain mh' where "ls_loop PI (ls_output es) ?mh = Ok mh'" "handle_of_ls tree ((done @ [e]) @ es) mh'"
    using Cons.IH [OF _ add_ent_handle [OF e Cons.prems(2)]] Cons.prems(1) by auto
  ultimately show ?case by simp
qed

text \<open>The paths of a listing are all different and no file has entries below it.\<close>

definition listing_ok :: "ls_entry list \<Rightarrow> bool" where
  "listing_ok es \<longleftrightarrow> list_all entry_ok es \<and> distinct (map (\<lambda>e. join_on slash (l_path e)) es) \<and>
     list_all (\<lambda>e. l_mode e \<noteq> ''040000'' \<longrightarrow> ls_children es (join_on slash (l_path e)) = []) es"

lemma newModHandle_listing:
  assumes "good_ParseInt PI" "list_all entry_ok es" "g_ls_tree G g (hex_encode tree @ '':zip'') = Inr (ls_output es)"
  shows "\<exists>mh. newModHandle PI G g tree = Ok mh \<and> handle_of_ls tree es mh"
proof -
  have "handle_of_ls tree [] \<lparr>modTree = tree, mh_blobMeta = [], mh_dirEnts = []\<rparr>"
    by (simp add: handle_of_ls_def ls_files_def ls_children_def)
  from ls_loop_output [OF assms(1,2) this] show ?thesis using assms(3) by (auto simp: newModHandle_def)
qed

lemma stat_listing:
  assumes "listing_ok es" "handle_of_ls tree es mh"
  shows "e \<in> set es \<Longrightarrow> l_mode e \<noteq> ''040000'' \<Longrightarrow> git_Stat mh (join_on slash (l_path e)) =
      Inr \<lparr>fi_name = last (l_path e), fi_size = int (l_size e), fi_mode = fileModeFromGitOctalBytes (l_mode e)\<rparr>"
    and "ls_children es d \<noteq> [] \<Longrightarrow> git_Stat mh d = Inr \<lparr>fi_name = path_Base d, fi_size = 0, fi_mode = \<lparr>is_dir = True, perm = 493\<rparr>\<rparr>"
    and "ls_children es p = [] \<Longrightarrow> p \<notin> (\<lambda>e. join_on slash (l_path e)) ` set es \<Longrightarrow> git_Stat mh p = Inl ErrNotExist"
proof -
  have D: "map_of (mh_dirEnts mh) d = (if ls_children es d = [] then None else Some (ls_children es d))"
    and B: "map_of (mh_blobMeta mh) p = map_of (rev (ls_files es)) p" for d p
    using assms(2) by (auto simp: handle_of_ls_def)
  show "git_Stat mh (join_on slash (l_path e)) =
      Inr \<lparr>fi_name = last (l_path e), fi_size = int (l_size e), fi_mode = fileModeFromGitOctalBytes (l_mode e)\<rparr>"
    if e: "e \<in> set es" "l_mode e \<noteq> ''040000''"
  proof -
    have "distinct (map (\<lambda>e. join_on slash (l_path e)) es)" using assms(1) by (simp add: listing_ok_def)
    then have "distinct (map fst (ls_files es))" unfolding ls_files_def map_map comp_def fst_conv by (rule distinct_map_filter)
    then have "distinct (map fst (rev (ls_files es)))" by (simp add: rev_map [symmetric])
    moreover have "(join_on slash (l_path e), ent_meta e) \<in> set (rev (ls_files es))" using e by (auto simp: ls_files_def)
    ultimately have "map_of (mh_blobMeta mh) (join_on slash (l_path e)) = Some (ent_meta e)" unfolding B by (rule map_of_is_SomeI)
    moreover have "ls_children es (join_on slash (l_path e)) = []" "entry_ok e" using assms(1) e by (auto simp: listing_ok_def list_all_iff)
    ultimately show ?thesis using e(2) path_parts(1) [of e] by (simp add: git_Stat_def D ent_meta_def ent_size_def)
  qed
  show "git_Stat mh d = Inr \<lparr>fi_name = path_Base d, fi_size = 0, fi_mode = \<lparr>is_dir = True, perm = 493\<rparr>\<rparr>" if "ls_children es d \<noteq> []"
    using that by (simp add: git_Stat_def D)
  show "git_Stat mh p = Inl ErrNotExist" if c: "ls_children es p = []" and n: "p \<notin> (\<lambda>e. join_on slash (l_path e)) ` set es"
  proof -
    have "p \<notin> fst ` set (rev (ls_files es))" using n by (auto simp: ls_files_def)
    then have "map_of (mh_blobMeta mh) p = None" unfolding B by (simp add: map_of_eq_None_iff)
    then show ?thesis using c by (simp add: git_Stat_def D)
  qed
qed

text \<open>
  C19. A module handle answers as the tree git lists: for the output of \<^verbatim>\<open>git ls-tree\<close> on any tree, paths
  with arbitrary bytes quoted as git quotes them, the handle is made without error; \<^verbatim>\<open>Readdir\<close> of a
  directory gives its entries in git's order, \<^verbatim>\<open>Stat\<close> of a file its name, size and mode, of a
  directory with entries a directory, and of anything else that it does not exist.
\<close>
theorem handle_answers_listing:
  assumes "good_ParseInt PI" "listing_ok es" "g_ls_tree G g (hex_encode tree @ '':zip'') = Inr (ls_output es)"
  shows "\<exists>mh. newModHandle PI G g tree = Ok mh \<and>
    (\<forall>d. git_Readdir mh d = Inr (ls_children es d)) \<and>
    (\<forall>e \<in> set es. l_mode e \<noteq> ''040000'' \<longrightarrow> git_Stat mh (join_on slash (l_path e)) =
       Inr \<lparr>fi_name = last (l_path e), fi_size = int (l_size e), fi_mode = fileModeFromGitOctalBytes (l_mode e)\<rparr>) \<and>
    (\<forall>d. ls_children es d \<noteq> [] \<longrightarrow> git_Stat mh d = Inr \<lparr>fi_name = path_Base d, fi_size = 0, fi_mode = \<lparr>is_dir = True, perm = 493\<rparr>\<rparr>) \<and>
    (\<forall>p. ls_children es p = [] \<and> p \<notin> (\<lambda>e. join_on slash (l_path e)) ` set es \<longrightarrow> git_Stat mh p = Inl ErrNotExist)"
proof -
  have "list_all entry_ok es" using assms(2) by (simp add: listing_ok_def)
  then obtain mh where mh: "newModHandle PI G g tree = Ok mh" "handle_of_ls tree es mh"
    using newModHandle_listing [OF assms(1) _ assms(3)] by blast
  have "git_Readdir mh d = Inr (ls_children es d)" for d
    using mh(2) by (simp add: git_Readdir_def handle_of_ls_def)
  then show ?thesis using mh(1) stat_listing [OF assms(2) mh(2)] by blast
qed

lemma good_atoi: "good_ParseInt atoi"
  by (auto simp: good_ParseInt_def in_i64_def intro!: atoi_dec)

text \<open>A directory with a file whose name needs quoting.\<close>

definition toy_listing :: "ls_entry list" where
  "toy_listing = [\<lparr>l_mode = ''040000'', l_ref = replicate 20 CHR ''d'', l_size = 0, l_path = [''a b'']\<rparr>,
     \<lparr>l_mode = ''100644'', l_ref = replicate 20 CHR ''f'', l_size = 7, l_path = [''a b'', [CHR 0x22, NL, CHR 0xC3, CHR 0xA4]]\<rparr>]"

lemma toy_listing_ok: "listing_ok toy_listing"
  by (simp add: listing_ok_def entry_ok_def toy_listing_def ls_children_def parent_dir_def clean_name_def)

theorem handle_answers_listing_witness:
  "\<exists>mh. newModHandle atoi (toy_cmds\<lparr>g_ls_tree := \<lambda>g r. Inr (ls_output toy_listing)\<rparr>) [] zeroRef = Ok mh \<and>
     git_Readdir mh ''a b'' = Inr [\<lparr>d_name = [CHR 0x22, NL, CHR 0xC3, CHR 0xA4], d_mode = \<lparr>is_dir = False, perm = 420\<rparr>, d_size = 7\<rparr>] \<and>
     git_Stat mh ''a b'' = Inr \<lparr>fi_name = ''a b'', fi_size = 0, fi_mode = \<lparr>is_dir = True, perm = 493\<rparr>\<rparr>"
proof -
  have "ls_children toy_listing ''a b'' =
      [\<lparr>d_name = [CHR 0x22, NL, CHR 0xC3, CHR 0xA4], d_mode = \<lparr>is_dir = False, perm = 420\<rparr>, d_size = 7\<rparr>]" "path_Base ''a b'' = ''a b''"
    by code_simp+
  note c = this
  let ?G = "toy_cmds\<lparr>g_ls_tree := \<lambda>g r. Inr (ls_output toy_listing)\<rparr>"
  have "g_ls_tree ?G [] (hex_encode zeroRef @ '':zip'') = Inr (ls_output toy_listing)" by simp
  from handle_answers_listing [OF good_atoi toy_listing_ok this] obtain mh where
    "newModHandle atoi ?G [] zeroRef = Ok mh" "\<forall>d. git_Readdir mh d = Inr (ls_children toy_listing d)"
    "\<forall>d. ls_children toy_listing d \<noteq> [] \<longrightarrow> git_Stat mh d = Inr \<lparr>fi_name = path_Base d, fi_size = 0, fi_mode = \<lparr>is_dir = True, perm = 493\<rparr>\<rparr>"
    by blast
  then show ?thesis using c by (metis list.distinct(1))
qed

end
