(* ===== verification/Git_Repo.thy ===== *)
theory Git_Repo
  imports Git_Listing
begin

text \<open>
  What the store relies on of git, as the interface of a repository: objects and references, and what each
  command does to them or answers from them.  Then, for any repository that has the objects of a tree:
  the listing \<^verbatim>\<open>git ls-tree\<close> gives of it, and the module handle made from that listing.
\<close>

section \<open>Recursive listings\<close>

text \<open>
  \<^verbatim>\<open>git ls-tree -t -r\<close>: every entry of a tree in the tree's order, the entries of a sub-tree right after
  it; the mode is printed with six digits.
\<close>

definition ls_mode :: "string \<Rightarrow> string" where
  "ls_mode m = replicate (6 - length m) CHR ''0'' @ m"

definition ls_ent :: "objects \<Rightarrow> string list \<Rightarrow> string \<Rightarrow> string \<Rightarrow> ls_entry" where
  "ls_ent obs path m h = \<lparr>l_mode = ls_mode m, l_ref = h, l_size = (if m = ''40000'' then 0 else case obs h of None \<Rightarrow> 0 | Some (_, c) \<Rightarrow> length c), l_path = path\<rparr>"

fun git_ls :: "nat \<Rightarrow> objects \<Rightarrow> string list \<Rightarrow> string \<Rightarrow> ls_entry list option" where
  "git_ls 0 obs pre r = None"
| "git_ls (Suc n) obs pre r =
     (case obs r of
        None \<Rightarrow> None
      | Some (ty, c) \<Rightarrow>
          if ty \<noteq> ''tree'' then None
          else case parse_tree c of
            None \<Rightarrow> None
          | Some es \<Rightarrow>
              map_option concat (those (map (\<lambda>(m, name, h).
                if m = ''40000'' then map_option ((#) (ls_ent obs (pre @ [name]) m h)) (git_ls n obs (pre @ [name]) h)
                else Some [ls_ent obs (pre @ [name]) m h]) es)))"

text \<open>
  Trees as the store writes them: clean names, all different, in git's order, modes that say what they
  lead to, and no file larger than the helper reads.
\<close>

definition ent_key :: "string \<times> string \<times> 'a \<Rightarrow> string" where
  "ent_key e = (case e of (m, n, _) \<Rightarrow> if m = ''40000'' then n @ [slash] else n)"

fun plain_tree :: "(string \<Rightarrow> bool) \<Rightarrow> gtree \<Rightarrow> bool" where
  "plain_tree ok (GBlob c) \<longleftrightarrow> int (length c) \<le> maxObjSize"
| "plain_tree ok (GTree es) \<longleftrightarrow> distinct (map (\<lambda>(m, n, t). n) es) \<and> sorted (map ent_key es) \<and>
     list_all (\<lambda>(m, n, t). clean_name n \<and> NUL \<notin> set n \<and> ok n \<and>
       m \<in> (case t of GTree _ \<Rightarrow> {''40000''} | GBlob _ \<Rightarrow> {''100644'', ''100755''}) \<and> plain_tree ok t) es"

fun tree_ls :: "(string \<Rightarrow> string) \<Rightarrow> objects \<Rightarrow> string list \<Rightarrow> gtree \<Rightarrow> ls_entry list" where
  "tree_ls sha obs pre (GBlob c) = []"
| "tree_ls sha obs pre (GTree es) =
     concat (map (\<lambda>(m, n, t). ls_ent obs (pre @ [n]) m (gref sha t) # tree_ls sha obs (pre @ [n]) t) es)"

fun depth_ok :: "nat \<Rightarrow> gtree \<Rightarrow> bool" where
  "depth_ok n (GBlob c) = True"
| "depth_ok 0 (GTree es) = False"
| "depth_ok (Suc n) (GTree es) = list_all (\<lambda>(m, nm, t). depth_ok n t) es"

lemma plain_entry:
  assumes "plain_tree ok (GTree es)" "(m, n, t) \<in> set es"
  shows "clean_name n" "NUL \<notin> set n \<and> ok n" "plain_tree ok t" "m = ''40000'' \<longleftrightarrow> (\<exists>es. t = GTree es)" "m \<in> {''40000'', ''100644'', ''100755''}"
proof -
  have "clean_name n \<and> NUL \<notin> set n \<and> ok n \<and> m \<in> (case t of GTree _ \<Rightarrow> {''40000''} | GBlob _ \<Rightarrow> {''100644'', ''100755''}) \<and> plain_tree ok t"
    using assms unfolding plain_tree.simps list_all_iff by fast
  then show "clean_name n" "NUL \<notin> set n \<and> ok n" "plain_tree ok t" "m = ''40000'' \<longleftrightarrow> (\<exists>es. t = GTree es)" "m \<in> {''40000'', ''100644'', ''100755''}"
    by (cases t; auto)+
qed

lemma entry_size: "(m, n, t) \<in> set es \<Longrightarrow> size t < size (GTree es)"
  by (induction es) (auto simp: size_prod_simp)

lemma tree_cases_induct [case_names blob tree]:
  assumes "\<And>c. P (GBlob c)" "\<And>es. (\<And>m n t. (m, n, t) \<in> set es \<Longrightarrow> P t) \<Longrightarrow> P (GTree es)"
  shows "P T"
proof (induction T rule: measure_induct_rule [where f = size])
  case (less T)
  then show ?case using assms entry_size by (cases T) blast+
qed

lemma plain_wf: "plain_tree ok T \<Longrightarrow> wf_tree T"
proof (induction T rule: tree_cases_induct)
  case (tree es)
  have "CHR '' '' \<notin> set m \<and> NUL \<notin> set n \<and> wf_tree t" if e: "(m, n, t) \<in> set es" for m n t
    using tree.IH [OF e] plain_entry [OF tree.prems e] by auto
  then show ?case by (auto simp: list_all_iff)
qed simp

lemma those_map: "those (map (\<lambda>x. Some (f x)) xs) = Some (map f xs)"
  by (induction xs) simp_all

lemma git_ls_present:
  assumes "\<And>x. length (sha x) = 20"
  shows "present sha obs T \<Longrightarrow> plain_tree ok T \<Longrightarrow> T = GTree es \<Longrightarrow> depth_ok n T \<Longrightarrow> git_ls n obs pre (gref sha T) = Some (tree_ls sha obs pre T)"
proof (induction n arbitrary: T es pre)
  case (Suc n)
  note T = Suc.prems(3)
  have step: "(if m = ''40000'' then map_option ((#) (ls_ent obs (pre @ [nm]) m (gref sha t))) (git_ls n obs (pre @ [nm]) (gref sha t))
      else Some [ls_ent obs (pre @ [nm]) m (gref sha t)]) = Some (ls_ent obs (pre @ [nm]) m (gref sha t) # tree_ls sha obs (pre @ [nm]) t)"
    if e: "(m, nm, t) \<in> set es" for m nm t
  proof (cases t)
    case (GBlob c)
    then show ?thesis using plain_entry(4) [OF Suc.prems(2) [unfolded T] e] by simp
  next
    case (GTree fs)
    have "depth_ok n t" using Suc.prems(4) e by (auto simp: T list_all_iff)
    then show ?thesis
      using Suc.IH [OF present_sub [OF Suc.prems(1) [unfolded T] e] plain_entry(3) [OF Suc.prems(2) [unfolded T] e] GTree]
        plain_entry(4) [OF Suc.prems(2) [unfolded T] e] GTree by simp
  qed
  have "map (\<lambda>(m, nm, h). if m = ''40000'' then map_option ((#) (ls_ent obs (pre @ [nm]) m h)) (git_ls n obs (pre @ [nm]) h)
      else Some [ls_ent obs (pre @ [nm]) m h]) (map (\<lambda>(m, nm, t). (m, nm, gref sha t)) es) =
    map (\<lambda>e. Some ((\<lambda>(m, nm, t). ls_ent obs (pre @ [nm]) m (gref sha t) # tree_ls sha obs (pre @ [nm]) t) e)) es"
    unfolding map_map comp_def
  proof (rule map_cong [OF refl], goal_cases)
    case (1 x)
    then show ?case by (cases x rule: prod_cases3) (simp only: prod.case step)
  qed
  note l = this those_map
  have p: "parse_tree (gbytes sha es) = Some (map (\<lambda>(m, n, t). (m, n, gref sha t)) es)"
    by (rule parse_tree_gbytes [where sha = sha, OF assms plain_wf [OF Suc.prems(2) [unfolded T]]])
  show ?case unfolding T git_ls.simps present_top(1) [OF Suc.prems(1) [unfolded T]] by (simp only: option.case prod.case p l) simp
qed (cases es; simp)

text \<open>The listing of a tree has exactly the places lookups lead to.\<close>

lemma tree_lookup_entry:
  assumes "plain_tree ok (GTree es)"
  shows "tree_lookup m0 (GTree es) (p # ps) = Some x \<longleftrightarrow> (\<exists>m t. (m, p, t) \<in> set es \<and> tree_lookup m t ps = Some x)"
proof -
  have d: "distinct (map (\<lambda>(m, n, t). n) es)" using assms by simp
  have "find (\<lambda>(_, n, _). n = p) es = Some (m, p, t) \<longleftrightarrow> (m, p, t) \<in> set es" for m t
    using d by (induction es) (auto simp: image_iff split: if_splits)
  then have "find (\<lambda>(_, n, _). n = p) es = Some y \<longleftrightarrow> y \<in> set es \<and> fst (snd y) = p" for y
    using find_entry by (cases y rule: prod_cases3) fastforce
  note F = this
  show ?thesis
  proof (cases "find (\<lambda>(_, n, _). n = p) es")
    case None
    then have "(m, p, t) \<notin> set es" for m t using F [of "(m, p, t)"] by simp
    then show ?thesis using None by simp
  next
    case (Some y)
    obtain m n t where y: "y = (m, n, t)" by (cases y rule: prod_cases3)
    have "(m', p, t') \<in> set es \<longleftrightarrow> m' = m \<and> t' = t" for m' t'
      using F [of "(m', p, t')"] F [of y] Some y by auto
    then show ?thesis using Some y by simp
  qed
qed

lemma tree_ls_iff:
  assumes "plain_tree ok T"
  shows "e \<in> set (tree_ls sha obs pre T) \<longleftrightarrow>
    (\<exists>ps m t. ps \<noteq> [] \<and> tree_lookup m0 T ps = Some (m, t) \<and> e = ls_ent obs (pre @ ps) m (gref sha t))"
  using assms
proof (induction T arbitrary: pre m0 rule: tree_cases_induct)
  case (blob c)
  show ?case by (auto simp: neq_Nil_conv)
next
  case (tree es)
  have IH: "e \<in> set (tree_ls sha obs (pre @ [n]) t) \<longleftrightarrow>
      (\<exists>ps m' t'. ps \<noteq> [] \<and> tree_lookup m t ps = Some (m', t') \<and> e = ls_ent obs (pre @ n # ps) m' (gref sha t'))"
    if "(m, n, t) \<in> set es" for m n t
    using tree.IH [OF that plain_entry(3) [OF tree.prems that], of "pre @ [n]" m] by simp
  have "e \<in> set (tree_ls sha obs pre (GTree es)) \<longleftrightarrow>
      (\<exists>m n t. (m, n, t) \<in> set es \<and> (\<exists>ps m' t'. tree_lookup m t ps = Some (m', t') \<and> e = ls_ent obs (pre @ n # ps) m' (gref sha t')))"
  proof -
    have "e \<in> set (tree_ls sha obs pre (GTree es)) \<longleftrightarrow>
        (\<exists>m n t. (m, n, t) \<in> set es \<and> (e = ls_ent obs (pre @ [n]) m (gref sha t) \<or> e \<in> set (tree_ls sha obs (pre @ [n]) t)))"
      by force
    also have "\<dots> \<longleftrightarrow> (\<exists>m n t. (m, n, t) \<in> set es \<and> (\<exists>ps m' t'. tree_lookup m t ps = Some (m', t') \<and> e = ls_ent obs (pre @ n # ps) m' (gref sha t')))"
    proof (intro iff_exI conj_cong refl)
      fix m n t assume "(m, n, t) \<in> set es"
      note I = IH [OF this]
      show "(e = ls_ent obs (pre @ [n]) m (gref sha t) \<or> e \<in> set (tree_ls sha obs (pre @ [n]) t)) \<longleftrightarrow>
        (\<exists>ps m' t'. tree_lookup m t ps = Some (m', t') \<and> e = ls_ent obs (pre @ n # ps) m' (gref sha t'))"
        unfolding I by (rule iffI) (force, metis tree_lookup.simps(1) option.inject prod.inject)
    qed
    finally show ?thesis .
  qed
  also have "\<dots> \<longleftrightarrow> (\<exists>p ps m t. tree_lookup m0 (GTree es) (p # ps) = Some (m, t) \<and> e = ls_ent obs (pre @ p # ps) m (gref sha t))"
    unfolding tree_lookup_entry [OF tree.prems] by blast
  finally show ?case unfolding neq_Nil_conv by blast
qed

lemma tree_lookup_append:
  "tree_lookup m T (ps @ qs) = (case tree_lookup m T ps of None \<Rightarrow> None | Some (m', t) \<Rightarrow> tree_lookup m' t qs)"
  by (induction m T ps rule: tree_lookup.induct) (auto split: option.split)

definition mode_fits :: "string \<Rightarrow> gtree \<Rightarrow> bool" where
  "mode_fits m t \<longleftrightarrow> m \<in> (case t of GTree _ \<Rightarrow> {''40000''} | GBlob _ \<Rightarrow> {''100644'', ''100755''})"

lemma plain_lookup:
  "plain_tree ok T \<Longrightarrow> tree_lookup m0 T ps = Some (m, t) \<Longrightarrow> list_all clean_name ps \<and> plain_tree ok t \<and> (ps \<noteq> [] \<longrightarrow> mode_fits m t)"
proof (induction ps arbitrary: T m0)
  case (Cons p ps)
  then obtain es where T: "T = GTree es" by (cases T) auto
  obtain m1 t1 where e: "(m1, p, t1) \<in> set es" "tree_lookup m1 t1 ps = Some (m, t)"
    using Cons.prems tree_lookup_entry [OF Cons.prems(1) [unfolded T]] unfolding T by blast
  have "mode_fits m1 t1" using plain_entry(4,5) [OF Cons.prems(1) [unfolded T] e(1)] by (cases t1) (auto simp: mode_fits_def)
  then show ?case using Cons.IH [OF plain_entry(3) [OF Cons.prems(1) [unfolded T] e(1)] e(2)] plain_entry(1) [OF Cons.prems(1) [unfolded T] e(1)] e(2)
    by (cases ps) auto
qed simp

lemma distinct_blocks:
  assumes "distinct ks" "\<And>k. k \<in> set ks \<Longrightarrow> distinct (f k)" "\<And>k x. k \<in> set ks \<Longrightarrow> x \<in> set (f k) \<Longrightarrow> g x = h k" "inj_on h (set ks)"
  shows "distinct (concat (map f ks))"
  using assms
proof (induction ks)
  case (Cons k ks)
  have "set (f k) \<inter> set (f k') = {}" if "k' \<in> set ks" for k'
    using Cons.prems(1,4) Cons.prems(3) [of k] Cons.prems(3) [of k'] that by (fastforce simp: inj_on_def)
  then show ?case using Cons by (auto simp: inj_on_def)
qed simp

lemma tree_ls_distinct: "plain_tree ok T \<Longrightarrow> distinct (map l_path (tree_ls sha obs pre T))"
proof (induction T arbitrary: pre rule: tree_cases_induct)
  case (tree es)
  let ?f = "\<lambda>(m, n, t). (pre @ [n]) # map l_path (tree_ls sha obs (pre @ [n]) t)"
  have below: "\<exists>q \<noteq> []. x = pre @ n # q" if "(m, n, t) \<in> set es" "x \<in> set (map l_path (tree_ls sha obs (pre @ [n]) t))" for m n t x
    using that(2) tree_ls_iff [OF plain_entry(3) [OF tree.prems that(1)], of _ sha obs "pre @ [n]" "[]"] by (auto simp: ls_ent_def)
  have "distinct (concat (map ?f es))"
  proof (rule distinct_blocks [where g = "\<lambda>x. x ! length pre" and h = "\<lambda>(m, n, t). n"])
    show "distinct es" "inj_on (\<lambda>(m, n, t). n) (set es)" using tree.prems by (auto simp: distinct_map)
    fix e assume "e \<in> set es"
    moreover obtain m n t where e: "e = (m, n, t)" by (cases e rule: prod_cases3)
    ultimately have i: "(m, n, t) \<in> set es" by simp
    show "distinct (?f e)" using below [OF i] tree.IH [OF i plain_entry(3) [OF tree.prems i]] by (force simp: e)
    show "x ! length pre = (\<lambda>(m, n, t). n) e" if "x \<in> set (?f e)" for x
      using that below [OF i, of x] by (auto simp: e)
  qed
  moreover have "map l_path (tree_ls sha obs pre (GTree es)) = concat (map ?f es)"
    by (simp add: map_concat comp_def case_prod_beta' ls_ent_def)
  ultimately show ?case by simp
qed simp

lemma join_inj:
  assumes "join_on slash ps = join_on slash qs" "list_all clean_name ps" "list_all clean_name qs"
  shows "ps = qs"
proof -
  have s: "split_on slash (join_on slash xs) = xs" if "list_all clean_name xs" "xs \<noteq> []" for xs
    using that by (intro split_join) (auto simp: list_all_iff clean_name_def)
  have n: "join_on slash xs \<noteq> []" if "list_all clean_name xs" "xs \<noteq> []" for xs
    using s [OF that] that by (auto simp: clean_name_def)
  show ?thesis using assms s n by (cases "ps = []"; cases "qs = []") (metis join_on.simps(1))+
qed

lemma ls_mode_fits:
  "mode_fits m t \<Longrightarrow> ls_mode m \<in> {''040000'', ''100644'', ''100755''}"
  "mode_fits m t \<Longrightarrow> ls_mode m = ''040000'' \<longleftrightarrow> (\<exists>es. t = GTree es)"
  by (cases t; auto simp: mode_fits_def ls_mode_def numeral_eq_Suc)+

lemma gref_length: "(\<And>x. length (sha x) = 20) \<Longrightarrow> length (gref sha t) = 20"
  by (cases t) (simp_all add: gref_GTree mkObjRef_def)

lemma tree_listing_ok:
  assumes "\<And>x. length (sha x) = 20" "present sha obs T" "plain_tree ok T"
  shows "listing_ok (tree_ls sha obs [] T)"
proof -
  let ?es = "tree_ls sha obs [] T"
  have E: "\<exists>ps m t. ps \<noteq> [] \<and> list_all clean_name ps \<and> mode_fits m t \<and> plain_tree ok t \<and> present sha obs t \<and>
      tree_lookup ''40000'' T ps = Some (m, t) \<and> e = ls_ent obs ps m (gref sha t)" if e: "e \<in> set ?es" for e
  proof -
    obtain ps m t where "ps \<noteq> []" "tree_lookup ''40000'' T ps = Some (m, t)" "e = ls_ent obs ps m (gref sha t)"
      using e unfolding tree_ls_iff [OF assms(3), of e sha obs "[]" "''40000''"] by auto
    then show ?thesis using plain_lookup [OF assms(3)] tree_lookup_present [OF assms(2)] by blast
  qed
  have ok: "entry_ok e" if "e \<in> set ?es" for e
  proof -
    obtain ps m t where p: "ps \<noteq> []" "list_all clean_name ps" "mode_fits m t" "plain_tree ok t" "present sha obs t" "e = ls_ent obs ps m (gref sha t)"
      using E [OF \<open>e \<in> set ?es\<close>] by blast
    have "l_size e < 2 ^ 63" using p(3-5) present_top(2) [of sha obs]
      by (cases t) (auto simp: p(6) ls_ent_def mode_fits_def maxObjSize_def)
    then show ?thesis using p ls_mode_fits(1) gref_length [OF assms(1)] by (simp add: entry_ok_def ls_ent_def)
  qed
  have cl: "list_all clean_name (l_path e)" if "e \<in> set ?es" for e using ok [OF that] by (simp add: entry_ok_def)
  have "distinct (map (join_on slash) (map l_path ?es))"
    using tree_ls_distinct [OF assms(3)] join_inj cl by (auto simp: distinct_map inj_on_def)
  moreover have "ls_children ?es (join_on slash (l_path e)) = []" if e: "e \<in> set ?es" "l_mode e \<noteq> ''040000''" for e
  proof -
    obtain ps m c where p: "list_all clean_name ps" "tree_lookup ''40000'' T ps = Some (m, GBlob c)" "l_path e = ps"
    proof -
      obtain ps m t where q: "list_all clean_name ps" "mode_fits m t" "tree_lookup ''40000'' T ps = Some (m, t)" "e = ls_ent obs ps m (gref sha t)"
        using E [OF e(1)] by blast
      then show thesis using that e(2) ls_mode_fits(2) [OF q(2)] by (cases t) (auto simp: ls_ent_def)
    qed
    have "parent_dir e' \<noteq> join_on slash ps" if e': "e' \<in> set ?es" for e'
    proof
      assume j: "parent_dir e' = join_on slash ps"
      obtain qs m' t' where q: "qs \<noteq> []" "list_all clean_name qs" "tree_lookup ''40000'' T qs = Some (m', t')" "l_path e' = qs"
        using E [OF e'] by (auto simp: ls_ent_def)
      have "list_all clean_name (butlast qs)" using q(2) by (auto simp: list_all_iff dest: in_set_butlastD)
      then have "qs = ps @ [last qs]" using j p(1) q(1,4) join_inj by (simp add: parent_dir_def) (metis append_butlast_last_id)
      then show False using q(3) p(2) tree_lookup_append [of "''40000''" T ps "[last qs]"] by simp
    qed
    then show ?thesis by (simp add: ls_children_def p(3) filter_empty_conv)
  qed
  ultimately show ?thesis using ok by (simp add: listing_ok_def list_all_iff comp_def)
qed

lemma tree_ls_entry:
  assumes "plain_tree ok T" "e \<in> set (tree_ls sha obs [] T)"
  obtains ps m t where "ps \<noteq> []" "list_all clean_name ps" "mode_fits m t" "tree_lookup m0 T ps = Some (m, t)" "e = ls_ent obs ps m (gref sha t)"
proof -
  obtain ps m t where p: "ps \<noteq> []" "tree_lookup m0 T ps = Some (m, t)" "e = ls_ent obs ps m (gref sha t)"
    using assms(2) unfolding tree_ls_iff [OF assms(1), of e sha obs "[]" m0] by auto
  then show thesis using that plain_lookup [OF assms(1) p(2)] by blast
qed

lemma tree_ls_intro:
  assumes "plain_tree ok T" "ps \<noteq> []" "tree_lookup m0 T ps = Some (m, t)"
  shows "ls_ent obs ps m (gref sha t) \<in> set (tree_ls sha obs [] T)"
  unfolding tree_ls_iff [OF assms(1), of _ sha obs "[]" m0] append_Nil using assms(2,3) by (intro exI conjI) auto

lemma ls_ent_path [simp]: "l_path (ls_ent obs ps m h) = ps"
  by (simp add: ls_ent_def)

lemma below_dir:
  assumes "plain_tree ok T" "list_all clean_name ps" "e \<in> set (tree_ls sha obs [] T)"
  shows "parent_dir e = join_on slash ps \<longleftrightarrow> l_path e = ps @ [last (l_path e)]"
proof -
  obtain qs m t where q: "qs \<noteq> []" "list_all clean_name qs" "e = ls_ent obs qs m (gref sha t)" by (rule tree_ls_entry [OF assms(1,3)])
  have "list_all clean_name (butlast qs)" using q(2) by (auto simp: list_all_iff dest: in_set_butlastD)
  then have "join_on slash (butlast qs) = join_on slash ps \<longleftrightarrow> butlast qs = ps" using join_inj assms(2) by blast
  then show ?thesis using q(1) by (simp add: parent_dir_def q(3)) (metis append_butlast_last_id butlast_snoc)
qed

lemma ls_children_names:
  assumes "plain_tree ok T" "list_all clean_name ps"
  shows "set (map d_name (ls_children (tree_ls sha obs [] T) (join_on slash ps))) = {x. tree_lookup m0 T (ps @ [x]) \<noteq> None}"
    "distinct (map d_name (ls_children (tree_ls sha obs [] T) (join_on slash ps)))"
proof -
  let ?L = "tree_ls sha obs [] T"
  let ?F = "filter (\<lambda>e. parent_dir e = join_on slash ps) ?L"
  have F: "e \<in> set ?F \<longleftrightarrow> e \<in> set ?L \<and> l_path e = ps @ [last (l_path e)]" for e
    using below_dir [OF assms, of e sha obs] by auto
  have n: "map d_name (ls_children ?L (join_on slash ps)) = map (last \<circ> l_path) ?F" by (simp add: ls_children_def ent_dirent_def)
  have "x \<in> (last \<circ> l_path) ` set ?F \<longleftrightarrow> tree_lookup m0 T (ps @ [x]) \<noteq> None" for x
  proof
    assume "x \<in> (last \<circ> l_path) ` set ?F"
    then obtain e where e: "e \<in> set ?L" "l_path e = ps @ [x]" using F by (auto simp: image_iff)
    then show "tree_lookup m0 T (ps @ [x]) \<noteq> None" using tree_ls_entry [OF assms(1) e(1), of m0] by (metis ls_ent_path option.discI)
  next
    assume "tree_lookup m0 T (ps @ [x]) \<noteq> None"
    then obtain m t where "tree_lookup m0 T (ps @ [x]) = Some (m, t)" by (metis option.exhaust surj_pair)
    then have "ls_ent obs (ps @ [x]) m (gref sha t) \<in> set ?L" using tree_ls_intro [OF assms(1)] by blast
    then have "ls_ent obs (ps @ [x]) m (gref sha t) \<in> set ?F" unfolding F by simp
    then show "x \<in> (last \<circ> l_path) ` set ?F" by force
  qed
  then show "set (map d_name (ls_children ?L (join_on slash ps))) = {x. tree_lookup m0 T (ps @ [x]) \<noteq> None}"
    unfolding n set_map by blast
  have "distinct (map l_path ?L)" by (rule tree_ls_distinct [OF assms(1)])
  then have "distinct ?L" "inj_on l_path (set ?L)" by (auto simp: distinct_map)
  moreover from this(2) have "inj_on (last \<circ> l_path) (set ?F)" using F unfolding inj_on_def comp_def by metis
  ultimately show "distinct (map d_name (ls_children ?L (join_on slash ps)))" unfolding n by (simp add: distinct_map)
qed

section \<open>Repositories\<close>

text \<open>
  What a request is answered when the helper reads this output of git; an index out of range, which no
  output of git leads to, would end the program.
\<close>

definition cat_response :: "string \<Rightarrow> obj_response" where
  "cat_response out =
     (case fst (read_answer out) of
        Cat_Missing \<Rightarrow> Resp_Missing
      | Cat_Obj ty c h \<Rightarrow> Resp_Obj ty c h
      | _ \<Rightarrow> Resp_Err)"

text \<open>The objects of a repository after those of a pack were added.\<close>

definition add_objs :: "(string \<Rightarrow> string) \<Rightarrow> (string \<times> string) list \<Rightarrow> objects \<Rightarrow> objects" where
  "add_objs sha os obs = obs ++ map_of (map (\<lambda>(ty, c). (mkObjRef sha ty c, ty, c)) os)"

text \<open>
  What \<^verbatim>\<open>index-pack --strict\<close> asks of the trees of a pack: names that \<^verbatim>\<open>fsck\<close> accepts (\<open>name_ok\<close>), all
  different and in order, and links to objects that are there and that fit their modes.
\<close>

definition link_ok :: "objects \<Rightarrow> string \<Rightarrow> string \<Rightarrow> bool" where
  "link_ok obs m h \<longleftrightarrow> h \<noteq> zeroRef \<and>
     (case obs h of
        None \<Rightarrow> False
      | Some (ty, _) \<Rightarrow> (m = ''40000'' \<and> ty = ''tree'') \<or> (m \<in> {''100644'', ''100755''} \<and> ty = ''blob''))"

definition strict_tree :: "(string \<Rightarrow> bool) \<Rightarrow> objects \<Rightarrow> string \<Rightarrow> bool" where
  "strict_tree name_ok obs c \<longleftrightarrow>
     (case parse_tree c of
        None \<Rightarrow> False
      | Some es \<Rightarrow> distinct (map (\<lambda>(m, n, h). n) es) \<and> sorted (map ent_key es) \<and>
          list_all (\<lambda>(m, n, h). clean_name n \<and> name_ok n \<and> link_ok obs m h) es)"

definition no_clash :: "(string \<Rightarrow> string) \<Rightarrow> objects \<Rightarrow> (string \<times> string) list \<Rightarrow> bool" where
  "no_clash sha obs os \<longleftrightarrow> list_all (\<lambda>(ty, c). obs (mkObjRef sha ty c) \<in> {None, Some (ty, c)}) os"

definition strict_pack :: "(string \<Rightarrow> string) \<Rightarrow> (string \<Rightarrow> bool) \<Rightarrow> objects \<Rightarrow> (string \<times> string) list \<Rightarrow> bool" where
  "strict_pack sha name_ok obs os \<longleftrightarrow> no_clash sha obs os \<and>
     list_all (\<lambda>(ty, c). add_objs sha os obs (mkObjRef sha ty c) = Some (ty, c) \<and>
       (ty = ''tree'' \<longrightarrow> strict_tree name_ok (add_objs sha os obs) c)) os"

text \<open>A reference that is not a directory of others, and one that no rule for short names finds.\<close>

definition ref_free :: "(string \<Rightarrow> string option) \<Rightarrow> string \<Rightarrow> bool" where
  "ref_free refs r \<longleftrightarrow> (\<forall>r'. refs r' \<noteq> None \<longrightarrow> \<not> prefix (r @ [slash]) r' \<and> \<not> prefix (r' @ [slash]) r)"

definition ref_absent :: "(string \<Rightarrow> string option) \<Rightarrow> string \<Rightarrow> bool" where
  "ref_absent refs r \<longleftrightarrow> (\<forall>r'. refs r' \<noteq> None \<longrightarrow> r' \<noteq> r \<and> \<not> suffix (slash # r) r')"

text \<open>A full object name or a reference, as the start of a revision; a path that may follow it on a line.\<close>

definition rev_names :: "(string \<Rightarrow> bool) \<Rightarrow> (string \<Rightarrow> string option) \<Rightarrow> string \<Rightarrow> string \<Rightarrow> bool" where
  "rev_names ref_ok refs b h \<longleftrightarrow> b = hex_encode h \<and> length h = 20 \<or> ref_ok b \<and> refs b = Some h"

definition plain_path :: "string list \<Rightarrow> bool" where
  "plain_path ps \<longleftrightarrow> ps \<noteq> [] \<and> list_all (\<lambda>p. clean_name p \<and> list_all (\<lambda>c. (of_char c :: nat) \<ge> 32) p) ps"

text \<open>
  A git repository: its objects and references, and what the manuals of the commands say they do.
  \<open>ref_ok\<close> are the reference names git accepts, \<open>max_depth\<close> is \<^verbatim>\<open>core.maxTreeDepth\<close>.
\<close>

lemma git_types_word: "no_space ''tree''" "no_space ''blob''"
  by (rule ascii_word_no_space, simp add: is_space_def)+

locale git_repo =
  fixes sha :: "string \<Rightarrow> string" and inflate :: "string \<Rightarrow> (string \<times> string) option"
    and G :: "'g git_cmds" and objs :: "'g \<Rightarrow> objects" and refs :: "'g \<Rightarrow> string \<Rightarrow> string option"
    and name_ok ref_ok :: "string \<Rightarrow> bool" and max_depth :: nat
  assumes sha_length: "length (sha x) = 20" and ref_plain: "ref_ok r \<Longrightarrow> r \<noteq> [] \<and> no_space r"
    and batch_check: "list_all (\<lambda>h. length h = 20) hs \<Longrightarrow> g_batch_check G g (chk_input hs) = Inr (batch_answer (objs g) hs, None)"
    and index_pack: "parse_pack sha inflate p = Some os \<Longrightarrow> strict_pack sha name_ok (objs g) os \<Longrightarrow>
      \<exists>g'. g_index_pack G g p = (None, g') \<and> objs g' = add_objs sha os (objs g) \<and> refs g' = refs g"
    and update_ref: "ref_ok r \<Longrightarrow> ref_free (refs g) r \<Longrightarrow> length h = 20 \<Longrightarrow> objs g h \<noteq> None \<Longrightarrow>
      \<exists>g'. g_update_ref G g r (hex_encode h) = (None, g') \<and> objs g' = objs g \<and> refs g' = (refs g)(r \<mapsto> h)"
    and hash_object: "no_clash sha (objs g) [(''blob'', c)] \<Longrightarrow>
      \<exists>g'. g_hash_object G g c = (Inr (hex_encode (mkObjRef sha ''blob'' c) @ [NL]), g') \<and>
        objs g' = add_objs sha [(''blob'', c)] (objs g) \<and> refs g' = refs g"
    and rev_path: "rev_names ref_ok (refs g) b h \<Longrightarrow> plain_path ps \<Longrightarrow> git_lookup (objs g) ''40000'' h ps = Some (m, r) \<Longrightarrow>
      objs g r = Some (ty, c) \<Longrightarrow> g_cat_file G g (b @ '':'' @ join_on slash ps) = cat_response (git_present r ty c)"
    and rev_no_path: "rev_names ref_ok (refs g) b h \<Longrightarrow> objs g h = Some (''tree'', t) \<Longrightarrow> plain_path ps \<Longrightarrow>
      git_lookup (objs g) ''40000'' h ps = None \<Longrightarrow>
      g_cat_file G g (b @ '':'' @ join_on slash ps) = cat_response (git_missing (b @ '':'' @ join_on slash ps))"
    and rev_tree: "ref_ok r \<Longrightarrow> refs g r = Some h \<Longrightarrow> objs g h = Some (''tree'', c) \<Longrightarrow>
      g_cat_file G g (r @ ''^{tree}'') = cat_response (git_present h ''tree'' c)"
    and rev_ref: "ref_ok r \<Longrightarrow> refs g r = Some h \<Longrightarrow> objs g h = Some (ty, c) \<Longrightarrow> g_cat_file G g r = cat_response (git_present h ty c)"
    and rev_no_ref: "ref_ok r \<Longrightarrow> ref_absent (refs g) r \<Longrightarrow> x \<in> {[], ''^{tree}'', '':info''} \<Longrightarrow>
      g_cat_file G g (r @ x) = cat_response (git_missing (r @ x))"
    and ls_tree: "length h = 20 \<Longrightarrow> git_lookup (objs g) ''40000'' h [''zip''] = Some (''40000'', z) \<Longrightarrow>
      git_ls max_depth (objs g) [] z = Some es \<Longrightarrow> g_ls_tree G g (hex_encode h @ '':zip'') = Inr (ls_output es)"
begin

lemma cat_present:
  assumes "length h = 20" "ty \<in> {''tree'', ''blob''}" "int (length c) \<le> maxObjSize"
  shows "cat_response (git_present h ty c) = Resp_Obj ty c h"
  using read_present [where rest = "[]", OF assms(1) _ _ _ assms(3), of ty] assms(2) git_types_word by (auto simp: cat_response_def)

lemma cat_missing:
  assumes "no_space rv" "rv \<noteq> []"
  shows "cat_response (git_missing rv) = Resp_Missing"
  using read_missing [OF assms, of "[]"] by (simp add: cat_response_def)

text \<open>The handle of a tree in the repository.\<close>

lemma tree_handle:
  assumes "good_ParseInt PI" "present sha (objs g) T" "plain_tree ok T" "tree_lookup ''40000'' T [''zip''] = Some (''40000'', GTree es)" "depth_ok max_depth (GTree es)"
  shows "\<exists>mh. newModHandle PI G g (gref sha T) = Ok mh \<and> handle_of_ls (gref sha T) (tree_ls sha (objs g) [] (GTree es)) mh"
proof -
  have p: "present sha (objs g) (GTree es)" "plain_tree ok (GTree es)"
    using tree_lookup_present [OF assms(2,4)] plain_lookup [OF assms(3,4)] by blast+
  have l: "git_ls max_depth (objs g) [] (gref sha (GTree es)) = Some (tree_ls sha (objs g) [] (GTree es))"
    by (rule git_ls_present [OF sha_length p refl assms(5)])
  have "git_lookup (objs g) ''40000'' (gref sha T) [''zip''] = Some (''40000'', gref sha (GTree es))"
    using git_lookup_present [OF sha_length assms(2) plain_wf [OF assms(3)]] assms(4) by (simp only: option.map prod.case)
  from ls_tree [OF gref_length [OF sha_length] this l]
  have "g_ls_tree G g (hex_encode (gref sha T) @ '':zip'') = Inr (ls_output (tree_ls sha (objs g) [] (GTree es)))" .
  moreover have "list_all entry_ok (tree_ls sha (objs g) [] (GTree es))"
    using tree_listing_ok [OF sha_length p] by (simp add: listing_ok_def)
  ultimately show ?thesis by (intro newModHandle_listing [OF assms(1)])
qed

lemma zip_path: "ps \<noteq> [] \<Longrightarrow> '':zip/'' @ join_on slash ps = '':'' @ join_on slash (''zip'' # ps)"
  by (cases ps) simp_all

text \<open>What the operations on a handle answer, for each kind of place in the module's tree.\<close>

lemma handle_file:
  assumes T: "present sha (objs g) T" "plain_tree ok T" "tree_lookup ''40000'' T [''zip''] = Some (''40000'', GTree es)"
    and mh: "handle_of_ls (gref sha T) (tree_ls sha (objs g) [] (GTree es)) mh"
    and f: "tree_lookup ''40000'' (GTree es) ps = Some (m, GBlob c)" "plain_path ps"
  shows "git_GetFile G g mh (join_on slash ps) = Inr (to_bytes c)"
    "git_Stat mh (join_on slash ps) = Inr \<lparr>fi_name = last ps, fi_size = int (length c), fi_mode = fileModeFromGitOctalBytes (ls_mode m)\<rparr>"
proof -
  let ?Z = "GTree es" and ?L = "tree_ls sha (objs g) [] (GTree es)" and ?d = "join_on slash ps"
  have Z: "present sha (objs g) ?Z" "plain_tree ok ?Z" using tree_lookup_present [OF T(1,3)] plain_lookup [OF T(2,3)] by blast+
  have ne: "ps \<noteq> []" "list_all clean_name ps" using f(2) by (auto simp: plain_path_def list_all_iff)
  have b: "objs g (gref sha (GBlob c)) = Some (''blob'', c)" by (rule present_top(2) [OF tree_lookup_present [OF Z(1) f(1)]])
  have fit: "mode_fits m (GBlob c)" "plain_tree ok (GBlob c)" using plain_lookup [OF Z(2) f(1)] ne by blast+
  let ?e = "ls_ent (objs g) ps m (gref sha (GBlob c))"
  have e: "?e \<in> set ?L" by (rule tree_ls_intro [OF Z(2) ne(1) f(1)])
  have "l_mode ?e \<noteq> ''040000''" using ls_mode_fits(2) [OF fit(1)] by (simp add: ls_ent_def)
  moreover have "m \<noteq> ''40000''" using fit(1) by (auto simp: mode_fits_def)
  ultimately show "git_Stat mh ?d = Inr \<lparr>fi_name = last ps, fi_size = int (length c), fi_mode = fileModeFromGitOctalBytes (ls_mode m)\<rparr>"
    using stat_listing(1) [OF tree_listing_ok [OF sha_length Z] mh e] b by (simp add: ls_ent_def)
  have "{x. tree_lookup ''40000'' ?Z (ps @ [x]) \<noteq> None} = {}" using f(1) tree_lookup_append [of "''40000''" ?Z ps] by simp
  then have nd: "map_of (mh_dirEnts mh) ?d = None"
    using mh ls_children_names(1) [OF Z(2) ne(2), of sha "objs g" "''40000''"] by (simp add: handle_of_ls_def)
  have "tree_lookup ''40000'' T (''zip'' # ps) = Some (m, GBlob c)"
    using tree_lookup_append [of "''40000''" T "[''zip'']" ps] T(3) f(1) by simp
  then have "git_lookup (objs g) ''40000'' (gref sha T) (''zip'' # ps) = Some (m, gref sha (GBlob c))"
    using git_lookup_present [OF sha_length T(1) plain_wf [OF T(2)]] by (simp only: option.map prod.case)
  moreover have "plain_path (''zip'' # ps)" using f(2) by (simp add: plain_path_def clean_name_def)
  moreover have "rev_names ref_ok (refs g) (hex_encode (gref sha T)) (gref sha T)"
    by (simp add: rev_names_def gref_length [OF sha_length])
  ultimately have "g_cat_file G g (hex_encode (gref sha T) @ '':zip/'' @ ?d) = cat_response (git_present (gref sha (GBlob c)) ''blob'' c)"
    using rev_path [OF _ _ _ b] unfolding zip_path [OF ne(1)] by blast
  also have "\<dots> = Resp_Obj ''blob'' c (gref sha (GBlob c))"
    by (rule cat_present [OF gref_length [OF sha_length]]) (use fit(2) in simp_all)
  finally show "git_GetFile G g mh ?d = Inr (to_bytes c)"
    using nd mh by (simp add: git_GetFile_def getObject_def anyType_def handle_of_ls_def)
qed

lemma handle_dir:
  assumes T: "present sha (objs g) T" "plain_tree ok T" "tree_lookup ''40000'' T [''zip''] = Some (''40000'', GTree es)"
    and mh: "handle_of_ls (gref sha T) (tree_ls sha (objs g) [] (GTree es)) mh"
    and ps: "list_all clean_name ps"
  shows "tree_lookup ''40000'' (GTree es) (ps @ [x]) = Some y \<Longrightarrow>
      git_GetFile G g mh (join_on slash ps) = Inl ErrIsDir \<and>
      git_Stat mh (join_on slash ps) = Inr \<lparr>fi_name = path_Base (join_on slash ps), fi_size = 0, fi_mode = \<lparr>is_dir = True, perm = 493\<rparr>\<rparr>"
    and "tree_lookup ''40000'' (GTree es) ps = None \<Longrightarrow> git_Stat mh (join_on slash ps) = Inl ErrNotExist"
    and "\<exists>ents. git_Readdir mh (join_on slash ps) = Inr ents \<and> distinct (map d_name ents) \<and>
      set (map d_name ents) = {x. tree_lookup ''40000'' (GTree es) (ps @ [x]) \<noteq> None}"
proof -
  let ?Z = "GTree es" and ?L = "tree_ls sha (objs g) [] (GTree es)" and ?d = "join_on slash ps"
  have Z: "present sha (objs g) ?Z" "plain_tree ok ?Z" using tree_lookup_present [OF T(1,3)] plain_lookup [OF T(2,3)] by blast+
  note lok = tree_listing_ok [OF sha_length Z]
  have D: "map_of (mh_dirEnts mh) d = (if ls_children ?L d = [] then None else Some (ls_children ?L d))" for d
    using mh by (simp add: handle_of_ls_def)
  note names = ls_children_names(1) [OF Z(2) ps, of sha "objs g" "''40000''"] ls_children_names(2) [OF Z(2) ps, of sha "objs g"]
  show "git_GetFile G g mh ?d = Inl ErrIsDir \<and>
      git_Stat mh ?d = Inr \<lparr>fi_name = path_Base ?d, fi_size = 0, fi_mode = \<lparr>is_dir = True, perm = 493\<rparr>\<rparr>"
    if "tree_lookup ''40000'' ?Z (ps @ [x]) = Some y"
  proof -
    have "x \<in> {x. tree_lookup ''40000'' ?Z (ps @ [x]) \<noteq> None}" using that by simp
    then have "ls_children ?L ?d \<noteq> []" unfolding names(1) [symmetric] by auto
    then show ?thesis using stat_listing(2) [OF lok mh] by (simp add: git_GetFile_def D)
  qed
  show "git_Stat mh ?d = Inl ErrNotExist" if n: "tree_lookup ''40000'' ?Z ps = None"
  proof (rule stat_listing(3) [OF lok mh])
    show "ls_children ?L ?d = []" using names(1) n tree_lookup_append [of "''40000''" ?Z ps] by simp
    show "?d \<notin> (\<lambda>e. join_on slash (l_path e)) ` set ?L"
    proof
      assume "?d \<in> (\<lambda>e. join_on slash (l_path e)) ` set ?L"
      then obtain e where e: "e \<in> set ?L" "?d = join_on slash (l_path e)" by blast
      show False
        by (rule tree_ls_entry [OF Z(2) e(1), of "''40000''"]) (use e(2) n join_inj [OF _ ps] in auto)
    qed
  qed
  show "\<exists>ents. git_Readdir mh ?d = Inr ents \<and> distinct (map d_name ents) \<and> set (map d_name ents) = {x. tree_lookup ''40000'' ?Z (ps @ [x]) \<noteq> None}"
    using names by (auto simp: git_Readdir_def D)
qed

end

text \<open>A tree whose objects are all there passes the strict check.\<close>

lemma gref_object:
  "\<exists>c. (case t of GTree _ \<Rightarrow> ''tree'' | GBlob _ \<Rightarrow> ''blob'', c) \<in> set (gobjs sha t) \<and>
     gref sha t = mkObjRef sha (case t of GTree _ \<Rightarrow> ''tree'' | GBlob _ \<Rightarrow> ''blob'') c"
  by (cases t) (auto simp: gref_GTree)

lemma entry_link:
  assumes "plain_tree ok (GTree es)" "present sha obs (GTree es)" "hash_ok sha (set (gobjs sha (GTree es)))" "(m, n, t) \<in> set es"
  shows "link_ok obs m (gref sha t)"
proof -
  obtain ty c where c: "ty = (case t of GTree _ \<Rightarrow> ''tree'' | GBlob _ \<Rightarrow> ''blob'')" "(ty, c) \<in> set (gobjs sha t)" "gref sha t = mkObjRef sha ty c"
    using gref_object [of t sha] by blast
  then have "(ty, c) \<in> set (gobjs sha (GTree es))" using gobjs_sub [OF assms(4)] by blast
  then have "obs (gref sha t) = Some (ty, c)" "gref sha t \<noteq> zeroRef" using assms(2,3) c(3) by (auto simp: present_def hash_ok_def)
  moreover have "m = ''40000'' \<longleftrightarrow> (\<exists>es. t = GTree es)" "m \<in> {''40000'', ''100644'', ''100755''}"
    using plain_entry(4,5) [OF assms(1,4)] by blast+
  ultimately show ?thesis using c(1) by (cases t) (auto simp: link_ok_def)
qed

lemma strict_top:
  assumes "\<And>x. length (sha x) = 20" "plain_tree ok (GTree es)" "present sha obs (GTree es)" "hash_ok sha (set (gobjs sha (GTree es)))"
  shows "strict_tree ok obs (gbytes sha es)"
proof -
  have "map ent_key (map (\<lambda>(m, n, t). (m, n, gref sha t)) es) = map ent_key es" by (auto simp: ent_key_def)
  moreover have "map (\<lambda>(m, n, h). n) (map (\<lambda>(m, n, t). (m, n, gref sha t)) es) = map (\<lambda>(m, n, t). n) es" by auto
  moreover have "list_all (\<lambda>(m, n, h). clean_name n \<and> ok n \<and> link_ok obs m h) (map (\<lambda>(m, n, t). (m, n, gref sha t)) es)"
    using entry_link [OF assms(2-4)] plain_entry(1,2) [OF assms(2)] by (force simp: list_all_iff)
  ultimately show ?thesis
    using assms(2) unfolding strict_tree_def parse_tree_gbytes [OF assms(1) plain_wf [OF assms(2)]] option.case plain_tree.simps by presburger
qed

lemma hash_ok_mono: "hash_ok sha S \<Longrightarrow> S' \<subseteq> S \<Longrightarrow> hash_ok sha S'"
  unfolding hash_ok_def by (blast intro: inj_on_subset)

lemma strict_objects:
  assumes "\<And>x. length (sha x) = 20"
  shows "plain_tree ok T \<Longrightarrow> present sha obs T \<Longrightarrow> hash_ok sha (set (gobjs sha T)) \<Longrightarrow> (''tree'', c) \<in> set (gobjs sha T) \<Longrightarrow> strict_tree ok obs c"
proof (induction T rule: tree_cases_induct)
  case (tree es)
  show ?case
  proof (cases "c = gbytes sha es")
    case True
    then show ?thesis using strict_top [OF assms tree.prems(1-3)] by simp
  next
    case False
    then obtain m n t where e: "(m, n, t) \<in> set es" "(''tree'', c) \<in> set (gobjs sha t)" using tree.prems(4) by auto
    show ?thesis
      by (rule tree.IH [OF e(1) plain_entry(3) [OF tree.prems(1) e(1)] present_sub [OF tree.prems(2) e(1)]
          hash_ok_mono [OF tree.prems(3) gobjs_sub [OF e(1)]] e(2)])
  qed
qed simp

lemma no_clashD: "no_clash sha obs os \<Longrightarrow> (ty, c) \<in> set os \<Longrightarrow> obs (mkObjRef sha ty c) \<in> {None, Some (ty, c)}"
  unfolding no_clash_def list_all_iff by (drule bspec, assumption) simp

text \<open>The objects of a builder once those that were missing are added.\<close>

definition obj_of :: "treeBuilder \<Rightarrow> string \<Rightarrow> string \<times> string" where
  "obj_of tb h = (let ob = the (map_of (hashSet tb) h) in (o_typ ob, o_content ob))"

definition missing_of :: "treeBuilder \<Rightarrow> objects \<Rightarrow> string list" where
  "missing_of tb obs = filter (\<lambda>h. obs h = None) (hashes tb)"

lemma builder_object:
  assumes "tb_inv sha (set os) files tb" "h \<in> set (hashes tb)"
  obtains ty c where "(ty, c) \<in> set os" "h = mkObjRef sha ty c" "map_of (hashSet tb) h = Some \<lparr>o_typ = ty, o_content = c, o_hash = h\<rparr>" "obj_of tb h = (ty, c)"
proof -
  obtain ob where ob: "map_of (hashSet tb) h = Some ob" using assms by (auto simp: tb_inv_def dom_def)
  then have "(o_typ ob, o_content ob) \<in> set os" "o_hash ob = h" "h = mkObjRef sha (o_typ ob) (o_content ob)"
    using assms(1) unfolding tb_inv_def by blast+
  then show thesis using that [of "o_typ ob" "o_content ob"] ob by (simp add: obj_of_def)
qed

lemma added_objects:
  assumes "tb_inv sha (set os) files tb" "no_clash sha obs os"
  defines "ms \<equiv> missing_of tb obs"
  shows "add_objs sha (map (obj_of tb) ms) obs = obs ++ ((Some \<circ> obj_of tb) |` set ms)"
    and "h \<in> set (hashes tb) \<Longrightarrow> add_objs sha (map (obj_of tb) ms) obs h = Some (obj_of tb h)"
    and "obs \<subseteq>\<^sub>m add_objs sha (map (obj_of tb) ms) obs"
proof -
  have k: "(\<lambda>(ty, c). (mkObjRef sha ty c, ty, c)) (obj_of tb h) = (h, obj_of tb h)" if h: "h \<in> set ms" for h
  proof -
    have "h \<in> set (hashes tb)" using h by (simp add: ms_def missing_of_def)
    from builder_object [OF assms(1) this] show ?thesis by (metis (mono_tags, lifting) case_prod_conv)
  qed
  have "map (\<lambda>(ty, c). (mkObjRef sha ty c, ty, c)) (map (obj_of tb) ms) = map (\<lambda>h. (h, obj_of tb h)) ms" using k by simp
  then show e: "add_objs sha (map (obj_of tb) ms) obs = obs ++ ((Some \<circ> obj_of tb) |` set ms)"
    unfolding add_objs_def by (simp only: map_of_map_restrict)
  show "add_objs sha (map (obj_of tb) ms) obs h = Some (obj_of tb h)" if h: "h \<in> set (hashes tb)"
  proof (cases "obs h = None")
    case True
    then show ?thesis using h unfolding e by (simp add: ms_def missing_of_def map_add_def)
  next
    case False
    obtain ty c where c: "(ty, c) \<in> set os" "h = mkObjRef sha ty c" "obj_of tb h = (ty, c)" by (rule builder_object [OF assms(1) h])
    have "obs h \<in> {None, Some (ty, c)}" using no_clashD [OF assms(2) c(1)] c(2) by simp
    then show ?thesis using False c(3) unfolding e by (simp add: ms_def missing_of_def map_add_def restrict_map_def)
  qed
  show "obs \<subseteq>\<^sub>m add_objs sha (map (obj_of tb) ms) obs"
    unfolding e by (auto simp: map_le_def map_add_def ms_def missing_of_def restrict_map_def)
qed

text \<open>Objects the helper can read, of the types the store writes.\<close>

definition small_objects :: "(string \<times> string) list \<Rightarrow> bool" where
  "small_objects os \<longleftrightarrow> list_all (\<lambda>(ty, c). (ty = ''tree'' \<or> ty = ''blob'') \<and> int (length c) \<le> maxObjSize) os \<and> length os < 2 ^ 32"

lemma small_object: "small_objects os \<Longrightarrow> (ty, c) \<in> set os \<Longrightarrow> (ty = ''tree'' \<or> ty = ''blob'') \<and> int (length c) \<le> maxObjSize"
  unfolding small_objects_def list_all_iff by blast

lemma builder_sendable:
  assumes "\<And>x. length (sha x) = 20" "tb_inv sha (set os) files tb" "small_objects os"
  shows "sendable tb"
proof -
  have "length h = 20 \<and> (case map_of (hashSet tb) h of Some ob \<Rightarrow> o_typ ob = ''tree'' \<or> o_typ ob = ''blob'' | None \<Rightarrow> False)"
    if "h \<in> set (hashes tb)" for h
    by (rule builder_object [OF assms(2) that]) (use assms(1) small_object [OF assms(3)] in \<open>auto simp: mkObjRef_def\<close>)
  moreover have "length (hashes tb) < 2 ^ 32"
  proof -
    have "set (hashes tb) \<subseteq> (\<lambda>(ty, c). mkObjRef sha ty c) ` set os"
    proof
      fix h assume "h \<in> set (hashes tb)"
      then show "h \<in> (\<lambda>(ty, c). mkObjRef sha ty c) ` set os" by (rule builder_object [OF assms(2)]) force
    qed
    then have "card (set (hashes tb)) \<le> card ((\<lambda>(ty, c). mkObjRef sha ty c) ` set os)" by (intro card_mono) simp_all
    also have "\<dots> \<le> length os" by (metis card_image_le card_length le_trans List.finite_set)
    finally have "length (hashes tb) \<le> length os" using assms(2) distinct_card [of "hashes tb"] unfolding tb_inv_def by linarith
    then show ?thesis using assms(3) unfolding small_objects_def by linarith
  qed
  ultimately show ?thesis unfolding sendable_def list_all_iff by blast
qed

context git_repo
begin

lemma objects_sent:
  assumes "\<And>c r. inflate (zlib c @ r) = Some (c, r)" "tb_inv sha (set os) files tb" "small_objects os" "no_clash sha (objs g) os"
    and "strict_pack sha name_ok (objs g) (map (obj_of tb) (missing_of tb (objs g)))"
  shows "\<exists>st g'. sendToGit sha zlib G tb g = (Ok st, g') \<and> objs g' = add_objs sha (map (obj_of tb) (missing_of tb (objs g))) (objs g) \<and> refs g' = refs g"
proof -
  let ?has = "objs g |` set (hashes tb)"
  have s: "sendable tb" by (rule builder_sendable [OF sha_length assms(2,3)])
  then have l20: "list_all (\<lambda>h. length h = 20) (hashes tb)" by (simp add: sendable_def list_all_iff)
  have "batch_answer (objs g) (hashes tb) = batch_answer ?has (hashes tb)"
    unfolding batch_answer_def by (intro arg_cong [where f = concat] map_cong) (simp_all add: batch_line_def)
  then have bc: "g_batch_check G g (chk_input (hashes tb)) = Inr (batch_answer ?has (hashes tb), None)" using batch_check [OF l20, of g] by simp
  have pl: "plain_objs ?has"
  proof (unfold plain_objs_def, intro allI impI)
    fix h ty c assume h: "?has h = Some (ty, c)"
    then have i: "h \<in> set (hashes tb)" and o: "objs g h = Some (ty, c)" by (auto simp: restrict_map_def split: if_splits)
    obtain ty' c' where c: "(ty', c') \<in> set os" "h = mkObjRef sha ty' c'" by (rule builder_object [OF assms(2) i])
    have "objs g h \<in> {None, Some (ty', c')}" using no_clashD [OF assms(4) c(1)] c(2) by simp
    then show "(ty = ''tree'' \<or> ty = ''blob'') \<and> length c < 10 ^ 19"
      using small_object [OF assms(3) c(1)] o by (auto simp: maxObjSize_def push_bit_eq_mult)
  qed
  have m: "filter (\<lambda>h. ?has h = None) (hashes tb) = missing_of tb (objs g)"
    by (simp add: missing_of_def cong: filter_cong)
  have o: "map (\<lambda>h. let ob = the (map_of (hashSet tb) h) in (o_typ ob, o_content ob)) ms = map (obj_of tb) ms" for ms
    by (simp add: obj_of_def)
  note send = sendToGit_missing [where inflate = inflate and zlib = zlib and sha = sha, OF assms(1) pl s bc, unfolded m o]
  show ?thesis
  proof (cases "missing_of tb (objs g) = []")
    case True
    then show ?thesis using send by (simp add: add_objs_def)
  next
    case False
    then obtain p st where p: "parse_pack sha inflate p = Some (map (obj_of tb) (missing_of tb (objs g)))"
      "sendToGit sha zlib G tb g = (case g_index_pack G g p of (None, g1) \<Rightarrow> (Ok st, g1) | (Some e, g1) \<Rightarrow> (Fail (Wrap ''failed to run git index-pack'' [e]), g1))"
      using send by auto
    then show ?thesis using index_pack [OF p(1) assms(5)] by auto
  qed
qed

end

end
