(* ===== verification/Git_Roundtrip.thy ===== *)
theory Git_Roundtrip
  imports Git_Repo
begin

text \<open>
  The store on git as a whole: in any repository that keeps the laws of \<^theory_text>\<open>Git_Repo\<close>, what \<^verbatim>\<open>PutModule\<close>,
  \<^verbatim>\<open>PutModFile\<close> and \<^verbatim>\<open>PutInfoFile\<close> put is what the reading operations give back.  The tree of a module is
  shown to pass git's strict check and to be listed completely; a repository in memory shows that the
  laws can be kept.
\<close>

section \<open>The tree of a module is plain\<close>

definition plain_file :: "(string \<Rightarrow> bool) \<Rightarrow> nat \<Rightarrow> string \<times> fileInfo \<Rightarrow> bool" where
  "plain_file ok d f \<longleftrightarrow> list_all (\<lambda>p. clean_name p \<and> NUL \<notin> set p \<and> ok p) (split_on slash (fst f)) \<and>
     length (split_on slash (fst f)) \<le> d \<and> int (length (b_contents (snd f))) \<le> maxObjSize"

lemma blob_mode_cases: "blob_mode fi = ''100644'' \<or> blob_mode fi = ''100755''"
  by (simp add: blob_mode_def)

lemma ent_of_key: "ent_key (ent_of n files dir v) = view_key v"
proof -
  have "blob_mode fi \<noteq> ''40000''" for fi using blob_mode_cases [of fi] by auto
  then show ?thesis by (cases v) (simp add: ent_of_def ent_key_def view_key_def split: option.split)
qed

lemma dir_views_sorted: "no_conflict files \<Longrightarrow> sorted (map view_key (dir_views files dir))"
  using dirEnts_ok [of files dir] dirEnts_sorted_views(1) [of _ files dir] by (auto simp: dir_views_def)

lemma split_tail:
  assumes "dir = [] \<or> last dir = slash" "f = dir @ s"
  shows "\<exists>pre. split_on slash f = pre @ split_on slash s"
proof (cases "dir = []")
  case False
  then obtain d where "dir = d @ [slash]" using assms(1) by (metis append_butlast_last_id)
  then show ?thesis using assms(2) by (simp add: split_on_append2)
qed (use assms in simp)

text \<open>A name in a directory is a segment of the name of a file below it.\<close>

lemma view_below:
  assumes "no_conflict files" "v \<in> set (dir_views files dir)"
  obtains s fi where "(dir @ s, fi) \<in> set files" "\<exists>q. split_on slash s = fst v # q \<and> (snd v = None \<longrightarrow> (\<exists>r. s = fst v @ slash # r \<and> q = split_on slash r))"
    "snd v \<noteq> None \<longrightarrow> snd v = Some fi"
proof (cases "snd v")
  case None
  then have "(fst v, None) \<in> set (dir_views files dir)" using assms(2) by (metis prod.collapse)
  then obtain f where f: "slash \<notin> set (fst v)" "f \<in> set (map fst files)" "prefix (dir @ fst v @ [slash]) f"
    unfolding views_iff(2) [OF assms(1)] by blast
  then obtain r fi where "(dir @ fst v @ slash # r, fi) \<in> set files" by (force simp: prefix_def)
  moreover have "split_on slash (fst v @ slash # r) = fst v # split_on slash r" using f(1) by (simp add: split_on_append split_on_free)
  ultimately show thesis using None by (intro that) auto
next
  case (Some fi)
  then have "(fst v, Some fi) \<in> set (dir_views files dir)" using assms(2) by (metis prod.collapse)
  then show thesis using Some unfolding views_iff(1) [OF assms(1)] by (intro that [of "fst v" fi]) (auto simp: split_on_free)
qed

lemma plain_tree_of:
  assumes "no_conflict files" "list_all (plain_file ok d) files"
  shows "dir = [] \<or> last dir = slash \<Longrightarrow> plain_tree ok (tree_of n files dir)"
proof (induction n arbitrary: dir)
  case (Suc n)
  let ?es = "map (ent_of n files dir) (dir_views files dir)"
  have ne: "map (\<lambda>(m, n, t). n) ?es = map fst (dir_views files dir)" using ent_of_name [of n files dir] by (simp add: case_prod_beta')
  have v: "(\<lambda>(m, b, t). clean_name b \<and> NUL \<notin> set b \<and> ok b \<and>
       m \<in> (case t of GTree _ \<Rightarrow> {''40000''} | GBlob _ \<Rightarrow> {''100644'', ''100755''}) \<and> plain_tree ok t) (ent_of n files dir v)"
    if v: "v \<in> set (dir_views files dir)" for v
  proof (rule view_below [OF assms(1) v])
    fix s fi assume f: "(dir @ s, fi) \<in> set files" "\<exists>q. split_on slash s = fst v # q \<and> (snd v = None \<longrightarrow> (\<exists>r. s = fst v @ slash # r \<and> q = split_on slash r))"
      "snd v \<noteq> None \<longrightarrow> snd v = Some fi"
    have pf: "plain_file ok d (dir @ s, fi)" using assms(2) f(1) unfolding list_all_iff by blast
    obtain q where q: "split_on slash s = fst v # q" using f(2) by blast
    obtain pre where "split_on slash (dir @ s) = pre @ split_on slash s" using split_tail [OF Suc.prems refl] by blast
    then have nm: "clean_name (fst v)" "NUL \<notin> set (fst v)" "ok (fst v)" using pf q by (auto simp: plain_file_def)
    show ?thesis
    proof (cases "snd v")
      case None
      obtain k where k: "ent_of n files dir v = (''40000'', fst v, tree_of n files (dir @ fst v @ [slash]))"
        using None by (cases v) (simp add: ent_of_def)
      then show ?thesis using nm Suc.IH [of "dir @ fst v @ [slash]"] by (cases n) (auto simp: tree_of_Suc)
    next
      case (Some fi')
      then have "ent_of n files dir v = (blob_mode fi, fst v, GBlob (b_contents fi))" using f(3) by (cases v) (simp add: ent_of_def)
      then show ?thesis using nm pf blob_mode_cases [of fi] by (auto simp: plain_file_def)
    qed
  qed
  have "list_all (\<lambda>(m, b, t). clean_name b \<and> NUL \<notin> set b \<and> ok b \<and>
       m \<in> (case t of GTree _ \<Rightarrow> {''40000''} | GBlob _ \<Rightarrow> {''100644'', ''100755''}) \<and> plain_tree ok t) ?es"
    unfolding list_all_iff set_map by (rule ballI, elim imageE) (simp only: v)
  moreover have "sorted (map ent_key ?es)" using dir_views_sorted [OF assms(1), of dir] by (simp add: comp_def ent_of_key)
  moreover have "distinct (map (\<lambda>(m, n, t). n) ?es)" unfolding ne by (rule dir_views_set(2) [OF assms(1)])
  ultimately show ?case unfolding tree_of_Suc plain_tree.simps by blast
qed simp

lemma tree_of_GTree: "\<exists>es. tree_of n files dir = GTree es"
  by (cases n) (simp_all add: tree_of_Suc)

lemma tree_of_depth:
  assumes "no_conflict files"
  shows "deep_enough n files dir \<Longrightarrow> 0 < d \<Longrightarrow> (\<And>s fi. (dir @ s, fi) \<in> set files \<Longrightarrow> length (split_on slash s) \<le> d) \<Longrightarrow> depth_ok d (tree_of n files dir)"
proof (induction n arbitrary: dir d)
  case 0
  then show ?case by (simp add: deep_enough_def)
next
  case (Suc n)
  obtain k where d: "d = Suc k" using Suc.prems(2) by (cases d) auto
  have "depth_ok k (snd (snd (ent_of n files dir v)))" if v: "v \<in> set (dir_views files dir)" for v
  proof (cases "snd v")
    case (Some fi)
    then show ?thesis by (cases v) (simp add: ent_of_def)
  next
    case None
    have "depth_ok k (tree_of n files (dir @ fst v @ [slash]))"
    proof (rule view_below [OF assms v])
      fix s fi assume f: "(dir @ s, fi) \<in> set files" "\<exists>q. split_on slash s = fst v # q \<and> (snd v = None \<longrightarrow> (\<exists>r. s = fst v @ slash # r \<and> q = split_on slash r))"
      then obtain r where r: "s = fst v @ slash # r" "split_on slash s = fst v # split_on slash r" using None by blast
      have g: "length (split_on slash s') \<le> k" if "((dir @ fst v @ [slash]) @ s', fi') \<in> set files" for s' fi'
      proof -
        have "slash \<notin> set (fst v)" using v None views_iff(2) [OF assms, of "fst v" dir] by (metis prod.collapse)
        then show ?thesis using Suc.prems(3) [of "fst v @ slash # s'" fi'] that d by (simp add: split_on_append split_on_free)
      qed
      have "length (split_on slash r) \<le> k" using g [of r fi] f(1) r(1) by simp
      moreover have "split_on slash r \<noteq> []" by simp
      ultimately have "0 < k" by (cases k) auto
      moreover have "deep_enough n files (dir @ fst v @ [slash])"
        by (rule deep_enough_sub [OF Suc.prems(1), of "dir @ s"]) (use f(1) r(1) in \<open>force simp: prefix_def\<close>)+
      ultimately show ?thesis using Suc.IH [of "dir @ fst v @ [slash]" k] g by blast
    qed
    then show ?thesis using None by (cases v) (simp add: ent_of_def)
  qed
  then show ?case by (simp add: d tree_of_Suc list_all_iff case_prod_beta')
qed

section \<open>Putting a module\<close>

definition part_list :: "put_data \<Rightarrow> (string \<times> bytes option) list" where
  "part_list data = [(''ziphash'', ZipHash data), (''info'', InfoFile data), (''mod'', ModFile data)]"

definition put_adds :: "put_env \<Rightarrow> put_data \<Rightarrow> (string \<times> string \<times> fmode) list" where
  "put_adds P data = [(ext, str_of_bytes b, \<lparr>is_dir = False, perm = 420\<rparr>). (ext, Some b) \<leftarrow> pe_parts P (part_list data)] @
     map (\<lambda>f. (''zip/'' @ pf_path f, str_of_bytes (pf_content f), pf_mode f)) (Files data)"

definition put_files :: "put_env \<Rightarrow> put_data \<Rightarrow> (string \<times> fileInfo) list" where
  "put_files P data = files_of (pe_sha P) (put_adds P data)"

definition printable :: "string \<Rightarrow> bool" where
  "printable s \<longleftrightarrow> list_all (\<lambda>c. (of_char c :: nat) \<ge> 32) s"

text \<open>
  A module the repository can hold: it has files, none is also a directory, the names are clean,
  printable and accepted by git and not too deep, its objects are not too large or too many, and SHA-1 tells them apart.
\<close>

definition storable :: "(string \<Rightarrow> bool) \<Rightarrow> nat \<Rightarrow> put_env \<Rightarrow> put_data \<Rightarrow> bool" where
  "storable name_ok depth P data \<longleftrightarrow> Files data \<noteq> [] \<and> no_conflict (put_files P data) \<and>
     list_all (plain_file name_ok (Suc depth)) (put_files P data) \<and> list_all (\<lambda>f. printable (pf_path f)) (Files data) \<and>
     small_objects (module_objects (pe_sha P) (put_files P data)) \<and>
     hash_ok (pe_sha P) (set (module_objects (pe_sha P) (put_files P data)))"

lemma put_adds_readable: "part_files (pe_parts P (part_list data)) @ zip_files (Files data) = readable (put_adds P data)"
proof -
  have "part_files ps = readable [(ext, str_of_bytes b, \<lparr>is_dir = False, perm = 420\<rparr>). (ext, Some b) \<leftarrow> ps]" for ps
    by (induction ps) (auto simp: part_files_def readable_def split: option.split)
  then show ?thesis by (simp add: put_adds_def zip_files_def readable_def)
qed

lemma put_files_zip:
  "f \<in> set (Files data) \<Longrightarrow> (''zip/'' @ pf_path f, \<lparr>b_contents = str_of_bytes (pf_content f), b_mode = pf_mode f,
     b_gitHash = mkObjRef (pe_sha P) ''blob'' (str_of_bytes (pf_content f))\<rparr>) \<in> set (put_files P data)"
  unfolding put_files_def files_of_def put_adds_def set_map set_append image_Un by (rule UnI2) force

lemma put_files_part:
  assumes "mset (pe_parts P (part_list data)) = mset (part_list data)" "(ext, Some b) \<in> set (part_list data)"
  shows "(ext, \<lparr>b_contents = str_of_bytes b, b_mode = \<lparr>is_dir = False, perm = 420\<rparr>, b_gitHash = mkObjRef (pe_sha P) ''blob'' (str_of_bytes b)\<rparr>)
    \<in> set (put_files P data)"
proof -
  have "(ext, Some b) \<in> set (pe_parts P (part_list data))" using assms mset_eq_setD by blast
  then have "(ext, str_of_bytes b, \<lparr>is_dir = False, perm = 420\<rparr>) \<in> set (put_adds P data)" by (force simp: put_adds_def)
  then show ?thesis unfolding put_files_def files_of_def set_map by force
qed

lemma put_files_names:
  assumes "mset (pe_parts P (part_list data)) = mset (part_list data)" "n \<in> fst ` set (put_files P data)"
  shows "(\<exists>f \<in> set (Files data). n = ''zip/'' @ pf_path f) \<or> n \<in> {''ziphash'', ''info'', ''mod''}"
proof -
  have "n \<in> fst ` set (put_adds P data)" using assms(2) by (force simp: put_files_def files_of_def)
  then have "(\<exists>f \<in> set (Files data). n = ''zip/'' @ pf_path f) \<or> n \<in> fst ` set (pe_parts P (part_list data))"
    by (force simp: put_adds_def)
  then show ?thesis unfolding mset_eq_setD [OF assms(1)] by (auto simp: part_list_def)
qed

lemma plain_no_nul:
  assumes "plain_file ok d f"
  shows "NUL \<notin> set (fst f)"
proof -
  have j: "x \<in> set (join_on c ps) \<Longrightarrow> x \<noteq> c \<Longrightarrow> \<exists>p \<in> set ps. x \<in> set p" for x c ps
    by (induction c ps rule: join_on.induct) auto
  have "NUL \<notin> set p" if "p \<in> set (split_on slash (fst f))" for p using assms that by (auto simp: plain_file_def list_all_iff)
  then have "NUL \<notin> set (join_on slash (split_on slash (fst f)))" using j [of NUL slash "split_on slash (fst f)"] by auto
  then show ?thesis by simp
qed

lemma module_tree_plain:
  assumes "no_conflict files" "list_all (plain_file ok (Suc d)) files"
  shows "plain_tree ok (module_tree files)" "depth_ok (Suc d) (module_tree files)"
proof -
  show "plain_tree ok (module_tree files)" unfolding module_tree_def by (rule plain_tree_of [OF assms]) simp
  show "depth_ok (Suc d) (module_tree files)" unfolding module_tree_def
    by (rule tree_of_depth [OF assms(1) deep_enough_fuel]) (use assms(2) in \<open>auto simp: list_all_iff plain_file_def\<close>)
qed

lemma sub_view_cases:
  "map_option sub_view x = Some (m, Some c) \<longleftrightarrow> x = Some (m, GBlob c)"
  "map_option sub_view x = Some (m, None) \<longleftrightarrow> (\<exists>es. x = Some (m, GTree es))"
  by (auto simp: sub_view_def split: gtree.splits) (metis gtree.exhaust)+

text \<open>The directory \<^verbatim>\<open>zip\<close> of a module's tree.\<close>

lemma zip_dir:
  assumes "no_conflict (put_files P data)" "Files data \<noteq> []"
  obtains es where "tree_lookup ''40000'' (module_tree (put_files P data)) [''zip''] = Some (''40000'', GTree es)"
proof -
  let ?F = "put_files P data"
  obtain f where "f \<in> set (Files data)" using assms(2) by (cases "Files data") auto
  then have f: "''zip/'' @ pf_path f \<in> fst ` set ?F" using imageI [OF put_files_zip, of f data fst P] by simp
  then have "''zip'' \<notin> fst ` set ?F" using no_conflictD [OF assms(1), of "''zip''" "''zip/'' @ pf_path f"] by auto
  then have "map_of ?F ''zip'' = None" by (simp add: map_of_eq_None_iff)
  moreover have "list_ex (\<lambda>f. prefix (''zip'' @ [slash]) f) (map fst ?F)"
    unfolding list_ex_iff by (rule bexI [of _ "''zip/'' @ pf_path f"]) (use f in auto)
  ultimately have "file_view ?F ''zip'' = Some (''40000'', None)" by (simp add: file_view_def)
  then have "map_option sub_view (tree_lookup ''40000'' (module_tree ?F) [''zip'']) = Some (''40000'', None)"
    using tree_lookup_module [OF assms(1), of "[''zip'']" "''40000''"] by simp
  then show thesis unfolding sub_view_cases using that by blast
qed

lemma module_objects_typed: "(ty, c) \<in> set (module_objects sha files) \<Longrightarrow> ty = ''tree'' \<Longrightarrow> (ty, c) \<in> set (gobjs sha (module_tree files))"
  by (auto simp: module_objects_def)

lemma stored_added:
  assumes "tb_inv sha (set os) files tb" "no_clash sha obs os" "stored sha (hashSet tb) T"
  shows "present sha (add_objs sha (map (obj_of tb) (missing_of tb obs)) obs) T"
  unfolding present_def
proof (rule ballI)
  fix x assume "x \<in> set (gobjs sha T)"
  moreover obtain ty c where x: "x = (ty, c)" by (cases x)
  ultimately have m: "map_of (hashSet tb) (mkObjRef sha ty c) = Some \<lparr>o_typ = ty, o_content = c, o_hash = mkObjRef sha ty c\<rparr>"
    using assms(3) unfolding stored_def by blast
  then have "mkObjRef sha ty c \<in> set (hashes tb)" using assms(1) by (auto simp: tb_inv_def)
  from added_objects(2) [OF assms(1,2) this] m
  show "case x of (ty, c) \<Rightarrow> add_objs sha (map (obj_of tb) (missing_of tb obs)) obs (mkObjRef sha ty c) = Some (ty, c)"
    by (simp add: x obj_of_def)
qed

lemma builder_strict:
  assumes len: "\<And>x. length (sha x) = 20"
    and "tb_inv sha (set (module_objects sha files)) files tb" "no_clash sha obs (module_objects sha files)"
    and "stored sha (hashSet tb) (module_tree files)" "plain_tree ok (module_tree files)" "hash_ok sha (set (module_objects sha files))"
  shows "strict_pack sha ok obs (map (obj_of tb) (missing_of tb obs))"
proof -
  let ?os = "map (obj_of tb) (missing_of tb obs)"
  have i: "x \<in> set (module_objects sha files) \<and> add_objs sha ?os obs (mkObjRef sha (fst x) (snd x)) = Some x" if x: "x \<in> set ?os" for x
  proof -
    obtain h where h: "h \<in> set (hashes tb)" "x = obj_of tb h" using x by (auto simp: missing_of_def)
    show ?thesis by (rule builder_object [OF assms(2) h(1)]) (use added_objects(2) [OF assms(2,3) h(1)] h(2) in auto)
  qed
  note p = stored_added [OF assms(2-4)]
  have hk: "hash_ok sha (set (gobjs sha (module_tree files)))" by (rule hash_ok_mono [OF assms(6)]) (simp add: module_objects_def)
  have s: "strict_tree ok (add_objs sha ?os obs) c" if "(''tree'', c) \<in> set (module_objects sha files)" for c
    by (rule strict_objects [OF len assms(5) p hk module_objects_typed [OF that refl]])
  have "no_clash sha obs ?os" using assms(3) i unfolding no_clash_def list_all_iff by blast
  moreover have "list_all (\<lambda>(ty, c). add_objs sha ?os obs (mkObjRef sha ty c) = Some (ty, c) \<and>
       (ty = ''tree'' \<longrightarrow> strict_tree ok (add_objs sha ?os obs) c)) ?os"
    unfolding list_all_iff
  proof (rule ballI)
    fix x assume "x \<in> set ?os"
    moreover obtain ty c where "x = (ty, c)" by (cases x)
    ultimately show "case x of (ty, c) \<Rightarrow> add_objs sha ?os obs (mkObjRef sha ty c) = Some (ty, c) \<and>
       (ty = ''tree'' \<longrightarrow> strict_tree ok (add_objs sha ?os obs) c)" using i [of x] s [of c] by (auto simp del: set_map)
  qed
  ultimately show ?thesis unfolding strict_pack_def by blast
qed

context git_repo
begin

lemma module_put:
  assumes env: "pe_sha P = sha" "\<And>c r. inflate (pe_zlib P c @ r) = Some (c, r)" "\<And>d xs. mset (pe_files P d xs) = mset xs" "good_ParseInt PI"
    and ref: "refName X mv = Inr ref" "ref_ok ref" "ref_free (refs g) ref"
    and m: "storable name_ok max_depth P data" "no_clash sha (objs g) (module_objects sha (put_files P data))"
  shows "\<exists>mh g' es. git_PutModule X PI P G g mv data = (Ok mh, g') \<and> newModHandle PI G g' (gref sha (module_tree (put_files P data))) = Ok mh \<and>
    handle_of_ls (gref sha (module_tree (put_files P data))) (tree_ls sha (objs g') [] (GTree es)) mh \<and>
    tree_lookup ''40000'' (module_tree (put_files P data)) [''zip''] = Some (''40000'', GTree es) \<and>
    present sha (objs g') (module_tree (put_files P data)) \<and>
    objs g \<subseteq>\<^sub>m objs g' \<and> refs g' = (refs g)(ref \<mapsto> gref sha (module_tree (put_files P data)))"
proof -
  let ?F = "put_files P data" and ?T = "module_tree (put_files P data)"
  have F: "files_of sha (put_adds P data) = ?F" by (simp add: put_files_def env(1))
  have st: "Files data \<noteq> []" "no_conflict ?F" "list_all (plain_file name_ok (Suc max_depth)) ?F"
    "small_objects (module_objects sha ?F)" "hash_ok sha (set (module_objects sha ?F))"
    using m(1) by (auto simp: storable_def env(1))
  have nul: "list_all (\<lambda>a. NUL \<notin> set (fst a)) (put_adds P data)"
    using plain_no_nul st(3) unfolding F [symmetric] by (force simp: list_all_iff files_of_def)
  obtain tb tb' where t: "addFiles sha (readable (put_adds P data)) newTreeBuilder = (Ok (), tb)" "tb_f tb = ?F"
    "buildTree sha (pe_files P) (tree_fuel ?F) [] tb = Some (Ok (gref sha ?T), tb')"
    "tb_inv sha (set (module_objects sha ?F)) ?F tb'" "stored sha (hashSet tb') ?T"
    using module_tree_built [where ord = "pe_files P" and sha = sha and adds = "put_adds P data", unfolded F, OF env(3) st(2) nul st(5)] by blast
  note pl = module_tree_plain [OF st(2,3)]
  obtain st' g1 where s: "sendToGit sha (pe_zlib P) G tb' g = (Ok st', g1)"
    "objs g1 = add_objs sha (map (obj_of tb') (missing_of tb' (objs g))) (objs g)" "refs g1 = refs g"
    using objects_sent [OF env(2) t(4) st(4) m(2) builder_strict [OF sha_length t(4) m(2) t(5) pl(1) st(5)]] by blast
  have p1: "present sha (objs g1) ?T" unfolding s(2) by (rule stored_added [OF t(4) m(2) t(5)])
  obtain fs where T: "?T = GTree fs" using tree_of_GTree unfolding module_tree_def by blast
  then have "objs g1 (gref sha ?T) \<noteq> None" using present_top(1) [OF p1 [unfolded T]] by simp
  then obtain g2 where u: "g_update_ref G g1 ref (hex_encode (gref sha ?T)) = (None, g2)" "objs g2 = objs g1" "refs g2 = (refs g1)(ref \<mapsto> gref sha ?T)"
    using update_ref [OF ref(2), of g1 "gref sha ?T"] ref(3) s(3) gref_length [OF sha_length] by auto
  obtain es where es: "tree_lookup ''40000'' ?T [''zip''] = Some (''40000'', GTree es)" by (rule zip_dir [OF st(2,1)])
  then have "depth_ok max_depth (GTree es)"
    using pl(2) find_entry unfolding T by (fastforce simp: list_all_iff split: option.splits)
  then obtain mh where mh: "newModHandle PI G g2 (gref sha ?T) = Ok mh" "handle_of_ls (gref sha ?T) (tree_ls sha (objs g2) [] (GTree es)) mh"
    using tree_handle [OF env(4) p1 [folded u(2)] pl(1) es] by blast
  have "git_PutModule X PI P G g mv data = (Ok mh, g2)"
    unfolding git_PutModule_def ref(1) Let_def part_list_def [symmetric] put_adds_readable env(1)
    by (simp add: t s(1) u(1) mh(1))
  moreover have "objs g \<subseteq>\<^sub>m objs g2" using added_objects(3) [OF t(4) m(2)] by (simp add: u(2) s(2))
  ultimately show ?thesis using mh es p1 u s(3) by metis
qed

end

section \<open>Reading a module back\<close>

text \<open>A path without the steps the file system interprets; the names right below it in a module.\<close>

definition clean_path :: "string \<Rightarrow> bool" where
  "clean_path p \<longleftrightarrow> p = [] \<or> list_all clean_name (split_on slash p)"

definition below_path :: "string \<Rightarrow> string \<Rightarrow> string" where
  "below_path p x = (if p = [] then x else p @ slash # x)"

definition dir_names :: "put_file list \<Rightarrow> string \<Rightarrow> string set" where
  "dir_names fs p = {x. slash \<notin> set x \<and> (\<exists>f \<in> set fs. pf_path f = below_path p x \<or> prefix (below_path p x @ [slash]) (pf_path f))}"

definition git_mode :: "fmode \<Rightarrow> fmode" where
  "git_mode m = \<lparr>is_dir = False, perm = (if (perm m AND execBits) \<noteq> 0 then 493 else 420)\<rparr>"

lemma clean_path_join:
  assumes "clean_path p"
  obtains ps where "p = join_on slash ps" "list_all clean_name ps" "p = [] \<longleftrightarrow> ps = []"
proof (cases "p = []")
  case True
  then show thesis using that [of "[]"] by simp
next
  case False
  then show thesis using assms that [of "split_on slash p"] by (simp add: clean_path_def)
qed

lemma join_clean_empty: "list_all clean_name ps \<Longrightarrow> join_on slash ps = [] \<longleftrightarrow> ps = []"
  using join_inj [of ps "[]"] by auto

lemma below_path_join: "list_all clean_name ps \<Longrightarrow> below_path (join_on slash ps) x = join_on slash (ps @ [x])"
  using join_clean_empty [of ps] by (cases "ps = []") (simp_all add: below_path_def join_on_append)

lemma base_join: "list_all clean_name ps \<Longrightarrow> ps \<noteq> [] \<Longrightarrow> path_Base (join_on slash ps) = last ps"
proof (cases ps rule: rev_cases)
  case (snoc ss x)
  moreover assume "list_all clean_name ps"
  ultimately show ?thesis by (cases "ss = []") (simp_all add: path_Base_free path_Base_append join_on_append clean_name_def)
qed simp

lemma file_view_some: "file_view files n \<noteq> None \<longleftrightarrow> n \<in> fst ` set files \<or> (\<exists>f \<in> fst ` set files. prefix (n @ [slash]) f)"
proof (cases "map_of files n")
  case None
  then have "n \<notin> fst ` set files" by (simp add: map_of_eq_None_iff)
  then show ?thesis by (auto simp: file_view_def list_ex_iff None)
next
  case (Some fi)
  then show ?thesis using map_of_SomeD [OF Some] by (force simp: file_view_def)
qed

lemma zip_view:
  assumes "mset (pe_parts P (part_list data)) = mset (part_list data)"
  shows "file_view (put_files P data) (''zip/'' @ q) \<noteq> None \<longleftrightarrow> (\<exists>f \<in> set (Files data). pf_path f = q \<or> prefix (q @ [slash]) (pf_path f))"
proof -
  let ?N = "fst ` set (put_files P data)"
  have n: "''zip/'' @ s \<in> ?N \<longleftrightarrow> (\<exists>f \<in> set (Files data). pf_path f = s)" for s
  proof
    show "''zip/'' @ s \<in> ?N \<Longrightarrow> \<exists>f \<in> set (Files data). pf_path f = s" using put_files_names [OF assms, of "''zip/'' @ s"] by auto
    assume "\<exists>f \<in> set (Files data). pf_path f = s"
    then show "''zip/'' @ s \<in> ?N" using imageI [OF put_files_zip, of _ data fst P] by auto
  qed
  have ex: "(\<exists>f \<in> N. \<exists>zs. f = h zs) \<longleftrightarrow> (\<exists>r. h r \<in> N)" for N :: "string set" and h by blast
  have "file_view (put_files P data) (''zip/'' @ q) \<noteq> None \<longleftrightarrow> ''zip/'' @ q \<in> ?N \<or> (\<exists>f \<in> ?N. prefix ((''zip/'' @ q) @ [slash]) f)"
    by (rule file_view_some)
  also have "(\<exists>f \<in> ?N. prefix ((''zip/'' @ q) @ [slash]) f) \<longleftrightarrow> (\<exists>r. ''zip/'' @ q @ slash # r \<in> ?N)"
    unfolding prefix_def append_assoc append_Cons [of slash "[]"] append_Nil by (rule ex)
  finally show ?thesis unfolding n by (auto simp: prefix_def)
qed

lemma zip_lookup:
  assumes "no_conflict F" "tree_lookup ''40000'' (module_tree F) [''zip''] = Some (''40000'', GTree es)" "ps \<noteq> []" "list_all clean_name ps"
  shows "map_option sub_view (tree_lookup ''40000'' (GTree es) ps) = file_view F (''zip/'' @ join_on slash ps)"
proof -
  have "list_all (\<lambda>p. slash \<notin> set p) (''zip'' # ps)" using assms(4) by (auto simp: list_all_iff clean_name_def)
  from tree_lookup_module [OF assms(1) _ this, of "''40000''"]
  show ?thesis using tree_lookup_append [of "''40000''" "module_tree F" "[''zip'']" ps] assms(2,3) by (cases ps) simp_all
qed

lemma dir_names_clean:
  assumes "list_all (\<lambda>f. list_all clean_name (split_on slash (pf_path f))) fs" "list_all clean_name ps" "x \<in> dir_names fs (join_on slash ps)"
  shows "clean_name x"
proof -
  have s: "split_on slash (join_on slash (ps @ [x])) = ps @ [x]"
    using assms(2,3) by (intro split_join) (auto simp: dir_names_def list_all_iff clean_name_def)
  obtain f where f: "f \<in> set fs" "pf_path f = join_on slash (ps @ [x]) \<or> prefix (join_on slash (ps @ [x]) @ [slash]) (pf_path f)"
    using assms(3) by (auto simp: dir_names_def below_path_join [OF assms(2)])
  then have "x \<in> set (split_on slash (pf_path f))" using s by (auto simp: prefix_def split_on_append2)
  then show ?thesis using assms(1) f(1) by (auto simp: list_all_iff)
qed

lemma zip_child:
  assumes "mset (pe_parts P (part_list data)) = mset (part_list data)" "no_conflict (put_files P data)" "plain_tree ok (GTree es)"
    "tree_lookup ''40000'' (module_tree (put_files P data)) [''zip''] = Some (''40000'', GTree es)" "list_all clean_name ps"
    "list_all (\<lambda>f. list_all clean_name (split_on slash (pf_path f))) (Files data)"
  shows "{x. tree_lookup ''40000'' (GTree es) (ps @ [x]) \<noteq> None} = dir_names (Files data) (join_on slash ps)"
proof -
  have "tree_lookup ''40000'' (GTree es) (ps @ [x]) \<noteq> None \<longleftrightarrow> x \<in> dir_names (Files data) (join_on slash ps)" if x: "clean_name x" for x
  proof -
    have "list_all clean_name (ps @ [x])" using assms(5) x by simp
    from zip_lookup [OF assms(2,4) _ this] have "tree_lookup ''40000'' (GTree es) (ps @ [x]) \<noteq> None \<longleftrightarrow>
        file_view (put_files P data) (''zip/'' @ join_on slash (ps @ [x])) \<noteq> None" by (metis append_is_Nil_conv not_Cons_self2 option.map_disc_iff)
    then show ?thesis using x unfolding zip_view [OF assms(1)] by (simp add: dir_names_def below_path_join [OF assms(5)] clean_name_def)
  qed
  moreover have "clean_name x" if "tree_lookup ''40000'' (GTree es) (ps @ [x]) \<noteq> None" for x
    using that plain_lookup [OF assms(3), of "''40000''" "ps @ [x]"] by auto
  ultimately show ?thesis using dir_names_clean [OF assms(6,5)] by blast
qed

lemma join_subset: "p \<in> set ps \<Longrightarrow> set p \<subseteq> set (join_on c ps)"
  by (induction c ps rule: join_on.induct) auto

lemma plain_path_join:
  assumes "list_all clean_name ps" "ps \<noteq> []" "printable (join_on slash ps)"
  shows "plain_path ps"
  using assms join_subset [of _ ps slash] unfolding plain_path_def list_all_iff printable_def by blast

lemma no_names_below:
  assumes "f \<in> set fs" "prefix (p @ [slash]) (pf_path f)" "p \<noteq> []"
  shows "dir_names fs p \<noteq> {}"
proof -
  obtain r where r: "pf_path f = p @ slash # r" using assms(2) by (auto simp: prefix_def)
  obtain x t where x: "split_on slash r = x # t" by (cases "split_on slash r") auto
  have "r = join_on slash (x # t)" using join_split [of slash r] x by simp
  then have "r = x \<or> prefix (x @ [slash]) r" by (cases t) (auto simp: prefix_def)
  moreover have "slash \<notin> set x" using split_on_segs [of x slash r] x by simp
  ultimately have "x \<in> dir_names fs p" using assms(1,3) r by (force simp: dir_names_def below_path_def prefix_def)
  then show ?thesis by blast
qed

lemma storable_names:
  assumes "storable name_ok d P data" "f \<in> set (Files data)"
  shows "list_all clean_name (split_on slash (pf_path f))" "plain_path (split_on slash (pf_path f))"
proof -
  have "plain_file name_ok (Suc d) (''zip/'' @ pf_path f, \<lparr>b_contents = str_of_bytes (pf_content f), b_mode = pf_mode f,
     b_gitHash = mkObjRef (pe_sha P) ''blob'' (str_of_bytes (pf_content f))\<rparr>)"
    using assms(1) put_files_zip [OF assms(2), of P] unfolding storable_def list_all_iff by blast
  moreover have "split_on slash (''zip/'' @ pf_path f) = ''zip'' # split_on slash (pf_path f)"
    using split_on_append [of slash "''zip''" "pf_path f"] by simp
  ultimately show c: "list_all clean_name (split_on slash (pf_path f))" by (simp add: plain_file_def list_all_iff)
  have "printable (pf_path f)" using assms unfolding storable_def list_all_iff by blast
  then show "plain_path (split_on slash (pf_path f))" by (intro plain_path_join [OF c]) simp_all
qed

lemma git_mode_blob: "fileModeFromGitOctalBytes (ls_mode (blob_mode fi)) = git_mode (b_mode fi)"
  by (simp add: git_mode_def blob_mode_def ls_mode_def fileModeFromGitOctalBytes_def)

context git_repo
begin

lemma handle_no_file:
  assumes T: "present sha (objs g) T" "plain_tree ok T" "tree_lookup ''40000'' T [''zip''] = Some (''40000'', GTree es)"
    and mh: "handle_of_ls (gref sha T) (tree_ls sha (objs g) [] (GTree es)) mh"
    and p: "plain_path ps" "tree_lookup ''40000'' (GTree es) ps = None" "no_space (join_on slash ps)"
  shows "git_GetFile G g mh (join_on slash ps) = Inl ErrNotExist"
proof -
  let ?L = "tree_ls sha (objs g) [] (GTree es)" and ?rv = "hex_encode (gref sha T) @ '':zip/'' @ join_on slash ps"
  have ne: "ps \<noteq> []" "list_all clean_name ps" using p(1) by (auto simp: plain_path_def list_all_iff)
  have "{x. tree_lookup ''40000'' (GTree es) (ps @ [x]) \<noteq> None} = {}" using p(2) tree_lookup_append [of "''40000''" "GTree es" ps] by simp
  moreover have "plain_tree ok (GTree es)" using plain_lookup [OF T(2,3)] by blast
  ultimately have "ls_children ?L (join_on slash ps) = []" using ls_children_names(1) [OF _ ne(2), of ok "GTree es" sha "objs g" "''40000''"] by simp
  then have nd: "map_of (mh_dirEnts mh) (join_on slash ps) = None" using mh by (simp add: handle_of_ls_def)
  obtain fs where fs: "T = GTree fs" using T(3) by (cases T) auto
  have "tree_lookup ''40000'' T (''zip'' # ps) = None" using tree_lookup_append [of "''40000''" T "[''zip'']" ps] T(3) p(2) by simp
  then have "git_lookup (objs g) ''40000'' (gref sha T) (''zip'' # ps) = None"
    using git_lookup_present [OF sha_length T(1) plain_wf [OF T(2)]] by (simp only: option.map)
  moreover have "plain_path (''zip'' # ps)" using p(1) by (simp add: plain_path_def clean_name_def)
  moreover have "rev_names ref_ok (refs g) (hex_encode (gref sha T)) (gref sha T)"
    by (simp add: rev_names_def gref_length [OF sha_length])
  ultimately have "g_cat_file G g ?rv = cat_response (git_missing ?rv)"
    using rev_no_path [OF _ present_top(1) [OF T(1) [unfolded fs], folded fs]] unfolding zip_path [OF ne(1)] by blast
  also have "\<dots> = Resp_Missing" by (rule cat_missing) (use p(3) hex_word in \<open>simp_all add: no_space_ascii_append space_width_ascii is_space_def\<close>)
  finally show ?thesis using nd mh by (simp add: git_GetFile_def getObject_def handle_of_ls_def errMissing_def)
qed

text \<open>Files beside the directory \<^verbatim>\<open>zip\<close>.\<close>

lemma part_object:
  assumes "present sha (objs g) (module_tree F)" "no_conflict F" "plain_tree ok (module_tree F)" "(ext, fi) \<in> set F" "plain_path [ext]"
    "int (length (b_contents fi)) \<le> maxObjSize" "rev_names ref_ok (refs g) b (gref sha (module_tree F))"
  shows "getObject G g (b @ '':'' @ ext) ''blob'' = Inr \<lparr>o_typ = ''blob'', o_content = b_contents fi, o_hash = gref sha (GBlob (b_contents fi))\<rparr>"
proof -
  let ?T = "module_tree F" and ?c = "b_contents fi"
  have "list_all (\<lambda>p. slash \<notin> set p) [ext]" using assms(5) by (simp add: plain_path_def clean_name_def)
  then have "map_option sub_view (tree_lookup ''40000'' ?T [ext]) = Some (blob_mode fi, Some ?c)"
    using tree_lookup_module [OF assms(2), of "[ext]" "''40000''"] file_view_file [OF assms(2,4)] by simp
  then have l: "tree_lookup ''40000'' ?T [ext] = Some (blob_mode fi, GBlob ?c)" unfolding sub_view_cases .
  then have "git_lookup (objs g) ''40000'' (gref sha ?T) [ext] = Some (blob_mode fi, gref sha (GBlob ?c))"
    using git_lookup_present [OF sha_length assms(1) plain_wf [OF assms(3)]] by (simp only: option.map prod.case)
  from rev_path [OF assms(7,5) this present_top(2) [OF tree_lookup_present [OF assms(1) l]]]
  have "g_cat_file G g (b @ '':'' @ ext) = cat_response (git_present (gref sha (GBlob ?c)) ''blob'' ?c)" by simp
  also have "\<dots> = Resp_Obj ''blob'' ?c (gref sha (GBlob ?c))" by (rule cat_present [OF gref_length [OF sha_length]]) (use assms(6) in simp_all)
  finally show ?thesis by (simp add: getObject_def)
qed

lemma root_handle:
  assumes "refName X mv = Inr ref" "ref_ok ref" "refs g ref = Some (gref sha (GTree fs))" "present sha (objs g) (GTree fs)"
    "int (length (gbytes sha fs)) \<le> maxObjSize"
  shows "git_GetZipRoot X PI G g mv = newModHandle PI G g (gref sha (GTree fs))"
proof -
  have "g_cat_file G g (ref @ ''^{tree}'') = cat_response (git_present (gref sha (GTree fs)) ''tree'' (gbytes sha fs))"
    by (rule rev_tree [OF assms(2,3) present_top(1) [OF assms(4)]])
  also have "\<dots> = Resp_Obj ''tree'' (gbytes sha fs) (gref sha (GTree fs))"
    by (rule cat_present [OF gref_length [OF sha_length]]) (use assms(5) in simp_all)
  finally show ?thesis by (simp add: git_GetZipRoot_def assms(1) getObject_def)
qed



lemma module_file:
  assumes P: "pe_sha P = sha" "storable name_ok max_depth P data"
    and T: "present sha (objs g) (module_tree (put_files P data))" "tree_lookup ''40000'' (module_tree (put_files P data)) [''zip''] = Some (''40000'', GTree es)"
    and mh: "handle_of_ls (gref sha (module_tree (put_files P data))) (tree_ls sha (objs g) [] (GTree es)) mh"
    and f: "f \<in> set (Files data)"
  shows "git_GetFile G g mh (pf_path f) = Inr (pf_content f) \<and>
    git_Stat mh (pf_path f) = Inr \<lparr>fi_name = path_Base (pf_path f), fi_size = int (length (pf_content f)), fi_mode = git_mode (pf_mode f)\<rparr>"
proof -
  let ?F = "put_files P data" and ?ps = "split_on slash (pf_path f)"
  have nc: "no_conflict ?F" "list_all (plain_file name_ok (Suc max_depth)) ?F" using P(2) by (auto simp: storable_def)
  note pl = module_tree_plain(1) [OF nc]
  note ps = storable_names [OF P(2) f]
  define fi where "fi = \<lparr>b_contents = str_of_bytes (pf_content f), b_mode = pf_mode f, b_gitHash = mkObjRef sha ''blob'' (str_of_bytes (pf_content f))\<rparr>"
  have "(''zip/'' @ pf_path f, fi) \<in> set ?F" using put_files_zip [OF f, of P] by (simp add: fi_def P(1))
  then have "map_option sub_view (tree_lookup ''40000'' (GTree es) ?ps) = Some (blob_mode fi, Some (b_contents fi))"
    using zip_lookup [OF nc(1) T(2) _ ps(1)] file_view_file [OF nc(1), of "''zip/'' @ pf_path f"] by simp
  then have "tree_lookup ''40000'' (GTree es) ?ps = Some (blob_mode fi, GBlob (b_contents fi))" unfolding sub_view_cases .
  note read = handle_file [OF T(1) pl T(2) mh this ps(2)]
  show ?thesis using read base_join [OF ps(1)] by (simp add: git_mode_blob) (simp add: fi_def)
qed

lemma module_dir:
  assumes P: "mset (pe_parts P (part_list data)) = mset (part_list data)" "storable name_ok max_depth P data"
    and T: "present sha (objs g) (module_tree (put_files P data))" "tree_lookup ''40000'' (module_tree (put_files P data)) [''zip''] = Some (''40000'', GTree es)"
    and mh: "handle_of_ls (gref sha (module_tree (put_files P data))) (tree_ls sha (objs g) [] (GTree es)) mh"
    and p: "clean_path p"
  shows "\<exists>ents. git_Readdir mh p = Inr ents \<and> distinct (map d_name ents) \<and> set (map d_name ents) = dir_names (Files data) p"
    and "dir_names (Files data) p \<noteq> {} \<Longrightarrow> git_GetFile G g mh p = Inl ErrIsDir \<and>
      git_Stat mh p = Inr \<lparr>fi_name = path_Base p, fi_size = 0, fi_mode = \<lparr>is_dir = True, perm = 493\<rparr>\<rparr>"
    and "p \<noteq> [] \<Longrightarrow> dir_names (Files data) p = {} \<Longrightarrow> p \<notin> pf_path ` set (Files data) \<Longrightarrow> git_Stat mh p = Inl ErrNotExist \<and>
      (no_space p \<and> printable p \<longrightarrow> git_GetFile G g mh p = Inl ErrNotExist)"
proof -
  let ?F = "put_files P data"
  have nc: "no_conflict ?F" "list_all (plain_file name_ok (Suc max_depth)) ?F" using P(2) by (auto simp: storable_def)
  note pl = module_tree_plain(1) [OF nc]
  have Z: "plain_tree name_ok (GTree es)" using plain_lookup [OF pl T(2)] by blast
  obtain ps where ps: "p = join_on slash ps" "list_all clean_name ps" "p = [] \<longleftrightarrow> ps = []" by (rule clean_path_join [OF p])
  have cl: "list_all (\<lambda>f. list_all clean_name (split_on slash (pf_path f))) (Files data)"
    using storable_names(1) [OF P(2)] by (simp add: list_all_iff)
  note ch = zip_child [OF P(1) nc(1) Z T(2) ps(2) cl]
  note ops = handle_dir [OF T(1) pl T(2) mh ps(2)]
  show "\<exists>ents. git_Readdir mh p = Inr ents \<and> distinct (map d_name ents) \<and> set (map d_name ents) = dir_names (Files data) p"
    using ops(3) unfolding ch ps(1) .
  show "git_GetFile G g mh p = Inl ErrIsDir \<and> git_Stat mh p = Inr \<lparr>fi_name = path_Base p, fi_size = 0, fi_mode = \<lparr>is_dir = True, perm = 493\<rparr>\<rparr>"
    if ne: "dir_names (Files data) p \<noteq> {}"
  proof -
    obtain x where "x \<in> {x. tree_lookup ''40000'' (GTree es) (ps @ [x]) \<noteq> None}" using ne unfolding ps(1) ch by blast
    then obtain y where "tree_lookup ''40000'' (GTree es) (ps @ [x]) = Some y" by blast
    then show ?thesis using ops(1) unfolding ps(1) by blast
  qed
  show "git_Stat mh p = Inl ErrNotExist \<and> (no_space p \<and> printable p \<longrightarrow> git_GetFile G g mh p = Inl ErrNotExist)"
    if n: "p \<noteq> []" "dir_names (Files data) p = {}" "p \<notin> pf_path ` set (Files data)"
  proof -
    have "\<not> (\<exists>f \<in> set (Files data). pf_path f = p \<or> prefix (p @ [slash]) (pf_path f))"
      using n no_names_below [of _ "Files data" p] by blast
    then have "file_view ?F (''zip/'' @ p) = None" using zip_view [OF P(1)] by blast
    then have tn: "tree_lookup ''40000'' (GTree es) ps = None"
      using zip_lookup [OF nc(1) T(2) _ ps(2)] n(1) ps(1,3) by simp
    have "git_GetFile G g mh p = Inl ErrNotExist" if "no_space p" "printable p"
      unfolding ps(1)
    proof (rule handle_no_file [OF T(1) pl T(2) mh _ tn])
      show "no_space (join_on slash ps)" using that(1) ps(1) by simp
      show "plain_path ps" using that(2) ps n(1) by (intro plain_path_join) auto
    qed
    then show ?thesis using ops(2) [OF tn] unfolding ps(1) by blast
  qed
qed

lemma module_meta:
  assumes P: "pe_sha P = sha" "mset (pe_parts P (part_list data)) = mset (part_list data)" "storable name_ok max_depth P data"
    and T: "present sha (objs g) (module_tree (put_files P data))"
    and r: "refName X mv = Inr ref" "ref_ok ref" "refs g ref = Some (gref sha (module_tree (put_files P data)))"
    and mh: "modTree mh = gref sha (module_tree (put_files P data))"
  shows "ZipHash data = Some b \<Longrightarrow> git_GetZipHash G g mh = Inr b"
    and "InfoFile data = Some b \<Longrightarrow> git_GetInfoFile X G g mv = Inr b"
    and "git_GetZipRoot X PI G g mv = newModHandle PI G g (gref sha (module_tree (put_files P data)))"
proof -
  let ?F = "put_files P data" and ?T = "module_tree (put_files P data)"
  have nc: "no_conflict ?F" "list_all (plain_file name_ok (Suc max_depth)) ?F" "small_objects (module_objects sha ?F)"
    using P(1,3) by (auto simp: storable_def)
  have part: "getObject G g (b @ '':'' @ ext) ''blob'' = Inr \<lparr>o_typ = ''blob'', o_content = str_of_bytes c, o_hash = gref sha (GBlob (str_of_bytes c))\<rparr>"
    if e: "(ext, Some c) \<in> set (part_list data)" "rev_names ref_ok (refs g) b (gref sha ?T)" for b ext c
  proof -
    note f = put_files_part [OF P(2) e(1)]
    have "plain_path [ext]" using e(1) by (auto simp: part_list_def plain_path_def clean_name_def)
    moreover have "int (length (str_of_bytes c)) \<le> maxObjSize" using nc(2) f by (auto simp: list_all_iff plain_file_def)
    ultimately show ?thesis using part_object [OF T nc(1) module_tree_plain(1) [OF nc(1,2)] f _ _ e(2)] by simp
  qed
  have names: "rev_names ref_ok (refs g) (hex_encode (gref sha ?T)) (gref sha ?T)" "rev_names ref_ok (refs g) ref (gref sha ?T)"
    using r(2,3) by (simp_all add: rev_names_def gref_length [OF sha_length])
  show "git_GetZipHash G g mh = Inr b" if "ZipHash data = Some b"
    using part [OF _ names(1), of "''ziphash''" b] that by (simp add: git_GetZipHash_def mh part_list_def)
  show "git_GetInfoFile X G g mv = Inr b" if "InfoFile data = Some b"
    using part [OF _ names(2), of "''info''" b] that by (simp add: git_GetInfoFile_def r(1) part_list_def)
  obtain fs where fs: "?T = GTree fs" using tree_of_GTree unfolding module_tree_def by blast
  then have "(''tree'', gbytes sha fs) \<in> set (module_objects sha ?F)" by (simp add: module_objects_def)
  from small_object [OF nc(3) this] show "git_GetZipRoot X PI G g mv = newModHandle PI G g (gref sha ?T)"
    unfolding fs by (intro root_handle [OF r(1,2) r(3) [unfolded fs] T [unfolded fs]]) simp
qed

end

text \<open>
  C4. What is put into the git store is what is read from it.  In any repository that behaves as git
  documents, putting a module that the repository can hold (clean printable names, no file that is a
  directory too, objects of at most 512 MB that SHA-1 tells apart) succeeds, whatever order the maps are ranged
  over in and whichever of its objects are there already; the module is then found under its reference,
  with the same handle; its zip hash, info file and each of its files read back byte for byte, with name, size and
  executable bit; each directory lists exactly the names below it, once; any other path does not
  exist; and no other object or reference changes.
\<close>
theorem git_put_get:
  assumes "git_repo sha inflate G objs refs name_ok ref_ok max_depth"
    and "pe_sha P = sha" "\<And>c r. inflate (pe_zlib P c @ r) = Some (c, r)" "\<And>xs. mset (pe_parts P xs) = mset xs"
    and "\<And>d xs. mset (pe_files P d xs) = mset xs" "good_ParseInt PI"
    and "refName X mv = Inr ref" "ref_ok ref" "ref_free (refs g) ref"
    and "storable name_ok max_depth P data" "no_clash sha (objs g) (module_objects sha (put_files P data))"
  shows "\<exists>mh g'. git_PutModule X PI P G g mv data = (Ok mh, g') \<and> git_GetZipRoot X PI G g' mv = Ok mh \<and>
    (\<forall>b. ZipHash data = Some b \<longrightarrow> git_GetZipHash G g' mh = Inr b) \<and>
    (\<forall>b. InfoFile data = Some b \<longrightarrow> git_GetInfoFile X G g' mv = Inr b) \<and>
    (\<forall>f \<in> set (Files data). git_GetFile G g' mh (pf_path f) = Inr (pf_content f) \<and>
       git_Stat mh (pf_path f) = Inr \<lparr>fi_name = path_Base (pf_path f), fi_size = int (length (pf_content f)), fi_mode = git_mode (pf_mode f)\<rparr>) \<and>
    (\<forall>p. clean_path p \<longrightarrow>
       (\<exists>ents. git_Readdir mh p = Inr ents \<and> distinct (map d_name ents) \<and> set (map d_name ents) = dir_names (Files data) p) \<and>
       (dir_names (Files data) p \<noteq> {} \<longrightarrow> git_GetFile G g' mh p = Inl ErrIsDir \<and>
          git_Stat mh p = Inr \<lparr>fi_name = path_Base p, fi_size = 0, fi_mode = \<lparr>is_dir = True, perm = 493\<rparr>\<rparr>) \<and>
       (p \<noteq> [] \<and> dir_names (Files data) p = {} \<and> p \<notin> pf_path ` set (Files data) \<longrightarrow> git_Stat mh p = Inl ErrNotExist)) \<and>
    objs g \<subseteq>\<^sub>m objs g' \<and> (\<forall>r. r \<noteq> ref \<longrightarrow> refs g' r = refs g r)"
proof -
  let ?F = "put_files P data" and ?T = "module_tree (put_files P data)"
  obtain mh g' es where m: "git_PutModule X PI P G g mv data = (Ok mh, g')" "newModHandle PI G g' (gref sha ?T) = Ok mh"
    "handle_of_ls (gref sha ?T) (tree_ls sha (objs g') [] (GTree es)) mh"
    "tree_lookup ''40000'' ?T [''zip''] = Some (''40000'', GTree es)" "present sha (objs g') ?T"
    "objs g \<subseteq>\<^sub>m objs g'" "refs g' = (refs g)(ref \<mapsto> gref sha ?T)"
    using git_repo.module_put [OF assms(1-3,5-11)] by blast
  have r: "refs g' ref = Some (gref sha ?T)" "modTree mh = gref sha ?T" using m(3,7) by (simp_all add: handle_of_ls_def)
  note meta = git_repo.module_meta [OF assms(1,2,4,10) m(5) assms(7,8) r]
  note dir = git_repo.module_dir [OF assms(1,4,10) m(5,4,3)]
  have "git_GetZipRoot X PI G g' mv = Ok mh" using meta(3) m(2) by simp
  moreover have "\<forall>r. r \<noteq> ref \<longrightarrow> refs g' r = refs g r" using m(7) by simp
  ultimately show ?thesis
    using m(1,6) meta(1,2) git_repo.module_file [OF assms(1,2,10) m(5,4,3)] dir
    by (intro exI [of _ mh] exI [of _ g'] conjI allI ballI impI) blast+
qed

lemma trimSpace_line: "ref \<noteq> [] \<Longrightarrow> trimSpace (hex_encode ref @ [NL]) = hex_encode ref"
  by (rule trim_line [OF hex_word]) (cases ref; simp add: hex_encode_def)+

lemma refName_chars: "refName X mv = Inr r \<Longrightarrow> r \<noteq> [] \<and> CHR '')'' \<notin> set r"
proof -
  have "CHR '')'' \<notin> set (url_PathEscape s)" for s by (rule escape_free; simp add: shouldEscape_def is_alnum_def)
  then show "refName X mv = Inr r \<Longrightarrow> ?thesis" by (auto simp: refName_def split: option.splits)
qed

context git_repo
begin

lemma blob_put:
  assumes "ref_ok r" "ref_free (refs g) r" "no_clash sha (objs g) [(''blob'', str_of_bytes d)]"
  shows "\<exists>g'. put_blob_ref G g r d = (None, g') \<and> refs g' = (refs g)(r \<mapsto> mkObjRef sha ''blob'' (str_of_bytes d)) \<and>
    objs g' (mkObjRef sha ''blob'' (str_of_bytes d)) = Some (''blob'', str_of_bytes d) \<and> objs g \<subseteq>\<^sub>m objs g'"
proof -
  let ?h = "mkObjRef sha ''blob'' (str_of_bytes d)"
  obtain g1 where g1: "g_hash_object G g (str_of_bytes d) = (Inr (hex_encode ?h @ [NL]), g1)"
    "objs g1 = add_objs sha [(''blob'', str_of_bytes d)] (objs g)" "refs g1 = refs g" using hash_object [OF assms(3)] by blast
  have o: "objs g1 ?h = Some (''blob'', str_of_bytes d)" by (simp add: g1(2) add_objs_def)
  moreover have "length ?h = 20" by (simp add: mkObjRef_def sha_length)
  moreover from this have l: "?h \<noteq> []" by auto
  ultimately obtain g2 where g2: "g_update_ref G g1 r (hex_encode ?h) = (None, g2)" "objs g2 = objs g1" "refs g2 = (refs g1)(r \<mapsto> ?h)"
    using update_ref [OF assms(1), of g1 ?h] assms(2) g1(3) by auto
  have "objs g \<subseteq>\<^sub>m objs g2" using no_clashD [OF assms(3)] by (auto simp: g2(2) g1(2) add_objs_def map_le_def)
  then show ?thesis using g1 g2 o trimSpace_line [of ?h] l by (simp add: put_blob_ref_def)
qed

lemma blob_get:
  assumes "ref_ok r" "refs g r = Some h" "objs g h = Some (''blob'', c)" "length h = 20" "int (length c) \<le> maxObjSize"
  shows "getObject G g r ''blob'' = Inr \<lparr>o_typ = ''blob'', o_content = c, o_hash = h\<rparr>"
  using rev_ref [OF assms(1-3)] cat_present [OF assms(4) _ assms(5), of "''blob''"] by (simp add: getObject_def)

lemma ref_missing:
  assumes "ref_ok r" "ref_absent (refs g) r" "x \<in> {[], ''^{tree}'', '':info''}"
  shows "getObject G g (r @ x) ty = Inl errMissing"
proof -
  have "ascii_word x" using assms(3) by (auto simp: is_space_def)
  then have "no_space (r @ x)" using ref_plain [OF assms(1)] by (simp add: no_space_append_ascii)
  then show ?thesis using rev_no_ref [OF assms] cat_missing [of "r @ x"] ref_plain [OF assms(1)] by (simp add: getObject_def)
qed

end

text \<open>
  C21. The lone \<^verbatim>\<open>.mod\<close> and \<^verbatim>\<open>.info\<close> files of a module version that the store does not have: asking for them, or
  for the module, is a cache miss; after putting one it reads back byte for byte, under its own reference, while the module
  still is a miss and every other reference is kept.
\<close>
theorem git_meta_put_get:
  assumes "git_repo sha inflate G objs refs name_ok ref_ok max_depth"
    and "refName X mv = Inr ref" "ref_ok ref" "ref_ok (ref @ ext)" "ext \<in> {''(mod)'', ''(info)''}"
    and "ref_absent (refs g) ref" "ref_absent (refs g) (ref @ ''(mod)'')" "ref_absent (refs g) (ref @ ''(info)'')" "ref_free (refs g) (ref @ ext)"
    and "no_clash sha (objs g) [(''blob'', str_of_bytes d)]" "int (length d) \<le> maxObjSize"
  defines "get \<equiv> (if ext = ''(mod)'' then git_GetModFile X G else git_GetInfoFile X G)"
    and "put \<equiv> (if ext = ''(mod)'' then git_PutModFile X G else git_PutInfoFile X G)"
  shows "get g mv = Inl ErrCacheMiss \<and> git_GetZipRoot X PI G g mv = Fail ErrCacheMiss \<and>
    (\<exists>g'. put g mv d = (None, g') \<and> get g' mv = Inr d \<and> git_GetZipRoot X PI G g' mv = Fail ErrCacheMiss \<and>
       objs g \<subseteq>\<^sub>m objs g' \<and> (\<forall>r. r \<noteq> ref @ ext \<longrightarrow> refs g' r = refs g r))"
proof -
  let ?h = "mkObjRef sha ''blob'' (str_of_bytes d)"
  note L = git_repo.ref_missing [OF assms(1)]
  obtain g' where g': "put_blob_ref G g (ref @ ext) d = (None, g')" "refs g' = (refs g)(ref @ ext \<mapsto> ?h)"
    "objs g' ?h = Some (''blob'', str_of_bytes d)" "objs g \<subseteq>\<^sub>m objs g'"
    using git_repo.blob_put [OF assms(1,4,9,10)] by blast
  have a': "ref_absent (refs g') ref"
  proof -
    have "last (ref @ ext) = CHR '')''" using assms(5) by auto
    moreover have "last (zs @ slash # ref) \<noteq> CHR '')''" for zs using refName_chars [OF assms(2)] by (simp add: last_append) (metis last_in_set)
    ultimately have "\<not> suffix (slash # ref) (ref @ ext)" unfolding suffix_def by metis
    then show ?thesis using assms(5,6) unfolding g'(2) ref_absent_def by auto
  qed
  have root: "git_GetZipRoot X PI G x mv = Fail ErrCacheMiss" if "ref_absent (refs x) ref" for x
    using L [OF assms(3) that, of "''^{tree}''"] by (simp add: git_GetZipRoot_def assms(2) errMissing_def)
  have b: "getObject G g' (ref @ ext) ''blob'' = Inr \<lparr>o_typ = ''blob'', o_content = str_of_bytes d, o_hash = ?h\<rparr>"
    using git_repo.blob_get [OF assms(1,4) _ g'(3)] g'(2) assms(11) git_repo.sha_length [OF assms(1)] by (simp add: mkObjRef_def)
  have "get g mv = Inl ErrCacheMiss"
    using L [OF assms(3,6), of "'':info''"] L [OF assms(4), of g "[]"] assms(5,7,8)
    by (auto simp: get_def git_GetModFile_def git_GetInfoFile_def modRefName_def infoRefName_def assms(2) errMissing_def)
  moreover have "get g' mv = Inr d"
    using L [OF assms(3) a', of "'':info''"] b assms(5)
    by (auto simp: get_def git_GetModFile_def git_GetInfoFile_def modRefName_def infoRefName_def assms(2))
  moreover have "put g mv d = (None, g')"
    using g'(1) assms(5) by (auto simp: put_def git_PutModFile_def git_PutInfoFile_def modRefName_def infoRefName_def assms(2))
  ultimately show ?thesis using root [OF assms(6)] root [OF a'] g'(2,4) by auto
qed

section \<open>A repository in memory\<close>

text \<open>
  The commands of git over lists of objects and references: what the laws of the interface ask for,
  computed.  It is a repository for any hash function (cut or padded to 20 bytes) and any decompressor.
\<close>

definition pad20 :: "(string \<Rightarrow> string) \<Rightarrow> string \<Rightarrow> string" where
  "pad20 sha x = take 20 (sha x @ replicate 20 NUL)"

type_synonym mem_repo = "(string \<times> string \<times> string) list \<times> (string \<times> string) list"

definition mem_objs :: "mem_repo \<Rightarrow> objects" where "mem_objs g = map_of (fst g)"
definition mem_refs :: "mem_repo \<Rightarrow> string \<Rightarrow> string option" where "mem_refs g = map_of (snd g)"

definition mem_name :: "string \<Rightarrow> bool" where "mem_name n \<longleftrightarrow> n \<noteq> ''.git''"
definition mem_ref :: "string \<Rightarrow> bool" where "mem_ref r \<longleftrightarrow> prefix ''refs/'' r \<and> CHR '':'' \<notin> set r \<and> CHR ''^'' \<notin> set r \<and> no_space r"

definition hex_names :: "string \<Rightarrow> string list" where
  "hex_names inp = map (\<lambda>l. case hex_objRef l of Ref h \<Rightarrow> h | _ \<Rightarrow> []) (butlast (split_on NL inp))"

definition mem_index_pack :: "(string \<Rightarrow> string) \<Rightarrow> (string \<Rightarrow> (string \<times> string) option) \<Rightarrow> mem_repo \<Rightarrow> string \<Rightarrow> err option \<times> mem_repo" where
  "mem_index_pack sha inflate g p =
     (case parse_pack sha inflate p of
        None \<Rightarrow> (Some (ErrMsg ''bad pack''), g)
      | Some os \<Rightarrow>
          if strict_pack sha mem_name (mem_objs g) os then (None, map (\<lambda>(ty, c). (mkObjRef sha ty c, ty, c)) os @ fst g, snd g)
          else (Some (ErrMsg ''fsck error in packed object''), g))"

definition mem_update_ref :: "mem_repo \<Rightarrow> string \<Rightarrow> string \<Rightarrow> err option \<times> mem_repo" where
  "mem_update_ref g r hx =
     (case hex_objRef hx of
        Ref h \<Rightarrow> if mem_ref r \<and> mem_objs g h \<noteq> None then (None, fst g, (r, h) # snd g) else (Some (ErrMsg ''cannot update ref''), g)
      | _ \<Rightarrow> (Some (ErrMsg ''not a valid SHA1''), g))"

definition mem_rev :: "mem_repo \<Rightarrow> string \<Rightarrow> string option" where
  "mem_rev g b = (if prefix ''refs/'' b then mem_refs g b else case hex_objRef b of Ref h \<Rightarrow> Some h | _ \<Rightarrow> None)"

definition mem_path :: "mem_repo \<Rightarrow> string \<Rightarrow> string \<Rightarrow> string option" where
  "mem_path g b p = Option.bind (mem_rev g b) (\<lambda>h. map_option snd (git_lookup (mem_objs g) ''40000'' h (split_on slash p)))"

definition mem_cat :: "mem_repo \<Rightarrow> string \<Rightarrow> string" where
  "mem_cat g rv =
     (let (b, p, colon) = cut rv '':''; (r, peel) = cutSuffix rv ''^{tree}'';
          h = (if colon then mem_path g b p else mem_rev g (if peel then r else rv))
      in case h of
           None \<Rightarrow> git_missing rv
         | Some h \<Rightarrow> (case mem_objs g h of None \<Rightarrow> git_missing rv | Some (ty, c) \<Rightarrow> git_present h ty c))"

definition mem_ls_tree :: "mem_repo \<Rightarrow> string \<Rightarrow> err + string" where
  "mem_ls_tree g rv =
     (let (b, p, _) = cut rv '':'' in
      case Option.bind (mem_path g b p) (git_ls 64 (mem_objs g) []) of
        None \<Rightarrow> Inl (ErrMsg ''not a tree object'')
      | Some es \<Rightarrow> Inr (ls_output es))"

definition mem_cmds :: "(string \<Rightarrow> string) \<Rightarrow> (string \<Rightarrow> (string \<times> string) option) \<Rightarrow> mem_repo git_cmds" where
  "mem_cmds sha inflate =
     \<lparr>g_batch_check = (\<lambda>g inp. Inr (batch_answer (mem_objs g) (hex_names inp), None)),
      g_index_pack = mem_index_pack sha inflate, g_update_ref = mem_update_ref,
      g_hash_object = (\<lambda>g c. (Inr (hex_encode (mkObjRef sha ''blob'' c) @ [NL]), (mkObjRef sha ''blob'' c, ''blob'', c) # fst g, snd g)),
      g_ls_tree = mem_ls_tree, g_for_each_ref = (\<lambda>g. Inr (concat (map (\<lambda>(r, _). short_ref r @ [NL]) (snd g)))),
      g_cat_file = (\<lambda>g rv. cat_response (mem_cat g rv))\<rparr>"

lemma hex_names_input: "list_all (\<lambda>h. length h = 20) hs \<Longrightarrow> hex_names (chk_input hs) = hs"
proof -
  assume a: "list_all (\<lambda>h. length h = 20) hs"
  have "split_on NL (chk_input hs) = map hex_encode hs @ [[]]"
    unfolding chk_input_def using no_space_no_nl [OF hex_no_space] by (intro split_lines) simp
  then show ?thesis using a by (auto simp: hex_names_def list_all_iff intro!: map_idI)
qed

lemma hex_encode_digits: "c \<in> set (hex_encode s) \<Longrightarrow> hex_digit c \<noteq> None"
  by (induction s) (auto simp: hex_encode_def hex_digit_char nibbles)

lemma mem_rev_names: "rev_names mem_ref (mem_refs g) b h \<Longrightarrow> mem_rev g b = Some h \<and> CHR '':'' \<notin> set b"
proof -
  assume "rev_names mem_ref (mem_refs g) b h"
  then consider "b = hex_encode h" "length h = 20" | "mem_ref b" "mem_refs g b = Some h" by (auto simp: rev_names_def)
  then show ?thesis
  proof cases
    case 1
    have "CHR ''r'' \<notin> set b" "CHR '':'' \<notin> set b"
      using hex_encode_digits [of "CHR ''r''" h] hex_encode_digits [of "CHR '':''" h] by (auto simp: 1(1) hex_digit_def)
    moreover from this(1) have "\<not> prefix ''refs/'' b" by (auto simp: prefix_def)
    ultimately show ?thesis using 1 by (simp add: mem_rev_def)
  qed (simp add: mem_rev_def mem_ref_def)
qed

lemma mem_cat_path:
  assumes "rev_names mem_ref (mem_refs g) b h" "plain_path ps"
  shows "mem_path g b (join_on slash ps) = map_option snd (git_lookup (mem_objs g) ''40000'' h ps)"
    "cut (b @ '':'' @ join_on slash ps) '':'' = (b, join_on slash ps, True)"
proof -
  have "split_on slash (join_on slash ps) = ps" using assms(2) by (intro split_join) (auto simp: plain_path_def list_all_iff clean_name_def)
  then show "mem_path g b (join_on slash ps) = map_option snd (git_lookup (mem_objs g) ''40000'' h ps)"
    using mem_rev_names [OF assms(1)] by (simp add: mem_path_def)
  show "cut (b @ '':'' @ join_on slash ps) '':'' = (b, join_on slash ps, True)"
    using mem_rev_names [OF assms(1)] cut_char [of "CHR '':''" b] by simp
qed

lemma mem_cat_ref:
  assumes "mem_ref r"
  shows "cut r '':'' = (r, [], False)" "cut (r @ ''^{tree}'') '':'' = (r @ ''^{tree}'', [], False)"
    "cutSuffix (r @ ''^{tree}'') ''^{tree}'' = (r, True)" "cutSuffix r ''^{tree}'' = (r, False)" "prefix ''refs/'' r"
proof -
  show "cut r '':'' = (r, [], False)" "cut (r @ ''^{tree}'') '':'' = (r @ ''^{tree}'', [], False)"
    using assms by (auto simp: mem_ref_def cut_none)
  show "cutSuffix (r @ ''^{tree}'') ''^{tree}'' = (r, True)" by (rule cutSuffix_append)
  have "\<not> suffix ''^{tree}'' r" using assms by (auto simp: mem_ref_def suffix_def)
  then show "cutSuffix r ''^{tree}'' = (r, False)" by (simp add: cutSuffix_def)
  show "prefix ''refs/'' r" using assms by (simp add: mem_ref_def)
qed

interpretation mem_git: git_repo "pad20 sha" inflate "mem_cmds (pad20 sha) inflate" mem_objs mem_refs mem_name mem_ref 64 for sha inflate
proof (unfold_locales, goal_cases)
  case 1
  show ?case by (simp add: pad20_def)
next
  case (2 r)
  then show ?case by (auto simp: mem_ref_def)
next
  case (3 hs g)
  then show ?case by (simp add: mem_cmds_def hex_names_input)
next
  case (4 p os g)
  then show ?case by (simp add: mem_cmds_def mem_index_pack_def mem_objs_def mem_refs_def add_objs_def)
next
  case (5 r g h)
  then show ?case by (simp add: mem_cmds_def mem_update_ref_def mem_objs_def mem_refs_def)
next
  case (6 g c)
  then show ?case by (auto simp: mem_cmds_def mem_objs_def mem_refs_def add_objs_def map_add_def fun_eq_iff)
next
  case (7 g b h ps m r ty c)
  then show ?case using mem_cat_path [of g b h ps] by (simp add: mem_cmds_def mem_cat_def case_prod_beta')
next
  case (8 g b h t ps)
  then show ?case using mem_cat_path [of g b h ps] by (simp add: mem_cmds_def mem_cat_def case_prod_beta')
next
  case (9 r g h c)
  then show ?case using mem_cat_ref [of r] by (simp add: mem_cmds_def mem_cat_def mem_rev_def)
next
  case (10 r g h ty c)
  then show ?case using mem_cat_ref [of r] by (simp add: mem_cmds_def mem_cat_def mem_rev_def)
next
  case (11 r g x)
  have n: "mem_refs g r = None" using 11(2) unfolding ref_absent_def by blast
  have "cut (r @ '':info'') '':'' = (r, ''info'', True)" using 11(1) cut_char [of "CHR '':''" r "''info''"] by (simp add: mem_ref_def)
  then show ?case using mem_cat_ref [OF 11(1)] 11(3) n by (auto simp: mem_cmds_def mem_cat_def mem_rev_def mem_path_def case_prod_beta')
next
  case (12 h g z es)
  then show ?case using mem_cat_path [of g "hex_encode h" h "[''zip'']"]
    by (simp add: mem_cmds_def mem_ls_tree_def rev_names_def plain_path_def clean_name_def)
qed

text \<open>A module with a script in a sub-directory, put into an empty repository.\<close>

definition sample_sha :: "string \<Rightarrow> string" where
  "sample_sha s = take 7 s @ rev s"

definition sample_env :: put_env where
  "sample_env = \<lparr>pe_sha = pad20 sample_sha, pe_zlib = toy_zlib, pe_parts = rev, pe_files = (\<lambda>d. rev)\<rparr>"

definition sample_data :: put_data where
  "sample_data = \<lparr>InfoFile = None, ModFile = None, ZipHash = Some (to_bytes ''h1''),
     Files = [\<lparr>pf_path = ''a b'', pf_mode = \<lparr>is_dir = False, perm = 420\<rparr>, pf_content = to_bytes ''A''\<rparr>,
       \<lparr>pf_path = ''cmd/run.sh'', pf_mode = \<lparr>is_dir = False, perm = 493\<rparr>, pf_content = to_bytes [CHR ''B'', NUL, NL]\<rparr>]\<rparr>"

definition sample_mv :: mod_version where
  "sample_mv = \<lparr>Module = ''go4.org/mem'', Version = ''v1.2.3''\<rparr>"

definition sample_adds :: "(string \<times> string \<times> fmode) list" where
  "sample_adds = [(''ziphash'', ''h1'', \<lparr>is_dir = False, perm = 420\<rparr>), (''zip/a b'', ''A'', \<lparr>is_dir = False, perm = 420\<rparr>),
     (''zip/cmd/run.sh'', [CHR ''B'', NUL, NL], \<lparr>is_dir = False, perm = 493\<rparr>)]"

lemma sample_files: "put_files sample_env sample_data = files_of (pad20 sample_sha) sample_adds"
  by (simp add: put_files_def put_adds_def sample_env_def sample_data_def sample_adds_def part_list_def)

lemma sample_objects:
  "let os = module_objects (pad20 sample_sha) (files_of (pad20 sample_sha) sample_adds); hs = map (\<lambda>(ty, c). mkObjRef (pad20 sample_sha) ty c) (remdups os)
   in distinct hs \<and> list_all (\<lambda>h. h \<noteq> zeroRef) hs \<and> length os \<le> 20 \<and>
     list_all (\<lambda>(ty, c). (ty = ''tree'' \<or> ty = ''blob'') \<and> int (length c) \<le> maxObjSize) os"
  by code_simp

lemma sample_storable: "storable mem_name 64 sample_env sample_data"
proof -
  let ?F = "files_of (pad20 sample_sha) sample_adds"
  have "no_conflict ?F" "list_all (plain_file mem_name (Suc 64)) ?F" "list_all (\<lambda>f. printable (pf_path f)) (Files sample_data)" by code_simp+
  moreover have "hash_ok (pad20 sample_sha) (set (module_objects (pad20 sample_sha) ?F))"
    using sample_objects unfolding hash_ok_list Let_def by (auto simp: list_all_iff)
  moreover have "small_objects (module_objects (pad20 sample_sha) ?F)"
    using sample_objects unfolding small_objects_def Let_def by simp
  moreover have "pe_sha sample_env = pad20 sample_sha" "Files sample_data \<noteq> []" by (simp_all add: sample_env_def sample_data_def)
  ultimately show ?thesis by (simp only: storable_def sample_files simp_thms)
qed

theorem git_put_get_witness:
  "\<exists>mh g'. git_PutModule mem_xmod atoi sample_env (mem_cmds (pad20 sample_sha) toy_inflate) ([], []) sample_mv sample_data = (Ok mh, g') \<and>
     git_GetZipRoot mem_xmod atoi (mem_cmds (pad20 sample_sha) toy_inflate) g' sample_mv = Ok mh \<and>
     git_GetZipHash (mem_cmds (pad20 sample_sha) toy_inflate) g' mh = Inr (to_bytes ''h1'') \<and>
     git_GetFile (mem_cmds (pad20 sample_sha) toy_inflate) g' mh ''cmd/run.sh'' = Inr (to_bytes [CHR ''B'', NUL, NL]) \<and>
     git_Stat mh ''cmd/run.sh'' = Inr \<lparr>fi_name = ''run.sh'', fi_size = 3, fi_mode = \<lparr>is_dir = False, perm = 493\<rparr>\<rparr>"
proof -
  let ?f = "\<lparr>pf_path = ''cmd/run.sh'', pf_mode = \<lparr>is_dir = False, perm = 493\<rparr>, pf_content = to_bytes [CHR ''B'', NUL, NL]\<rparr>"
  have r: "refName mem_xmod sample_mv = Inr ''refs/gomod/go4.org%2Fmem@v1.2.3''" "mem_ref ''refs/gomod/go4.org%2Fmem@v1.2.3''"
    "path_Base ''cmd/run.sh'' = ''run.sh''" "git_mode (pf_mode ?f) = \<lparr>is_dir = False, perm = 493\<rparr>" by code_simp+
  have "ref_free (mem_refs ([], [])) ''refs/gomod/go4.org%2Fmem@v1.2.3''" by (simp add: ref_free_def mem_refs_def)
  moreover have "no_clash (pad20 sample_sha) (mem_objs ([], [])) (module_objects (pad20 sample_sha) (put_files sample_env sample_data))"
    by (simp add: no_clash_def mem_objs_def list_all_iff)
  ultimately obtain mh g' where m: "git_PutModule mem_xmod atoi sample_env (mem_cmds (pad20 sample_sha) toy_inflate) ([], []) sample_mv sample_data = (Ok mh, g')"
    "git_GetZipRoot mem_xmod atoi (mem_cmds (pad20 sample_sha) toy_inflate) g' sample_mv = Ok mh"
    "\<forall>b. ZipHash sample_data = Some b \<longrightarrow> git_GetZipHash (mem_cmds (pad20 sample_sha) toy_inflate) g' mh = Inr b"
    "\<forall>f \<in> set (Files sample_data). git_GetFile (mem_cmds (pad20 sample_sha) toy_inflate) g' mh (pf_path f) = Inr (pf_content f) \<and>
       git_Stat mh (pf_path f) = Inr \<lparr>fi_name = path_Base (pf_path f), fi_size = int (length (pf_content f)), fi_mode = git_mode (pf_mode f)\<rparr>"
    using git_put_get [OF mem_git.git_repo_axioms _ _ _ _ good_atoi r(1,2) _ sample_storable, of sample_sha toy_inflate "([], [])"]
    by (auto simp: sample_env_def toy_inflate_zlib)
  have "?f \<in> set (Files sample_data)" by (simp add: sample_data_def)
  from bspec [OF m(4) this] show ?thesis using m(1-3) r(3,4) by (auto simp: sample_data_def)
qed

theorem git_meta_put_get_witness:
  "git_GetModFile mem_xmod (mem_cmds (pad20 sample_sha) toy_inflate) ([], []) sample_mv = Inl ErrCacheMiss \<and>
   (\<exists>g'. git_PutModFile mem_xmod (mem_cmds (pad20 sample_sha) toy_inflate) ([], []) sample_mv [1, 2] = (None, g') \<and>
      git_GetModFile mem_xmod (mem_cmds (pad20 sample_sha) toy_inflate) g' sample_mv = Inr [1, 2])"
proof -
  have r: "refName mem_xmod sample_mv = Inr ''refs/gomod/go4.org%2Fmem@v1.2.3''" "mem_ref ''refs/gomod/go4.org%2Fmem@v1.2.3''"
    "mem_ref (''refs/gomod/go4.org%2Fmem@v1.2.3'' @ ''(mod)'')" by code_simp+
  show ?thesis
    using git_meta_put_get [OF mem_git.git_repo_axioms r, where g = "([], [])" and d = "[1, 2]" and PI = atoi, of sample_sha toy_inflate]
    by (auto simp: ref_absent_def ref_free_def mem_refs_def no_clash_def mem_objs_def maxObjSize_def)
qed

end
