(* ===== verification/Module_FS.thy ===== *)
theory Module_FS
  imports Store_Iface
begin

text \<open>
  The core of the file system, \<^verbatim>\<open>gomodfs.go\<close> (and \<^verbatim>\<open>getTailscaleGoRoot\<close> of \<^verbatim>\<open>tsgo.go\<close>): serving module
  metadata and zip roots from the store, downloading from the configured proxies on a cache miss,
  the table of zip roots, and the tables that map NFS path hashes back to paths.

  Parameters: the store, the network (a URL to a body or an error), \<^verbatim>\<open>archive/zip\<close>, \<^verbatim>\<open>dirhash.Hash1\<close>,
  the gunzip-and-untar of a toolchain archive, SHA-256 and the escaping functions.  \<^verbatim>\<open>singleflight\<close>
  runs its function once for concurrent callers of one key; here one caller runs it.  \<open>fetched\<close> is
  the trace of requested URLs.
\<close>

section \<open>Environment and state\<close>

record tar_entry =
  tar_name :: string
  tar_mode :: fmode
  tar_content :: bytes

record ('st, 'h) fs_env =
  Store :: "('st, 'h) store_ops"
  XM :: xmod
  net :: "string \<Rightarrow> err + bytes"
  unzip :: "bytes \<Rightarrow> put_file list option"
  Hash1 :: "(string \<times> bytes) list \<Rightarrow> err + string"
  untgz :: "bytes \<Rightarrow> err + tar_entry list"
  sha :: "bytes \<Rightarrow> bytes"
  ModuleProxyURL :: string
  ModuleProxyURLs :: "string list"
  ReadOnly :: bool

record handleTarget =
  t_path :: string
  t_segs :: "string list"

record ('st, 'h) fs =
  st :: 'st
  fetched :: "string list"
  zipRootCache :: "(mod_version \<times> 'h) list option"
  modVerHash :: "(bytes \<times> mod_version) list option"
  pathHashTarget :: "(bytes \<times> handleTarget) list option"
  handle_map :: "(bytes \<times> handleTarget) list option"


definition hashModVersion :: "('st, 'h) fs_env \<Rightarrow> mod_version \<Rightarrow> bytes" where
  "hashModVersion E mv = sha E (to_bytes (Module mv @ [CHR 0x00] @ Version mv))"

definition mkPathHash :: "('st, 'h) fs_env \<Rightarrow> string \<Rightarrow> bytes" where
  "mkPathHash E path = sha E (to_bytes path)"

section \<open>Downloads\<close>

definition netSlurp :: "('st, 'h) fs_env \<Rightarrow> string \<Rightarrow> ('st, 'h) fs \<Rightarrow> (err + bytes) \<times> ('st, 'h) fs" where
  "netSlurp E url s = (net E url, s\<lparr>fetched := fetched s @ [url]\<rparr>)"

definition moduleProxyURLs :: "('st, 'h) fs_env \<Rightarrow> string list" where
  "moduleProxyURLs E =
     (if ModuleProxyURLs E \<noteq> [] then map (\<lambda>u. trimSuffix u ''/'') (ModuleProxyURLs E)
      else if ModuleProxyURL E \<noteq> [] then [trimSuffix (ModuleProxyURL E) ''/'']
      else [''https://proxy.golang.org''])"

definition modURLBases :: "('st, 'h) fs_env \<Rightarrow> mod_version \<Rightarrow> err + string list" where
  "modURLBases E mv =
     (case EscapePath (XM E) (Module mv) of
        None \<Rightarrow> Inl (ErrMsg ''failed to escape module name'')
      | Some escMod \<Rightarrow>
          (case EscapeVersion (XM E) (Version mv) of
             None \<Rightarrow> Inl (ErrMsg ''failed to escape version'')
           | Some escVer \<Rightarrow> Inr (map (\<lambda>p. p @ ''/'' @ escMod @ ''/@v/'' @ escVer) (moduleProxyURLs E))))"

fun metaFile_loop ::
  "('st, 'h) fs_env \<Rightarrow> ('st \<Rightarrow> mod_version \<Rightarrow> bytes \<Rightarrow> err option \<times> 'st) \<Rightarrow> mod_version \<Rightarrow> string \<Rightarrow> err list \<Rightarrow>
    string list \<Rightarrow> ('st, 'h) fs \<Rightarrow> (err + bytes) \<times> ('st, 'h) fs" where
  "metaFile_loop E put mv ext errs [] s = (Inl (Wrap ''join'' errs), s)"
| "metaFile_loop E put mv ext errs (urlBase # bs) s =
     (let (r, s) = netSlurp E (urlBase @ ''.'' @ ext) s in
      case r of
        Inl e \<Rightarrow> metaFile_loop E put mv ext (errs @ [Wrap ''failed to download'' [e]]) bs s
      | Inr data \<Rightarrow>
          (case put (st s) mv data of
             (Some e, st') \<Rightarrow> (Inl (Wrap ''failed to store file'' [e]), s\<lparr>st := st'\<rparr>)
           | (None, st') \<Rightarrow> (Inr data, s\<lparr>st := st'\<rparr>)))"

definition downloadMetaFile ::
  "('st, 'h) fs_env \<Rightarrow> ('st \<Rightarrow> mod_version \<Rightarrow> bytes \<Rightarrow> err option \<times> 'st) \<Rightarrow> mod_version \<Rightarrow> string \<Rightarrow>
    ('st, 'h) fs \<Rightarrow> (err + bytes) \<times> ('st, 'h) fs" where
  "downloadMetaFile E put mv ext s =
     (case modURLBases E mv of Inl e \<Rightarrow> (Inl e, s) | Inr bs \<Rightarrow> metaFile_loop E put mv ext [] bs s)"

definition downloadModFile :: "('st, 'h) fs_env \<Rightarrow> mod_version \<Rightarrow> ('st, 'h) fs \<Rightarrow> (err + bytes) \<times> ('st, 'h) fs" where
  "downloadModFile E mv s = downloadMetaFile E (PutModFile (Store E)) mv ''mod'' s"

definition downloadInfoFile :: "('st, 'h) fs_env \<Rightarrow> mod_version \<Rightarrow> ('st, 'h) fs \<Rightarrow> (err + bytes) \<times> ('st, 'h) fs" where
  "downloadInfoFile E mv s = downloadMetaFile E (PutInfoFile (Store E)) mv ''info'' s"

fun zipSet_loop ::
  "('st, 'h) fs_env \<Rightarrow> string \<Rightarrow> (string \<times> bytes) list \<Rightarrow> string list \<Rightarrow> ('st, 'h) fs \<Rightarrow>
    (err + (string \<times> bytes) list) \<times> ('st, 'h) fs" where
  "zipSet_loop E baseURL download [] s = (Inr download, s)"
| "zipSet_loop E baseURL download (ext # exts) s =
     (let (r, s) = netSlurp E (baseURL @ ''.'' @ ext) s in
      case r of
        Inl e \<Rightarrow> (Inl (Wrap ''failed to download'' [e]), s)
      | Inr data \<Rightarrow> zipSet_loop E baseURL (AList.update ext data download) exts s)"

definition downloadZipSet ::
  "('st, 'h) fs_env \<Rightarrow> string \<Rightarrow> ('st, 'h) fs \<Rightarrow> (err + (string \<times> bytes) list) \<times> ('st, 'h) fs" where
  "downloadZipSet E baseURL s = zipSet_loop E baseURL [] [''zip'', ''info'', ''mod''] s"

fun zipProxy_loop ::
  "('st, 'h) fs_env \<Rightarrow> err list \<Rightarrow> string list \<Rightarrow> ('st, 'h) fs \<Rightarrow> (err + (string \<times> bytes) list) \<times> ('st, 'h) fs" where
  "zipProxy_loop E errs [] s = (Inl (Wrap ''join'' errs), s)"
| "zipProxy_loop E errs (b # bs) s =
     (let (r, s) = downloadZipSet E b s in
      case r of Inl e \<Rightarrow> zipProxy_loop E (errs @ [e]) bs s | Inr d \<Rightarrow> (Inr d, s))"

definition toolchainModule :: string where
  "toolchainModule = ''golang.org/toolchain''"

definition needs_go_mod :: "string set \<Rightarrow> put_file \<Rightarrow> bool" where
  "needs_go_mod have f =
     (let (dir, ok) = cutSuffix (pf_path f) ''_go.mod''
      in ok \<and> (dir = [] \<or> suffix ''/'' dir) \<and> dir @ ''go.mod'' \<notin> have)"

definition addToolchainGoMods :: "put_file list \<Rightarrow> put_file list" where
  "addToolchainGoMods files =
     (let have = set (map pf_path files)
      in files @ map (\<lambda>f. f\<lparr>pf_path := fst (cutSuffix (pf_path f) ''_go.mod'') @ ''go.mod''\<rparr>)
           (filter (needs_go_mod have) files))"

definition slice_from :: "nat \<Rightarrow> string \<Rightarrow> string option" where
  "slice_from n s = (if n \<le> length s then Some (drop n s) else None)"

fun strip_names :: "nat \<Rightarrow> put_file list \<Rightarrow> put_file list option" where
  "strip_names n [] = Some []"
| "strip_names n (f # fs) =
     (case slice_from n (pf_path f) of
        None \<Rightarrow> None
      | Some p \<Rightarrow> map_option (\<lambda>fs. f\<lparr>pf_path := p\<rparr> # fs) (strip_names n fs))"

definition dl_get :: "(string \<times> bytes) list \<Rightarrow> string \<Rightarrow> bytes" where
  "dl_get d ext = (case map_of d ext of None \<Rightarrow> [] | Some b \<Rightarrow> b)"

text \<open>\<^verbatim>\<open>dirhash.Hash1\<close> opens a name through \<^verbatim>\<open>zipOfFile\<close>, where the last file of a name wins.\<close>

definition zipOfFile :: "put_file list \<Rightarrow> string \<rightharpoonup> bytes" where
  "zipOfFile zfs = map_of (map (\<lambda>f. (pf_path f, pf_content f)) (rev zfs))"

definition prefix_len :: "mod_version \<Rightarrow> nat" where
  "prefix_len mv = length (Module mv) + length ''@'' + length (Version mv) + length ''/''"

definition mk_put :: "('st, 'h) fs_env \<Rightarrow> mod_version \<Rightarrow> (string \<times> bytes) list \<Rightarrow> put_data res" where
  "mk_put E mv download =
     (case unzip E (dl_get download ''zip'') of
        None \<Rightarrow> Fail (ErrMsg ''failed to unzip module data'')
      | Some zfs \<Rightarrow>
          (case Hash1 E (map (\<lambda>f. (pf_path f, the (zipOfFile zfs (pf_path f)))) zfs) of
             Inl e \<Rightarrow> Fail (Wrap ''failed to hash zip contents'' [e])
           | Inr zipHash \<Rightarrow>
               (case strip_names (prefix_len mv) zfs of
                  None \<Rightarrow> Panic
                | Some files \<Rightarrow>
                    Ok \<lparr>InfoFile = Some (dl_get download ''info''), ModFile = Some (dl_get download ''mod''),
                        ZipHash = Some (to_bytes zipHash),
                        Files = (if Module mv = toolchainModule then addToolchainGoMods files else files)\<rparr>)))"

definition downloadZip :: "('st, 'h) fs_env \<Rightarrow> mod_version \<Rightarrow> ('st, 'h) fs \<Rightarrow> 'h res \<times> ('st, 'h) fs" where
  "downloadZip E mv s =
     (case modURLBases E mv of
        Inl e \<Rightarrow> (Fail e, s)
      | Inr baseURLs \<Rightarrow>
          (let (r, s) = zipProxy_loop E [] baseURLs s in
           case r of
             Inl e \<Rightarrow> (Fail e, s)
           | Inr download \<Rightarrow>
               (case mk_put E mv download of
                  Fail e \<Rightarrow> (Fail e, s)
                | Panic \<Rightarrow> (Panic, s)
                | Ok put \<Rightarrow>
                    (let (h, st') = PutModule (Store E) (st s) mv put in (h, s\<lparr>st := st'\<rparr>)))))"

section \<open>The Tailscale Go toolchain\<close>

definition tsgo_mv :: "string \<Rightarrow> string \<Rightarrow> string \<Rightarrow> mod_version" where
  "tsgo_mv goos goarch commitHash =
     \<lparr>Module = ''github.com/tailscale/go'', Version = ''tsgo-'' @ goos @ ''-'' @ goarch @ ''-'' @ commitHash\<rparr>"

definition tsgo_url :: "string \<Rightarrow> string \<Rightarrow> string \<Rightarrow> string" where
  "tsgo_url goos goarch commitHash =
     ''https://github.com/tailscale/go/releases/download/build-'' @ commitHash @ ''/'' @ goos @ ''-'' @ goarch @ ''.tar.gz''"

definition tsgo_files :: "tar_entry list \<Rightarrow> put_file list" where
  "tsgo_files es = map (\<lambda>e. \<lparr>pf_path = trimPrefix (tar_name e) ''go/'', pf_mode = tar_mode e, pf_content = tar_content e\<rparr>)
     (filter (\<lambda>e. \<not> is_dir (tar_mode e)) es)"

definition getTailscaleGoRoot ::
  "('st, 'h) fs_env \<Rightarrow> string \<Rightarrow> string \<Rightarrow> string \<Rightarrow> ('st, 'h) fs \<Rightarrow> 'h res \<times> ('st, 'h) fs" where
  "getTailscaleGoRoot E goos goarch commitHash s =
     (let mv = tsgo_mv goos goarch commitHash in
      case GetZipRoot (Store E) (st s) mv of
        Inr h \<Rightarrow> (Ok h, s)
      | Inl e \<Rightarrow>
          (if \<not> errors_Is e ErrCacheMiss then (Fail e, s)
           else let (r, s) = netSlurp E (tsgo_url goos goarch commitHash) s in
           case r of
             Inl e \<Rightarrow> (Fail (Wrap ''failed to download'' [e]), s)
           | Inr tgz \<Rightarrow>
               (case untgz E tgz of
                  Inl e \<Rightarrow> (Fail e, s)
                | Inr es \<Rightarrow>
                    (let (h, st') = PutModule (Store E) (st s) mv
                           \<lparr>InfoFile = None, ModFile = None, ZipHash = None, Files = tsgo_files es\<rparr>
                     in (h, s\<lparr>st := st'\<rparr>)))))"

section \<open>Tables of path hashes\<close>

text \<open>
  Writing to a nil map panics and a parent walk from a rooted path never ends: both are \<^term>\<open>None\<close>.
\<close>

definition mkTargetFromPath :: "string \<Rightarrow> handleTarget" where
  "mkTargetFromPath path = \<lparr>t_path = path, t_segs = splitSegs path\<rparr>"

definition addPathHashTargetLocked :: "('st, 'h) fs_env \<Rightarrow> string \<Rightarrow> ('st, 'h) fs \<Rightarrow> ('st, 'h) fs option" where
  "addPathHashTargetLocked E path s =
     (case pathHashTarget s of
        None \<Rightarrow> None
      | Some m \<Rightarrow> Some (s\<lparr>pathHashTarget := Some (AList.update (mkPathHash E path) (mkTargetFromPath path) m)\<rparr>))"

definition parents_stop :: "string \<Rightarrow> bool" where
  "parents_stop s \<longleftrightarrow> s = ''.'' \<or> s = ''cache'' \<or> s = ''cache/download''"

partial_function (option) addParentPathsLocked ::
  "('st, 'h) fs_env \<Rightarrow> string \<Rightarrow> ('st, 'h) fs \<Rightarrow> ('st, 'h) fs option" where
  "addParentPathsLocked E path s =
     (let path = path_Dir path in
      if parents_stop path then Some s
      else Option.bind (addPathHashTargetLocked E path s) (\<lambda>s. addParentPathsLocked E path s))"

definition addModuleVersionPathsLocked ::
  "('st, 'h) fs_env \<Rightarrow> mod_version \<Rightarrow> ('st, 'h) fs \<Rightarrow> ('st, 'h) fs option" where
  "addModuleVersionPathsLocked E mv s =
     (case addParentPathsLocked E (cdPath (XM E) mv ''foo'') s of
        None \<Rightarrow> None
      | Some s \<Rightarrow>
          (case modVerZipPrefix (XM E) mv of
             None \<Rightarrow> Some s
           | Some path \<Rightarrow> addParentPathsLocked E path s))"

definition put_mvh :: "('st, 'h) fs_env \<Rightarrow> mod_version \<Rightarrow> ('st, 'h) fs \<Rightarrow> ('st, 'h) fs option" where
  "put_mvh E mv s =
     (case modVerHash s of
        None \<Rightarrow> None
      | Some m \<Rightarrow> Some (s\<lparr>modVerHash := Some (AList.update (hashModVersion E mv) mv m)\<rparr>))"

fun fold_opt :: "('x \<Rightarrow> 's \<Rightarrow> 's option) \<Rightarrow> 'x list \<Rightarrow> 's \<Rightarrow> 's option" where
  "fold_opt f [] s = Some s"
| "fold_opt f (x # xs) s = Option.bind (f x s) (fold_opt f xs)"

definition tsgo_dirs :: "string list" where
  "tsgo_dirs = concat (map (\<lambda>goos. map (\<lambda>goarch. ''tsgo-'' @ goos @ ''-'' @ goarch) tsGoGoarches) tsGoGeese)"

definition initHandleMapsLocked ::
  "('st, 'h) fs_env \<Rightarrow> ('st, 'h) fs \<Rightarrow> (err option \<times> ('st, 'h) fs) option" where
  "initHandleMapsLocked E s =
     (if modVerHash s \<noteq> None then Some (None, s)
      else
      case CachedModules (Store E) (st s) of
        Inl e \<Rightarrow> Some (Some (Wrap ''CachedModules'' [e]), s)
      | Inr mvs \<Rightarrow>
          (let s = s\<lparr>modVerHash := Some [], pathHashTarget := Some []\<rparr> in
           map_option (Pair None)
             (Option.bind (fold_opt (\<lambda>mv s. Option.bind (put_mvh E mv s) (addModuleVersionPathsLocked E mv)) mvs s)
               (fold_opt (addPathHashTargetLocked E) ([''cache'', ''cache/download'', statusFile] @ tsgo_dirs)))))"

definition moduleVersionWithHash ::
  "('st, 'h) fs_env \<Rightarrow> bytes \<Rightarrow> ('st, 'h) fs \<Rightarrow> ((err + mod_version) \<times> ('st, 'h) fs) option" where
  "moduleVersionWithHash E mvh s =
     (case initHandleMapsLocked E s of
        None \<Rightarrow> None
      | Some (Some e, s) \<Rightarrow> Some (Inl e, s)
      | Some (None, s) \<Rightarrow>
          Some (Inr (case modVerHash s of None \<Rightarrow> no_mv
                     | Some m \<Rightarrow> (case map_of m mvh of None \<Rightarrow> no_mv | Some mv \<Rightarrow> mv)), s))"

definition handleTargetWithPathHash ::
  "('st, 'h) fs_env \<Rightarrow> bytes \<Rightarrow> ('st, 'h) fs \<Rightarrow> ((err + handleTarget) \<times> ('st, 'h) fs) option" where
  "handleTargetWithPathHash E ph s =
     (case initHandleMapsLocked E s of
        None \<Rightarrow> None
      | Some (Some e, s) \<Rightarrow> Some (Inl e, s)
      | Some (None, s) \<Rightarrow>
          Some (case pathHashTarget s of None \<Rightarrow> Inl StaleErr
                | Some m \<Rightarrow> (case map_of m ph of None \<Rightarrow> Inl StaleErr | Some ht \<Rightarrow> Inr ht), s))"

section \<open>Zip roots\<close>

definition getZipRootCached :: "mod_version \<Rightarrow> ('st, 'h) fs \<Rightarrow> 'h option" where
  "getZipRootCached mv s = (case zipRootCache s of None \<Rightarrow> None | Some m \<Rightarrow> map_of m mv)"

definition setZipRootCache :: "('st, 'h) fs_env \<Rightarrow> mod_version \<Rightarrow> 'h \<Rightarrow> ('st, 'h) fs \<Rightarrow> ('st, 'h) fs option" where
  "setZipRootCache E mv h s =
     (let s = (if zipRootCache s = None then s\<lparr>zipRootCache := Some []\<rparr> else s) in
      map_option (\<lambda>s. s\<lparr>zipRootCache := map_option (AList.update mv h) (zipRootCache s)\<rparr>)
        (if modVerHash s \<noteq> None
         then Option.bind (put_mvh E mv s) (addModuleVersionPathsLocked E mv)
         else Some s))"

definition done_root :: "('st, 'h) fs_env \<Rightarrow> mod_version \<Rightarrow> 'h \<Rightarrow> ('st, 'h) fs \<Rightarrow> 'h res \<times> ('st, 'h) fs" where
  "done_root E mv root s = (case setZipRootCache E mv root s of None \<Rightarrow> (Panic, s) | Some s \<Rightarrow> (Ok root, s))"

text \<open>\<^verbatim>\<open>strings.SplitN(v, "-", 4)\<close>: the first three fields and the rest.\<close>

definition splitN4 :: "string \<Rightarrow> string list" where
  "splitN4 v = (let ps = split_on CHR ''-'' v in
     if length ps < 4 then ps else take 3 ps @ [join_on CHR ''-'' (drop 3 ps)])"

definition is_tsgo_mv :: "mod_version \<Rightarrow> bool" where
  "is_tsgo_mv mv \<longleftrightarrow> Module mv = ''github.com/tailscale/go'' \<and> prefix ''tsgo-'' (Version mv)"

definition getZipRoot_tsgo :: "('st, 'h) fs_env \<Rightarrow> mod_version \<Rightarrow> ('st, 'h) fs \<Rightarrow> 'h res \<times> ('st, 'h) fs" where
  "getZipRoot_tsgo E mv s =
     (let parts = splitN4 (Version mv) in
      if length parts \<noteq> 4 then (Fail (ErrMsg ''invalid tsgo version''), s)
      else case getTailscaleGoRoot E (parts ! 1) (parts ! 2) (parts ! 3) s of
        (Ok root, s) \<Rightarrow> done_root E mv root s
      | (Fail e, s) \<Rightarrow> (Fail (Wrap ''failed to get Tailscale Go root'' [e]), s)
      | (Panic, s) \<Rightarrow> (Panic, s))"

text \<open>What the store answers, a toolchain stored without its \<^verbatim>\<open>go.mod\<close> copies being a miss.\<close>

definition store_root :: "('st, 'h) fs_env \<Rightarrow> mod_version \<Rightarrow> ('st, 'h) fs \<Rightarrow> err + 'h" where
  "store_root E mv s =
     (case GetZipRoot (Store E) (st s) mv of
        Inl e \<Rightarrow> Inl e
      | Inr root \<Rightarrow>
          (if Module mv = toolchainModule \<and> \<not> ReadOnly E
           then (case Stat (Store E) (st s) root ''src/go.mod'' of
                   Inl e \<Rightarrow> if errors_Is e ErrNotExist then Inl ErrCacheMiss else Inr root
                 | Inr _ \<Rightarrow> Inr root)
           else Inr root))"

definition getZipRoot :: "('st, 'h) fs_env \<Rightarrow> mod_version \<Rightarrow> ('st, 'h) fs \<Rightarrow> 'h res \<times> ('st, 'h) fs" where
  "getZipRoot E mv s =
     (case getZipRootCached mv s of
        Some mh \<Rightarrow> (Ok mh, s)
      | None \<Rightarrow>
          (if is_tsgo_mv mv then getZipRoot_tsgo E mv s
           else
           case store_root E mv s of
             Inr root \<Rightarrow> done_root E mv root s
           | Inl e \<Rightarrow>
               (if \<not> errors_Is e ErrCacheMiss then (Fail (Wrap ''failed to get zip root'' [e]), s)
                else if ReadOnly E then (Fail ErrCacheMiss, s)
                else rbind (downloadZip E mv s) (done_root E mv))))"

section \<open>Metadata files\<close>

definition getMetaFile ::
  "('st, 'h) fs_env \<Rightarrow> (mod_version \<Rightarrow> ('st, 'h) fs \<Rightarrow> err + bytes) \<Rightarrow>
    (mod_version \<Rightarrow> ('st, 'h) fs \<Rightarrow> (err + bytes) \<times> ('st, 'h) fs) \<Rightarrow> mod_version \<Rightarrow> ('st, 'h) fs \<Rightarrow>
    bytes res \<times> ('st, 'h) fs" where
  "getMetaFile E getFromStore downloadAndFill mv s =
     (case getFromStore mv s of
        Inr v \<Rightarrow> (Ok v, s)
      | Inl e \<Rightarrow>
          (if \<not> errors_Is e ErrCacheMiss then (Fail (Wrap ''failed to get file'' [e]), s)
           else if ReadOnly E then (Fail ErrCacheMiss, s)
           else case downloadAndFill mv s of
             (Inl _, s) \<Rightarrow> (Fail EIO, s)
           | (Inr v, s) \<Rightarrow> (Ok v, s)))"

definition getModFile :: "('st, 'h) fs_env \<Rightarrow> mod_version \<Rightarrow> ('st, 'h) fs \<Rightarrow> bytes res \<times> ('st, 'h) fs" where
  "getModFile E mv s = getMetaFile E (\<lambda>mv s. GetModFile (Store E) (st s) mv) (downloadModFile E) mv s"

definition getInfoFile :: "('st, 'h) fs_env \<Rightarrow> mod_version \<Rightarrow> ('st, 'h) fs \<Rightarrow> bytes res \<times> ('st, 'h) fs" where
  "getInfoFile E mv s = getMetaFile E (\<lambda>mv s. GetInfoFile (Store E) (st s) mv) (downloadInfoFile E) mv s"

definition getZiphash :: "('st, 'h) fs_env \<Rightarrow> mod_version \<Rightarrow> ('st, 'h) fs \<Rightarrow> bytes res \<times> ('st, 'h) fs" where
  "getZiphash E mv s = rbind (getZipRoot E mv s) (\<lambda>zr s. (of_sum (GetZipHash (Store E) (st s) zr), s))"

definition getMetaFileByExt ::
  "('st, 'h) fs_env \<Rightarrow> mod_version \<Rightarrow> string \<Rightarrow> ('st, 'h) fs \<Rightarrow> bytes res \<times> ('st, 'h) fs" where
  "getMetaFileByExt E mv ext s =
     (if ext = ''mod'' then getModFile E mv s
      else if ext = ''ziphash'' then getZiphash E mv s
      else if ext = ''info'' then getInfoFile E mv s
      else (Fail (ErrMsg ''unknown meta file extension''), s))"

section \<open>Walking a module's paths\<close>

datatype walk_item = Wpath string | Werr err

text \<open>
  The sequence \<^verbatim>\<open>walkStoreModulePaths\<close> yields to a consumer that never stops it, and whether the
  directory was walked to its end.  Fuel bounds the depth of directories.
\<close>

definition sub_path :: "string \<Rightarrow> string \<Rightarrow> string" where
  "sub_path path name = (if path \<noteq> [] then path @ ''/'' @ name else name)"

fun doEnts :: "(string \<Rightarrow> (walk_item list \<times> bool) option) \<Rightarrow> string \<Rightarrow> dirent list \<Rightarrow> (walk_item list \<times> bool) option" where
  "doEnts doDir path [] = Some ([], True)"
| "doEnts doDir path (ent # ents) =
     (let sub = sub_path path (d_name ent) in
      case (if is_dir (d_mode ent) then doDir sub else Some ([Wpath sub], True)) of
        None \<Rightarrow> None
      | Some (xs, False) \<Rightarrow> Some (xs, False)
      | Some (xs, True) \<Rightarrow> map_option (\<lambda>(ys, b). (xs @ ys, b)) (doEnts doDir path ents))"

fun doDir :: "nat \<Rightarrow> (string \<Rightarrow> err + dirent list) \<Rightarrow> string \<Rightarrow> (walk_item list \<times> bool) option" where
  "doDir 0 rd path = None"
| "doDir (Suc n) rd path =
     (case rd path of
        Inl e \<Rightarrow> Some ([Wpath path, Werr e], False)
      | Inr ents \<Rightarrow> map_option (\<lambda>(xs, b). (Wpath path # xs, b)) (doEnts (doDir n rd) path ents))"

definition walkStoreModulePaths :: "nat \<Rightarrow> (string \<Rightarrow> err + dirent list) \<Rightarrow> walk_item list option" where
  "walkStoreModulePaths fuel rd = map_option fst (doDir fuel rd [])"

lemma splitSegs_joinSegs:
  "list_all clean_name ss \<Longrightarrow> splitSegs (joinSegs ss) = ss"
  using join_on_hd(1) [of ss] split_join [of ss slash]
  by (cases "ss = []") (auto simp: splitSegs_def joinSegs_def list_all_iff clean_name_def)

lemma sub_path_join:
  "list_all clean_name ss \<Longrightarrow> sub_path (joinSegs ss) n = joinSegs (ss @ [n])"
  using join_on_hd(1) [of ss] by (cases "ss = []") (auto simp: sub_path_def joinSegs_def join_on_append)

section \<open>What the table operations leave alone\<close>

definition same_io :: "('st, 'h) fs \<Rightarrow> ('st, 'h) fs \<Rightarrow> bool" where
  "same_io s s' \<longleftrightarrow> st s' = st s \<and> fetched s' = fetched s \<and> handle_map s' = handle_map s"

lemma same_io_refl [simp]: "same_io s s"
  by (simp add: same_io_def)

lemma same_io_trans: "same_io a b \<Longrightarrow> same_io b c \<Longrightarrow> same_io a c"
  by (simp add: same_io_def)

definition tables_only :: "('st, 'h) fs \<Rightarrow> ('st, 'h) fs \<Rightarrow> bool" where
  "tables_only s s' \<longleftrightarrow> same_io s s' \<and> zipRootCache s' = zipRootCache s"

lemma tables_only_refl [simp]: "tables_only s s"
  by (simp add: tables_only_def)

lemma tables_only_trans [trans]: "tables_only a b \<Longrightarrow> tables_only b c \<Longrightarrow> tables_only a c"
  by (simp add: tables_only_def same_io_def)

lemma addPathHashTarget_tables: "addPathHashTargetLocked E p s = Some s' \<Longrightarrow> tables_only s s'"
  by (auto simp: addPathHashTargetLocked_def tables_only_def same_io_def split: option.splits)

lemma put_mvh_tables: "put_mvh E mv s = Some s' \<Longrightarrow> tables_only s s'"
  by (auto simp: put_mvh_def tables_only_def same_io_def split: option.splits)

lemma addParentPaths_tables:
  assumes "addParentPathsLocked E p s = Some s'"
  shows "tables_only s s'"
proof (rule addParentPathsLocked.raw_induct [OF _ assms])
  fix rec E p s s'
  assume 1: "\<And>E p s s'. rec E p s = Some s' \<Longrightarrow> tables_only s s'"
    "(let path = path_Dir p in if parents_stop path then Some s
      else Option.bind (addPathHashTargetLocked E path s) (\<lambda>s. rec E path s)) = Some s'"
  show "tables_only s s'"
  proof (cases "parents_stop (path_Dir p)")
    case True
    with 1 show ?thesis by simp
  next
    case False
    with 1(2) obtain s1 where s1: "addPathHashTargetLocked E (path_Dir p) s = Some s1" "rec E (path_Dir p) s1 = Some s'"
      by (auto simp: Let_def split: Option.bind_splits)
    from addPathHashTarget_tables [OF s1(1)] 1(1) [OF s1(2)] show ?thesis by (rule tables_only_trans)
  qed
qed

lemma addModuleVersionPaths_tables:
  assumes "addModuleVersionPathsLocked E mv s = Some s'"
  shows "tables_only s s'"
proof -
  from assms obtain s1 where s1: "addParentPathsLocked E (cdPath (XM E) mv ''foo'') s = Some s1"
    and s2: "s' = s1 \<or> (\<exists>p. addParentPathsLocked E p s1 = Some s')"
    by (auto simp: addModuleVersionPathsLocked_def split: option.splits)
  from s2 have "tables_only s1 s'" using addParentPaths_tables by auto
  with addParentPaths_tables [OF s1] show ?thesis by (rule tables_only_trans)
qed

lemma setZipRootCache_io:
  assumes "setZipRootCache E mv h s = Some s'"
  shows "same_io s s'" "getZipRootCached mv s' = Some h"
proof -
  define s1 where "s1 = (if zipRootCache s = None then s\<lparr>zipRootCache := Some []\<rparr> else s)"
  have s1: "same_io s s1" "zipRootCache s1 \<noteq> None" by (auto simp: s1_def same_io_def)
  from assms obtain s2 where s2: "(if modVerHash s1 \<noteq> None
      then Option.bind (put_mvh E mv s1) (addModuleVersionPathsLocked E mv) else Some s1) = Some s2"
    "s' = s2\<lparr>zipRootCache := map_option (AList.update mv h) (zipRootCache s2)\<rparr>"
    unfolding setZipRootCache_def Let_def s1_def [symmetric] by blast
  have "tables_only s1 s2"
  proof (cases "modVerHash s1 = None")
    case False
    with s2(1) obtain s3 where "put_mvh E mv s1 = Some s3" "addModuleVersionPathsLocked E mv s3 = Some s2"
      by (auto split: Option.bind_splits)
    from put_mvh_tables [OF this(1)] addModuleVersionPaths_tables [OF this(2)] show ?thesis by (rule tables_only_trans)
  qed (use s2 in simp)
  then have t: "same_io s1 s2" "zipRootCache s2 = zipRootCache s1" by (auto simp: tables_only_def)
  with s1 show "same_io s s'" by (simp add: s2(2) same_io_def)
  from t s1 show "getZipRootCached mv s' = Some h" by (auto simp: s2(2) getZipRootCached_def update_conv')
qed

lemma done_root_io:
  assumes "done_root E mv root s = (r, s')"
  shows "same_io s s'" "r = Ok h \<Longrightarrow> h = root \<and> getZipRootCached mv s' = Some root"
  using assms setZipRootCache_io [of E mv root s]
  by (auto simp: done_root_def split: option.splits)

section \<open>A store in memory, for examples\<close>

definition mem_store :: "((mod_version \<times> put_data) list, mod_version) store_ops" where
  "mem_store = \<lparr>
     CachedModules = (\<lambda>d. Inr (map fst d)),
     GetZipRoot = (\<lambda>d mv. if map_of d mv = None then Inl ErrCacheMiss else Inr mv),
     GetInfoFile = (\<lambda>d mv. case map_of d mv of None \<Rightarrow> Inl ErrCacheMiss | Some p \<Rightarrow> (case InfoFile p of None \<Rightarrow> Inl ErrCacheMiss | Some b \<Rightarrow> Inr b)),
     GetModFile = (\<lambda>d mv. case map_of d mv of None \<Rightarrow> Inl ErrCacheMiss | Some p \<Rightarrow> (case ModFile p of None \<Rightarrow> Inl ErrCacheMiss | Some b \<Rightarrow> Inr b)),
     GetZipHash = (\<lambda>d h. case map_of d h of None \<Rightarrow> Inl (ErrMsg ''bad handle'') | Some p \<Rightarrow> (case ZipHash p of None \<Rightarrow> Inl ErrNotExist | Some b \<Rightarrow> Inr b)),
     GetFile = (\<lambda>d h path. Inl ErrNotExist),
     Stat = (\<lambda>d h path. Inl ErrNotExist),
     Readdir = (\<lambda>d h path. if path = [] then Inr [] else Inl ErrNotExist),
     PutModFile = (\<lambda>d mv b. (None, d)),
     PutInfoFile = (\<lambda>d mv b. (None, d)),
     PutModule = (\<lambda>d mv p. (Ok mv, AList.update mv p d))\<rparr>"

definition mem_mv :: mod_version where
  "mem_mv = \<lparr>Module = ''go4.org/mem'', Version = ''v1.2.3''\<rparr>"

definition mem_env :: "bool \<Rightarrow> ((mod_version \<times> put_data) list, mod_version) fs_env" where
  "mem_env ro = \<lparr>Store = mem_store, XM = mem_xmod,
     net = (\<lambda>u. if prefix ''https://b'' u then Inr (to_bytes u) else Inl (ErrMsg ''404'')),
     unzip = (\<lambda>b. Some [\<lparr>pf_path = ''go4.org/mem@v1.2.3/mem.go'', pf_mode = \<lparr>is_dir = False, perm = 420\<rparr>, pf_content = [1]\<rparr>]),
     Hash1 = (\<lambda>fs. Inr ''h1:''), untgz = (\<lambda>b. Inr []), sha = (\<lambda>b. take 32 (b @ replicate 32 1)),
     ModuleProxyURL = [], ModuleProxyURLs = [''https://a'', ''https://b/''], ReadOnly = ro\<rparr>"

definition fs0 :: "((mod_version \<times> put_data) list, mod_version) fs" where
  "fs0 = \<lparr>st = [], fetched = [], zipRootCache = None, modVerHash = None, pathHashTarget = None, handle_map = None\<rparr>"

section \<open>Read-only mode\<close>

lemma getZipRoot_readonly:
  assumes "ReadOnly E" "\<not> is_tsgo_mv mv" "getZipRoot E mv s = (r, s')"
  shows "same_io s s'"
  using assms by (auto simp: getZipRoot_def split: option.splits sum.splits if_splits dest: done_root_io(1))

lemma getMetaFile_readonly:
  "ReadOnly E \<Longrightarrow> getMetaFile E g d mv s = (r, s') \<Longrightarrow> s' = s"
  by (auto simp: getMetaFile_def split: sum.splits if_splits)

text \<open>
  C16. A read-only file system never downloads and never writes its store: for every module version
  outside the Tailscale Go name space, getting its zip root or any of its metadata files requests no
  URL and leaves the store as it was; a module the store does not have is reported as a cache miss.
\<close>
theorem readonly_never_downloads:
  assumes "ReadOnly E" "\<not> is_tsgo_mv mv"
  shows "same_io s (snd (getZipRoot E mv s)) \<and> same_io s (snd (getMetaFileByExt E mv ext s)) \<and>
    (getZipRootCached mv s = None \<and> GetZipRoot (Store E) (st s) mv = Inl ErrCacheMiss \<longrightarrow>
       getZipRoot E mv s = (Fail ErrCacheMiss, s))"
proof (intro conjI impI)
  show z: "same_io s (snd (getZipRoot E mv s))"
    using getZipRoot_readonly [OF assms] by (metis prod.collapse)
  have m: "snd (getMetaFile E g d mv s) = s" for g d
    using getMetaFile_readonly [OF assms(1)] by (metis prod.collapse)
  have "same_io s (snd (getZiphash E mv s))"
    using z by (simp add: getZiphash_def rbind_state)
  then show "same_io s (snd (getMetaFileByExt E mv ext s))"
    by (simp add: getMetaFileByExt_def getModFile_def getInfoFile_def m)
  assume "getZipRootCached mv s = None \<and> GetZipRoot (Store E) (st s) mv = Inl ErrCacheMiss"
  then show "getZipRoot E mv s = (Fail ErrCacheMiss, s)"
    using assms by (simp add: getZipRoot_def store_root_def)
qed

theorem readonly_never_downloads_witness:
  "getZipRoot (mem_env True) mem_mv fs0 = (Fail ErrCacheMiss, fs0)"
  using readonly_never_downloads [of "mem_env True" mem_mv fs0]
  by (simp add: mem_env_def mem_mv_def is_tsgo_mv_def fs0_def getZipRootCached_def mem_store_def)

text \<open>The Tailscale Go toolchain is fetched on a miss whatever \<^verbatim>\<open>ReadOnly\<close> says.\<close>

theorem readonly_tsgo_downloads:
  assumes "is_tsgo_mv mv" "splitN4 (Version mv) = [''tsgo'', goos, goarch, hash]" "getZipRootCached mv s = None"
    "GetZipRoot (Store E) (st s) (tsgo_mv goos goarch hash) = Inl ErrCacheMiss"
  shows "fetched (snd (getZipRoot E mv s)) = fetched s @ [tsgo_url goos goarch hash]"
proof -
  let ?s1 = "s\<lparr>fetched := fetched s @ [tsgo_url goos goarch hash]\<rparr>"
  obtain r s1 where g: "getTailscaleGoRoot E goos goarch hash s = (r, s1)" by fastforce
  have f: "fetched s1 = fetched ?s1"
    using g assms(4) by (auto simp: getTailscaleGoRoot_def netSlurp_def Let_def split: sum.splits prod.splits)
  have "fetched (snd (done_root E mv root s1)) = fetched s1" for root
    using done_root_io(1) by (metis prod.collapse same_io_def)
  then show ?thesis
    using assms g f by (cases r) (simp_all add: getZipRoot_def getZipRoot_tsgo_def)
qed

section \<open>Repeated lookups\<close>

text \<open>
  A zip root is resolved once: when getting the zip root of a module version succeeds, getting it
  again at once returns the same handle and changes nothing, so neither the store nor the network
  is asked again.
\<close>
theorem getZipRoot_cached:
  assumes "getZipRoot E mv s = (Ok h, s')"
  shows "getZipRoot E mv s' = (Ok h, s')"
proof -
  have "getZipRootCached mv s' = Some h"
  proof (cases "getZipRootCached mv s")
    case (Some h')
    with assms show ?thesis by (simp add: getZipRoot_def)
  next
    case None
    have "\<exists>root s1. done_root E mv root s1 = (Ok h, s')"
    proof (cases "is_tsgo_mv mv")
      case True
      with None assms have "getZipRoot_tsgo E mv s = (Ok h, s')" by (simp add: getZipRoot_def)
      then show ?thesis
        by (auto simp: getZipRoot_tsgo_def Let_def split: if_splits prod.splits res.splits)
    next
      case False
      show ?thesis
      proof (cases "store_root E mv s")
        case (Inr root)
        with None False assms show ?thesis by (auto simp: getZipRoot_def)
      next
        case (Inl e)
        with None False assms have "rbind (downloadZip E mv s) (done_root E mv) = (Ok h, s')"
          unfolding getZipRoot_def by (simp split: if_splits)
        then show ?thesis by (auto simp: rbind_Ok_iff)
      qed
    qed
    then obtain root s1 where "done_root E mv root s1 = (Ok h, s')" by blast
    from done_root_io(2) [OF this refl] show ?thesis by simp
  qed
  then show ?thesis by (simp add: getZipRoot_def)
qed

theorem getZipRoot_cached_witness:
  "\<exists>s'. getZipRoot (mem_env False) mem_mv fs0 = (Ok mem_mv, s') \<and> getZipRoot (mem_env False) mem_mv s' = (Ok mem_mv, s')"
proof -
  have "fst (getZipRoot (mem_env False) mem_mv fs0) = Ok mem_mv" by code_simp
  then obtain s' where g: "getZipRoot (mem_env False) mem_mv fs0 = (Ok mem_mv, s')" by (metis prod.collapse)
  from getZipRoot_cached [OF g] g show ?thesis by blast
qed

section \<open>Which proxy a download comes from\<close>

definition serves :: "('st, 'h) fs_env \<Rightarrow> string list \<Rightarrow> string \<Rightarrow> bool" where
  "serves E exts b \<longleftrightarrow> (\<forall>ext \<in> set exts. \<not> isl (net E (b @ ''.'' @ ext)))"

definition body :: "('st, 'h) fs_env \<Rightarrow> string \<Rightarrow> string \<Rightarrow> bytes" where
  "body E b ext = projr (net E (b @ ''.'' @ ext))"

lemma downloadZipSet_spec:
  "st (snd (downloadZipSet E b s)) = st s \<and> zipRootCache (snd (downloadZipSet E b s)) = zipRootCache s \<and>
   (if serves E [''zip'', ''info'', ''mod''] b
    then fst (downloadZipSet E b s) = Inr [(''zip'', body E b ''zip''), (''info'', body E b ''info''), (''mod'', body E b ''mod'')]
    else isl (fst (downloadZipSet E b s)))"
  by (auto simp: downloadZipSet_def netSlurp_def serves_def body_def split: sum.split)

lemma zipProxy_loop_spec:
  "st (snd (zipProxy_loop E errs bs s)) = st s \<and> zipRootCache (snd (zipProxy_loop E errs bs s)) = zipRootCache s \<and>
   (case find (serves E [''zip'', ''info'', ''mod'']) bs of
      None \<Rightarrow> isl (fst (zipProxy_loop E errs bs s))
    | Some b \<Rightarrow> fst (zipProxy_loop E errs bs s) =
        Inr [(''zip'', body E b ''zip''), (''info'', body E b ''info''), (''mod'', body E b ''mod'')])"
proof (induction bs arbitrary: errs s)
  case (Cons b bs)
  obtain r s1 where d: "downloadZipSet E b s = (r, s1)" by fastforce
  with downloadZipSet_spec [of E b s] have s1: "st s1 = st s" "zipRootCache s1 = zipRootCache s"
    and r: "if serves E [''zip'', ''info'', ''mod''] b
      then r = Inr [(''zip'', body E b ''zip''), (''info'', body E b ''info''), (''mod'', body E b ''mod'')] else isl r"
    by auto
  show ?case
  proof (cases "serves E [''zip'', ''info'', ''mod''] b")
    case True
    with r d s1 show ?thesis by simp
  next
    case False
    with r obtain e where "r = Inl e" by (auto simp: isl_def)
    with d False Cons.IH [of "errs @ [e]" s1] s1 show ?thesis
      by (cases "find (serves E [''zip'', ''info'', ''mod'']) bs") simp_all
  qed
qed simp

text \<open>
  C15. A module version's zip, info and mod files come from one proxy: when downloading a zip succeeds,
  the data given to the store was built from the three files of the first proxy in the configured
  order that serves all three, and the result is the store's; when some proxy serves all three the
  download reaches the store unless the zip cannot be read, and when none does, it fails with the
  store untouched.
\<close>
theorem downloadZip_one_proxy:
  assumes "modURLBases E mv = Inr bases"
  shows "case find (serves E [''zip'', ''info'', ''mod'']) bases of
      None \<Rightarrow> (\<exists>e. fst (downloadZip E mv s) = Fail e) \<and> st (snd (downloadZip E mv s)) = st s
    | Some b \<Rightarrow>
        (case mk_put E mv [(''zip'', body E b ''zip''), (''info'', body E b ''info''), (''mod'', body E b ''mod'')] of
           Ok put \<Rightarrow> InfoFile put = Some (body E b ''info'') \<and> ModFile put = Some (body E b ''mod'') \<and>
             fst (downloadZip E mv s) = fst (PutModule (Store E) (st s) mv put) \<and>
             st (snd (downloadZip E mv s)) = snd (PutModule (Store E) (st s) mv put)
         | Fail e \<Rightarrow> fst (downloadZip E mv s) = Fail e \<and> st (snd (downloadZip E mv s)) = st s
         | Panic \<Rightarrow> fst (downloadZip E mv s) = Panic)"
proof -
  obtain r s1 where z: "zipProxy_loop E [] bases s = (r, s1)" by fastforce
  note spec = zipProxy_loop_spec [of E "[]" bases s, unfolded z fst_conv snd_conv]
  show ?thesis
  proof (cases "find (serves E [''zip'', ''info'', ''mod'']) bases")
    case None
    with spec obtain e where "r = Inl e" by (auto simp: isl_def)
    with spec None show ?thesis by (simp add: downloadZip_def assms z)
  next
    case (Some b)
    let ?d = "[(''zip'', body E b ''zip''), (''info'', body E b ''info''), (''mod'', body E b ''mod'')]"
    from Some spec have r: "r = Inr ?d" and s1: "st s1 = st s" by auto
    show ?thesis
    proof (cases "mk_put E mv ?d")
      case (Ok put)
      then have "InfoFile put = Some (body E b ''info'')" "ModFile put = Some (body E b ''mod'')"
        by (auto simp: mk_put_def dl_get_def split: option.splits sum.splits)
      with Ok Some r s1 show ?thesis by (simp add: downloadZip_def assms z case_prod_beta)
    qed (use Some r s1 in \<open>simp_all add: downloadZip_def assms z\<close>)
  qed
qed

theorem downloadZip_one_proxy_witness:
  "fst (downloadZip (mem_env False) mem_mv fs0) = Ok mem_mv \<and>
   st (snd (downloadZip (mem_env False) mem_mv fs0)) =
     [(mem_mv, \<lparr>InfoFile = Some (to_bytes ''https://b/go4.org/mem/@v/v1.2.3.info''), ModFile = Some (to_bytes ''https://b/go4.org/mem/@v/v1.2.3.mod''),
        ZipHash = Some (to_bytes ''h1:''), Files = [\<lparr>pf_path = ''mem.go'', pf_mode = \<lparr>is_dir = False, perm = 420\<rparr>, pf_content = [1]\<rparr>]\<rparr>)]"
proof -
  let ?bs = "[''https://a/go4.org/mem/@v/v1.2.3'', ''https://b/go4.org/mem/@v/v1.2.3'']"
  have m: "modURLBases (mem_env False) mem_mv = Inr ?bs" by code_simp
  have f: "find (serves (mem_env False) [''zip'', ''info'', ''mod'']) ?bs = Some ''https://b/go4.org/mem/@v/v1.2.3''" by code_simp
  have p: "mk_put (mem_env False) mem_mv [(''zip'', body (mem_env False) ''https://b/go4.org/mem/@v/v1.2.3'' ''zip''),
      (''info'', body (mem_env False) ''https://b/go4.org/mem/@v/v1.2.3'' ''info''),
      (''mod'', body (mem_env False) ''https://b/go4.org/mem/@v/v1.2.3'' ''mod'')] =
    Ok \<lparr>InfoFile = Some (to_bytes ''https://b/go4.org/mem/@v/v1.2.3.info''), ModFile = Some (to_bytes ''https://b/go4.org/mem/@v/v1.2.3.mod''),
        ZipHash = Some (to_bytes ''h1:''), Files = [\<lparr>pf_path = ''mem.go'', pf_mode = \<lparr>is_dir = False, perm = 420\<rparr>, pf_content = [1]\<rparr>]\<rparr>"
    by code_simp
  show ?thesis
    using downloadZip_one_proxy [OF m, of fs0] unfolding f option.case p res.case
    by (simp add: mem_env_def mem_store_def fs0_def)
qed

text \<open>
  A \<^verbatim>\<open>.mod\<close> or \<^verbatim>\<open>.info\<close> file comes from the first proxy in the configured order that serves it: its
  body is stored and returned, a store error is returned as such, and when no proxy serves the file
  nothing is stored.
\<close>
theorem downloadMetaFile_first_proxy:
  assumes "modURLBases E mv = Inr bases"
  shows "case find (serves E [ext]) bases of
      None \<Rightarrow> isl (fst (downloadMetaFile E put mv ext s)) \<and> st (snd (downloadMetaFile E put mv ext s)) = st s
    | Some b \<Rightarrow> st (snd (downloadMetaFile E put mv ext s)) = snd (put (st s) mv (body E b ext)) \<and>
        fst (downloadMetaFile E put mv ext s) = (case fst (put (st s) mv (body E b ext)) of
          None \<Rightarrow> Inr (body E b ext) | Some e \<Rightarrow> Inl (Wrap ''failed to store file'' [e]))"
proof -
  have "case find (serves E [ext]) bs of
      None \<Rightarrow> isl (fst (metaFile_loop E put mv ext errs bs s)) \<and> st (snd (metaFile_loop E put mv ext errs bs s)) = st s
    | Some b \<Rightarrow> st (snd (metaFile_loop E put mv ext errs bs s)) = snd (put (st s) mv (body E b ext)) \<and>
        fst (metaFile_loop E put mv ext errs bs s) = (case fst (put (st s) mv (body E b ext)) of
          None \<Rightarrow> Inr (body E b ext) | Some e \<Rightarrow> Inl (Wrap ''failed to store file'' [e]))" for bs errs
  proof (induction bs arbitrary: errs s)
    case (Cons b bs)
    show ?case
    proof (cases "net E (b @ ''.'' @ ext)")
      case (Inl e)
      then have "\<not> serves E [ext] b" by (simp add: serves_def)
      with Inl show ?thesis
        using Cons.IH [of "errs @ [Wrap ''failed to download'' [e]]" "s\<lparr>fetched := fetched s @ [b @ ''.'' @ ext]\<rparr>"]
        by (cases "find (serves E [ext]) bs") (simp_all add: netSlurp_def)
    next
      case (Inr d)
      then show ?thesis
        by (simp add: netSlurp_def serves_def body_def case_prod_beta split: prod.split option.split)
    qed
  qed simp
  from this [of "[]" bases] show ?thesis unfolding downloadMetaFile_def assms sum.case .
qed

theorem downloadMetaFile_first_proxy_witness:
  "fst (downloadMetaFile (mem_env False) (PutModFile mem_store) mem_mv ''mod'' fs0) =
     Inr (to_bytes ''https://b/go4.org/mem/@v/v1.2.3.mod'')"
proof -
  let ?bs = "[''https://a/go4.org/mem/@v/v1.2.3'', ''https://b/go4.org/mem/@v/v1.2.3'']"
  have m: "modURLBases (mem_env False) mem_mv = Inr ?bs" by code_simp
  have f: "find (serves (mem_env False) [''mod'']) ?bs = Some ''https://b/go4.org/mem/@v/v1.2.3''" by code_simp
  show ?thesis
    using downloadMetaFile_first_proxy [OF m, where ext = "''mod''" and put = "PutModFile mem_store" and s = fs0] unfolding f option.case
    by (simp add: mem_store_def body_def mem_env_def)
qed

section \<open>Toolchain modules\<close>

lemma cutSuffix_iff: "cutSuffix s p = (d, True) \<longleftrightarrow> s = d @ p"
  by (auto simp: cutSuffix_def suffix_def)

lemma needs_go_mod_iff:
  "needs_go_mod have f \<longleftrightarrow>
     (\<exists>dir. pf_path f = dir @ ''_go.mod'' \<and> (dir = [] \<or> suffix ''/'' dir) \<and> dir @ ''go.mod'' \<notin> have)"
proof -
  obtain d ok where c: "cutSuffix (pf_path f) ''_go.mod'' = (d, ok)" by fastforce
  show ?thesis
  proof (cases ok)
    case True
    with c have "pf_path f = d @ ''_go.mod''" unfolding cutSuffix_iff [symmetric] by simp
    then show ?thesis unfolding needs_go_mod_def c by (simp add: True)
  next
    case False
    have "pf_path f \<noteq> dir @ ''_go.mod''" for dir unfolding cutSuffix_iff [symmetric] c by (simp add: False)
    then show ?thesis unfolding needs_go_mod_def c by (simp add: False)
  qed
qed

text \<open>
  C35. Toolchain modules get the \<^verbatim>\<open>go.mod\<close> copies that \<^verbatim>\<open>cmd/go\<close> looks for: the files of the zip are kept,
  in order and first; afterwards every directory with a \<^verbatim>\<open>_go.mod\<close> has a \<^verbatim>\<open>go.mod\<close>; the added files are exactly, for each file
  named \<^verbatim>\<open>_go.mod\<close> in a directory (the root or another) where the zip has no \<^verbatim>\<open>go.mod\<close>, a \<^verbatim>\<open>go.mod\<close> beside it with its mode and
  contents; and no path becomes ambiguous.
\<close>
theorem addToolchainGoMods_complete:
  "(\<exists>added. addToolchainGoMods files = files @ added \<and>
      (\<forall>g. g \<in> set added \<longleftrightarrow> (\<exists>f \<in> set files. \<exists>dir. pf_path f = dir @ ''_go.mod'' \<and> (dir = [] \<or> suffix ''/'' dir) \<and>
         dir @ ''go.mod'' \<notin> pf_path ` set files \<and> g = f\<lparr>pf_path := dir @ ''go.mod''\<rparr>))) \<and>
   (\<forall>f \<in> set files. \<forall>dir. pf_path f = dir @ ''_go.mod'' \<and> (dir = [] \<or> suffix ''/'' dir) \<longrightarrow>
      (\<exists>g \<in> set (addToolchainGoMods files). pf_path g = dir @ ''go.mod'')) \<and>
   (distinct (map pf_path files) \<longrightarrow> distinct (map pf_path (addToolchainGoMods files)))"
proof -
  define have' where "have' = set (map pf_path files)"
  define add where "add = map (\<lambda>f. f\<lparr>pf_path := fst (cutSuffix (pf_path f) ''_go.mod'') @ ''go.mod''\<rparr>) (filter (needs_go_mod have') files)"
  have a: "addToolchainGoMods files = files @ add" by (simp add: addToolchainGoMods_def add_def have'_def)
  have sub: "fst (cutSuffix (pf_path f) ''_go.mod'') = dir" if "pf_path f = dir @ ''_go.mod''" for f :: put_file and dir
    unfolding that cutSuffix_append by simp
  have add: "g \<in> set add \<longleftrightarrow> (\<exists>f \<in> set files. \<exists>dir. pf_path f = dir @ ''_go.mod'' \<and> (dir = [] \<or> suffix ''/'' dir) \<and>
      dir @ ''go.mod'' \<notin> have' \<and> g = f\<lparr>pf_path := dir @ ''go.mod''\<rparr>)" (is "_ \<longleftrightarrow> ?rhs") for g
  proof
    assume "g \<in> set add"
    then obtain f where f: "f \<in> set files" "needs_go_mod have' f"
      "g = f\<lparr>pf_path := fst (cutSuffix (pf_path f) ''_go.mod'') @ ''go.mod''\<rparr>" unfolding add_def by auto
    from f(2) obtain dir where "pf_path f = dir @ ''_go.mod''" "dir = [] \<or> suffix ''/'' dir" "dir @ ''go.mod'' \<notin> have'"
      unfolding needs_go_mod_iff by blast
    with f(1,3) sub [of f dir] show ?rhs by (intro bexI [of _ f] exI [of _ dir]) simp_all
  next
    assume ?rhs
    then obtain f dir where f: "f \<in> set files" "pf_path f = dir @ ''_go.mod''" "dir = [] \<or> suffix ''/'' dir"
      "dir @ ''go.mod'' \<notin> have'" "g = f\<lparr>pf_path := dir @ ''go.mod''\<rparr>" by blast
    then have "needs_go_mod have' f" unfolding needs_go_mod_iff by blast
    with f(1) have "f \<in> set (filter (needs_go_mod have') files)" by simp
    then show "g \<in> set add" unfolding add_def set_map f(5) sub [OF f(2), symmetric] by (rule imageI)
  qed
  have all: "\<exists>g \<in> set (files @ add). pf_path g = dir @ ''go.mod''"
    if "f \<in> set files" "pf_path f = dir @ ''_go.mod''" "dir = [] \<or> suffix ''/'' dir" for f dir
  proof (cases "dir @ ''go.mod'' \<in> have'")
    case True
    then show ?thesis by (auto simp: have'_def)
  next
    case False
    with that have "f\<lparr>pf_path := dir @ ''go.mod''\<rparr> \<in> set add" unfolding add by blast
    then show ?thesis by force
  qed
  have d: "distinct (map pf_path (files @ add))" if "distinct (map pf_path files)"
  proof -
    have "distinct (map pf_path (filter (needs_go_mod have') files))" using that by (simp add: distinct_map_filter)
    moreover have "inj_on (\<lambda>p. fst (cutSuffix p ''_go.mod'') @ ''go.mod'') (pf_path ` set (filter (needs_go_mod have') files))"
    proof (rule inj_onI)
      fix p q
      assume "p \<in> pf_path ` set (filter (needs_go_mod have') files)" "q \<in> pf_path ` set (filter (needs_go_mod have') files)"
      then obtain d e where de: "p = d @ ''_go.mod''" "q = e @ ''_go.mod''" unfolding needs_go_mod_iff by auto
      assume "fst (cutSuffix p ''_go.mod'') @ ''go.mod'' = fst (cutSuffix q ''_go.mod'') @ ''go.mod''"
      then show "p = q" unfolding de cutSuffix_append by simp
    qed
    ultimately have "distinct (map (\<lambda>p. fst (cutSuffix p ''_go.mod'') @ ''go.mod'') (map pf_path (filter (needs_go_mod have') files)))"
      by (subst distinct_map) simp
    then have "distinct (map pf_path add)" by (simp add: add_def comp_def)
    moreover have "pf_path g \<notin> have'" if "g \<in> set add" for g using that unfolding add by auto
    then have "have' \<inter> pf_path ` set add = {}" by blast
    ultimately show ?thesis using that by (simp add: have'_def)
  qed
  have "\<forall>g. g \<in> set add \<longleftrightarrow> (\<exists>f \<in> set files. \<exists>dir. pf_path f = dir @ ''_go.mod'' \<and> (dir = [] \<or> suffix ''/'' dir) \<and>
      dir @ ''go.mod'' \<notin> pf_path ` set files \<and> g = f\<lparr>pf_path := dir @ ''go.mod''\<rparr>)"
    using add unfolding have'_def set_map by blast
  then show ?thesis unfolding a using all d by (intro conjI exI [of _ add]) blast+
qed

theorem addToolchainGoMods_complete_witness:
  "\<exists>g \<in> set (addToolchainGoMods [\<lparr>pf_path = ''src/'' @ ''_go.mod'', pf_mode = \<lparr>is_dir = False, perm = 420\<rparr>, pf_content = [1]\<rparr>]).
     pf_path g = ''src/'' @ ''go.mod''"
proof -
  let ?f = "\<lparr>pf_path = ''src/'' @ ''_go.mod'', pf_mode = \<lparr>is_dir = False, perm = 420\<rparr>, pf_content = [1]\<rparr>"
  have "?f \<in> set [?f]" "pf_path ?f = ''src/'' @ ''_go.mod''" "suffix ''/'' ''src/''" by (simp_all add: suffix_def)
  with addToolchainGoMods_complete [of "[?f]"] show ?thesis by blast
qed

end
