(* ===== verification/Remote_Server.thy ===== *)
theory Remote_Server
  imports Module_FS Go_Encoding
begin

text \<open>
  The HTTP side of the remote store: the URL protocol of \<^verbatim>\<open>store/remotestore/protocol.go\<close> and the handler of
  \<^verbatim>\<open>store/remotestore/handler.go\<close>, over a backend (a \<^verbatim>\<open>gomodfs.FS\<close>).  JSON encoding, LZ4 and the cache of
  compressed modmaps (\<^verbatim>\<open>tailscale.com/util/lru\<close>) are parameters.
\<close>

section \<open>Protocol\<close>

record FileMeta =
  fm_size :: int
  fm_mode :: fmode

type_synonym ModVersionMap = "(string \<times> FileMeta) list"

definition apiPrefix :: string where "apiPrefix = ''/api/v1/''"
definition modmapPrefix :: string where "modmapPrefix = apiPrefix @ ''modmap/''"
definition filePrefix :: string where "filePrefix = apiPrefix @ ''file/''"
definition metaPrefix :: string where "metaPrefix = apiPrefix @ ''meta/''"

definition split_meta :: "string \<Rightarrow> err + string \<times> string" where
  "split_meta afterAtV =
     (if dot \<notin> set afterAtV then Inl (ErrMsg ''meta path missing file extension'')
      else
      let escapedVer = butlast (upto_last dot afterAtV);
          ext = after_last dot afterAtV in
      if ext \<noteq> ''info'' \<and> ext \<noteq> ''mod'' \<and> ext \<noteq> ''ziphash'' then Inl (ErrMsg ''unknown meta extension'')
      else Inr (escapedVer, ext))"

definition parseMVFromPath :: "xmod \<Rightarrow> string \<Rightarrow> string \<Rightarrow> err + mod_version \<times> string" where
  "parseMVFromPath X urlPath pre =
     (let rest = trimPrefix urlPath pre in
      if rest = urlPath then Inl (ErrMsg ''path does not start with prefix'')
      else case cut_at ''/@v/'' rest of
        None \<Rightarrow> Inl (ErrMsg ''path missing /@v/ separator'')
      | Some (escapedMod, afterAtV) \<Rightarrow>
          if escapedMod = [] \<or> afterAtV = [] then Inl (ErrMsg ''path has empty module or version'')
          else case (if pre = metaPrefix then split_meta afterAtV else Inr (afterAtV, [])) of
            Inl e \<Rightarrow> Inl e
          | Inr (escapedVer, ext) \<Rightarrow>
              (case UnescapePath X escapedMod of
                 None \<Rightarrow> Inl (ErrMsg ''invalid escaped module'')
               | Some modPath \<Rightarrow>
                   (case UnescapeVersion X escapedVer of
                      None \<Rightarrow> Inl (ErrMsg ''invalid escaped version'')
                    | Some ver \<Rightarrow> Inr (\<lparr>Module = modPath, Version = ver\<rparr>, ext))))"

definition mvToEscapedPath :: "xmod \<Rightarrow> mod_version \<Rightarrow> err + string" where
  "mvToEscapedPath X mv =
     (case EscapePath X (Module mv) of
        None \<Rightarrow> Inl (ErrMsg ''malformed module path'')
      | Some escMod \<Rightarrow>
          (case EscapeVersion X (Version mv) of
             None \<Rightarrow> Inl (ErrMsg ''malformed version'')
           | Some escVer \<Rightarrow> Inr (escMod @ ''/@v/'' @ escVer)))"

section \<open>HTTP\<close>

text \<open>What the handler reads of a request, and its response.\<close>

record http_req =
  q_method :: string
  q_path :: string
  q_query :: "(string \<times> string) list"
  q_accept :: string

record http_resp =
  p_status :: nat
  p_ctype :: string
  p_encoding :: string
  p_body :: bytes

definition http_Error :: "string \<Rightarrow> nat \<Rightarrow> http_resp" where
  "http_Error msg code = \<lparr>p_status = code, p_ctype = ''text/plain; charset=utf-8'', p_encoding = [], p_body = to_bytes (msg @ [NL])\<rparr>"

definition ascii_lower :: "char \<Rightarrow> char" where
  "ascii_lower c = (let n = (of_char c :: nat) in if 65 \<le> n \<and> n \<le> 90 then char_of (n + 32) else c)"

definition acceptsLZ4 :: "string \<Rightarrow> bool" where
  "acceptsLZ4 hdr =
     list_ex (\<lambda>v. let (encoding, _, _) = cut (trimSpace v) '';'' in map ascii_lower (trimSpace encoding) = ''lz4'') (split_on CHR '','' hdr)"

section \<open>The handler\<close>

text \<open>
  The backend's operations (over its state \<open>'b\<close> with handles \<open>'h\<close>), and the handler's cache of
  compressed modmaps \<open>'c\<close>.
\<close>

record ('b, 'h, 'c) hdl_env =
  be_root :: "'b \<Rightarrow> mod_version \<Rightarrow> 'h res \<times> 'b"
  be_meta :: "'b \<Rightarrow> mod_version \<Rightarrow> string \<Rightarrow> bytes res \<times> 'b"
  be_readdir :: "'b \<Rightarrow> 'h \<Rightarrow> string \<Rightarrow> err + dirent list"
  be_getfile :: "'b \<Rightarrow> 'h \<Rightarrow> string \<Rightarrow> err + bytes"
  h_xmod :: xmod
  json_Marshal :: "ModVersionMap \<Rightarrow> err + bytes"
  lz4_compress :: "bytes \<Rightarrow> err + bytes"
  err_text :: "err \<Rightarrow> string"
  lz_Get :: "'c \<Rightarrow> mod_version \<Rightarrow> bytes option \<times> 'c"
  lz_Set :: "'c \<Rightarrow> mod_version \<Rightarrow> bytes \<Rightarrow> 'c"

record ('b, 'c) hdl_state =
  h_backend :: 'b
  h_modmapLZ :: 'c

text \<open>The backend that a \<^verbatim>\<open>gomodfs.FS\<close> is.\<close>

definition fs_backend ::
  "('st, 'h) fs_env \<Rightarrow> (('st, 'h) fs, 'h, 'c) hdl_env \<Rightarrow> (('st, 'h) fs, 'h, 'c) hdl_env" where
  "fs_backend E H = H\<lparr>be_root := \<lambda>s mv. getZipRoot E mv s, be_meta := \<lambda>s mv ext. getMetaFileByExt E mv ext s,
     be_readdir := \<lambda>s. Readdir (Store E) (st s), be_getfile := \<lambda>s. GetFile (Store E) (st s), h_xmod := XM E\<rparr>"

text \<open>The walk over a module's files; \<^const>\<open>None\<close> is out of fuel.\<close>

fun walkEnts :: "(string \<Rightarrow> ModVersionMap \<Rightarrow> (err + ModVersionMap) option) \<Rightarrow> string \<Rightarrow> dirent list \<Rightarrow> ModVersionMap \<Rightarrow> (err + ModVersionMap) option" where
  "walkEnts walk dir [] fmap = Some (Inr fmap)"
| "walkEnts walk dir (ent # ents) fmap =
     (let name = sub_path dir (d_name ent) in
      if is_dir (d_mode ent) then
        (case walk name fmap of
           None \<Rightarrow> None
         | Some (Inl e) \<Rightarrow> Some (Inl e)
         | Some (Inr fmap1) \<Rightarrow> walkEnts walk dir ents fmap1)
      else walkEnts walk dir ents (AList.update name \<lparr>fm_size = d_size ent, fm_mode = d_mode ent\<rparr> fmap))"

fun walkFiles :: "nat \<Rightarrow> (string \<Rightarrow> err + dirent list) \<Rightarrow> string \<Rightarrow> ModVersionMap \<Rightarrow> (err + ModVersionMap) option" where
  "walkFiles 0 rd dir fmap = None"
| "walkFiles (Suc n) rd dir fmap =
     (case rd dir of
        Inl e \<Rightarrow> Some (Inl e)
      | Inr ents \<Rightarrow> walkEnts (walkFiles n rd) dir ents fmap)"

definition root_error :: "('b, 'h, 'c) hdl_env \<Rightarrow> string \<Rightarrow> err \<Rightarrow> http_resp" where
  "root_error H msg e = (if errors_Is e ErrCacheMiss then http_Error msg 404 else http_Error (err_text H e) 500)"

definition modmap_resp :: "bytes \<Rightarrow> http_resp" where
  "modmap_resp b = \<lparr>p_status = 200, p_ctype = ''application/json'', p_encoding = ''lz4'', p_body = b\<rparr>"

definition octet_resp :: "bytes \<Rightarrow> http_resp" where
  "octet_resp b = \<lparr>p_status = 200, p_ctype = ''application/octet-stream'', p_encoding = [], p_body = b\<rparr>"

definition handleModMap ::
  "nat \<Rightarrow> ('b, 'h, 'c) hdl_env \<Rightarrow> http_req \<Rightarrow> ('b, 'c) hdl_state \<Rightarrow> (http_resp res \<times> ('b, 'c) hdl_state) option" where
  "handleModMap fuel H r s =
     (case parseMVFromPath (h_xmod H) (q_path r) modmapPrefix of
        Inl e \<Rightarrow> Some (Ok (http_Error (err_text H e) 400), s)
      | Inr (mv, _) \<Rightarrow>
          if \<not> acceptsLZ4 (q_accept r) then Some (Ok (http_Error ''Accept-Encoding must include lz4'' 406), s)
          else
          let (cached, c) = lz_Get H (h_modmapLZ s) mv; s = s\<lparr>h_modmapLZ := c\<rparr> in
          case cached of
            Some b \<Rightarrow> Some (Ok (modmap_resp b), s)
          | None \<Rightarrow>
              (case be_root H (h_backend s) mv of
                 (Panic, b) \<Rightarrow> Some (Panic, s\<lparr>h_backend := b\<rparr>)
               | (Fail e, b) \<Rightarrow> Some (Ok (root_error H ''module not found'' e), s\<lparr>h_backend := b\<rparr>)
               | (Ok mh, b) \<Rightarrow>
                   let s = s\<lparr>h_backend := b\<rparr> in
                   (case walkFiles fuel (be_readdir H b mh) [] [] of
                      None \<Rightarrow> None
                    | Some (Inl e) \<Rightarrow> Some (Ok (http_Error (err_text H e) 500), s)
                    | Some (Inr fmap) \<Rightarrow>
                        (case json_Marshal H fmap of
                           Inl e \<Rightarrow> Some (Ok (http_Error (err_text H e) 500), s)
                         | Inr jsonData \<Rightarrow>
                             (case lz4_compress H jsonData of
                                Inl e \<Rightarrow> Some (Ok (http_Error (err_text H e) 500), s)
                              | Inr compressed \<Rightarrow>
                                  Some (Ok (modmap_resp compressed), s\<lparr>h_modmapLZ := lz_Set H (h_modmapLZ s) mv compressed\<rparr>))))))"

text \<open>\<^verbatim>\<open>Query().Get\<close>: the first value of a key, or the empty string.\<close>

definition query_Get :: "http_req \<Rightarrow> string \<Rightarrow> string" where
  "query_Get r k = from_opt (map_of (q_query r) k)"

definition handleFile :: "('b, 'h, 'c) hdl_env \<Rightarrow> http_req \<Rightarrow> ('b, 'c) hdl_state \<Rightarrow> http_resp res \<times> ('b, 'c) hdl_state" where
  "handleFile H r s =
     (case parseMVFromPath (h_xmod H) (q_path r) filePrefix of
        Inl e \<Rightarrow> (Ok (http_Error (err_text H e) 400), s)
      | Inr (mv, _) \<Rightarrow>
          let filePath = query_Get r ''path'' in
          if filePath = [] then (Ok (http_Error ''missing path query parameter'' 400), s)
          else case be_root H (h_backend s) mv of
            (Panic, b) \<Rightarrow> (Panic, s\<lparr>h_backend := b\<rparr>)
          | (Fail e, b) \<Rightarrow> (Ok (root_error H ''module not found'' e), s\<lparr>h_backend := b\<rparr>)
          | (Ok mh, b) \<Rightarrow>
              (case be_getfile H b mh filePath of
                 Inl e \<Rightarrow>
                   (Ok (if errors_Is e ErrNotExist then http_Error ''file not found'' 404 else http_Error (err_text H e) 500), s\<lparr>h_backend := b\<rparr>)
               | Inr data \<Rightarrow> (Ok (octet_resp data), s\<lparr>h_backend := b\<rparr>)))"

definition handleMeta :: "('b, 'h, 'c) hdl_env \<Rightarrow> http_req \<Rightarrow> ('b, 'c) hdl_state \<Rightarrow> http_resp res \<times> ('b, 'c) hdl_state" where
  "handleMeta H r s =
     (case parseMVFromPath (h_xmod H) (q_path r) metaPrefix of
        Inl e \<Rightarrow> (Ok (http_Error (err_text H e) 400), s)
      | Inr (mv, ext) \<Rightarrow>
          (case be_meta H (h_backend s) mv ext of
             (Panic, b) \<Rightarrow> (Panic, s\<lparr>h_backend := b\<rparr>)
           | (Fail e, b) \<Rightarrow> (Ok (root_error H ''not found'' e), s\<lparr>h_backend := b\<rparr>)
           | (Ok data, b) \<Rightarrow> (Ok (octet_resp data), s\<lparr>h_backend := b\<rparr>)))"

text \<open>
  The multiplexer with its three GET patterns, on clean paths (it redirects others before any
  handler runs).
\<close>

definition Handler ::
  "nat \<Rightarrow> ('b, 'h, 'c) hdl_env \<Rightarrow> http_req \<Rightarrow> ('b, 'c) hdl_state \<Rightarrow> (http_resp res \<times> ('b, 'c) hdl_state) option" where
  "Handler fuel H r s =
     (if \<not> (prefix modmapPrefix (q_path r) \<or> prefix filePrefix (q_path r) \<or> prefix metaPrefix (q_path r))
      then Some (Ok (http_Error ''404 page not found'' 404), s)
      else if q_method r \<noteq> ''GET'' \<and> q_method r \<noteq> ''HEAD'' then Some (Ok (http_Error ''Method Not Allowed'' 405), s)
      else if prefix modmapPrefix (q_path r) then handleModMap fuel H r s
      else if prefix filePrefix (q_path r) then Some (handleFile H r s)
      else Some (handleMeta H r s))"

section \<open>The URL protocol is read back\<close>

lemma trimPrefix_append: "p \<noteq> [] \<Longrightarrow> trimPrefix (p @ s) p = s \<and> s \<noteq> p @ s"
  by (simp add: trimPrefix_def cutPrefix_append)

lemma cut_sep:
  assumes "at_sign \<notin> set a"
  shows "cut_at ''/@v/'' (a @ ''/@v/'' @ b) = Some (a, b)"
  using cut_at_two [of at_sign a slash "''v/''" b] assms by simp

lemma mv_url_roundtrip:
  assumes "xmod_ok X" "mvToEscapedPath X mv = Inr p"
  shows "pre \<noteq> metaPrefix \<Longrightarrow> pre \<noteq> [] \<Longrightarrow> parseMVFromPath X (pre @ p) pre = Inr (mv, [])"
    and "ext \<in> {''info'', ''mod'', ''ziphash''} \<Longrightarrow> parseMVFromPath X (metaPrefix @ p @ ''.'' @ ext) metaPrefix = Inr (mv, ext)"
proof -
  obtain em ev where e: "EscapePath X (Module mv) = Some em" "EscapeVersion X (Version mv) = Some ev" and p: "p = em @ ''/@v/'' @ ev"
    using assms(2) by (auto simp: mvToEscapedPath_def split: option.splits)
  note m = xmod_path [OF assms(1) e(1)] and v = xmod_version [OF assms(1) e(2)]
  show "parseMVFromPath X (pre @ p) pre = Inr (mv, [])" if "pre \<noteq> metaPrefix" "pre \<noteq> []"
    using that m v cut_sep [of em ev] trimPrefix_append [of pre p] by (simp add: parseMVFromPath_def p Let_def)
  show "parseMVFromPath X (metaPrefix @ p @ ''.'' @ ext) metaPrefix = Inr (mv, ext)" if x: "ext \<in> {''info'', ''mod'', ''ziphash''}"
  proof -
    have d: "dot \<notin> set ext" using x by auto
    have "split_meta (ev @ dot # ext) = Inr (ev, ext)"
      using x d by (auto simp: split_meta_def Let_def upto_last_append after_last_append)
    moreover have "metaPrefix \<noteq> []" by (simp add: metaPrefix_def)
    ultimately show ?thesis
      using m v cut_sep [of em "ev @ dot # ext"] trimPrefix_append [of metaPrefix "p @ dot # ext"]
      by (simp add: parseMVFromPath_def p Let_def)
  qed
qed

end
