(* ===== verification/Remote_Client.thy ===== *)
theory Remote_Client
  imports Remote_Server "HOL-Library.Multiset"
begin

text \<open>
  The store over HTTP, \<^verbatim>\<open>store/remotestore/remotestore.go\<close>: cached modmaps and metadata files, and the
  directories derived from the flat map of files.  The HTTP client, LZ4, JSON decoding and the order
  in which Go ranges over a map are parameters.
\<close>

section \<open>Directories from a flat map\<close>

text \<open>The maps \<^verbatim>\<open>dirs\<close> and \<^verbatim>\<open>dirSet\<close> (the pairs of a directory and a name already added).\<close>

record dirmap =
  dm_dirs :: "(string \<times> dirent list) list"
  dm_set :: "(string \<times> string) list"

definition dm_entries :: "(string \<times> dirent list) list \<Rightarrow> string \<Rightarrow> dirent list" where
  "dm_entries dirs dir = (case map_of dirs dir of None \<Rightarrow> [] | Some es \<Rightarrow> es)"

definition add_child :: "string \<Rightarrow> dirent \<Rightarrow> dirmap \<Rightarrow> dirmap" where
  "add_child dir ent dm =
     (if (dir, d_name ent) \<in> set (dm_set dm) then dm
      else dm\<lparr>dm_set := (dir, d_name ent) # dm_set dm, dm_dirs := AList.update dir (dm_entries (dm_dirs dm) dir @ [ent]) (dm_dirs dm)\<rparr>)"

definition dir_or_root :: "string \<Rightarrow> string" where
  "dir_or_root d = (if d = ''.'' then [] else d)"

definition dir_ent :: "string \<Rightarrow> dirent" where
  "dir_ent name = \<lparr>d_name = name, d_mode = \<lparr>is_dir = True, perm = 0\<rparr>, d_size = 0\<rparr>"

text \<open>The walk to the root; \<^const>\<open>None\<close> is a walk that never ends.\<close>

partial_function (option) walk_up :: "string \<Rightarrow> dirmap \<Rightarrow> dirmap option" where
  "walk_up child dm =
     (if child = [] then Some dm
      else
      let parent = dir_or_root (path_Dir child)
      in walk_up parent (add_child parent (dir_ent (path_Base child)) dm))"

definition file_ent :: "string \<Rightarrow> FileMeta \<Rightarrow> dirent" where
  "file_ent name fm = \<lparr>d_name = name, d_mode = fm_mode fm, d_size = fm_size fm\<rparr>"

fun dirmap_loop :: "ModVersionMap \<Rightarrow> dirmap \<Rightarrow> dirmap option" where
  "dirmap_loop [] dm = Some dm"
| "dirmap_loop ((filePath, fm) # files) dm =
     (let dir = dir_or_root (path_Dir filePath)
      in Option.bind (walk_up dir (add_child dir (file_ent (path_Base filePath) fm) dm)) (dirmap_loop files))"

definition buildDirMap :: "(ModVersionMap \<Rightarrow> ModVersionMap) \<Rightarrow> ModVersionMap \<Rightarrow> (string \<times> dirent list) list option" where
  "buildDirMap rng files = map_option dm_dirs (dirmap_loop (rng files) \<lparr>dm_dirs = [], dm_set = []\<rparr>)"

section \<open>The store\<close>

record remoteModHandle =
  rmh_mv :: mod_version
  rmh_files :: ModVersionMap
  rmh_dirs :: "(string \<times> dirent list) list"

record 'n rs_store =
  rs_modmaps :: "(mod_version \<times> remoteModHandle) list"
  rs_meta :: "((mod_version \<times> string) \<times> bytes) list"
  rs_net :: 'n

text \<open>
  \<open>http_Do\<close> makes the request and performs it: the URL and the \<^verbatim>\<open>Accept-Encoding\<close> header it sets, if any.
\<close>

record 'n rs_env =
  rs_xmod :: xmod
  BaseURL :: string
  http_Do :: "'n \<Rightarrow> string \<Rightarrow> string \<Rightarrow> (err + http_resp) \<times> 'n"
  lz4_decompress :: "bytes \<Rightarrow> err + bytes"
  json_Unmarshal :: "bytes \<Rightarrow> err + ModVersionMap"
  rs_range :: "ModVersionMap \<Rightarrow> ModVersionMap"

definition errReadOnly :: err where
  "errReadOnly = ErrMsg ''remotestore: read-only store''"

definition rs_CachedModules :: "'n rs_store \<Rightarrow> err + mod_version list" where
  "rs_CachedModules s = Inr (map fst (rs_modmaps s))"

text \<open>\<^const>\<open>None\<close>: building the directories never ends.\<close>

definition decode_modmap :: "'n rs_env \<Rightarrow> mod_version \<Rightarrow> http_resp \<Rightarrow> (err + remoteModHandle) option" where
  "decode_modmap R mv resp =
     (if p_status resp = 404 then Some (Inl ErrCacheMiss)
      else if p_status resp \<noteq> 200 then Some (Inl (ErrMsg ''remotestore: modmap''))
      else case (if p_encoding resp = ''lz4'' then lz4_decompress R (p_body resp) else Inr (p_body resp)) of
        Inl e \<Rightarrow> Some (Inl (Wrap ''remotestore: lz4 decompress'' [e]))
      | Inr js \<Rightarrow>
          (case json_Unmarshal R js of
             Inl e \<Rightarrow> Some (Inl (Wrap ''remotestore: json decode modmap'' [e]))
           | Inr fmap \<Rightarrow>
               map_option (\<lambda>dirs. Inr \<lparr>rmh_mv = mv, rmh_files = fmap, rmh_dirs = dirs\<rparr>) (buildDirMap (rs_range R) fmap)))"

definition fetchModMap :: "'n rs_env \<Rightarrow> mod_version \<Rightarrow> 'n rs_store \<Rightarrow> ((err + remoteModHandle) \<times> 'n rs_store) option" where
  "fetchModMap R mv s =
     (case map_of (rs_modmaps s) mv of
        Some h \<Rightarrow> Some (Inr h, s)
      | None \<Rightarrow>
          (case mvToEscapedPath (rs_xmod R) mv of
             Inl e \<Rightarrow> Some (Inl e, s)
           | Inr escaped \<Rightarrow>
               (let (r, n) = http_Do R (rs_net s) (BaseURL R @ modmapPrefix @ escaped) ''lz4''; s = s\<lparr>rs_net := n\<rparr> in
                case r of
                  Inl e \<Rightarrow> Some (Inl e, s)
                | Inr resp \<Rightarrow>
                    (case decode_modmap R mv resp of
                       None \<Rightarrow> None
                     | Some (Inl e) \<Rightarrow> Some (Inl e, s)
                     | Some (Inr h) \<Rightarrow> Some (Inr h, s\<lparr>rs_modmaps := AList.update mv h (rs_modmaps s)\<rparr>)))))"

definition rs_GetZipRoot :: "'n rs_env \<Rightarrow> mod_version \<Rightarrow> 'n rs_store \<Rightarrow> ((err + remoteModHandle) \<times> 'n rs_store) option" where
  "rs_GetZipRoot R mv s =
     (case map_of (rs_modmaps s) mv of
        Some h \<Rightarrow> Some (Inr h, s)
      | None \<Rightarrow> fetchModMap R mv s)"

definition rs_Stat :: "remoteModHandle \<Rightarrow> string \<Rightarrow> err + file_info" where
  "rs_Stat rmh filePath =
     (if filePath = [] then Inr \<lparr>fi_name = ''.'', fi_size = 0, fi_mode = \<lparr>is_dir = True, perm = 0\<rparr>\<rparr>
      else case map_of (rmh_files rmh) filePath of
        Some fm \<Rightarrow> Inr \<lparr>fi_name = path_Base filePath, fi_size = fm_size fm, fi_mode = fm_mode fm\<rparr>
      | None \<Rightarrow>
          if map_of (rmh_dirs rmh) filePath \<noteq> None
          then Inr \<lparr>fi_name = path_Base filePath, fi_size = 0, fi_mode = \<lparr>is_dir = True, perm = 0\<rparr>\<rparr>
          else Inl ErrNotExist)"

definition rs_Readdir :: "remoteModHandle \<Rightarrow> string \<Rightarrow> err + dirent list" where
  "rs_Readdir rmh dirPath =
     (case map_of (rmh_dirs rmh) dirPath of
        None \<Rightarrow> if dirPath = [] then Inr [] else Inl ErrNotExist
      | Some ents \<Rightarrow> Inr ents)"

definition rs_GetFile :: "'n rs_env \<Rightarrow> remoteModHandle \<Rightarrow> string \<Rightarrow> 'n rs_store \<Rightarrow> (err + bytes) \<times> 'n rs_store" where
  "rs_GetFile R rmh filePath s =
     (if map_of (rmh_files rmh) filePath = None
      then (Inl (if map_of (rmh_dirs rmh) filePath \<noteq> None then ErrIsDir else ErrNotExist), s)
      else case mvToEscapedPath (rs_xmod R) (rmh_mv rmh) of
        Inl e \<Rightarrow> (Inl e, s)
      | Inr escaped \<Rightarrow>
          (let (r, n) = http_Do R (rs_net s) (BaseURL R @ filePrefix @ escaped @ ''?path='' @ url_QueryEscape filePath) []; s = s\<lparr>rs_net := n\<rparr> in
           case r of
             Inl e \<Rightarrow> (Inl e, s)
           | Inr resp \<Rightarrow>
               if p_status resp = 404 then (Inl ErrNotExist, s)
               else if p_status resp \<noteq> 200 then (Inl (ErrMsg ''remotestore: get file''), s)
               else (Inr (p_body resp), s)))"

definition fetchMetaFile :: "'n rs_env \<Rightarrow> mod_version \<Rightarrow> string \<Rightarrow> 'n rs_store \<Rightarrow> (err + bytes) \<times> 'n rs_store" where
  "fetchMetaFile R mv ext s =
     (case mvToEscapedPath (rs_xmod R) mv of
        Inl e \<Rightarrow> (Inl e, s)
      | Inr escaped \<Rightarrow>
          (let (r, n) = http_Do R (rs_net s) (BaseURL R @ metaPrefix @ escaped @ ''.'' @ ext) []; s = s\<lparr>rs_net := n\<rparr> in
           case r of
             Inl e \<Rightarrow> (Inl e, s)
           | Inr resp \<Rightarrow>
               if p_status resp = 404 then (Inl ErrCacheMiss, s)
               else if p_status resp \<noteq> 200 then (Inl (ErrMsg ''remotestore: get meta file''), s)
               else (Inr (p_body resp), s)))"

definition rs_getMetaFile :: "'n rs_env \<Rightarrow> mod_version \<Rightarrow> string \<Rightarrow> 'n rs_store \<Rightarrow> (err + bytes) \<times> 'n rs_store" where
  "rs_getMetaFile R mv ext s =
     (case map_of (rs_meta s) (mv, ext) of
        Some v \<Rightarrow> (Inr v, s)
      | None \<Rightarrow>
          (case fetchMetaFile R mv ext s of
             (Inl e, s) \<Rightarrow> (Inl e, s)
           | (Inr v, s) \<Rightarrow> (Inr v, s\<lparr>rs_meta := AList.update (mv, ext) v (rs_meta s)\<rparr>)))"

definition rs_GetInfoFile :: "'n rs_env \<Rightarrow> mod_version \<Rightarrow> 'n rs_store \<Rightarrow> (err + bytes) \<times> 'n rs_store" where
  "rs_GetInfoFile R mv s = rs_getMetaFile R mv ''info'' s"

definition rs_GetModFile :: "'n rs_env \<Rightarrow> mod_version \<Rightarrow> 'n rs_store \<Rightarrow> (err + bytes) \<times> 'n rs_store" where
  "rs_GetModFile R mv s = rs_getMetaFile R mv ''mod'' s"

definition rs_GetZipHash :: "'n rs_env \<Rightarrow> remoteModHandle \<Rightarrow> 'n rs_store \<Rightarrow> (err + bytes) \<times> 'n rs_store" where
  "rs_GetZipHash R h s = rs_getMetaFile R (rmh_mv h) ''ziphash'' s"

definition rs_PutModule :: "mod_version \<Rightarrow> put_data \<Rightarrow> 'n rs_store \<Rightarrow> (err + remoteModHandle) \<times> 'n rs_store" where
  "rs_PutModule mv data s = (Inl errReadOnly, s)"

definition rs_PutModFile :: "mod_version \<Rightarrow> bytes \<Rightarrow> 'n rs_store \<Rightarrow> err option \<times> 'n rs_store" where
  "rs_PutModFile mv data s = (Some errReadOnly, s)"

definition rs_PutInfoFile :: "mod_version \<Rightarrow> bytes \<Rightarrow> 'n rs_store \<Rightarrow> err option \<times> 'n rs_store" where
  "rs_PutInfoFile mv data s = (Some errReadOnly, s)"

section \<open>The directories are those of the files\<close>

definition dm_rel :: "(string \<times> dirent list) list \<Rightarrow> (string \<times> dirent) set" where
  "dm_rel dirs = {(d, e). e \<in> set (dm_entries dirs d)}"

text \<open>\<^verbatim>\<open>dirSet\<close> records what \<^verbatim>\<open>dirs\<close> holds, and no directory has a name twice.\<close>

definition dm_ok :: "dirmap \<Rightarrow> bool" where
  "dm_ok dm \<longleftrightarrow> set (dm_set dm) = (\<lambda>(d, e). (d, d_name e)) ` dm_rel (dm_dirs dm) \<and>
     (\<forall>d. distinct (map d_name (dm_entries (dm_dirs dm) d))) \<and>
     (\<forall>d. map_of (dm_dirs dm) d \<noteq> Some [])"

definition names_fun :: "(string \<times> dirent) set \<Rightarrow> bool" where
  "names_fun S \<longleftrightarrow> (\<forall>d e e'. (d, e) \<in> S \<longrightarrow> (d, e') \<in> S \<longrightarrow> d_name e = d_name e' \<longrightarrow> e = e')"

lemma entries_update: "dm_entries (AList.update d es dirs) x = (if x = d then es else dm_entries dirs x)"
  by (simp add: dm_entries_def update_conv')

lemma add_child_ok:
  assumes "dm_ok dm" "names_fun (insert (d, e) (dm_rel (dm_dirs dm)))"
  shows "dm_ok (add_child d e dm) \<and> dm_rel (dm_dirs (add_child d e dm)) = insert (d, e) (dm_rel (dm_dirs dm))"
proof (cases "(d, d_name e) \<in> set (dm_set dm)")
  case True
  then obtain e' where "(d, e') \<in> dm_rel (dm_dirs dm)" "d_name e' = d_name e" using assms(1) by (auto simp: dm_ok_def)
  then have "(d, e) \<in> dm_rel (dm_dirs dm)" using assms(2) unfolding names_fun_def by blast
  then show ?thesis using True assms(1) by (auto simp: add_child_def)
next
  case False
  then have "d_name e \<notin> d_name ` set (dm_entries (dm_dirs dm) d)" using assms(1) by (auto simp: dm_ok_def dm_rel_def)
  then have "distinct (map d_name (dm_entries (dm_dirs (add_child d e dm)) x))" for x
    using False assms(1) by (auto simp: add_child_def entries_update dm_ok_def)
  moreover have r: "dm_rel (dm_dirs (add_child d e dm)) = insert (d, e) (dm_rel (dm_dirs dm))"
    using False by (auto simp: add_child_def dm_rel_def entries_update split: if_splits)
  moreover have "set (dm_set (add_child d e dm)) = (\<lambda>(d, e). (d, d_name e)) ` insert (d, e) (dm_rel (dm_dirs dm))"
    using False assms(1) by (simp add: add_child_def dm_ok_def)
  moreover have "map_of (dm_dirs (add_child d e dm)) x \<noteq> Some []" for x
    using False assms(1) by (auto simp: add_child_def update_conv' dm_ok_def)
  ultimately show ?thesis by (simp add: dm_ok_def)
qed

text \<open>What one file contributes: itself, and the directories above it.\<close>

definition up_rel :: "string list \<Rightarrow> (string \<times> dirent) set" where
  "up_rel ss = (\<lambda>k. (joinSegs (take k ss), dir_ent (ss ! k))) ` {..<length ss}"

definition file_rel :: "string list \<times> FileMeta \<Rightarrow> (string \<times> dirent) set" where
  "file_rel f = insert (joinSegs (butlast (fst f)), file_ent (last (fst f)) (snd f)) (up_rel (butlast (fst f)))"

lemma up_rel_snoc: "up_rel (ss @ [x]) = insert (joinSegs ss, dir_ent x) (up_rel ss)"
proof -
  have "(\<lambda>k. (joinSegs (take k (ss @ [x])), dir_ent ((ss @ [x]) ! k))) ` {..<length ss} = up_rel ss"
    unfolding up_rel_def by (rule image_cong) (simp_all add: nth_append)
  then show ?thesis unfolding up_rel_def [of "ss @ [x]"] length_append_singleton lessThan_Suc image_insert by simp
qed

lemma join_parts:
  assumes "list_all clean_name (ss @ [x])"
  shows "path_Base (joinSegs (ss @ [x])) = x" "dir_or_root (path_Dir (joinSegs (ss @ [x]))) = joinSegs ss" "joinSegs (ss @ [x]) \<noteq> []"
proof -
  have x: "x \<noteq> []" "slash \<notin> set x" and ss: "list_all clean_name ss" using assms by (auto simp: clean_name_def)
  show "path_Base (joinSegs (ss @ [x])) = x"
    using x by (cases "ss = []") (simp_all add: joinSegs_def path_Base_free path_Base_append join_on_append)
  show "joinSegs (ss @ [x]) \<noteq> []" using join_on_hd(1) [OF assms] by (simp add: joinSegs_def)
  show "dir_or_root (path_Dir (joinSegs (ss @ [x]))) = joinSegs ss"
  proof (cases "ss = []")
    case True
    then show ?thesis using x by (simp add: joinSegs_def path_Dir_name dir_or_root_def)
  next
    case False
    have "join_on slash ss \<noteq> ''.''"
    proof
      assume "join_on slash ss = ''.''"
      then have "split_on slash ''.'' = ss" using split_join [of ss slash] ss False by (auto simp: list_all_iff clean_name_def)
      then show False using ss by (auto simp: clean_name_def)
    qed
    then show ?thesis using False path_Dir_join [OF ss False x(2)] by (simp add: joinSegs_def dir_or_root_def)
  qed
qed

lemma names_fun_mono: "names_fun S \<Longrightarrow> T \<subseteq> S \<Longrightarrow> names_fun T"
  unfolding names_fun_def by blast

lemma walk_up_ok:
  "list_all clean_name ss \<Longrightarrow> dm_ok dm \<Longrightarrow> names_fun (up_rel ss \<union> dm_rel (dm_dirs dm)) \<Longrightarrow>
    \<exists>dm'. walk_up (joinSegs ss) dm = Some dm' \<and> dm_ok dm' \<and> dm_rel (dm_dirs dm') = up_rel ss \<union> dm_rel (dm_dirs dm)"
proof (induction ss arbitrary: dm rule: rev_induct)
  case Nil
  then show ?case by (subst walk_up.simps) (simp add: joinSegs_def up_rel_def)
next
  case (snoc x ss)
  let ?dm = "add_child (joinSegs ss) (dir_ent x) dm"
  have "names_fun (insert (joinSegs ss, dir_ent x) (dm_rel (dm_dirs dm)))"
    by (rule names_fun_mono [OF snoc.prems(3)]) (auto simp: up_rel_snoc)
  then have a: "dm_ok ?dm" "dm_rel (dm_dirs ?dm) = insert (joinSegs ss, dir_ent x) (dm_rel (dm_dirs dm))"
    using add_child_ok [OF snoc.prems(2)] by blast+
  have "walk_up (joinSegs (ss @ [x])) dm = walk_up (joinSegs ss) ?dm"
    using join_parts [OF snoc.prems(1)] by (subst walk_up.simps) (simp add: Let_def)
  moreover have "names_fun (up_rel ss \<union> dm_rel (dm_dirs ?dm))" using snoc.prems(3) a(2) by (simp add: up_rel_snoc)
  ultimately show ?case using snoc.IH [OF _ a(1)] snoc.prems(1) a(2) by (auto simp: up_rel_snoc)
qed

lemma dirmap_loop_ok:
  "list_all (\<lambda>f. fst f \<noteq> [] \<and> list_all clean_name (fst f)) fs \<Longrightarrow> dm_ok dm \<Longrightarrow>
   names_fun (\<Union> (file_rel ` set fs) \<union> dm_rel (dm_dirs dm)) \<Longrightarrow>
    \<exists>dm'. dirmap_loop (map (\<lambda>(ss, fm). (joinSegs ss, fm)) fs) dm = Some dm' \<and> dm_ok dm' \<and>
      dm_rel (dm_dirs dm') = \<Union> (file_rel ` set fs) \<union> dm_rel (dm_dirs dm)"
proof (induction fs arbitrary: dm)
  case (Cons f fs)
  obtain p fm where f: "f = (p, fm)" by (cases f)
  obtain ss x where p: "p = ss @ [x]" using Cons.prems(1) by (cases p rule: rev_cases) (auto simp: f)
  have c: "list_all clean_name (ss @ [x])" using Cons.prems(1) by (simp add: f p)
  let ?e = "(joinSegs ss, file_ent x fm)"
  let ?dm = "add_child (joinSegs ss) (file_ent x fm) dm"
  have fr: "file_rel f = insert ?e (up_rel ss)" by (simp add: file_rel_def f p)
  have "names_fun (insert ?e (dm_rel (dm_dirs dm)))" by (rule names_fun_mono [OF Cons.prems(3)]) (auto simp: fr)
  then have a: "dm_ok ?dm" "dm_rel (dm_dirs ?dm) = insert ?e (dm_rel (dm_dirs dm))"
    using add_child_ok [OF Cons.prems(2)] by blast+
  have "names_fun (up_rel ss \<union> dm_rel (dm_dirs ?dm))" unfolding a(2) by (rule names_fun_mono [OF Cons.prems(3)]) (auto simp: fr)
  then obtain dm1 where w: "walk_up (joinSegs ss) ?dm = Some dm1" "dm_ok dm1" "dm_rel (dm_dirs dm1) = up_rel ss \<union> dm_rel (dm_dirs ?dm)"
    using walk_up_ok [OF _ a(1)] c by auto
  have U: "\<Union> (file_rel ` set fs) \<union> dm_rel (dm_dirs dm1) = \<Union> (file_rel ` set (f # fs)) \<union> dm_rel (dm_dirs dm)"
    by (auto simp: w(3) a(2) fr)
  obtain dm2 where "dirmap_loop (map (\<lambda>(ss, fm). (joinSegs ss, fm)) fs) dm1 = Some dm2" "dm_ok dm2"
    "dm_rel (dm_dirs dm2) = \<Union> (file_rel ` set (f # fs)) \<union> dm_rel (dm_dirs dm)"
    using Cons.IH [OF _ w(2)] Cons.prems(1,3) unfolding U by auto
  moreover have "dirmap_loop (map (\<lambda>(ss, fm). (joinSegs ss, fm)) (f # fs)) dm = dirmap_loop (map (\<lambda>(ss, fm). (joinSegs ss, fm)) fs) dm1"
    using join_parts [OF c] w(1) by (simp add: f p Let_def)
  ultimately show ?case by auto
qed simp

text \<open>The files of a module: clean paths, all different, none a directory of another.\<close>

definition files_ok :: "(string list \<times> FileMeta) list \<Rightarrow> bool" where
  "files_ok fs \<longleftrightarrow> list_all (\<lambda>f. fst f \<noteq> [] \<and> list_all clean_name (fst f)) fs \<and> distinct (map fst fs) \<and>
     list_all (\<lambda>f. list_all (\<lambda>g. \<not> strict_prefix (fst f) (fst g)) fs) fs"

definition flat :: "(string list \<times> FileMeta) list \<Rightarrow> ModVersionMap" where
  "flat fs = map (\<lambda>(ss, fm). (joinSegs ss, fm)) fs"

text \<open>The entries of a directory: the files in it, and the directories with files below.\<close>

definition dir_files :: "(string list \<times> FileMeta) list \<Rightarrow> string list \<Rightarrow> dirent set" where
  "dir_files fs D = {file_ent x fm | x fm. (D @ [x], fm) \<in> set fs} \<union> {dir_ent x | x r fm. r \<noteq> [] \<and> (D @ [x] @ r, fm) \<in> set fs}"

lemma files_okD: "files_ok fs \<Longrightarrow> (p, fm) \<in> set fs \<Longrightarrow> list_all clean_name p \<and> p \<noteq> []"
  by (auto simp: files_ok_def list_all_iff)

lemma joinSegs_inj: "list_all clean_name a \<Longrightarrow> list_all clean_name b \<Longrightarrow> joinSegs a = joinSegs b \<longleftrightarrow> a = b"
  using splitSegs_joinSegs by metis

lemma file_rel_iff:
  assumes "list_all clean_name p" "p \<noteq> []" "list_all clean_name D"
  shows "(joinSegs D, e) \<in> file_rel (p, fm) \<longleftrightarrow> (\<exists>x. p = D @ [x] \<and> e = file_ent x fm) \<or> (\<exists>x r. r \<noteq> [] \<and> p = D @ [x] @ r \<and> e = dir_ent x)"
proof -
  obtain ss y where p: "p = ss @ [y]" using assms(2) by (cases p rule: rev_cases) auto
  have ss: "list_all clean_name ss" and tk: "list_all clean_name (take k ss)" for k
    using assms(1) by (auto simp: p list_all_iff dest: in_set_takeD)
  have "(joinSegs D, e) \<in> up_rel ss \<longleftrightarrow> (\<exists>x r. r \<noteq> [] \<and> ss @ [y] = D @ [x] @ r \<and> e = dir_ent x)"
  proof
    assume "(joinSegs D, e) \<in> up_rel ss"
    then obtain k where k: "k < length ss" "joinSegs D = joinSegs (take k ss)" "e = dir_ent (ss ! k)" by (auto simp: up_rel_def)
    then have "D = take k ss" using joinSegs_inj [OF assms(3) tk] by blast
    moreover have "ss = take k ss @ [ss ! k] @ drop (Suc k) ss" using k(1) by (simp add: id_take_nth_drop)
    ultimately show "\<exists>x r. r \<noteq> [] \<and> ss @ [y] = D @ [x] @ r \<and> e = dir_ent x"
      using k(3) by (metis append.assoc snoc_eq_iff_butlast)
  next
    assume "\<exists>x r. r \<noteq> [] \<and> ss @ [y] = D @ [x] @ r \<and> e = dir_ent x"
    then obtain x r where r: "r \<noteq> []" "ss @ [y] = D @ [x] @ r" "e = dir_ent x" by blast
    then obtain r' where "r = r' @ [y]" "ss = D @ [x] @ r'" by (cases r rule: rev_cases) auto
    then have "length D < length ss" "take (length D) ss = D" "ss ! length D = x" by auto
    then show "(joinSegs D, e) \<in> up_rel ss" using r(3) unfolding up_rel_def by (metis (no_types, lifting) image_eqI lessThan_iff)
  qed
  moreover have "(joinSegs D, e) = (joinSegs ss, file_ent y fm) \<longleftrightarrow> (\<exists>x. p = D @ [x] \<and> e = file_ent x fm)"
    using joinSegs_inj [OF assms(3) ss] by (auto simp: p)
  ultimately show ?thesis by (auto simp: file_rel_def p)
qed

lemma rel_dir_files:
  assumes "files_ok fs" "list_all clean_name D"
  shows "(joinSegs D, e) \<in> \<Union> (file_rel ` set fs) \<longleftrightarrow> e \<in> dir_files fs D"
proof -
  have "(joinSegs D, e) \<in> \<Union> (file_rel ` set fs) \<longleftrightarrow> (\<exists>p fm. (p, fm) \<in> set fs \<and> (joinSegs D, e) \<in> file_rel (p, fm))" by auto
  also have "\<dots> \<longleftrightarrow> (\<exists>p fm. (p, fm) \<in> set fs \<and>
      ((\<exists>x. p = D @ [x] \<and> e = file_ent x fm) \<or> (\<exists>x r. r \<noteq> [] \<and> p = D @ [x] @ r \<and> e = dir_ent x)))"
    using file_rel_iff [OF _ _ assms(2)] files_okD [OF assms(1)] by (intro ex_cong1 conj_cong refl) blast
  also have "\<dots> \<longleftrightarrow> e \<in> dir_files fs D" unfolding dir_files_def by blast
  finally show ?thesis .
qed

lemma rel_dirs: "files_ok fs \<Longrightarrow> (d, e) \<in> \<Union> (file_rel ` set fs) \<Longrightarrow> \<exists>D. list_all clean_name D \<and> d = joinSegs D"
proof -
  assume ok: "files_ok fs" and "(d, e) \<in> \<Union> (file_rel ` set fs)"
  then obtain p fm where p: "(p, fm) \<in> set fs" "(d, e) \<in> file_rel (p, fm)" by auto
  have "list_all clean_name (take k (butlast p))" "list_all clean_name (butlast p)" for k
    using files_okD [OF ok p(1)] by (auto simp: list_all_iff dest: in_set_takeD in_set_butlastD)
  then show ?thesis using p(2) by (auto simp: file_rel_def up_rel_def)
qed

lemma dir_files_names:
  assumes "files_ok fs" "e \<in> dir_files fs D" "e' \<in> dir_files fs D" "d_name e = d_name e'"
  shows "e = e'"
proof -
  have d: "distinct (map fst fs)" and np: "(p, fm) \<in> set fs \<Longrightarrow> (q, fm') \<in> set fs \<Longrightarrow> \<not> strict_prefix p q" for p q fm fm'
    using assms(1) unfolding files_ok_def list_all_iff by fastforce+
  have no: False if "(D @ [x], fm) \<in> set fs" "(D @ [x] @ r, fm') \<in> set fs" "r \<noteq> []" for x r fm fm'
    using np [OF that(1,2)] that(3) by (auto simp: strict_prefix_def)
  have eq: "fm = fm'" if "(D @ [x], fm) \<in> set fs" "(D @ [x], fm') \<in> set fs" for x fm fm'
    using d that by (rule eq_key_imp_eq_value)
  from assms(2,3,4) show ?thesis
    unfolding dir_files_def by (auto simp: file_ent_def dir_ent_def dest: eq no)
qed

lemma files_names_fun:
  assumes "files_ok fs"
  shows "names_fun (\<Union> (file_rel ` set fs))"
  unfolding names_fun_def
proof (intro allI impI)
  fix d e e' assume "(d, e) \<in> \<Union> (file_rel ` set fs)" "(d, e') \<in> \<Union> (file_rel ` set fs)" "d_name e = d_name e'"
  then show "e = e'" using rel_dirs [OF assms] rel_dir_files [OF assms] dir_files_names [OF assms] by metis
qed

lemma files_ok_perm: "mset fs' = mset fs \<Longrightarrow> files_ok fs \<Longrightarrow> files_ok fs'"
proof -
  assume a: "mset fs' = mset fs" and ok: "files_ok fs"
  have "set fs' = set fs" using a by (rule mset_eq_setD)
  moreover have "mset (map fst fs') = mset (map fst fs)" using a by simp
  then have "distinct (map fst fs') = distinct (map fst fs)" by (rule mset_eq_imp_distinct_iff)
  ultimately show "files_ok fs'" using ok by (simp add: files_ok_def list_all_iff)
qed

lemma range_flat:
  assumes "files_ok fs" "mset (rng (flat fs)) = mset (flat fs)"
  shows "\<exists>fs'. rng (flat fs) = flat fs' \<and> mset fs' = mset fs"
proof -
  define unj where "unj = (\<lambda>(p, fm :: FileMeta). (splitSegs p, fm))"
  define fwd where "fwd = (\<lambda>(ss, fm :: FileMeta). (joinSegs ss, fm))"
  have bf: "unj (fwd f) = f" if "f \<in> set fs" for f
  proof -
    obtain p fm where f: "f = (p, fm)" by (cases f)
    then have "list_all clean_name p" using files_okD [OF assms(1)] that by blast
    then show ?thesis by (simp add: f unj_def fwd_def splitSegs_joinSegs)
  qed
  have fl: "flat fs = map fwd fs" by (simp add: flat_def fwd_def)
  have "mset (map unj (rng (flat fs))) = image_mset unj (mset (flat fs))" using assms(2) by simp
  also have "\<dots> = mset (map (unj \<circ> fwd) fs)" by (simp add: fl multiset.map_comp)
  also have "map (unj \<circ> fwd) fs = fs" using bf by (simp add: map_idI)
  finally have m: "mset (map unj (rng (flat fs))) = mset fs" .
  have "fwd (unj x) = x" if "x \<in> set (rng (flat fs))" for x
    using that bf mset_eq_setD [OF assms(2)] by (auto simp: fl)
  then have "map (fwd \<circ> unj) (rng (flat fs)) = rng (flat fs)" by (intro map_idI) simp
  then have "rng (flat fs) = flat (map unj (rng (flat fs)))" by (simp add: flat_def fwd_def [symmetric])
  then show ?thesis using m by blast
qed

lemma buildDirMap_ok:
  assumes "files_ok fs" "mset (rng (flat fs)) = mset (flat fs)"
  shows "\<exists>dirs. buildDirMap rng (flat fs) = Some dirs \<and>
    (\<forall>D. list_all clean_name D \<longrightarrow> set (dm_entries dirs (joinSegs D)) = dir_files fs D \<and> distinct (map d_name (dm_entries dirs (joinSegs D))) \<and>
       (map_of dirs (joinSegs D) = None \<longleftrightarrow> dir_files fs D = {}))"
proof -
  obtain fs' where f: "rng (flat fs) = flat fs'" "mset fs' = mset fs" using range_flat [where rng = rng, OF assms] by blast
  have ok: "files_ok fs'" using files_ok_perm [OF f(2) assms(1)] .
  have s: "set fs' = set fs" using f(2) by (rule mset_eq_setD)
  let ?dm = "\<lparr>dm_dirs = [], dm_set = []\<rparr>"
  have e: "dm_rel (dm_dirs ?dm) = {}" by (simp add: dm_rel_def dm_entries_def)
  then have "dm_ok ?dm" by (simp add: dm_ok_def dm_entries_def)
  then obtain dm where d: "dirmap_loop (flat fs') ?dm = Some dm" "dm_ok dm" "dm_rel (dm_dirs dm) = \<Union> (file_rel ` set fs)"
    using dirmap_loop_ok [of fs' ?dm] ok files_names_fun [OF ok] s e by (auto simp: files_ok_def flat_def)
  have "set (dm_entries (dm_dirs dm) (joinSegs D)) = dir_files fs D" if "list_all clean_name D" for D
  proof -
    have "e \<in> set (dm_entries (dm_dirs dm) (joinSegs D)) \<longleftrightarrow> (joinSegs D, e) \<in> dm_rel (dm_dirs dm)" for e by (simp add: dm_rel_def)
    then show ?thesis unfolding d(3) rel_dir_files [OF assms(1) that] by blast
  qed
  moreover have "map_of (dm_dirs dm) x = None \<longleftrightarrow> dm_entries (dm_dirs dm) x = []" for x
    using d(2) by (auto simp: dm_ok_def dm_entries_def split: option.split)
  ultimately have "\<forall>D. list_all clean_name D \<longrightarrow> set (dm_entries (dm_dirs dm) (joinSegs D)) = dir_files fs D \<and>
      distinct (map d_name (dm_entries (dm_dirs dm) (joinSegs D))) \<and> (map_of (dm_dirs dm) (joinSegs D) = None \<longleftrightarrow> dir_files fs D = {})"
    using d(2) unfolding dm_ok_def by (metis set_empty)
  then show ?thesis using d(1) f(1) by (simp add: buildDirMap_def)
qed

lemma map_of_flat:
  assumes "files_ok fs" "list_all clean_name D"
  shows "map_of (flat fs) (joinSegs D) = map_of fs D"
proof -
  have "map_of (map (\<lambda>(ss, fm). (joinSegs ss, fm)) xs) (joinSegs D) = map_of xs D" if "set xs \<subseteq> set fs" for xs
    using that
  proof (induction xs)
    case (Cons x xs)
    then have "list_all clean_name (fst x)" using files_okD [OF assms(1), of "fst x" "snd x"] by auto
    then show ?case using Cons joinSegs_inj [OF assms(2)] by (cases x) auto
  qed simp
  then show ?thesis by (simp add: flat_def)
qed

lemma joinSegs_Nil_iff: "list_all clean_name D \<Longrightarrow> joinSegs D = [] \<longleftrightarrow> D = []"
  using joinSegs_inj [of D "[]"] by (simp add: joinSegs_def)

lemma remote_view:
  assumes "files_ok fs" "mset (rng (flat fs)) = mset (flat fs)"
  shows "\<exists>dirs. buildDirMap rng (flat fs) = Some dirs \<and>
    (\<forall>D. list_all clean_name D \<longrightarrow>
       (let rmh = \<lparr>rmh_mv = mv, rmh_files = flat fs, rmh_dirs = dirs\<rparr> in
        (if dir_files fs D = {} \<and> D \<noteq> [] then rs_Readdir rmh (joinSegs D) = Inl ErrNotExist
         else \<exists>es. rs_Readdir rmh (joinSegs D) = Inr es \<and> set es = dir_files fs D \<and> distinct (map d_name es)) \<and>
        (D \<noteq> [] \<longrightarrow> rs_Stat rmh (joinSegs D) =
          (case map_of fs D of
             Some fm \<Rightarrow> Inr \<lparr>fi_name = last D, fi_size = fm_size fm, fi_mode = fm_mode fm\<rparr>
           | None \<Rightarrow> if dir_files fs D = {} then Inl ErrNotExist
               else Inr \<lparr>fi_name = last D, fi_size = 0, fi_mode = \<lparr>is_dir = True, perm = 0\<rparr>\<rparr>))))"
proof -
  obtain dirs where b: "buildDirMap rng (flat fs) = Some dirs" and
    d: "\<And>D. list_all clean_name D \<Longrightarrow> set (dm_entries dirs (joinSegs D)) = dir_files fs D \<and> distinct (map d_name (dm_entries dirs (joinSegs D))) \<and>
       (map_of dirs (joinSegs D) = None \<longleftrightarrow> dir_files fs D = {})"
    using buildDirMap_ok [where rng = rng, OF assms] by blast
  let ?r = "\<lparr>rmh_mv = mv, rmh_files = flat fs, rmh_dirs = dirs\<rparr>"
  have rd: "if dir_files fs D = {} \<and> D \<noteq> [] then rs_Readdir ?r (joinSegs D) = Inl ErrNotExist
         else \<exists>es. rs_Readdir ?r (joinSegs D) = Inr es \<and> set es = dir_files fs D \<and> distinct (map d_name es)"
    if c: "list_all clean_name D" for D
  proof (cases "map_of dirs (joinSegs D)")
    case None
    then have "dir_files fs D = {}" using d [OF c] by blast
    moreover have "rs_Readdir ?r (joinSegs D) = (if D = [] then Inr [] else Inl ErrNotExist)"
      using None joinSegs_Nil_iff [OF c] by (simp add: rs_Readdir_def)
    ultimately show ?thesis by auto
  next
    case (Some es)
    then have "set es = dir_files fs D" "distinct (map d_name es)" "dir_files fs D \<noteq> {}"
      using d [OF c] by (auto simp: dm_entries_def)
    then show ?thesis using Some by (simp add: rs_Readdir_def)
  qed
  have st: "rs_Stat ?r (joinSegs D) = (case map_of fs D of
             Some fm \<Rightarrow> Inr \<lparr>fi_name = last D, fi_size = fm_size fm, fi_mode = fm_mode fm\<rparr>
           | None \<Rightarrow> if dir_files fs D = {} then Inl ErrNotExist
               else Inr \<lparr>fi_name = last D, fi_size = 0, fi_mode = \<lparr>is_dir = True, perm = 0\<rparr>\<rparr>)"
    if c: "list_all clean_name D" and "D \<noteq> []" for D
  proof -
    obtain ss x where D: "D = ss @ [x]" using \<open>D \<noteq> []\<close> by (cases D rule: rev_cases) auto
    have "path_Base (joinSegs D) = last D" using join_parts(1) [of ss x] c by (simp add: D)
    moreover have "joinSegs D \<noteq> []" using joinSegs_Nil_iff [OF c] \<open>D \<noteq> []\<close> by simp
    moreover have "map_of dirs (joinSegs D) \<noteq> None \<longleftrightarrow> dir_files fs D \<noteq> {}"
      using d [OF c, THEN conjunct2, THEN conjunct2] by (simp only: simp_thms)
    ultimately show ?thesis using map_of_flat [OF assms(1) c]
      by (cases "map_of fs D") (simp_all add: rs_Stat_def)
  qed
  show ?thesis unfolding Let_def using b rd st by blast
qed

text \<open>
  A remote module looks like its files: for every module of clean paths, in whatever order Go
  ranges over the decoded map, building the directories ends; \<^verbatim>\<open>Readdir\<close> of a directory lists exactly its
  files and its directories with files below, each once, \<^verbatim>\<open>Stat\<close> answers files with their size and
  mode and directories as directories, and every other path does not exist.
\<close>
theorem remote_module_is_files:
  assumes "files_ok fs" "mset (rng (flat fs)) = mset (flat fs)"
  shows "\<exists>dirs. buildDirMap rng (flat fs) = Some dirs \<and>
    (\<forall>D. list_all clean_name D \<longrightarrow>
       (let rmh = \<lparr>rmh_mv = mv, rmh_files = flat fs, rmh_dirs = dirs\<rparr> in
        (if dir_files fs D = {} \<and> D \<noteq> [] then rs_Readdir rmh (joinSegs D) = Inl ErrNotExist
         else \<exists>es. rs_Readdir rmh (joinSegs D) = Inr es \<and> set es = dir_files fs D \<and> distinct (map d_name es)) \<and>
        (D \<noteq> [] \<longrightarrow> rs_Stat rmh (joinSegs D) =
          (case map_of fs D of
             Some fm \<Rightarrow> Inr \<lparr>fi_name = last D, fi_size = fm_size fm, fi_mode = fm_mode fm\<rparr>
           | None \<Rightarrow> if dir_files fs D = {} then Inl ErrNotExist
               else Inr \<lparr>fi_name = last D, fi_size = 0, fi_mode = \<lparr>is_dir = True, perm = 0\<rparr>\<rparr>))))"
  by (rule remote_view [where rng = rng, OF assms])

theorem remote_module_is_files_witness:
  "\<exists>dirs. buildDirMap rev (flat [([''a'', ''b.go''], \<lparr>fm_size = 3, fm_mode = \<lparr>is_dir = False, perm = 420\<rparr>\<rparr>)]) = Some dirs \<and>
     rs_Readdir \<lparr>rmh_mv = no_mv, rmh_files = flat [([''a'', ''b.go''], \<lparr>fm_size = 3, fm_mode = \<lparr>is_dir = False, perm = 420\<rparr>\<rparr>)], rmh_dirs = dirs\<rparr> ''c'' = Inl ErrNotExist"
proof -
  let ?fs = "[([''a'', ''b.go''], \<lparr>fm_size = 3, fm_mode = \<lparr>is_dir = False, perm = 420\<rparr>\<rparr>)]"
  have ok: "files_ok ?fs" by (simp add: files_ok_def clean_name_def)
  have "dir_files ?fs [''c''] = {}" by (simp add: dir_files_def)
  moreover have "list_all clean_name [''c'']" "joinSegs [''c''] = ''c''" by (simp_all add: clean_name_def joinSegs_def)
  ultimately show ?thesis using remote_module_is_files [OF ok, of rev no_mv] by (fastforce simp: Let_def)
qed

text \<open>A rooted path in the server's answer sends the client up from the root forever.\<close>

lemma walk_up_root: "walk_up ''/'' dm = None"
proof -
  have dr: "dir_or_root (path_Dir ''/'') = ''/''" by code_simp
  have "c \<noteq> ''/''" if w: "walk_up c dm = Some dm'" for c dm dm'
  proof (rule walk_up.raw_induct [OF _ w])
    fix rec c dm dm'
    assume 1: "\<And>c dm dm'. rec c dm = Some dm' \<Longrightarrow> c \<noteq> ''/''"
      and 2: "(if c = [] then Some dm else let parent = dir_or_root (path_Dir c)
         in rec parent (add_child parent (dir_ent (path_Base c)) dm)) = Some dm'"
    show "c \<noteq> ''/''"
    proof
      assume "c = ''/''"
      then show False using 1 2 dr by (auto simp: Let_def)
    qed
  qed
  then show ?thesis by (cases "walk_up ''/'' dm") auto
qed

theorem remote_rooted_path_hangs: "buildDirMap id [(''/a'', fm)] = None"
proof -
  have "dir_or_root (path_Dir ''/a'') = ''/''" by code_simp
  then show ?thesis by (simp add: buildDirMap_def walk_up_root Let_def)
qed

end
