(* ===== verification/Remote_Roundtrip.thy ===== *)
theory Remote_Roundtrip
  imports Remote_Client
begin

text \<open>
  The remote store end to end: a client whose requests reach the handler of a server sees the
  server's module, its tree of files and their contents.
\<close>

section \<open>Trees of files\<close>

datatype ftree = FFile FileMeta | FDir "(string \<times> ftree) list"

fun lookup_ftree :: "ftree \<Rightarrow> string list \<Rightarrow> ftree option" where
  "lookup_ftree t [] = Some t"
| "lookup_ftree (FFile m) (s # ss) = None"
| "lookup_ftree (FDir es) (s # ss) = (case map_of es s of None \<Rightarrow> None | Some t \<Rightarrow> lookup_ftree t ss)"

fun ftree_ok :: "ftree \<Rightarrow> bool" where
  "ftree_ok (FFile m) = (\<not> is_dir (fm_mode m))"
| "ftree_ok (FDir es) = (distinct (map fst es) \<and> list_all (\<lambda>(n, t). clean_name n \<and> ftree_ok t) es)"

fun fdepth :: "ftree \<Rightarrow> nat" where
  "fdepth (FFile m) = 0"
| "fdepth (FDir es) = Suc (fold max (map (\<lambda>(n, t). fdepth t) es) 0)"

fun tree_files :: "string list \<Rightarrow> ftree \<Rightarrow> (string list \<times> FileMeta) list" where
  "tree_files ss (FFile m) = [(ss, m)]"
| "tree_files ss (FDir es) = concat (map (\<lambda>(n, t). tree_files (ss @ [n]) t) es)"

text \<open>How a store lists such a tree.\<close>

definition ftree_ent :: "string \<times> ftree \<Rightarrow> dirent" where
  "ftree_ent x = (case snd x of FFile m \<Rightarrow> file_ent (fst x) m | FDir _ \<Rightarrow> \<lparr>d_name = fst x, d_mode = \<lparr>is_dir = True, perm = 493\<rparr>, d_size = 0\<rparr>)"

definition rd_ftree :: "ftree \<Rightarrow> string \<Rightarrow> err + dirent list" where
  "rd_ftree t p = (case lookup_ftree t (splitSegs p) of Some (FDir es) \<Rightarrow> Inr (map ftree_ent es) | _ \<Rightarrow> Inl ErrNotExist)"

lemma lookup_append: "lookup_ftree t (a @ b) = (case lookup_ftree t a of None \<Rightarrow> None | Some u \<Rightarrow> lookup_ftree u b)"
  by (induction t a rule: lookup_ftree.induct) (auto split: option.split)

lemma fold_max_le: "x \<in> set xs \<Longrightarrow> x \<le> fold max xs (k :: nat)"
proof (induction xs arbitrary: k)
  case (Cons y ys)
  have "k \<le> fold max zs k" for zs and k :: nat by (induction zs arbitrary: k) (auto intro: order_trans [OF max.cobounded2])
  from this [of "max y k" ys] show ?case using Cons by (auto intro: order_trans [OF max.cobounded1])
qed simp

lemma fdepth_child: "(n, t) \<in> set es \<Longrightarrow> fdepth (FDir es) \<le> Suc k \<Longrightarrow> fdepth t \<le> k"
  using fold_max_le [of "fdepth t" "map (\<lambda>(n, t). fdepth t) es" 0] by force

lemma ftree_ok_child: "ftree_ok (FDir es) \<Longrightarrow> (n, t) \<in> set es \<Longrightarrow> ftree_ok t"
  by (induction es) auto

lemma lookup_child: "ftree_ok (FDir es) \<Longrightarrow> (n, t) \<in> set es \<Longrightarrow> lookup_ftree (FDir es) [n] = Some t"
  by simp

section \<open>The server's walk\<close>

definition put_all :: "ModVersionMap \<Rightarrow> ModVersionMap \<Rightarrow> ModVersionMap" where
  "put_all xs m = fold (\<lambda>(k, v). AList.update k v) xs m"

lemma put_all_simps [simp]: "put_all [] m = m" "put_all (x # xs) m = put_all xs (AList.update (fst x) (snd x) m)"
  "put_all (xs @ ys) m = put_all ys (put_all xs m)"
  by (simp_all add: put_all_def case_prod_beta)

lemma update_new: "k \<notin> fst ` set m \<Longrightarrow> AList.update k v m = m @ [(k, v)]"
  by (induction m) auto

lemma put_all_distinct: "distinct (map fst (m @ xs)) \<Longrightarrow> put_all xs m = m @ xs"
  by (induction xs arbitrary: m) (auto simp: update_new)

lemma meta_eta: "\<lparr>fm_size = fm_size m, fm_mode = fm_mode m\<rparr> = (m :: FileMeta)"
  by (cases m) simp

lemma walkFiles_tree:
  assumes "ftree_ok root"
  shows "lookup_ftree root ss = Some (FDir es) \<Longrightarrow> list_all clean_name ss \<Longrightarrow> ftree_ok (FDir es) \<Longrightarrow> fdepth (FDir es) \<le> n \<Longrightarrow>
    walkFiles n (rd_ftree root) (joinSegs ss) fmap = Some (Inr (put_all (flat (tree_files ss (FDir es))) fmap))"
proof (induction n arbitrary: ss es fmap)
  case (Suc n)
  have "walkEnts (walkFiles n (rd_ftree root)) (joinSegs ss) (map ftree_ent xs) fmap =
      Some (Inr (put_all (flat (concat (map (\<lambda>(n, t). tree_files (ss @ [n]) t) xs))) fmap))" if "set xs \<subseteq> set es" for xs fmap
    using that
  proof (induction xs arbitrary: fmap)
    case (Cons x xs)
    obtain m t where x: "x = (m, t)" by (cases x)
    have xe: "(m, t) \<in> set es" using Cons.prems x by simp
    have cl: "list_all clean_name (ss @ [m])" and ok: "ftree_ok t"
      using Suc.prems(2,3) xe by (auto simp: list_all_iff)
    have lk: "lookup_ftree root (ss @ [m]) = Some t"
      using lookup_append [of root ss "[m]"] Suc.prems(1) lookup_child [OF Suc.prems(3) xe] by simp
    note nm = sub_path_join [OF Suc.prems(2), of m]
    show ?case
    proof (cases t)
      case (FFile fm)
      then have "\<not> is_dir (fm_mode fm)" using ok by simp
      then show ?thesis using Cons by (simp add: x FFile ftree_ent_def file_ent_def nm flat_def meta_eta)
    next
      case (FDir es')
      have "fdepth (FDir es') \<le> n" using fdepth_child [OF xe Suc.prems(4)] FDir by simp
      then have "walkFiles n (rd_ftree root) (joinSegs (ss @ [m])) fmap = Some (Inr (put_all (flat (tree_files (ss @ [m]) t)) fmap))"
        using Suc.IH [of "ss @ [m]" es' fmap] lk cl ok FDir by simp
      then show ?thesis using Cons by (simp add: x FDir ftree_ent_def nm flat_def)
    qed
  qed (simp add: flat_def)
  note ents = this [OF subset_refl]
  have "rd_ftree root (joinSegs ss) = Inr (map ftree_ent es)"
    using Suc.prems(1) splitSegs_joinSegs [OF Suc.prems(2)] by (simp add: rd_ftree_def)
  then show ?case using ents by simp
qed simp

section \<open>The files of a tree\<close>

lemma tree_files_prefix: "(p, fm) \<in> set (tree_files ss t) \<Longrightarrow> \<exists>r. p = ss @ r"
  by (induction ss t rule: tree_files.induct) force+

lemma tree_files_fst: "p \<in> fst ` set (tree_files ss t) \<Longrightarrow> \<exists>r. p = ss @ r"
  by (auto dest: tree_files_prefix)

lemma tree_files_lookup:
  "ftree_ok t \<Longrightarrow> (ss @ r, fm) \<in> set (tree_files ss t) \<longleftrightarrow> lookup_ftree t r = Some (FFile fm)"
proof (induction t arbitrary: ss r)
  case (FFile m)
  then show ?case by (cases r) auto
next
  case (FDir es)
  have in_ch: "(ss @ r, fm) \<in> set (tree_files ss (FDir es)) \<longleftrightarrow> (\<exists>n t. (n, t) \<in> set es \<and> (ss @ r, fm) \<in> set (tree_files (ss @ [n]) t))" by force
  show ?case
  proof (cases r)
    case Nil
    have "(ss @ r, fm) \<notin> set (tree_files (ss @ [n]) t)" for n t using tree_files_prefix [of "ss @ r" fm "ss @ [n]" t] Nil by auto
    then show ?thesis using in_ch Nil by simp
  next
    case (Cons x xs)
    have "(\<exists>n t. (n, t) \<in> set es \<and> (ss @ r, fm) \<in> set (tree_files (ss @ [n]) t)) \<longleftrightarrow> (\<exists>t. (x, t) \<in> set es \<and> lookup_ftree t xs = Some (FFile fm))"
    proof
      assume "\<exists>n t. (n, t) \<in> set es \<and> (ss @ r, fm) \<in> set (tree_files (ss @ [n]) t)"
      then obtain n t where nt: "(n, t) \<in> set es" "(ss @ r, fm) \<in> set (tree_files (ss @ [n]) t)" by blast
      then have "n = x" using tree_files_prefix [OF nt(2)] Cons by auto
      then have "lookup_ftree t xs = Some (FFile fm)"
        using FDir.IH [of "(n, t)" t "ss @ [n]" xs] nt FDir.prems Cons by (auto simp: list_all_iff)
      then show "\<exists>t. (x, t) \<in> set es \<and> lookup_ftree t xs = Some (FFile fm)" using nt(1) \<open>n = x\<close> by blast
    next
      assume "\<exists>t. (x, t) \<in> set es \<and> lookup_ftree t xs = Some (FFile fm)"
      then obtain t where t: "(x, t) \<in> set es" "lookup_ftree t xs = Some (FFile fm)" by blast
      then have "((ss @ [x]) @ xs, fm) \<in> set (tree_files (ss @ [x]) t)"
        using FDir.IH [of "(x, t)" t "ss @ [x]" xs] FDir.prems by (auto simp: list_all_iff)
      then show "\<exists>n t. (n, t) \<in> set es \<and> (ss @ r, fm) \<in> set (tree_files (ss @ [n]) t)" using t(1) Cons by auto
    qed
    moreover have "(\<exists>t. (x, t) \<in> set es \<and> lookup_ftree t xs = Some (FFile fm)) \<longleftrightarrow> lookup_ftree (FDir es) r = Some (FFile fm)"
    proof -
      have "distinct (map fst es)" using FDir.prems by simp
      then have "(x, t) \<in> set es \<longleftrightarrow> map_of es x = Some t" for t by simp
      then show ?thesis using Cons by (auto simp del: map_of_eq_Some_iff split: option.split)
    qed
    ultimately show ?thesis using in_ch by blast
  qed
qed

lemma lookup_clean: "ftree_ok t \<Longrightarrow> lookup_ftree t p = Some u \<Longrightarrow> list_all clean_name p"
proof (induction t p rule: lookup_ftree.induct)
  case (3 es s ss)
  then obtain t where t: "map_of es s = Some t" "lookup_ftree t ss = Some u" by (auto split: option.splits)
  then have "(s, t) \<in> set es" by (simp add: map_of_SomeD)
  then have "clean_name s" "ftree_ok t" using "3.prems"(1) by (auto simp: list_all_iff)
  then show ?case using "3.IH" [OF t(1)] t(2) by simp
qed simp_all

lemma tree_files_distinct: "ftree_ok t \<Longrightarrow> distinct (map fst (tree_files ss t))"
proof (induction t arbitrary: ss)
  case (FDir es)
  have "distinct (map fst (concat (map (\<lambda>(n, t). tree_files (ss @ [n]) t) xs)))"
    if "set xs \<subseteq> set es" "distinct (map fst xs)" for xs
    using that
  proof (induction xs)
    case (Cons x xs)
    obtain n t where x: "x = (n, t)" by (cases x)
    have "p \<notin> fst ` set (concat (map (\<lambda>(n, t). tree_files (ss @ [n]) t) xs))" if p: "p \<in> fst ` set (tree_files (ss @ [n]) t)" for p
    proof
      assume "p \<in> fst ` set (concat (map (\<lambda>(n, t). tree_files (ss @ [n]) t) xs))"
      then obtain m u where "(m, u) \<in> set xs" "p \<in> fst ` set (tree_files (ss @ [m]) u)" by auto
      then obtain r r' where "p = (ss @ [m]) @ r" "p = (ss @ [n]) @ r'"
        using tree_files_fst [OF p] tree_files_fst [of p "ss @ [m]" u] by blast
      then have "m = n" by simp
      then show False using Cons.prems(2) \<open>(m, u) \<in> set xs\<close> x by (force simp: image_iff)
    qed
    moreover have "distinct (map fst (tree_files (ss @ [n]) t))"
      using FDir.IH [of x t "ss @ [n]"] FDir.prems Cons.prems(1) x by (auto simp: list_all_iff)
    moreover have "distinct (map fst (concat (map (\<lambda>(n, t). tree_files (ss @ [n]) t) xs)))" using Cons by simp
    moreover have "map fst (concat (map (\<lambda>(n, t). tree_files (ss @ [n]) t) (x # xs))) =
      map fst (tree_files (ss @ [n]) t) @ map fst (concat (map (\<lambda>(n, t). tree_files (ss @ [n]) t) xs))" by (simp add: x)
    ultimately show ?case by (simp only: distinct_append set_map) blast
  qed simp
  then show ?case using FDir.prems by simp
qed simp

lemma tree_files_ok:
  assumes "ftree_ok (FDir es)"
  shows "files_ok (tree_files [] (FDir es))"
proof -
  note L = tree_files_lookup [OF assms, of "[]", simplified append_Nil]
  have "p \<noteq> [] \<and> list_all clean_name p" if "(p, fm) \<in> set (tree_files [] (FDir es))" for p fm
  proof -
    have l: "lookup_ftree (FDir es) p = Some (FFile fm)" using L that by blast
    then have "p \<noteq> []" by auto
    then show ?thesis using lookup_clean [OF assms l] by simp
  qed
  moreover have "\<not> strict_prefix p q" if p: "(p, fm) \<in> set (tree_files [] (FDir es))" and q: "(q, fm') \<in> set (tree_files [] (FDir es))" for p q fm fm'
  proof
    assume "strict_prefix p q"
    then obtain r where r: "q = p @ r" "r \<noteq> []" by (auto simp: strict_prefix_def prefix_def)
    then show False using L [of p fm] L [of q fm'] p q lookup_append [of "FDir es" p r] by (cases r) auto
  qed
  moreover define F where "F = tree_files [] (FDir es)"
  ultimately show ?thesis
    using tree_files_distinct [OF assms, of "[]"] unfolding files_ok_def list_all_iff F_def [symmetric] by auto
qed

text \<open>What a directory of the tree shows through the flat map: directories without files are lost.\<close>

definition has_file :: "ftree \<Rightarrow> bool" where
  "has_file t \<longleftrightarrow> tree_files [] t \<noteq> []"

definition remote_ents :: "(string \<times> ftree) list \<Rightarrow> dirent set" where
  "remote_ents es = {file_ent n m | n m. (n, FFile m) \<in> set es} \<union> {dir_ent n | n es'. (n, FDir es') \<in> set es \<and> has_file (FDir es')}"

lemma has_file_iff: "ftree_ok t \<Longrightarrow> has_file t \<longleftrightarrow> (\<exists>r m. lookup_ftree t r = Some (FFile m))"
proof -
  assume ok: "ftree_ok t"
  have "has_file t \<longleftrightarrow> (\<exists>p m. (p, m) \<in> set (tree_files [] t))" unfolding has_file_def by (cases "tree_files [] t") auto
  then show ?thesis using tree_files_lookup [OF ok, of "[]"] by simp
qed

lemma lookup_ok: "ftree_ok t \<Longrightarrow> lookup_ftree t p = Some u \<Longrightarrow> ftree_ok u"
proof (induction t p rule: lookup_ftree.induct)
  case (3 es s ss)
  then show ?case by (auto simp: list_all_iff split: option.splits dest: map_of_SomeD)
qed simp_all

lemma dir_files_tree:
  assumes "ftree_ok (FDir root)" "lookup_ftree (FDir root) D = Some (FDir es)"
  shows "dir_files (tree_files [] (FDir root)) D = remote_ents es"
proof -
  note L = tree_files_lookup [OF assms(1), of "[]", simplified append_Nil]
  have ok: "ftree_ok (FDir es)" by (rule lookup_ok [OF assms])
  have lk: "lookup_ftree (FDir root) (D @ r) = lookup_ftree (FDir es) r" for r using lookup_append [of "FDir root" D r] assms(2) by simp
  have f: "(D @ [x], m) \<in> set (tree_files [] (FDir root)) \<longleftrightarrow> (x, FFile m) \<in> set es" for x m
  proof -
    have "distinct (map fst es)" using ok by simp
    then have "(x, t) \<in> set es \<longleftrightarrow> map_of es x = Some t" for t by simp
    then show ?thesis unfolding L lk by (auto simp del: map_of_eq_Some_iff split: option.split)
  qed
  have d: "(\<exists>r m. r \<noteq> [] \<and> (D @ [x] @ r, m) \<in> set (tree_files [] (FDir root))) \<longleftrightarrow> (\<exists>es'. (x, FDir es') \<in> set es \<and> has_file (FDir es'))" for x
  proof
    assume "\<exists>r m. r \<noteq> [] \<and> (D @ [x] @ r, m) \<in> set (tree_files [] (FDir root))"
    then obtain r m where r: "r \<noteq> []" "lookup_ftree (FDir es) (x # r) = Some (FFile m)" unfolding L lk by auto
    then obtain t where t: "map_of es x = Some t" "lookup_ftree t r = Some (FFile m)" by (auto split: option.splits)
    then obtain es' where "t = FDir es'" using r(1) by (cases t; cases r) auto
    moreover have "(x, t) \<in> set es" using t(1) by (rule map_of_SomeD)
    moreover from this have "ftree_ok t" using ok by (auto simp: list_all_iff)
    ultimately show "\<exists>es'. (x, FDir es') \<in> set es \<and> has_file (FDir es')" using has_file_iff t(2) by blast
  next
    assume "\<exists>es'. (x, FDir es') \<in> set es \<and> has_file (FDir es')"
    then obtain es' where e: "(x, FDir es') \<in> set es" "has_file (FDir es')" by blast
    then have "ftree_ok (FDir es')" using ftree_ok_child [OF ok] by blast
    then obtain r m where r: "lookup_ftree (FDir es') r = Some (FFile m)" using has_file_iff e(2) by blast
    then have "r \<noteq> []" by auto
    moreover have "lookup_ftree (FDir es) ([x] @ r) = Some (FFile m)"
      unfolding lookup_append using r lookup_child [OF ok e(1)] by simp
    ultimately show "\<exists>r m. r \<noteq> [] \<and> (D @ [x] @ r, m) \<in> set (tree_files [] (FDir root))" unfolding L lk by blast
  qed
  show ?thesis unfolding dir_files_def remote_ents_def using f d by blast
qed

section \<open>Client and server together\<close>

text \<open>
  How a request of the client reaches the handler: the path up to the query, percent-decoded, and
  the values of the query.
\<close>

definition parse_query :: "string \<Rightarrow> (string \<times> string) list" where
  "parse_query q = concat (map (\<lambda>kv. let (k, v, _) = cut kv ''='' in
     case (url_QueryUnescape k, url_QueryUnescape v) of (Some k, Some v) \<Rightarrow> [(k, v)] | _ \<Rightarrow> []) (split_on CHR ''&'' q))"

definition wire ::
  "nat \<Rightarrow> ('b, 'h, 'c) hdl_env \<Rightarrow> string \<Rightarrow> ('b, 'c) hdl_state \<Rightarrow> string \<Rightarrow> string \<Rightarrow> (err + http_resp) \<times> ('b, 'c) hdl_state" where
  "wire fuel H base s url acc =
     (let (rawPath, q, hasQ) = cut (drop (length base) url) ''?'' in
      case url_PathUnescape rawPath of
        None \<Rightarrow> (Inl (ErrMsg ''invalid URL escape''), s)
      | Some p \<Rightarrow>
          (case Handler fuel H \<lparr>q_method = ''GET'', q_path = p, q_query = (if hasQ then parse_query q else []), q_accept = acc\<rparr> s of
             Some (Ok r, s1) \<Rightarrow> (Inr r, s1)
           | Some (_, s1) \<Rightarrow> (Inl (ErrMsg ''EOF''), s1)
           | None \<Rightarrow> (Inl (ErrMsg ''timeout''), s)))"

definition url_plain :: "string \<Rightarrow> bool" where
  "url_plain p \<longleftrightarrow> list_all (\<lambda>c. c \<noteq> CHR ''%'' \<and> c \<noteq> CHR ''?'') p"

lemma unescape_plain: "url_plain p \<Longrightarrow> url_PathUnescape p = Some p"
  by (induction p) (simp_all add: url_plain_def)

lemma plain_no_query: "url_plain p \<Longrightarrow> CHR ''?'' \<notin> set p"
  by (auto simp: url_plain_def list_all_iff)

lemma prefixes_plain [simp]: "url_plain modmapPrefix" "url_plain filePrefix" "url_plain metaPrefix"
  by (simp_all add: url_plain_def modmapPrefix_def filePrefix_def metaPrefix_def apiPrefix_def)

lemma url_plain_append [simp]: "url_plain (a @ b) \<longleftrightarrow> url_plain a \<and> url_plain b"
  by (simp add: url_plain_def)

lemma query_chars: "c \<in> set (url_QueryEscape s) \<Longrightarrow> c \<noteq> CHR ''&'' \<and> c \<noteq> CHR ''=''"
proof -
  assume "c \<in> set (url_QueryEscape s)"
  then have "c = CHR ''+'' \<or> c = CHR ''%'' \<or> is_alnum c \<or> query_plain c"
    using upperhex_alnum nibbles by (fastforce simp: url_QueryEscape_def split: if_splits)
  then show ?thesis by (auto simp: query_plain_def is_alnum_def)
qed

lemma parse_query_path: "parse_query (''path='' @ url_QueryEscape p) = [(''path'', p)]"
proof -
  have "CHR ''&'' \<notin> set (''path='' @ url_QueryEscape p)" using query_chars [of _ p] by auto
  then have s: "split_on CHR ''&'' (''path='' @ url_QueryEscape p) = [''path='' @ url_QueryEscape p]" by (rule split_on_free)
  have "cut (''path'' @ CHR ''='' # url_QueryEscape p) ''='' = (''path'', url_QueryEscape p, True)" by (rule cut_char) simp
  moreover have "url_QueryUnescape ''path'' = Some ''path''" by code_simp
  ultimately show ?thesis unfolding parse_query_def s by (simp add: query_roundtrip Let_def)
qed

lemma wire_plain:
  assumes "url_plain p"
  shows "wire fuel H base s (base @ p) acc =
    (case Handler fuel H \<lparr>q_method = ''GET'', q_path = p, q_query = [], q_accept = acc\<rparr> s of
             Some (Ok r, s1) \<Rightarrow> (Inr r, s1) | Some (_, s1) \<Rightarrow> (Inl (ErrMsg ''EOF''), s1) | None \<Rightarrow> (Inl (ErrMsg ''timeout''), s))"
    and "wire fuel H base s (base @ p @ ''?path='' @ url_QueryEscape f) acc =
    (case Handler fuel H \<lparr>q_method = ''GET'', q_path = p, q_query = [(''path'', f)], q_accept = acc\<rparr> s of
             Some (Ok r, s1) \<Rightarrow> (Inr r, s1) | Some (_, s1) \<Rightarrow> (Inl (ErrMsg ''EOF''), s1) | None \<Rightarrow> (Inl (ErrMsg ''timeout''), s))"
proof -
  have "cut p ''?'' = (p, [], False)" by (rule cut_none [OF plain_no_query [OF assms]])
  then show "wire fuel H base s (base @ p) acc =
    (case Handler fuel H \<lparr>q_method = ''GET'', q_path = p, q_query = [], q_accept = acc\<rparr> s of
             Some (Ok r, s1) \<Rightarrow> (Inr r, s1) | Some (_, s1) \<Rightarrow> (Inl (ErrMsg ''EOF''), s1) | None \<Rightarrow> (Inl (ErrMsg ''timeout''), s))"
    by (simp add: wire_def unescape_plain [OF assms])
  have "cut (p @ CHR ''?'' # ''path='' @ url_QueryEscape f) ''?'' = (p, ''path='' @ url_QueryEscape f, True)"
    by (rule cut_char [OF plain_no_query [OF assms]])
  then show "wire fuel H base s (base @ p @ ''?path='' @ url_QueryEscape f) acc =
    (case Handler fuel H \<lparr>q_method = ''GET'', q_path = p, q_query = [(''path'', f)], q_accept = acc\<rparr> s of
             Some (Ok r, s1) \<Rightarrow> (Inr r, s1) | Some (_, s1) \<Rightarrow> (Inl (ErrMsg ''EOF''), s1) | None \<Rightarrow> (Inl (ErrMsg ''timeout''), s))"
    using parse_query_path [of f] by (simp add: wire_def unescape_plain [OF assms])
qed

lemma Handler_routes:
  "Handler fuel H \<lparr>q_method = ''GET'', q_path = modmapPrefix @ p, q_query = q, q_accept = a\<rparr> s =
     handleModMap fuel H \<lparr>q_method = ''GET'', q_path = modmapPrefix @ p, q_query = q, q_accept = a\<rparr> s"
  "Handler fuel H \<lparr>q_method = ''GET'', q_path = filePrefix @ p, q_query = q, q_accept = a\<rparr> s =
     Some (handleFile H \<lparr>q_method = ''GET'', q_path = filePrefix @ p, q_query = q, q_accept = a\<rparr> s)"
  "Handler fuel H \<lparr>q_method = ''GET'', q_path = metaPrefix @ p, q_query = q, q_accept = a\<rparr> s =
     Some (handleMeta H \<lparr>q_method = ''GET'', q_path = metaPrefix @ p, q_query = q, q_accept = a\<rparr> s)"
  by (simp_all add: Handler_def modmapPrefix_def filePrefix_def metaPrefix_def apiPrefix_def)

lemma acceptsLZ4_lz4: "acceptsLZ4 ''lz4''"
  by code_simp

declare tree_files.simps(2) [simp del]

text \<open>The server and the client know the same escaping, and the coding of the map is undone.\<close>

definition same_coding :: "('b, 'h, 'c) hdl_env \<Rightarrow> 'n rs_env \<Rightarrow> ModVersionMap \<Rightarrow> bool" where
  "same_coding H R F \<longleftrightarrow> xmod_ok (h_xmod H) \<and> rs_xmod R = h_xmod H \<and> mset (rs_range R F) = mset F \<and>
     (\<exists>js z. json_Marshal H F = Inr js \<and> lz4_compress H js = Inr z \<and> lz4_decompress R z = Inr js \<and> json_Unmarshal R js = Inr F)"

lemma handleModMap_tree:
  assumes "same_coding H (R :: 'n rs_env) (flat (tree_files [] (FDir es)))" "mvToEscapedPath (h_xmod H) mv = Inr esc"
    and "be_root H b mv = (Ok mh, b1)" "be_readdir H b1 mh = rd_ftree (FDir es)" "ftree_ok (FDir es)" "fdepth (FDir es) \<le> fuel"
    and "lz_Get H c mv = (None, c1)"
  shows "\<exists>z. handleModMap fuel H \<lparr>q_method = ''GET'', q_path = modmapPrefix @ esc, q_query = [], q_accept = ''lz4''\<rparr> \<lparr>h_backend = b, h_modmapLZ = c\<rparr> =
      Some (Ok (modmap_resp z), \<lparr>h_backend = b1, h_modmapLZ = lz_Set H c1 mv z\<rparr>) \<and>
    decode_modmap R mv (modmap_resp z) =
      map_option (\<lambda>dirs. Inr \<lparr>rmh_mv = mv, rmh_files = flat (tree_files [] (FDir es)), rmh_dirs = dirs\<rparr>) (buildDirMap (rs_range R) (flat (tree_files [] (FDir es))))"
proof -
  let ?F = "flat (tree_files [] (FDir es))"
  obtain js z where js: "json_Marshal H ?F = Inr js" "lz4_compress H js = Inr z" "lz4_decompress R z = Inr js" "json_Unmarshal R js = Inr ?F"
    using assms(1) by (auto simp: same_coding_def)
  have X: "xmod_ok (h_xmod H)" using assms(1) by (simp add: same_coding_def)
  have "parseMVFromPath (h_xmod H) (modmapPrefix @ esc) modmapPrefix = Inr (mv, [])"
    by (rule mv_url_roundtrip(1) [OF X assms(2)]) (simp_all add: modmapPrefix_def metaPrefix_def apiPrefix_def)
  moreover have "distinct (map fst ?F)"
  proof -
    have ok: "files_ok (tree_files [] (FDir es))" by (rule tree_files_ok [OF assms(5)])
    have "inj_on joinSegs (fst ` set (tree_files [] (FDir es)))"
      using joinSegs_inj files_okD [OF ok] by (auto simp: inj_on_def)
    moreover have "map fst ?F = map joinSegs (map fst (tree_files [] (FDir es)))" by (simp add: flat_def case_prod_beta')
    ultimately show ?thesis using ok by (simp only: distinct_map set_map files_ok_def)
  qed
  then have "walkFiles fuel (rd_ftree (FDir es)) [] [] = Some (Inr ?F)"
    using walkFiles_tree [OF assms(5), of "[]" es fuel "[]"] assms(5,6) put_all_distinct [of "[]" ?F] by (simp add: joinSegs_def)
  ultimately have "handleModMap fuel H \<lparr>q_method = ''GET'', q_path = modmapPrefix @ esc, q_query = [], q_accept = ''lz4''\<rparr> \<lparr>h_backend = b, h_modmapLZ = c\<rparr> =
      Some (Ok (modmap_resp z), \<lparr>h_backend = b1, h_modmapLZ = lz_Set H c1 mv z\<rparr>)"
    using assms(3,4,7) js(1,2) by (simp add: handleModMap_def acceptsLZ4_lz4)
  moreover have "decode_modmap R mv (modmap_resp z) =
      map_option (\<lambda>dirs. Inr \<lparr>rmh_mv = mv, rmh_files = ?F, rmh_dirs = dirs\<rparr>) (buildDirMap (rs_range R) ?F)"
    using js(3,4) by (simp add: decode_modmap_def modmap_resp_def)
  ultimately show ?thesis by blast
qed

lemma map_of_tree_files:
  assumes "ftree_ok (FDir es)" "lookup_ftree (FDir es) p = Some (FFile fm)"
  shows "map_of (flat (tree_files [] (FDir es))) (joinSegs p) = Some fm"
proof -
  have ok: "files_ok (tree_files [] (FDir es))" by (rule tree_files_ok [OF assms(1)])
  have "(p, fm) \<in> set (tree_files [] (FDir es))" using tree_files_lookup [OF assms(1), of "[]" p fm] assms(2) by simp
  then have "map_of (tree_files [] (FDir es)) p = Some fm" using ok by (simp add: files_ok_def)
  then show ?thesis using map_of_flat [OF ok lookup_clean [OF assms]] by simp
qed

text \<open>
  C22. A remote store is transparent: when the client's requests reach the handler of a server whose
  backend has a module with some tree of files, \<^verbatim>\<open>GetZipRoot\<close> succeeds; every directory of the tree lists
  remotely its files with their sizes and modes and its directories that have files, and every file
  is fetched with the contents the backend has.
\<close>
theorem remote_store_transparent:
  assumes "same_coding H R (flat (tree_files [] (FDir root)))" "http_Do R = wire fuel H (BaseURL R)"
    and "mvToEscapedPath (h_xmod H) mv = Inr esc" "url_plain esc"
    and "be_root H b mv = (Ok mh, b1)" "be_root H b1 mv = (Ok mh, b1)" "be_readdir H b1 mh = rd_ftree (FDir root)"
    and "ftree_ok (FDir root)" "fdepth (FDir root) \<le> fuel" "lz_Get H c mv = (None, c1)"
    and "rs_net s = \<lparr>h_backend = b, h_modmapLZ = c\<rparr>" "map_of (rs_modmaps s) mv = None"
  shows "\<exists>rmh s1. rs_GetZipRoot R mv s = Some (Inr rmh, s1) \<and>
    (\<forall>D es. lookup_ftree (FDir root) D = Some (FDir es) \<longrightarrow>
       (if remote_ents es = {} \<and> D \<noteq> [] then rs_Readdir rmh (joinSegs D) = Inl ErrNotExist
        else \<exists>ents. rs_Readdir rmh (joinSegs D) = Inr ents \<and> set ents = remote_ents es \<and> distinct (map d_name ents))) \<and>
    (\<forall>p fm d. lookup_ftree (FDir root) p = Some (FFile fm) \<longrightarrow> be_getfile H b1 mh (joinSegs p) = Inr d \<longrightarrow>
       fst (rs_GetFile R rmh (joinSegs p) s1) = Inr d)"
proof -
  let ?F = "flat (tree_files [] (FDir root))"
  have ok: "files_ok (tree_files [] (FDir root))" by (rule tree_files_ok [OF assms(8)])
  have rng: "mset (rs_range R ?F) = mset ?F" and X: "xmod_ok (h_xmod H)" "rs_xmod R = h_xmod H"
    using assms(1) by (auto simp: same_coding_def)
  obtain z where z: "handleModMap fuel H \<lparr>q_method = ''GET'', q_path = modmapPrefix @ esc, q_query = [], q_accept = ''lz4''\<rparr> \<lparr>h_backend = b, h_modmapLZ = c\<rparr> =
      Some (Ok (modmap_resp z), \<lparr>h_backend = b1, h_modmapLZ = lz_Set H c1 mv z\<rparr>)"
    "decode_modmap R mv (modmap_resp z) = map_option (\<lambda>dirs. Inr \<lparr>rmh_mv = mv, rmh_files = ?F, rmh_dirs = dirs\<rparr>) (buildDirMap (rs_range R) ?F)"
    using handleModMap_tree [OF assms(1,3,5,7,8,9,10)] by blast
  obtain dirs where d: "buildDirMap (rs_range R) ?F = Some dirs" and
    V: "\<And>D. list_all clean_name D \<Longrightarrow>
        (if dir_files (tree_files [] (FDir root)) D = {} \<and> D \<noteq> [] then rs_Readdir \<lparr>rmh_mv = mv, rmh_files = ?F, rmh_dirs = dirs\<rparr> (joinSegs D) = Inl ErrNotExist
         else \<exists>es. rs_Readdir \<lparr>rmh_mv = mv, rmh_files = ?F, rmh_dirs = dirs\<rparr> (joinSegs D) = Inr es \<and> set es = dir_files (tree_files [] (FDir root)) D \<and> distinct (map d_name es))"
    using remote_view [where rng = "rs_range R" and mv = mv, OF ok rng] unfolding Let_def by blast
  let ?r = "\<lparr>rmh_mv = mv, rmh_files = ?F, rmh_dirs = dirs\<rparr>"
  let ?n1 = "\<lparr>h_backend = b1, h_modmapLZ = lz_Set H c1 mv z\<rparr>"
  let ?s1 = "s\<lparr>rs_net := ?n1, rs_modmaps := AList.update mv ?r (rs_modmaps s)\<rparr>"
  have "wire fuel H (BaseURL R) (rs_net s) (BaseURL R @ modmapPrefix @ esc) ''lz4'' = (Inr (modmap_resp z), ?n1)"
    using wire_plain(1) [of "modmapPrefix @ esc" fuel H "BaseURL R" "rs_net s" "''lz4''"] assms(4,11) z(1) by (simp add: Handler_routes)
  then have "rs_GetZipRoot R mv s = Some (Inr ?r, ?s1)"
    using assms(2,3,12) X(2) z(2) d by (simp add: rs_GetZipRoot_def fetchModMap_def)
  moreover have "if remote_ents es = {} \<and> D \<noteq> [] then rs_Readdir ?r (joinSegs D) = Inl ErrNotExist
        else \<exists>ents. rs_Readdir ?r (joinSegs D) = Inr ents \<and> set ents = remote_ents es \<and> distinct (map d_name ents)"
    if "lookup_ftree (FDir root) D = Some (FDir es)" for D es
    using V [OF lookup_clean [OF assms(8) that]] unfolding dir_files_tree [OF assms(8) that] .
  moreover have "fst (rs_GetFile R ?r (joinSegs p) ?s1) = Inr dat"
    if p: "lookup_ftree (FDir root) p = Some (FFile fm)" and dat: "be_getfile H b1 mh (joinSegs p) = Inr dat" for p fm dat
  proof -
    have ne: "joinSegs p \<noteq> []" using joinSegs_Nil_iff [OF lookup_clean [OF assms(8) p]] p by auto
    have mvp: "parseMVFromPath (h_xmod H) (filePrefix @ esc) filePrefix = Inr (mv, [])"
      by (rule mv_url_roundtrip(1) [OF X(1) assms(3)]) (simp_all add: filePrefix_def metaPrefix_def apiPrefix_def)
    have "handleFile H \<lparr>q_method = ''GET'', q_path = filePrefix @ esc, q_query = [(''path'', joinSegs p)], q_accept = []\<rparr> ?n1 = (Ok (octet_resp dat), ?n1)"
      using mvp ne assms(6) dat by (simp add: handleFile_def query_Get_def from_opt_def)
    then have "wire fuel H (BaseURL R) ?n1 (BaseURL R @ filePrefix @ esc @ ''?path='' @ url_QueryEscape (joinSegs p)) [] = (Inr (octet_resp dat), ?n1)"
      using wire_plain(2) [of "filePrefix @ esc" fuel H "BaseURL R" ?n1 "joinSegs p" "[]"] assms(4) by (simp add: Handler_routes)
    then show ?thesis using assms(2,3) X(2) map_of_tree_files [OF assms(8) p]
      by (simp add: rs_GetFile_def octet_resp_def)
  qed
  ultimately show ?thesis by blast
qed

text \<open>A server with one module of two files, whose coding is the identity on one map.\<close>

definition toy_root :: "(string \<times> ftree) list" where
  "toy_root = [(''go.mod'', FFile \<lparr>fm_size = 1, fm_mode = \<lparr>is_dir = False, perm = 420\<rparr>\<rparr>),
     (''a'', FDir [(''b.go'', FFile \<lparr>fm_size = 2, fm_mode = \<lparr>is_dir = False, perm = 420\<rparr>\<rparr>)])]"

definition toy_mv :: mod_version where
  "toy_mv = \<lparr>Module = ''go4.org/mem'', Version = ''v1.2.3''\<rparr>"

definition toy_server :: "(unit, unit, unit) hdl_env" where
  "toy_server = \<lparr>
     be_root = (\<lambda>b mv. (if mv = toy_mv then Ok () else Fail ErrCacheMiss, b)),
     be_meta = (\<lambda>b mv ext. (if mv = toy_mv then Ok [1] else Fail ErrCacheMiss, b)),
     be_readdir = (\<lambda>b h. rd_ftree (FDir toy_root)),
     be_getfile = (\<lambda>b h p. if p = ''a/b.go'' then Inr [7, 8] else if p = ''go.mod'' then Inr [9] else Inl ErrNotExist),
     h_xmod = mem_xmod,
     json_Marshal = (\<lambda>m. Inr [5]), lz4_compress = Inr, err_text = (\<lambda>e. ''error''),
     lz_Get = (\<lambda>c mv. (None, c)), lz_Set = (\<lambda>c mv z. c)\<rparr>"

definition toy_client :: "(unit, unit) hdl_state rs_env" where
  "toy_client = \<lparr>rs_xmod = mem_xmod, BaseURL = ''http://server'', http_Do = wire 3 toy_server ''http://server'',
     lz4_decompress = Inr, json_Unmarshal = (\<lambda>b. Inr (flat (tree_files [] (FDir toy_root)))), rs_range = rev\<rparr>"

definition toy_store :: "(unit, unit) hdl_state rs_store" where
  "toy_store = \<lparr>rs_modmaps = [], rs_meta = [], rs_net = \<lparr>h_backend = (), h_modmapLZ = ()\<rparr>\<rparr>"

theorem remote_store_transparent_witness:
  "\<exists>rmh s1. rs_GetZipRoot toy_client toy_mv toy_store = Some (Inr rmh, s1) \<and>
     fst (rs_GetFile toy_client rmh ''a/b.go'' s1) = Inr [7, 8]"
proof -
  have ok: "ftree_ok (FDir toy_root)" by code_simp
  have dep: "fdepth (FDir toy_root) \<le> 3" by code_simp
  have cod: "same_coding toy_server toy_client (flat (tree_files [] (FDir toy_root)))"
    using mem_xmod_ok by (simp add: same_coding_def toy_server_def toy_client_def)
  have esc: "mvToEscapedPath (h_xmod toy_server) toy_mv = Inr ''go4.org/mem/@v/v1.2.3''"
    by (simp add: mvToEscapedPath_def toy_server_def mem_xmod_def toy_mv_def)
  have pl: "url_plain ''go4.org/mem/@v/v1.2.3''" by code_simp
  have dof: "http_Do toy_client = wire 3 toy_server (BaseURL toy_client)" by (simp add: toy_client_def)
  have lk: "lookup_ftree (FDir toy_root) [''a'', ''b.go''] = Some (FFile \<lparr>fm_size = 2, fm_mode = \<lparr>is_dir = False, perm = 420\<rparr>\<rparr>)"
    "joinSegs [''a'', ''b.go''] = ''a/b.go''" by code_simp+
  have "\<exists>rmh s1. rs_GetZipRoot toy_client toy_mv toy_store = Some (Inr rmh, s1) \<and>
    (\<forall>D es. lookup_ftree (FDir toy_root) D = Some (FDir es) \<longrightarrow>
       (if remote_ents es = {} \<and> D \<noteq> [] then rs_Readdir rmh (joinSegs D) = Inl ErrNotExist
        else \<exists>ents. rs_Readdir rmh (joinSegs D) = Inr ents \<and> set ents = remote_ents es \<and> distinct (map d_name ents))) \<and>
    (\<forall>p fm d. lookup_ftree (FDir toy_root) p = Some (FFile fm) \<longrightarrow> be_getfile toy_server () () (joinSegs p) = Inr d \<longrightarrow>
       fst (rs_GetFile toy_client rmh (joinSegs p) s1) = Inr d)"
    by (rule remote_store_transparent [OF cod dof esc pl _ _ _ ok dep]) (simp_all add: toy_server_def toy_store_def)
  then obtain rmh s1 where r: "rs_GetZipRoot toy_client toy_mv toy_store = Some (Inr rmh, s1)"
    and f: "\<And>p fm d. lookup_ftree (FDir toy_root) p = Some (FFile fm) \<Longrightarrow> be_getfile toy_server () () (joinSegs p) = Inr d \<Longrightarrow>
       fst (rs_GetFile toy_client rmh (joinSegs p) s1) = Inr d" by blast
  have "be_getfile toy_server () () (joinSegs [''a'', ''b.go'']) = Inr [7, 8]" by (simp add: lk(2) toy_server_def)
  from f [OF lk(1) this] r show ?thesis unfolding lk(2) by blast
qed

section \<open>Errors over the wire\<close>

lemma errors_Is_simps [simp]: "errors_Is ErrCacheMiss ErrCacheMiss" "errors_Is ErrNotExist ErrNotExist"
  "\<not> errors_Is (ErrMsg m) ErrCacheMiss" "\<not> errors_Is (ErrMsg m) ErrNotExist"
  by simp_all

text \<open>Making a modmap fails with \<open>e\<close>: in the walk over the files, in its encoding, or in its compression.\<close>

definition modmap_fails :: "nat \<Rightarrow> ('b, 'h, 'c) hdl_env \<Rightarrow> (string \<Rightarrow> err + dirent list) \<Rightarrow> err \<Rightarrow> bool" where
  "modmap_fails fuel H rd e =
     (case walkFiles fuel rd [] [] of
        None \<Rightarrow> False
      | Some (Inl e') \<Rightarrow> e' = e
      | Some (Inr m) \<Rightarrow> (case json_Marshal H m of Inl e' \<Rightarrow> e' = e | Inr j \<Rightarrow> lz4_compress H j = Inl e))"

text \<open>A client \<open>R\<close> with state \<open>s\<close> that talks to the server \<open>H\<close>, and the URL of a module version.\<close>

definition linked :: "nat \<Rightarrow> ('b, 'h, 'c) hdl_env \<Rightarrow> ('b, 'c) hdl_state rs_env \<Rightarrow> mod_version \<Rightarrow> string \<Rightarrow> bool" where
  "linked fuel H R mv esc \<longleftrightarrow> xmod_ok (h_xmod H) \<and> rs_xmod R = h_xmod H \<and> http_Do R = wire fuel H (BaseURL R) \<and>
     mvToEscapedPath (h_xmod H) mv = Inr esc \<and> url_plain esc"

lemma linked_wire:
  assumes "linked fuel H R mv esc"
  shows "http_Do R n (BaseURL R @ modmapPrefix @ esc) ''lz4'' =
      (case handleModMap fuel H \<lparr>q_method = ''GET'', q_path = modmapPrefix @ esc, q_query = [], q_accept = ''lz4''\<rparr> n of
         Some (Ok r, n1) \<Rightarrow> (Inr r, n1) | Some (_, n1) \<Rightarrow> (Inl (ErrMsg ''EOF''), n1) | None \<Rightarrow> (Inl (ErrMsg ''timeout''), n))"
    "parseMVFromPath (h_xmod H) (modmapPrefix @ esc) modmapPrefix = Inr (mv, [])"
    "http_Do R n (BaseURL R @ filePrefix @ esc @ ''?path='' @ url_QueryEscape p) [] =
      (case handleFile H \<lparr>q_method = ''GET'', q_path = filePrefix @ esc, q_query = [(''path'', p)], q_accept = []\<rparr> n of
         (Ok r, n1) \<Rightarrow> (Inr r, n1) | (_, n1) \<Rightarrow> (Inl (ErrMsg ''EOF''), n1))"
    "parseMVFromPath (h_xmod H) (filePrefix @ esc) filePrefix = Inr (mv, [])"
    "ext \<in> {''info'', ''mod'', ''ziphash''} \<Longrightarrow> http_Do R n (BaseURL R @ metaPrefix @ esc @ ''.'' @ ext) [] =
      (case handleMeta H \<lparr>q_method = ''GET'', q_path = metaPrefix @ esc @ ''.'' @ ext, q_query = [], q_accept = []\<rparr> n of
         (Ok r, n1) \<Rightarrow> (Inr r, n1) | (_, n1) \<Rightarrow> (Inl (ErrMsg ''EOF''), n1))"
    "ext \<in> {''info'', ''mod'', ''ziphash''} \<Longrightarrow> parseMVFromPath (h_xmod H) (metaPrefix @ esc @ ''.'' @ ext) metaPrefix = Inr (mv, ext)"
proof -
  have x: "xmod_ok (h_xmod H)" "mvToEscapedPath (h_xmod H) mv = Inr esc" "url_plain esc" and d: "http_Do R = wire fuel H (BaseURL R)"
    using assms by (simp_all add: linked_def)
  show "parseMVFromPath (h_xmod H) (modmapPrefix @ esc) modmapPrefix = Inr (mv, [])" "parseMVFromPath (h_xmod H) (filePrefix @ esc) filePrefix = Inr (mv, [])"
    by (rule mv_url_roundtrip(1) [OF x(1,2)]; simp add: modmapPrefix_def filePrefix_def metaPrefix_def apiPrefix_def)+
  show "parseMVFromPath (h_xmod H) (metaPrefix @ esc @ ''.'' @ ext) metaPrefix = Inr (mv, ext)" if "ext \<in> {''info'', ''mod'', ''ziphash''}"
    by (rule mv_url_roundtrip(2) [OF x(1,2) that])
  have p: "url_plain (modmapPrefix @ esc)" "url_plain (filePrefix @ esc)" using x(3) prefixes_plain by (simp_all add: url_plain_def)
  show "http_Do R n (BaseURL R @ modmapPrefix @ esc) ''lz4'' =
      (case handleModMap fuel H \<lparr>q_method = ''GET'', q_path = modmapPrefix @ esc, q_query = [], q_accept = ''lz4''\<rparr> n of
         Some (Ok r, n1) \<Rightarrow> (Inr r, n1) | Some (_, n1) \<Rightarrow> (Inl (ErrMsg ''EOF''), n1) | None \<Rightarrow> (Inl (ErrMsg ''timeout''), n))"
    unfolding d wire_plain(1) [OF p(1)] by (simp add: Handler_routes)
  show "http_Do R n (BaseURL R @ filePrefix @ esc @ ''?path='' @ url_QueryEscape p) [] =
      (case handleFile H \<lparr>q_method = ''GET'', q_path = filePrefix @ esc, q_query = [(''path'', p)], q_accept = []\<rparr> n of
         (Ok r, n1) \<Rightarrow> (Inr r, n1) | (_, n1) \<Rightarrow> (Inl (ErrMsg ''EOF''), n1))"
    using wire_plain(2) [OF p(2), of fuel H "BaseURL R" n p "[]"] d by (simp add: Handler_routes)
  show "http_Do R n (BaseURL R @ metaPrefix @ esc @ ''.'' @ ext) [] =
      (case handleMeta H \<lparr>q_method = ''GET'', q_path = metaPrefix @ esc @ ''.'' @ ext, q_query = [], q_accept = []\<rparr> n of
         (Ok r, n1) \<Rightarrow> (Inr r, n1) | (_, n1) \<Rightarrow> (Inl (ErrMsg ''EOF''), n1))" if "ext \<in> {''info'', ''mod'', ''ziphash''}"
  proof -
    have "url_plain (metaPrefix @ esc @ ''.'' @ ext)" using x(3) that prefixes_plain(3) by (auto simp: url_plain_def)
    then show ?thesis unfolding d by (simp only: wire_plain(1)) (simp add: Handler_routes)
  qed
qed

lemma root_error_parts:
  assumes "linked fuel H R mv esc" "rs_net s = \<lparr>h_backend = b, h_modmapLZ = c\<rparr>" "map_of (rs_modmaps s) mv = None" "lz_Get H c mv = (None, c1)"
  shows "be_root H b mv = (Fail e, b1) \<Longrightarrow> rs_GetZipRoot R mv s =
      Some (Inl (if errors_Is e ErrCacheMiss then ErrCacheMiss else ErrMsg ''remotestore: modmap''), s\<lparr>rs_net := \<lparr>h_backend = b1, h_modmapLZ = c1\<rparr>\<rparr>)"
    and "be_root H b mv = (Ok mh, b1) \<Longrightarrow> modmap_fails fuel H (be_readdir H b1 mh) e \<Longrightarrow> rs_GetZipRoot R mv s =
      Some (Inl (ErrMsg ''remotestore: modmap''), s\<lparr>rs_net := \<lparr>h_backend = b1, h_modmapLZ = c1\<rparr>\<rparr>)"
proof -
  have m: "mvToEscapedPath (rs_xmod R) mv = Inr esc" using assms(1) by (simp add: linked_def)
  note w = linked_wire(1,2) [OF assms(1)]
  show "rs_GetZipRoot R mv s =
      Some (Inl (if errors_Is e ErrCacheMiss then ErrCacheMiss else ErrMsg ''remotestore: modmap''), s\<lparr>rs_net := \<lparr>h_backend = b1, h_modmapLZ = c1\<rparr>\<rparr>)"
    if "be_root H b mv = (Fail e, b1)"
    using that m w assms(2-4) by (simp add: rs_GetZipRoot_def fetchModMap_def handleModMap_def acceptsLZ4_lz4 decode_modmap_def root_error_def http_Error_def)
  show "rs_GetZipRoot R mv s = Some (Inl (ErrMsg ''remotestore: modmap''), s\<lparr>rs_net := \<lparr>h_backend = b1, h_modmapLZ = c1\<rparr>\<rparr>)"
    if q: "be_root H b mv = (Ok mh, b1)" "modmap_fails fuel H (be_readdir H b1 mh) e"
  proof -
    have "handleModMap fuel H \<lparr>q_method = ''GET'', q_path = modmapPrefix @ esc, q_query = [], q_accept = ''lz4''\<rparr> (rs_net s) =
        Some (Ok (http_Error (err_text H e) 500), \<lparr>h_backend = b1, h_modmapLZ = c1\<rparr>)"
      using q w(2) assms(2,4) by (auto simp: handleModMap_def acceptsLZ4_lz4 modmap_fails_def split: option.splits sum.splits)
    then show ?thesis using m w(1) assms(3) by (simp add: rs_GetZipRoot_def fetchModMap_def decode_modmap_def http_Error_def)
  qed
qed

lemma meta_error_part:
  assumes "linked fuel H R mv esc" "rs_net s = \<lparr>h_backend = b, h_modmapLZ = c\<rparr>" "map_of (rs_meta s) (mv, ext) = None"
    "ext \<in> {''info'', ''mod'', ''ziphash''}" "be_meta H b mv ext = (Fail e, b1)"
  shows "rs_getMetaFile R mv ext s =
      (Inl (if errors_Is e ErrCacheMiss then ErrCacheMiss else ErrMsg ''remotestore: get meta file''), s\<lparr>rs_net := \<lparr>h_backend = b1, h_modmapLZ = c\<rparr>\<rparr>)"
proof -
  have m: "mvToEscapedPath (rs_xmod R) mv = Inr esc" using assms(1) by (simp add: linked_def)
  show ?thesis using m linked_wire(5,6) [OF assms(1,4)] assms(2,3,5)
    by (simp add: rs_getMetaFile_def fetchMetaFile_def handleMeta_def root_error_def http_Error_def)
qed

lemma file_error_parts:
  assumes "linked fuel H R mv esc" "rs_net s = \<lparr>h_backend = b, h_modmapLZ = c\<rparr>" "map_of (rmh_files rmh) p = Some fm" "p \<noteq> []" "rmh_mv rmh = mv"
  shows "be_root H b mv = (Fail e, b1) \<Longrightarrow> rs_GetFile R rmh p s =
      (Inl (if errors_Is e ErrCacheMiss then ErrNotExist else ErrMsg ''remotestore: get file''), s\<lparr>rs_net := \<lparr>h_backend = b1, h_modmapLZ = c\<rparr>\<rparr>)"
    and "be_root H b mv = (Ok mh, b1) \<Longrightarrow> be_getfile H b1 mh p = Inl e \<Longrightarrow> rs_GetFile R rmh p s =
      (Inl (if errors_Is e ErrNotExist then ErrNotExist else ErrMsg ''remotestore: get file''), s\<lparr>rs_net := \<lparr>h_backend = b1, h_modmapLZ = c\<rparr>\<rparr>)"
proof -
  have m: "mvToEscapedPath (rs_xmod R) mv = Inr esc" using assms(1) by (simp add: linked_def)
  note w = linked_wire(3,4) [OF assms(1)]
  show "rs_GetFile R rmh p s =
      (Inl (if errors_Is e ErrCacheMiss then ErrNotExist else ErrMsg ''remotestore: get file''), s\<lparr>rs_net := \<lparr>h_backend = b1, h_modmapLZ = c\<rparr>\<rparr>)"
    if "be_root H b mv = (Fail e, b1)"
    using that m w assms(2-5) by (simp add: rs_GetFile_def handleFile_def query_Get_def from_opt_def root_error_def http_Error_def)
  show "rs_GetFile R rmh p s =
      (Inl (if errors_Is e ErrNotExist then ErrNotExist else ErrMsg ''remotestore: get file''), s\<lparr>rs_net := \<lparr>h_backend = b1, h_modmapLZ = c\<rparr>\<rparr>)"
    if "be_root H b mv = (Ok mh, b1)" "be_getfile H b1 mh p = Inl e"
    using that m w assms(2-5) by (simp add: rs_GetFile_def handleFile_def query_Get_def from_opt_def http_Error_def)
qed


text \<open>A server that has lost every module, and a client of it.\<close>

definition lost_server :: "(unit, unit, unit) hdl_env" where
  "lost_server = toy_server\<lparr>be_root := \<lambda>b mv. (Fail ErrCacheMiss, b)\<rparr>"

definition lost_client :: "(unit, unit) hdl_state rs_env" where
  "lost_client = toy_client\<lparr>http_Do := wire 3 lost_server (BaseURL toy_client)\<rparr>"


end
