(* ===== verification/Nfs_Handles.thy ===== *)
theory Nfs_Handles
  imports Module_FS
begin

text \<open>
  NFS file handles, \<^verbatim>\<open>nfs.go\<close>: a handle is 64 bytes, the hash of the module version and the hash of
  the path in it (or a marker, or the hash of a path from the root), so that it can be mapped back to
  a path after a restart from what the store has cached.  \<^term>\<open>None\<close> is a panic or a loop that does
  not end (or, for the walk of a module's files, too little fuel).
\<close>

section \<open>Handles\<close>

definition zeroHandle :: bytes where
  "zeroHandle = replicate 64 0"

definition statusHandle :: bytes where
  "statusHandle = to_bytes ''STATUS'' @ replicate 58 0"

definition notExistHandle :: bytes where
  "notExistHandle = [0, 0xFF, 0] @ to_bytes ''Nope''"

definition notExistSeg :: "string list" where
  "notExistSeg = [''.not-exist-path'']"

definition mkWellKnownPathHash :: "string \<Rightarrow> bytes" where
  "mkWellKnownPathHash s = take 32 (to_bytes s @ replicate 32 0)"

definition cdFileInfo :: bytes where "cdFileInfo = mkWellKnownPathHash ''info''"
definition cdFileMod :: bytes where "cdFileMod = mkWellKnownPathHash ''mod''"
definition cdFileZiphash :: bytes where "cdFileZiphash = mkWellKnownPathHash ''ziphash''"
definition pathHashTSGo :: bytes where "pathHashTSGo = mkWellKnownPathHash wkTSGoExtracted"

text \<open>The handle \<^verbatim>\<open>ToHandle\<close> computes, and \<^verbatim>\<open>ToHandle\<close> with its table of handles seen.\<close>

definition handle_of :: "('st, 'h) fs_env \<Rightarrow> string \<Rightarrow> bytes" where
  "handle_of E pathStr =
     (let pp = parsePath (XM E) pathStr in
      (if Module (ModVersion pp) \<noteq> [] then hashModVersion E (ModVersion pp) else replicate 32 0) @
      (if WellKnown pp = wkTSGoExtracted then mkWellKnownPathHash (WellKnown pp)
       else if CacheDownloadFileExt pp \<noteq> [] then mkWellKnownPathHash (CacheDownloadFileExt pp)
       else if InZip pp then mkPathHash E (Path pp) else mkPathHash E pathStr))"

definition set_handle :: "bytes \<Rightarrow> handleTarget \<Rightarrow> ('st, 'h) fs \<Rightarrow> ('st, 'h) fs" where
  "set_handle h t s = s\<lparr>handle_map := Some (AList.update h t (case handle_map s of None \<Rightarrow> [] | Some m \<Rightarrow> m))\<rparr>"

definition get_handle :: "bytes \<Rightarrow> ('st, 'h) fs \<Rightarrow> handleTarget option" where
  "get_handle h s = (case handle_map s of None \<Rightarrow> None | Some m \<Rightarrow> map_of m h)"

definition ToHandle :: "('st, 'h) fs_env \<Rightarrow> string list \<Rightarrow> ('st, 'h) fs \<Rightarrow> bytes \<times> ('st, 'h) fs" where
  "ToHandle E path s =
     (if path = [] then (zeroHandle, s)
      else if length path = 1 \<and> path ! 0 = statusFile then (statusHandle, s)
      else
      let pathStr = joinSegs path in
      if NotExist (parsePath (XM E) pathStr) then (notExistHandle, s)
      else
      let ret = handle_of E pathStr in
      (ret, if get_handle ret s = None then set_handle ret \<lparr>t_path = pathStr, t_segs = path\<rparr> s else s))"

fun find_path :: "('st, 'h) fs_env \<Rightarrow> mod_version \<Rightarrow> bytes \<Rightarrow> walk_item list \<Rightarrow> handleTarget option" where
  "find_path E mv want [] = None"
| "find_path E mv want (Werr e # xs) = None"
| "find_path E mv want (Wpath path # xs) =
     (if mkPathHash E path = want
      then (case modVerZipPrefix (XM E) mv of
              None \<Rightarrow> None
            | Some pre \<Rightarrow> Some (mkTargetFromPath (emptyPathJoin pre path)))
      else find_path E mv want xs)"

text \<open>The part of \<^verbatim>\<open>fromHandle\<close> below the table of handles seen.\<close>

definition fromHandle_module ::
  "('st, 'h) fs_env \<Rightarrow> nat \<Rightarrow> mod_version \<Rightarrow> bytes \<Rightarrow> ('st, 'h) fs \<Rightarrow> (err + handleTarget) option" where
  "fromHandle_module E fuel mv want s =
     (if want = cdFileInfo then Some (Inr (mkTargetFromPath (cdPath (XM E) mv ''info'')))
      else if want = cdFileMod then Some (Inr (mkTargetFromPath (cdPath (XM E) mv ''mod'')))
      else if want = cdFileZiphash then Some (Inr (mkTargetFromPath (cdPath (XM E) mv ''ziphash'')))
      else if want = pathHashTSGo \<and> isTSGoModule mv \<noteq> None
      then Some (Inr (mkTargetFromPath (tsGoZipRoot (the (isTSGoModule mv)) @ ''.extracted'')))
      else
      case GetZipRoot (Store E) (st s) mv of
        Inl e \<Rightarrow> Some (Inl (ErrMsg ''unknown module version in handle''))
      | Inr mh \<Rightarrow>
          (case walkStoreModulePaths fuel (Readdir (Store E) (st s) mh) of
             None \<Rightarrow> None
           | Some items \<Rightarrow>
               (case find_path E mv want items of None \<Rightarrow> Some (Inl StaleErr) | Some t \<Rightarrow> Some (Inr t))))"

definition fromHandle_cold ::
  "('st, 'h) fs_env \<Rightarrow> nat \<Rightarrow> bytes \<Rightarrow> ('st, 'h) fs \<Rightarrow> ((err + handleTarget) \<times> ('st, 'h) fs) option" where
  "fromHandle_cold E fuel handle s =
     (let mvh = take 32 handle; want = drop 32 handle in
      if mvh = replicate 32 0 then handleTargetWithPathHash E want s
      else
      case moduleVersionWithHash E mvh s of
        None \<Rightarrow> None
      | Some (Inl e, s) \<Rightarrow> Some (Inl e, s)
      | Some (Inr mv, s) \<Rightarrow>
          (if \<not> mv_IsValid mv then Some (Inl StaleErr, s)
           else map_option (\<lambda>r. (r, s)) (fromHandle_module E fuel mv want s)))"

definition fromHandle ::
  "('st, 'h) fs_env \<Rightarrow> nat \<Rightarrow> bytes \<Rightarrow> ('st, 'h) fs \<Rightarrow> ((err + handleTarget) \<times> ('st, 'h) fs) option" where
  "fromHandle E fuel handle s =
     (if handle = zeroHandle then Some (Inr \<lparr>t_path = [], t_segs = []\<rparr>, s)
      else if handle = statusHandle then Some (Inr (mkTargetFromPath statusFile), s)
      else
      case get_handle handle s of
        Some targ \<Rightarrow> Some (Inr targ, s)
      | None \<Rightarrow>
          (case fromHandle_cold E fuel handle s of
             None \<Rightarrow> None
           | Some (Inl e, s) \<Rightarrow> Some (Inl e, s)
           | Some (Inr ret, s) \<Rightarrow>
               (if t_path ret = [] \<or> t_segs ret = [] then None
                else Some (Inr ret, set_handle handle ret s))))"

definition FromHandle ::
  "('st, 'h) fs_env \<Rightarrow> nat \<Rightarrow> bytes \<Rightarrow> ('st, 'h) fs \<Rightarrow> ((err + string list) \<times> ('st, 'h) fs) option" where
  "FromHandle E fuel handleb s =
     (if handleb = notExistHandle then Some (Inr notExistSeg, s)
      else if length handleb \<noteq> 64 then Some (Inl (ErrMsg ''invalid handle''), s)
      else map_option (\<lambda>(r, s). (map_sum id t_segs r, s)) (fromHandle E fuel handleb s))"

section \<open>The tables of path hashes\<close>

text \<open>The directories that the table may hold for a set of module versions: the fixed ones and those above the module's paths.\<close>

definition table_dirs :: "xmod \<Rightarrow> mod_version set \<Rightarrow> string set" where
  "table_dirs X M = set ([''cache'', ''cache/download'', statusFile] @ tsgo_dirs) \<union>
     (\<Union>mv \<in> M. {(path_Dir ^^ Suc k) p | k p. p = cdPath X mv ''foo'' \<or> modVerZipPrefix X mv = Some p})"

definition tbl_ok :: "('st, 'h) fs_env \<Rightarrow> mod_version set \<Rightarrow> ('st, 'h) fs \<Rightarrow> bool" where
  "tbl_ok E M s \<longleftrightarrow> (\<forall>m h t. pathHashTarget s = Some m \<longrightarrow> map_of m h = Some t \<longrightarrow>
     (\<exists>p. p \<noteq> [] \<and> p \<in> table_dirs (XM E) M \<and> t = mkTargetFromPath p \<and> mkPathHash E p = h))"

definition covers :: "('st, 'h) fs_env \<Rightarrow> ('st, 'h) fs \<Rightarrow> string \<Rightarrow> bool" where
  "covers E s p \<longleftrightarrow> (\<exists>m. pathHashTarget s = Some m \<and> map_of m (mkPathHash E p) \<noteq> None)"

definition mvh_ok :: "('st, 'h) fs_env \<Rightarrow> mod_version set \<Rightarrow> ('st, 'h) fs \<Rightarrow> bool" where
  "mvh_ok E M s \<longleftrightarrow> (\<forall>m h mv. modVerHash s = Some m \<longrightarrow> map_of m h = Some mv \<longrightarrow> mv \<in> M \<and> hashModVersion E mv = h)"

definition knows :: "('st, 'h) fs_env \<Rightarrow> ('st, 'h) fs \<Rightarrow> mod_version \<Rightarrow> bool" where
  "knows E s mv \<longleftrightarrow> (\<exists>m. modVerHash s = Some m \<and> map_of m (hashModVersion E mv) \<noteq> None)"

text \<open>One table step: it keeps the tables well formed and what they already resolve.\<close>

definition grows :: "('st, 'h) fs_env \<Rightarrow> mod_version set \<Rightarrow> ('st, 'h) fs \<Rightarrow> ('st, 'h) fs \<Rightarrow> bool" where
  "grows E M s s' \<longleftrightarrow> (tbl_ok E M s \<longrightarrow> tbl_ok E M s') \<and> (\<forall>p. covers E s p \<longrightarrow> covers E s' p) \<and>
     (mvh_ok E M s \<longrightarrow> mvh_ok E M s') \<and> (\<forall>mv. knows E s mv \<longrightarrow> knows E s' mv) \<and>
     (pathHashTarget s \<noteq> None \<longrightarrow> pathHashTarget s' \<noteq> None) \<and> (modVerHash s \<noteq> None \<longrightarrow> modVerHash s' \<noteq> None) \<and>
     tables_only s s'"

lemma grows_refl [simp]: "grows E M s s"
  by (simp add: grows_def)

lemma grows_trans [trans]: "grows E M a b \<Longrightarrow> grows E M b c \<Longrightarrow> grows E M a c"
  using tables_only_trans by (auto simp: grows_def)

lemma addPathHashTarget_grows:
  assumes "pathHashTarget s \<noteq> None" "p \<noteq> []" "p \<in> table_dirs (XM E) M"
  obtains s' where "addPathHashTargetLocked E p s = Some s'" "grows E M s s'" "covers E s' p"
proof -
  from assms(1) obtain m where m: "pathHashTarget s = Some m" by blast
  let ?s = "s\<lparr>pathHashTarget := Some (AList.update (mkPathHash E p) (mkTargetFromPath p) m)\<rparr>"
  have a: "addPathHashTargetLocked E p s = Some ?s" by (simp add: addPathHashTargetLocked_def m)
  have "grows E M s ?s"
    using m assms(2,3) addPathHashTarget_tables [OF a] by (auto simp: grows_def tbl_ok_def covers_def mvh_ok_def knows_def update_conv')
  moreover have "covers E ?s p" by (simp add: covers_def update_conv')
  ultimately show ?thesis using a that by blast
qed

lemma addParentPaths_total:
  assumes "pathHashTarget s \<noteq> None" "p = [] \<or> List.hd p \<noteq> slash" "\<And>k. (path_Dir ^^ Suc k) p \<in> table_dirs (XM E) M"
  shows "\<exists>s'. addParentPathsLocked E p s = Some s' \<and> grows E M s s'"
  using assms
proof (induction "length p" arbitrary: p s rule: less_induct)
  case less
  show ?case
  proof (cases "parents_stop (path_Dir p)")
    case True
    then show ?thesis by (subst addParentPathsLocked.simps) (simp add: Let_def)
  next
    case False
    then have "path_Dir p \<noteq> [dot]" by (auto simp: parents_stop_def)
    with path_Dir_shorter [OF less.prems(2)] have d: "length (path_Dir p) < length p" "List.hd (path_Dir p) \<noteq> slash" by auto
    obtain s1 where s1: "addPathHashTargetLocked E (path_Dir p) s = Some s1" "grows E M s s1"
      using addPathHashTarget_grows [OF less.prems(1) path_Dir_nonempty] less.prems(3) [of 0] by (metis funpow_0 funpow.simps(2) comp_apply)
    have "(path_Dir ^^ Suc k) (path_Dir p) \<in> table_dirs (XM E) M" for k using less.prems(3) [of "Suc k"] by (simp add: funpow_swap1)
    from less.hyps [OF d(1), of s1] this d(2) s1(2) less.prems(1) obtain s' where
      "addParentPathsLocked E (path_Dir p) s1 = Some s'" "grows E M s1 s'" by (auto simp: grows_def)
    moreover from this(1) False s1(1) have "addParentPathsLocked E p s = Some s'"
      by (subst addParentPathsLocked.simps) (simp add: Let_def)
    ultimately show ?thesis using s1(2) grows_trans by blast
  qed
qed

lemma addParentPaths_covers:
  assumes "list_all clean_name ss" "slash \<notin> set x" "pathHashTarget s \<noteq> None"
    "addParentPathsLocked E (join_on slash (ss @ [x])) s = Some s'" "0 < k" "k \<le> length ss"
    "\<And>k. (path_Dir ^^ Suc k) (join_on slash (ss @ [x])) \<in> table_dirs (XM E) M"
  shows "covers E s' (join_on slash (take k ss)) \<or>
    (\<exists>j. k \<le> j \<and> j \<le> length ss \<and> parents_stop (join_on slash (take j ss)))"
  using assms
proof (induction ss arbitrary: x s k rule: rev_induct)
  case (snoc y ss)
  have dir: "path_Dir (join_on slash ((ss @ [y]) @ [x])) = join_on slash (ss @ [y])"
    using snoc.prems by (intro path_Dir_join) auto
  show ?case
  proof (cases "parents_stop (join_on slash (ss @ [y]))")
    case True
    with snoc.prems show ?thesis by (intro disjI2 exI [of _ "length (ss @ [y])"]) simp
  next
    case False
    have ne: "join_on slash (ss @ [y]) \<noteq> []" using snoc.prems(1) by (intro join_on_hd) auto
    have td: "join_on slash (ss @ [y]) \<in> table_dirs (XM E) M" using snoc.prems(7) [of 0] dir by simp
    have tds: "(path_Dir ^^ Suc k) (join_on slash (ss @ [y])) \<in> table_dirs (XM E) M" for k
      using snoc.prems(7) [of "Suc k"] unfolding funpow_Suc_right [of "Suc k"] comp_apply dir .
    obtain s1 where s1: "addPathHashTargetLocked E (join_on slash (ss @ [y])) s = Some s1" "grows E M s s1"
      "covers E s1 (join_on slash (ss @ [y]))"
      using addPathHashTarget_grows [OF snoc.prems(3) ne td] by metis
    have rest: "addParentPathsLocked E (join_on slash (ss @ [y])) s1 = Some s'"
      using snoc.prems(4) False s1(1) dir by (subst (asm) addParentPathsLocked.simps) (simp add: Let_def)
    have p1: "pathHashTarget s1 \<noteq> None" using s1(2) snoc.prems(3) by (simp add: grows_def)
    have yc: "slash \<notin> set y" "list_all clean_name ss" using snoc.prems(1) by (simp_all add: clean_name_def [of y])
    show ?thesis
    proof (cases "k \<le> length ss")
      case True
      with snoc.IH [OF yc(2,1) p1 rest snoc.prems(5) _ tds] show ?thesis by (auto intro: le_SucI)
    next
      case False
      have "join_on slash (ss @ [y]) = [] \<or> List.hd (join_on slash (ss @ [y])) \<noteq> slash"
        using snoc.prems(1) join_on_hd by blast
      from addParentPaths_total [OF p1 this tds] rest have "grows E M s1 s'" by auto
      moreover have "take k (ss @ [y]) = ss @ [y]" using False snoc.prems(6) by simp
      ultimately show ?thesis using s1(3) by (simp add: grows_def)
    qed
  qed
qed simp

lemma stop_prefix:
  assumes "list_all clean_name ss" "0 < k" "k \<le> j" "j \<le> length ss" "parents_stop (join_on slash (take j ss))"
  shows "join_on slash (take k ss) \<in> {''cache'', ''cache/download''}"
proof -
  have c: "\<forall>s \<in> set (take j ss). clean_name s" using assms(1) by (auto simp: list_all_iff dest: in_set_takeD)
  then have "\<forall>s \<in> set (take j ss). slash \<notin> set s" by (simp add: clean_name_def)
  moreover have "take j ss \<noteq> []" using assms(2-4) by auto
  ultimately have sp: "split_on slash (join_on slash (take j ss)) = take j ss" by (intro split_join)
  from assms(5) consider "join_on slash (take j ss) = ''.''" | "join_on slash (take j ss) = ''cache''"
    | "join_on slash (take j ss) = ''cache/download''" by (auto simp: parents_stop_def)
  then have "take j ss = [''cache''] \<or> take j ss = [''cache'', ''download'']"
  proof cases
    case 1
    with sp have "take j ss = [''.'']" by simp
    with c show ?thesis by (simp add: clean_name_def)
  qed (use sp in auto)
  moreover have tk: "take k ss = take k (take j ss)" using assms(3) by (simp only: take_take min_absorb1)
  moreover obtain k' where "k = Suc k'" using assms(2) by (cases k) auto
  ultimately show ?thesis unfolding tk by (elim disjE; cases k') (simp_all only:, simp_all)
qed

section \<open>Filling the tables\<close>

lemma put_mvh_grows:
  assumes "modVerHash s \<noteq> None" "mv \<in> M"
  obtains s' where "put_mvh E mv s = Some s'" "grows E M s s'" "knows E s' mv" "pathHashTarget s' = pathHashTarget s"
proof -
  from assms(1) obtain m where m: "modVerHash s = Some m" by blast
  let ?s = "s\<lparr>modVerHash := Some (AList.update (hashModVersion E mv) mv m)\<rparr>"
  have a: "put_mvh E mv s = Some ?s" by (simp add: put_mvh_def m)
  have "grows E M s ?s"
    using m assms(2) put_mvh_tables [OF a] by (auto simp: grows_def tbl_ok_def covers_def mvh_ok_def knows_def update_conv')
  moreover have "knows E ?s mv" by (simp add: knows_def update_conv')
  ultimately show ?thesis using a that by simp
qed

lemma zip_prefix_relative:
  assumes "xmod_ok X" "modVerZipPrefix X mv = Some pre"
  shows "pre \<noteq> [] \<and> List.hd pre \<noteq> slash"
proof (cases "isTSGoModule mv")
  case (Some t)
  with assms show ?thesis by (auto simp: modVerZipPrefix_def tsGoZipRoot_def)
next
  case None
  with assms obtain em ev where "EscapePath X (Module mv) = Some em" "pre = em @ at_sign # ev"
    by (auto simp: modVerZipPrefix_def split: option.splits)
  with xmod_path [OF assms(1)] show ?thesis by (auto simp: hd_append)
qed

lemma module_table_dirs:
  assumes "mv \<in> M"
  shows "(path_Dir ^^ Suc k) (cdPath X mv ''foo'') \<in> table_dirs X M" "modVerZipPrefix X mv = Some pre \<Longrightarrow> (path_Dir ^^ Suc k) pre \<in> table_dirs X M"
  using assms unfolding table_dirs_def by blast+

lemma addModuleVersionPaths_grows:
  assumes X: "xmod_ok (XM E)" and s: "pathHashTarget s \<noteq> None" and M: "mv \<in> M"
  obtains s1 s' where "addModuleVersionPathsLocked E mv s = Some s'" "grows E M s s1" "grows E M s1 s'"
    "addParentPathsLocked E (cdPath (XM E) mv ''foo'') s = Some s1"
    "\<And>pre. modVerZipPrefix (XM E) mv = Some pre \<Longrightarrow> addParentPathsLocked E pre s1 = Some s'"
proof -
  have "cdPath (XM E) mv ''foo'' = [] \<or> List.hd (cdPath (XM E) mv ''foo'') \<noteq> slash" by (simp add: cdPath_def)
  from addParentPaths_total [OF s this module_table_dirs(1) [OF M]] obtain s1 where
    s1: "addParentPathsLocked E (cdPath (XM E) mv ''foo'') s = Some s1" "grows E M s s1" by blast
  show ?thesis
  proof (cases "modVerZipPrefix (XM E) mv")
    case None
    with s1 that [of s1 s1] show ?thesis by (simp add: addModuleVersionPathsLocked_def)
  next
    case (Some pre)
    have "pathHashTarget s1 \<noteq> None" using s1(2) s by (simp add: grows_def)
    moreover have "pre = [] \<or> List.hd pre \<noteq> slash" using zip_prefix_relative [OF X Some] by simp
    ultimately obtain s' where "addParentPathsLocked E pre s1 = Some s'" "grows E M s1 s'"
      using addParentPaths_total [OF _ _ module_table_dirs(2) [OF M Some]] by blast
    with s1 Some that [of s' s1] show ?thesis by (simp add: addModuleVersionPathsLocked_def)
  qed
qed

text \<open>The directories above a path.\<close>

definition dirs_above :: "string \<Rightarrow> string set" where
  "dirs_above p = {join_on slash (take k (butlast (split_on slash p))) | k. 0 < k \<and> k \<le> length (butlast (split_on slash p))}"

definition resolves :: "('st, 'h) fs_env \<Rightarrow> ('st, 'h) fs \<Rightarrow> string \<Rightarrow> bool" where
  "resolves E s q \<longleftrightarrow> covers E s q \<or> q = ''cache'' \<or> q = ''cache/download''"

lemma resolves_mono: "resolves E s q \<Longrightarrow> grows E M s s' \<Longrightarrow> resolves E s' q"
  by (auto simp: resolves_def grows_def)

lemma addParentPaths_above:
  assumes c: "list_all clean_name (butlast (split_on slash p))" and "pathHashTarget s \<noteq> None"
    "addParentPathsLocked E p s = Some s'" "q \<in> dirs_above p" "\<And>k. (path_Dir ^^ Suc k) p \<in> table_dirs (XM E) M"
  shows "resolves E s' q"
proof -
  let ?ss = "butlast (split_on slash p)" and ?x = "last (split_on slash p)"
  have a: "addParentPathsLocked E (join_on slash (?ss @ [?x])) s = Some s'" using assms(3) by simp
  have x: "slash \<notin> set ?x" by (rule split_on_segs [of _ _ p]) simp
  from assms(4) obtain k where k: "q = join_on slash (take k ?ss)" "0 < k" "k \<le> length ?ss" by (auto simp: dirs_above_def)
  have "(path_Dir ^^ Suc k) (join_on slash (?ss @ [?x])) \<in> table_dirs (XM E) M" for k using assms(5) by simp
  from addParentPaths_covers [OF c x assms(2) a k(2,3) this] stop_prefix [OF c k(2)]
  show ?thesis by (auto simp: resolves_def k(1))
qed

definition mod_known :: "('st, 'h) fs_env \<Rightarrow> mod_version \<Rightarrow> ('st, 'h) fs \<Rightarrow> bool" where
  "mod_known E mv s \<longleftrightarrow> knows E s mv \<and>
     (\<forall>em ev. EscapePath (XM E) (Module mv) = Some em \<and> EscapeVersion (XM E) (Version mv) = Some ev \<longrightarrow>
        (\<forall>q \<in> dirs_above (cdPath (XM E) mv ''foo''). resolves E s q) \<and>
        (isTSGoModule mv = None \<longrightarrow> (\<forall>q \<in> dirs_above (em @ at_sign # ev). resolves E s q)))"

lemma cdPath_segs_clean:
  assumes X: "xmod_ok X" and e: "EscapePath X (Module mv) = Some em" "EscapeVersion X (Version mv) = Some ev"
  shows "list_all clean_name (butlast (split_on slash (cdPath X mv ''foo'')))"
    and "list_all clean_name (butlast (split_on slash (em @ at_sign # ev)))"
proof -
  note xp = xmod_path [OF X e(1)] and xv = xmod_version [OF X e(2)]
  have cd: "cdPath X mv ''foo'' = ''cache'' @ slash # ''download'' @ slash # em @ slash # ''@v'' @ slash # ev @ ''.foo''"
    by (simp add: cdPath_def e from_opt_def)
  have sp: "split_on slash (cdPath X mv ''foo'') = [''cache'', ''download''] @ split_on slash em @ [''@v'', ev @ ''.foo'']"
    unfolding cd using xv by (simp add: split_on_append2 split_on_free)
  show "list_all clean_name (butlast (split_on slash (cdPath X mv ''foo'')))"
    unfolding sp using xp by (simp add: butlast_append) (simp add: clean_name_def)
  have "split_on slash (em @ at_sign # ev) = butlast (split_on slash em) @ [last (split_on slash em) @ at_sign # ev]"
    using xv by (intro split_on_extend) auto
  then show "list_all clean_name (butlast (split_on slash (em @ at_sign # ev)))"
    using xp by (auto simp: list_all_iff dest: in_set_butlastD)
qed

lemma add_module_known:
  assumes X: "xmod_ok (XM E)" and s: "pathHashTarget s \<noteq> None" "modVerHash s \<noteq> None" and "mv \<in> M"
  shows "\<exists>s'. Option.bind (put_mvh E mv s) (addModuleVersionPathsLocked E mv) = Some s' \<and> grows E M s s' \<and> mod_known E mv s'"
proof -
  obtain s1 where s1: "put_mvh E mv s = Some s1" "grows E M s s1" "knows E s1 mv" "pathHashTarget s1 = pathHashTarget s"
    using put_mvh_grows [OF s(2) assms(4)] by metis
  have p1: "pathHashTarget s1 \<noteq> None" using s1(4) s(1) by simp
  obtain s2 s3 where s3: "addModuleVersionPathsLocked E mv s1 = Some s3" "grows E M s1 s2" "grows E M s2 s3"
    "addParentPathsLocked E (cdPath (XM E) mv ''foo'') s1 = Some s2"
    "\<And>pre. modVerZipPrefix (XM E) mv = Some pre \<Longrightarrow> addParentPathsLocked E pre s2 = Some s3"
    using addModuleVersionPaths_grows [OF X p1 assms(4)] by metis
  have p2: "pathHashTarget s2 \<noteq> None" using s3(2) p1 by (simp add: grows_def)
  have "mod_known E mv s3"
    unfolding mod_known_def
  proof (intro conjI allI impI ballI)
    show "knows E s3 mv" using s1(3) s3(2,3) by (simp add: grows_def)
    fix em ev q
    assume e: "EscapePath (XM E) (Module mv) = Some em \<and> EscapeVersion (XM E) (Version mv) = Some ev"
    note cl = cdPath_segs_clean [OF X conjunct1 [OF e] conjunct2 [OF e]]
    show "resolves E s3 q" if "q \<in> dirs_above (cdPath (XM E) mv ''foo'')"
      using addParentPaths_above [OF cl(1) p1 s3(4) that module_table_dirs(1) [OF assms(4)]] resolves_mono s3(3) by blast
    assume q: "q \<in> dirs_above (em @ at_sign # ev)" and "isTSGoModule mv = None"
    then have z: "modVerZipPrefix (XM E) mv = Some (em @ at_sign # ev)" using e by (simp add: modVerZipPrefix_def)
    from addParentPaths_above [OF cl(2) p2 s3(5) [OF z] q module_table_dirs(2) [OF assms(4) z]] show "resolves E s3 q" .
  qed
  moreover have "grows E M s s3" using s1(2) s3(2,3) by (blast intro: grows_trans)
  ultimately show ?thesis using s1(1) s3(1) by simp
qed

lemma fold_opt_grows:
  assumes step: "\<And>x s. x \<in> set xs \<Longrightarrow> pathHashTarget s \<noteq> None \<Longrightarrow> modVerHash s \<noteq> None \<Longrightarrow>
      \<exists>s'. f x s = Some s' \<and> grows E M s s' \<and> P x s'"
    and mono: "\<And>x s s'. P x s \<Longrightarrow> grows E M s s' \<Longrightarrow> P x s'"
    and s: "pathHashTarget s \<noteq> None" "modVerHash s \<noteq> None"
  shows "\<exists>s'. fold_opt f xs s = Some s' \<and> grows E M s s' \<and> (\<forall>x \<in> set xs. P x s')"
  using step s
proof (induction xs arbitrary: s)
  case (Cons x xs)
  from Cons.prems(1) [of x s] Cons.prems(2,3) obtain s1 where s1: "f x s = Some s1" "grows E M s s1" "P x s1" by auto
  then have "pathHashTarget s1 \<noteq> None" "modVerHash s1 \<noteq> None" using Cons.prems(2,3) by (simp_all add: grows_def)
  moreover have "\<exists>s'. f y t = Some s' \<and> grows E M t s' \<and> P y s'"
    if "y \<in> set xs" "pathHashTarget t \<noteq> None" "modVerHash t \<noteq> None" for y t
    using Cons.prems(1) that by simp
  ultimately obtain s2 where s2: "fold_opt f xs s1 = Some s2" "grows E M s1 s2" "\<forall>y \<in> set xs. P y s2"
    using Cons.IH [of s1] by blast
  have "grows E M s s2" using s1(2) s2(2) by (rule grows_trans)
  moreover have "P x s2" using mono [OF s1(3) s2(2)] .
  ultimately show ?case using s1(1) s2(1,3) by simp
qed simp

lemma mod_known_mono: "mod_known E mv s \<Longrightarrow> grows E M s s' \<Longrightarrow> mod_known E mv s'"
proof -
  assume k: "mod_known E mv s" and g: "grows E M s s'"
  have r: "resolves E s q \<longrightarrow> resolves E s' q" for q using resolves_mono [OF _ g] by blast
  have "knows E s mv \<longrightarrow> knows E s' mv" using g by (simp add: grows_def)
  with k r show "mod_known E mv s'" unfolding mod_known_def by blast
qed

lemma initHandleMaps_ok:
  assumes X: "xmod_ok (XM E)" and s: "modVerHash s = None" and c: "CachedModules (Store E) (st s) = Inr mvs"
  shows "\<exists>s'. initHandleMapsLocked E s = Some (None, s') \<and> tbl_ok E (set mvs) s' \<and> mvh_ok E (set mvs) s' \<and> same_io s s' \<and>
    modVerHash s' \<noteq> None \<and>
    (\<forall>mv \<in> set mvs. mod_known E mv s') \<and> (\<forall>p \<in> set ([''cache'', ''cache/download'', statusFile] @ tsgo_dirs). covers E s' p)"
proof -
  let ?s0 = "s\<lparr>modVerHash := Some [], pathHashTarget := Some []\<rparr>" and ?M = "set mvs"
  let ?ps = "[''cache'', ''cache/download'', statusFile] @ tsgo_dirs"
  let ?f = "\<lambda>mv s. Option.bind (put_mvh E mv s) (addModuleVersionPathsLocked E mv)"
  have ok0: "tbl_ok E ?M ?s0" "mvh_ok E ?M ?s0" by (simp_all add: tbl_ok_def mvh_ok_def)
  have "\<exists>s1. fold_opt ?f mvs ?s0 = Some s1 \<and> grows E ?M ?s0 s1 \<and> (\<forall>mv \<in> set mvs. mod_known E mv s1)"
    by (rule fold_opt_grows) (use add_module_known [OF X] mod_known_mono in \<open>simp_all\<close>)
  then obtain s1 where s1: "fold_opt ?f mvs ?s0 = Some s1" "grows E ?M ?s0 s1" "\<forall>mv \<in> set mvs. mod_known E mv s1" by blast
  then have n1: "pathHashTarget s1 \<noteq> None" "modVerHash s1 \<noteq> None" by (simp_all add: grows_def)
  have ne: "p \<noteq> []" "p \<in> table_dirs (XM E) ?M" if "p \<in> set ?ps" for p using that by (auto simp: statusFile_def tsgo_dirs_def table_dirs_def)
  have "\<exists>s2. fold_opt (addPathHashTargetLocked E) ?ps s1 = Some s2 \<and> grows E ?M s1 s2 \<and> (\<forall>p \<in> set ?ps. covers E s2 p)"
  proof (rule fold_opt_grows)
    show "\<exists>s'. addPathHashTargetLocked E x s = Some s' \<and> grows E ?M s s' \<and> covers E s' x"
      if "x \<in> set ?ps" "pathHashTarget s \<noteq> None" for x s
      using addPathHashTarget_grows [OF that(2) ne(1) [OF that(1)] ne(2) [OF that(1)]] by metis
  qed (use n1 in \<open>auto simp: grows_def\<close>)
  then obtain s2 where s2: "fold_opt (addPathHashTargetLocked E) ?ps s1 = Some s2" "grows E ?M s1 s2"
    "\<forall>p \<in> set ?ps. covers E s2 p" by blast
  have "initHandleMapsLocked E s = Some (None, s2)" using s c s1(1) s2(1) by (simp add: initHandleMapsLocked_def)
  moreover have "same_io s s2"
    using s1(2) s2(2) by (simp add: grows_def tables_only_def same_io_def)
  moreover have "tbl_ok E ?M s2" "mvh_ok E ?M s2" "modVerHash s2 \<noteq> None"
    using s1(2) s2(2) ok0 n1(2) by (simp_all add: grows_def)
  moreover have "\<forall>mv \<in> set mvs. mod_known E mv s2" using s1(3) mod_known_mono [OF _ s2(2)] by blast
  ultimately show ?thesis using s2(3) by blast
qed

section \<open>Handles while the process runs\<close>

text \<open>
  The escaped form is unique: what \<^verbatim>\<open>UnescapePath\<close> and \<^verbatim>\<open>UnescapeVersion\<close> accept is the escaped form of what
  they return, a module path that is not empty.
\<close>

definition unescape_ok :: "xmod \<Rightarrow> bool" where
  "unescape_ok X \<longleftrightarrow> (\<forall>e m. UnescapePath X e = Some m \<longrightarrow> m \<noteq> [] \<and> EscapePath X m = Some e) \<and>
     (\<forall>e v. UnescapeVersion X e = Some v \<longrightarrow> EscapeVersion X v = Some e)"

text \<open>The name that a parsed path came from.\<close>

definition rebuild :: "xmod \<Rightarrow> gmPath \<Rightarrow> string \<Rightarrow> string" where
  "rebuild X pp n =
     (if CacheDownloadFileExt pp \<noteq> [] then cdPath X (ModVersion pp) (CacheDownloadFileExt pp)
      else if InZip pp
      then emptyPathJoin (from_opt (EscapePath X (Module (ModVersion pp))) @ ''@'' @ from_opt (EscapeVersion X (Version (ModVersion pp)))) (Path pp)
      else n)"

definition plain_segs :: "string list \<Rightarrow> bool" where
  "plain_segs path \<longleftrightarrow> list_all clean_name path \<and> \<not> prefix ''tsgo-'' (joinSegs path)"

lemma plain_not_slash: "list_all clean_name path \<Longrightarrow> joinSegs path \<noteq> a @ [slash]"
proof
  assume c: "list_all clean_name path" "joinSegs path = a @ [slash]"
  then have "path \<noteq> []" by (auto simp: joinSegs_def)
  moreover have "split_on slash (joinSegs path) = split_on slash a @ [[]]"
    unfolding c(2) using split_on_append2 [of slash a "[]"] by simp
  ultimately have "path = split_on slash a @ [[]]" using splitSegs_joinSegs [OF c(1)] c(2) by (simp add: splitSegs_def)
  then show False using c(1) by (simp add: clean_name_def)
qed

definition kind_ok :: "xmod \<Rightarrow> string \<Rightarrow> gmPath \<Rightarrow> bool" where
  "kind_ok X n p \<longleftrightarrow> WellKnown p = [] \<and> CacheDownloadFileExt p \<in> {[], ''mod'', ''ziphash'', ''info''} \<and>
     (Module (ModVersion p) = [] \<longleftrightarrow> CacheDownloadFileExt p = [] \<and> \<not> InZip p) \<and> rebuild X p n = n"

lemma parse_download_kind:
  assumes u: "unescape_ok X" and p: "fst (parse_download (\<lambda>em ev. (parseModVersion X em ev, ())) () d n) = p" "\<not> NotExist p"
  shows "kind_ok X (''cache/download/'' @ n) p"
proof -
  note s = parse_download_sound [OF p(1)]
  show ?thesis
  proof (cases "CacheDownloadFileExt p = []")
    case True
    then have "Module (ModVersion p) = []"
      using p by (auto simp: parse_download_def Let_def zero_path_def no_mv_def split: prod.splits if_splits)
    then show ?thesis using True s(2,3) by (simp add: kind_ok_def rebuild_def)
  next
    case False
    then obtain em ev where e: "UnescapePath X em = Some (Module (ModVersion p))" "UnescapeVersion X ev = Some (Version (ModVersion p))"
      "n = em @ ''/@v/'' @ ev @ ''.'' @ CacheDownloadFileExt p" using s(4) p(2) by blast
    then have "EscapePath X (Module (ModVersion p)) = Some em" "EscapeVersion X (Version (ModVersion p)) = Some ev" "Module (ModVersion p) \<noteq> []"
      using u by (auto simp: unescape_ok_def)
    then show ?thesis using False s(1,2,3) e(3) by (auto simp: kind_ok_def rebuild_def cdPath_def from_opt_def)
  qed
qed

lemma parse_zip_kind:
  assumes u: "unescape_ok X" and p: "fst (parse_zip (\<lambda>em ev. (parseModVersion X em ev, ())) () d n) = p" "\<not> NotExist p"
    and n: "\<And>a. n \<noteq> a @ [slash]"
  shows "kind_ok X n p"
proof -
  note s = parse_zip_sound [OF p(1)]
  show ?thesis
  proof (cases "InZip p")
    case False
    then have "Module (ModVersion p) = []"
      using p by (auto simp: parse_zip_def Let_def zero_path_def no_mv_def split: prod.splits if_splits)
    then show ?thesis using False s(1,2) by (simp add: kind_ok_def rebuild_def)
  next
    case True
    then obtain em ev where e: "UnescapePath X em = Some (Module (ModVersion p))" "UnescapeVersion X ev = Some (Version (ModVersion p))"
      and q: "n = em @ ''@'' @ ev \<and> Path p = [] \<or> (\<exists>q. n = em @ ''@'' @ ev @ ''/'' @ q \<and> Path p = trimSuffix q ''/'')" using s(4) by blast
    have x: "EscapePath X (Module (ModVersion p)) = Some em" "EscapeVersion X (Version (ModVersion p)) = Some ev" "Module (ModVersion p) \<noteq> []"
      using u e by (auto simp: unescape_ok_def)
    have "n = emptyPathJoin (em @ ''@'' @ ev) (Path p)"
      using q
    proof
      assume "\<exists>q. n = em @ ''@'' @ ev @ ''/'' @ q \<and> Path p = trimSuffix q ''/''"
      then obtain q where q: "n = em @ ''@'' @ ev @ ''/'' @ q" "Path p = trimSuffix q ''/''" by blast
      have "\<not> suffix ''/'' q" using n [of "em @ ''@'' @ ev @ ''/'' @ butlast q"] q(1) by (auto simp: suffix_def)
      moreover have "q \<noteq> []" using n [of "em @ ''@'' @ ev"] q(1) by auto
      ultimately show ?thesis using q by (simp add: trimSuffix_none emptyPathJoin_def)
    qed (simp add: emptyPathJoin_def)
    then show ?thesis using True s(1,2) x by (simp add: kind_ok_def rebuild_def from_opt_def)
  qed
qed

lemma name_kind:
  assumes "unescape_ok X" "plain_segs path" "joinSegs path \<noteq> statusFile" "\<not> NotExist (parsePath X (joinSegs path))"
  shows "kind_ok X (joinSegs path) (parsePath X (joinSegs path))"
proof (cases "\<exists>n. joinSegs path = ''cache/download/'' @ n")
  case True
  then obtain n where n: "joinSegs path = ''cache/download/'' @ n" by blast
  show ?thesis unfolding n
    by (rule parse_download_kind [OF assms(1) _ assms(4) [unfolded n], where d = "prefix ''.'' (path_Base (''cache/download/'' @ n))"])
      (use assms(2,3) n in \<open>auto simp: plain_segs_def parsePath_def parsePath_with_def cutPrefix_def statusFile_def\<close>)
next
  case False
  then have "\<not> prefix ''cache/download/'' (joinSegs path)" by (auto simp: prefix_def)
  then show ?thesis
    using assms plain_not_slash
    by (intro parse_zip_kind [OF assms(1) _ assms(4), where d = "joinSegs path \<noteq> [] \<and> prefix ''.'' (path_Base (joinSegs path))"])
      (auto simp: plain_segs_def parsePath_def parsePath_with_def cutPrefix_def)
qed

text \<open>
  No two of the inputs that the handles of a set of paths hash collide, and none of the hashes is one of the
  reserved values.
\<close>

definition hashed_names :: "xmod \<Rightarrow> string list set \<Rightarrow> string set" where
  "hashed_names X S = joinSegs ` S \<union> (\<lambda>p. Path (parsePath X (joinSegs p))) ` S"

definition hashed_mods :: "xmod \<Rightarrow> string list set \<Rightarrow> mod_version set" where
  "hashed_mods X S = {mv \<in> (\<lambda>p. ModVersion (parsePath X (joinSegs p))) ` S. Module mv \<noteq> []}"

definition no_collision :: "('st, 'h) fs_env \<Rightarrow> string list set \<Rightarrow> bool" where
  "no_collision E S \<longleftrightarrow> inj_on (mkPathHash E) (hashed_names (XM E) S) \<and> inj_on (hashModVersion E) (hashed_mods (XM E) S) \<and>
     (\<forall>n \<in> hashed_names (XM E) S. mkPathHash E n \<notin> {replicate 32 0, cdFileInfo, cdFileMod, cdFileZiphash}) \<and>
     (\<forall>mv \<in> hashed_mods (XM E) S. hashModVersion E mv \<notin> {replicate 32 0, take 32 statusHandle})"

lemma markers_distinct: "cdFileMod \<noteq> cdFileInfo" "cdFileZiphash \<noteq> cdFileInfo" "cdFileZiphash \<noteq> cdFileMod"
  "replicate 32 0 \<notin> {cdFileInfo, cdFileMod, cdFileZiphash}"
proof -
  have "List.hd cdFileInfo = 105" "List.hd cdFileMod = 109" "List.hd cdFileZiphash = 122"
    by (simp_all add: cdFileInfo_def cdFileMod_def cdFileZiphash_def mkWellKnownPathHash_def to_bytes_def)
  moreover have "List.hd (replicate 32 0 :: bytes) = 0" by simp
  moreover have "(105 :: u8) \<noteq> 109" "(122 :: u8) \<noteq> 105" "(122 :: u8) \<noteq> 109" "(0 :: u8) \<notin> {105, 109, 122}" by simp_all
  ultimately show "cdFileMod \<noteq> cdFileInfo" "cdFileZiphash \<noteq> cdFileInfo" "cdFileZiphash \<noteq> cdFileMod"
    "replicate 32 0 \<notin> {cdFileInfo, cdFileMod, cdFileZiphash}" by (metis insertE insertI1 insertI2 singletonD)+
qed

lemma handle_of_kind:
  assumes "kind_ok (XM E) n (parsePath (XM E) n)"
  shows "handle_of E n =
    (let p = parsePath (XM E) n in
     if Module (ModVersion p) = [] then replicate 32 0 @ mkPathHash E n
     else hashModVersion E (ModVersion p) @
       (if CacheDownloadFileExt p \<noteq> [] then mkWellKnownPathHash (CacheDownloadFileExt p) else mkPathHash E (Path p)))"
  using assms by (auto simp: handle_of_def kind_ok_def wkTSGoExtracted_def Let_def)

lemma handle_inj:
  assumes len: "\<And>b. length (sha E b) = 32" and nc: "no_collision E S" and S: "a \<in> S" "b \<in> S"
    and k: "kind_ok (XM E) (joinSegs a) (parsePath (XM E) (joinSegs a))" "kind_ok (XM E) (joinSegs b) (parsePath (XM E) (joinSegs b))"
    and h: "handle_of E (joinSegs a) = handle_of E (joinSegs b)"
  shows "joinSegs a = joinSegs b"
proof -
  let ?p = "parsePath (XM E) (joinSegs a)" and ?q = "parsePath (XM E) (joinSegs b)"
  let ?e = "CacheDownloadFileExt ?p" and ?f = "CacheDownloadFileExt ?q"
  have names: "x = y" if "mkPathHash E x = mkPathHash E y" "x \<in> {joinSegs a, joinSegs b, Path ?p, Path ?q}" "y \<in> {joinSegs a, joinSegs b, Path ?p, Path ?q}" for x y
    using nc that S unfolding no_collision_def hashed_names_def by (auto dest!: inj_onD)
  have mark: "mkPathHash E x \<noteq> mkWellKnownPathHash e" if "x \<in> {Path ?p, Path ?q}" "e \<in> {''mod'', ''ziphash'', ''info''}" for x e
    using nc that S unfolding no_collision_def hashed_names_def cdFileInfo_def cdFileMod_def cdFileZiphash_def by auto
  have ext: "e = f" if "mkWellKnownPathHash e = mkWellKnownPathHash f" "e \<in> {''mod'', ''ziphash'', ''info''}" "f \<in> {''mod'', ''ziphash'', ''info''}" for e f
    using that markers_distinct by (auto simp: cdFileInfo_def cdFileMod_def cdFileZiphash_def)
  have zero: "hashModVersion E (ModVersion r) \<noteq> replicate 32 0" if "Module (ModVersion r) \<noteq> []" "r \<in> {?p, ?q}" for r
    using nc that S unfolding no_collision_def hashed_mods_def by auto
  have mods: "ModVersion ?p = ModVersion ?q" if "hashModVersion E (ModVersion ?p) = hashModVersion E (ModVersion ?q)"
    "Module (ModVersion ?p) \<noteq> []" "Module (ModVersion ?q) \<noteq> []"
    using nc that S unfolding no_collision_def hashed_mods_def by (auto dest!: inj_onD)
  have l: "length (hashModVersion E mv) = 32" "length (mkPathHash E x) = 32" for mv x using len by (simp_all add: hashModVersion_def mkPathHash_def)
  note h' = h [unfolded handle_of_kind [OF k(1)] handle_of_kind [OF k(2)] Let_def]
  have m: "Module (ModVersion ?p) = [] \<longleftrightarrow> Module (ModVersion ?q) = []"
  proof -
    have "take 32 (handle_of E (joinSegs a)) = (if Module (ModVersion ?p) = [] then replicate 32 0 else hashModVersion E (ModVersion ?p))"
      "take 32 (handle_of E (joinSegs b)) = (if Module (ModVersion ?q) = [] then replicate 32 0 else hashModVersion E (ModVersion ?q))"
      unfolding handle_of_kind [OF k(1)] handle_of_kind [OF k(2)] Let_def by (simp_all add: l)
    then show ?thesis using h zero [of ?p] zero [of ?q] by (metis insertCI)
  qed
  show ?thesis
  proof (cases "Module (ModVersion ?p) = []")
    case True
    then have "mkPathHash E (joinSegs a) = mkPathHash E (joinSegs b)" using h' m by (simp only: if_True simp_thms append_eq_append_conv length_replicate)
    then show ?thesis by (rule names) simp_all
  next
    case False
    have h2: "hashModVersion E (ModVersion ?p) = hashModVersion E (ModVersion ?q) \<and>
      (if ?e \<noteq> [] then mkWellKnownPathHash ?e else mkPathHash E (Path ?p)) = (if ?f \<noteq> [] then mkWellKnownPathHash ?f else mkPathHash E (Path ?q))"
      using h' False m by (simp only: if_False simp_thms append_eq_append_conv l)
    then have mv: "ModVersion ?p = ModVersion ?q" using False m by (intro mods) simp_all
    note t = conjunct2 [OF h2]
    have s: "?e = [] \<or> ?e \<in> {''mod'', ''ziphash'', ''info''}" "?f = [] \<or> ?f \<in> {''mod'', ''ziphash'', ''info''}" using k by (auto simp: kind_ok_def)
    have "?e = ?f \<and> (?e = [] \<longrightarrow> Path ?p = Path ?q)"
    proof (cases "?e = []"; cases "?f = []")
      assume "?e = []" "?f \<noteq> []"
      then show ?thesis using t s(2) mark [of "Path ?p" ?f] by simp
    next
      assume "?e \<noteq> []" "?f = []"
      then show ?thesis using t s(1) mark [of "Path ?q" ?e] by simp
    next
      assume "?e = []" "?f = []"
      then have "mkPathHash E (Path ?p) = mkPathHash E (Path ?q)" using t by simp
      then have "Path ?p = Path ?q" by (rule names) simp_all
      with \<open>?e = []\<close> \<open>?f = []\<close> show ?thesis by simp
    next
      assume "?e \<noteq> []" "?f \<noteq> []"
      then show ?thesis using t s ext [of ?e ?f] by simp
    qed
    moreover have "CacheDownloadFileExt ?p = [] \<longrightarrow> InZip ?p" "CacheDownloadFileExt ?q = [] \<longrightarrow> InZip ?q"
      using k m False by (auto simp: kind_ok_def)
    ultimately have "rebuild (XM E) ?p (joinSegs a) = rebuild (XM E) ?q (joinSegs b)" using mv by (simp add: rebuild_def)
    then show ?thesis using k by (simp add: kind_ok_def)
  qed
qed

lemma ToHandle_fst: "fst (ToHandle E path s) = fst (ToHandle E path s')"
  by (simp add: ToHandle_def Let_def)

lemma get_set_handle [simp]: "get_handle h' (set_handle h t s) = (if h' = h then Some t else get_handle h' s)"
  by (simp add: get_handle_def set_handle_def update_conv' split: option.split)

lemma handle_length:
  assumes "\<And>b. length (sha E b) = 32"
  shows "length (handle_of E p) = 64"
proof -
  have "length (mkWellKnownPathHash w) = 32" for w by (simp add: mkWellKnownPathHash_def min_def)
  then show ?thesis using assms by (simp add: handle_of_def Let_def hashModVersion_def mkPathHash_def)
qed

lemma special_lengths: "length zeroHandle = 64" "length statusHandle = 64" "length notExistHandle = 7"
  by (simp_all add: zeroHandle_def statusHandle_def notExistHandle_def to_bytes_def)

lemma special_halves: "take 32 zeroHandle = replicate 32 0" "drop 32 zeroHandle = replicate 32 0" "take 32 statusHandle \<noteq> replicate 32 0"
proof -
  have "List.hd (take 32 statusHandle) = 83" by (simp add: statusHandle_def to_bytes_def)
  moreover have "List.hd (replicate 32 0 :: bytes) = 0" by simp
  moreover have "(83 :: u8) \<noteq> 0" by simp
  ultimately show "take 32 statusHandle \<noteq> replicate 32 0" by metis
qed (simp_all add: zeroHandle_def)

lemma status_not_zero: "statusHandle \<noteq> zeroHandle"
  using special_halves by auto

lemma status_segs: "splitSegs statusFile = [statusFile]" "joinSegs [statusFile] = statusFile"
  by (simp_all add: splitSegs_def joinSegs_def statusFile_def)

lemma not_exist_seg: "NotExist (parsePath X (joinSegs notExistSeg))"
  by (simp add: parsePath_def parsePath_with_def notExistSeg_def joinSegs_def statusFile_def path_Base_def rstrip_def
      after_last_def cutPrefix_def parse_zip_def cut_def)

text \<open>A path that gets a handle of its own: not the root, not the status file, not one that cannot exist.\<close>

definition proper_path :: "xmod \<Rightarrow> string list \<Rightarrow> bool" where
  "proper_path X path \<longleftrightarrow> path \<noteq> [] \<and> path \<noteq> [statusFile] \<and> \<not> NotExist (parsePath X (joinSegs path))"

lemma ToHandle_proper:
  "proper_path (XM E) path \<Longrightarrow> ToHandle E path s = (handle_of E (joinSegs path),
     if get_handle (handle_of E (joinSegs path)) s = None then set_handle (handle_of E (joinSegs path)) \<lparr>t_path = joinSegs path, t_segs = path\<rparr> s else s)"
  by (cases path) (auto simp: proper_path_def ToHandle_def Let_def)

lemma ToHandle_improper:
  "\<not> proper_path (XM E) path \<Longrightarrow> ToHandle E path s = (if path = [] then zeroHandle else if path = [statusFile] then statusHandle else notExistHandle, s)"
  by (cases path; cases "tl path") (auto simp: proper_path_def ToHandle_def Let_def)

lemma proper_handle:
  assumes u: "unescape_ok (XM E)" and len: "\<And>b. length (sha E b) = 32" and nc: "no_collision E S" and p: "path \<in> S" "plain_segs path" "proper_path (XM E) path"
  shows "kind_ok (XM E) (joinSegs path) (parsePath (XM E) (joinSegs path))" "length (handle_of E (joinSegs path)) = 64"
    "handle_of E (joinSegs path) \<notin> {zeroHandle, statusHandle, notExistHandle}"
proof -
  let ?n = "joinSegs path" and ?p = "parsePath (XM E) (joinSegs path)" and ?h = "handle_of E (joinSegs path)"
  have "?n \<noteq> statusFile" using splitSegs_joinSegs [of path] status_segs p(2,3) by (auto simp: plain_segs_def proper_path_def)
  then show k: "kind_ok (XM E) ?n ?p" using name_kind [OF u p(2)] p(3) by (simp add: proper_path_def)
  show l: "length ?h = 64" by (rule handle_length [OF len])
  have "mkPathHash E ?n \<noteq> replicate 32 0" using nc p(1) unfolding no_collision_def hashed_names_def by blast
  moreover have "hashModVersion E (ModVersion ?p) \<notin> {replicate 32 0, take 32 statusHandle}" if "Module (ModVersion ?p) \<noteq> []"
    using nc p(1) that unfolding no_collision_def hashed_mods_def by blast
  moreover have "length (hashModVersion E (ModVersion ?p)) = 32" using len by (simp add: hashModVersion_def)
  ultimately have "(take 32 ?h = replicate 32 0 \<and> drop 32 ?h \<noteq> replicate 32 0) \<or> take 32 ?h \<notin> {replicate 32 0, take 32 statusHandle}"
    unfolding handle_of_kind [OF k] Let_def by (cases "Module (ModVersion ?p) = []") simp_all
  then show "?h \<notin> {zeroHandle, statusHandle, notExistHandle}" using special_halves special_lengths l by auto
qed

lemma ToHandle_inj:
  assumes u: "unescape_ok (XM E)" and len: "\<And>b. length (sha E b) = 32" and nc: "no_collision E S" and pl: "\<forall>p \<in> S. plain_segs p"
    and S: "a \<in> S" "b \<in> S" and h: "fst (ToHandle E a s) = fst (ToHandle E b s)"
  shows "a = b \<or> NotExist (parsePath (XM E) (joinSegs a)) \<and> NotExist (parsePath (XM E) (joinSegs b))"
proof -
  note ph = proper_handle [OF u len nc]
  have d: "zeroHandle \<noteq> statusHandle" "zeroHandle \<noteq> notExistHandle" "statusHandle \<noteq> notExistHandle"
    using status_not_zero special_lengths by auto
  consider "proper_path (XM E) a" "proper_path (XM E) b" | "\<not> proper_path (XM E) a" "\<not> proper_path (XM E) b" | "proper_path (XM E) a \<noteq> proper_path (XM E) b" by blast
  then show ?thesis
  proof cases
    case 1
    then have "joinSegs a = joinSegs b" using h S pl by (intro handle_inj [OF len nc S] ph) (simp_all add: ToHandle_proper)
    then show ?thesis using splitSegs_joinSegs pl S by (metis plain_segs_def)
  next
    case 2
    then show ?thesis using h d d [symmetric] by (auto simp: ToHandle_improper proper_path_def split: if_splits)
  next
    case 3
    then show ?thesis using h ph(3) [OF S(1)] ph(3) [OF S(2)] pl S by (auto simp: ToHandle_proper ToHandle_improper split: if_splits)
  qed
qed

text \<open>The table of handles of a process that was asked about the paths of \<open>S\<close>.\<close>

definition served :: "('st, 'h) fs_env \<Rightarrow> string list set \<Rightarrow> ('st, 'h) fs \<Rightarrow> bool" where
  "served E S s \<longleftrightarrow> (\<forall>h t. get_handle h s = Some t \<longrightarrow> t_segs t \<in> S \<and> fst (ToHandle E (t_segs t) s) = h)"

lemma ToHandle_served:
  assumes "served E S s" "path \<in> S"
  shows "served E S (snd (ToHandle E path s))"
  using assms ToHandle_fst [of E _ "snd (ToHandle E path s)" s]
  unfolding served_def by (cases "proper_path (XM E) path") (auto simp: ToHandle_proper ToHandle_improper)

text \<open>
  C7. Handles name paths.  Among any set of paths with clean elements outside the toolchain's
  \<^verbatim>\<open>tsgo-\<close> directories, whose hashed names and module versions do not collide (nor hit a reserved value), two paths get the
  same handle only when they are the same path or both are paths that cannot exist; and after the process has been
  asked about any of them, in any order, \<^verbatim>\<open>FromHandle\<close> of the handle that \<^verbatim>\<open>ToHandle\<close> gives for a path returns, without a panic,
  exactly the elements of that path (of the one fixed name that does not exist, for a path that cannot exist), the root and
  the status file included.
\<close>
theorem handle_roundtrip:
  assumes u: "unescape_ok (XM E)" and len: "\<And>b. length (sha E b) = 32" and pl: "\<forall>p \<in> S. plain_segs p"
    and nc: "no_collision E S" and sv: "served E S s" and p: "path \<in> S"
  shows "(\<forall>path' \<in> S. fst (ToHandle E path' s) = fst (ToHandle E path s) \<longrightarrow>
      path' = path \<or> NotExist (parsePath (XM E) (joinSegs path')) \<and> NotExist (parsePath (XM E) (joinSegs path))) \<and>
    (\<exists>s'. FromHandle E fuel (fst (ToHandle E path s)) (snd (ToHandle E path s)) =
       Some (Inr (if NotExist (parsePath (XM E) (joinSegs path)) then notExistSeg else path), s') \<and> served E S s')"
proof
  show "\<forall>path' \<in> S. fst (ToHandle E path' s) = fst (ToHandle E path s) \<longrightarrow>
      path' = path \<or> NotExist (parsePath (XM E) (joinSegs path')) \<and> NotExist (parsePath (XM E) (joinSegs path))"
    using ToHandle_inj [OF u len nc pl _ p] by blast
  define s1 where "s1 = snd (ToHandle E path s)"
  have sv1: "served E S s1" unfolding s1_def by (rule ToHandle_served [OF sv p])
  have "FromHandle E fuel (fst (ToHandle E path s)) s1 = Some (Inr (if NotExist (parsePath (XM E) (joinSegs path)) then notExistSeg else path), s1)"
  proof (cases "proper_path (XM E) path")
    case False
    have "\<not> NotExist (parsePath (XM E) (joinSegs []))" "\<not> NotExist (parsePath (XM E) (joinSegs [statusFile]))"
      unfolding status_segs by (simp_all add: joinSegs_def parsePath_def parsePath_with_def statusFile_def zero_path_def cutPrefix_def parse_zip_def cut_def)
    then show ?thesis
      using False status_not_zero special_lengths status_segs
      by (auto simp: ToHandle_improper FromHandle_def fromHandle_def mkTargetFromPath_def proper_path_def)
  next
    case True
    let ?h = "handle_of E (joinSegs path)"
    have h: "fst (ToHandle E path s) = ?h" using True by (simp add: ToHandle_proper)
    note ph = proper_handle [OF u len nc p bspec [OF pl p] True]
    obtain t where t: "get_handle ?h s1 = Some t" using True by (cases "get_handle ?h s") (auto simp: s1_def ToHandle_proper)
    then have ts: "t_segs t \<in> S" "fst (ToHandle E (t_segs t) s1) = ?h" using sv1 by (auto simp: served_def)
    have "t_segs t = path \<or> NotExist (parsePath (XM E) (joinSegs path))"
      using ToHandle_inj [OF u len nc pl ts(1) p, of s1] ts(2) h ToHandle_fst [of E path s1 s] by auto
    then have "t_segs t = path" using True by (simp add: proper_path_def)
    then show ?thesis using t ph(2,3) True unfolding h by (simp add: FromHandle_def fromHandle_def proper_path_def)
  qed
  then show "\<exists>s'. FromHandle E fuel (fst (ToHandle E path s)) (snd (ToHandle E path s)) =
       Some (Inr (if NotExist (parsePath (XM E) (joinSegs path)) then notExistSeg else path), s') \<and> served E S s'"
    using sv1 unfolding s1_def by blast
qed

theorem handle_roundtrip_witness:
  "fst (ToHandle (mem_env False) [''go4.org''] fs0) \<noteq> fst (ToHandle (mem_env False) [''go4.org'', ''mem@v1.2.3'', ''a.go''] fs0) \<and>
   (\<exists>s'. FromHandle (mem_env False) 0 (fst (ToHandle (mem_env False) [''go4.org'', ''mem@v1.2.3'', ''a.go''] fs0))
      (snd (ToHandle (mem_env False) [''go4.org'', ''mem@v1.2.3'', ''a.go''] fs0)) = Some (Inr [''go4.org'', ''mem@v1.2.3'', ''a.go''], s'))"
proof -
  let ?E = "mem_env False" and ?a = "[''go4.org'', ''mem@v1.2.3'', ''a.go'']" and ?d = "[''go4.org'']"
  let ?S = "{?a, ?d}"
  have u: "unescape_ok (XM ?E)" by (auto simp: unescape_ok_def mem_env_def mem_xmod_def split: if_splits)
  have len: "length (sha ?E b) = 32" for b by (simp add: mem_env_def)
  have pl: "\<forall>p \<in> ?S. plain_segs p" by (simp add: plain_segs_def clean_name_def joinSegs_def)
  have pa: "parsePath (XM ?E) (joinSegs ?a) = zero_path\<lparr>ModVersion := mem_mv, Path := ''a.go'', InZip := True\<rparr>"
    "parsePath (XM ?E) (joinSegs ?d) = zero_path" by code_simp+
  have n: "hashed_names (XM ?E) ?S = {''go4.org/mem@v1.2.3/a.go'', ''go4.org'', ''a.go'', []}"
    "hashed_mods (XM ?E) ?S = {mem_mv}"
    unfolding hashed_names_def hashed_mods_def image_insert image_empty pa
    by (auto simp: zero_path_def joinSegs_def no_mv_def mem_mv_def)
  have i: "distinct (map (mkPathHash ?E) [''go4.org/mem@v1.2.3/a.go'', ''go4.org'', ''a.go'', []])"
    "\<forall>n \<in> {''go4.org/mem@v1.2.3/a.go'', ''go4.org'', ''a.go'', []}. mkPathHash ?E n \<notin> {replicate 32 0, cdFileInfo, cdFileMod, cdFileZiphash}"
    "hashModVersion ?E mem_mv \<notin> {replicate 32 0, take 32 statusHandle}" by code_simp+
  have "inj_on (mkPathHash ?E) (set [''go4.org/mem@v1.2.3/a.go'', ''go4.org'', ''a.go'', []])" using i(1) unfolding distinct_map by blast
  then have nc: "no_collision ?E ?S" using i(2,3) unfolding no_collision_def n list.set by (intro conjI) (simp_all only: inj_on_insert inj_on_empty ball_simps empty_iff, simp_all)
  have sv: "served ?E ?S fs0" by (simp add: served_def get_handle_def fs0_def)
  from handle_roundtrip [OF u len pl nc sv, of ?a 0] show ?thesis
    using pa by (auto simp: zero_path_def)
qed

section \<open>Walking a finite tree\<close>

text \<open>A module's contents as a tree, and the directory listings a store of that tree gives.\<close>

datatype mod_tree = TFile | TDir "(string \<times> mod_tree) list"

fun lookup_tree :: "mod_tree \<Rightarrow> string list \<Rightarrow> mod_tree option" where
  "lookup_tree t [] = Some t"
| "lookup_tree TFile (s # ss) = None"
| "lookup_tree (TDir es) (s # ss) = (case map_of es s of None \<Rightarrow> None | Some t \<Rightarrow> lookup_tree t ss)"

fun is_TDir :: "mod_tree \<Rightarrow> bool" where
  "is_TDir (TDir _) = True"
| "is_TDir TFile = False"

definition tree_ent :: "string \<times> mod_tree \<Rightarrow> dirent" where
  "tree_ent nt = \<lparr>d_name = fst nt, d_mode = \<lparr>is_dir = is_TDir (snd nt), perm = 0\<rparr>, d_size = 0\<rparr>"

definition rd_tree :: "mod_tree \<Rightarrow> string \<Rightarrow> err + dirent list" where
  "rd_tree root path = (case lookup_tree root (splitSegs path) of
     Some (TDir es) \<Rightarrow> Inr (map tree_ent es) | _ \<Rightarrow> Inl ErrNotExist)"

fun wf_tree :: "mod_tree \<Rightarrow> bool" where
  "wf_tree TFile = True"
| "wf_tree (TDir es) = (distinct (map fst es) \<and> (\<forall>x \<in> set es. clean_name (fst x) \<and> wf_tree (snd x)))"

fun depth :: "mod_tree \<Rightarrow> nat" where
  "depth TFile = 0"
| "depth (TDir es) = Suc (Max (insert 0 (set (map (\<lambda>x. depth (snd x)) es))))"

fun tree_paths :: "string list \<Rightarrow> mod_tree \<Rightarrow> string list list" where
  "tree_paths p TFile = [p]"
| "tree_paths p (TDir es) = p # concat (map (\<lambda>x. tree_paths (p @ [fst x]) (snd x)) es)"

lemma lookup_tree_append:
  "lookup_tree t (as @ bs) = (case lookup_tree t as of None \<Rightarrow> None | Some u \<Rightarrow> lookup_tree u bs)"
  by (induction t as rule: lookup_tree.induct) (auto split: option.split)

text \<open>A directory reader that lists a tree: in every directory the names and which of them are directories.\<close>

definition rd_lists :: "(string \<Rightarrow> err + dirent list) \<Rightarrow> mod_tree \<Rightarrow> bool" where
  "rd_lists rd root \<longleftrightarrow> (\<forall>ss es. list_all clean_name ss \<and> lookup_tree root ss = Some (TDir es) \<longrightarrow>
     (\<exists>ents. rd (joinSegs ss) = Inr ents \<and> map (\<lambda>e. (d_name e, is_dir (d_mode e))) ents = map (\<lambda>x. (fst x, is_TDir (snd x))) es))"

lemma rd_tree_lists: "rd_lists (rd_tree root) root"
  by (auto simp: rd_lists_def rd_tree_def splitSegs_joinSegs tree_ent_def)

lemma doEnts_key:
  "map (\<lambda>e. (d_name e, is_dir (d_mode e))) xs = map (\<lambda>e. (d_name e, is_dir (d_mode e))) ys \<Longrightarrow> doEnts f p xs = doEnts f p ys"
proof (induction xs arbitrary: ys)
  case (Cons x xs)
  then obtain y ys' where "ys = y # ys'" by (cases ys) auto
  moreover from this Cons.prems Cons.IH [of ys'] have "d_name x = d_name y" "is_dir (d_mode x) = is_dir (d_mode y)" "doEnts f p xs = doEnts f p ys'" by simp_all
  ultimately show ?case by (simp only: doEnts.simps)
qed simp

lemma doDir_tree:
  assumes "lookup_tree root ss = Some (TDir es)" "wf_tree root" "list_all clean_name ss" "wf_tree (TDir es)" "depth (TDir es) \<le> n"
    and rd: "rd_lists rd root" and sub: "\<And>x rest. x \<in> set es \<Longrightarrow> lookup_tree root (ss @ [fst x]) = Some (snd x)"
  shows "doDir n rd (joinSegs ss) = Some (map (Wpath \<circ> joinSegs) (tree_paths ss (TDir es)), True)"
  using assms
proof (induction n arbitrary: ss es)
  case (Suc n)
  have "doEnts (doDir n rd) (joinSegs ss) (map tree_ent xs) =
      Some (map (Wpath \<circ> joinSegs) (concat (map (\<lambda>x. tree_paths (ss @ [fst x]) (snd x)) xs)), True)"
    if "set xs \<subseteq> set es" for xs
    using that
  proof (induction xs)
    case (Cons x xs)
    from Cons.prems have x: "x \<in> set es" by simp
    have cl: "list_all clean_name (ss @ [fst x])" using Suc.prems(3,4) x by auto
    have "(if is_TDir (snd x) then doDir n rd (joinSegs (ss @ [fst x])) else Some ([Wpath (joinSegs (ss @ [fst x]))], True)) =
        Some (map (Wpath \<circ> joinSegs) (tree_paths (ss @ [fst x]) (snd x)), True)"
    proof (cases "snd x")
      case (TDir es')
      have l: "lookup_tree root (ss @ [fst x]) = Some (TDir es')" using Suc.prems(7) [OF x] TDir by simp
      have w: "wf_tree (TDir es')" using Suc.prems(4) x TDir by (cases x) force
      have "depth (snd x) \<in> insert 0 (set (map (\<lambda>x. depth (snd x)) es))" using x by auto
      then have "depth (snd x) \<le> Max (insert 0 (set (map (\<lambda>x. depth (snd x)) es)))" by (intro Max_ge) auto
      also have "\<dots> \<le> n" using Suc.prems(5) by simp
      finally have d: "depth (TDir es') \<le> n" unfolding TDir .
      have "lookup_tree root ((ss @ [fst x]) @ [fst y]) = Some (snd y)" if "y \<in> set es'" for y
      proof -
        have "map_of es' (fst y) = Some (snd y)" using w that by (cases y) auto
        then show ?thesis unfolding lookup_tree_append [of root "ss @ [fst x]"] l by simp
      qed
      from Suc.IH [OF l Suc.prems(2) cl w d Suc.prems(6) this] TDir show ?thesis by simp
    qed simp
    with Cons show ?case
      by (simp add: tree_ent_def sub_path_join [OF Suc.prems(3)])
  qed simp
  from this [OF subset_refl] have e: "doEnts (doDir n rd) (joinSegs ss) (map tree_ent es) =
      Some (map (Wpath \<circ> joinSegs) (concat (map (\<lambda>x. tree_paths (ss @ [fst x]) (snd x)) es)), True)" .
  obtain ents where r: "rd (joinSegs ss) = Inr ents"
    "map (\<lambda>e. (d_name e, is_dir (d_mode e))) ents = map (\<lambda>x. (fst x, is_TDir (snd x))) es"
    using Suc.prems(1,3,6) unfolding rd_lists_def by blast
  have "doEnts (doDir n rd) (joinSegs ss) ents = doEnts (doDir n rd) (joinSegs ss) (map tree_ent es)"
    by (rule doEnts_key) (simp add: r(2) tree_ent_def comp_def)
  then show ?case by (simp add: e r(1))
qed simp

lemma walk_tree:
  assumes "rd_lists rd (TDir es)" "wf_tree (TDir es)" "depth (TDir es) \<le> fuel"
  shows "walkStoreModulePaths fuel rd = Some (map (Wpath \<circ> joinSegs) (tree_paths [] (TDir es)))"
proof -
  have "lookup_tree (TDir es) ([] @ [fst x]) = Some (snd x)" if "x \<in> set es" for x
    using assms(2) that by (cases x) auto
  with doDir_tree [of "TDir es" "[]" es fuel rd] assms show ?thesis
    by (simp add: walkStoreModulePaths_def joinSegs_def)
qed

lemma tree_paths_clean: "wf_tree t \<Longrightarrow> list_all clean_name p \<Longrightarrow> ss \<in> set (tree_paths p t) \<Longrightarrow> list_all clean_name ss"
proof (induction p t rule: tree_paths.induct)
  case (2 p es)
  show ?case
  proof (cases "ss = p")
    case False
    then obtain x where x: "x \<in> set es" "ss \<in> set (tree_paths (p @ [fst x]) (snd x))" using 2(4) by auto
    then show ?thesis using 2(1) [OF x(1) _ _ x(2)] 2(2,3) by simp
  qed (use 2(3) in simp)
qed simp

text \<open>
  C32. The walk of a module's paths ends and is complete: over the listings of a finite tree of names,
  with fuel for its depth, \<^verbatim>\<open>walkStoreModulePaths\<close> yields every file and directory of the tree exactly in
  preorder, the root first, with no error.
\<close>
theorem walk_complete:
  assumes "wf_tree (TDir es)" "depth (TDir es) \<le> fuel"
  shows "walkStoreModulePaths fuel (rd_tree (TDir es)) = Some (map (Wpath \<circ> joinSegs) (tree_paths [] (TDir es)))"
  by (rule walk_tree [OF rd_tree_lists assms])

theorem walk_complete_witness:
  "walkStoreModulePaths 3 (rd_tree (TDir [(''a'', TFile), (''b'', TDir [(''c'', TFile)])])) =
     Some [Wpath [], Wpath ''a'', Wpath ''b'', Wpath ''b/c'']"
  using walk_complete [of "[(''a'', TFile), (''b'', TDir [(''c'', TFile)])]" 3]
  by (simp add: clean_name_def joinSegs_def)

section \<open>Handles after a restart\<close>

lemma find_path_found:
  assumes "Wpath f \<in> set items" "\<forall>e. Werr e \<notin> set items" "inj_on (mkPathHash E) {p. Wpath p \<in> set items}"
    "modVerZipPrefix (XM E) mv = Some pre"
  shows "find_path E mv (mkPathHash E f) items = Some (mkTargetFromPath (emptyPathJoin pre f))"
  using assms
proof (induction items)
  case (Cons x xs)
  from Cons.prems(2) obtain p where x: "x = Wpath p" by (cases x) auto
  show ?case
  proof (cases "mkPathHash E p = mkPathHash E f")
    case True
    with Cons.prems(1,3) x have "p = f" by (auto dest: inj_onD)
    with x Cons.prems(4) show ?thesis by simp
  next
    case False
    then have "Wpath f \<in> set xs" using Cons.prems(1) x by auto
    moreover have "inj_on (mkPathHash E) {p. Wpath p \<in> set xs}"
      by (rule inj_on_subset [OF Cons.prems(3)]) auto
    ultimately show ?thesis using Cons False x by simp
  qed
qed simp

text \<open>A freshly started process: no table is filled.\<close>

definition fresh_fs :: "('st, 'h) fs \<Rightarrow> bool" where
  "fresh_fs s \<longleftrightarrow> modVerHash s = None \<and> handle_map s = None"

lemma module_resolved:
  assumes X: "xmod_ok (XM E)" and fr: "fresh_fs s" and c: "CachedModules (Store E) (st s) = Inr mvs"
    and mv: "mv \<in> set mvs" and inj: "inj_on (hashModVersion E) (set mvs)"
  obtains s' where "moduleVersionWithHash E (hashModVersion E mv) s = Some (Inr mv, s')" "same_io s s'"
proof -
  from initHandleMaps_ok [OF X _ c] fr obtain s' where s': "initHandleMapsLocked E s = Some (None, s')"
    "mvh_ok E (set mvs) s'" "same_io s s'" "mod_known E mv s'" using mv by (auto simp: fresh_fs_def)
  from s'(4) obtain m mv' where m: "modVerHash s' = Some m" "map_of m (hashModVersion E mv) = Some mv'"
    by (auto simp: mod_known_def knows_def)
  with s'(2) have "mv' \<in> set mvs" "hashModVersion E mv' = hashModVersion E mv" by (auto simp: mvh_ok_def)
  with inj mv have "mv' = mv" by (auto dest: inj_onD)
  with m s' that [of s'] show ?thesis by (simp add: moduleVersionWithHash_def)
qed

lemma fromHandle_module_resolved:
  assumes X: "xmod_ok (XM E)" and fr: "fresh_fs s" and c: "CachedModules (Store E) (st s) = Inr mvs"
    and mv: "mv \<in> set mvs" "mv_IsValid mv" and inj: "inj_on (hashModVersion E) (set mvs)"
    and len: "\<And>b. length (sha E b) = 32"
    and h: "h = hashModVersion E mv @ w" "hashModVersion E mv \<noteq> replicate 32 0" "h \<noteq> statusHandle"
    and r: "fromHandle_module E fuel mv w s = Some (Inr (mkTargetFromPath p))" "p \<noteq> []"
  shows "\<exists>s'. fromHandle E fuel h s = Some (Inr (mkTargetFromPath p), s') \<and> st s' = st s"
proof -
  from module_resolved [OF X fr c mv(1) inj] obtain s' where
    s': "moduleVersionWithHash E (hashModVersion E mv) s = Some (Inr mv, s')" "same_io s s'" .
  have th: "take 32 h = hashModVersion E mv" "drop 32 h = w" using len by (simp_all add: h(1) hashModVersion_def)
  have "h \<noteq> zeroHandle" using th(1) h(2) by (auto simp: zeroHandle_def)
  moreover have "get_handle h s = None" using fr by (simp add: get_handle_def fresh_fs_def)
  moreover have "fromHandle_module E fuel mv w s' = Some (Inr (mkTargetFromPath p))"
    using r(1) s'(2) unfolding fromHandle_module_def same_io_def by (simp only:)
  ultimately have "fromHandle E fuel h s = Some (Inr (mkTargetFromPath p), set_handle h (mkTargetFromPath p) s')"
    using h(2,3) s'(1) th mv(2) r(2)
    by (simp add: fromHandle_def fromHandle_cold_def Let_def mkTargetFromPath_def splitSegs_def)
  then show ?thesis using s'(2) by (simp add: set_handle_def same_io_def)
qed

definition fs1 :: "((mod_version \<times> put_data) list, mod_version) fs" where
  "fs1 = fs0\<lparr>st := [(mem_mv, \<lparr>InfoFile = None, ModFile = None, ZipHash = None, Files = []\<rparr>)]\<rparr>"

lemma fs1_facts:
  "fresh_fs fs1" "CachedModules (Store (mem_env False)) (st fs1) = Inr [mem_mv]" "mem_mv \<in> set [mem_mv]"
  "mv_IsValid mem_mv" "inj_on (hashModVersion (mem_env False)) (set [mem_mv])" "\<And>b. length (sha (mem_env False) b) = 32"
  by (simp_all add: fresh_fs_def fs1_def fs0_def mem_env_def mem_store_def mem_mv_def mv_IsValid_def)

lemma fs1_xmod: "xmod_ok (XM (mem_env False))"
  using mem_xmod_ok by (simp add: mem_env_def)

lemma fs1_hash: "hashModVersion (mem_env False) mem_mv \<noteq> replicate 32 0"
  by code_simp

lemma zip_path_segs:
  assumes "pre \<noteq> []" "list_all clean_name ss"
  shows "joinSegs (splitSegs pre @ ss) = emptyPathJoin pre (joinSegs ss)" "splitSegs (emptyPathJoin pre (joinSegs ss)) = splitSegs pre @ ss"
proof -
  have j: "joinSegs ss \<noteq> []" "split_on slash (joinSegs ss) = ss" if "ss \<noteq> []"
    using join_on_hd(1) [OF assms(2) that] splitSegs_joinSegs [OF assms(2)] that by (auto simp: joinSegs_def splitSegs_def split: if_splits)
  show "joinSegs (splitSegs pre @ ss) = emptyPathJoin pre (joinSegs ss)"
    using j assms(1) by (cases "ss = []") (simp_all add: joinSegs_def emptyPathJoin_def splitSegs_def join_on_append)
  show "splitSegs (emptyPathJoin pre (joinSegs ss)) = splitSegs pre @ ss"
    using j assms(1) by (cases "ss = []") (simp_all add: emptyPathJoin_def splitSegs_def joinSegs_def split_on_append2)
qed

text \<open>
  C6. A file's handle survives a restart: for a module version the store has cached, other than the Tailscale
  Go toolchain and with a zip prefix outside its \<^verbatim>\<open>tsgo-\<close> name space, whose tree the store lists, with no hash
  collisions among the cached versions and among the paths of its tree, a freshly started process resolves the handle
  that another process gave out for any file or directory of that tree to exactly the elements of its path, with enough fuel for the depth of
  the tree, provided the hashes are none of the reserved markers.
\<close>
theorem file_handle_survives_restart:
  assumes X: "xmod_ok (XM E)" and fr: "fresh_fs s" and c: "CachedModules (Store E) (st s) = Inr mvs"
    and mv: "mv \<in> set mvs" "mv_IsValid mv" and inj: "inj_on (hashModVersion E) (set mvs)"
    and len: "\<And>b. length (sha E b) = 32"
    and pre: "modVerZipPrefix (XM E) mv = Some pre" "isTSGoModule mv = None" "\<not> prefix ''tsgo-'' pre"
    and root: "GetZipRoot (Store E) (st s) mv = Inr mh"
    and tree: "rd_lists (Readdir (Store E) (st s) mh) (TDir es)" "wf_tree (TDir es)" "depth (TDir es) \<le> fuel"
    and f: "ss \<in> set (tree_paths [] (TDir es))" and injp: "inj_on (mkPathHash E) (joinSegs ` set (tree_paths [] (TDir es)))"
    and mk: "mkPathHash E (joinSegs ss) \<notin> {cdFileInfo, cdFileMod, cdFileZiphash}"
    and h: "hashModVersion E mv \<notin> {replicate 32 0, take 32 statusHandle}"
  shows "\<exists>s'. FromHandle E fuel (fst (ToHandle E (splitSegs pre @ ss) s0)) s = Some (Inr (splitSegs pre @ ss), s') \<and> st s' = st s"
proof -
  let ?f = "joinSegs ss" and ?p = "emptyPathJoin pre (joinSegs ss)" and ?items = "map (Wpath \<circ> joinSegs) (tree_paths [] (TDir es))"
  have cl: "list_all clean_name ss" using tree_paths_clean [OF tree(2) _ f] by simp
  have pn: "pre \<noteq> []" using zip_prefix_relative [OF X pre(1)] by simp
  note sg = zip_path_segs [OF pn cl]
  have "\<not> suffix ''/'' ?f" using plain_not_slash [OF cl] by (auto simp: suffix_def)
  then have pp: "parsePath (XM E) ?p = zero_path\<lparr>ModVersion := mv, Path := ?f, InZip := True\<rparr>"
    using zip_path_parsed [OF X pre] by blast
  have pr: "proper_path (XM E) (splitSegs pre @ ss)"
  proof -
    have "splitSegs pre @ ss \<noteq> [statusFile]"
    proof
      assume e: "splitSegs pre @ ss = [statusFile]"
      show False using pp unfolding sg(1) [symmetric] e status_segs by (simp add: parsePath_def parsePath_with_def zero_path_def statusFile_def)
    qed
    then show ?thesis using pp pn sg(1) by (simp add: proper_path_def splitSegs_def zero_path_def)
  qed
  have ho: "handle_of E ?p = hashModVersion E mv @ mkPathHash E ?f"
    using mv(2) pp by (simp add: handle_of_def zero_path_def wkTSGoExtracted_def mv_IsValid_def)
  have ns: "handle_of E ?p \<noteq> statusHandle"
    using h len unfolding ho by (metis append_eq_conv_conj hashModVersion_def insertCI)
  have walk: "walkStoreModulePaths fuel (Readdir (Store E) (st s) mh) = Some ?items" by (rule walk_tree [OF tree])
  have it: "Wpath ?f \<in> set ?items" "\<forall>e. Werr e \<notin> set ?items" using f by auto
  have "{p. Wpath p \<in> set ?items} = joinSegs ` set (tree_paths [] (TDir es))" by (auto simp del: tree_paths.simps)
  with injp have "inj_on (mkPathHash E) {p. Wpath p \<in> set ?items}" by simp
  note fp = find_path_found [OF it this pre(1)]
  have "fromHandle_module E fuel mv (mkPathHash E ?f) s = Some (Inr (mkTargetFromPath ?p))"
    using mk pre(2) root walk fp by (simp add: fromHandle_module_def)
  moreover have "?p \<noteq> []" using pn by (simp add: emptyPathJoin_def)
  moreover have hz: "hashModVersion E mv \<noteq> replicate 32 0" using h by simp
  ultimately obtain s' where r: "fromHandle E fuel (handle_of E ?p) s = Some (Inr (mkTargetFromPath ?p), s')" "st s' = st s"
    using fromHandle_module_resolved [OF X fr c mv inj len ho hz ns] by blast
  have "length (handle_of E ?p) = 64" by (rule handle_length [OF len])
  moreover from this have "handle_of E ?p \<noteq> notExistHandle" using special_lengths by auto
  ultimately show ?thesis
    using r sg unfolding ToHandle_proper [OF pr] by (simp add: FromHandle_def mkTargetFromPath_def)
qed

text \<open>A store whose module has a file and a directory with a file in it.\<close>

definition sample_tree :: mod_tree where
  "sample_tree = TDir [(''mem.go'', TFile), (''sub'', TDir [(''b.go'', TFile)])]"

definition tree_env :: "((mod_version \<times> put_data) list, mod_version) fs_env" where
  "tree_env = (mem_env False)\<lparr>Store := mem_store\<lparr>Readdir := (\<lambda>d h. rd_tree sample_tree)\<rparr>\<rparr>"

theorem file_handle_survives_restart_witness:
  "\<exists>s'. FromHandle tree_env 2 (fst (ToHandle tree_env [''go4.org'', ''mem@v1.2.3'', ''sub'', ''b.go''] fs0)) fs1 =
     Some (Inr [''go4.org'', ''mem@v1.2.3'', ''sub'', ''b.go''], s') \<and> st s' = st fs1"
proof -
  let ?E = "tree_env" and ?es = "[(''mem.go'', TFile), (''sub'', TDir [(''b.go'', TFile)])]" and ?pre = "''go4.org/mem@v1.2.3''"
  have b: "xmod_ok (XM ?E)" "fresh_fs fs1" "CachedModules (Store ?E) (st fs1) = Inr [mem_mv]" "mem_mv \<in> set [mem_mv]" "mv_IsValid mem_mv"
    "inj_on (hashModVersion ?E) (set [mem_mv])" "\<And>b. length (sha ?E b) = 32" "GetZipRoot (Store ?E) (st fs1) mem_mv = Inr mem_mv"
    using mem_xmod_ok by (simp_all add: tree_env_def mem_env_def fresh_fs_def fs1_def fs0_def mem_store_def mem_mv_def mv_IsValid_def)
  have pre: "modVerZipPrefix (XM ?E) mem_mv = Some ?pre" "isTSGoModule mem_mv = None" "\<not> prefix ''tsgo-'' ?pre"
    by (simp_all add: modVerZipPrefix_def isTSGoModule_def tree_env_def mem_env_def mem_xmod_def mem_mv_def)
  have t: "rd_lists (Readdir (Store ?E) (st fs1) mem_mv) (TDir ?es)" "wf_tree (TDir ?es)" "depth (TDir ?es) \<le> 2"
    "[''sub'', ''b.go''] \<in> set (tree_paths [] (TDir ?es))"
    using rd_tree_lists [of sample_tree] by (simp_all add: tree_env_def sample_tree_def clean_name_def)
  have "distinct (map (mkPathHash ?E) [[], ''mem.go'', ''sub'', ''sub/b.go''])"
    and mk: "mkPathHash ?E (joinSegs [''sub'', ''b.go'']) \<notin> {cdFileInfo, cdFileMod, cdFileZiphash}"
    and h: "hashModVersion ?E mem_mv \<notin> {replicate 32 0, take 32 statusHandle}" by code_simp+
  then have "inj_on (mkPathHash ?E) (set [[], ''mem.go'', ''sub'', ''sub/b.go''])" unfolding distinct_map by blast
  moreover have "joinSegs ` set (tree_paths [] (TDir ?es)) = set [[], ''mem.go'', ''sub'', ''sub/b.go'']" by (simp add: joinSegs_def)
  ultimately have i: "inj_on (mkPathHash ?E) (joinSegs ` set (tree_paths [] (TDir ?es)))" by simp
  from file_handle_survives_restart [OF b(1-7) pre b(8) t i mk h, of fs0]
  show ?thesis by (simp add: splitSegs_def)
qed

text \<open>
  C31. The handle of a \<^verbatim>\<open>.info\<close>, \<^verbatim>\<open>.mod\<close> or \<^verbatim>\<open>.ziphash\<close> file survives a restart: for an escapable cached
  module version a freshly started process resolves it to that very \<^verbatim>\<open>cache/download\<close> path without
  reading the module's tree.
\<close>
theorem meta_handle_survives_restart:
  assumes X: "xmod_ok (XM E)" and fr: "fresh_fs s" and c: "CachedModules (Store E) (st s) = Inr mvs"
    and mv: "mv \<in> set mvs" "mv_IsValid mv" and inj: "inj_on (hashModVersion E) (set mvs)"
    and len: "\<And>b. length (sha E b) = 32"
    and e: "EscapePath (XM E) (Module mv) = Some em" "EscapeVersion (XM E) (Version mv) = Some ev" "\<not> prefix ''.'' ev"
    and ext: "ext \<in> {''mod'', ''ziphash'', ''info''}"
    and h: "hashModVersion E mv \<noteq> replicate 32 0" "handle_of E (cdPath (XM E) mv ext) \<noteq> statusHandle"
  shows "\<exists>s'. fromHandle E fuel (handle_of E (cdPath (XM E) mv ext)) s = Some (Inr (mkTargetFromPath (cdPath (XM E) mv ext)), s') \<and>
    st s' = st s"
proof (rule fromHandle_module_resolved [OF X fr c mv inj len _ h])
  show "cdPath (XM E) mv ext \<noteq> []" by (simp add: cdPath_def)
  have "parsePath (XM E) (cdPath (XM E) mv ext) = zero_path\<lparr>CacheDownloadFileExt := ext, ModVersion := mv\<rparr>"
    using cdPath_parsed [OF X e ext] .
  then show "handle_of E (cdPath (XM E) mv ext) = hashModVersion E mv @ mkWellKnownPathHash ext"
    using mv(2) ext by (auto simp: handle_of_def zero_path_def wkTSGoExtracted_def mv_IsValid_def)
  have "List.hd cdFileInfo = 105" "List.hd cdFileMod = 109" "List.hd cdFileZiphash = 122"
    by (simp_all add: cdFileInfo_def cdFileMod_def cdFileZiphash_def mkWellKnownPathHash_def to_bytes_def)
  then have "cdFileMod \<noteq> cdFileInfo" "cdFileZiphash \<noteq> cdFileInfo" "cdFileZiphash \<noteq> cdFileMod" by auto
  then show "fromHandle_module E fuel mv (mkWellKnownPathHash ext) s = Some (Inr (mkTargetFromPath (cdPath (XM E) mv ext)))"
    using ext by (auto simp: fromHandle_module_def cdFileInfo_def cdFileMod_def cdFileZiphash_def)
qed

theorem meta_handle_survives_restart_witness:
  "\<exists>s'. fromHandle (mem_env False) 0 (handle_of (mem_env False) ''cache/download/go4.org/mem/@v/v1.2.3.mod'') fs1 =
     Some (Inr (mkTargetFromPath ''cache/download/go4.org/mem/@v/v1.2.3.mod''), s') \<and> st s' = st fs1"
proof -
  let ?E = "mem_env False"
  have e: "EscapePath (XM ?E) (Module mem_mv) = Some ''go4.org/mem''" "EscapeVersion (XM ?E) (Version mem_mv) = Some ''v1.2.3''"
    "\<not> prefix ''.'' ''v1.2.3''" "''mod'' \<in> {''mod'', ''ziphash'', ''info''}"
    by (simp_all add: mem_env_def mem_xmod_def mem_mv_def)
  have p: "cdPath (XM ?E) mem_mv ''mod'' = ''cache/download/go4.org/mem/@v/v1.2.3.mod''"
    by (simp add: cdPath_def e from_opt_def)
  have st: "handle_of ?E (cdPath (XM ?E) mem_mv ''mod'') \<noteq> statusHandle" by code_simp
  from meta_handle_survives_restart [OF fs1_xmod fs1_facts(1,2,3,4,5,6) e fs1_hash st, of 0] show ?thesis unfolding p .
qed

text \<open>The directories above a module's files are plain directories to \<^verbatim>\<open>parsePath\<close>.\<close>

lemma join_take_prefix: "0 < j \<Longrightarrow> prefix (join_on x (take j (split_on x s))) s"
proof (cases "j < length (split_on x s)")
  case True
  assume "0 < j"
  then have "join_on x (take j (split_on x s) @ drop j (split_on x s)) = join_on x (take j (split_on x s)) @ x # join_on x (drop j (split_on x s))"
    using True by (intro join_on_append) auto
  then show ?thesis unfolding append_take_drop_id join_split by (metis prefixI)
qed simp

lemma no_second_at: "at_sign \<notin> set em \<Longrightarrow> cut_at ''/@v/'' (em @ ''/@v'') = None"
proof (rule ccontr)
  assume a: "at_sign \<notin> set em" "cut_at ''/@v/'' (em @ ''/@v'') \<noteq> None"
  then obtain b c where "cut_at ''/@v/'' (em @ ''/@v'') = Some (b, c)" by fastforce
  from cut_at_sound [OF this] have e: "em @ ''/@v'' = b @ ''/@v/'' @ c" .
  have "length (filter (\<lambda>c. c = at_sign) em) = 0" using a(1) by (simp add: filter_empty_conv) blast
  then have "filter (\<lambda>c. c = at_sign) b = []" using arg_cong [OF e, of "\<lambda>s. length (filter (\<lambda>c. c = at_sign) s)"] by simp
  then have "at_sign \<notin> set b" by (auto simp: filter_empty_conv)
  moreover have "dropWhile (\<lambda>c. c \<noteq> at_sign) (x @ slash # at_sign # y) = at_sign # y" if "at_sign \<notin> set x" for x y
    using that by (induction x) auto
  ultimately show False using arg_cong [OF e, of "dropWhile (\<lambda>c. c \<noteq> at_sign)"] a(1) by simp
qed

lemma last_take_dot:
  assumes "\<forall>x \<in> set (split_on slash em). \<not> prefix ''.'' x" "list_all clean_name (split_on slash em)" "0 < j" "u = join_on slash (take j (split_on slash em))"
  shows "\<not> prefix ''.'' (path_Base u)" "\<not> prefix ''.'' (path_Base (''cache/download/'' @ u))"
proof -
  let ?t = "take j (split_on slash em)"
  have ne: "?t \<noteq> []" using assms(3) by auto
  have x: "last ?t \<in> set (split_on slash em)" using last_in_set [OF ne] in_set_takeD by fast
  then have s: "slash \<notin> set (last ?t)" by (rule split_on_segs)
  have n: "last ?t \<noteq> []" using assms(2) x by (auto simp: list_all_iff clean_name_def)
  have "?t = butlast ?t @ [last ?t]" using ne by simp
  then have u: "u = (if butlast ?t = [] then last ?t else join_on slash (butlast ?t) @ slash # last ?t)"
    unfolding assms(4) by (metis append_Nil join_on.simps(2) join_on_append list.distinct(1))
  then obtain a where a: "''cache/download/'' @ u = a @ slash # last ?t" by (cases "butlast ?t = []") (auto intro: that [of "''cache/download''"] that [of "''cache/download/'' @ join_on slash (butlast ?t)"])
  have "path_Base u = last ?t" using u path_Base_append [OF n s] path_Base_free [OF n s] by (cases "butlast ?t = []") simp_all
  then show "\<not> prefix ''.'' (path_Base u)" using assms(1) x by simp
  show "\<not> prefix ''.'' (path_Base (''cache/download/'' @ u))" unfolding a path_Base_append [OF n s] using assms(1) x by blast
qed

lemma above_parsed:
  assumes X: "xmod_ok X" and e: "EscapePath X (Module mv) = Some em" "EscapeVersion X (Version mv) = Some ev"
    and dots: "\<forall>x \<in> set (split_on slash em). \<not> prefix ''.'' x" and nt: "\<not> prefix ''tsgo-'' em"
    and d: "d \<in> dirs_above (em @ at_sign # ev) \<union> dirs_above (cdPath X mv ''foo'')"
  shows "parsePath X d = zero_path"
proof -
  note xp = xmod_path [OF X e(1)] and xv = xmod_version [OF X e(2)]
  let ?S = "split_on slash em"
  have em: "parsePath X u = zero_path" "parsePath X (''cache/download/'' @ u) = zero_path"
    if j: "0 < j" "u = join_on slash (take j ?S)" for u j
  proof -
    have cl: "list_all clean_name ?S" using xp by blast
    note nd1 = last_take_dot(1) [OF dots cl j] and nd2 = last_take_dot(2) [OF dots cl j]
    have pu: "prefix u em" using join_take_prefix [OF j(1)] j(2) by blast
    have at: "at_sign \<notin> set u" using set_mono_prefix [OF pu] xp by blast
    have c: "\<not> prefix ''cache/download/'' u" using not_cache_prefix [of em "[]"] xp pu prefix_order.trans by fastforce
    have t: "\<not> prefix ''tsgo-'' u" using nt pu prefix_order.trans by blast
    have st: "path_Base statusFile = statusFile" by code_simp
    have "u \<noteq> statusFile" using nd1 st by (auto simp: statusFile_def)
    then show "parsePath X u = zero_path"
      using nd1 c t at by (simp add: parsePath_def parsePath_with_def cutPrefix_def parse_zip_def cut_none)
    have "cut u ''/@v/'' = (u, [], False)" using cut_at_None [OF at, of "''/@v/''"] by (simp add: cut_def)
    then show "parsePath X (''cache/download/'' @ u) = zero_path"
      using nd2 by (simp add: parsePath_def parsePath_with_def cutPrefix_def parse_download_def statusFile_def)
  qed
  have sp: "split_on slash (em @ at_sign # ev) = butlast ?S @ [last ?S @ at_sign # ev]" using xv by (intro split_on_extend) auto
  have "cdPath X mv ''foo'' = ''cache'' @ slash # ''download'' @ slash # em @ slash # ''@v'' @ slash # ev @ ''.foo''"
    by (simp add: cdPath_def e from_opt_def)
  then have sc: "butlast (split_on slash (cdPath X mv ''foo'')) = [''cache'', ''download''] @ ?S @ [''@v'']"
    using xv by (simp add: split_on_append2 split_on_free butlast_append)
  from d consider (zip) k where "0 < k" "k \<le> length (butlast ?S)" "d = join_on slash (take k (butlast ?S))"
    | (cd) k where "0 < k" "k \<le> length ?S + 3" "d = join_on slash (take k ([''cache'', ''download''] @ ?S @ [''@v'']))"
    by (auto simp: dirs_above_def sp sc)
  then show ?thesis
  proof cases
    case zip
    then show ?thesis using em(1) [OF zip(1), of d] by (simp add: take_butlast)
  next
    case cd
    consider "k = 1" | "k = 2" | j where "k = Suc (Suc j)" "0 < j" "j \<le> length ?S" | "k = length ?S + 3"
    proof -
      have "k = 1 \<or> k = 2 \<or> k = length ?S + 3 \<or> (k = Suc (Suc (k - 2)) \<and> 0 < k - 2 \<and> k - 2 \<le> length ?S)" using cd(1,2) by arith
      then show thesis using that by blast
    qed
    then show ?thesis
    proof cases
      case 3
      have "d = ''cache/download/'' @ join_on slash (take j ?S)" using cd(3) 3 by (simp add: join_on_cons)
      then show ?thesis using em(2) [OF 3(2)] by simp
    next
      case 4
      then have "d = ''cache/download/'' @ em @ ''/@v''" using cd(3) join_on_append [of ?S "[''@v'']" slash] by (simp add: join_on_cons)
      then show ?thesis using no_second_at [of em] xp path_Base_append [of "''@v''" "''cache/download/'' @ em"]
        by (simp add: parsePath_def parsePath_with_def cutPrefix_def parse_download_def cut_def statusFile_def)
    qed (use cd(3) in \<open>simp_all add: parsePath_def parsePath_with_def cutPrefix_def parse_zip_def cut_def statusFile_def path_Base_def after_last_def rstrip_def\<close>)
  qed
qed

text \<open>
  C30. The handle of a directory above the modules survives a restart: a freshly started process
  resolves the handle that another process gave out for any directory above a cached module's zip root or above its
  \<^verbatim>\<open>cache/download\<close> files to exactly the elements of that directory's path, building the tables always ends, and
  nothing panics.  The module is not the Tailscale Go toolchain, no element of its path starts with a dot and the path does not start
  with \<^verbatim>\<open>tsgo-\<close>; the hash of the directory is not all zeros and collides with no other directory of the table.
\<close>
theorem dir_handle_survives_restart:
  assumes X: "xmod_ok (XM E)" and fr: "fresh_fs s" and c: "CachedModules (Store E) (st s) = Inr mvs"
    and mv: "mv \<in> set mvs" "isTSGoModule mv = None" and len: "\<And>b. length (sha E b) = 32"
    and e: "EscapePath (XM E) (Module mv) = Some em" "EscapeVersion (XM E) (Version mv) = Some ev"
    and em: "\<forall>x \<in> set (split_on slash em). \<not> prefix ''.'' x" "\<not> prefix ''tsgo-'' em"
    and d: "d \<in> dirs_above (em @ at_sign # ev) \<union> dirs_above (cdPath (XM E) mv ''foo'')"
    and h: "mkPathHash E d \<noteq> replicate 32 0" "\<forall>q \<in> table_dirs (XM E) (set mvs). mkPathHash E q = mkPathHash E d \<longrightarrow> q = d"
  shows "\<exists>s'. FromHandle E fuel (fst (ToHandle E (splitSegs d) s0)) s = Some (Inr (splitSegs d), s') \<and> st s' = st s"
proof -
  let ?h = "replicate 32 0 @ mkPathHash E d"
  from initHandleMaps_ok [OF X _ c] fr obtain s' where s': "initHandleMapsLocked E s = Some (None, s')" "tbl_ok E (set mvs) s'"
    "same_io s s'" "mod_known E mv s'" "covers E s' ''cache''" "covers E s' ''cache/download''"
    using mv by (auto simp: fresh_fs_def)
  have "resolves E s' d" using s'(4) e d mv(2) by (auto simp: mod_known_def)
  then have "covers E s' d" using s'(5,6) by (auto simp: resolves_def)
  then obtain m t where m: "pathHashTarget s' = Some m" "map_of m (mkPathHash E d) = Some t" by (auto simp: covers_def)
  with s'(2) h(2) have q: "d \<noteq> []" "t = mkTargetFromPath d" by (fastforce simp: tbl_ok_def)+
  have pz: "parsePath (XM E) d = zero_path" by (rule above_parsed [OF X e em d])
  have js: "joinSegs (splitSegs d) = d" using q(1) by (simp add: joinSegs_def splitSegs_def)
  have "splitSegs d \<noteq> [statusFile]"
  proof
    assume "splitSegs d = [statusFile]"
    then have "d = statusFile" using js status_segs(2) by simp
    then show False using pz by (simp add: parsePath_def parsePath_with_def zero_path_def statusFile_def)
  qed
  then have pr: "proper_path (XM E) (splitSegs d)" using pz js q(1) by (simp add: proper_path_def splitSegs_def zero_path_def)
  have ho: "handle_of E d = ?h" by (simp add: handle_of_def pz zero_path_def no_mv_def wkTSGoExtracted_def)
  have ne: "?h \<noteq> zeroHandle" "?h \<noteq> statusHandle" using h(1) special_halves by (metis append_eq_conv_conj length_replicate)+
  have l1: "length ?h = 64" using handle_length [OF len, of d] unfolding ho .
  moreover have "length ?h \<noteq> length notExistHandle" unfolding l1 special_lengths by simp
  ultimately have l: "length ?h = 64" "?h \<noteq> notExistHandle" by metis+
  have "get_handle ?h s = None" using fr by (simp add: get_handle_def fresh_fs_def)
  moreover have "fromHandle_cold E fuel ?h s = Some (Inr t, s')"
    using s'(1) m by (simp add: fromHandle_cold_def handleTargetWithPathHash_def)
  ultimately have "fromHandle E fuel ?h s = Some (Inr t, set_handle ?h t s')"
    using q ne by (simp add: fromHandle_def mkTargetFromPath_def splitSegs_def)
  then have "FromHandle E fuel ?h s = Some (Inr (splitSegs d), set_handle ?h t s')" using l q(2) by (simp add: FromHandle_def mkTargetFromPath_def)
  then show ?thesis using s'(3) unfolding ToHandle_proper [OF pr] js ho by (simp add: set_handle_def same_io_def)
qed

text \<open>The directories of the table for the sample module.\<close>

lemma iter_closed: "path_Dir p \<in> L \<Longrightarrow> (\<And>x. x \<in> L \<Longrightarrow> path_Dir x \<in> L) \<Longrightarrow> (path_Dir ^^ Suc k) p \<in> L"
  by (induction k) auto

definition mem_dirs :: "string list" where
  "mem_dirs = [''.'', ''cache'', ''cache/download'', ''cache/download/go4.org'', ''cache/download/go4.org/mem'', ''cache/download/go4.org/mem/@v'', ''go4.org'']"

lemma mem_table_dirs: "table_dirs (XM (mem_env False)) (set [mem_mv]) \<subseteq> set ([statusFile] @ tsgo_dirs @ mem_dirs)"
proof -
  have c: "\<forall>x \<in> set mem_dirs. path_Dir x \<in> set mem_dirs" by code_simp
  have p: "path_Dir (cdPath (XM (mem_env False)) mem_mv ''foo'') \<in> set mem_dirs" "path_Dir ''go4.org/mem@v1.2.3'' \<in> set mem_dirs"
    "modVerZipPrefix (XM (mem_env False)) mem_mv = Some ''go4.org/mem@v1.2.3''" by code_simp+
  have "(path_Dir ^^ Suc k) x \<in> set mem_dirs" if "x = cdPath (XM (mem_env False)) mem_mv ''foo'' \<or> modVerZipPrefix (XM (mem_env False)) mem_mv = Some x" for k x
    using that p c by (intro iter_closed) auto
  moreover have "''cache'' \<in> set mem_dirs" "''cache/download'' \<in> set mem_dirs" by (simp_all add: mem_dirs_def)
  ultimately show ?thesis unfolding table_dirs_def by auto
qed

theorem dir_handle_survives_restart_witness:
  "\<exists>s'. FromHandle (mem_env False) 0 (fst (ToHandle (mem_env False) [''go4.org''] fs0)) fs1 = Some (Inr [''go4.org''], s') \<and> st s' = st fs1"
proof -
  let ?E = "mem_env False"
  have e: "isTSGoModule mem_mv = None" "EscapePath (XM ?E) (Module mem_mv) = Some ''go4.org/mem''"
    "EscapeVersion (XM ?E) (Version mem_mv) = Some ''v1.2.3''" "\<not> prefix ''tsgo-'' ''go4.org/mem''"
    "\<forall>x \<in> set (split_on slash ''go4.org/mem''). \<not> prefix ''.'' x"
    by (simp_all add: mem_env_def mem_xmod_def mem_mv_def isTSGoModule_def)
  have "''go4.org'' \<in> dirs_above (''go4.org/mem'' @ at_sign # ''v1.2.3'')"
    by (auto simp: dirs_above_def intro!: exI [of _ 1])
  then have d: "''go4.org'' \<in> dirs_above (''go4.org/mem'' @ at_sign # ''v1.2.3'') \<union> dirs_above (cdPath (XM ?E) mem_mv ''foo'')" by blast
  have h: "mkPathHash ?E ''go4.org'' \<noteq> replicate 32 0" by code_simp
  have "\<forall>q \<in> set ([statusFile] @ tsgo_dirs @ mem_dirs). mkPathHash ?E q = mkPathHash ?E ''go4.org'' \<longrightarrow> q = ''go4.org''" by code_simp
  then have nc: "\<forall>q \<in> table_dirs (XM ?E) (set [mem_mv]). mkPathHash ?E q = mkPathHash ?E ''go4.org'' \<longrightarrow> q = ''go4.org''" using mem_table_dirs by blast
  from dir_handle_survives_restart [OF fs1_xmod fs1_facts(1,2,3) e(1) fs1_facts(6) e(2,3,5,4) d h nc, of 0 fs0] show ?thesis by (simp add: splitSegs_def)
qed

end
