(* ===== verification/Lru_Cache.thy ===== *)
theory Lru_Cache
  imports Go_Prelude "HOL-Library.AList" "HOL-Library.Monad_Syntax" "HOL-Library.Multiset"
begin

text \<open>
  The typed LRU cache, \<^verbatim>\<open>internal/lru/lru.go\<close>.  The source keeps a ring of heap-allocated
  entries linked both ways and a map from keys to entries; the model keeps the same ring in an
  explicit heap, so that the pointer surgery is what is verified.  \<^term>\<open>None\<close> is a run-time
  panic (a nil dereference) or a loop that does not end; the lemmas show neither happens on a
  well-formed cache.  \<^verbatim>\<open>int64\<close> arithmetic on sizes wraps (\<^const>\<open>i64\<close>).
\<close>

section \<open>State\<close>

type_synonym ptr = nat

record ('k, 'v) entry =
  e_prev :: ptr
  e_next :: ptr
  e_key :: 'k
  e_value :: 'v

type_synonym ('k, 'v) heap = "ptr \<Rightarrow> ('k, 'v) entry option"

record ('k, 'v) cache =
  MaxSize :: int
  EntrySize :: "('k \<Rightarrow> 'v \<Rightarrow> int) option"
  curSize :: int
  head :: "ptr option"
  lookup :: "('k \<times> ptr) list"
  heap :: "('k, 'v) heap"
  fresh :: ptr

definition zero_cache :: "('k, 'v) cache" where
  "zero_cache = \<lparr>MaxSize = 0, EntrySize = None, curSize = 0, head = None, lookup = [],
     heap = Map.empty, fresh = 0\<rparr>"

section \<open>Pointer reads and writes\<close>

definition nxt :: "('k, 'v) heap \<Rightarrow> ptr \<Rightarrow> ptr option" where
  "nxt h p = map_option e_next (h p)"

definition prv :: "('k, 'v) heap \<Rightarrow> ptr \<Rightarrow> ptr option" where
  "prv h p = map_option e_prev (h p)"

definition wr_next :: "('k, 'v) heap \<Rightarrow> ptr \<Rightarrow> ptr \<Rightarrow> ('k, 'v) heap option" where
  "wr_next h p q = map_option (\<lambda>e. h(p \<mapsto> e\<lparr>e_next := q\<rparr>)) (h p)"

definition wr_prev :: "('k, 'v) heap \<Rightarrow> ptr \<Rightarrow> ptr \<Rightarrow> ('k, 'v) heap option" where
  "wr_prev h p q = map_option (\<lambda>e. h(p \<mapsto> e\<lparr>e_prev := q\<rparr>)) (h p)"

definition wr_value :: "('k, 'v) heap \<Rightarrow> ptr \<Rightarrow> 'v \<Rightarrow> ('k, 'v) heap option" where
  "wr_value h p v = map_option (\<lambda>e. h(p \<mapsto> e\<lparr>e_value := v\<rparr>)) (h p)"

section \<open>Operations\<close>

definition entrySize :: "('k, 'v) cache \<Rightarrow> 'k \<Rightarrow> 'v \<Rightarrow> int" where
  "entrySize c k v = (case EntrySize c of None \<Rightarrow> 1 | Some f \<Rightarrow> f k v)"

definition newAtFront :: "('k, 'v) cache \<Rightarrow> 'k \<Rightarrow> 'v \<Rightarrow> (ptr \<times> ('k, 'v) cache) option" where
  "newAtFront c key value =
     (let ret = fresh c in
      case head c of
        None \<Rightarrow>
          Some (ret, c\<lparr>heap := (heap c)(ret \<mapsto> \<lparr>e_prev = ret, e_next = ret, e_key = key, e_value = value\<rparr>),
                       head := Some ret, fresh := Suc ret\<rparr>)
      | Some hd0 \<Rightarrow> do {
          t \<leftarrow> prv (heap c) hd0;
          let h = (heap c)(ret \<mapsto> \<lparr>e_prev = t, e_next = hd0, e_key = key, e_value = value\<rparr>);
          t \<leftarrow> prv h hd0;
          h \<leftarrow> wr_next h t ret;
          h \<leftarrow> wr_prev h hd0 ret;
          Some (ret, c\<lparr>heap := h, head := Some ret, fresh := Suc ret\<rparr>)
        })"

definition moveToFront :: "('k, 'v) cache \<Rightarrow> ptr \<Rightarrow> ('k, 'v) cache option" where
  "moveToFront c ent =
     (if head c = Some ent then Some c
      else do {
        let h = heap c;
        p \<leftarrow> prv h ent; n \<leftarrow> nxt h ent;
        h \<leftarrow> wr_next h p n;
        p \<leftarrow> prv h ent; n \<leftarrow> nxt h ent;
        h \<leftarrow> wr_prev h n p;
        hd0 \<leftarrow> head c;
        t \<leftarrow> prv h hd0;
        h \<leftarrow> wr_prev h ent t;
        h \<leftarrow> wr_next h ent hd0;
        t \<leftarrow> prv h hd0;
        h \<leftarrow> wr_next h t ent;
        h \<leftarrow> wr_prev h hd0 ent;
        Some (c\<lparr>heap := h, head := Some ent\<rparr>)
      })"

definition deleteElement :: "('k, 'v) cache \<Rightarrow> ptr \<Rightarrow> ('k, 'v) cache option" where
  "deleteElement c ent = do {
     n \<leftarrow> nxt (heap c) ent;
     c \<leftarrow> (if n = ent then Some (c\<lparr>head := None\<rparr>)
          else do {
            p \<leftarrow> prv (heap c) ent;
            h \<leftarrow> wr_prev (heap c) n p;
            p \<leftarrow> prv h ent; n \<leftarrow> nxt h ent;
            h \<leftarrow> wr_next h p n;
            n \<leftarrow> nxt h ent;
            Some (c\<lparr>heap := h, head := (if head c = Some ent then Some n else head c)\<rparr>)
          });
     e \<leftarrow> heap c ent;
     Some (c\<lparr>lookup := AList.delete (e_key e) (lookup c),
             curSize := i64 (curSize c - entrySize c (e_key e) (e_value e))\<rparr>)
   }"

definition deleteOldest :: "('k, 'v) cache \<Rightarrow> ('k, 'v) cache option" where
  "deleteOldest c = do { hd0 \<leftarrow> head c; t \<leftarrow> prv (heap c) hd0; deleteElement c t }"

partial_function (option) evict_loop :: "('k, 'v) cache \<Rightarrow> ('k, 'v) cache option" where
  "evict_loop c =
     (if MaxSize c \<noteq> 0 \<and> curSize c > MaxSize c
      then do { c \<leftarrow> deleteOldest c; evict_loop c } else Some c)"

definition lru_Set :: "('k, 'v) cache \<Rightarrow> 'k \<Rightarrow> 'v \<Rightarrow> ('k, 'v) cache option" where
  "lru_Set c key value = do {
     c \<leftarrow> (case map_of (lookup c) key of
            Some ent \<Rightarrow> do {
              c \<leftarrow> moveToFront c ent;
              e \<leftarrow> heap c ent;
              let c = c\<lparr>curSize := i64 (curSize c - entrySize c key (e_value e))\<rparr>;
              h \<leftarrow> wr_value (heap c) ent value;
              Some (c\<lparr>heap := h\<rparr>)
            }
          | None \<Rightarrow> do {
              (ent, c) \<leftarrow> newAtFront c key value;
              Some (c\<lparr>lookup := AList.update key ent (lookup c)\<rparr>)
            });
     evict_loop (c\<lparr>curSize := i64 (curSize c + entrySize c key value)\<rparr>)
   }"

definition lru_Clear :: "('k, 'v) cache \<Rightarrow> ('k, 'v) cache" where
  "lru_Clear c = c\<lparr>head := None, lookup := [], curSize := 0\<rparr>"

text \<open>
  A lookup returns the value or nothing, and the cache: a hit moves the entry to the front.
\<close>

definition lru_GetOk :: "('k, 'v) cache \<Rightarrow> 'k \<Rightarrow> ('v option \<times> ('k, 'v) cache) option" where
  "lru_GetOk c key =
     (case map_of (lookup c) key of
        Some ent \<Rightarrow> do { c \<leftarrow> moveToFront c ent; e \<leftarrow> heap c ent; Some (Some (e_value e), c) }
      | None \<Rightarrow> Some (None, c))"

definition lru_Get :: "'v \<Rightarrow> ('k, 'v) cache \<Rightarrow> 'k \<Rightarrow> ('v \<times> ('k, 'v) cache) option" where
  "lru_Get zero c key = do { (v, c) \<leftarrow> lru_GetOk c key; Some (case v of None \<Rightarrow> zero | Some x \<Rightarrow> x, c) }"

definition lru_Contains :: "('k, 'v) cache \<Rightarrow> 'k \<Rightarrow> (bool \<times> ('k, 'v) cache) option" where
  "lru_Contains c key = do { (v, c) \<leftarrow> lru_GetOk c key; Some (v \<noteq> None, c) }"

definition lru_PeekOk :: "('k, 'v) cache \<Rightarrow> 'k \<Rightarrow> 'v option option" where
  "lru_PeekOk c key =
     (case map_of (lookup c) key of
        Some ent \<Rightarrow> do { e \<leftarrow> heap c ent; Some (Some (e_value e)) }
      | None \<Rightarrow> Some None)"

definition lru_Delete :: "('k, 'v) cache \<Rightarrow> 'k \<Rightarrow> ('k, 'v) cache option" where
  "lru_Delete c key =
     (case map_of (lookup c) key of Some ent \<Rightarrow> deleteElement c ent | None \<Rightarrow> Some c)"

definition lru_DeleteOldest :: "('k, 'v) cache \<Rightarrow> (('k \<times> 'v) option \<times> ('k, 'v) cache) option" where
  "lru_DeleteOldest c =
     (case head c of
        None \<Rightarrow> Some (None, c)
      | Some hd0 \<Rightarrow> do {
          t \<leftarrow> prv (heap c) hd0;
          e \<leftarrow> heap c t;
          c \<leftarrow> deleteOldest c;
          Some (Some (e_key e, e_value e), c)
        })"

definition lru_Len :: "('k, 'v) cache \<Rightarrow> nat" where
  "lru_Len c = length (lookup c)"

definition lru_Size :: "('k, 'v) cache \<Rightarrow> int" where
  "lru_Size c = curSize c"

text \<open>\<^verbatim>\<open>ForEach\<close>: the pairs the callback is given, in order.\<close>

partial_function (option) forEach_loop ::
  "('k, 'v) heap \<Rightarrow> ptr \<Rightarrow> ptr \<Rightarrow> ('k \<times> 'v) list \<Rightarrow> ('k \<times> 'v) list option" where
  "forEach_loop h hd0 cur acc = do {
     e \<leftarrow> h cur;
     let acc = acc @ [(e_key e, e_value e)];
     if e_next e = hd0 then Some acc else forEach_loop h hd0 (e_next e) acc
   }"

definition lru_ForEach :: "('k, 'v) cache \<Rightarrow> ('k \<times> 'v) list option" where
  "lru_ForEach c =
     (case head c of None \<Rightarrow> Some [] | Some hd0 \<Rightarrow> forEach_loop (heap c) hd0 hd0 [])"

section \<open>Rings in the heap\<close>

definition un :: "('k, 'v) heap \<Rightarrow> ptr \<Rightarrow> ptr \<Rightarrow> ('k, 'v) heap" where
  "un h p q = h(p := map_option (\<lambda>e. e\<lparr>e_next := q\<rparr>) (h p))"

definition up :: "('k, 'v) heap \<Rightarrow> ptr \<Rightarrow> ptr \<Rightarrow> ('k, 'v) heap" where
  "up h p q = h(p := map_option (\<lambda>e. e\<lparr>e_prev := q\<rparr>) (h p))"

definition kv :: "('k, 'v) heap \<Rightarrow> ptr \<Rightarrow> 'k \<times> 'v" where
  "kv h p = (e_key (the (h p)), e_value (the (h p)))"

named_theorems ring_simps \<open>reads after pointer writes\<close>

lemma wr_next_eq [ring_simps]: "wr_next h p q = (if h p = None then None else Some (un h p q))"
  by (auto simp: wr_next_def un_def)

lemma wr_prev_eq [ring_simps]: "wr_prev h p q = (if h p = None then None else Some (up h p q))"
  by (auto simp: wr_prev_def up_def)

lemma nxt_un [ring_simps]: "nxt (un h p q) x = (if x = p \<and> h p \<noteq> None then Some q else nxt h x)"
  by (auto simp: nxt_def un_def)

lemma nxt_up [ring_simps]: "nxt (up h p q) x = nxt h x"
  by (auto simp: nxt_def up_def option.map_comp comp_def)

lemma prv_up [ring_simps]: "prv (up h p q) x = (if x = p \<and> h p \<noteq> None then Some q else prv h x)"
  by (auto simp: prv_def up_def)

lemma prv_un [ring_simps]: "prv (un h p q) x = prv h x"
  by (auto simp: prv_def un_def option.map_comp comp_def)

lemma un_None [ring_simps]: "un h p q x = None \<longleftrightarrow> h x = None"
  by (auto simp: un_def)

lemma up_None [ring_simps]: "up h p q x = None \<longleftrightarrow> h x = None"
  by (auto simp: up_def)

lemma kv_un [ring_simps]: "kv (un h p q) x = kv h x"
  by (cases "h p") (auto simp: kv_def un_def)

lemma kv_up [ring_simps]: "kv (up h p q) x = kv h x"
  by (cases "h p") (auto simp: kv_def up_def)

definition lnk :: "('k, 'v) heap \<Rightarrow> ptr \<Rightarrow> ptr \<Rightarrow> bool" where
  "lnk h a b \<longleftrightarrow> nxt h a = Some b \<and> prv h b = Some a"

definition ring :: "('k, 'v) heap \<Rightarrow> ptr list \<Rightarrow> bool" where
  "ring h ps \<longleftrightarrow> ps \<noteq> [] \<and> distinct ps \<and> successively (lnk h) ps \<and> lnk h (last ps) (hd ps)"

lemma ring_rotate: "ring h (xs @ ys) \<Longrightarrow> ring h (ys @ xs)"
  by (cases "xs = []"; cases "ys = []") (auto simp: ring_def successively_append_iff)

lemma lnk_in_heap: "lnk h a b \<Longrightarrow> h a \<noteq> None \<and> h b \<noteq> None"
  by (auto simp: lnk_def nxt_def prv_def)

lemma ring_in_heap:
  assumes "ring h ps" "p \<in> set ps"
  shows "h p \<noteq> None"
proof -
  from assms(2) obtain xs ys where ps: "ps = xs @ p # ys" by (meson split_list)
  with ring_rotate [of h xs "p # ys"] assms have "ring h (p # ys @ xs)" by simp
  then show ?thesis by (auto simp: ring_def dest: lnk_in_heap)
qed

lemma ring_ends:
  "ring h ps \<Longrightarrow> prv h (hd ps) = Some (last ps) \<and> nxt h (last ps) = Some (hd ps)"
  by (simp add: ring_def lnk_def)

lemma ring_single: "ring h [p] \<longleftrightarrow> lnk h p p"
  by (simp add: ring_def)

lemma successively_lnk_frame:
  assumes "successively (lnk h) ps" "distinct ps"
    and "\<And>a. a \<in> set (butlast ps) \<Longrightarrow> nxt h' a = nxt h a"
    and "\<And>b. b \<in> set (tl ps) \<Longrightarrow> prv h' b = prv h b"
  shows "successively (lnk h') ps"
  using assms
proof (induction ps)
  case (Cons a ps)
  show ?case
  proof (cases ps)
    case (Cons b qs)
    have "successively (lnk h') ps"
      using Cons.prems Cons local.Cons by (intro Cons.IH) auto
    with Cons.prems Cons show ?thesis by (auto simp: lnk_def)
  qed simp
qed simp

lemma ring_unlink:
  assumes "ring h (e # qs)" "qs \<noteq> []"
  shows "nxt h e = Some (hd qs)" "prv h e = Some (last qs)" "ring (up (un h (last qs) (hd qs)) (hd qs) (last qs)) qs"
proof -
  from assms have s: "lnk h e (hd qs)" "lnk h (last qs) e" "successively (lnk h) qs" "distinct qs"
    by (cases qs; auto simp: ring_def)+
  then show "nxt h e = Some (hd qs)" "prv h e = Some (last qs)" by (simp_all add: lnk_def)
  have heap: "h (hd qs) \<noteq> None" "h (last qs) \<noteq> None"
    using s(1,2) by (auto dest: lnk_in_heap)
  have "last qs \<notin> set (butlast qs)" "hd qs \<notin> set (tl qs)"
    using s(4) assms(2) by (metis append_butlast_last_id distinct_append disjoint_insert(1) list.set(2))
      (metis assms(2) distinct.simps(2) list.collapse s(4))
  then have "successively (lnk (up (un h (last qs) (hd qs)) (hd qs) (last qs))) qs"
    using s by (intro successively_lnk_frame [OF s(3)]) (auto simp: ring_simps)
  with s(4) assms(2) heap show "ring (up (un h (last qs) (hd qs)) (hd qs) (last qs)) qs"
    by (auto simp: ring_def lnk_def ring_simps)
qed

lemma ring_insert:
  assumes "ring h qs" "e \<notin> set qs" "h e \<noteq> None"
    and e: "nxt h e = Some (hd qs)" "prv h e = Some (last qs)"
  shows "ring (up (un h (last qs) e) (hd qs) e) (e # qs)"
proof -
  from assms(1) have s: "qs \<noteq> []" "distinct qs" "successively (lnk h) qs" "lnk h (last qs) (hd qs)"
    by (auto simp: ring_def)
  have heap: "h (hd qs) \<noteq> None" "h (last qs) \<noteq> None"
    using s(4) by (auto dest: lnk_in_heap)
  have nin: "last qs \<notin> set (butlast qs)" "hd qs \<notin> set (tl qs)" "last qs \<noteq> e" "hd qs \<noteq> e"
    using s assms(2) by (metis append_butlast_last_id distinct_append disjoint_insert(1) list.set(2))
      (metis distinct.simps(2) list.collapse s(1,2), metis s(1) assms(2) last_in_set,
       metis s(1) assms(2) hd_in_set)
  have "successively (lnk (up (un h (last qs) e) (hd qs) e)) qs"
    using nin s by (intro successively_lnk_frame [OF s(3)]) (auto simp: ring_simps)
  with s nin assms heap show ?thesis
    by (cases qs) (auto simp: ring_def lnk_def ring_simps)
qed

lemma ring_off:
  assumes "ring h qs" "e \<notin> set qs"
  shows "ring (un (up h e a) e b) qs"
proof -
  from assms have "last qs \<noteq> e" "hd qs \<noteq> e" by (auto simp: ring_def)
  moreover have "successively (lnk (un (up h e a) e b)) qs"
  proof (rule successively_lnk_frame [of h])
    show "successively (lnk h) qs" "distinct qs" using assms(1) by (simp_all add: ring_def)
    show "nxt (un (up h e a) e b) x = nxt h x" if "x \<in> set (butlast qs)" for x
      using in_set_butlastD [OF that] assms(2) by (auto simp: ring_simps)
    show "prv (un (up h e a) e b) x = prv h x" if "x \<in> set (tl qs)" for x
      using that assms(2) by (cases qs) (auto simp: ring_simps)
  qed
  ultimately show ?thesis
    using assms(1) by (auto simp: ring_def lnk_def ring_simps)
qed

lemma ring_push:
  assumes "ring h qs" "e \<notin> set qs" "h e \<noteq> None"
  shows "ring (up (un (un (up h e (last qs)) e (hd qs)) (last qs) e) (hd qs) e) (e # qs)"
  using assms by (intro ring_insert ring_off) (auto simp: ring_simps)

section \<open>Representation\<close>

text \<open>
  \<open>lru_rep c ps\<close>: the ring starting at the head of \<open>c\<close> is \<open>ps\<close>, most recently used first, and
  the key map and the running size agree with it.
\<close>

definition sizes :: "('k, 'v) cache \<Rightarrow> ('k \<times> 'v) list \<Rightarrow> int" where
  "sizes c xs = sum_list (map (\<lambda>(k, v). entrySize c k v) xs)"

definition key_index :: "('k, 'v) heap \<Rightarrow> ptr list \<Rightarrow> ('k \<times> ptr) list" where
  "key_index h ps = map (\<lambda>p. (fst (kv h p), p)) ps"

definition lru_rep :: "('k, 'v) cache \<Rightarrow> ptr list \<Rightarrow> bool" where
  "lru_rep c ps \<longleftrightarrow>
     head c = (if ps = [] then None else Some (hd ps)) \<and>
     (ps \<noteq> [] \<longrightarrow> ring (heap c) ps) \<and>
     (\<forall>p. heap c p \<noteq> None \<longrightarrow> p < fresh c) \<and>
     distinct (map fst (lookup c)) \<and> distinct (map (\<lambda>p. fst (kv (heap c) p)) ps) \<and>
     map_of (lookup c) = map_of (key_index (heap c) ps) \<and>
     curSize c = i64 (sizes c (map (kv (heap c)) ps))"

fun walk :: "('k, 'v) heap \<Rightarrow> nat \<Rightarrow> ptr \<Rightarrow> ptr list" where
  "walk h 0 p = []"
| "walk h (Suc n) p = p # walk h n (the (nxt h p))"

definition entries :: "('k, 'v) cache \<Rightarrow> ('k \<times> 'v) list" where
  "entries c = (case head c of None \<Rightarrow> []
     | Some p \<Rightarrow> map (kv (heap c)) (walk (heap c) (length (lookup c)) p))"

definition lru_inv :: "('k, 'v) cache \<Rightarrow> bool" where
  "lru_inv c \<longleftrightarrow> (\<exists>ps. lru_rep c ps)"

lemma walk_ring:
  "successively (lnk h) (p # ps) \<Longrightarrow> walk h (Suc (length ps)) p = p # ps"
  by (induction ps arbitrary: p) (auto simp: lnk_def)

lemma map_of_key_index:
  "distinct (map (\<lambda>p. fst (kv h p)) ps) \<Longrightarrow>
   map_of (key_index h ps) k = Some p \<longleftrightarrow> p \<in> set ps \<and> fst (kv h p) = k"
  by (subst map_of_eq_Some_iff) (auto simp: key_index_def comp_def)

lemma lru_rep_lookup:
  "lru_rep c ps \<Longrightarrow> map_of (lookup c) k = Some p \<longleftrightarrow> p \<in> set ps \<and> fst (kv (heap c) p) = k"
  by (simp add: lru_rep_def map_of_key_index)

lemma lru_rep_length: "lru_rep c ps \<Longrightarrow> length (lookup c) = length ps"
proof -
  assume r: "lru_rep c ps"
  have "length (lookup c) = card (dom (map_of (lookup c)))"
    using distinct_card [of "map fst (lookup c)"] r [unfolded lru_rep_def]
    unfolding dom_map_of_conv_image_fst by simp
  also have "\<dots> = card (set (map (\<lambda>p. fst (kv (heap c) p)) ps))"
    using r by (auto simp: lru_rep_def key_index_def dom_map_of_conv_image_fst image_image)
  also have "\<dots> = length ps"
    using r by (subst distinct_card) (auto simp: lru_rep_def)
  finally show ?thesis .
qed

lemma lru_rep_entries: "lru_rep c ps \<Longrightarrow> entries c = map (kv (heap c)) ps"
proof (cases ps)
  case (Cons p qs)
  assume r: "lru_rep c ps"
  with Cons have "successively (lnk (heap c)) (p # qs)" by (auto simp: lru_rep_def ring_def)
  from walk_ring [OF this] show ?thesis
    using r Cons lru_rep_length [OF r] by (simp add: entries_def lru_rep_def)
qed (simp add: lru_rep_def entries_def)

lemma lru_rep_heap: "lru_rep c ps \<Longrightarrow> p \<in> set ps \<Longrightarrow> heap c p \<noteq> None"
  by (cases "ps = []") (auto simp: lru_rep_def dest!: ring_in_heap)

lemma lru_rep_distinct: "lru_rep c ps \<Longrightarrow> distinct ps"
  by (auto simp: lru_rep_def distinct_map)

text \<open>The abstract list operations the ring operations implement.\<close>

definition to_front :: "ptr \<Rightarrow> ptr list \<Rightarrow> ptr list" where
  "to_front p ps = p # remove1 p ps"

lemma sizes_perm: "mset xs = mset ys \<Longrightarrow> sizes c xs = sizes c ys"
  by (metis (no_types, lifting) mset_map sizes_def sum_mset_sum_list)

lemma map_of_perm:
  assumes "distinct (map fst xs)" "mset xs = mset ys"
  shows "map_of xs = map_of ys"
proof -
  from assms(2) have "mset (map fst xs) = mset (map fst ys)" by (metis mset_map)
  with assms(1) have "distinct (map fst ys)" by (rule mset_eq_imp_distinct_iff [THEN iffD1, rotated])
  with assms show ?thesis
    by (subst map_of_inject_set) (auto dest: mset_eq_setD)
qed

lemma moveToFront_heap:
  assumes "ring (heap c) ps" "head c = Some (hd ps)" "ent \<in> set ps"
  obtains h where "moveToFront c ent = Some (c\<lparr>heap := h, head := Some ent\<rparr>)"
    "ring h (to_front ent ps)" "\<And>p. kv h p = kv (heap c) p" "\<And>p. h p = None \<longleftrightarrow> heap c p = None"
proof (cases "head c = Some ent")
  case True
  with assms have "to_front ent ps = ps" by (cases ps) (auto simp: to_front_def ring_def)
  with True assms that [of "heap c"] show ?thesis
    by (simp add: moveToFront_def)
next
  case False
  from assms(3) obtain xs ys where ps: "ps = xs @ ent # ys" and nin: "ent \<notin> set xs"
    by (meson split_list_first)
  with False assms(2) have xs: "xs \<noteq> []" by auto
  define qs h0 where "qs = ys @ xs" and "h0 = heap c"
  have r0: "ring h0 (ent # qs)"
    using assms(1) ring_rotate [of h0 xs "ent # ys"] ps by (simp add: qs_def h0_def)
  have qs: "qs \<noteq> []" "ent \<notin> set qs" using xs r0 by (auto simp: ring_def qs_def)
  note u = ring_unlink [OF r0 qs(1)]
  define h1 where "h1 = up (un h0 (last qs) (hd qs)) (hd qs) (last qs)"
  have r1: "ring h1 (xs @ ys)" using u(3) ring_rotate by (simp add: h1_def qs_def)
  have hd: "hd (xs @ ys) = hd xs" "hd ps = hd xs" using xs ps by simp_all
  define t where "t = last (xs @ ys)"
  have t: "prv h1 (hd xs) = Some t" using ring_ends [OF r1] hd by (simp add: t_def)
  have mem: "hd xs \<in> set qs" "t \<in> set qs" "hd qs \<in> set qs" "last qs \<in> set qs"
    using xs last_in_set [of "xs @ ys"] hd_in_set [OF qs(1)] last_in_set [OF qs(1)]
    by (auto simp: qs_def t_def)
  have in0: "h0 p \<noteq> None" if "p \<in> set (ent # qs)" for p using ring_in_heap [OF r0 that] .
  have ne: "p \<noteq> ent" if "p \<in> set qs" for p using that qs(2) by auto
  have in1: "h1 p \<noteq> None" if "p \<in> set (ent # qs)" for p
    using in0 [OF that] by (simp add: h1_def ring_simps)
  let ?h3 = "up (un (un (up h1 ent t) ent (hd xs)) t ent) (hd xs) ent"
  have r3: "ring ?h3 (ent # xs @ ys)"
    using ring_push [OF r1, of ent] qs(2) in1 hd by (auto simp: t_def qs_def)
  have s1: "do { h \<leftarrow> wr_next h0 (last qs) (hd qs); p \<leftarrow> prv h ent; n \<leftarrow> nxt h ent; wr_prev h n p } = Some h1"
    using in0 mem ne u(1,2) by (simp add: ring_simps h1_def)
  have "moveToFront c ent = Some (c\<lparr>heap := ?h3, head := Some ent\<rparr>)"
    using False u(1,2) s1 in1 mem ne t assms(2) hd
    by (simp add: moveToFront_def Let_def h0_def ring_simps flip: bind_assoc)
  moreover have "to_front ent ps = ent # xs @ ys"
    using nin ps by (simp add: to_front_def remove1_append)
  ultimately show ?thesis
    using that [of ?h3] r3 by (simp add: ring_simps h1_def h0_def)
qed

definition same_params :: "('k, 'v) cache \<Rightarrow> ('k, 'v) cache \<Rightarrow> bool" where
  "same_params c c' \<longleftrightarrow> MaxSize c' = MaxSize c \<and> EntrySize c' = EntrySize c"

lemma sizes_params: "same_params c c' \<Longrightarrow> sizes c' = sizes c"
  by (simp add: same_params_def sizes_def entrySize_def fun_eq_iff)

lemma entrySize_params: "same_params c c' \<Longrightarrow> entrySize c' = entrySize c"
  by (simp add: same_params_def entrySize_def fun_eq_iff)

lemma key_index_cong: "(\<And>p. p \<in> set ps \<Longrightarrow> kv h' p = kv h p) \<Longrightarrow> key_index h' ps = key_index h ps"
  by (simp add: key_index_def)

lemma mset_to_front: "ent \<in> set ps \<Longrightarrow> mset (to_front ent ps) = mset ps"
  by (simp add: to_front_def)

lemma distinct_keys_perm:
  "mset ps = mset qs \<Longrightarrow> distinct (map f ps) \<longleftrightarrow> distinct (map f qs)"
  by (metis mset_eq_imp_distinct_iff mset_map)

lemma key_index_perm:
  assumes "mset ps = mset qs" "distinct (map (\<lambda>p. fst (kv h p)) ps)"
  shows "map_of (key_index h ps) = map_of (key_index h qs)"
proof (rule map_of_perm)
  show "distinct (map fst (key_index h ps))" using assms(2) by (simp add: key_index_def comp_def)
  show "mset (key_index h ps) = mset (key_index h qs)"
    using assms(1) unfolding key_index_def by (metis mset_map)
qed

lemma rep_moveToFront:
  assumes r: "lru_rep c ps" and e: "ent \<in> set ps"
  obtains c' where "moveToFront c ent = Some c'" "lru_rep c' (to_front ent ps)" "same_params c c'"
    "kv (heap c') = kv (heap c)"
proof -
  from r e have ring: "ring (heap c) ps" "head c = Some (hd ps)" by (auto simp: lru_rep_def)
  obtain h where h: "moveToFront c ent = Some (c\<lparr>heap := h, head := Some ent\<rparr>)"
    "ring h (to_front ent ps)" "\<And>p. kv h p = kv (heap c) p" "\<And>p. h p = None \<longleftrightarrow> heap c p = None"
    using moveToFront_heap [OF ring e] by blast
  let ?c = "c\<lparr>heap := h, head := Some ent\<rparr>"
  have m: "mset (to_front ent ps) = mset ps" using mset_to_front [OF e] .
  have sp: "same_params c ?c" by (simp add: same_params_def)
  have "mset (map (kv (heap c)) (to_front ent ps)) = mset (map (kv (heap c)) ps)"
    using m by (metis mset_map)
  then have sz: "sizes c (map (kv (heap c)) (to_front ent ps)) = sizes c (map (kv (heap c)) ps)"
    by (rule sizes_perm)
  have dk: "distinct (map (\<lambda>p. fst (kv (heap c) p)) (to_front ent ps))"
    using r distinct_keys_perm [OF m] by (auto simp: lru_rep_def)
  have "map_of (lookup c) = map_of (key_index h (to_front ent ps))"
    using r key_index_perm [OF m dk] h(3) by (simp add: lru_rep_def key_index_def)
  moreover have "kv h = kv (heap c)" using h(3) by (rule ext)
  ultimately have "lru_rep ?c (to_front ent ps)"
    using r h dk sz sizes_params [OF sp] by (simp add: lru_rep_def to_front_def)
  with h(1,3) sp that [of ?c] show ?thesis by (simp add: fun_eq_iff)
qed

lemma deleteElement_heap:
  fixes c :: "('k, 'v) cache"
  assumes "ring (heap c) ps" "head c = Some (hd ps)" "ent \<in> set ps"
  obtains c1 :: "('k, 'v) cache" and e :: "('k, 'v) entry" where
    "deleteElement c ent = Some (c1\<lparr>lookup := AList.delete (e_key e) (lookup c),
       curSize := i64 (curSize c - entrySize c (e_key e) (e_value e))\<rparr>)"
    "kv (heap c) ent = (e_key e, e_value e)" "same_params c c1"
    "head c1 = (if remove1 ent ps = [] then None else Some (hd (remove1 ent ps)))"
    "remove1 ent ps \<noteq> [] \<longrightarrow> ring (heap c1) (remove1 ent ps)"
    "kv (heap c1) = kv (heap c)" "\<forall>p. heap c1 p = None \<longleftrightarrow> heap c p = None"
    "fresh c1 = fresh c"
proof -
  from assms(3) obtain xs ys where ps: "ps = xs @ ent # ys" and nin: "ent \<notin> set xs"
    by (meson split_list_first)
  have rem: "remove1 ent ps = xs @ ys" using ps nin by (simp add: remove1_append)
  have r0: "ring (heap c) (ent # ys @ xs)" using assms(1) ring_rotate [of "heap c" xs "ent # ys"] ps by simp
  obtain e0 where e0: "heap c ent = Some e0" using ring_in_heap [OF assms(1,3)] by auto
  show ?thesis
  proof (cases "ys @ xs = []")
    case True
    with r0 have "nxt (heap c) ent = Some ent" by (simp add: ring_single lnk_def)
    then have "deleteElement c ent = Some ((c\<lparr>head := None\<rparr>)\<lparr>lookup := AList.delete (e_key e0) (lookup c),
         curSize := i64 (curSize c - entrySize c (e_key e0) (e_value e0))\<rparr>)"
      using e0 by (simp add: deleteElement_def entrySize_def)
    then show ?thesis
      by (rule that) (use True rem e0 in \<open>simp_all add: kv_def same_params_def\<close>)
  next
    case False
    define qs where "qs = ys @ xs"
    note u = ring_unlink [OF r0 False, folded qs_def]
    have qs: "qs \<noteq> []" "ent \<notin> set qs" using False r0 by (auto simp: qs_def ring_def)
    have mem: "hd qs \<in> set qs" "last qs \<in> set qs" using qs by simp_all
    have ne: "hd qs \<noteq> ent" "last qs \<noteq> ent" using mem qs(2) by metis+
    have inh: "heap c (hd qs) \<noteq> None" "heap c (last qs) \<noteq> None"
      using ring_in_heap [OF r0] mem by (auto simp: qs_def)
    define h1 where "h1 = up (un (heap c) (last qs) (hd qs)) (hd qs) (last qs)"
    have comm: "un (up (heap c) (hd qs) (last qs)) (last qs) (hd qs) = h1"
      by (rule ext, cases "heap c (hd qs)") (auto simp: h1_def un_def up_def option.map_comp comp_def)
    have e1: "h1 ent = Some e0" using e0 ne by (simp add: h1_def un_def up_def)
    have n1: "nxt h1 ent = Some (hd qs)" using u(1) ne by (simp add: h1_def ring_simps)
    define hd1 where "hd1 = (if head c = Some ent then Some (hd qs) else head c)"
    have r1: "ring h1 (xs @ ys)" using u(3) ring_rotate by (simp add: h1_def qs_def)
    have "deleteElement c ent = Some ((c\<lparr>heap := h1, head := hd1\<rparr>)
        \<lparr>lookup := AList.delete (e_key e0) (lookup c),
         curSize := i64 (curSize c - entrySize c (e_key e0) (e_value e0))\<rparr>)"
      using u(1,2) ne inh e1 n1 comm
      by (simp add: deleteElement_def ring_simps hd1_def entrySize_def)
    moreover have "hd1 = Some (hd (xs @ ys))"
      using assms(2) ps nin False ne by (cases xs) (auto simp: hd1_def qs_def)
    ultimately have "deleteElement c ent = Some ((c\<lparr>heap := h1, head := Some (hd (xs @ ys))\<rparr>)
        \<lparr>lookup := AList.delete (e_key e0) (lookup c),
         curSize := i64 (curSize c - entrySize c (e_key e0) (e_value e0))\<rparr>)" by simp
    moreover have "kv h1 = kv (heap c)" "\<forall>p. h1 p = None \<longleftrightarrow> heap c p = None"
      by (simp_all add: h1_def ring_simps fun_eq_iff)
    ultimately show ?thesis
      by (intro that [of e0 "c\<lparr>heap := h1, head := Some (hd (xs @ ys))\<rparr>"])
        (use rem r1 e0 False in \<open>auto simp: same_params_def kv_def [of "heap c" ent]\<close>)
  qed
qed

lemma sizes_Cons [simp]: "sizes c (x # xs) = entrySize c (fst x) (snd x) + sizes c xs"
  by (simp add: sizes_def case_prod_beta)

lemma sizes_Nil [simp]: "sizes c [] = 0"
  by (simp add: sizes_def)

lemma key_index_remove1:
  assumes "distinct (map (\<lambda>p. fst (kv h p)) ps)" "ent \<in> set ps" "fst (kv h ent) = k"
  shows "map_of (key_index h (remove1 ent ps)) = (map_of (key_index h ps))(k := None)"
proof (rule ext)
  fix x
  have d: "distinct ps" using assms(1) by (simp add: distinct_map)
  then have d': "distinct (map (\<lambda>p. fst (kv h p)) (remove1 ent ps))"
    using assms(1) by (auto simp: distinct_map inj_on_def)
  have inj: "p = ent" if "p \<in> set ps" "fst (kv h p) = k" for p
    using assms that by (auto simp: distinct_map inj_on_def)
  have "map_of (key_index h (remove1 ent ps)) x = Some p \<longleftrightarrow> ((map_of (key_index h ps))(k := None)) x = Some p" for p
    using map_of_key_index [OF d', of x p] map_of_key_index [OF assms(1), of x p] d inj assms(3) by auto
  then show "map_of (key_index h (remove1 ent ps)) x = ((map_of (key_index h ps))(k := None)) x"
    by (rule option_eqI)
qed

lemma rep_deleteElement:
  fixes c :: "('a, 'b) cache"
  assumes r: "lru_rep c ps" and e: "ent \<in> set ps"
  obtains c' where "deleteElement c ent = Some c'" "lru_rep c' (remove1 ent ps)" "same_params c c'"
    "kv (heap c') = kv (heap c)"
proof -
  from r e have ring: "ring (heap c) ps" "head c = Some (hd ps)" by (auto simp: lru_rep_def)
  obtain c1 and e0 :: "('a, 'b) entry" where d:
    "deleteElement c ent = Some (c1\<lparr>lookup := AList.delete (e_key e0) (lookup c),
       curSize := i64 (curSize c - entrySize c (e_key e0) (e_value e0))\<rparr>)"
    "kv (heap c) ent = (e_key e0, e_value e0)" "same_params c c1"
    "head c1 = (if remove1 ent ps = [] then None else Some (hd (remove1 ent ps)))"
    "remove1 ent ps \<noteq> [] \<longrightarrow> ring (heap c1) (remove1 ent ps)"
    "kv (heap c1) = kv (heap c)" "\<forall>p. heap c1 p = None \<longleftrightarrow> heap c p = None"
    "fresh c1 = fresh c" by (rule deleteElement_heap [OF ring e])
  let ?c = "c1\<lparr>lookup := AList.delete (e_key e0) (lookup c),
     curSize := i64 (curSize c - entrySize c (e_key e0) (e_value e0))\<rparr>"
  have sp: "same_params c ?c" using d(3) by (simp add: same_params_def)
  have m: "mset ps = mset (ent # remove1 ent ps)" using e by simp
  have "mset (map (kv (heap c)) ps) = mset (map (kv (heap c)) (ent # remove1 ent ps))"
    using m by (metis mset_map)
  then have "sizes c (map (kv (heap c)) ps) = sizes c (map (kv (heap c)) (ent # remove1 ent ps))"
    by (rule sizes_perm)
  then have sz: "i64 (curSize c - entrySize c (e_key e0) (e_value e0)) = i64 (sizes c (map (kv (heap c)) (remove1 ent ps)))"
    using r d(2) by (simp add: lru_rep_def)
  have dk: "distinct (map (\<lambda>p. fst (kv (heap c) p)) ps)" using r by (simp add: lru_rep_def)
  then have "distinct (map (\<lambda>p. fst (kv (heap c) p)) (remove1 ent ps))"
    by (auto simp: distinct_map inj_on_def)
  moreover have "map_of (AList.delete (e_key e0) (lookup c)) = map_of (key_index (heap c) (remove1 ent ps))"
    using r key_index_remove1 [OF dk e] d(2) by (simp add: lru_rep_def delete_conv')
  ultimately have "lru_rep ?c (remove1 ent ps)"
    using r d sz sizes_params [OF sp]
    by (simp add: lru_rep_def distinct_delete key_index_def)
  with d(1,6) sp that [of ?c] show ?thesis by simp
qed

lemma rep_newAtFront:
  assumes r: "lru_rep c ps" and k: "map_of (lookup c) key = None"
  obtains ent c1 where "newAtFront c key value = Some (ent, c1)" "same_params c c1"
    "lru_rep (c1\<lparr>lookup := AList.update key ent (lookup c1),
        curSize := i64 (curSize c1 + entrySize c1 key value)\<rparr>) (ent # ps)"
    "kv (heap c1) ent = (key, value)" "\<And>p. p \<in> set ps \<Longrightarrow> kv (heap c1) p = kv (heap c) p" "ent \<notin> set ps"
proof -
  let ?ret = "fresh c"
  have nin: "heap c ?ret = None" using r by (auto simp: lru_rep_def)
  then have notin: "?ret \<notin> set ps" using lru_rep_heap [OF r] by blast
  obtain h where n: "newAtFront c key value = Some (?ret, c\<lparr>heap := h, head := Some ?ret, fresh := Suc ?ret\<rparr>)"
    and ring: "ring h (?ret # ps)" and kvr: "kv h ?ret = (key, value)"
    and kvp: "\<And>p. p \<noteq> ?ret \<Longrightarrow> kv h p = kv (heap c) p" "\<And>p. p \<noteq> ?ret \<Longrightarrow> h p = None \<longleftrightarrow> heap c p = None"
  proof (cases "ps = []")
    case True
    with r have "head c = None" by (simp add: lru_rep_def)
    then show ?thesis
      by (intro that [of "(heap c)(?ret \<mapsto> \<lparr>e_prev = ?ret, e_next = ?ret, e_key = key, e_value = value\<rparr>)"])
        (auto simp: newAtFront_def Let_def True ring_single lnk_def nxt_def prv_def kv_def)
  next
    case False
    with r have hd: "head c = Some (hd ps)" and r0: "ring (heap c) ps" by (auto simp: lru_rep_def)
    let ?h = "(heap c)(?ret \<mapsto> \<lparr>e_prev = last ps, e_next = hd ps, e_key = key, e_value = value\<rparr>)"
    have ne: "hd ps \<noteq> ?ret" "last ps \<noteq> ?ret" using notin False hd_in_set last_in_set by metis+
    have same: "nxt ?h p = nxt (heap c) p" "prv ?h p = prv (heap c) p" if "p \<noteq> ?ret" for p
      using that by (simp_all add: nxt_def prv_def)
    have "successively (lnk ?h) ps"
    proof (rule successively_lnk_frame)
      show "successively (lnk (heap c)) ps" "distinct ps" using r0 by (simp_all add: ring_def)
      show "nxt ?h a = nxt (heap c) a" if "a \<in> set (butlast ps)" for a
        using in_set_butlastD [OF that] notin by (intro same) auto
      show "prv ?h a = prv (heap c) a" if "a \<in> set (tl ps)" for a
        using list.set_sel(2) [OF False that] notin by (intro same) auto
    qed
    then have r1: "ring ?h ps" using r0 ne same by (simp add: ring_def lnk_def)
    have "ring (up (un ?h (last ps) ?ret) (hd ps) ?ret) (?ret # ps)"
      by (rule ring_insert [OF r1 notin]) (simp_all add: nxt_def prv_def)
    moreover have "prv (heap c) (hd ps) = Some (last ps)" using ring_ends [OF r0] by simp
    moreover have "heap c (hd ps) \<noteq> None" "heap c (last ps) \<noteq> None"
      using ring_in_heap [OF r0] False by simp_all
    ultimately show ?thesis
      using hd ne same(2) [OF ne(1)]
      by (intro that [of "up (un ?h (last ps) ?ret) (hd ps) ?ret"])
        (auto simp: newAtFront_def Let_def ring_simps, auto simp: kv_def)
  qed
  let ?c1 = "c\<lparr>heap := h, head := Some ?ret, fresh := Suc ?ret\<rparr>"
  have sp: "same_params c ?c1" by (simp add: same_params_def)
  have kvp': "kv h p = kv (heap c) p" if "p \<in> set ps" for p
    using that notin by (intro kvp) auto
  then have kvps: "map (kv h) ps = map (kv (heap c)) ps" by (auto intro!: map_cong)
  from kvp' have ki: "key_index h ps = key_index (heap c) ps" by (rule key_index_cong)
  have knew: "key \<notin> (\<lambda>p. fst (kv h p)) ` set ps"
    using k lru_rep_lookup [OF r, of key] kvp' by auto
  have "distinct (map (\<lambda>p. fst (kv (heap c) p)) ps)" using r by (simp add: lru_rep_def)
  then have dk: "distinct (map (\<lambda>p. fst (kv h p)) ps)" using kvp' by (simp cong: map_cong)
  have "\<forall>p. heap c p \<noteq> None \<longrightarrow> p < ?ret" using r by (simp add: lru_rep_def)
  then have fr: "\<forall>p. h p \<noteq> None \<longrightarrow> p < Suc ?ret" using kvp(2) by (metis less_Suc_eq)
  let ?c2 = "?c1\<lparr>lookup := AList.update key ?ret (lookup ?c1),
        curSize := i64 (curSize ?c1 + entrySize ?c1 key value)\<rparr>"
  have sp2: "same_params c ?c2" by (simp add: same_params_def)
  have "sizes ?c2 (map (kv h) (?ret # ps)) = entrySize c key value + sizes c (map (kv (heap c)) ps)"
    unfolding sizes_params [OF sp2] by (simp add: kvps kvr)
  moreover have "curSize c = i64 (sizes c (map (kv (heap c)) ps))"
    and lk: "map_of (lookup c) = map_of (key_index h ps)" and dl: "distinct (map fst (lookup c))"
    using r ki by (simp_all add: lru_rep_def)
  ultimately have sz: "curSize ?c2 = i64 (sizes ?c2 (map (kv h) (?ret # ps)))"
    by (simp add: entrySize_params [OF sp] add.commute i64_add_right)
  have "map_of (lookup ?c2) = map_of (key_index h (?ret # ps))"
    using lk kvr by (simp add: update_conv' key_index_def)
  then have "lru_rep ?c2 (?ret # ps)"
    using ring kvr knew dk fr dl sz unfolding lru_rep_def by (simp add: distinct_update)
  with n sp kvr kvp' notin that [of ?ret ?c1] show ?thesis by simp
qed

section \<open>The cache as a list of pairs\<close>

text \<open>
  \<open>touch k v xs\<close>: the pair moves (or is added) to the front.  \<open>trim f M xs\<close>: drop the oldest
  pairs while the wrapped total exceeds a non-zero limit.
\<close>

definition touch :: "'k \<Rightarrow> 'v \<Rightarrow> ('k \<times> 'v) list \<Rightarrow> ('k \<times> 'v) list" where
  "touch k v xs = (k, v) # filter (\<lambda>x. fst x \<noteq> k) xs"

function trim :: "('k \<Rightarrow> 'v \<Rightarrow> int) \<Rightarrow> int \<Rightarrow> ('k \<times> 'v) list \<Rightarrow> ('k \<times> 'v) list" where
  "trim f M xs =
     (if xs \<noteq> [] \<and> M \<noteq> 0 \<and> i64 (sum_list (map (\<lambda>(k, v). f k v) xs)) > M
      then trim f M (butlast xs) else xs)"
  by pat_completeness auto
termination by (relation "measure (\<lambda>(f, M, xs). length xs)") auto

declare trim.simps [simp del]

lemma trim_stop: "\<not> (M \<noteq> 0 \<and> i64 (sum_list (map (\<lambda>(k, v). f k v) xs)) > M) \<Longrightarrow> trim f M xs = xs"
  by (subst trim.simps) auto

lemma trim_step:
  "xs \<noteq> [] \<Longrightarrow> M \<noteq> 0 \<Longrightarrow> i64 (sum_list (map (\<lambda>(k, v). f k v) xs)) > M \<Longrightarrow> trim f M xs = trim f M (butlast xs)"
  by (subst trim.simps) simp

lemma trim_prefix: "\<exists>n. trim f M xs = take n xs"
proof (induction xs rule: length_induct)
  case (1 xs)
  show ?case
  proof (cases "xs \<noteq> [] \<and> M \<noteq> 0 \<and> i64 (sum_list (map (\<lambda>(k, v). f k v) xs)) > M")
    case True
    with 1 obtain n where "trim f M (butlast xs) = take n (butlast xs)" by force
    then have "trim f M xs = take (min n (length xs - 1)) xs"
      using True by (subst trim.simps) (simp add: butlast_conv_take)
    then show ?thesis by blast
  next
    case False
    then have "trim f M xs = take (length xs) xs" by (subst trim.simps) auto
    then show ?thesis by blast
  qed
qed

lemma trim_bound:
  assumes "0 \<le> M"
  shows "M = 0 \<or> i64 (sum_list (map (\<lambda>(k, v). f k v) (trim f M xs))) \<le> M"
proof (induction xs rule: length_induct)
  case (1 xs)
  show ?case
  proof (cases "xs \<noteq> [] \<and> M \<noteq> 0 \<and> i64 (sum_list (map (\<lambda>(k, v). f k v) xs)) > M")
    case True
    moreover have "M = 0 \<or> i64 (sum_list (map (\<lambda>(k, v). f k v) (trim f M (butlast xs)))) \<le> M"
      using 1 True by simp
    ultimately show ?thesis by (subst trim.simps) auto
  next
    case False
    with assms show ?thesis by (subst trim.simps) (auto simp: i64_def)
  qed
qed

lemma rep_key_unique:
  assumes "lru_rep c ps" "ent \<in> set ps"
  shows "map (kv (heap c)) (remove1 ent ps) = filter (\<lambda>x. fst x \<noteq> fst (kv (heap c) ent)) (map (kv (heap c)) ps)"
proof -
  have d: "distinct (map (\<lambda>p. fst (kv (heap c) p)) ps)" using assms(1) by (simp add: lru_rep_def)
  have "remove1 ent ps = filter (\<lambda>p. fst (kv (heap c) p) \<noteq> fst (kv (heap c) ent)) ps"
    using d assms(2) lru_rep_distinct [OF assms(1)]
    by (subst distinct_remove1_removeAll) (auto simp: removeAll_filter_not_eq distinct_map inj_on_def intro!: filter_cong)
  then show ?thesis by (simp add: filter_map comp_def)
qed

lemma lookup_entries:
  assumes r: "lru_rep c ps" and p: "map_of (lookup c) k = Some p"
  shows "p \<in> set ps" "kv (heap c) p = (k, snd (kv (heap c) p))" "map_of (entries c) k = Some (snd (kv (heap c) p))"
proof -
  from lru_rep_lookup [OF r] p show p': "p \<in> set ps" and "kv (heap c) p = (k, snd (kv (heap c) p))"
    by (auto simp: prod_eq_iff)
  moreover have "distinct (map fst (entries c))"
    using r by (simp add: lru_rep_entries [OF r] comp_def) (simp add: lru_rep_def)
  ultimately show "map_of (entries c) k = Some (snd (kv (heap c) p))"
    using lru_rep_entries [OF r] by (subst map_of_eq_Some_iff) (auto intro!: image_eqI)
qed

lemma lookup_None_entries:
  assumes r: "lru_rep c ps"
  shows "map_of (lookup c) k = None \<longleftrightarrow> map_of (entries c) k = None"
proof
  assume "map_of (lookup c) k = None"
  then have "\<forall>p \<in> set ps. fst (kv (heap c) p) \<noteq> k" using lru_rep_lookup [OF r, of k] by auto
  then show "map_of (entries c) k = None"
    by (auto simp: lru_rep_entries [OF r] map_of_eq_None_iff)
next
  assume "map_of (entries c) k = None"
  then show "map_of (lookup c) k = None"
    using lookup_entries(3) [OF r, of k] by (cases "map_of (lookup c) k") auto
qed

lemma rep_inv: "lru_rep c ps \<Longrightarrow> lru_inv c"
  by (auto simp: lru_inv_def)

lemma inv_rep: "lru_inv c \<Longrightarrow> \<exists>ps. lru_rep c ps \<and> entries c = map (kv (heap c)) ps"
  using lru_rep_entries by (auto simp: lru_inv_def)

lemma rep_wr_value:
  assumes r: "lru_rep c (ent # ps)" and k: "kv (heap c) ent = (k, v0)"
  obtains h where "wr_value (heap c) ent v = Some h"
    "lru_rep (c\<lparr>heap := h, curSize := i64 (i64 (curSize c - entrySize c k v0) + entrySize c k v)\<rparr>) (ent # ps)"
    "kv h = (kv (heap c))(ent := (k, v))"
proof -
  obtain e where e: "heap c ent = Some e" using lru_rep_heap [OF r, of ent] by auto
  define h where "h = (heap c)(ent \<mapsto> e\<lparr>e_value := v\<rparr>)"
  have w: "wr_value (heap c) ent v = Some h" by (simp add: wr_value_def e h_def)
  have kvh: "kv h = (kv (heap c))(ent := (k, v))"
    using k e by (auto simp: kv_def h_def fun_eq_iff)
  have "nxt h = nxt (heap c)" "prv h = prv (heap c)"
    using e by (auto simp: nxt_def prv_def h_def fun_eq_iff)
  then have "lnk h = lnk (heap c)" by (simp add: lnk_def fun_eq_iff)
  then have rg: "ring h (ent # ps)" using r by (simp add: lru_rep_def ring_def)
  have nin: "ent \<notin> set ps" using lru_rep_distinct [OF r] by simp
  have ky: "fst (kv h p) = fst (kv (heap c) p)" for p using k by (simp add: kvh)
  let ?c = "c\<lparr>heap := h, curSize := i64 (i64 (curSize c - entrySize c k v0) + entrySize c k v)\<rparr>"
  have sp: "same_params c ?c" by (simp add: same_params_def)
  have "map (kv h) ps = map (kv (heap c)) ps" using nin by (auto simp: kvh)
  then have "sizes ?c (map (kv h) (ent # ps)) = entrySize c k v + sizes c (map (kv (heap c)) ps)"
    unfolding sizes_params [OF sp] by (simp add: kvh del: map_eq_conv)
  moreover have "curSize c = i64 (entrySize c k v0 + sizes c (map (kv (heap c)) ps))"
    using r k by (simp add: lru_rep_def)
  ultimately have sz: "curSize ?c = i64 (sizes ?c (map (kv h) (ent # ps)))"
    by (simp add: i64_add_right add.commute)
  have "\<forall>p. h p \<noteq> None \<longrightarrow> p < fresh c" using r e by (auto simp: lru_rep_def h_def)
  then have "lru_rep ?c (ent # ps)"
    using r rg sz unfolding lru_rep_def by (simp add: ky key_index_def)
  with w kvh that show ?thesis by blast
qed

lemma lru_GetOk_hit:
  assumes "lru_inv c" "map_of (entries c) k = Some v"
  shows "\<exists>c'. lru_GetOk c k = Some (Some v, c') \<and> lru_inv c' \<and> same_params c c' \<and>
    entries c' = touch k v (entries c)"
proof -
  obtain ps where r: "lru_rep c ps" and en: "entries c = map (kv (heap c)) ps"
    using inv_rep [OF assms(1)] by blast
  obtain p where p: "map_of (lookup c) k = Some p"
    using lookup_None_entries [OF r, of k] assms(2) by fastforce
  note l = lookup_entries [OF r p]
  have kvp: "kv (heap c) p = (k, v)" using l assms(2) by simp
  from rep_moveToFront [OF r l(1)] obtain c' where c': "moveToFront c p = Some c'"
    "lru_rep c' (to_front p ps)" "same_params c c'" "kv (heap c') = kv (heap c)" by blast
  from lru_rep_heap [OF c'(2), of p] obtain e where e: "heap c' p = Some e" by (auto simp: to_front_def)
  have "e_value e = v" using kvp e kv_def [of "heap c'" p] by (simp add: c'(4))
  then have "lru_GetOk c k = Some (Some v, c')" by (simp add: lru_GetOk_def p c'(1) e)
  moreover have "entries c' = touch k v (entries c)"
    using rep_key_unique [OF r l(1)] kvp c'(4) lru_rep_entries [OF c'(2)]
    by (simp add: to_front_def touch_def en)
  ultimately show ?thesis using c'(3) rep_inv [OF c'(2)] by blast
qed

lemma lru_GetOk_miss:
  assumes "lru_inv c" "map_of (entries c) k = None"
  shows "lru_GetOk c k = Some (None, c)"
proof -
  obtain ps where r: "lru_rep c ps" using assms by (auto simp: lru_inv_def)
  have "map_of (lookup c) k = None" using lookup_None_entries [OF r] assms(2) by simp
  then show ?thesis by (simp add: lru_GetOk_def)
qed

lemma lru_PeekOk_entries:
  assumes "lru_inv c"
  shows "lru_PeekOk c k = Some (map_of (entries c) k)"
proof -
  obtain ps where r: "lru_rep c ps" using assms by (auto simp: lru_inv_def)
  show ?thesis
  proof (cases "map_of (lookup c) k")
    case None
    moreover have "map_of (entries c) k = None" using None lookup_None_entries [OF r] by simp
    ultimately show ?thesis by (simp add: lru_PeekOk_def)
  next
    case (Some p)
    with lookup_entries [OF r Some] lru_rep_heap [OF r, of p] show ?thesis
      by (auto simp: lru_PeekOk_def kv_def)
  qed
qed

lemma lru_Delete_entries:
  assumes "lru_inv c"
  shows "\<exists>c'. lru_Delete c k = Some c' \<and> lru_inv c' \<and> same_params c c' \<and>
    entries c' = filter (\<lambda>x. fst x \<noteq> k) (entries c)"
proof -
  obtain ps where r: "lru_rep c ps" and en: "entries c = map (kv (heap c)) ps"
    using inv_rep [OF assms] by blast
  show ?thesis
  proof (cases "map_of (lookup c) k")
    case None
    with lookup_None_entries [OF r] have "k \<notin> fst ` set (entries c)" by (simp add: map_of_eq_None_iff)
    then have "filter (\<lambda>x. fst x \<noteq> k) (entries c) = entries c" by (auto simp: filter_id_conv)
    then show ?thesis using None assms by (simp add: lru_Delete_def same_params_def)
  next
    case (Some p)
    note l = lookup_entries [OF r Some]
    from rep_deleteElement [OF r l(1)] obtain c' where c': "deleteElement c p = Some c'"
      "lru_rep c' (remove1 p ps)" "same_params c c'" "kv (heap c') = kv (heap c)" by blast
    have "fst (kv (heap c) p) = k" using l(2) by (metis fst_conv)
    then show ?thesis
      using rep_key_unique [OF r l(1)] c' lru_rep_entries [OF c'(2)] rep_inv [OF c'(2)]
      by (simp add: lru_Delete_def Some en)
  qed
qed

lemma deleteOldest_entries:
  assumes "lru_inv c" "entries c \<noteq> []"
  shows "\<exists>c'. deleteOldest c = Some c' \<and> lru_inv c' \<and> same_params c c' \<and> entries c' = butlast (entries c)
    \<and> lru_DeleteOldest c = Some (Some (last (entries c)), c')"
proof -
  obtain ps where r: "lru_rep c ps" and en: "entries c = map (kv (heap c)) ps"
    using inv_rep [OF assms(1)] by blast
  with assms(2) have ps: "ps \<noteq> []" by auto
  with r have h: "head c = Some (hd ps)" "prv (heap c) (hd ps) = Some (last ps)"
    by (auto simp: lru_rep_def dest: ring_ends)
  have l: "last ps \<in> set ps" using ps by simp
  from rep_deleteElement [OF r l] obtain c' where c': "deleteElement c (last ps) = Some c'"
    "lru_rep c' (remove1 (last ps) ps)" "same_params c c'" "kv (heap c') = kv (heap c)" by blast
  have rm: "remove1 (last ps) ps = butlast ps"
    using lru_rep_distinct [OF r] ps by (metis append_butlast_last_id distinct_append distinct_butlast
      disjoint_insert(1) list.set(2) remove1_append remove1.simps(2) append_Nil2 remove1.simps(1))
  obtain e where e: "heap c (last ps) = Some e" using lru_rep_heap [OF r l] by auto
  have "deleteOldest c = Some c'" by (simp add: deleteOldest_def h c'(1))
  moreover have "lru_DeleteOldest c = Some (Some (last (entries c)), c')"
    using calculation ps by (simp add: lru_DeleteOldest_def h e en last_map kv_def)
  moreover have "entries c' = butlast (entries c)"
    using lru_rep_entries [OF c'(2)] rm c'(4) by (simp add: en map_butlast)
  ultimately show ?thesis using c'(3) rep_inv [OF c'(2)] by blast
qed

lemma inv_curSize: "lru_inv c \<Longrightarrow> curSize c = i64 (sizes c (entries c))"
  using inv_rep by (fastforce simp: lru_rep_def)

lemma inv_distinct: "lru_inv c \<Longrightarrow> distinct (map fst (entries c))"
  using inv_rep by (fastforce simp: lru_rep_def comp_def)

lemma lru_Len_entries: "lru_inv c \<Longrightarrow> lru_Len c = length (entries c)"
  using inv_rep lru_rep_length by (fastforce simp: lru_Len_def)

lemma lru_Size_entries: "lru_inv c \<Longrightarrow> lru_Size c = i64 (sizes c (entries c))"
  by (simp add: lru_Size_def inv_curSize)

lemma evict_loop_entries:
  assumes "lru_inv c" "0 \<le> MaxSize c"
  shows "\<exists>c'. evict_loop c = Some c' \<and> lru_inv c' \<and> same_params c c' \<and>
    entries c' = trim (entrySize c) (MaxSize c) (entries c)"
  using assms
proof (induction "length (entries c)" arbitrary: c rule: less_induct)
  case less
  have cs: "curSize c = i64 (sum_list (map (\<lambda>(k, v). entrySize c k v) (entries c)))"
    using inv_curSize [OF less.prems(1)] by (simp add: sizes_def)
  show ?case
  proof (cases "MaxSize c \<noteq> 0 \<and> curSize c > MaxSize c")
    case False
    then show ?thesis using less.prems
      by (subst evict_loop.simps, subst trim.simps) (auto simp: cs same_params_def)
  next
    case True
    then have ne: "entries c \<noteq> []" using cs less.prems(2) by auto
    obtain c1 where c1: "deleteOldest c = Some c1" "lru_inv c1" "same_params c c1"
      "entries c1 = butlast (entries c)" using deleteOldest_entries [OF less.prems(1) ne] by blast
    have m: "MaxSize c1 = MaxSize c" using c1(3) by (simp add: same_params_def)
    from less.hyps [of c1] c1 ne m less.prems obtain c' where c': "evict_loop c1 = Some c'" "lru_inv c'"
      "same_params c1 c'" "entries c' = trim (entrySize c1) (MaxSize c1) (entries c1)" by auto
    have "evict_loop c = Some c'" using True c1(1) c'(1) by (subst evict_loop.simps) simp
    moreover have "trim (entrySize c) (MaxSize c) (entries c) = trim (entrySize c) (MaxSize c) (butlast (entries c))"
      using True ne cs by (subst trim.simps) simp
    ultimately show ?thesis
      using c' c1 m entrySize_params [OF c1(3)] by (auto simp: same_params_def)
  qed
qed

lemma set_core:
  assumes "lru_inv c"
  obtains c1 where "lru_Set c k v = evict_loop c1" "lru_inv c1" "same_params c c1"
    "entries c1 = touch k v (entries c)"
proof -
  obtain ps where r: "lru_rep c ps" and en: "entries c = map (kv (heap c)) ps"
    using inv_rep [OF assms] by blast
  show ?thesis
  proof (cases "map_of (lookup c) k")
    case None
    from rep_newAtFront [OF r None, of v] obtain ent c1 where n: "newAtFront c k v = Some (ent, c1)"
      "same_params c c1" "lru_rep (c1\<lparr>lookup := AList.update k ent (lookup c1),
         curSize := i64 (curSize c1 + entrySize c1 k v)\<rparr>) (ent # ps)"
      "kv (heap c1) ent = (k, v)" "\<And>p. p \<in> set ps \<Longrightarrow> kv (heap c1) p = kv (heap c) p" by blast
    let ?c = "c1\<lparr>lookup := AList.update k ent (lookup c1), curSize := i64 (curSize c1 + entrySize c1 k v)\<rparr>"
    have es: "entrySize (c1\<lparr>lookup := l\<rparr>) k v = entrySize c1 k v" for l by (simp add: entrySize_def)
    have "map_of (entries c) k = None" using lookup_None_entries [OF r] None by simp
    then have f: "filter (\<lambda>x. fst x \<noteq> k) (entries c) = entries c"
      by (auto simp: filter_id_conv map_of_eq_None_iff)
    show ?thesis
    proof (rule that [of ?c])
      show "lru_Set c k v = evict_loop ?c" by (simp add: lru_Set_def None n(1) es)
      show "lru_inv ?c" using rep_inv [OF n(3)] .
      show "same_params c ?c" using n(2) by (simp add: same_params_def)
      show "entries ?c = touch k v (entries c)"
        using lru_rep_entries [OF n(3)] n(4,5) f by (simp add: touch_def en)
    qed
  next
    case (Some p)
    note l = lookup_entries [OF r Some]
    from rep_moveToFront [OF r l(1)] obtain c1 where c1: "moveToFront c p = Some c1"
      "lru_rep c1 (p # remove1 p ps)" "same_params c c1" "kv (heap c1) = kv (heap c)"
      by (auto simp: to_front_def)
    obtain e where e: "heap c1 p = Some e" using lru_rep_heap [OF c1(2), of p] by auto
    have kp: "kv (heap c1) p = (k, e_value e)" using l(2) c1(4) e kv_def [of "heap c1" p] by simp
    from rep_wr_value [OF c1(2) kp, of v] obtain h where h: "wr_value (heap c1) p v = Some h"
      "lru_rep (c1\<lparr>heap := h, curSize := i64 (i64 (curSize c1 - entrySize c1 k (e_value e)) + entrySize c1 k v)\<rparr>) (p # remove1 p ps)"
      "kv h = (kv (heap c1))(p := (k, v))" by blast
    let ?c = "c1\<lparr>heap := h, curSize := i64 (i64 (curSize c1 - entrySize c1 k (e_value e)) + entrySize c1 k v)\<rparr>"
    have es: "entrySize (c1\<lparr>curSize := s, heap := h'\<rparr>) = entrySize c1" for s h'
      by (simp add: entrySize_def fun_eq_iff)
    have nin: "p \<notin> set (remove1 p ps)" using lru_rep_distinct [OF c1(2)] by simp
    have "map (kv h) (remove1 p ps) = map (kv (heap c)) (remove1 p ps)"
      using nin by (auto simp: h(3) c1(4) intro!: map_cong)
    then have "map (kv h) (remove1 p ps) = filter (\<lambda>x. fst x \<noteq> k) (entries c)"
      using rep_key_unique [OF r l(1)] kp c1(4) by (simp add: en del: map_eq_conv)
    then have "entries ?c = touch k v (entries c)"
      using lru_rep_entries [OF h(2)] by (simp add: touch_def h(3))
    moreover have "lru_Set c k v = evict_loop ?c"
      by (simp add: lru_Set_def Some c1(1) e h(1) es)
    ultimately show ?thesis
      using that [of ?c] rep_inv [OF h(2)] c1(3) by (simp add: same_params_def)
  qed
qed

lemma lru_Set_entries:
  assumes "lru_inv c" "0 \<le> MaxSize c"
  shows "\<exists>c'. lru_Set c k v = Some c' \<and> lru_inv c' \<and> same_params c c' \<and>
    entries c' = trim (entrySize c) (MaxSize c) (touch k v (entries c))"
proof -
  obtain c1 where c1: "lru_Set c k v = evict_loop c1" "lru_inv c1" "same_params c c1"
    "entries c1 = touch k v (entries c)" using set_core [OF assms(1)] .
  then have m: "MaxSize c1 = MaxSize c" by (simp add: same_params_def)
  obtain c' where c': "evict_loop c1 = Some c'" "lru_inv c'" "same_params c1 c'"
    "entries c' = trim (entrySize c1) (MaxSize c1) (entries c1)"
    using evict_loop_entries [OF c1(2)] assms(2) m by auto
  then show ?thesis
    using c1 m entrySize_params [OF c1(3)] by (auto simp: same_params_def)
qed

lemma forEach_loop_ring:
  assumes "successively (lnk h) (p # ps)" "nxt h (last (p # ps)) = Some hd0"
    "\<forall>q \<in> set (p # ps). h q \<noteq> None" "hd0 \<notin> set ps"
  shows "forEach_loop h hd0 p acc = Some (acc @ map (kv h) (p # ps))"
  using assms
proof (induction ps arbitrary: p acc)
  case Nil
  then obtain e where "h p = Some e" "e_next e = hd0" by (auto simp: nxt_def)
  then show ?case by (subst forEach_loop.simps) (simp add: kv_def)
next
  case (Cons q qs)
  then obtain e where e: "h p = Some e" "e_next e = q" by (auto simp: lnk_def nxt_def)
  have "forEach_loop h hd0 q (acc @ [kv h p]) = Some ((acc @ [kv h p]) @ map (kv h) (q # qs))"
    using Cons.prems by (intro Cons.IH) auto
  moreover have "q \<noteq> hd0" using Cons.prems(4) by auto
  ultimately show ?case using e by (subst forEach_loop.simps) (simp add: kv_def)
qed

lemma lru_ForEach_entries:
  assumes "lru_inv c"
  shows "lru_ForEach c = Some (entries c)"
proof -
  obtain ps where r: "lru_rep c ps" and en: "entries c = map (kv (heap c)) ps"
    using inv_rep [OF assms] by blast
  show ?thesis
  proof (cases ps)
    case Nil
    then show ?thesis using r en by (simp add: lru_ForEach_def lru_rep_def)
  next
    case (Cons p qs)
    have rg: "ring (heap c) (p # qs)" and hd: "head c = Some p" using r Cons by (auto simp: lru_rep_def)
    have "forEach_loop (heap c) p p [] = Some ([] @ map (kv (heap c)) (p # qs))"
      using rg ring_ends [OF rg] ring_in_heap [OF rg]
      by (intro forEach_loop_ring) (auto simp: ring_def)
    then show ?thesis using hd en Cons by (simp add: lru_ForEach_def)
  qed
qed

lemma lru_Clear_entries:
  assumes "lru_inv c"
  shows "lru_inv (lru_Clear c)" "entries (lru_Clear c) = []" "same_params c (lru_Clear c)"
proof -
  have "lru_rep (lru_Clear c) []"
    using assms by (auto simp: lru_inv_def lru_rep_def lru_Clear_def key_index_def)
  then show "lru_inv (lru_Clear c)" "entries (lru_Clear c) = []"
    using rep_inv lru_rep_entries by fastforce+
qed (simp add: lru_Clear_def same_params_def)

lemma zero_cache_inv [simp]:
  "lru_inv (zero_cache\<lparr>MaxSize := M, EntrySize := f\<rparr>)" "entries (zero_cache\<lparr>MaxSize := M, EntrySize := f\<rparr>) = []"
  "lru_inv zero_cache" "entries zero_cache = []"
proof -
  have "lru_rep (zero_cache\<lparr>MaxSize := M, EntrySize := f\<rparr>) []" "lru_rep zero_cache []"
    by (auto simp: lru_rep_def zero_cache_def key_index_def)
  then show "lru_inv (zero_cache\<lparr>MaxSize := M, EntrySize := f\<rparr>)" "entries (zero_cache\<lparr>MaxSize := M, EntrySize := f\<rparr>) = []"
    "lru_inv zero_cache" "entries zero_cache = []"
    using rep_inv lru_rep_entries by fastforce+
qed

section \<open>The interface clients use\<close>

locale lru_spec =
  fixes inv :: "'c \<Rightarrow> bool"
    and ents :: "'c \<Rightarrow> ('k \<times> 'v) list"
    and limit :: "'c \<Rightarrow> int"
    and cost :: "'c \<Rightarrow> 'k \<Rightarrow> 'v \<Rightarrow> int"
    and get :: "'c \<Rightarrow> 'k \<Rightarrow> ('v option \<times> 'c) option"
    and peek :: "'c \<Rightarrow> 'k \<Rightarrow> 'v option option"
    and put :: "'c \<Rightarrow> 'k \<Rightarrow> 'v \<Rightarrow> 'c option"
    and del :: "'c \<Rightarrow> 'k \<Rightarrow> 'c option"
    and oldest :: "'c \<Rightarrow> (('k \<times> 'v) option \<times> 'c) option"
    and total :: "'c \<Rightarrow> int"
  assumes keys_distinct: "inv c \<Longrightarrow> distinct (map fst (ents c))"
    and get_hit: "inv c \<Longrightarrow> map_of (ents c) k = Some v \<Longrightarrow>
      \<exists>c'. get c k = Some (Some v, c') \<and> inv c' \<and> limit c' = limit c \<and> cost c' = cost c \<and> ents c' = touch k v (ents c)"
    and get_miss: "inv c \<Longrightarrow> map_of (ents c) k = None \<Longrightarrow> get c k = Some (None, c)"
    and peek_law: "inv c \<Longrightarrow> peek c k = Some (map_of (ents c) k)"
    and put_law: "inv c \<Longrightarrow> 0 \<le> limit c \<Longrightarrow>
      \<exists>c'. put c k v = Some c' \<and> inv c' \<and> limit c' = limit c \<and> cost c' = cost c \<and>
        ents c' = trim (cost c) (limit c) (touch k v (ents c))"
    and del_law: "inv c \<Longrightarrow>
      \<exists>c'. del c k = Some c' \<and> inv c' \<and> limit c' = limit c \<and> cost c' = cost c \<and>
        ents c' = filter (\<lambda>x. fst x \<noteq> k) (ents c)"
    and oldest_law: "inv c \<Longrightarrow> ents c \<noteq> [] \<Longrightarrow>
      \<exists>c'. oldest c = Some (Some (last (ents c)), c') \<and> inv c' \<and> limit c' = limit c \<and> cost c' = cost c \<and>
        ents c' = butlast (ents c)"
    and oldest_empty: "inv c \<Longrightarrow> ents c = [] \<Longrightarrow> oldest c = Some (None, c)"
    and total_law: "inv c \<Longrightarrow> total c = i64 (sum_list (map (\<lambda>(k, v). cost c k v) (ents c)))"
begin

lemma map_of_touch: "map_of (touch k v xs) = (map_of xs)(k \<mapsto> v)"
proof
  show "map_of (touch k v xs) x = ((map_of xs)(k \<mapsto> v)) x" for x
    by (induction xs) (auto simp: touch_def)
qed

lemma map_of_del: "map_of (filter (\<lambda>x. fst x \<noteq> k) xs) = (map_of xs)(k := None)"
proof
  show "map_of (filter (\<lambda>x. fst x \<noteq> k) xs) x = ((map_of xs)(k := None)) x" for x
    by (induction xs) auto
qed

lemma trim_no_limit: "trim f 0 xs = xs"
  by (subst trim.simps) simp

lemma put_unlimited:
  assumes "inv c" "limit c = 0"
  shows "\<exists>c'. put c k v = Some c' \<and> inv c' \<and> limit c' = 0 \<and> cost c' = cost c \<and> ents c' = touch k v (ents c)"
  using put_law [OF assms(1), of k v] assms(2) by (simp add: trim_no_limit)

lemma get_same_map:
  assumes "inv c"
  shows "\<exists>c'. get c k = Some (map_of (ents c) k, c') \<and> inv c' \<and> limit c' = limit c \<and> cost c' = cost c \<and>
    map_of (ents c') = map_of (ents c)"
proof (cases "map_of (ents c) k")
  case None
  then show ?thesis using get_miss [OF assms None] assms by auto
next
  case (Some v)
  from get_hit [OF assms Some] obtain c' where
    "get c k = Some (Some v, c')" "inv c'" "limit c' = limit c" "cost c' = cost c" "ents c' = touch k v (ents c)" by blast
  with Some show ?thesis by (simp add: map_of_touch fun_upd_idem)
qed

lemma put_bounded:
  assumes "inv c" "0 < limit c" "put c k v = Some c'"
  shows "total c' \<le> limit c"
proof -
  from put_law [OF assms(1), of k v] assms have "inv c'" "cost c' = cost c"
    "ents c' = trim (cost c) (limit c) (touch k v (ents c))" by auto
  with trim_bound [of "limit c" "cost c" "touch k v (ents c)"] total_law [of c'] assms(2) show ?thesis by simp
qed

lemma trim_keeps_front:
  assumes "0 \<le> M" "f k v \<le> M" "in_i64 (f k v)" "0 \<le> f k v"
  shows "\<exists>ys. trim f M ((k, v) # xs) = (k, v) # ys"
proof (induction xs rule: length_induct)
  case (1 xs)
  show ?case
  proof (cases "xs = []")
    case True
    with assms show ?thesis by (subst trim.simps) auto
  next
    case False
    with 1 have "\<exists>ys. trim f M ((k, v) # butlast xs) = (k, v) # ys" by simp
    with False show ?thesis by (subst trim.simps) auto
  qed
qed

lemma put_then_found:
  assumes "inv c" "0 \<le> limit c" "put c k v = Some c'"
    and "limit c = 0 \<or> (0 \<le> cost c k v \<and> cost c k v \<le> limit c \<and> in_i64 (cost c k v))"
  shows "map_of (ents c') k = Some v"
proof -
  from put_law [OF assms(1,2), of k v] assms(3)
  have e: "ents c' = trim (cost c) (limit c) (touch k v (ents c))" by auto
  show ?thesis
  proof (cases "limit c = 0")
    case True
    with e show ?thesis by (simp add: trim_no_limit touch_def)
  next
    case False
    with assms(4) obtain ys where "ents c' = (k, v) # ys"
      using trim_keeps_front [of "limit c" "cost c" k v "filter (\<lambda>x. fst x \<noteq> k) (ents c)"] assms(2) e
      by (auto simp: touch_def)
    then show ?thesis by simp
  qed
qed

lemma put_other:
  assumes "inv c" "0 \<le> limit c" "put c k v = Some c'" "map_of (ents c') j = Some w" "j \<noteq> k"
  shows "map_of (ents c) j = Some w"
proof -
  from put_law [OF assms(1,2), of k v] assms(3)
  have i: "inv c'" and e: "ents c' = trim (cost c) (limit c) (touch k v (ents c))" by auto
  with trim_prefix [of "cost c" "limit c" "touch k v (ents c)"] obtain n where "ents c' = take n (touch k v (ents c))"
    by auto
  with assms(4) have "(j, w) \<in> set (touch k v (ents c))" by (metis in_set_takeD map_of_SomeD)
  with assms(5) have "(j, w) \<in> set (ents c)" by (auto simp: touch_def)
  with keys_distinct [OF assms(1)] show ?thesis by simp
qed

end

interpretation lru: lru_spec lru_inv entries MaxSize entrySize lru_GetOk lru_PeekOk lru_Set lru_Delete
  lru_DeleteOldest lru_Size
proof
  fix c :: "('k, 'v) cache" and k v
  have p: "MaxSize c' = MaxSize c" "entrySize c' = entrySize c" if "same_params c c'" for c' :: "('k, 'v) cache"
    using that entrySize_params [OF that] by (simp_all add: same_params_def)
  assume i: "lru_inv c"
  show "distinct (map fst (entries c))" using inv_distinct [OF i] .
  show "lru_PeekOk c k = Some (map_of (entries c) k)" using lru_PeekOk_entries [OF i] .
  show "lru_GetOk c k = Some (None, c)" if "map_of (entries c) k = None" using lru_GetOk_miss [OF i that] .
  show "\<exists>c'. lru_GetOk c k = Some (Some v, c') \<and> lru_inv c' \<and> MaxSize c' = MaxSize c \<and> entrySize c' = entrySize c \<and>
      entries c' = touch k v (entries c)" if "map_of (entries c) k = Some v"
    using lru_GetOk_hit [OF i that] p by blast
  show "\<exists>c'. lru_Set c k v = Some c' \<and> lru_inv c' \<and> MaxSize c' = MaxSize c \<and> entrySize c' = entrySize c \<and>
      entries c' = trim (entrySize c) (MaxSize c) (touch k v (entries c))" if "0 \<le> MaxSize c"
    using lru_Set_entries [OF i that] p by blast
  show "\<exists>c'. lru_Delete c k = Some c' \<and> lru_inv c' \<and> MaxSize c' = MaxSize c \<and> entrySize c' = entrySize c \<and>
      entries c' = filter (\<lambda>x. fst x \<noteq> k) (entries c)"
    using lru_Delete_entries [OF i] p by blast
  show "\<exists>c'. lru_DeleteOldest c = Some (Some (last (entries c)), c') \<and> lru_inv c' \<and> MaxSize c' = MaxSize c \<and>
      entrySize c' = entrySize c \<and> entries c' = butlast (entries c)" if "entries c \<noteq> []"
    using deleteOldest_entries [OF i that] p by blast
  show "lru_DeleteOldest c = Some (None, c)" if "entries c = []"
    using inv_rep [OF i] that by (auto simp: lru_DeleteOldest_def lru_rep_def)
  show "lru_Size c = i64 (sum_list (map (\<lambda>(k, v). entrySize c k v) (entries c)))"
    using lru_Size_entries [OF i] by (simp add: sizes_def)
qed

section \<open>Sequences of operations\<close>

text \<open>
  Every operation of the type, with what its caller sees; \<open>run_ops\<close> executes a sequence on the
  pointer structure, \<open>abs_run\<close> on the list of pairs.
\<close>

datatype ('k, 'v) lru_op =
  Op_Set 'k 'v | Op_Get 'k | Op_Contains 'k | Op_Peek 'k | Op_Delete 'k | Op_DeleteOldest
| Op_Clear | Op_ForEach | Op_Len | Op_Size

datatype ('k, 'v) lru_obs =
  Obs_Unit | Obs_Val "'v option" | Obs_Bool bool | Obs_Pair "('k \<times> 'v) option"
| Obs_List "('k \<times> 'v) list" | Obs_Int int

fun run_op :: "('k, 'v) lru_op \<Rightarrow> ('k, 'v) cache \<Rightarrow> (('k, 'v) lru_obs \<times> ('k, 'v) cache) option" where
  "run_op (Op_Set k v) c = do { c \<leftarrow> lru_Set c k v; Some (Obs_Unit, c) }"
| "run_op (Op_Get k) c = do { (v, c) \<leftarrow> lru_GetOk c k; Some (Obs_Val v, c) }"
| "run_op (Op_Contains k) c = do { (b, c) \<leftarrow> lru_Contains c k; Some (Obs_Bool b, c) }"
| "run_op (Op_Peek k) c = do { v \<leftarrow> lru_PeekOk c k; Some (Obs_Val v, c) }"
| "run_op (Op_Delete k) c = do { c \<leftarrow> lru_Delete c k; Some (Obs_Unit, c) }"
| "run_op Op_DeleteOldest c = do { (x, c) \<leftarrow> lru_DeleteOldest c; Some (Obs_Pair x, c) }"
| "run_op Op_Clear c = Some (Obs_Unit, lru_Clear c)"
| "run_op Op_ForEach c = do { xs \<leftarrow> lru_ForEach c; Some (Obs_List xs, c) }"
| "run_op Op_Len c = Some (Obs_Int (int (lru_Len c)), c)"
| "run_op Op_Size c = Some (Obs_Int (lru_Size c), c)"

fun abs_op :: "('k \<Rightarrow> 'v \<Rightarrow> int) \<Rightarrow> int \<Rightarrow> ('k, 'v) lru_op \<Rightarrow> ('k \<times> 'v) list \<Rightarrow> ('k, 'v) lru_obs \<times> ('k \<times> 'v) list" where
  "abs_op f M (Op_Set k v) xs = (Obs_Unit, trim f M (touch k v xs))"
| "abs_op f M (Op_Get k) xs = (Obs_Val (map_of xs k), case map_of xs k of None \<Rightarrow> xs | Some v \<Rightarrow> touch k v xs)"
| "abs_op f M (Op_Contains k) xs = (Obs_Bool (map_of xs k \<noteq> None), case map_of xs k of None \<Rightarrow> xs | Some v \<Rightarrow> touch k v xs)"
| "abs_op f M (Op_Peek k) xs = (Obs_Val (map_of xs k), xs)"
| "abs_op f M (Op_Delete k) xs = (Obs_Unit, filter (\<lambda>x. fst x \<noteq> k) xs)"
| "abs_op f M Op_DeleteOldest xs = (Obs_Pair (if xs = [] then None else Some (last xs)), butlast xs)"
| "abs_op f M Op_Clear xs = (Obs_Unit, [])"
| "abs_op f M Op_ForEach xs = (Obs_List xs, xs)"
| "abs_op f M Op_Len xs = (Obs_Int (int (length xs)), xs)"
| "abs_op f M Op_Size xs = (Obs_Int (i64 (sum_list (map (\<lambda>(k, v). f k v) xs))), xs)"

fun run_ops :: "('k, 'v) lru_op list \<Rightarrow> ('k, 'v) cache \<Rightarrow> (('k, 'v) lru_obs list \<times> ('k, 'v) cache) option" where
  "run_ops [] c = Some ([], c)"
| "run_ops (x # xs) c = do { (r, c) \<leftarrow> run_op x c; (rs, c) \<leftarrow> run_ops xs c; Some (r # rs, c) }"

fun abs_run :: "('k \<Rightarrow> 'v \<Rightarrow> int) \<Rightarrow> int \<Rightarrow> ('k, 'v) lru_op list \<Rightarrow> ('k \<times> 'v) list \<Rightarrow> ('k, 'v) lru_obs list \<times> ('k \<times> 'v) list" where
  "abs_run f M [] xs = ([], xs)"
| "abs_run f M (x # ops) xs = (let (r, xs) = abs_op f M x xs; (rs, xs) = abs_run f M ops xs in (r # rs, xs))"

lemma run_op_refines:
  assumes i: "lru_inv c" and M: "0 \<le> MaxSize c"
  shows "\<exists>c'. run_op x c = Some (fst (abs_op (entrySize c) (MaxSize c) x (entries c)), c') \<and> lru_inv c' \<and>
    MaxSize c' = MaxSize c \<and> entrySize c' = entrySize c \<and>
    entries c' = snd (abs_op (entrySize c) (MaxSize c) x (entries c))"
proof (cases x)
  case (Op_Set k v)
  then show ?thesis using lru.put_law [OF i M, of k v] by auto
next
  case (Op_Get k)
  then show ?thesis using lru.get_hit [OF i, of k] lru.get_miss [OF i, of k] i
    by (cases "map_of (entries c) k") auto
next
  case (Op_Contains k)
  then show ?thesis using lru.get_hit [OF i, of k] lru.get_miss [OF i, of k] i
    by (cases "map_of (entries c) k") (auto simp: lru_Contains_def)
next
  case (Op_Peek k)
  then show ?thesis using lru.peek_law [OF i, of k] i by auto
next
  case (Op_Delete k)
  then show ?thesis using lru.del_law [OF i, of k] by auto
next
  case Op_DeleteOldest
  then show ?thesis using lru.oldest_law [OF i] lru.oldest_empty [OF i] i by (cases "entries c = []") auto
next
  case Op_Clear
  then show ?thesis
    using lru_Clear_entries [OF i] entrySize_params [of c "lru_Clear c"] by (auto simp: same_params_def)
next
  case Op_ForEach
  then show ?thesis using lru_ForEach_entries [OF i] i by auto
next
  case Op_Len
  then show ?thesis using lru_Len_entries [OF i] i by auto
next
  case Op_Size
  then show ?thesis using lru.total_law [OF i] i by auto
qed

lemma run_ops_refines:
  assumes "lru_inv c" "0 \<le> MaxSize c"
  shows "\<exists>c'. run_ops xs c = Some (fst (abs_run (entrySize c) (MaxSize c) xs (entries c)), c') \<and> lru_inv c' \<and>
    MaxSize c' = MaxSize c \<and> entrySize c' = entrySize c \<and>
    entries c' = snd (abs_run (entrySize c) (MaxSize c) xs (entries c))"
  using assms
proof (induction xs arbitrary: c)
  case (Cons x xs)
  from run_op_refines [OF Cons.prems, of x] obtain c1 where c1:
    "run_op x c = Some (fst (abs_op (entrySize c) (MaxSize c) x (entries c)), c1)" "lru_inv c1"
    "MaxSize c1 = MaxSize c" "entrySize c1 = entrySize c"
    "entries c1 = snd (abs_op (entrySize c) (MaxSize c) x (entries c))" by blast
  with Cons.IH [of c1] Cons.prems show ?case by (auto simp: case_prod_beta Let_def)
qed simp

text \<open>
  C2. From an empty cache with any limit that is not negative and any entry-size function, every
  sequence of operations on the ring of entries returns (no nil dereference, every loop ends) and
  every caller sees what the list of pairs kept in order of use would give: a lookup moves its pair
  to the front, \<^verbatim>\<open>Set\<close> puts its pair in front and then drops pairs from the back while the total
  size exceeds the limit, \<^verbatim>\<open>DeleteOldest\<close> takes the last pair, \<^verbatim>\<open>ForEach\<close> visits them in order,
  and \<^verbatim>\<open>Size\<close> and \<^verbatim>\<open>Len\<close> are those of the list.
\<close>
theorem lru_run_refines:
  assumes "0 \<le> M"
  shows "\<exists>c'. run_ops ops (zero_cache\<lparr>MaxSize := M, EntrySize := f\<rparr>) =
      Some (fst (abs_run (case f of None \<Rightarrow> \<lambda>_ _. 1 | Some g \<Rightarrow> g) M ops []), c') \<and>
    lru_inv c' \<and> entries c' = snd (abs_run (case f of None \<Rightarrow> \<lambda>_ _. 1 | Some g \<Rightarrow> g) M ops [])"
proof -
  let ?c = "zero_cache\<lparr>MaxSize := M, EntrySize := f\<rparr>"
  have "entrySize ?c = (case f of None \<Rightarrow> \<lambda>_ _. 1 | Some g \<Rightarrow> g)"
    by (simp add: entrySize_def fun_eq_iff split: option.split)
  then show ?thesis using run_ops_refines [of ?c ops] assms by auto
qed

theorem lru_run_refines_witness:
  "\<exists>c'. run_ops [Op_Set ''a'' 1, Op_Set ''b'' 2, Op_Get ''a'', Op_Set ''c'' (3::int), Op_ForEach]
      (zero_cache\<lparr>MaxSize := 2, EntrySize := None\<rparr>) =
    Some ([Obs_Unit, Obs_Unit, Obs_Val (Some 1), Obs_Unit, Obs_List [(''c'', 3), (''a'', 1)]], c') \<and> lru_inv c'"
proof -
  have "fst (abs_run (\<lambda>_ _. 1) 2 [Op_Set ''a'' 1, Op_Set ''b'' 2, Op_Get ''a'', Op_Set ''c'' (3::int), Op_ForEach] []) =
      [Obs_Unit, Obs_Unit, Obs_Val (Some 1), Obs_Unit, Obs_List [(''c'', 3), (''a'', 1)]]"
    by code_simp
  then show ?thesis
    using lru_run_refines [of 2 "[Op_Set ''a'' 1, Op_Set ''b'' 2, Op_Get ''a'', Op_Set ''c'' (3::int), Op_ForEach]" None]
    by (auto simp del: run_ops.simps abs_run.simps)
qed

text \<open>
  After \<^verbatim>\<open>Set\<close> on a cache with a positive limit the recorded size is at most the limit; when the
  pair's own size fits the limit, the pair is found by the next lookup; every other pair found
  afterwards was there before with the same value.
\<close>
theorem lru_Set_bounded:
  assumes "lru_inv c" "0 < MaxSize c" "lru_Set c k v = Some c'"
  shows "lru_Size c' \<le> MaxSize c \<and>
    (0 \<le> entrySize c k v \<and> entrySize c k v \<le> MaxSize c \<and> in_i64 (MaxSize c) \<longrightarrow> lru_PeekOk c' k = Some (Some v)) \<and>
    (\<forall>j w. j \<noteq> k \<and> lru_PeekOk c' j = Some (Some w) \<longrightarrow> lru_PeekOk c j = Some (Some w))"
proof (intro conjI allI)
  have i: "lru_inv c'" using lru.put_law [OF assms(1), of k v] assms(2,3) by auto
  note p = lru.peek_law [OF assms(1)] lru.peek_law [OF i]
  show "lru_Size c' \<le> MaxSize c" using lru.put_bounded [OF assms] .
  show "0 \<le> entrySize c k v \<and> entrySize c k v \<le> MaxSize c \<and> in_i64 (MaxSize c) \<longrightarrow> lru_PeekOk c' k = Some (Some v)"
    using lru.put_then_found [OF assms(1) _ assms(3)] assms(2) by (auto simp: p in_i64_def)
  show "j \<noteq> k \<and> lru_PeekOk c' j = Some (Some w) \<longrightarrow> lru_PeekOk c j = Some (Some w)" for j w
    using lru.put_other [OF assms(1) _ assms(3)] assms(2) by (auto simp: p)
qed

theorem lru_Set_bounded_witness:
  "\<exists>c'. lru_Set (zero_cache\<lparr>MaxSize := 3, EntrySize := Some (\<lambda>_ v. v)\<rparr>) ''a'' (2::int) = Some c' \<and>
    lru_Size c' \<le> 3 \<and> lru_PeekOk c' ''a'' = Some (Some 2)"
proof -
  let ?c = "zero_cache\<lparr>MaxSize := 3, EntrySize := Some (\<lambda>_ v. v)\<rparr> :: (string, int) cache"
  have i: "lru_inv ?c" "0 < MaxSize ?c" by simp_all
  obtain c' where c': "lru_Set ?c ''a'' 2 = Some c'"
    using lru_Set_entries [OF i(1)] i(2) by fastforce
  show ?thesis
    using lru_Set_bounded [OF i c'] c' by (simp add: entrySize_def in_i64_def)
qed

end
