(* ===== verification/Read_Cache.thy ===== *)
theory Read_Cache
  imports Lru_Cache
begin

text \<open>
  The file-content caches of \<^verbatim>\<open>gomodfs.go\<close> and \<^verbatim>\<open>nfs.go\<close>: the NFS read cache, two LRU caches and
  a reference count per blob (\<^verbatim>\<open>setReadCache\<close>, \<^verbatim>\<open>decrBlobCountLocked\<close>, \<^verbatim>\<open>NFSHandler.getFileContents\<close>),
  and the path cache of \<^verbatim>\<open>FS.getFileContents\<close>.  SHA-256 is the parameter \<open>sha\<close>.  A panic is
  \<^term>\<open>None\<close>.  Every access is under \<^verbatim>\<open>fs.mu\<close>, so a schedule of concurrent callers is a sequence of
  lookups and fills.
\<close>

section \<open>State and operations\<close>

record ('b, 'a) readCacheEntry =
  rce_attr :: 'a
  blobHash :: 'b

record ('h, 'b, 'a) rcache =
  entCache :: "('h, ('b, 'a) readCacheEntry) cache"
  blobCache :: "('b, bytes) cache"
  blobCount :: "('b \<times> int) list option"
  metricFileEntryCount :: int
  metricBlobEntryCount :: int
  metricBlobEntrySize :: int

definition zero_rcache :: "('h, 'b, 'a) rcache" where
  "zero_rcache = \<lparr>entCache = zero_cache, blobCache = zero_cache, blobCount = None,
     metricFileEntryCount = 0, metricBlobEntryCount = 0, metricBlobEntrySize = 0\<rparr>"

text \<open>\<^verbatim>\<open>cmp.Or(fs.FileCacheSize, defaultFileCacheSize)\<close>.\<close>

definition GetFileCacheSize :: "int \<Rightarrow> int" where
  "GetFileCacheSize fileCacheSize = (if fileCacheSize \<noteq> 0 then fileCacheSize else push_bit 30 2)"

definition rc_lookup ::
  "('h, 'b, 'a) rcache \<Rightarrow> 'h \<Rightarrow> ((bytes \<times> 'a) option \<times> ('h, 'b, 'a) rcache) option" where
  "rc_lookup s h = do {
     (ent, ec) \<leftarrow> lru_GetOk (entCache s) h;
     let s = s\<lparr>entCache := ec\<rparr>;
     case ent of
       None \<Rightarrow> Some (None, s)
     | Some e \<Rightarrow> do {
         (blob, bc) \<leftarrow> lru_GetOk (blobCache s) (blobHash e);
         let s = s\<lparr>blobCache := bc\<rparr>;
         case blob of None \<Rightarrow> Some (None, s) | Some b \<Rightarrow> Some (Some (b, rce_attr e), s)
       }
   }"

definition count_of :: "('h, 'b, 'a) rcache \<Rightarrow> 'b \<Rightarrow> int" where
  "count_of s h = (case blobCount s of None \<Rightarrow> 0 | Some m \<Rightarrow> (case map_of m h of None \<Rightarrow> 0 | Some n \<Rightarrow> n))"

definition decrBlobCountLocked :: "('h, 'b, 'a) rcache \<Rightarrow> 'b \<Rightarrow> ('h, 'b, 'a) rcache option" where
  "decrBlobCountLocked s h =
     (let v = count_of s h in
      if v \<le> 0 then None
      else if v = 1 then do {
        bc \<leftarrow> lru_Delete (blobCache s) h;
        Some (s\<lparr>blobCount := map_option (AList.delete h) (blobCount s), blobCache := bc\<rparr>)
      }
      else Some (s\<lparr>blobCount := map_option (AList.update h (v - 1)) (blobCount s)\<rparr>))"

partial_function (option) rc_evict :: "int \<Rightarrow> ('h, 'b, 'a) rcache \<Rightarrow> ('h, 'b, 'a) rcache option" where
  "rc_evict mx s =
     (if lru_Size (blobCache s) > mx
      then do {
        (kv, ec) \<leftarrow> lru_DeleteOldest (entCache s);
        let s = s\<lparr>entCache := ec\<rparr>;
        (case kv of
           None \<Rightarrow> Some s
         | Some x \<Rightarrow> do { s \<leftarrow> decrBlobCountLocked s (blobHash (snd x)); rc_evict mx s })
      }
      else Some s)"

definition rc_init :: "('h, 'b, 'a) rcache \<Rightarrow> ('h, 'b, 'a) rcache" where
  "rc_init s = (if blobCount s = None
     then s\<lparr>blobCount := Some [], blobCache := (blobCache s)\<lparr>EntrySize := Some (\<lambda>_ v. int (length v))\<rparr>\<rparr>
     else s)"

definition rc_metrics :: "('h, 'b, 'a) rcache \<Rightarrow> ('h, 'b, 'a) rcache" where
  "rc_metrics s = s\<lparr>metricFileEntryCount := int (lru_Len (entCache s)),
     metricBlobEntryCount := int (case blobCount s of None \<Rightarrow> 0 | Some m \<Rightarrow> length m),
     metricBlobEntrySize := lru_Size (blobCache s)\<rparr>"

definition setReadCache ::
  "(bytes \<Rightarrow> 'b) \<Rightarrow> int \<Rightarrow> 'h \<Rightarrow> 'a \<Rightarrow> bytes \<Rightarrow> ('h, 'b, 'a) rcache \<Rightarrow> ('h, 'b, 'a) rcache option" where
  "setReadCache sha fileCacheSize h attr contents s = do {
     let ent = \<lparr>rce_attr = attr, blobHash = sha contents\<rparr>;
     let s = rc_init s;
     was \<leftarrow> lru_PeekOk (entCache s) h;
     s \<leftarrow> (case was of None \<Rightarrow> Some s | Some w \<Rightarrow> decrBlobCountLocked s (blobHash w));
     ec \<leftarrow> lru_Set (entCache s) h ent;
     let s = s\<lparr>entCache := ec\<rparr>;
     let s = s\<lparr>blobCount := map_option (AList.update (blobHash ent) (count_of s (blobHash ent) + 1)) (blobCount s)\<rparr>;
     bc \<leftarrow> lru_Set (blobCache s) (blobHash ent) contents;
     s \<leftarrow> rc_evict (GetFileCacheSize fileCacheSize) (s\<lparr>blobCache := bc\<rparr>);
     Some (rc_metrics s)
   }"

text \<open>\<^verbatim>\<open>FS.getFileContents\<close>, the cache by path.\<close>

definition fs_getFileContents ::
  "int \<Rightarrow> ('k \<Rightarrow> 'e + bytes) \<Rightarrow> 'k \<Rightarrow> ('k, bytes) cache \<Rightarrow> (('e + bytes) \<times> ('k, bytes) cache) option" where
  "fs_getFileContents fileCacheSize getFile k pc = do {
     (v, pc) \<leftarrow> lru_GetOk pc k;
     case v of
       Some b \<Rightarrow> Some (Inr b, pc)
     | None \<Rightarrow>
         (case getFile k of
            Inl e \<Rightarrow> Some (Inl e, pc)
          | Inr b \<Rightarrow> do {
              let pc = (if EntrySize pc = None
                        then pc\<lparr>EntrySize := Some (\<lambda>_ v. int (length v)), MaxSize := GetFileCacheSize fileCacheSize\<rparr>
                        else pc);
              pc \<leftarrow> lru_Set pc k b;
              Some (Inr b, pc)
            })
   }"

section \<open>Invariant\<close>

definition blob_ok :: "(bytes \<Rightarrow> 'b) \<Rightarrow> ('h, 'b, 'a) rcache \<Rightarrow> 'b multiset \<Rightarrow> bool" where
  "blob_ok sha s M \<longleftrightarrow>
     lru_inv (blobCache s) \<and> MaxSize (blobCache s) = 0 \<and>
     entrySize (blobCache s) = (\<lambda>_ v. int (length v)) \<and>
     (\<exists>m. blobCount s = Some m \<and> distinct (map fst m) \<and>
       (\<forall>h. map_of m h = (if h \<in># M then Some (int (count M h)) else None))) \<and>
     (\<forall>h. map_of (entries (blobCache s)) h \<noteq> None \<longleftrightarrow> h \<in># M) \<and>
     (\<forall>h b. map_of (entries (blobCache s)) h = Some b \<longrightarrow> sha b = h)"

definition hashes :: "('h, 'b, 'a) rcache \<Rightarrow> 'b multiset" where
  "hashes s = mset (map (\<lambda>x. blobHash (snd x)) (entries (entCache s)))"

definition rc_inv :: "(bytes \<Rightarrow> 'b) \<Rightarrow> ('h, 'b, 'a) rcache \<Rightarrow> bool" where
  "rc_inv sha s \<longleftrightarrow>
     lru_inv (entCache s) \<and> MaxSize (entCache s) = 0 \<and>
     (case blobCount s of
        None \<Rightarrow> entries (entCache s) = [] \<and> lru_inv (blobCache s) \<and> MaxSize (blobCache s) = 0 \<and> entries (blobCache s) = []
      | Some _ \<Rightarrow> blob_ok sha s (hashes s))"

lemma lru_set_params_empty:
  assumes "lru_inv c" "entries c = []"
  shows "lru_inv (c\<lparr>EntrySize := f\<rparr>)" "entries (c\<lparr>EntrySize := f\<rparr>) = []"
    "lru_inv (c\<lparr>EntrySize := f, MaxSize := M\<rparr>)" "entries (c\<lparr>EntrySize := f, MaxSize := M\<rparr>) = []"
proof -
  from inv_rep [OF assms(1)] assms(2) have "lru_rep c []" by auto
  then have "lru_rep (c\<lparr>EntrySize := f\<rparr>) []" "lru_rep (c\<lparr>EntrySize := f, MaxSize := M\<rparr>) []"
    by (auto simp: lru_rep_def)
  then show "lru_inv (c\<lparr>EntrySize := f\<rparr>)" "entries (c\<lparr>EntrySize := f\<rparr>) = []"
    "lru_inv (c\<lparr>EntrySize := f, MaxSize := M\<rparr>)" "entries (c\<lparr>EntrySize := f, MaxSize := M\<rparr>) = []"
    using rep_inv lru_rep_entries by fastforce+
qed

lemma zero_rcache_inv: "rc_inv sha zero_rcache"
  by (simp add: rc_inv_def zero_rcache_def) (simp add: zero_cache_def)

lemma rc_init_ok:
  assumes "rc_inv sha s"
  shows "blob_ok sha (rc_init s) (hashes s)" "entCache (rc_init s) = entCache s"
proof -
  show "entCache (rc_init s) = entCache s" by (simp add: rc_init_def)
  show "blob_ok sha (rc_init s) (hashes s)"
  proof (cases "blobCount s")
    case None
    with assms have e: "lru_inv (blobCache s)" "entries (blobCache s) = []" "MaxSize (blobCache s) = 0" "hashes s = {#}"
      by (auto simp: rc_inv_def hashes_def)
    with lru_set_params_empty [OF e(1,2)] show ?thesis
      by (simp add: rc_init_def None blob_ok_def entrySize_def fun_eq_iff)
  next
    case (Some m)
    with assms show ?thesis by (simp add: rc_init_def rc_inv_def)
  qed
qed

lemma count_of_ok: "blob_ok sha s M \<Longrightarrow> count_of s h = int (count M h)"
  by (auto simp: blob_ok_def count_of_def not_in_iff)

text \<open>Live entries: the contents cached for a handle.\<close>

definition ent_map :: "('h, 'b, 'a) rcache \<Rightarrow> ('h \<rightharpoonup> 'a \<times> 'b)" where
  "ent_map s h = map_option (\<lambda>e. (rce_attr e, blobHash e)) (map_of (entries (entCache s)) h)"

definition blob_map :: "('h, 'b, 'a) rcache \<Rightarrow> ('b \<rightharpoonup> bytes)" where
  "blob_map s = map_of (entries (blobCache s))"

lemma decr_ok:
  assumes ok: "blob_ok sha s (add_mset h M)"
  obtains s' where "decrBlobCountLocked s h = Some s'" "blob_ok sha s' M" "entCache s' = entCache s"
    "blob_map s' \<subseteq>\<^sub>m blob_map s"
proof -
  from ok obtain m where m: "blobCount s = Some m" "distinct (map fst m)"
    "\<forall>x. map_of m x = (if x \<in># add_mset h M then Some (int (count (add_mset h M) x)) else None)"
    by (auto simp: blob_ok_def)
  have bi: "lru_inv (blobCache s)" using ok by (simp add: blob_ok_def)
  have v: "count_of s h = int (count M h) + 1" using count_of_ok [OF ok, of h] by simp
  show ?thesis
  proof (cases "count M h = 0")
    case True
    from lru.del_law [OF bi, of h] obtain bc where bc: "lru_Delete (blobCache s) h = Some bc" "lru_inv bc"
      "MaxSize bc = MaxSize (blobCache s)" "entrySize bc = entrySize (blobCache s)"
      "entries bc = filter (\<lambda>x. fst x \<noteq> h) (entries (blobCache s))" by blast
    let ?s = "s\<lparr>blobCount := Some (AList.delete h m), blobCache := bc\<rparr>"
    have "decrBlobCountLocked s h = Some ?s" using v True bc(1) m(1) by (simp add: decrBlobCountLocked_def)
    moreover have "blob_ok sha ?s M"
      using ok True bc m(2,3)
      by (auto simp: blob_ok_def lru.map_of_del delete_conv' distinct_delete not_in_iff split: if_splits)
    moreover have "blob_map ?s \<subseteq>\<^sub>m blob_map s"
      by (auto simp: blob_map_def bc(5) lru.map_of_del map_le_def)
    ultimately show ?thesis using that by simp
  next
    case False
    let ?s = "s\<lparr>blobCount := Some (AList.update h (int (count M h)) m)\<rparr>"
    have "decrBlobCountLocked s h = Some ?s"
      using v False m(1) count_greater_zero_iff [of M h]
      by (simp add: decrBlobCountLocked_def Let_def del: count_greater_zero_iff count_eq_zero_iff)
    moreover have "blob_ok sha ?s M"
      using ok False m(2,3) by (auto simp: blob_ok_def update_conv' distinct_update not_in_iff split: if_splits)
    moreover have "blob_map ?s \<subseteq>\<^sub>m blob_map s" by (simp add: blob_map_def)
    ultimately show ?thesis using that by simp
  qed
qed

lemma incr_ok:
  assumes ok: "blob_ok sha s M" and h: "sha contents = h"
  obtains bc where "lru_Set (blobCache s) h contents = Some bc"
    "blob_ok sha (s\<lparr>blobCount := map_option (AList.update h (count_of s h + 1)) (blobCount s), blobCache := bc\<rparr>) (add_mset h M)"
proof -
  from ok obtain m where m: "blobCount s = Some m" "distinct (map fst m)"
    "\<forall>x. map_of m x = (if x \<in># M then Some (int (count M x)) else None)"
    by (auto simp: blob_ok_def)
  have bi: "lru_inv (blobCache s)" "MaxSize (blobCache s) = 0" using ok by (simp_all add: blob_ok_def)
  from lru.put_unlimited [OF bi, of h contents] obtain bc where bc: "lru_Set (blobCache s) h contents = Some bc"
    "lru_inv bc" "MaxSize bc = 0" "entrySize bc = entrySize (blobCache s)"
    "entries bc = touch h contents (entries (blobCache s))" by blast
  have "blob_ok sha (s\<lparr>blobCount := map_option (AList.update h (count_of s h + 1)) (blobCount s), blobCache := bc\<rparr>) (add_mset h M)"
    using ok bc m h
    by (auto simp: blob_ok_def lru.map_of_touch update_conv' distinct_update count_of_ok [OF ok] not_in_iff)
  with bc(1) that show ?thesis by blast
qed

lemma blob_ok_cong:
  "blobCache s' = blobCache s \<Longrightarrow> blobCount s' = blobCount s \<Longrightarrow> blob_ok sha s' M \<longleftrightarrow> blob_ok sha s M"
  by (simp add: blob_ok_def)

lemma blob_ok_empty: "blob_ok sha s {#} \<Longrightarrow> lru_Size (blobCache s) = 0"
  using lru.total_law [of "blobCache s"] map_of_eq_None_iff [of "entries (blobCache s)"]
  by (cases "entries (blobCache s)") (auto simp: blob_ok_def)

definition rc_ready :: "(bytes \<Rightarrow> 'b) \<Rightarrow> ('h, 'b, 'a) rcache \<Rightarrow> bool" where
  "rc_ready sha s \<longleftrightarrow> lru_inv (entCache s) \<and> MaxSize (entCache s) = 0 \<and> blob_ok sha s (hashes s)"

lemma ready_inv: "rc_ready sha s \<Longrightarrow> rc_inv sha s"
  by (auto simp: rc_ready_def rc_inv_def blob_ok_def)

lemma mset_butlast: "xs \<noteq> [] \<Longrightarrow> mset xs = add_mset (last xs) (mset (butlast xs))"
  by (metis add_mset_add_single append_butlast_last_id mset.simps(1,2) mset_append)

lemma map_of_butlast:
  assumes "distinct (map fst xs)"
  shows "map_of (butlast xs) \<subseteq>\<^sub>m map_of xs"
proof (unfold map_le_def, rule ballI)
  fix x assume "x \<in> dom (map_of (butlast xs))"
  then obtain v where "map_of (butlast xs) x = Some v" by auto
  moreover from this have "(x, v) \<in> set xs" by (auto dest!: map_of_SomeD in_set_butlastD)
  ultimately show "map_of (butlast xs) x = map_of xs x" using assms by simp
qed

lemma ent_map_mono:
  "map_of (entries (entCache s')) \<subseteq>\<^sub>m map_of (entries (entCache s)) \<Longrightarrow> ent_map s' \<subseteq>\<^sub>m ent_map s"
  by (auto simp: map_le_def ent_map_def dom_def)

lemma rc_drop_oldest:
  assumes "rc_ready sha s" "entries (entCache s) \<noteq> []"
  obtains ec s' where "lru_DeleteOldest (entCache s) = Some (Some (last (entries (entCache s))), ec)"
    "decrBlobCountLocked (s\<lparr>entCache := ec\<rparr>) (blobHash (snd (last (entries (entCache s))))) = Some s'"
    "rc_ready sha s'" "entries (entCache s') = butlast (entries (entCache s))" "blob_map s' \<subseteq>\<^sub>m blob_map s"
proof -
  have i: "lru_inv (entCache s)" and M: "MaxSize (entCache s) = 0" and b: "blob_ok sha s (hashes s)"
    using assms(1) by (auto simp: rc_ready_def)
  from lru.oldest_law [OF i assms(2)] obtain ec where
    ec: "lru_DeleteOldest (entCache s) = Some (Some (last (entries (entCache s))), ec)" "lru_inv ec"
      "MaxSize ec = MaxSize (entCache s)" "entries ec = butlast (entries (entCache s))" by blast
  let ?s1 = "s\<lparr>entCache := ec\<rparr>" and ?h = "blobHash (snd (last (entries (entCache s))))"
  have "hashes s = add_mset ?h (hashes ?s1)"
    using mset_butlast [OF assms(2)] by (simp add: hashes_def ec(4) mset_map)
  then have "blob_ok sha ?s1 (add_mset ?h (hashes ?s1))" using b by (simp add: blob_ok_def)
  from decr_ok [OF this] obtain s2 where s2: "decrBlobCountLocked ?s1 ?h = Some s2"
    "blob_ok sha s2 (hashes ?s1)" "entCache s2 = ec" "blob_map s2 \<subseteq>\<^sub>m blob_map ?s1" by auto
  have "rc_ready sha s2" using s2 ec M by (simp add: rc_ready_def hashes_def)
  with that ec s2 show ?thesis by (simp add: blob_map_def)
qed

lemma rc_evict_ok:
  assumes "rc_ready sha s"
  shows "\<exists>s'. rc_evict mx s = Some s' \<and> rc_ready sha s' \<and>
    (lru_Size (blobCache s') \<le> mx \<or> entries (entCache s') = []) \<and>
    ent_map s' \<subseteq>\<^sub>m ent_map s \<and> blob_map s' \<subseteq>\<^sub>m blob_map s"
  using assms
proof (induction "length (entries (entCache s))" arbitrary: s rule: less_induct)
  case less
  have i: "lru_inv (entCache s)" using less.prems by (simp add: rc_ready_def)
  consider (fits) "lru_Size (blobCache s) \<le> mx"
    | (empty) "lru_Size (blobCache s) > mx" "entries (entCache s) = []"
    | (drop) "lru_Size (blobCache s) > mx" "entries (entCache s) \<noteq> []" by linarith
  then show ?case
  proof cases
    case fits
    then show ?thesis using less.prems by (subst rc_evict.simps) auto
  next
    case empty
    then show ?thesis using less.prems lru.oldest_empty [OF i] by (subst rc_evict.simps) auto
  next
    case drop
    from rc_drop_oldest [OF less.prems drop(2)] obtain ec s2 where
      s2: "lru_DeleteOldest (entCache s) = Some (Some (last (entries (entCache s))), ec)"
        "decrBlobCountLocked (s\<lparr>entCache := ec\<rparr>) (blobHash (snd (last (entries (entCache s))))) = Some s2"
        "rc_ready sha s2" "entries (entCache s2) = butlast (entries (entCache s))" "blob_map s2 \<subseteq>\<^sub>m blob_map s" .
    moreover have "length (entries (entCache s2)) < length (entries (entCache s))"
      using drop(2) by (simp add: s2(4))
    ultimately obtain s' where s': "rc_evict mx s2 = Some s'" "rc_ready sha s'"
      "lru_Size (blobCache s') \<le> mx \<or> entries (entCache s') = []"
      "ent_map s' \<subseteq>\<^sub>m ent_map s2" "blob_map s' \<subseteq>\<^sub>m blob_map s2" using less.hyps by blast
    have "rc_evict mx s = Some s'" using drop s2(1,2) s'(1) by (subst rc_evict.simps) simp
    moreover have "ent_map s2 \<subseteq>\<^sub>m ent_map s"
      using map_of_butlast [OF lru.keys_distinct [OF i]] by (intro ent_map_mono) (simp add: s2(4))
    ultimately show ?thesis using s' s2(5) by (blast intro: map_le_trans)
  qed
qed

lemma blob_ok_single:
  assumes "blob_ok sha s {#h#}" "blob_map s h = Some b" "in_i64 (int (length b))"
  shows "lru_Size (blobCache s) = int (length b)"
proof -
  have i: "lru_inv (blobCache s)" and d: "\<forall>x. map_of (entries (blobCache s)) x \<noteq> None \<longleftrightarrow> x = h"
    and e: "entrySize (blobCache s) = (\<lambda>_ v. int (length v))"
    using assms(1) by (auto simp: blob_ok_def)
  have "(x, c) \<in> set (entries (blobCache s)) \<longleftrightarrow> x = h \<and> c = b" for x c
    using d assms(2) lru.keys_distinct [OF i] by (metis blob_map_def map_of_eq_Some_iff option.distinct(1) option.inject)
  then have "set (entries (blobCache s)) = {(h, b)}" by auto
  moreover have "distinct (entries (blobCache s))" using lru.keys_distinct [OF i] by (simp add: distinct_map)
  ultimately have "mset (entries (blobCache s)) = mset [(h, b)]"
    by (metis distinct_singleton empty_set list.simps(15) set_eq_iff_mset_eq_distinct)
  then have "entries (blobCache s) = [(h, b)]" by simp
  then show ?thesis using lru.total_law [OF i] e assms(3) by simp
qed

lemma rc_evict_keeps:
  assumes "rc_ready sha s" "entries (entCache s) = x # xs" "blob_map s (blobHash (snd x)) = Some b"
    "int (length b) \<le> mx" "in_i64 mx" "rc_evict mx s = Some s'"
  shows "\<exists>ys. entries (entCache s') = x # ys"
  using assms
proof (induction "length xs" arbitrary: s xs)
  case 0
  then have "blob_ok sha s {#blobHash (snd x)#}" by (simp add: rc_ready_def hashes_def)
  then have "lru_Size (blobCache s) = int (length b)"
    using "0.prems" by (intro blob_ok_single) (auto simp: in_i64_def)
  then show ?case using "0.prems" by (subst (asm) rc_evict.simps) simp
next
  case (Suc n)
  show ?case
  proof (cases "lru_Size (blobCache s) \<le> mx")
    case True
    then show ?thesis using Suc.prems by (subst (asm) rc_evict.simps) simp
  next
    case False
    have ne: "entries (entCache s) \<noteq> []" "xs \<noteq> []" using Suc by auto
    from rc_drop_oldest [OF Suc.prems(1) ne(1)] obtain ec s2 where
      s2: "lru_DeleteOldest (entCache s) = Some (Some (last (entries (entCache s))), ec)"
        "decrBlobCountLocked (s\<lparr>entCache := ec\<rparr>) (blobHash (snd (last (entries (entCache s))))) = Some s2"
        "rc_ready sha s2" "entries (entCache s2) = butlast (entries (entCache s))" "blob_map s2 \<subseteq>\<^sub>m blob_map s" .
    have e2: "entries (entCache s2) = x # butlast xs" using ne Suc.prems(2) by (simp add: s2(4))
    then have "blobHash (snd x) \<in># hashes s2" by (simp add: hashes_def)
    then obtain b' where "blob_map s2 (blobHash (snd x)) = Some b'"
      using s2(3) by (force simp: rc_ready_def blob_ok_def blob_map_def)
    moreover from this have "b' = b" using s2(5) Suc.prems(3) by (auto simp: map_le_def dom_def)
    moreover have "rc_evict mx s2 = Some s'" using Suc.prems(6) False s2(1,2) by (subst (asm) rc_evict.simps) simp
    ultimately show ?thesis using Suc.hyps(1) [of "butlast xs" s2] Suc.hyps(2) Suc.prems s2(3) e2 by simp
  qed
qed

lemma filter_key_hashes:
  assumes "distinct (map fst xs)" "map_of xs k = Some e"
  shows "mset (map (\<lambda>x. blobHash (snd x)) xs) =
    add_mset (blobHash e) (mset (map (\<lambda>x. blobHash (snd x)) (filter (\<lambda>x. fst x \<noteq> k) xs)))"
  using assms
proof (induction xs)
  case (Cons x xs)
  show ?case
  proof (cases "fst x = k")
    case True
    with Cons.prems have "filter (\<lambda>x. fst x \<noteq> k) xs = xs" by (auto simp: filter_id_conv image_iff)
    with True Cons.prems show ?thesis by simp
  qed (use Cons in auto)
qed simp

lemma setReadCache_ok:
  assumes "rc_inv sha s"
  shows "\<exists>s'. setReadCache sha n h a contents s = Some s' \<and> rc_ready sha s' \<and>
    (lru_Size (blobCache s') \<le> GetFileCacheSize n \<or> entries (entCache s') = []) \<and>
    ent_map s' \<subseteq>\<^sub>m (ent_map s)(h \<mapsto> (a, sha contents)) \<and>
    blob_map s' \<subseteq>\<^sub>m (blob_map s)(sha contents \<mapsto> contents) \<and>
    metricFileEntryCount s' = int (length (entries (entCache s'))) \<and>
    metricBlobEntrySize s' = lru_Size (blobCache s') \<and>
    (int (length contents) \<le> GetFileCacheSize n \<and> in_i64 (GetFileCacheSize n) \<longrightarrow> ent_map s' h = Some (a, sha contents))"
proof -
  let ?e = "\<lparr>rce_attr = a, blobHash = sha contents\<rparr>"
  note i0 = rc_init_ok [OF assms]
  have i: "lru_inv (entCache s)" and M: "MaxSize (entCache s) = 0" using assms by (auto simp: rc_inv_def)
  define rest where "rest = mset (map (\<lambda>x. blobHash (snd x)) (filter (\<lambda>x. fst x \<noteq> h) (entries (entCache s))))"
  have bm0: "blob_map (rc_init s) \<subseteq>\<^sub>m blob_map s"
    using assms lru_set_params_empty(2) [of "blobCache s"]
    by (auto simp: blob_map_def rc_init_def rc_inv_def map_le_def)
  obtain s1 where s1: "(case map_of (entries (entCache s)) h of None \<Rightarrow> Some (rc_init s)
      | Some w \<Rightarrow> decrBlobCountLocked (rc_init s) (blobHash w)) = Some s1"
    "blob_ok sha s1 rest" "entCache s1 = entCache s" "blob_map s1 \<subseteq>\<^sub>m blob_map s"
  proof (cases "map_of (entries (entCache s)) h")
    case None
    then have "filter (\<lambda>x. fst x \<noteq> h) (entries (entCache s)) = entries (entCache s)"
      by (auto simp: filter_id_conv map_of_eq_None_iff)
    with None that [of "rc_init s"] i0 bm0 show ?thesis by (simp add: rest_def hashes_def)
  next
    case (Some w)
    with filter_key_hashes [OF lru.keys_distinct [OF i] Some] i0
    have "blob_ok sha (rc_init s) (add_mset (blobHash w) rest)" by (simp add: rest_def hashes_def)
    from decr_ok [OF this] Some i0(2) bm0 that show ?thesis by (metis (no_types, lifting) map_le_trans option.simps(5))
  qed
  from lru.put_unlimited [OF i M, of h ?e] obtain ec where ec: "lru_Set (entCache s) h ?e = Some ec" "lru_inv ec"
    "MaxSize ec = 0" "entries ec = touch h ?e (entries (entCache s))" by blast
  let ?s2 = "s1\<lparr>entCache := ec\<rparr>"
  have "blob_ok sha ?s2 rest" using s1(2) by (simp add: blob_ok_def)
  from incr_ok [OF this refl] obtain bc where bc: "lru_Set (blobCache ?s2) (sha contents) contents = Some bc"
    "blob_ok sha (?s2\<lparr>blobCount := map_option (AList.update (sha contents) (count_of ?s2 (sha contents) + 1)) (blobCount ?s2),
       blobCache := bc\<rparr>) (add_mset (sha contents) rest)" by blast
  let ?s3 = "?s2\<lparr>blobCount := map_option (AList.update (sha contents) (count_of ?s2 (sha contents) + 1)) (blobCount ?s2),
       blobCache := bc\<rparr>"
  have "hashes ?s3 = add_mset (sha contents) rest"
    by (simp add: hashes_def ec(4) touch_def rest_def)
  then have r3: "rc_ready sha ?s3" using bc(2) ec by (simp add: rc_ready_def)
  from rc_evict_ok [OF r3, of "GetFileCacheSize n"] obtain s4 where s4: "rc_evict (GetFileCacheSize n) ?s3 = Some s4"
    "rc_ready sha s4" "lru_Size (blobCache s4) \<le> GetFileCacheSize n \<or> entries (entCache s4) = []"
    "ent_map s4 \<subseteq>\<^sub>m ent_map ?s3" "blob_map s4 \<subseteq>\<^sub>m blob_map ?s3" by blast
  have em: "ent_map ?s3 = (ent_map s)(h \<mapsto> (a, sha contents))"
    by (auto simp: ent_map_def fun_eq_iff ec(4) lru.map_of_touch)
  have bi: "lru_inv (blobCache s1)" "MaxSize (blobCache s1) = 0" using s1(2) by (simp_all add: blob_ok_def)
  have "blob_map ?s3 = (blob_map s1)(sha contents \<mapsto> contents)"
    using lru.put_unlimited [OF bi, of "sha contents" contents] bc(1) by (auto simp: blob_map_def lru.map_of_touch)
  then have b3: "blob_map ?s3 (sha contents) = Some contents" and bm: "blob_map ?s3 \<subseteq>\<^sub>m (blob_map s)(sha contents \<mapsto> contents)"
    using s1(4) by (simp_all add: map_le_upd)
  have keep: "ent_map s4 h = Some (a, sha contents)"
    if "int (length contents) \<le> GetFileCacheSize n" "in_i64 (GetFileCacheSize n)"
    using rc_evict_keeps [OF r3, of "(h, ?e)" _ contents "GetFileCacheSize n" s4] that b3 s4(1) ec(4)
    by (auto simp: touch_def ent_map_def)
  have "setReadCache sha n h a contents s = Some (rc_metrics s4)"
    using s1(1,3) ec(1) bc(1) s4(1) i0(2) lru.peek_law [OF i, of h]
    by (simp add: setReadCache_def Let_def)
  moreover have "rc_ready sha (rc_metrics s4)"
    using s4(2) by (simp add: rc_ready_def rc_metrics_def hashes_def blob_ok_def)
  moreover have "ent_map (rc_metrics s4) = ent_map s4" "blob_map (rc_metrics s4) = blob_map s4"
    by (simp_all add: rc_metrics_def ent_map_def blob_map_def fun_eq_iff)
  moreover have "lru_Len (entCache s4) = length (entries (entCache s4))"
    using s4(2) lru_Len_entries by (auto simp: rc_ready_def)
  ultimately show ?thesis
    using s4(3,4) em map_le_trans [OF s4(5) bm] keep by (simp add: rc_metrics_def)
qed

lemma rc_lookup_ok:
  assumes i: "rc_inv sha s"
  shows "\<exists>s'. rc_lookup s h = Some
      (case ent_map s h of None \<Rightarrow> None | Some (a, bh) \<Rightarrow> map_option (\<lambda>b. (b, a)) (blob_map s bh), s') \<and>
    rc_inv sha s' \<and> ent_map s' = ent_map s \<and> blob_map s' = blob_map s \<and>
    lru_Size (blobCache s') = lru_Size (blobCache s)"
proof -
  have ie: "lru_inv (entCache s)" and ib: "lru_inv (blobCache s)" and M: "MaxSize (entCache s) = 0"
    using i by (auto simp: rc_inv_def blob_ok_def split: option.splits)
  show ?thesis
  proof (cases "map_of (entries (entCache s)) h")
    case None
    then show ?thesis using lru.get_miss [OF ie None] i by (simp add: rc_lookup_def ent_map_def)
  next
    case (Some e)
    from lru.get_hit [OF ie Some] obtain ec where ec: "lru_GetOk (entCache s) h = Some (Some e, ec)" "lru_inv ec"
      "MaxSize ec = MaxSize (entCache s)" "entries ec = touch h e (entries (entCache s))" by blast
    from i Some have c: "blobCount s \<noteq> None" by (auto simp: rc_inv_def split: option.splits)
    from filter_key_hashes [OF lru.keys_distinct [OF ie] Some]
    have hs: "hashes (s\<lparr>entCache := ec, blobCache := bc\<rparr>) = hashes s" for bc
      by (simp add: hashes_def ec(4) touch_def)
    from lru.get_same_map [OF ib, of "blobHash e"] obtain bc where bc:
      "lru_GetOk (blobCache s) (blobHash e) = Some (map_of (entries (blobCache s)) (blobHash e), bc)" "lru_inv bc"
      "MaxSize bc = MaxSize (blobCache s)" "entrySize bc = entrySize (blobCache s)"
      "map_of (entries bc) = map_of (entries (blobCache s))" by blast
    let ?s = "s\<lparr>entCache := ec, blobCache := bc\<rparr>"
    have "mset (entries bc) = mset (entries (blobCache s))"
      using bc(5) lru.keys_distinct [OF ib] lru.keys_distinct [OF bc(2)]
      by (subst set_eq_iff_mset_eq_distinct [symmetric]) (auto simp: distinct_map map_of_inject_set [symmetric] bc(5))
    then have "sizes bc (entries bc) = sizes bc (entries (blobCache s))" by (rule sizes_perm)
    then have sz: "lru_Size bc = lru_Size (blobCache s)"
      using lru_Size_entries [OF ib] lru_Size_entries [OF bc(2)] bc(4) by (simp add: sizes_def)
    have "rc_lookup s h = Some (map_option (\<lambda>b. (b, rce_attr e)) (map_of (entries (blobCache s)) (blobHash e)), ?s)"
      by (simp add: rc_lookup_def ec(1) bc(1) Let_def split: option.split)
    moreover have "rc_inv sha ?s"
      using i c M ec(2,3) bc hs [of bc] by (auto simp: rc_inv_def blob_ok_def)
    moreover have "ent_map ?s = ent_map s" "blob_map ?s = blob_map s"
      using Some by (auto simp: ent_map_def blob_map_def bc(5) ec(4) lru.map_of_touch fun_eq_iff)
    ultimately show ?thesis using sz Some by (auto simp: ent_map_def blob_map_def)
  qed
qed

section \<open>Schedules of lookups and fills\<close>

datatype ('h, 'a) rc_op = Rc_Lookup 'h | Rc_Fill 'h 'a bytes

fun rc_run :: "(bytes \<Rightarrow> 'b) \<Rightarrow> int \<Rightarrow> ('h, 'a) rc_op list \<Rightarrow> ('h, 'b, 'a) rcache \<Rightarrow>
    ((bytes \<times> 'a) option list \<times> ('h, 'b, 'a) rcache) option" where
  "rc_run sha n [] s = Some ([], s)"
| "rc_run sha n (Rc_Lookup h # ops) s = do {
     (r, s) \<leftarrow> rc_lookup s h; (rs, s) \<leftarrow> rc_run sha n ops s; Some (r # rs, s) }"
| "rc_run sha n (Rc_Fill h a c # ops) s = do {
     s \<leftarrow> setReadCache sha n h a c s; (rs, s) \<leftarrow> rc_run sha n ops s; Some (None # rs, s) }"

text \<open>The last fill of every handle.\<close>

fun fills :: "('h, 'a) rc_op list \<Rightarrow> ('h \<rightharpoonup> 'a \<times> bytes) \<Rightarrow> ('h \<rightharpoonup> 'a \<times> bytes)" where
  "fills [] m = m"
| "fills (Rc_Lookup h # ops) m = fills ops m"
| "fills (Rc_Fill h a c # ops) m = fills ops (m(h \<mapsto> (a, c)))"

definition fill_contents :: "('h, 'a) rc_op list \<Rightarrow> bytes set" where
  "fill_contents ops = {c. \<exists>h a. Rc_Fill h a c \<in> set ops}"

text \<open>What the caches hold comes from the fills \<open>m\<close>; blobs are among \<open>C\<close>.\<close>

definition from_fills :: "(bytes \<Rightarrow> 'b) \<Rightarrow> ('h \<rightharpoonup> 'a \<times> bytes) \<Rightarrow> bytes set \<Rightarrow> ('h, 'b, 'a) rcache \<Rightarrow> bool" where
  "from_fills sha m C s \<longleftrightarrow>
     (\<forall>h a bh. ent_map s h = Some (a, bh) \<longrightarrow> (\<exists>c. m h = Some (a, c) \<and> bh = sha c)) \<and>
     (\<forall>bh b. blob_map s bh = Some b \<longrightarrow> sha b = bh \<and> b \<in> C) \<and>
     (\<forall>h a c. m h = Some (a, c) \<longrightarrow> c \<in> C)"

lemma from_fills_fill:
  assumes "from_fills sha m C s" "ent_map s' \<subseteq>\<^sub>m (ent_map s)(h \<mapsto> (a, sha c))"
    "blob_map s' \<subseteq>\<^sub>m (blob_map s)(sha c \<mapsto> c)"
  shows "from_fills sha (m(h \<mapsto> (a, c))) (insert c C) s'"
proof -
  have e: "ent_map s' x = Some y \<Longrightarrow> ((ent_map s)(h \<mapsto> (a, sha c))) x = Some y" for x y
    using assms(2) by (metis domI map_le_def)
  have b: "blob_map s' x = Some y \<Longrightarrow> ((blob_map s)(sha c \<mapsto> c)) x = Some y" for x y
    using assms(3) by (metis domI map_le_def)
  show ?thesis
    using assms(1) by (auto simp: from_fills_def dest!: e b split: if_splits)
qed

lemma rc_run_ok:
  assumes "rc_inv sha s" "from_fills sha m C s"
  shows "\<exists>rs s'. rc_run sha n ops s = Some (rs, s') \<and> rc_inv sha s' \<and>
    from_fills sha (fills ops m) (C \<union> fill_contents ops) s'"
  using assms
proof (induction ops arbitrary: s m C)
  case (Cons x ops)
  show ?case
  proof (cases x)
    case (Rc_Lookup h)
    from rc_lookup_ok [OF Cons.prems(1), of h] obtain r s1 where s1: "rc_lookup s h = Some (r, s1)"
      "rc_inv sha s1" "ent_map s1 = ent_map s" "blob_map s1 = blob_map s" by blast
    have ff: "from_fills sha m C s1" using Cons.prems(2) s1(3,4) by (simp add: from_fills_def)
    have fc: "fill_contents (x # ops) = fill_contents ops" by (simp add: fill_contents_def Rc_Lookup)
    from Cons.IH [OF s1(2) ff] obtain rs s2 where "rc_run sha n ops s1 = Some (rs, s2)" "rc_inv sha s2"
      "from_fills sha (fills ops m) (C \<union> fill_contents ops) s2" by blast
    then show ?thesis using s1(1) unfolding fc by (simp add: Rc_Lookup)
  next
    case (Rc_Fill h a c)
    from setReadCache_ok [OF Cons.prems(1), of n h a c] obtain s1 where s1: "setReadCache sha n h a c s = Some s1"
      "rc_ready sha s1" "ent_map s1 \<subseteq>\<^sub>m (ent_map s)(h \<mapsto> (a, sha c))"
      "blob_map s1 \<subseteq>\<^sub>m (blob_map s)(sha c \<mapsto> c)" by blast
    have fc: "insert c C \<union> fill_contents ops = C \<union> fill_contents (x # ops)"
      by (auto simp: fill_contents_def Rc_Fill)
    from Cons.IH [OF ready_inv [OF s1(2)] from_fills_fill [OF Cons.prems(2) s1(3,4)]] obtain rs s2 where
      "rc_run sha n ops s1 = Some (rs, s2)" "rc_inv sha s2"
      "from_fills sha (fills ops (m(h \<mapsto> (a, c)))) (insert c C \<union> fill_contents ops) s2" by blast
    then show ?thesis using s1(1) unfolding fc by (simp add: Rc_Fill)
  qed
qed (simp add: fill_contents_def)

text \<open>
  C1. The read cache under any schedule: from the zero state, every sequence of lookups and fills
  returns (the \<^verbatim>\<open>bogus decrement\<close> panic is never reached, the eviction loop ends) in a state whose
  blob counts are exactly the numbers of live entries per blob, with one cached blob per counted
  hash; and when no two filled contents collide under the hash, a lookup that hits returns the
  attributes and the contents of the last fill of that very handle.
\<close>
theorem read_cache_coherent:
  assumes "inj_on sha (fill_contents ops)"
  shows "\<exists>rs s. rc_run sha n ops zero_rcache = Some (rs, s) \<and> rc_inv sha s \<and>
    (\<forall>h. \<exists>r s'. rc_lookup s h = Some (r, s') \<and>
       (\<forall>b a. r = Some (b, a) \<longrightarrow> fills ops Map.empty h = Some (a, b)))"
proof -
  have "from_fills sha Map.empty {} zero_rcache"
    by (simp add: from_fills_def ent_map_def blob_map_def zero_rcache_def)
  from rc_run_ok [OF zero_rcache_inv this, of n ops] obtain rs s where
    s: "rc_run sha n ops zero_rcache = Some (rs, s)" "rc_inv sha s"
      "from_fills sha (fills ops Map.empty) (fill_contents ops) s" by auto
  have "\<exists>r s'. rc_lookup s h = Some (r, s') \<and> (\<forall>b a. r = Some (b, a) \<longrightarrow> fills ops Map.empty h = Some (a, b))" for h
  proof -
    from rc_lookup_ok [OF s(2), of h] obtain s' where l: "rc_lookup s h = Some
      (case ent_map s h of None \<Rightarrow> None | Some (a, bh) \<Rightarrow> map_option (\<lambda>b. (b, a)) (blob_map s bh), s')" by blast
    moreover have "fills ops Map.empty h = Some (a, b)"
      if "(case ent_map s h of None \<Rightarrow> None | Some (a, bh) \<Rightarrow> map_option (\<lambda>b. (b, a)) (blob_map s bh)) = Some (b, a)" for a b
    proof -
      from that obtain bh where "ent_map s h = Some (a, bh)" and b: "blob_map s bh = Some b"
        by (auto split: option.splits)
      with s(3) obtain c where c: "fills ops Map.empty h = Some (a, c)" "bh = sha c"
        unfolding from_fills_def by blast
      from c b s(3) have "sha b = sha c" "b \<in> fill_contents ops" "c \<in> fill_contents ops"
        by (auto simp: from_fills_def)
      with assms c(1) show ?thesis by (auto dest: inj_onD)
    qed
    ultimately show ?thesis by blast
  qed
  with s(1,2) show ?thesis by blast
qed

theorem read_cache_coherent_witness:
  "\<exists>rs s. rc_run id 1 [Rc_Fill (1::nat) ''x'' [7], Rc_Fill 2 ''y'' [8], Rc_Fill 1 ''z'' [9], Rc_Lookup 1] zero_rcache = Some (rs, s) \<and>
    rc_inv id s \<and> (\<forall>h. \<exists>r s'. rc_lookup s h = Some (r, s') \<and> (\<forall>b a. r = Some (b, a) \<longrightarrow>
       fills [Rc_Fill (1::nat) ''x'' [7], Rc_Fill 2 ''y'' [8], Rc_Fill 1 ''z'' [9], Rc_Lookup 1] Map.empty h = Some (a, b)))"
  by (rule read_cache_coherent) simp

text \<open>
  C33. A fill of a well-formed read cache succeeds and keeps the blobs within the configured size
  (\<^verbatim>\<open>GetFileCacheSize\<close>) when that is not negative, whatever the size of the new contents; the
  exported metrics then are the number of entries and the blob bytes; and when the contents fit the
  configured size, the next lookup of the handle hits and returns them with their attributes.
\<close>
theorem read_cache_fill:
  assumes "rc_inv sha s" "0 \<le> GetFileCacheSize n" "in_i64 (GetFileCacheSize n)"
  shows "\<exists>s'. setReadCache sha n h a contents s = Some s' \<and> rc_inv sha s' \<and>
    lru_Size (blobCache s') \<le> GetFileCacheSize n \<and>
    metricFileEntryCount s' = int (lru_Len (entCache s')) \<and> metricBlobEntrySize s' = lru_Size (blobCache s') \<and>
    (int (length contents) \<le> GetFileCacheSize n \<longrightarrow> (\<exists>s''. rc_lookup s' h = Some (Some (contents, a), s'')))"
proof -
  from setReadCache_ok [OF assms(1), of n h a contents] obtain s' where
    s': "setReadCache sha n h a contents s = Some s'" "rc_ready sha s'"
      "lru_Size (blobCache s') \<le> GetFileCacheSize n \<or> entries (entCache s') = []"
      "metricFileEntryCount s' = int (length (entries (entCache s')))"
      "metricBlobEntrySize s' = lru_Size (blobCache s')"
      "int (length contents) \<le> GetFileCacheSize n \<longrightarrow> ent_map s' h = Some (a, sha contents)"
      "blob_map s' \<subseteq>\<^sub>m (blob_map s)(sha contents \<mapsto> contents)" using assms(3) by blast
  have "lru_Size (blobCache s') = 0" if "entries (entCache s') = []"
    using s'(2) that by (intro blob_ok_empty [of sha]) (simp add: rc_ready_def hashes_def)
  moreover have "lru_Len (entCache s') = length (entries (entCache s'))"
    using s'(2) lru_Len_entries by (auto simp: rc_ready_def)
  moreover have "\<exists>s''. rc_lookup s' h = Some (Some (contents, a), s'')" if "int (length contents) \<le> GetFileCacheSize n"
  proof -
    have e: "ent_map s' h = Some (a, sha contents)" using s'(6) that by simp
    then have "sha contents \<in># hashes s'"
      by (force simp: ent_map_def hashes_def dest: map_of_SomeD intro!: image_eqI)
    then obtain b where b: "blob_map s' (sha contents) = Some b"
      using s'(2) by (fastforce simp: rc_ready_def blob_ok_def blob_map_def)
    then have "b = contents" using s'(7) by (auto simp: map_le_def dom_def)
    with rc_lookup_ok [OF ready_inv [OF s'(2)], of h] e b show ?thesis by auto
  qed
  ultimately show ?thesis using s' ready_inv [OF s'(2)] assms(2) by auto
qed

theorem read_cache_fill_witness:
  "\<exists>s'. setReadCache id 3 ''h'' ''attr'' [1, 2] zero_rcache = Some s' \<and> rc_inv id s' \<and>
    lru_Size (blobCache s') \<le> GetFileCacheSize 3 \<and>
    metricFileEntryCount s' = int (lru_Len (entCache s')) \<and> metricBlobEntrySize s' = lru_Size (blobCache s') \<and>
    (int (length [1, 2 :: u8]) \<le> GetFileCacheSize 3 \<longrightarrow> (\<exists>s''. rc_lookup s' ''h'' = Some (Some ([1, 2], ''attr''), s'')))"
  by (rule read_cache_fill [OF zero_rcache_inv]) (simp_all add: GetFileCacheSize_def in_i64_def)

section \<open>The cache by path\<close>

definition path_ok :: "int \<Rightarrow> ('k \<Rightarrow> 'e + bytes) \<Rightarrow> ('k, bytes) cache \<Rightarrow> bool" where
  "path_ok n getFile pc \<longleftrightarrow> lru_inv pc \<and> 
     (EntrySize pc = None \<longrightarrow> entries pc = [] \<and> lru_Size pc = 0) \<and>
     (EntrySize pc \<noteq> None \<longrightarrow> EntrySize pc = Some (\<lambda>_ v. int (length v)) \<and> MaxSize pc = GetFileCacheSize n) \<and>
     lru_Size pc \<le> GetFileCacheSize n \<and>
     (\<forall>k b. map_of (entries pc) k = Some b \<longrightarrow> getFile k = Inr b)"

text \<open>The bytes of all contents in the cache.\<close>

definition bytes_in :: "('k, bytes) cache \<Rightarrow> int" where
  "bytes_in pc = sum_list (map (\<lambda>(k, b). int (length b)) (entries pc))"

lemma sum_list_perm: "mset xs = mset ys \<Longrightarrow> sum_list (map f xs) = sum_list (map f ys)" for f :: "'a \<Rightarrow> int"
  unfolding sum_mset_sum_list [symmetric] mset_map by simp

lemma path_lookup_ok:
  assumes "path_ok n getFile pc"
  obtains pc' where "lru_GetOk pc k = Some (map_of (entries pc) k, pc')" "path_ok n getFile pc'"
    "map_of (entries pc) k = None \<Longrightarrow> pc' = pc" "bytes_in pc' = bytes_in pc"
proof (cases "map_of (entries pc) k")
  case None
  with assms that lru_GetOk_miss [of pc k] show ?thesis by (simp add: path_ok_def)
next
  case (Some b)
  have i: "lru_inv pc" using assms by (simp add: path_ok_def)
  from lru_GetOk_hit [OF i Some] obtain pc' where p: "lru_GetOk pc k = Some (Some b, pc')" "lru_inv pc'"
    "same_params pc pc'" "entries pc' = touch k b (entries pc)" by blast
  have m: "map_of (entries pc') = map_of (entries pc)"
    using Some by (simp add: p(4) lru.map_of_touch fun_upd_idem)
  then have ms: "mset (entries pc') = mset (entries pc)"
    using lru.keys_distinct [OF i] lru.keys_distinct [OF p(2)]
    by (subst set_eq_iff_mset_eq_distinct [symmetric]) (auto simp: distinct_map map_of_inject_set [symmetric])
  then have "lru_Size pc' = lru_Size pc"
    using lru_Size_entries [OF i] lru_Size_entries [OF p(2)] sizes_params [OF p(3)] sizes_perm by metis
  moreover have "entries pc \<noteq> []" using Some by auto
  ultimately have "path_ok n getFile pc'" using assms p(2,3) m by (auto simp: path_ok_def same_params_def)
  moreover have "bytes_in pc' = bytes_in pc"
    unfolding bytes_in_def by (rule sum_list_perm [OF ms])
  ultimately show ?thesis using p(1) Some that by simp
qed

text \<open>Filling the cache with the contents of a key that is not cached.\<close>

lemma bytes_mono: "bs \<subseteq># as \<Longrightarrow> sum_list (map (\<lambda>(k, b). int (length b)) bs') \<le> sum_list (map (\<lambda>(k, b). int (length b)) as')"
  if "mset bs' = bs" "mset as' = as" for as' bs' :: "('k \<times> bytes) list"
proof -
  assume "bs \<subseteq># as"
  then obtain cs where "as = bs + cs" by (auto simp: subset_mset.le_iff_add)
  moreover obtain cs' where "mset cs' = cs" using ex_mset by blast
  ultimately have "mset as' = mset (bs' @ cs')" using that by simp
  then have "sum_list (map (\<lambda>(k, b). int (length b)) as') = sum_list (map (\<lambda>(k, b). int (length b)) (bs' @ cs'))"
    by (rule sum_list_perm)
  moreover have "0 \<le> sum_list (map (\<lambda>(k, b). int (length b)) cs')" by (rule sum_list_nonneg) auto
  ultimately show ?thesis by simp
qed

lemma path_fill_ok:
  assumes ok: "path_ok n getFile pc" "0 < GetFileCacheSize n" and b: "getFile k = Inr b"
    and p2: "p2 = (if EntrySize pc = None then pc\<lparr>EntrySize := Some (\<lambda>_ v. int (length v)), MaxSize := GetFileCacheSize n\<rparr> else pc)"
  shows "\<exists>p3. lru_Set p2 k b = Some p3 \<and> path_ok n getFile p3 \<and> lru_Size p3 \<le> GetFileCacheSize n \<and>
    (bytes_in pc + int (length b) < 2 ^ 63 \<longrightarrow> bytes_in p3 \<le> GetFileCacheSize n)"
proof -
  have q: "lru_inv p2" "MaxSize p2 = GetFileCacheSize n" "EntrySize p2 = Some (\<lambda>_ v. int (length v))" "entries p2 = entries pc"
    using ok(1) lru_set_params_empty(3,4) [where c = pc] by (auto simp: p2 path_ok_def)
  from lru_Set_entries [OF q(1), of k b] q(2) ok(2) obtain p3 where p3: "lru_Set p2 k b = Some p3" "lru_inv p3"
    "same_params p2 p3" by auto
  have size: "lru_Size p3 \<le> GetFileCacheSize n"
    using lru.put_bounded [OF q(1) _ p3(1)] q(2) ok(2) by simp
  have "entries p3 = trim (entrySize p2) (MaxSize p2) (touch k b (entries p2))"
    using lru.put_law [OF q(1), of k b] q(2) ok(2) p3(1) by auto
  then obtain m where tk: "entries p3 = take m (touch k b (entries pc))" using trim_prefix q(4) by metis
  have bound: "bytes_in p3 \<le> GetFileCacheSize n" if "bytes_in pc + int (length b) < 2 ^ 63"
  proof -
    have "bytes_in p3 \<le> sum_list (map (\<lambda>(k, b). int (length b)) (touch k b (entries pc)))"
      unfolding bytes_in_def tk by (rule bytes_mono [OF refl refl]) (metis append_take_drop_id mset_append mset_subset_eq_add_left)
    also have "\<dots> \<le> int (length b) + bytes_in pc"
      unfolding bytes_in_def touch_def by (simp add: bytes_mono [OF refl refl] multiset_filter_subset)
    finally have "bytes_in p3 < 2 ^ 63" using that by simp
    moreover have "0 \<le> bytes_in p3" unfolding bytes_in_def by (rule sum_list_nonneg) auto
    moreover have "lru_Size p3 = i64 (bytes_in p3)"
      using lru_Size_entries [OF p3(2)] p3(3) q(3) by (simp add: bytes_in_def sizes_def entrySize_def same_params_def)
    ultimately show ?thesis using size by (simp add: i64_id in_i64_def)
  qed
  have "getFile j = Inr c" if "map_of (entries p3) j = Some c" for j c
  proof (cases "j = k")
    case True
    have "(k, c) \<in> set (touch k b (entries pc))"
      using that True tk by (metis in_set_takeD map_of_SomeD)
    then show ?thesis using b True by (auto simp: touch_def)
  next
    case False
    with lru.put_other [OF q(1) _ p3(1) that] q(2,4) ok show ?thesis by (simp add: path_ok_def)
  qed
  then have "path_ok n getFile p3"
    using p3(2,3) q(2,3) size by (auto simp: path_ok_def same_params_def)
  then show ?thesis using p3(1) size bound by blast
qed

lemma path_cache_ok:
  assumes "path_ok n getFile pc" "0 < GetFileCacheSize n"
  shows "\<exists>pc'. fs_getFileContents n getFile k pc = Some (getFile k, pc') \<and> path_ok n getFile pc' \<and>
    lru_Size pc' \<le> GetFileCacheSize n \<and>
    (bytes_in pc \<le> GetFileCacheSize n \<and> (\<forall>b. getFile k = Inr b \<longrightarrow> GetFileCacheSize n + int (length b) < 2 ^ 63) \<longrightarrow>
       bytes_in pc' \<le> GetFileCacheSize n)"
proof -
  from path_lookup_ok [OF assms(1)] obtain p1 where p1: "lru_GetOk pc k = Some (map_of (entries pc) k, p1)"
    "path_ok n getFile p1" "map_of (entries pc) k = None \<Longrightarrow> p1 = pc" "bytes_in p1 = bytes_in pc" by metis
  show ?thesis
  proof (cases "map_of (entries pc) k")
    case (Some b)
    moreover from this have "getFile k = Inr b" using assms(1) by (simp add: path_ok_def)
    ultimately show ?thesis using p1 by (simp add: fs_getFileContents_def path_ok_def)
  next
    case None
    then show ?thesis using p1 assms path_fill_ok [OF assms _ refl, of k]
      by (cases "getFile k") (auto simp: fs_getFileContents_def path_ok_def)
  qed
qed

text \<open>Only the contents of the key asked for matter.\<close>

lemma fs_getFileContents_cong: "g k = g' k \<Longrightarrow> fs_getFileContents n g k pc = fs_getFileContents n g' k pc"
  by (simp add: fs_getFileContents_def cong: option.case_cong)

text \<open>
  C34. The cache by path is transparent and bounded: on a well-formed cache \<^verbatim>\<open>FS.getFileContents\<close>
  returns exactly what the store's \<^verbatim>\<open>GetFile\<close> returns for that key, errors included, whether or not
  the contents were cached, never panics, and leaves the cache well formed, its entries sized by their length; and the contents
  cached are at most \<^verbatim>\<open>GetFileCacheSize\<close> bytes in all if they were before, for a file that does not overflow the 64-bit size.
\<close>
theorem path_cache_transparent:
  assumes "path_ok n getFile pc" "0 < GetFileCacheSize n"
  shows "\<exists>pc'. fs_getFileContents n getFile k pc = Some (getFile k, pc') \<and> path_ok n getFile pc' \<and>
    lru_Size pc' \<le> GetFileCacheSize n \<and>
    (bytes_in pc \<le> GetFileCacheSize n \<and> (\<forall>b. getFile k = Inr b \<longrightarrow> GetFileCacheSize n + int (length b) < 2 ^ 63) \<longrightarrow>
       bytes_in pc' \<le> GetFileCacheSize n)"
  using path_cache_ok [OF assms] .

theorem path_cache_transparent_witness:
  "\<exists>pc'. fs_getFileContents 0 (\<lambda>k. if k = ''a'' then Inr [1, 2] else Inl ''missing'') ''a'' zero_cache =
      Some (Inr [1, 2], pc') \<and> bytes_in pc' \<le> GetFileCacheSize 0"
proof -
  have z: "bytes_in zero_cache \<le> GetFileCacheSize 0" "GetFileCacheSize 0 + int (length [1, 2 :: u8]) < 2 ^ 63"
    by (simp_all add: bytes_in_def GetFileCacheSize_def)
  have "path_ok 0 (\<lambda>k. if k = ''a'' then Inr [1, 2] else Inl ''missing'') zero_cache" "0 < GetFileCacheSize 0"
    by (simp_all add: path_ok_def GetFileCacheSize_def) (simp add: zero_cache_def lru_Size_def)
  from path_cache_transparent [OF this, of "''a''"] z show ?thesis by auto
qed

end
