(* ===== verification/Nfs_Xdr.thy ===== *)
theory Nfs_Xdr
  imports Store_Iface
begin

unbundle bit_operations_syntax

text \<open>
  The data of the NFS server in \<^verbatim>\<open>temp-dev-fork/willscott/go-nfs\<close> and how it is written: status codes
  (\<^verbatim>\<open>nfsinterface.go\<close>), times and file attributes (\<^verbatim>\<open>time.go\<close>, \<^verbatim>\<open>file.go\<close>), the errors of procedures and
  their form on the wire (\<^verbatim>\<open>errors.go\<close>), and the response under construction (\<^verbatim>\<open>conn.go\<close>).  The XDR
  library (\<^verbatim>\<open>go-nfs-client/nfs/xdr\<close>) is a parameter; a struct is written as its fields in order.
\<close>

section \<open>XDR\<close>

record xdr_lib =
  x_u32 :: "u32 \<Rightarrow> bytes"
  x_u64 :: "u64 \<Rightarrow> bytes"
  x_opaque :: "bytes \<Rightarrow> bytes"
  r_u32 :: "bytes \<Rightarrow> (u32 \<times> bytes) option"
  r_u64 :: "bytes \<Rightarrow> (u64 \<times> bytes) option"
  r_opaque :: "bytes \<Rightarrow> (bytes \<times> bytes) option"

definition x_bool :: "xdr_lib \<Rightarrow> bool \<Rightarrow> bytes" where
  "x_bool X b = x_u32 X (if b then 1 else 0)"

text \<open>What RFC 4506 says of the encodings: readers undo writers and leave what follows.\<close>

definition xdr_ok :: "xdr_lib \<Rightarrow> bool" where
  "xdr_ok X \<longleftrightarrow>
     (\<forall>v rest. r_u32 X (x_u32 X v @ rest) = Some (v, rest)) \<and>
     (\<forall>v rest. r_u64 X (x_u64 X v @ rest) = Some (v, rest)) \<and>
     (\<forall>d rest. length d < 2 ^ 32 \<longrightarrow> r_opaque X (x_opaque X d @ rest) = Some (d, rest)) \<and>
     (\<forall>v. length (x_u32 X v) = 4) \<and> (\<forall>v. length (x_u64 X v) = 8)"

lemma xdr_okD:
  assumes "xdr_ok X"
  shows "r_u32 X (x_u32 X v @ rest) = Some (v, rest)" "r_u64 X (x_u64 X v' @ rest) = Some (v', rest)"
    "length d < 2 ^ 32 \<Longrightarrow> r_opaque X (x_opaque X d @ rest) = Some (d, rest)"
    "length (x_u32 X v) = 4" "length (x_u64 X v') = 8"
  using assms by (simp_all add: xdr_ok_def)

section \<open>Status codes\<close>

datatype NFSStatus =
    NFSStatusOk | NFSStatusPerm | NFSStatusNoEnt | NFSStatusIO | NFSStatusNXIO | NFSStatusAccess
  | NFSStatusExist | NFSStatusXDev | NFSStatusNoDev | NFSStatusNotDir | NFSStatusIsDir | NFSStatusInval
  | NFSStatusFBig | NFSStatusNoSPC | NFSStatusROFS | NFSStatusMlink | NFSStatusNameTooLong
  | NFSStatusNotEmpty | NFSStatusDQuot | NFSStatusStale | NFSStatusRemote | NFSStatusBadHandle
  | NFSStatusNotSync | NFSStatusBadCookie | NFSStatusNotSupp | NFSStatusTooSmall
  | NFSStatusServerFault | NFSStatusBadType | NFSStatusJukebox

fun nfsstat :: "NFSStatus \<Rightarrow> u32" where
  "nfsstat NFSStatusOk = 0" | "nfsstat NFSStatusPerm = 1" | "nfsstat NFSStatusNoEnt = 2"
| "nfsstat NFSStatusIO = 5" | "nfsstat NFSStatusNXIO = 6" | "nfsstat NFSStatusAccess = 13"
| "nfsstat NFSStatusExist = 17" | "nfsstat NFSStatusXDev = 18" | "nfsstat NFSStatusNoDev = 19"
| "nfsstat NFSStatusNotDir = 20" | "nfsstat NFSStatusIsDir = 21" | "nfsstat NFSStatusInval = 22"
| "nfsstat NFSStatusFBig = 27" | "nfsstat NFSStatusNoSPC = 28" | "nfsstat NFSStatusROFS = 30"
| "nfsstat NFSStatusMlink = 31" | "nfsstat NFSStatusNameTooLong = 63" | "nfsstat NFSStatusNotEmpty = 66"
| "nfsstat NFSStatusDQuot = 69" | "nfsstat NFSStatusStale = 70" | "nfsstat NFSStatusRemote = 71"
| "nfsstat NFSStatusBadHandle = 10001" | "nfsstat NFSStatusNotSync = 10002"
| "nfsstat NFSStatusBadCookie = 10003" | "nfsstat NFSStatusNotSupp = 10004"
| "nfsstat NFSStatusTooSmall = 10005" | "nfsstat NFSStatusServerFault = 10006"
| "nfsstat NFSStatusBadType = 10007" | "nfsstat NFSStatusJukebox = 10008"

section \<open>Times\<close>

text \<open>A Go \<^verbatim>\<open>time.Time\<close>: seconds since the epoch, and nanoseconds below a second.\<close>

record gotime =
  tm_sec :: int
  tm_nsec :: nat

record FileTime =
  Seconds :: u32
  Nseconds :: u32

text \<open>Go's \<^verbatim>\<open>%\<close> takes the sign of the dividend.\<close>

definition go_rem :: "int \<Rightarrow> int \<Rightarrow> int" where
  "go_rem a b = (if 0 \<le> a then a mod b else - ((- a) mod b))"

definition UnixNano :: "gotime \<Rightarrow> int" where
  "UnixNano t = i64 (tm_sec t * 1000000000 + int (tm_nsec t))"

definition ToNFSTime :: "gotime \<Rightarrow> FileTime" where
  "ToNFSTime t = \<lparr>Seconds = word_of_int (tm_sec t), Nseconds = word_of_int (go_rem (UnixNano t) 1000000000)\<rparr>"

definition Native :: "FileTime \<Rightarrow> gotime" where
  "Native t = \<lparr>tm_sec = uint (Seconds t) + uint (Nseconds t) div 1000000000, tm_nsec = unat (Nseconds t) mod 1000000000\<rparr>"

definition EqualTimespec :: "FileTime \<Rightarrow> int \<Rightarrow> int \<Rightarrow> bool" where
  "EqualTimespec t sec nsec \<longleftrightarrow> Nseconds t = word_of_int nsec \<and> Seconds t = word_of_int sec"

section \<open>File attributes\<close>

datatype FileType =
    FileTypeRegular | FileTypeDirectory | FileTypeBlock | FileTypeCharacter | FileTypeLink | FileTypeSocket | FileTypeFIFO

fun ftype_num :: "FileType \<Rightarrow> u32" where
  "ftype_num FileTypeRegular = 1" | "ftype_num FileTypeDirectory = 2" | "ftype_num FileTypeBlock = 3"
| "ftype_num FileTypeCharacter = 4" | "ftype_num FileTypeLink = 5" | "ftype_num FileTypeSocket = 6" | "ftype_num FileTypeFIFO = 7"

record FileAttribute =
  fa_Type :: FileType
  fa_FileMode :: u32
  fa_Nlink :: u32
  fa_UID :: u32
  fa_GID :: u32
  fa_Filesize :: u64
  fa_Used :: u64
  fa_SpecData :: "u32 \<times> u32"
  fa_FSID :: u64
  fa_Fileid :: u64
  fa_Atime :: FileTime
  fa_Mtime :: FileTime
  fa_Ctime :: FileTime

record FileCacheAttribute =
  fc_Filesize :: u64
  fc_Mtime :: FileTime
  fc_Ctime :: FileTime

definition AsCache :: "FileAttribute \<Rightarrow> FileCacheAttribute" where
  "AsCache f = \<lparr>fc_Filesize = fa_Filesize f, fc_Mtime = fa_Mtime f, fc_Ctime = fa_Ctime f\<rparr>"

text \<open>
  An \<^verbatim>\<open>os.FileInfo\<close>: its mode with Go's bits, and what \<^verbatim>\<open>file.GetInfo\<close> (of the module go-nfs) finds in
  its \<^verbatim>\<open>Sys()\<close>.
\<close>

record sys_info =
  si_Nlink :: u32
  si_UID :: u32
  si_GID :: u32
  si_Major :: u32
  si_Minor :: u32
  si_Fileid :: u64

record os_info =
  oi_name :: string
  oi_size :: int
  oi_mode :: u32
  oi_mtime :: gotime
  oi_sys :: "sys_info option"

definition ModeDir :: u32 where "ModeDir = push_bit 31 1"
definition ModeSymlink :: u32 where "ModeSymlink = push_bit 27 1"
definition ModeDevice :: u32 where "ModeDevice = push_bit 26 1"
definition ModeNamedPipe :: u32 where "ModeNamedPipe = push_bit 25 1"
definition ModeSocket :: u32 where "ModeSocket = push_bit 24 1"
definition ModeCharDevice :: u32 where "ModeCharDevice = push_bit 21 1"
definition ModeIrregular :: u32 where "ModeIrregular = push_bit 19 1"
definition ModePerm :: u32 where "ModePerm = 511"
definition ModeType :: u32 where
  "ModeType = ModeDir OR ModeSymlink OR ModeNamedPipe OR ModeSocket OR ModeDevice OR ModeCharDevice OR ModeIrregular"

definition oi_IsDir :: "os_info \<Rightarrow> bool" where
  "oi_IsDir i \<longleftrightarrow> oi_mode i AND ModeDir \<noteq> 0"

definition IsRegular :: "u32 \<Rightarrow> bool" where
  "IsRegular m \<longleftrightarrow> m AND ModeType = 0"

text \<open>\<^verbatim>\<open>hash/fnv.New64\<close>.\<close>

definition fnv64 :: "bytes \<Rightarrow> u64" where
  "fnv64 b = fold (\<lambda>c h. (h * 1099511628211) XOR ucast c) b 14695981039346656037"

definition attr_type :: "os_info \<Rightarrow> FileType" where
  "attr_type info =
     (let m = oi_mode info in
      if oi_IsDir info then FileTypeDirectory
      else if m AND ModeSymlink \<noteq> 0 then FileTypeLink
      else if m AND ModeCharDevice \<noteq> 0 then FileTypeCharacter
      else if m AND ModeDevice \<noteq> 0 then FileTypeBlock
      else if m AND ModeSocket \<noteq> 0 then FileTypeSocket
      else if m AND ModeNamedPipe \<noteq> 0 then FileTypeFIFO
      else FileTypeRegular)"

definition ToFileAttribute :: "os_info \<Rightarrow> string \<Rightarrow> FileAttribute" where
  "ToFileAttribute info filePath =
     (let t = ToNFSTime (oi_mtime info) in
      \<lparr>fa_Type = attr_type info, fa_FileMode = oi_mode info AND ModePerm,
       fa_Nlink = (case oi_sys info of None \<Rightarrow> 1 | Some a \<Rightarrow> si_Nlink a),
       fa_UID = (case oi_sys info of None \<Rightarrow> 0 | Some a \<Rightarrow> si_UID a),
       fa_GID = (case oi_sys info of None \<Rightarrow> 0 | Some a \<Rightarrow> si_GID a),
       fa_Filesize = word_of_int (oi_size info), fa_Used = word_of_int (oi_size info),
       fa_SpecData = (case oi_sys info of None \<Rightarrow> (0, 0) | Some a \<Rightarrow> (si_Major a, si_Minor a)),
       fa_FSID = 0,
       fa_Fileid = (case oi_sys info of None \<Rightarrow> fnv64 (to_bytes filePath) | Some a \<Rightarrow> si_Fileid a),
       fa_Atime = t, fa_Mtime = t, fa_Ctime = t\<rparr>)"

definition x_time :: "xdr_lib \<Rightarrow> FileTime \<Rightarrow> bytes" where
  "x_time X t = x_u32 X (Seconds t) @ x_u32 X (Nseconds t)"

definition x_attr :: "xdr_lib \<Rightarrow> FileAttribute \<Rightarrow> bytes" where
  "x_attr X f =
     x_u32 X (ftype_num (fa_Type f)) @ x_u32 X (fa_FileMode f) @ x_u32 X (fa_Nlink f) @ x_u32 X (fa_UID f) @
     x_u32 X (fa_GID f) @ x_u64 X (fa_Filesize f) @ x_u64 X (fa_Used f) @
     x_u32 X (fst (fa_SpecData f)) @ x_u32 X (snd (fa_SpecData f)) @ x_u64 X (fa_FSID f) @ x_u64 X (fa_Fileid f) @
     x_time X (fa_Atime f) @ x_time X (fa_Mtime f) @ x_time X (fa_Ctime f)"

definition x_cache :: "xdr_lib \<Rightarrow> FileCacheAttribute \<Rightarrow> bytes" where
  "x_cache X f = x_u64 X (fc_Filesize f) @ x_time X (fc_Mtime f) @ x_time X (fc_Ctime f)"

definition WritePostOpAttrs :: "xdr_lib \<Rightarrow> FileAttribute option \<Rightarrow> bytes" where
  "WritePostOpAttrs X post = (case post of None \<Rightarrow> x_u32 X 0 | Some f \<Rightarrow> x_u32 X 1 @ x_attr X f)"

definition WriteWcc :: "xdr_lib \<Rightarrow> FileCacheAttribute option \<Rightarrow> FileAttribute option \<Rightarrow> bytes" where
  "WriteWcc X pre post =
     (case pre of None \<Rightarrow> x_u32 X 0 | Some c \<Rightarrow> x_u32 X 1 @ x_cache X c) @
     (case post of None \<Rightarrow> x_u32 X 0 | Some f \<Rightarrow> x_u32 X 1 @ x_attr X f)"

section \<open>Errors of procedures\<close>

datatype RPCError =
    AuthError u32
  | RPCMismatchError u32 u32
  | ResponseCodeProcUnavailableError
  | ResponseCodeSystemError
  | NFSStatusError NFSStatus
  | StatusErrorWithBody NFSStatus bytes

datatype ResponseCode =
    ResponseCodeSuccess | ResponseCodeProgUnavailable | ResponseCodeProcUnavailable | ResponseCodeGarbageArgs
  | ResponseCodeSystemErr | ResponseCodeRPCMismatch | ResponseCodeAuthError

fun respcode :: "ResponseCode \<Rightarrow> u32" where
  "respcode ResponseCodeSuccess = 0" | "respcode ResponseCodeProgUnavailable = 1"
| "respcode ResponseCodeProcUnavailable = 2" | "respcode ResponseCodeGarbageArgs = 3"
| "respcode ResponseCodeSystemErr = 4" | "respcode ResponseCodeRPCMismatch = 5" | "respcode ResponseCodeAuthError = 6"

fun Code :: "RPCError \<Rightarrow> ResponseCode" where
  "Code (AuthError a) = ResponseCodeAuthError"
| "Code (RPCMismatchError l h) = ResponseCodeRPCMismatch"
| "Code ResponseCodeProcUnavailableError = ResponseCodeProcUnavailable"
| "Code ResponseCodeSystemError = ResponseCodeSystemErr"
| "Code (NFSStatusError st) = ResponseCodeSuccess"
| "Code (StatusErrorWithBody st b) = ResponseCodeSuccess"

text \<open>\<^verbatim>\<open>binary.LittleEndian.PutUint32\<close>.\<close>

definition le_put32 :: "u32 \<Rightarrow> bytes" where
  "le_put32 w = rev (be_put32 w)"

fun MarshalBinary :: "RPCError \<Rightarrow> bytes" where
  "MarshalBinary (AuthError a) = le_put32 a"
| "MarshalBinary (RPCMismatchError l h) = le_put32 l @ le_put32 h"
| "MarshalBinary ResponseCodeProcUnavailableError = []"
| "MarshalBinary ResponseCodeSystemError = []"
| "MarshalBinary (NFSStatusError st) = be_put32 (nfsstat st)"
| "MarshalBinary (StatusErrorWithBody st b) = be_put32 (nfsstat st) @ b"

text \<open>An error a procedure returns: one that is an \<^verbatim>\<open>RPCError\<close>, or any other.\<close>

datatype herr = RpcErr RPCError | OtherErr err

abbreviation NfsErr :: "NFSStatus \<Rightarrow> herr" where
  "NfsErr st \<equiv> RpcErr (NFSStatusError st)"

fun basicErrorFormatter :: "herr \<Rightarrow> RPCError" where
  "basicErrorFormatter (RpcErr e) = e"
| "basicErrorFormatter (OtherErr e) = ResponseCodeSystemError"

fun errFormatterWithBody :: "bytes \<Rightarrow> herr \<Rightarrow> RPCError" where
  "errFormatterWithBody b (RpcErr (NFSStatusError st)) = StatusErrorWithBody st b"
| "errFormatterWithBody b (RpcErr e) = e"
| "errFormatterWithBody b (OtherErr e) = ResponseCodeSystemError"

definition opAttrErrorFormatter :: "herr \<Rightarrow> RPCError" where
  "opAttrErrorFormatter = errFormatterWithBody (replicate 4 0)"

definition wccDataErrorFormatter :: "herr \<Rightarrow> RPCError" where
  "wccDataErrorFormatter = errFormatterWithBody (replicate 8 0)"

definition doubleWccErrorBody :: bytes where
  "doubleWccErrorBody = replicate 16 0"

section \<open>Responses\<close>

text \<open>
  A response under construction, with the transaction id and the arguments of its request.  A second
  header is \<^verbatim>\<open>ErrAlreadySent\<close>.
\<close>

record response =
  w_writer :: bytes
  w_responded :: bool
  w_errorFmt :: "herr \<Rightarrow> RPCError"
  w_xid :: u32
  w_prog :: u32
  w_proc :: u32
  w_body :: bytes

definition ErrAlreadySent :: herr where
  "ErrAlreadySent = OtherErr (ErrMsg ''response already started'')"

definition writeXdrHeader :: "xdr_lib \<Rightarrow> response \<Rightarrow> bytes" where
  "writeXdrHeader X w = x_u32 X (w_xid w) @ x_u32 X 1"

definition writeHeader :: "xdr_lib \<Rightarrow> ResponseCode \<Rightarrow> response \<Rightarrow> herr option \<times> response" where
  "writeHeader X code w =
     (if w_responded w then (Some ErrAlreadySent, w)
      else
      let denied = (code = ResponseCodeAuthError \<or> code = ResponseCodeRPCMismatch) in
      (None, w\<lparr>w_responded := True,
         w_writer := w_writer w @ writeXdrHeader X w @ x_u32 X (if denied then 1 else 0) @
           (if denied then [] else x_u32 X 0 @ x_opaque X []) @ x_u32 X (respcode code)\<rparr>))"

definition Write :: "xdr_lib \<Rightarrow> bytes \<Rightarrow> response \<Rightarrow> herr option \<times> response" where
  "Write X dat w =
     (case (if w_responded w then (None, w) else writeHeader X ResponseCodeSuccess w) of
        (Some e, w) \<Rightarrow> (Some e, w)
      | (None, w) \<Rightarrow> (None, w\<lparr>w_writer := w_writer w @ dat\<rparr>))"

lemma Write_eq: "Write X dat w =
  (None, (if w_responded w then w else snd (writeHeader X ResponseCodeSuccess w))\<lparr>w_writer :=
     w_writer (if w_responded w then w else snd (writeHeader X ResponseCodeSuccess w)) @ dat\<rparr>)"
  by (auto simp: Write_def writeHeader_def Let_def)

text \<open>\<^verbatim>\<open>path.Join\<close>.\<close>

definition path_Join :: "string list \<Rightarrow> string" where
  "path_Join elem =
     (let es = dropWhile (\<lambda>e. e = []) elem in if es = [] then [] else path_Clean (join_on slash es))"

section \<open>Times are read back\<close>

text \<open>Times from the epoch to 2106 keep their seconds and nanoseconds.\<close>

lemma go_rem_small: "0 \<le> a \<Longrightarrow> go_rem a b = a mod b"
  by (simp add: go_rem_def)

lemma Native_ToNFSTime:
  assumes "0 \<le> tm_sec t" "tm_sec t < 2 ^ 32" "tm_nsec t < 1000000000"
  shows "Native (ToNFSTime t) = t"
proof -
  let ?n = "tm_sec t * 1000000000 + int (tm_nsec t)"
  have b: "0 \<le> ?n" "?n < 2 ^ 63" using assms by simp_all
  then have "UnixNano t = ?n" by (simp add: UnixNano_def in_i64_def)
  then have "go_rem (UnixNano t) 1000000000 = int (tm_nsec t)" using b(1) assms(3) by (simp add: go_rem_def)
  moreover have "take_bit 32 (tm_nsec t) = tm_nsec t" using assms(3) by (simp add: take_bit_nat_eq_self)
  moreover have "uint (word_of_int (tm_sec t) :: u32) = tm_sec t"
    using assms(1,2) by (simp add: unsigned_of_int take_bit_int_eq_self)
  moreover have "unat (word_of_int (int (tm_nsec t)) :: u32) = tm_nsec t"
    using assms(3) by (simp add: unsigned_of_nat take_bit_nat_eq_self)
  moreover from this have "uint (word_of_int (int (tm_nsec t)) :: u32) = int (tm_nsec t)"
    by (metis uint_nat)
  ultimately show ?thesis using assms(3) by (simp add: Native_def ToNFSTime_def)
qed

end
