(* ===== verification/Nfs_Procs.thy ===== *)
theory Nfs_Procs
  imports Nfs_Xdr "HOL-Library.Monad_Syntax"
begin

unbundle bit_operations_syntax

text \<open>
  The procedures of the NFS server that read (\<^verbatim>\<open>temp-dev-fork/willscott/go-nfs/nfs_on*.go\<close>), over the
  interfaces \<^verbatim>\<open>Handler\<close> of \<^verbatim>\<open>handler.go\<close> and \<^verbatim>\<open>billy.Filesystem\<close>.  A call of an interface that does not
  return (it panics, or runs forever) is \<^const>\<open>None\<close>, and then so is the procedure.
\<close>

section \<open>The interfaces\<close>

type_synonym ('s, 'a) call = "'s \<Rightarrow> ((err + 'a) \<times> 's) option"

record NFSReadResult =
  rr_Data :: bytes
  rr_EOF :: bool
  rr_Attr :: "FileAttribute option"

record FSStat =
  TotalSize :: u64
  FreeSize :: u64
  AvailableSize :: u64
  TotalFiles :: u64
  FreeFiles :: u64
  AvailableFiles :: u64
  CacheHint :: u64

record 's unix_change =
  ch_Mknod :: "string \<Rightarrow> u32 \<Rightarrow> u32 \<Rightarrow> u32 \<Rightarrow> ('s, unit) call"
  ch_Mkfifo :: "string \<Rightarrow> u32 \<Rightarrow> ('s, unit) call"
  ch_Socket :: "string \<Rightarrow> ('s, unit) call"
  ch_Link :: "string \<Rightarrow> string \<Rightarrow> ('s, unit) call"

record 's changer =
  ch_Chmod :: "string \<Rightarrow> u32 \<Rightarrow> ('s, unit) call"
  ch_Lchown :: "string \<Rightarrow> u32 \<Rightarrow> u32 \<Rightarrow> ('s, unit) call"
  ch_Chtimes :: "string \<Rightarrow> gotime \<Rightarrow> gotime \<Rightarrow> ('s, unit) call"
  ch_unix :: "'s unix_change option"

text \<open>
  A user handler with the file system it serves, over a state \<open>'s\<close> and open files \<open>'f\<close>: the optional
  interfaces (\<^verbatim>\<open>ReadHandler\<close>, \<^verbatim>\<open>CachingHandler\<close>, \<^verbatim>\<open>Change\<close>) are options, \<^verbatim>\<open>b_writable\<close> is
  \<^verbatim>\<open>billy.CapabilityCheck(fs, billy.WriteCapability)\<close>, and \<^verbatim>\<open>u_sha\<close> is SHA-256.
\<close>

record ('s, 'f) nfs_user =
  u_FromHandle :: "bytes \<Rightarrow> ('s, string list) call"
  u_ToHandle :: "string list \<Rightarrow> 's \<Rightarrow> bytes \<times> 's"
  u_InvalidateHandle :: "bytes \<Rightarrow> ('s, unit) call"
  u_HandleLimit :: int
  u_Mount :: "bytes \<Rightarrow> 's \<Rightarrow> (u32 \<times> u32 list) \<times> 's"
  u_FSStat :: "FSStat \<Rightarrow> 's \<Rightarrow> ((herr + FSStat) \<times> 's) option"
  u_OnNFSRead :: "(bytes \<Rightarrow> u64 \<Rightarrow> u32 \<Rightarrow> 's \<Rightarrow> ((herr + NFSReadResult) \<times> 's) option) option"
  u_Caching :: "((string \<Rightarrow> os_info list \<Rightarrow> 's \<Rightarrow> u64 \<times> 's) \<times> (string \<Rightarrow> u64 \<Rightarrow> 's \<Rightarrow> os_info list option \<times> 's)) option"
  u_Change :: "'s changer option"
  u_sha :: "bytes \<Rightarrow> bytes"
  u_now :: "'s \<Rightarrow> gotime"
  b_Join :: "string list \<Rightarrow> string"
  b_writable :: bool
  b_isSymlinkFS :: bool
  b_Lstat :: "string \<Rightarrow> ('s, os_info) call"
  b_Stat :: "string \<Rightarrow> ('s, os_info) call"
  b_ReadDir :: "string \<Rightarrow> ('s, os_info list) call"
  b_Readlink :: "string \<Rightarrow> ('s, string) call"
  b_Open :: "string \<Rightarrow> ('s, 'f) call"
  b_OpenFile :: "string \<Rightarrow> u32 \<Rightarrow> u32 \<Rightarrow> ('s, 'f) call"
  b_Create :: "string \<Rightarrow> ('s, 'f) call"
  b_Rename :: "string \<Rightarrow> string \<Rightarrow> ('s, unit) call"
  b_Remove :: "string \<Rightarrow> ('s, unit) call"
  b_MkdirAll :: "string \<Rightarrow> u32 \<Rightarrow> ('s, unit) call"
  b_Symlink :: "string \<Rightarrow> string \<Rightarrow> ('s, unit) call"
  f_ReadAt :: "'f \<Rightarrow> nat \<Rightarrow> int \<Rightarrow> 's \<Rightarrow> ((bytes \<times> err option) \<times> 's) option"
  f_Seek :: "'f \<Rightarrow> int \<Rightarrow> ('s, unit) call"
  f_Write :: "'f \<Rightarrow> bytes \<Rightarrow> ('s, nat) call"
  f_Truncate :: "'f \<Rightarrow> int \<Rightarrow> ('s, unit) call"
  f_Close :: "'f \<Rightarrow> ('s, unit) call"
  f_Name :: "'f \<Rightarrow> string"

section \<open>Steps of procedures\<close>

type_synonym ('s, 'a) step = "'s \<Rightarrow> ((herr + 'a) \<times> 's) option"

definition fail :: "NFSStatus \<Rightarrow> ('s, 'a) step" where
  "fail st s = Some (Inl (NfsErr st), s)"

definition ret :: "'a \<Rightarrow> ('s, 'a) step" where
  "ret x s = Some (Inr x, s)"

text \<open>A call, what its error becomes, and how it goes on; arguments that must parse.\<close>

definition call :: "('s, 'a) call \<Rightarrow> (err \<Rightarrow> herr) \<Rightarrow> ('a \<Rightarrow> ('s, 'b) step) \<Rightarrow> ('s, 'b) step" where
  "call m h f s = (case m s of None \<Rightarrow> None | Some (Inl e, s) \<Rightarrow> Some (Inl (h e), s) | Some (Inr x, s) \<Rightarrow> f x s)"

definition arg :: "'a option \<Rightarrow> ('a \<Rightarrow> ('s, 'b) step) \<Rightarrow> ('s, 'b) step" where
  "arg r f = (case r of None \<Rightarrow> fail NFSStatusInval | Some x \<Rightarrow> f x)"

definition fromH :: "('s, 'f) nfs_user \<Rightarrow> bytes \<Rightarrow> (string list \<Rightarrow> ('s, 'b) step) \<Rightarrow> ('s, 'b) step" where
  "fromH U h = call (u_FromHandle U h) (\<lambda>e. NfsErr NFSStatusStale)"

definition tryStat :: "('s, 'f) nfs_user \<Rightarrow> string list \<Rightarrow> 's \<Rightarrow> (FileAttribute option \<times> 's) option" where
  "tryStat U p s =
     (let fullPath = b_Join U p in
      case b_Lstat U fullPath s of
        None \<Rightarrow> None
      | Some (Inl e, s) \<Rightarrow> Some (None, s)
      | Some (Inr attrs, s) \<Rightarrow> Some (Some (ToFileAttribute attrs fullPath), s))"

definition withStat :: "('s, 'f) nfs_user \<Rightarrow> string list \<Rightarrow> (FileAttribute option \<Rightarrow> ('s, 'b) step) \<Rightarrow> ('s, 'b) step" where
  "withStat U p f s = (case tryStat U p s of None \<Rightarrow> None | Some (a, s) \<Rightarrow> f a s)"

definition os_IsNotExist :: "err \<Rightarrow> bool" where "os_IsNotExist e \<longleftrightarrow> e = ErrNotExist"
definition os_IsPermission :: "err \<Rightarrow> bool" where "os_IsPermission e \<longleftrightarrow> e = ErrPermission"

text \<open>
  A procedure sets its error formatter (when it sets one), reads its arguments from the request, and
  ends in an error or in the bytes it writes.
\<close>

definition run_proc ::
  "xdr_lib \<Rightarrow> (herr \<Rightarrow> RPCError) option \<Rightarrow> (bytes \<Rightarrow> ('s, bytes) step) \<Rightarrow> response \<Rightarrow> 's \<Rightarrow> (herr option \<times> response \<times> 's) option" where
  "run_proc X fmt p w s =
     (let w = (case fmt of None \<Rightarrow> w | Some f \<Rightarrow> w\<lparr>w_errorFmt := f\<rparr>) in
      case p (w_body w) s of
        None \<Rightarrow> None
      | Some (Inl e, s) \<Rightarrow> Some (Some e, w, s)
      | Some (Inr b, s) \<Rightarrow>
          (case Write X b w of
             (Some e, w) \<Rightarrow> Some (Some (NfsErr NFSStatusServerFault), w, s)
           | (None, w) \<Rightarrow> Some (None, w, s)))"

abbreviation statusOk :: "xdr_lib \<Rightarrow> bytes" where
  "statusOk X \<equiv> x_u32 X (nfsstat NFSStatusOk)"

record DirOpArg =
  do_Handle :: bytes
  do_Filename :: string

definition r_DirOpArg :: "xdr_lib \<Rightarrow> bytes \<Rightarrow> (DirOpArg \<times> bytes) option" where
  "r_DirOpArg X b = do {
     (h, b) \<leftarrow> r_opaque X b;
     (f, b) \<leftarrow> r_opaque X b;
     Some (\<lparr>do_Handle = h, do_Filename = str_of_bytes f\<rparr>, b)
   }"

section \<open>Attributes and lookups\<close>

definition onNull :: "xdr_lib \<Rightarrow> ('s, 'f) nfs_user \<Rightarrow> response \<Rightarrow> 's \<Rightarrow> (herr option \<times> response \<times> 's) option" where
  "onNull X U w s = (let (e, w) = Write X [] w in Some (e, w, s))"

definition getAttr_body :: "xdr_lib \<Rightarrow> ('s, 'f) nfs_user \<Rightarrow> bytes \<Rightarrow> ('s, bytes) step" where
  "getAttr_body X U b =
     arg (r_opaque X b) (\<lambda>(handle, _).
     fromH U handle (\<lambda>path.
     let fullPath = b_Join U path in
     call (b_Lstat U fullPath) (\<lambda>e. NfsErr (if os_IsNotExist e then NFSStatusNoEnt else NFSStatusIO)) (\<lambda>info.
     ret (statusOk X @ x_attr X (ToFileAttribute info fullPath)))))"

definition onGetAttr where "onGetAttr X U = run_proc X None (getAttr_body X U)"

definition lookupSuccessResponse ::
  "xdr_lib \<Rightarrow> ('s, 'f) nfs_user \<Rightarrow> bytes \<Rightarrow> string list \<Rightarrow> string list \<Rightarrow> ('s, bytes) step" where
  "lookupSuccessResponse X U handle entPath dirPath =
     withStat U entPath (\<lambda>ea. withStat U dirPath (\<lambda>da.
     ret (statusOk X @ x_opaque X handle @ WritePostOpAttrs X ea @ WritePostOpAttrs X da)))"

definition lookup_body :: "xdr_lib \<Rightarrow> ('s, 'f) nfs_user \<Rightarrow> bytes \<Rightarrow> ('s, bytes) step" where
  "lookup_body X U b =
     arg (r_DirOpArg X b) (\<lambda>(obj, _).
     fromH U (do_Handle obj) (\<lambda>p.
     call (b_Lstat U (b_Join U p)) (\<lambda>e. NfsErr NFSStatusNotDir) (\<lambda>dirInfo.
     if \<not> oi_IsDir dirInfo then fail NFSStatusNotDir
     else if do_Filename obj = ''.'' then lookupSuccessResponse X U (do_Handle obj) p p
     else if do_Filename obj = ''..'' then
       (if p = [] then fail NFSStatusAccess
        else (\<lambda>s. let (pHandle, s) = u_ToHandle U (butlast p) s in lookupSuccessResponse X U pHandle (butlast p) p s))
     else
     let reqPath = p @ [do_Filename obj] in
     call (b_Lstat U (b_Join U reqPath)) (\<lambda>e. NfsErr NFSStatusNoEnt) (\<lambda>_ s.
     let (newHandle, s) = u_ToHandle U reqPath s in lookupSuccessResponse X U newHandle reqPath p s))))"

definition onLookup where "onLookup X U = run_proc X (Some opAttrErrorFormatter) (lookup_body X U)"

definition access_mask :: "bool \<Rightarrow> FileAttribute option \<Rightarrow> u32 \<Rightarrow> u32" where
  "access_mask writable attr msk =
     (let msk = (if writable then msk else msk AND (1 OR 2 OR 0x20)) in
      msk OR 1 OR 2 OR (case attr of Some a \<Rightarrow> if fa_Type a = FileTypeDirectory then 0x20 else 0 | None \<Rightarrow> 0))"

definition access_body :: "xdr_lib \<Rightarrow> ('s, 'f) nfs_user \<Rightarrow> bytes \<Rightarrow> ('s, bytes) step" where
  "access_body X U b =
     arg (r_opaque X b) (\<lambda>(roothandle, b).
     fromH U roothandle (\<lambda>path.
     arg (r_u32 X b) (\<lambda>(msk, _).
     withStat U path (\<lambda>attr.
     ret (statusOk X @ WritePostOpAttrs X attr @ x_u32 X (access_mask (b_writable U) attr msk))))))"

definition onAccess where "onAccess X U = run_proc X (Some opAttrErrorFormatter) (access_body X U)"

text \<open>Where reading a link failed, the error checked last is again that of \<^verbatim>\<open>Readlink\<close>.\<close>

definition readLink_error :: "('s, 'f) nfs_user \<Rightarrow> string \<Rightarrow> err \<Rightarrow> ('s, bytes) step" where
  "readLink_error U p e s =
     (case b_Stat U p s of
        None \<Rightarrow> None
      | Some (r, s) \<Rightarrow>
          (case r of
             Inr info \<Rightarrow>
               if oi_mode info AND ModeSymlink = 0 then fail NFSStatusInval s
               else fail (if os_IsNotExist e then NFSStatusNoEnt else NFSStatusAccess) s
           | Inl _ \<Rightarrow> fail (if os_IsNotExist e then NFSStatusNoEnt else NFSStatusAccess) s))"

definition readLink_body :: "xdr_lib \<Rightarrow> ('s, 'f) nfs_user \<Rightarrow> bytes \<Rightarrow> ('s, bytes) step" where
  "readLink_body X U b =
     arg (r_opaque X b) (\<lambda>(handle, _).
     fromH U handle (\<lambda>path s.
     case b_Readlink U (b_Join U path) s of
       None \<Rightarrow> None
     | Some (Inl e, s) \<Rightarrow> readLink_error U (b_Join U path) e s
     | Some (Inr out, s) \<Rightarrow>
         withStat U path (\<lambda>a. ret (statusOk X @ WritePostOpAttrs X a @ x_opaque X (to_bytes out))) s))"

definition onReadLink where "onReadLink X U = run_proc X (Some opAttrErrorFormatter) (readLink_body X U)"

section \<open>Reading\<close>

definition MaxRead :: u32 where "MaxRead = push_bit 24 1"
definition CheckRead :: u32 where "CheckRead = push_bit 15 1"

record nfsReadArgs =
  ra_Handle :: bytes
  ra_Offset :: u64
  ra_Count :: u32

definition r_readArgs :: "xdr_lib \<Rightarrow> bytes \<Rightarrow> nfsReadArgs option" where
  "r_readArgs X b = do {
     (h, b) \<leftarrow> r_opaque X b;
     (off, b) \<leftarrow> r_u64 X b;
     (c, b) \<leftarrow> r_u32 X b;
     Some \<lparr>ra_Handle = h, ra_Offset = off, ra_Count = c\<rparr>
   }"

definition x_readResponse :: "xdr_lib \<Rightarrow> bytes \<Rightarrow> bool \<Rightarrow> bytes" where
  "x_readResponse X data eof = x_u32 X (word_of_nat (length data)) @ x_u32 X (if eof then 1 else 0) @ x_opaque X data"

definition read_reply :: "xdr_lib \<Rightarrow> FileAttribute option \<Rightarrow> bytes \<Rightarrow> bool \<Rightarrow> bytes" where
  "read_reply X attr data eof = statusOk X @ WritePostOpAttrs X attr @ x_readResponse X data eof"

text \<open>The handler that reads itself: an error that is no \<^verbatim>\<open>*NFSStatusError\<close> becomes one.\<close>

definition read_direct ::
  "xdr_lib \<Rightarrow> (bytes \<Rightarrow> u64 \<Rightarrow> u32 \<Rightarrow> 's \<Rightarrow> ((herr + NFSReadResult) \<times> 's) option) \<Rightarrow> nfsReadArgs \<Rightarrow> ('s, bytes) step" where
  "read_direct X rh obj s =
     (case rh (ra_Handle obj) (ra_Offset obj) (ra_Count obj) s of
        None \<Rightarrow> None
      | Some (Inl (RpcErr (NFSStatusError st)), s) \<Rightarrow> fail st s
      | Some (Inl _, s) \<Rightarrow> fail NFSStatusServerFault s
      | Some (Inr nres, s) \<Rightarrow> ret (read_reply X (rr_Attr nres) (rr_Data nres) (rr_EOF nres)) s)"

text \<open>
  The count after the check against the file's size; \<^verbatim>\<open>info.Size()-int64(obj.Offset)\<close> and
  \<^verbatim>\<open>uint32(uint64(info.Size()) - obj.Offset)\<close> wrap around.
\<close>

definition clip_count :: "int \<Rightarrow> u64 \<Rightarrow> u32 \<Rightarrow> u32" where
  "clip_count sz off c = (if i64 (sz - sint off) < uint c then ucast (word_of_int sz - off) else c)"

definition read_file :: "xdr_lib \<Rightarrow> ('s, 'f) nfs_user \<Rightarrow> nfsReadArgs \<Rightarrow> string list \<Rightarrow> 'f \<Rightarrow> u32 \<Rightarrow> ('s, bytes) step" where
  "read_file X U obj path fh c s =
     (let c = (if MaxRead < c then MaxRead else c) in
      case f_ReadAt U fh (unat c) (sint (ra_Offset obj)) s of
        None \<Rightarrow> None
      | Some ((data, err), s) \<Rightarrow>
          if err \<noteq> None \<and> err \<noteq> Some IoEOF then fail NFSStatusIO s
          else withStat U path (\<lambda>a. ret (read_reply X a data (err = Some IoEOF))) s)"

definition read_billy :: "xdr_lib \<Rightarrow> ('s, 'f) nfs_user \<Rightarrow> nfsReadArgs \<Rightarrow> ('s, bytes) step" where
  "read_billy X U obj =
     fromH U (ra_Handle obj) (\<lambda>path.
     call (b_Open U (b_Join U path)) (\<lambda>e. NfsErr (if os_IsNotExist e then NFSStatusNoEnt else NFSStatusAccess)) (\<lambda>fh s.
     case (if CheckRead < ra_Count obj
           then call (b_Stat U (b_Join U path)) (\<lambda>e. NfsErr NFSStatusAccess)
                  (\<lambda>info. read_file X U obj path fh (clip_count (oi_size info) (ra_Offset obj) (ra_Count obj))) s
           else read_file X U obj path fh (ra_Count obj) s) of
       None \<Rightarrow> None
     | Some (r, s) \<Rightarrow> map_option (\<lambda>(_, s). (r, s)) (f_Close U fh s)))"

definition read_body :: "xdr_lib \<Rightarrow> ('s, 'f) nfs_user \<Rightarrow> bytes \<Rightarrow> ('s, bytes) step" where
  "read_body X U b =
     arg (r_readArgs X b) (\<lambda>obj.
     case u_OnNFSRead U of Some rh \<Rightarrow> read_direct X rh obj | None \<Rightarrow> read_billy X U obj)"

definition onRead where "onRead X U = run_proc X (Some opAttrErrorFormatter) (read_body X U)"

section \<open>Directories\<close>

definition be_put64 :: "u64 \<Rightarrow> bytes" where
  "be_put64 w = be_put32 (ucast (drop_bit 32 w)) @ be_put32 (ucast w)"

definition be_get64 :: "bytes \<Rightarrow> u64" where
  "be_get64 b = push_bit 32 (ucast (be_get32 (take 4 b))) OR ucast (be_get32 (drop 4 b))"

text \<open>Equal, or equal with the bytes reversed (little-endian in, big-endian out).\<close>

definition cookieVerifierEqual :: "u64 \<Rightarrow> u64 \<Rightarrow> bool" where
  "cookieVerifierEqual a b \<longleftrightarrow> a = b \<or> be_get64 (rev (be_put64 a)) = b"

definition hashPathAndContents :: "(bytes \<Rightarrow> bytes) \<Rightarrow> string \<Rightarrow> os_info list \<Rightarrow> u64" where
  "hashPathAndContents sha path contents = be_get64 (take 8 (sha (to_bytes (path @ concat (map oi_name contents)))))"

text \<open>
  Directory entries are sorted by name (\<^verbatim>\<open>sort.Slice\<close> may leave entries of the same name in any order;
  here they keep theirs).
\<close>

definition getDirListingWithVerifier ::
  "('s, 'f) nfs_user \<Rightarrow> bytes \<Rightarrow> u64 \<Rightarrow> (os_info list \<times> u64 \<Rightarrow> ('s, 'b) step) \<Rightarrow> ('s, 'b) step" where
  "getDirListingWithVerifier U fsHandle verifier f =
     fromH U fsHandle (\<lambda>p s.
     let path = b_Join U p;
         (cached, s) = (case u_Caching U of
            Some (_, dataForVerifier) \<Rightarrow> if verifier \<noteq> 0 then dataForVerifier path verifier s else (None, s)
          | None \<Rightarrow> (None, s)) in
     case cached of
       Some entries \<Rightarrow> f (entries, verifier) s
     | None \<Rightarrow>
         call (b_ReadDir U path) (\<lambda>e. NfsErr (if os_IsPermission e then NFSStatusAccess else NFSStatusNotDir)) (\<lambda>contents s.
         let contents = sort_key oi_name contents in
         case u_Caching U of
           Some (verifierFor, _) \<Rightarrow> (let (v, s) = verifierFor path contents s in f (contents, v) s)
         | None \<Rightarrow> f (contents, hashPathAndContents (u_sha U) path contents) s) s)"

record readDirArgs =
  rd_Handle :: bytes
  rd_Cookie :: u64
  rd_CookieVerif :: u64
  rd_Count :: u32

record readDirEntity =
  re_FileID :: u64
  re_Name :: string
  re_Cookie :: u64

definition r_readDirArgs :: "xdr_lib \<Rightarrow> bytes \<Rightarrow> readDirArgs option" where
  "r_readDirArgs X b = do {
     (h, b) \<leftarrow> r_opaque X b;
     (c, b) \<leftarrow> r_u64 X b;
     (v, b) \<leftarrow> r_u64 X b;
     (n, b) \<leftarrow> r_u32 X b;
     Some \<lparr>rd_Handle = h, rd_Cookie = c, rd_CookieVerif = v, rd_Count = n\<rparr>
   }"

text \<open>The file ids of the directory and of its parent, for the first two entries.\<close>

definition dot_ids :: "('s, 'f) nfs_user \<Rightarrow> string list \<Rightarrow> (FileAttribute option \<times> u64 \<times> u64 \<Rightarrow> ('s, 'b) step) \<Rightarrow> ('s, 'b) step" where
  "dot_ids U p f =
     (if p \<noteq> [] then withStat U (butlast p) else (\<lambda>g. g None)) (\<lambda>dda.
     withStat U p (\<lambda>da.
     f (da, (case da of None \<Rightarrow> 0 | Some a \<Rightarrow> fa_Fileid a), (case dda of None \<Rightarrow> 0 | Some a \<Rightarrow> fa_Fileid a))))"

text \<open>The loop over the contents from index \<open>i\<close>: the entries it appends, and whether it saw the end.\<close>

fun readDir_loop ::
  "u32 \<Rightarrow> int \<Rightarrow> string list \<Rightarrow> u64 \<Rightarrow> nat \<Rightarrow> bool \<Rightarrow> u32 \<Rightarrow> readDirEntity list \<Rightarrow> os_info list \<Rightarrow> readDirEntity list \<times> bool" where
  "readDir_loop count maxEntities p cookie0 i started maxBytes ents [] = (ents, True)"
| "readDir_loop count maxEntities p cookie0 i started maxBytes ents (c # cs) =
     (let cookie = word_of_nat (i + 2) in
      if started then
        let maxBytes = maxBytes + 512 in
        if count < maxBytes \<or> maxEntities < int (length ents) then (ents, False)
        else
        let attrs = ToFileAttribute c (path_Join (p @ [oi_name c])) in
        readDir_loop count maxEntities p cookie0 (Suc i) True maxBytes
          (ents @ [\<lparr>re_FileID = fa_Fileid attrs, re_Name = oi_name c, re_Cookie = cookie\<rparr>]) cs
      else readDir_loop count maxEntities p cookie0 (Suc i) (cookie = cookie0) maxBytes ents cs)"

fun x_readDirEntities :: "xdr_lib \<Rightarrow> readDirEntity list \<Rightarrow> bytes" where
  "x_readDirEntities X [] = []"
| "x_readDirEntities X (e # es) =
     x_u64 X (re_FileID e) @ x_opaque X (to_bytes (re_Name e)) @ x_u64 X (re_Cookie e) @ x_bool X (es \<noteq> []) @ x_readDirEntities X es"

definition dot_entities :: "u64 \<Rightarrow> u64 \<Rightarrow> readDirEntity list" where
  "dot_entities dotFileID dotdotFileID =
     [\<lparr>re_FileID = dotFileID, re_Name = ''.'', re_Cookie = 0\<rparr>, \<lparr>re_FileID = dotdotFileID, re_Name = ''..'', re_Cookie = 1\<rparr>]"

text \<open>The entries of a reply and its end marker.\<close>

definition readDir_page ::
  "('s, 'f) nfs_user \<Rightarrow> readDirArgs \<Rightarrow> (readDirEntity list \<times> bool \<times> u64 \<times> string list \<Rightarrow> ('s, 'b) step) \<Rightarrow> ('s, 'b) step" where
  "readDir_page U obj f =
     (if rd_Count obj < 1024 then fail NFSStatusTooSmall
      else fromH U (rd_Handle obj) (\<lambda>p.
      getDirListingWithVerifier U (rd_Handle obj) (rd_CookieVerif obj) (\<lambda>(contents, verifier).
      if rd_Cookie obj > 0 \<and> rd_CookieVerif obj > 0 \<and> \<not> cookieVerifierEqual verifier (rd_CookieVerif obj)
      then fail NFSStatusBadCookie
      else
      let page = (\<lambda>started ents.
            let (ents, eof) = readDir_loop (rd_Count obj) (u_HandleLimit U div 2) p (rd_Cookie obj) 0 started 100 ents contents
            in f (ents, eof, verifier, p)) in
      if rd_Cookie obj = 0 then dot_ids U p (\<lambda>(_, dot, dotdot). page True (dot_entities dot dotdot))
      else page False [])))"

definition readDir_body :: "xdr_lib \<Rightarrow> ('s, 'f) nfs_user \<Rightarrow> bytes \<Rightarrow> ('s, bytes) step" where
  "readDir_body X U b =
     arg (r_readDirArgs X b) (\<lambda>obj.
     readDir_page U obj (\<lambda>(ents, eof, verifier, p).
     withStat U p (\<lambda>a.
     ret (statusOk X @ WritePostOpAttrs X a @ x_u64 X verifier @ x_bool X (ents \<noteq> []) @ x_readDirEntities X ents @ x_bool X eof))))"

definition onReadDir where "onReadDir X U = run_proc X (Some opAttrErrorFormatter) (readDir_body X U)"

record readDirPlusArgs =
  rp_Handle :: bytes
  rp_Cookie :: u64
  rp_CookieVerif :: u64
  rp_DirCount :: u32
  rp_MaxCount :: u32

record readDirPlusEntity =
  pe_FileID :: u64
  pe_Name :: string
  pe_Cookie :: u64
  pe_Attributes :: "FileAttribute option"
  pe_Handle :: "bytes option"

definition r_readDirPlusArgs :: "xdr_lib \<Rightarrow> bytes \<Rightarrow> readDirPlusArgs option" where
  "r_readDirPlusArgs X b = do {
     (h, b) \<leftarrow> r_opaque X b;
     (c, b) \<leftarrow> r_u64 X b;
     (v, b) \<leftarrow> r_u64 X b;
     (d, b) \<leftarrow> r_u32 X b;
     (m, b) \<leftarrow> r_u32 X b;
     Some \<lparr>rp_Handle = h, rp_Cookie = c, rp_CookieVerif = v, rp_DirCount = d, rp_MaxCount = m\<rparr>
   }"

definition openSetDir :: string where "openSetDir = ''.vfs-openset-dir''"


text \<open>The loop also notes whether it met the name that marks an open set.\<close>

fun readDirPlus_loop ::
  "('s, 'f) nfs_user \<Rightarrow> u32 \<Rightarrow> u32 \<Rightarrow> int \<Rightarrow> string list \<Rightarrow> u64 \<Rightarrow> nat \<Rightarrow> bool \<Rightarrow> bool \<Rightarrow> u32 \<Rightarrow> u32 \<Rightarrow> readDirPlusEntity list \<Rightarrow> os_info list \<Rightarrow> 's \<Rightarrow>
    (readDirPlusEntity list \<times> bool \<times> bool) \<times> 's" where
  "readDirPlus_loop U dirCount maxCount maxEntities p cookie0 i saw started dirBytes maxBytes ents [] s = ((ents, True, saw), s)"
| "readDirPlus_loop U dirCount maxCount maxEntities p cookie0 i saw started dirBytes maxBytes ents (c # cs) s =
     (let saw = (saw \<or> oi_name c = openSetDir); cookie = word_of_nat (i + 2) in
      if started then
        let dirBytes = dirBytes + word_of_nat (length (oi_name c) + 20); maxBytes = maxBytes + 512 in
        if dirCount < dirBytes \<or> maxCount < maxBytes \<or> maxEntities < int (length ents) then ((ents, False, saw), s)
        else
        let filePath = p @ [oi_name c];
            (handle, s) = u_ToHandle U filePath s;
            attrs = ToFileAttribute c (path_Join filePath) in
        readDirPlus_loop U dirCount maxCount maxEntities p cookie0 (Suc i) saw True dirBytes maxBytes
          (ents @ [\<lparr>pe_FileID = fa_Fileid attrs, pe_Name = oi_name c, pe_Cookie = cookie, pe_Attributes = Some attrs, pe_Handle = Some handle\<rparr>]) cs s
      else readDirPlus_loop U dirCount maxCount maxEntities p cookie0 (Suc i) saw (cookie = cookie0) dirBytes maxBytes ents cs s)"

fun x_readDirPlusEntities :: "xdr_lib \<Rightarrow> readDirPlusEntity list \<Rightarrow> bytes" where
  "x_readDirPlusEntities X [] = []"
| "x_readDirPlusEntities X (e # es) =
     x_u64 X (pe_FileID e) @ x_opaque X (to_bytes (pe_Name e)) @ x_u64 X (pe_Cookie e) @
     (case pe_Attributes e of None \<Rightarrow> x_bool X False | Some a \<Rightarrow> x_bool X True @ x_attr X a) @
     (case pe_Handle e of None \<Rightarrow> x_bool X False | Some h \<Rightarrow> x_bool X True @ x_opaque X h) @
     x_bool X (es \<noteq> []) @ x_readDirPlusEntities X es"

definition dot_entities_plus :: "FileAttribute option \<Rightarrow> u64 \<Rightarrow> u64 \<Rightarrow> readDirPlusEntity list" where
  "dot_entities_plus da dotFileID dotdotFileID =
     [\<lparr>pe_FileID = dotFileID, pe_Name = ''.'', pe_Cookie = 0, pe_Attributes = da, pe_Handle = None\<rparr>,
      \<lparr>pe_FileID = dotdotFileID, pe_Name = ''..'', pe_Cookie = 1, pe_Attributes = None, pe_Handle = None\<rparr>]"

definition readDirPlus_page ::
  "('s, 'f) nfs_user \<Rightarrow> readDirPlusArgs \<Rightarrow> (readDirPlusEntity list \<times> bool \<times> bool \<times> u64 \<times> string list \<Rightarrow> ('s, 'b) step) \<Rightarrow> ('s, 'b) step" where
  "readDirPlus_page U obj f =
     (if rp_DirCount obj < 512 \<or> rp_MaxCount obj < 4096 then fail NFSStatusTooSmall
      else fromH U (rp_Handle obj) (\<lambda>p.
      getDirListingWithVerifier U (rp_Handle obj) (rp_CookieVerif obj) (\<lambda>(contents, verifier).
      if rp_Cookie obj > 0 \<and> rp_CookieVerif obj > 0 \<and> \<not> cookieVerifierEqual verifier (rp_CookieVerif obj)
      then fail NFSStatusBadCookie
      else
      let page = (\<lambda>started ents s.
            let ((ents, eof, saw), s) = readDirPlus_loop U (rp_DirCount obj) (rp_MaxCount obj) (u_HandleLimit U div 2) p (rp_Cookie obj) 0 False started 0 100 ents contents s
            in f (ents, eof, saw, verifier, p) s) in
      if rp_Cookie obj = 0 then dot_ids U p (\<lambda>(da, dot, dotdot). page True (dot_entities_plus da dot dotdot))
      else page False [])))"

text \<open>For Windows clients the end of a directory that is an open set is denied.\<close>

definition readDirPlus_body :: "xdr_lib \<Rightarrow> bool \<Rightarrow> ('s, 'f) nfs_user \<Rightarrow> bytes \<Rightarrow> ('s, bytes) step" where
  "readDirPlus_body X forWindows U b =
     arg (r_readDirPlusArgs X b) (\<lambda>obj.
     readDirPlus_page U obj (\<lambda>(ents, eof, saw, verifier, p).
     withStat U p (\<lambda>a.
     ret (statusOk X @ WritePostOpAttrs X a @ x_u64 X verifier @ x_bool X (ents \<noteq> []) @ x_readDirPlusEntities X ents @
       x_bool X (eof \<and> \<not> (saw \<and> forWindows))))))"

definition onReadDirPlus where
  "onReadDirPlus X forWindows U = run_proc X (Some opAttrErrorFormatter) (readDirPlus_body X forWindows U)"

section \<open>File systems\<close>

definition FSInfoPropertyLink :: u32 where "FSInfoPropertyLink = 1"
definition FSInfoPropertySymlink :: u32 where "FSInfoPropertySymlink = 2"
definition FSInfoPropertyHomogeneous :: u32 where "FSInfoPropertyHomogeneous = 8"
definition FSInfoPropertyCanSetTime :: u32 where "FSInfoPropertyCanSetTime = 16"

definition fsinfo_properties :: "('s, 'f) nfs_user \<Rightarrow> u32" where
  "fsinfo_properties U =
     (if b_isSymlinkFS U then FSInfoPropertyLink OR FSInfoPropertySymlink else 0) OR FSInfoPropertyHomogeneous OR
     (if b_writable U then FSInfoPropertyCanSetTime else 0)"

definition fsInfo_body :: "xdr_lib \<Rightarrow> ('s, 'f) nfs_user \<Rightarrow> bytes \<Rightarrow> ('s, bytes) step" where
  "fsInfo_body X U b =
     arg (r_opaque X b) (\<lambda>(roothandle, _).
     fromH U roothandle (\<lambda>path.
     withStat U path (\<lambda>a.
     ret (statusOk X @ WritePostOpAttrs X a @
       x_u32 X (push_bit 30 1) @ x_u32 X (push_bit 30 1) @ x_u32 X 4096 @
       x_u32 X (push_bit 30 1) @ x_u32 X (push_bit 30 1) @ x_u32 X 4096 @
       x_u32 X 8192 @ x_u64 X (push_bit 62 1) @ x_u64 X 1 @ x_u32 X (fsinfo_properties U)))))"

definition onFSInfo where "onFSInfo X U = run_proc X None (fsInfo_body X U)"

definition fsstat_defaults :: "('s, 'f) nfs_user \<Rightarrow> FSStat" where
  "fsstat_defaults U =
     (let big = push_bit 62 1; avail = (if b_writable U then big else 0) in
      \<lparr>TotalSize = big, FreeSize = big, AvailableSize = avail, TotalFiles = big, FreeFiles = big, AvailableFiles = avail, CacheHint = 0\<rparr>)"

definition fsStat_body :: "xdr_lib \<Rightarrow> ('s, 'f) nfs_user \<Rightarrow> bytes \<Rightarrow> ('s, bytes) step" where
  "fsStat_body X U b =
     arg (r_opaque X b) (\<lambda>(roothandle, _).
     fromH U roothandle (\<lambda>path s.
     case u_FSStat U (fsstat_defaults U) s of
       None \<Rightarrow> None
     | Some (Inl (RpcErr (NFSStatusError st)), s) \<Rightarrow> fail st s
     | Some (Inl _, s) \<Rightarrow> fail NFSStatusServerFault s
     | Some (Inr r, s) \<Rightarrow>
         withStat U path (\<lambda>a.
         ret (statusOk X @ WritePostOpAttrs X a @ x_u64 X (TotalSize r) @ x_u64 X (FreeSize r) @ x_u64 X (AvailableSize r) @
           x_u64 X (TotalFiles r) @ x_u64 X (FreeFiles r) @ x_u64 X (AvailableFiles r) @ x_u64 X (CacheHint r))) s))"

definition onFSStat where "onFSStat X U = run_proc X None (fsStat_body X U)"

definition PathNameMax :: nat where "PathNameMax = 255"

definition pathConf_body :: "xdr_lib \<Rightarrow> ('s, 'f) nfs_user \<Rightarrow> bytes \<Rightarrow> ('s, bytes) step" where
  "pathConf_body X U b =
     arg (r_opaque X b) (\<lambda>(roothandle, _).
     fromH U roothandle (\<lambda>path.
     withStat U path (\<lambda>a.
     ret (statusOk X @ WritePostOpAttrs X a @ x_u32 X 1 @ x_u32 X (word_of_nat PathNameMax) @ x_u32 X 1 @ x_u32 X 0 @ x_u32 X 0 @ x_u32 X 1))))"

definition onPathConf where "onPathConf X U = run_proc X None (pathConf_body X U)"

text \<open>The write verifier is the server's id.\<close>

definition commit_body :: "xdr_lib \<Rightarrow> bytes \<Rightarrow> ('s, 'f) nfs_user \<Rightarrow> bytes \<Rightarrow> ('s, bytes) step" where
  "commit_body X serverID U b =
     arg (r_opaque X b) (\<lambda>(handle, _).
     fromH U handle (\<lambda>path.
     if \<not> b_writable U then fail NFSStatusServerFault
     else withStat U path (\<lambda>a. ret (statusOk X @ x_u32 X 0 @ WritePostOpAttrs X a @ serverID))))"

definition onCommit where "onCommit X serverID U = run_proc X (Some wccDataErrorFormatter) (commit_body X serverID U)"

section \<open>The encodings of RFC 4506, for examples\<close>

definition opaque_pad :: "nat \<Rightarrow> nat" where
  "opaque_pad n = (3 * n) mod 4"

definition rfc_xdr :: xdr_lib where
  "rfc_xdr = \<lparr>
     x_u32 = be_put32,
     x_u64 = be_put64,
     x_opaque = (\<lambda>d. be_put32 (word_of_nat (length d)) @ d @ replicate (opaque_pad (length d)) 0),
     r_u32 = (\<lambda>b. if length b < 4 then None else Some (be_get32 (take 4 b), drop 4 b)),
     r_u64 = (\<lambda>b. if length b < 8 then None else Some (be_get64 (take 8 b), drop 8 b)),
     r_opaque = (\<lambda>b. if length b < 4 then None
       else let n = unat (be_get32 (take 4 b)) in
         if length b < 4 + n + opaque_pad n then None else Some (take n (drop 4 b), drop (4 + n + opaque_pad n) b))\<rparr>"

lemma be_get64_put64 [simp]: "be_get64 (be_put64 w) = w"
proof -
  have "be_get64 (be_put64 w) = push_bit 32 (ucast (ucast (drop_bit 32 w) :: u32)) OR ucast (ucast w :: u32)"
    by (simp add: be_get64_def be_put64_def)
  also have "\<dots> = w" by (rule bit_word_eqI) (auto simp: bit_simps)
  finally show ?thesis .
qed

lemma rfc_xdr_ok: "xdr_ok rfc_xdr"
proof -
  have "unat (word_of_nat (length d) :: u32) = length d" if "length d < 2 ^ 32" for d :: bytes
    using that by (simp add: unsigned_of_nat take_bit_nat_eq_self)
  moreover have "length (be_put64 w) = 8" for w by (simp add: be_put64_def)
  ultimately show ?thesis by (simp add: xdr_ok_def rfc_xdr_def Let_def)
qed

end
