(* ===== verification/Nfs_Listing.thy ===== *)
theory Nfs_Listing
  imports Nfs_Procs
begin

unbundle bit_operations_syntax

text \<open>
  Listing a directory in pages: a client that asks for the next page with the cookie and verifier of
  the last (RFC 1813), and the lemmas that it is given every entry once, in order.
\<close>

section \<open>The client\<close>

fun paged ::
  "(u64 \<Rightarrow> u64 \<Rightarrow> 's \<Rightarrow> ((herr + 'e list \<times> bool \<times> u64) \<times> 's) option) \<Rightarrow> ('e \<Rightarrow> u64) \<Rightarrow> nat \<Rightarrow> u64 \<Rightarrow> u64 \<Rightarrow> 's \<Rightarrow> ('e list \<times> 's) option" where
  "paged page ck 0 cookie verif s = None"
| "paged page ck (Suc n) cookie verif s =
     (case page cookie verif s of
        Some (Inr (ents, eof, v), s) \<Rightarrow>
          if eof then Some (ents, s)
          else if ents = [] then None
          else map_option (\<lambda>(es, s). (ents @ es, s)) (paged page ck n (ck (last ents)) v s)
      | _ \<Rightarrow> None)"

definition list_dir :: "nat \<Rightarrow> ('s, 'f) nfs_user \<Rightarrow> bytes \<Rightarrow> u32 \<Rightarrow> 's \<Rightarrow> (readDirEntity list \<times> 's) option" where
  "list_dir n U h count =
     paged (\<lambda>cookie verif. readDir_page U \<lparr>rd_Handle = h, rd_Cookie = cookie, rd_CookieVerif = verif, rd_Count = count\<rparr> (\<lambda>(ents, eof, v, p). ret (ents, eof, v)))
       re_Cookie n 0 0"

definition list_dir_plus :: "nat \<Rightarrow> ('s, 'f) nfs_user \<Rightarrow> bytes \<Rightarrow> u32 \<Rightarrow> u32 \<Rightarrow> 's \<Rightarrow> (readDirPlusEntity list \<times> 's) option" where
  "list_dir_plus n U h dirCount maxCount =
     paged (\<lambda>cookie verif. readDirPlus_page U \<lparr>rp_Handle = h, rp_Cookie = cookie, rp_CookieVerif = verif, rp_DirCount = dirCount, rp_MaxCount = maxCount\<rparr>
              (\<lambda>(ents, eof, saw, v, p). ret (ents, eof, v)))
       pe_Cookie n 0 0"

text \<open>
  Pages of a list \<open>cs\<close>: each is some first part of what the cookie leaves, not empty as long as
  something is left, and its last cookie is the number of entries given so far.
\<close>

lemma paged_rest:
  assumes app: "\<And>i a b. entf i (a @ b) = entf i a @ entf (i + length a) b"
    and lst: "\<And>i xs. xs \<noteq> [] \<Longrightarrow> entf i xs \<noteq> [] \<and> ck (last (entf i xs)) = word_of_nat (i + length xs + 1)"
    and nxt: "\<And>s k. good s \<Longrightarrow> 0 < k \<Longrightarrow> k \<le> length cs \<Longrightarrow>
      \<exists>m s'. page (word_of_nat (k + 1)) ver s = Some (Inr (entf k (take m (drop k cs)), m = length cs - k, ver), s') \<and>
        good s' \<and> m \<le> length cs - k \<and> (k < length cs \<longrightarrow> 0 < m)"
  shows "good s \<Longrightarrow> 0 < k \<Longrightarrow> k \<le> length cs \<Longrightarrow> length cs - k < n \<Longrightarrow>
    \<exists>s'. paged page ck n (word_of_nat (k + 1)) ver s = Some (entf k (drop k cs), s') \<and> good s'"
proof (induction n arbitrary: k s)
  case (Suc n)
  obtain m s1 where m: "page (word_of_nat (k + 1)) ver s = Some (Inr (entf k (take m (drop k cs)), m = length cs - k, ver), s1)" "good s1"
    "m \<le> length cs - k" "k < length cs \<longrightarrow> 0 < m"
    using nxt [OF Suc.prems(1-3)] by blast
  show ?case
  proof (cases "m = length cs - k")
    case True
    then show ?thesis using m by simp
  next
    case False
    then have k: "0 < m" "k + m \<le> length cs" using m(3,4) by auto
    let ?xs = "take m (drop k cs)"
    have ne: "?xs \<noteq> []" and tm: "length ?xs = m" using k False by auto
    have l: "entf k ?xs \<noteq> []" "ck (last (entf k ?xs)) = word_of_nat (k + m + 1)" using lst [OF ne, of k] tm by simp_all
    have "length cs - (k + m) < n" using k Suc.prems(4) by linarith
    then obtain s2 where "paged page ck n (word_of_nat (k + m + 1)) ver s1 = Some (entf (k + m) (drop (k + m) cs), s2)" "good s2"
      using Suc.IH [OF m(2), of "k + m"] k by auto
    moreover have "entf k (drop k cs) = entf k ?xs @ entf (k + m) (drop (k + m) cs)"
      using app [of k ?xs "drop m (drop k cs)"] unfolding tm append_take_drop_id by (simp add: add.commute)
    ultimately show ?thesis using False m(1) l by (auto simp del: of_nat_Suc of_nat_add)
  qed
qed simp

lemma paged_all:
  assumes app: "\<And>i a b. entf i (a @ b) = entf i a @ entf (i + length a) b"
    and lst: "\<And>i xs. xs \<noteq> [] \<Longrightarrow> entf i xs \<noteq> [] \<and> ck (last (entf i xs)) = word_of_nat (i + length xs + 1)"
    and nxt: "\<And>s k. good s \<Longrightarrow> 0 < k \<Longrightarrow> k \<le> length cs \<Longrightarrow>
      \<exists>m s'. page (word_of_nat (k + 1)) ver s = Some (Inr (entf k (take m (drop k cs)), m = length cs - k, ver), s') \<and>
        good s' \<and> m \<le> length cs - k \<and> (k < length cs \<longrightarrow> 0 < m)"
    and fst: "page 0 v s = Some (Inr (dots @ entf 0 (take m cs), m = length cs, ver), s1)" "good s1" "m \<le> length cs" "cs \<noteq> [] \<longrightarrow> 0 < m"
  shows "\<exists>s'. paged page ck (length cs + 2) 0 v s = Some (dots @ entf 0 cs, s') \<and> good s'"
proof (cases "m = length cs")
  case True
  then show ?thesis using fst by simp
next
  case False
  then have k: "0 < m" "m < length cs" using fst(3,4) by (auto simp: le_less)
  have ne: "take m cs \<noteq> []" and tm: "length (take m cs) = m" using k by auto
  have l: "entf 0 (take m cs) \<noteq> []" "ck (last (dots @ entf 0 (take m cs))) = word_of_nat (m + 1)" using lst [OF ne, of 0] tm by simp_all
  obtain s2 where s2: "paged page ck (length cs + 1) (word_of_nat (m + 1)) ver s1 = Some (entf m (drop m cs), s2)" "good s2"
    using paged_rest [where good = good and entf = entf and cs = cs and page = page and ver = ver and ck = ck, OF app lst nxt fst(2) k(1) less_imp_le [OF k(2)], of "length cs + 1"] by fastforce
  have "entf 0 cs = entf 0 (take m cs) @ entf m (drop m cs)"
    using app [of 0 "take m cs" "drop m cs"] unfolding tm by simp
  moreover have "paged page ck (Suc (length cs + 1)) 0 v s = Some ((dots @ entf 0 (take m cs)) @ entf m (drop m cs), s2)"
    unfolding paged.simps(2) [of page ck "length cs + 1"] using False fst(1) l s2(1) by (simp del: of_nat_Suc of_nat_add paged.simps)
  ultimately show ?thesis using s2(2) by simp
qed

section \<open>One page\<close>

definition entity :: "string list \<Rightarrow> nat \<Rightarrow> os_info \<Rightarrow> readDirEntity" where
  "entity p i c = \<lparr>re_FileID = fa_Fileid (ToFileAttribute c (path_Join (p @ [oi_name c]))), re_Name = oi_name c, re_Cookie = word_of_nat (i + 2)\<rparr>"

fun ents_from :: "string list \<Rightarrow> nat \<Rightarrow> os_info list \<Rightarrow> readDirEntity list" where
  "ents_from p i [] = []"
| "ents_from p i (c # cs) = entity p i c # ents_from p (Suc i) cs"

lemma ents_from_append: "ents_from p i (a @ b) = ents_from p i a @ ents_from p (i + length a) b"
  by (induction a arbitrary: i) simp_all

lemma ents_from_names: "map re_Name (ents_from p i cs) = map oi_name cs"
  by (induction cs arbitrary: i) (simp_all add: entity_def)

lemma ents_from_last: "cs \<noteq> [] \<Longrightarrow> re_Cookie (last (ents_from p i cs)) = word_of_nat (i + length cs + 1)"
  by (cases cs rule: rev_cases) (simp_all add: ents_from_append entity_def add.assoc numeral_2_eq_2)

lemma ents_from_Nil [simp]: "ents_from p i cs = [] \<longleftrightarrow> cs = []"
  by (cases cs) simp_all

lemma readDir_loop_started:
  "int (length ents + length cs) \<le> maxE \<Longrightarrow>
   \<exists>k \<le> length cs. readDir_loop count maxE p c0 i True mb ents cs = (ents @ ents_from p i (take k cs), k = length cs) \<and>
     (cs \<noteq> [] \<and> mb + 512 \<le> count \<longrightarrow> 0 < k)"
proof (induction cs arbitrary: i mb ents)
  case (Cons c cs)
  show ?case
  proof (cases "count < mb + 512")
    case True
    then show ?thesis by (intro exI [of _ 0]) (simp add: Let_def)
  next
    case False
    have "int (length (ents @ [entity p i c]) + length cs) \<le> maxE" using Cons.prems by simp
    from Cons.IH [OF this, of "Suc i" "mb + 512"] obtain k where k: "k \<le> length cs"
      "readDir_loop count maxE p c0 (Suc i) True (mb + 512) (ents @ [entity p i c]) cs = ((ents @ [entity p i c]) @ ents_from p (Suc i) (take k cs), k = length cs)"
      by blast
    have "readDir_loop count maxE p c0 i True mb ents (c # cs) =
        readDir_loop count maxE p c0 (Suc i) True (mb + 512) (ents @ [entity p i c]) cs"
      using False Cons.prems by (simp add: Let_def entity_def)
    then show ?thesis using k by (intro exI [of _ "Suc k"]) simp
  qed
qed simp

lemma word_of_nat_inj64: "a < 2 ^ 64 \<Longrightarrow> b < 2 ^ 64 \<Longrightarrow> (word_of_nat a :: u64) = word_of_nat b \<longleftrightarrow> a = b"
  by (simp add: word_of_nat_eq_iff take_bit_nat_eq_self)

lemma readDir_loop_skip:
  "i + length as + 2 < 2 ^ 64 \<Longrightarrow>
   readDir_loop count maxE p (word_of_nat (i + length as + 2)) i False mb ents (as @ a # bs) =
   readDir_loop count maxE p (word_of_nat (i + length as + 2)) (i + length as + 1) True mb ents bs"
proof (induction as arbitrary: i)
  case (Cons x as)
  have "(word_of_nat (i + 2) :: u64) \<noteq> word_of_nat (i + length (x # as) + 2)"
    using Cons.prems by (subst word_of_nat_inj64) simp_all
  then show ?case using Cons.IH [of "Suc i"] Cons.prems by (simp add: Let_def)
qed (simp add: Let_def)

lemma readDir_loop_from:
  assumes "0 < k" "k \<le> length cs" "length cs + 2 < 2 ^ 64"
  shows "readDir_loop count maxE p (word_of_nat (k + 1)) 0 False mb ents cs =
    readDir_loop count maxE p (word_of_nat (k + 1)) k True mb ents (drop k cs)"
proof -
  have "cs = take (k - 1) cs @ cs ! (k - 1) # drop k cs"
    using assms id_take_nth_drop [of "k - 1" cs] by simp
  moreover have "length (take (k - 1) cs) = k - 1" using assms by simp
  ultimately show ?thesis
    using readDir_loop_skip [of 0 "take (k - 1) cs" count maxE p mb ents "cs ! (k - 1)" "drop k cs"] assms
    by (simp add: numeral_2_eq_2)
qed

definition pentity :: "(string list \<Rightarrow> bytes) \<Rightarrow> string list \<Rightarrow> nat \<Rightarrow> os_info \<Rightarrow> readDirPlusEntity" where
  "pentity hdl p i c =
     (let attrs = ToFileAttribute c (path_Join (p @ [oi_name c])) in
      \<lparr>pe_FileID = fa_Fileid attrs, pe_Name = oi_name c, pe_Cookie = word_of_nat (i + 2), pe_Attributes = Some attrs, pe_Handle = Some (hdl (p @ [oi_name c]))\<rparr>)"

fun pents_from :: "(string list \<Rightarrow> bytes) \<Rightarrow> string list \<Rightarrow> nat \<Rightarrow> os_info list \<Rightarrow> readDirPlusEntity list" where
  "pents_from hdl p i [] = []"
| "pents_from hdl p i (c # cs) = pentity hdl p i c # pents_from hdl p (Suc i) cs"

lemma pents_from_append: "pents_from hdl p i (a @ b) = pents_from hdl p i a @ pents_from hdl p (i + length a) b"
  by (induction a arbitrary: i) simp_all

lemma pents_from_last: "cs \<noteq> [] \<Longrightarrow> pe_Cookie (last (pents_from hdl p i cs)) = word_of_nat (i + length cs + 1)"
  by (cases cs rule: rev_cases) (simp_all add: pents_from_append pentity_def Let_def add.assoc numeral_2_eq_2)

lemma pents_from_Nil [simp]: "pents_from hdl p i cs = [] \<longleftrightarrow> cs = []"
  by (cases cs) simp_all

lemma readDirPlus_loop_skip:
  "i + length as + 2 < 2 ^ 64 \<Longrightarrow>
   \<exists>saw'. readDirPlus_loop U dc mc maxE p (word_of_nat (i + length as + 2)) i saw False db mb ents (as @ a # bs) s =
   readDirPlus_loop U dc mc maxE p (word_of_nat (i + length as + 2)) (i + length as + 1) saw' True db mb ents bs s"
proof (induction as arbitrary: i saw)
  case (Cons x as)
  have "(word_of_nat (i + 2) :: u64) \<noteq> word_of_nat (i + length (x # as) + 2)"
    using Cons.prems by (subst word_of_nat_inj64) simp_all
  then show ?case using Cons.IH [of "Suc i"] Cons.prems by (simp add: Let_def)
qed (auto simp: Let_def)

lemma readDirPlus_loop_from:
  assumes "0 < k" "k \<le> length cs" "length cs + 2 < 2 ^ 64"
  shows "\<exists>saw'. readDirPlus_loop U dc mc maxE p (word_of_nat (k + 1)) 0 saw False db mb ents cs s =
    readDirPlus_loop U dc mc maxE p (word_of_nat (k + 1)) k saw' True db mb ents (drop k cs) s"
proof -
  have "cs = take (k - 1) cs @ cs ! (k - 1) # drop k cs"
    using assms id_take_nth_drop [of "k - 1" cs] by simp
  moreover have "length (take (k - 1) cs) = k - 1" using assms by simp
  ultimately show ?thesis
    using readDirPlus_loop_skip [of 0 "take (k - 1) cs" U dc mc maxE p saw db mb ents "cs ! (k - 1)" "drop k cs" s] assms
    by (simp add: numeral_2_eq_2)
qed

section \<open>The interface a directory's pages rely on\<close>

text \<open>
  A directory that stays: its handle is resolved to the same path, its listing and the handles of its
  entries do not change, whatever these calls do to the state.
\<close>

locale nfs_dir =
  fixes U :: "('s, 'f) nfs_user" and inv :: "'s \<Rightarrow> bool" and h :: bytes and p :: "string list"
    and contents :: "os_info list" and hdl :: "string list \<Rightarrow> bytes"
  assumes from_handle: "inv s \<Longrightarrow> \<exists>s'. u_FromHandle U h s = Some (Inr p, s') \<and> inv s'"
    and lstat: "inv s \<Longrightarrow> q = p \<or> q = butlast p \<Longrightarrow> \<exists>r s'. b_Lstat U (b_Join U q) s = Some (r, s') \<and> inv s'"
    and readdir: "inv s \<Longrightarrow> \<exists>s'. b_ReadDir U (b_Join U p) s = Some (Inr contents, s') \<and> inv s'"
    and to_handle: "inv s \<Longrightarrow> c \<in> set contents \<Longrightarrow> \<exists>s'. u_ToHandle U (p @ [oi_name c]) s = (hdl (p @ [oi_name c]), s') \<and> inv s'"
    and no_cache: "u_Caching U = None"
    and limit: "inv s \<Longrightarrow> int (length contents) + 2 \<le> u_HandleLimit U div 2"
    and few: "inv s \<Longrightarrow> length contents + 2 < 2 ^ 64"
begin

definition cs :: "os_info list" where
  "cs = sort_key oi_name contents"

definition ver :: u64 where
  "ver = hashPathAndContents (u_sha U) (b_Join U p) cs"

lemma cs_length: "length cs = length contents"
  by (simp add: cs_def)

lemma try_stat: "inv s \<Longrightarrow> q = p \<or> q = butlast p \<Longrightarrow> \<exists>a s'. tryStat U q s = Some (a, s') \<and> inv s'"
  using lstat [of s q] by (auto simp: tryStat_def Let_def split: sum.split)

lemma listing: "inv s \<Longrightarrow> \<exists>s'. getDirListingWithVerifier U h v f s = f (cs, ver) s' \<and> inv s'"
  using from_handle [of s] readdir no_cache
  by (fastforce simp: getDirListingWithVerifier_def fromH_def call_def Let_def cs_def ver_def)

lemma dots: "inv s \<Longrightarrow> \<exists>da d dd s'. dot_ids U p f s = f (da, d, dd) s' \<and> inv s'"
proof -
  assume s: "inv s"
  show ?thesis
  proof (cases "p = []")
    case True
    obtain da s' where "tryStat U p s = Some (da, s')" "inv s'" using try_stat [OF s, of p] by blast
    then show ?thesis using True by (auto simp: dot_ids_def withStat_def)
  next
    case False
    obtain dda s1 where 1: "tryStat U (butlast p) s = Some (dda, s1)" "inv s1" using try_stat [OF s, of "butlast p"] by blast
    obtain da s2 where "tryStat U p s1 = Some (da, s2)" "inv s2" using try_stat [OF 1(2), of p] by blast
    then show ?thesis using False 1 by (auto simp: dot_ids_def withStat_def)
  qed
qed

lemma room: "1024 \<le> count \<Longrightarrow> (100 :: u32) + 512 \<le> count"
  by (rule order_trans [of _ 1024]) simp_all

lemma first_page:
  assumes "inv s" "1024 \<le> count"
  shows "\<exists>m d dd s'. readDir_page U \<lparr>rd_Handle = h, rd_Cookie = 0, rd_CookieVerif = v, rd_Count = count\<rparr> f s =
      f (dot_entities d dd @ ents_from p 0 (take m cs), m = length cs, ver, p) s' \<and> inv s' \<and> m \<le> length cs \<and> (cs \<noteq> [] \<longrightarrow> 0 < m)"
proof -
  have c: "\<not> count < 1024" using assms(2) by simp
  obtain s1 where s1: "u_FromHandle U h s = Some (Inr p, s1)" "inv s1" using from_handle [OF assms(1)] by blast
  let ?body = "\<lambda>(contents, verifier). dot_ids U p (\<lambda>(_, dot, dotdot).
      let (ents, eof) = readDir_loop count (u_HandleLimit U div 2) p 0 0 True 100 (dot_entities dot dotdot) contents in f (ents, eof, verifier, p))"
  obtain s2 where s2: "getDirListingWithVerifier U h v ?body s1 = ?body (cs, ver) s2" "inv s2" using listing [OF s1(2)] by blast
  have page: "readDir_page U \<lparr>rd_Handle = h, rd_Cookie = 0, rd_CookieVerif = v, rd_Count = count\<rparr> f s = ?body (cs, ver) s2"
    using c s1 s2 by (simp add: readDir_page_def fromH_def call_def Let_def)
  obtain d dd s3 where s3: "?body (cs, ver) s2 = (let (ents, eof) = readDir_loop count (u_HandleLimit U div 2) p 0 0 True 100 (dot_entities d dd) cs in f (ents, eof, ver, p)) s3" "inv s3"
    using dots [OF s2(2), of "\<lambda>(_, dot, dotdot). let (ents, eof) = readDir_loop count (u_HandleLimit U div 2) p 0 0 True 100 (dot_entities dot dotdot) cs in f (ents, eof, ver, p)"]
    by auto
  have "int (length (dot_entities d dd) + length cs) \<le> u_HandleLimit U div 2" using limit [OF assms(1)] by (simp add: dot_entities_def cs_length)
  from readDir_loop_started [OF this, of count p 0 0 100] room [OF assms(2)] obtain k where
    "k \<le> length cs" "readDir_loop count (u_HandleLimit U div 2) p 0 0 True 100 (dot_entities d dd) cs = (dot_entities d dd @ ents_from p 0 (take k cs), k = length cs)"
    "cs \<noteq> [] \<longrightarrow> 0 < k" by blast
  then show ?thesis using page s3 by (intro exI [of _ k] exI [of _ d] exI [of _ dd] exI [of _ s3]) simp
qed

lemma cookie_pos: "inv s \<Longrightarrow> 0 < k \<Longrightarrow> k \<le> length cs \<Longrightarrow> 0 < (word_of_nat (k + 1) :: u64)"
  using few [of s] word_of_nat_inj64 [of "k + 1" 0] by (simp add: word_neq_0_conv [symmetric] cs_length del: of_nat_Suc of_nat_add)

lemma next_page:
  assumes "inv s" "1024 \<le> count" "0 < k" "k \<le> length cs"
  shows "\<exists>m s'. readDir_page U \<lparr>rd_Handle = h, rd_Cookie = word_of_nat (k + 1), rd_CookieVerif = ver, rd_Count = count\<rparr> f s =
      f (ents_from p k (take m (drop k cs)), m = length cs - k, ver, p) s' \<and> inv s' \<and> m \<le> length cs - k \<and> (k < length cs \<longrightarrow> 0 < m)"
proof -
  have c: "\<not> count < 1024" using assms(2) by simp
  have ck: "(word_of_nat (k + 1) :: u64) \<noteq> 0" using cookie_pos [OF assms(1,3,4)] by simp
  obtain s1 where s1: "u_FromHandle U h s = Some (Inr p, s1)" "inv s1" using from_handle [OF assms(1)] by blast
  let ?loop = "readDir_loop count (u_HandleLimit U div 2) p (word_of_nat (k + 1)) 0 False 100 []"
  let ?body = "\<lambda>(contents, verifier). if word_of_nat (k + 1) > (0 :: u64) \<and> ver > 0 \<and> \<not> cookieVerifierEqual verifier ver then fail NFSStatusBadCookie
      else let (ents, eof) = ?loop contents in f (ents, eof, verifier, p)"
  obtain s2 where s2: "getDirListingWithVerifier U h ver ?body s1 = ?body (cs, ver) s2" "inv s2" using listing [OF s1(2)] by blast
  have page: "readDir_page U \<lparr>rd_Handle = h, rd_Cookie = word_of_nat (k + 1), rd_CookieVerif = ver, rd_Count = count\<rparr> f s = ?body (cs, ver) s2"
    using c ck s1 s2 by (simp add: readDir_page_def fromH_def call_def Let_def del: of_nat_Suc of_nat_add cong: if_cong)
  have b: "?body (cs, ver) s2 = (let (ents, eof) = ?loop cs in f (ents, eof, ver, p)) s2"
    by (simp add: cookieVerifierEqual_def)
  have "int (length ([] :: readDirEntity list) + length (drop k cs)) \<le> u_HandleLimit U div 2" using limit [OF assms(1)] by (simp add: cs_length)
  from readDir_loop_started [OF this, of count p "word_of_nat (k + 1)" k 100] room [OF assms(2)]
    readDir_loop_from [OF assms(3,4), of count "u_HandleLimit U div 2" p 100 "[]"] few [OF assms(1)]
  obtain m where "m \<le> length cs - k" "?loop cs = (ents_from p k (take m (drop k cs)), m = length cs - k)" "k < length cs \<longrightarrow> 0 < m"
    by (auto simp: cs_length simp del: of_nat_Suc of_nat_add)
  then show ?thesis using page b s2(2) by (intro exI [of _ m] exI [of _ s2]) simp
qed

lemma list_all_entries:
  assumes "inv s" "1024 \<le> count"
  shows "\<exists>d dd s'. list_dir (length contents + 2) U h count s = Some (dot_entities d dd @ ents_from p 0 cs, s') \<and> inv s'"
proof -
  let ?page = "\<lambda>cookie verif. readDir_page U \<lparr>rd_Handle = h, rd_Cookie = cookie, rd_CookieVerif = verif, rd_Count = count\<rparr> (\<lambda>(ents, eof, v, p). ret (ents, eof, v))"
  obtain m d dd s1 where m: "?page 0 0 s = Some (Inr (dot_entities d dd @ ents_from p 0 (take m cs), m = length cs, ver), s1)"
      "inv s1" "m \<le> length cs" "cs \<noteq> [] \<longrightarrow> 0 < m"
    using first_page [OF assms, of 0 "\<lambda>(ents, eof, v, p). ret (ents, eof, v)"] by (auto simp: ret_def)
  have n: "\<exists>m s'. ?page (word_of_nat (k + 1)) ver s = Some (Inr (ents_from p k (take m (drop k cs)), m = length cs - k, ver), s') \<and>
        inv s' \<and> m \<le> length cs - k \<and> (k < length cs \<longrightarrow> 0 < m)" if "inv s" "0 < k" "k \<le> length cs" for s k
    using next_page [OF that(1) assms(2) that(2,3), of "\<lambda>(ents, eof, v, p). ret (ents, eof, v)"] by (auto simp: ret_def simp del: of_nat_Suc of_nat_add)
  have "\<exists>s'. paged ?page re_Cookie (length cs + 2) 0 0 s = Some (dot_entities d dd @ ents_from p 0 cs, s') \<and> inv s'"
  proof (rule paged_all [where entf = "ents_from p" and good = inv and page = ?page and ver = ver and m = m])
    show "xs \<noteq> [] \<Longrightarrow> ents_from p i xs \<noteq> [] \<and> re_Cookie (last (ents_from p i xs)) = word_of_nat (i + length xs + 1)" for i xs
      using ents_from_last [of xs p i] by simp
  qed (fact ents_from_append n m)+
  then show ?thesis unfolding list_dir_def cs_length [symmetric] by blast
qed

end

section \<open>Pages with attributes and handles\<close>

context nfs_dir begin

lemma plus_loop_started:
  "inv s \<Longrightarrow> int (length ents + length xs) \<le> maxE \<Longrightarrow> set xs \<subseteq> set contents \<Longrightarrow>
   \<exists>k saw' s'. readDirPlus_loop U dc mc maxE p c0 i saw True db mb ents xs s = ((ents @ pents_from hdl p i (take k xs), k = length xs, saw'), s') \<and>
     inv s' \<and> k \<le> length xs \<and> (xs \<noteq> [] \<and> db + word_of_nat (length (oi_name (List.hd xs)) + 20) \<le> dc \<and> mb + 512 \<le> mc \<longrightarrow> 0 < k)"
proof (induction xs arbitrary: i saw db mb ents s)
  case (Cons c xs)
  let ?db = "db + word_of_nat (length (oi_name c) + 20)"
  show ?case
  proof (cases "dc < ?db \<or> mc < mb + 512")
    case True
    then show ?thesis using Cons.prems(1) by (intro exI [of _ 0] exI [of _ "saw \<or> oi_name c = openSetDir"] exI [of _ s]) (auto simp: Let_def)
  next
    case False
    obtain s1 where s1: "u_ToHandle U (p @ [oi_name c]) s = (hdl (p @ [oi_name c]), s1)" "inv s1"
      using to_handle [OF Cons.prems(1), of c] Cons.prems(3) by auto
    have "int (length (ents @ [pentity hdl p i c]) + length xs) \<le> maxE" "set xs \<subseteq> set contents" using Cons.prems by simp_all
    from Cons.IH [OF s1(2) this, of "Suc i" "saw \<or> oi_name c = openSetDir" ?db "mb + 512"] obtain k saw' s' where k: "k \<le> length xs" "inv s'"
      "readDirPlus_loop U dc mc maxE p c0 (Suc i) (saw \<or> oi_name c = openSetDir) True ?db (mb + 512) (ents @ [pentity hdl p i c]) xs s1 =
         (((ents @ [pentity hdl p i c]) @ pents_from hdl p (Suc i) (take k xs), k = length xs, saw'), s')"
      by blast
    have "readDirPlus_loop U dc mc maxE p c0 i saw True db mb ents (c # xs) s =
        readDirPlus_loop U dc mc maxE p c0 (Suc i) (saw \<or> oi_name c = openSetDir) True ?db (mb + 512) (ents @ [pentity hdl p i c]) xs s1"
      using False Cons.prems(2) s1(1) by (simp add: Let_def pentity_def)
    then show ?thesis using k by (intro exI [of _ "Suc k"] exI [of _ saw'] exI [of _ s']) simp
  qed
qed auto

lemma name_room:
  assumes "c \<in> set contents" "\<forall>c \<in> set contents. length (oi_name c) + 20 \<le> unat dc"
  shows "(0 :: u32) + word_of_nat (length (oi_name c) + 20) \<le> dc"
proof -
  have "length (oi_name c) + 20 \<le> unat dc" using assms by blast
  then show ?thesis unfolding add_0 word_le_nat_alt unsigned_of_nat by (simp add: le_trans [OF take_bit_nat_less_eq_self])
qed

lemma plus_room: "4096 \<le> mc \<Longrightarrow> (100 :: u32) + 512 \<le> mc"
  by (rule order_trans [of _ 4096]) simp_all

lemma first_page_plus:
  assumes "inv s" "512 \<le> dc" "4096 \<le> mc" "\<forall>c \<in> set contents. length (oi_name c) + 20 \<le> unat dc"
  shows "\<exists>m saw da d dd s'. readDirPlus_page U \<lparr>rp_Handle = h, rp_Cookie = 0, rp_CookieVerif = v, rp_DirCount = dc, rp_MaxCount = mc\<rparr> f s =
      f (dot_entities_plus da d dd @ pents_from hdl p 0 (take m cs), m = length cs, saw, ver, p) s' \<and> inv s' \<and> m \<le> length cs \<and> (cs \<noteq> [] \<longrightarrow> 0 < m)"
proof -
  have c: "\<not> dc < 512" "\<not> mc < 4096" using assms(2,3) by simp_all
  obtain s1 where s1: "u_FromHandle U h s = Some (Inr p, s1)" "inv s1" using from_handle [OF assms(1)] by blast
  let ?page = "\<lambda>contents verifier (da, dot, dotdot) s. let ((ents, eof, saw), s) = readDirPlus_loop U dc mc (u_HandleLimit U div 2) p 0 0 False True 0 100 (dot_entities_plus da dot dotdot) contents s
      in f (ents, eof, saw, verifier, p) s"
  let ?body = "\<lambda>(contents, verifier). dot_ids U p (?page contents verifier)"
  obtain s2 where s2: "getDirListingWithVerifier U h v ?body s1 = ?body (cs, ver) s2" "inv s2" using listing [OF s1(2)] by blast
  have page: "readDirPlus_page U \<lparr>rp_Handle = h, rp_Cookie = 0, rp_CookieVerif = v, rp_DirCount = dc, rp_MaxCount = mc\<rparr> f s = ?body (cs, ver) s2"
    using c s1 s2 by (simp add: readDirPlus_page_def fromH_def call_def Let_def case_prod_beta')
  obtain da d dd s3 where s3: "?body (cs, ver) s2 = ?page cs ver (da, d, dd) s3" "inv s3"
    using dots [OF s2(2), of "?page cs ver"] by auto
  have "int (length (dot_entities_plus da d dd) + length cs) \<le> u_HandleLimit U div 2" using limit [OF assms(1)] by (simp add: dot_entities_plus_def cs_length)
  moreover have sub: "set cs \<subseteq> set contents" by (simp add: cs_def)
  moreover have "cs \<noteq> [] \<Longrightarrow> (0 :: u32) + word_of_nat (length (oi_name (List.hd cs)) + 20) \<le> dc"
    using name_room [OF _ assms(4), of "List.hd cs"] sub hd_in_set by blast
  ultimately obtain k saw' s4 where "k \<le> length cs" "inv s4"
    "readDirPlus_loop U dc mc (u_HandleLimit U div 2) p 0 0 False True 0 100 (dot_entities_plus da d dd) cs s3 = ((dot_entities_plus da d dd @ pents_from hdl p 0 (take k cs), k = length cs, saw'), s4)"
    "cs \<noteq> [] \<longrightarrow> 0 < k" using plus_loop_started [OF s3(2), of "dot_entities_plus da d dd" cs "u_HandleLimit U div 2" dc mc 0 0 False 0 100] plus_room [OF assms(3)] by blast
  then show ?thesis using page s3 by (intro exI [of _ k] exI [of _ saw'] exI [of _ da] exI [of _ d] exI [of _ dd] exI [of _ s4]) simp
qed

lemma next_page_plus:
  assumes "inv s" "512 \<le> dc" "4096 \<le> mc" "\<forall>c \<in> set contents. length (oi_name c) + 20 \<le> unat dc" "0 < k" "k \<le> length cs"
  shows "\<exists>m saw s'. readDirPlus_page U \<lparr>rp_Handle = h, rp_Cookie = word_of_nat (k + 1), rp_CookieVerif = ver, rp_DirCount = dc, rp_MaxCount = mc\<rparr> f s =
      f (pents_from hdl p k (take m (drop k cs)), m = length cs - k, saw, ver, p) s' \<and> inv s' \<and> m \<le> length cs - k \<and> (k < length cs \<longrightarrow> 0 < m)"
proof -
  have c: "\<not> dc < 512" "\<not> mc < 4096" using assms(2,3) by simp_all
  have ck: "(word_of_nat (k + 1) :: u64) \<noteq> 0" using cookie_pos [OF assms(1,5,6)] by simp
  obtain s1 where s1: "u_FromHandle U h s = Some (Inr p, s1)" "inv s1" using from_handle [OF assms(1)] by blast
  let ?loop = "readDirPlus_loop U dc mc (u_HandleLimit U div 2) p (word_of_nat (k + 1)) 0 False False 0 100 []"
  let ?body = "\<lambda>(contents, verifier). if word_of_nat (k + 1) > (0 :: u64) \<and> ver > 0 \<and> \<not> cookieVerifierEqual verifier ver then fail NFSStatusBadCookie
      else (\<lambda>s. let ((ents, eof, saw), s) = ?loop contents s in f (ents, eof, saw, verifier, p) s)"
  obtain s2 where s2: "getDirListingWithVerifier U h ver ?body s1 = ?body (cs, ver) s2" "inv s2" using listing [OF s1(2)] by blast
  have page: "readDirPlus_page U \<lparr>rp_Handle = h, rp_Cookie = word_of_nat (k + 1), rp_CookieVerif = ver, rp_DirCount = dc, rp_MaxCount = mc\<rparr> f s = ?body (cs, ver) s2"
    using c ck s1 s2 by (simp add: readDirPlus_page_def fromH_def call_def Let_def del: of_nat_Suc of_nat_add cong: if_cong)
  have b: "?body (cs, ver) s2 = (let ((ents, eof, saw), s) = ?loop cs s2 in f (ents, eof, saw, ver, p) s)"
    by (simp add: cookieVerifierEqual_def)
  have "int (length ([] :: readDirPlusEntity list) + length (drop k cs)) \<le> u_HandleLimit U div 2" using limit [OF assms(1)] by (simp add: cs_length)
  moreover have sub: "set (drop k cs) \<subseteq> set contents" using set_drop_subset [of k cs] by (simp add: cs_def)
  moreover have "drop k cs \<noteq> [] \<Longrightarrow> (0 :: u32) + word_of_nat (length (oi_name (List.hd (drop k cs))) + 20) \<le> dc"
    using name_room [OF _ assms(4), of "List.hd (drop k cs)"] sub hd_in_set by blast
  moreover obtain saw where "?loop cs s2 = readDirPlus_loop U dc mc (u_HandleLimit U div 2) p (word_of_nat (k + 1)) k saw True 0 100 [] (drop k cs) s2"
  proof -
    have "length cs + 2 < 2 ^ 64" using few [OF assms(1)] by (simp add: cs_length)
    from readDirPlus_loop_from [OF assms(5,6) this, of U dc mc "u_HandleLimit U div 2" p False 0 100 "[]" s2] show ?thesis using that by blast
  qed
  ultimately obtain m saw' s3 where "m \<le> length (drop k cs)" "?loop cs s2 = (([] @ pents_from hdl p k (take m (drop k cs)), m = length (drop k cs), saw'), s3)"
    "inv s3" "drop k cs \<noteq> [] \<longrightarrow> 0 < m"
    using plus_loop_started [OF s2(2), of "[]" "drop k cs" "u_HandleLimit U div 2" dc mc "word_of_nat (k + 1)" k saw 0 100] plus_room [OF assms(3)]
    by (auto simp del: of_nat_Suc of_nat_add)
  then show ?thesis using page b by (intro exI [of _ m] exI [of _ saw'] exI [of _ s3]) simp
qed

lemma list_all_entries_plus:
  assumes "inv s" "512 \<le> dc" "4096 \<le> mc" "\<forall>c \<in> set contents. length (oi_name c) + 20 \<le> unat dc"
  shows "\<exists>da d dd s'. list_dir_plus (length contents + 2) U h dc mc s = Some (dot_entities_plus da d dd @ pents_from hdl p 0 cs, s') \<and> inv s'"
proof -
  let ?page = "\<lambda>cookie verif. readDirPlus_page U \<lparr>rp_Handle = h, rp_Cookie = cookie, rp_CookieVerif = verif, rp_DirCount = dc, rp_MaxCount = mc\<rparr> (\<lambda>(ents, eof, saw, v, p). ret (ents, eof, v))"
  obtain m da d dd s1 where m: "?page 0 0 s = Some (Inr (dot_entities_plus da d dd @ pents_from hdl p 0 (take m cs), m = length cs, ver), s1)"
      "inv s1" "m \<le> length cs" "cs \<noteq> [] \<longrightarrow> 0 < m"
    using first_page_plus [OF assms, of 0 "\<lambda>(ents, eof, saw, v, p). ret (ents, eof, v)"] unfolding ret_def split_conv by blast
  have n: "\<exists>m s'. ?page (word_of_nat (k + 1)) ver s = Some (Inr (pents_from hdl p k (take m (drop k cs)), m = length cs - k, ver), s') \<and>
        inv s' \<and> m \<le> length cs - k \<and> (k < length cs \<longrightarrow> 0 < m)" if "inv s" "0 < k" "k \<le> length cs" for s k
    using next_page_plus [OF that(1) assms(2-4) that(2,3), of "\<lambda>(ents, eof, saw, v, p). ret (ents, eof, v)"] by (auto simp: ret_def simp del: of_nat_Suc of_nat_add)
  have "\<exists>s'. paged ?page pe_Cookie (length cs + 2) 0 0 s = Some (dot_entities_plus da d dd @ pents_from hdl p 0 cs, s') \<and> inv s'"
  proof (rule paged_all [where entf = "pents_from hdl p" and good = inv and page = ?page and ver = ver and m = m])
    show "xs \<noteq> [] \<Longrightarrow> pents_from hdl p i xs \<noteq> [] \<and> pe_Cookie (last (pents_from hdl p i xs)) = word_of_nat (i + length xs + 1)" for i xs
      using pents_from_last [of xs hdl p i] by simp
  qed (fact pents_from_append n m)+
  then show ?thesis unfolding list_dir_plus_def cs_length [symmetric] by blast
qed

end

end
