(* ===== verification/Nfs_Frontend.thy ===== *)
theory Nfs_Frontend
  imports Nfs_Handles Read_Cache Nfs_Listing
begin

unbundle bit_operations_syntax

text \<open>
  The file system as the NFS server sees it: the \<^verbatim>\<open>billyFS\<close> and \<^verbatim>\<open>NFSHandler\<close> of \<^verbatim>\<open>nfs.go\<close>, with the file
  infos of \<^verbatim>\<open>webdav.go\<close>, as an instance of the interfaces of \<^theory_text>\<open>Nfs_Procs\<close>.
\<close>

section \<open>File infos\<close>

definition FakeStaticFileTime :: gotime where
  "FakeStaticFileTime = \<lparr>tm_sec = 1258031655, tm_nsec = 0\<rparr>"

record regFileInfo =
  rf_name :: string
  rf_size :: int
  rf_mode :: u32
  rf_modTime :: "gotime option"
  rf_modTimeNow :: bool

text \<open>
  The methods of \<^verbatim>\<open>regFileInfo\<close> and \<^verbatim>\<open>dirFileInfo\<close>; a zero time is \<^const>\<open>None\<close>.  \<^verbatim>\<open>dirFileInfo.Name\<close> panics for an
  empty name; only \<^verbatim>\<open>Lstat\<close> above the modules returns one, and the server asks for names of listed entries
  only.
\<close>

definition reg_info :: "gotime \<Rightarrow> regFileInfo \<Rightarrow> os_info" where
  "reg_info now r =
     \<lparr>oi_name = rf_name r, oi_size = rf_size r, oi_mode = (if rf_mode r \<noteq> 0 then rf_mode r else 292),
      oi_mtime = (if rf_modTimeNow r then now else case rf_modTime r of Some t \<Rightarrow> t | None \<Rightarrow> FakeStaticFileTime), oi_sys = None\<rparr>"

definition reg_file :: "string \<Rightarrow> int \<Rightarrow> u32 \<Rightarrow> regFileInfo" where
  "reg_file name sz mode = \<lparr>rf_name = name, rf_size = sz, rf_mode = mode, rf_modTime = None, rf_modTimeNow = False\<rparr>"

definition dirFileInfo :: "string \<Rightarrow> os_info" where
  "dirFileInfo baseName = \<lparr>oi_name = baseName, oi_size = 0, oi_mode = ModeDir OR 365, oi_mtime = FakeStaticFileTime, oi_sys = None\<rparr>"

definition openSetFile :: os_info where
  "openSetFile = \<lparr>oi_name = openSetDir, oi_size = 0, oi_mode = 292, oi_mtime = FakeStaticFileTime, oi_sys = None\<rparr>"

text \<open>What a store's \<^verbatim>\<open>Stat\<close> returns; both stores give every file the same time.\<close>

definition mode_bits :: "fmode \<Rightarrow> u32" where
  "mode_bits m = (if is_dir m then ModeDir else 0) OR word_of_nat (perm m)"

definition stat_info :: "file_info \<Rightarrow> os_info" where
  "stat_info fi = \<lparr>oi_name = fi_name fi, oi_size = fi_size fi, oi_mode = mode_bits (fi_mode fi), oi_mtime = FakeStaticFileTime, oi_sys = None\<rparr>"

definition dirent_info :: "gotime \<Rightarrow> dirent \<Rightarrow> os_info" where
  "dirent_info now ent =
     (if is_dir (d_mode ent) then dirFileInfo (d_name ent)
      else reg_info now (reg_file (d_name ent) (d_size ent) (mode_bits (d_mode ent) AND ModePerm)))"

section \<open>State\<close>

record ('st, 'h) front =
  f_fs :: "('st, 'h) fs"
  f_rc :: "(bytes, bytes, FileAttribute) rcache"
  f_status :: "(gotime \<times> bytes) option"
  f_now :: gotime

record ('st, 'h) front_env =
  fe_fs :: "('st, 'h) fs_env"
  fe_fuel :: nat
  FileCacheSize :: int
  StatusJSON :: "('st, 'h) front \<Rightarrow> bytes"

text \<open>A panic of the file system is a call that does not return.\<close>

definition lift_res :: "(('st, 'h) fs \<Rightarrow> 'a res \<times> ('st, 'h) fs) \<Rightarrow> (('st, 'h) front, 'a) call" where
  "lift_res m s =
     (case m (f_fs s) of
        (Ok x, fs) \<Rightarrow> Some (Inr x, s\<lparr>f_fs := fs\<rparr>)
      | (Fail e, fs) \<Rightarrow> Some (Inl e, s\<lparr>f_fs := fs\<rparr>)
      | (Panic, fs) \<Rightarrow> None)"

definition cbind :: "('s, 'a) call \<Rightarrow> ('a \<Rightarrow> ('s, 'b) call) \<Rightarrow> ('s, 'b) call" where
  "cbind m f s = (case m s of None \<Rightarrow> None | Some (Inl e, s) \<Rightarrow> Some (Inl e, s) | Some (Inr x, s) \<Rightarrow> f x s)"

definition cret :: "'a \<Rightarrow> ('s, 'a) call" where "cret x s = Some (Inr x, s)"
definition cfail :: "err \<Rightarrow> ('s, 'a) call" where "cfail e s = Some (Inl e, s)"

text \<open>Time between two times, in nanoseconds.\<close>

definition since :: "gotime \<Rightarrow> gotime \<Rightarrow> int" where
  "since now t = (tm_sec now - tm_sec t) * 1000000000 + (int (tm_nsec now) - int (tm_nsec t))"

definition statusFile_snapshot :: "('st, 'h) front_env \<Rightarrow> ('st, 'h) front \<Rightarrow> (gotime \<times> bytes) \<times> ('st, 'h) front" where
  "statusFile_snapshot F s =
     (case f_status s of
        Some (t, j) \<Rightarrow>
          if since (f_now s) t < 2 * 1000000000 then ((t, j), s)
          else (let m = (f_now s, StatusJSON F s) in (m, s\<lparr>f_status := Some m\<rparr>))
      | None \<Rightarrow> (let m = (f_now s, StatusJSON F s) in (m, s\<lparr>f_status := Some m\<rparr>)))"

definition status_info :: "gotime \<Rightarrow> gotime \<times> bytes \<Rightarrow> os_info" where
  "status_info now m =
     reg_info now \<lparr>rf_name = statusFile, rf_size = int (length (snd m)), rf_mode = 292, rf_modTime = Some (fst m), rf_modTimeNow = False\<rparr>"

definition with_status :: "('st, 'h) front_env \<Rightarrow> (gotime \<times> bytes \<Rightarrow> (('st, 'h) front, 'a) call) \<Rightarrow> (('st, 'h) front, 'a) call" where
  "with_status F f s = (let (m, s) = statusFile_snapshot F s in f m s)"

section \<open>The file system interface\<close>

text \<open>An error of \<^verbatim>\<open>Store.Readdir\<close> is only counted: its listing is then empty.\<close>

definition billy_ReadDir :: "('st, 'h) front_env \<Rightarrow> string \<Rightarrow> (('st, 'h) front, os_info list) call" where
  "billy_ReadDir F path =
     (if path = [] then with_status F (\<lambda>m s. cret [status_info (f_now s) m, dirFileInfo ''cache'', openSetFile] s)
      else if path = ''cache'' then cret [dirFileInfo ''download'', openSetFile]
      else
      let E = fe_fs F; mp = parsePath (XM E) path in
      if NotExist mp then cfail ErrNotExist
      else if \<not> InZip mp then cret [openSetFile]
      else
      cbind (lift_res (getZipRoot E (ModVersion mp))) (\<lambda>mh s.
      let ents = (case Readdir (Store E) (st (f_fs s)) mh (Path mp) of Inl e \<Rightarrow> [] | Inr ents \<Rightarrow> ents)
      in cret (map (dirent_info (f_now s)) ents) s))"

definition tsgo_hash :: "mod_version \<Rightarrow> string" where
  "tsgo_hash mv = (case isTSGoModule mv of Some t \<Rightarrow> Hash t | None \<Rightarrow> [])"

definition billy_Lstat :: "('st, 'h) front_env \<Rightarrow> string \<Rightarrow> (('st, 'h) front, os_info) call" where
  "billy_Lstat F filename =
     (let E = fe_fs F; mp = parsePath (XM E) filename in
      if NotExist mp then cfail ErrNotExist
      else if WellKnown mp = statusFile then with_status F (\<lambda>m s. cret (status_info (f_now s) m) s)
      else if WellKnown mp = wkTSGoExtracted then
        (\<lambda>s. cret (reg_info (f_now s) \<lparr>rf_name = path_Base filename, rf_size = int (length (tsgoExtractedFileContents (tsgo_hash (ModVersion mp)))),
           rf_mode = 292, rf_modTime = None, rf_modTimeNow = True\<rparr>) s)
      else if WellKnown mp \<noteq> [] then cfail ErrNotExist
      else if CacheDownloadFileExt mp \<noteq> [] then
        (\<lambda>s. case lift_res (getMetaFileByExt E (ModVersion mp) (CacheDownloadFileExt mp)) s of
           None \<Rightarrow> None
         | Some (Inl e, s) \<Rightarrow> Some (Inl EIO, s)
         | Some (Inr v, s) \<Rightarrow> Some (Inr (reg_info (f_now s) (reg_file (path_Base filename) (int (length v)) 0)), s))
      else if \<not> InZip mp then cret (dirFileInfo [])
      else
      cbind (lift_res (getZipRoot E (ModVersion mp))) (\<lambda>mh s.
      case Stat (Store E) (st (f_fs s)) mh (Path mp) of
        Inl e \<Rightarrow> cfail (if errors_Is e ErrNotExist then ErrNotExist else e) s
      | Inr fi \<Rightarrow> cret (stat_info fi) s))"

section \<open>Reading\<close>

definition setNFSTime :: "gotime \<Rightarrow> FileAttribute \<Rightarrow> FileAttribute" where
  "setNFSTime t a = a\<lparr>fa_Atime := ToNFSTime t, fa_Mtime := ToNFSTime t, fa_Ctime := ToNFSTime t\<rparr>"

definition base_attr :: "string \<Rightarrow> FileAttribute" where
  "base_attr filename =
     setNFSTime FakeStaticFileTime
       \<lparr>fa_Type = FileTypeRegular, fa_FileMode = 292, fa_Nlink = 1, fa_UID = 0, fa_GID = 0, fa_Filesize = 0, fa_Used = 0,
        fa_SpecData = (0, 0), fa_FSID = 0, fa_Fileid = fnv64 (to_bytes filename),
        fa_Atime = \<lparr>Seconds = 0, Nseconds = 0\<rparr>, fa_Mtime = \<lparr>Seconds = 0, Nseconds = 0\<rparr>, fa_Ctime = \<lparr>Seconds = 0, Nseconds = 0\<rparr>\<rparr>"

text \<open>The deferred function: on success the attributes get the length of the data.\<close>

definition sized :: "bytes \<Rightarrow> FileAttribute \<Rightarrow> bytes \<times> FileAttribute" where
  "sized data a = (data, a\<lparr>fa_Filesize := word_of_nat (length data), fa_Used := word_of_nat (length data)\<rparr>)"

definition getFileContentsUncached :: "('st, 'h) front_env \<Rightarrow> string \<Rightarrow> (('st, 'h) front, bytes \<times> FileAttribute) call" where
  "getFileContentsUncached F filename =
     (let E = fe_fs F; attr = base_attr filename; mp = parsePath (XM E) filename in
      if NotExist mp then cfail ErrNotExist
      else if WellKnown mp = wkTSGoExtracted then
        cret (sized (to_bytes (tsgoExtractedFileContents (tsgo_hash (ModVersion mp)))) attr)
      else if WellKnown mp = statusFile then
        with_status F (\<lambda>(t, j). cret (sized j (setNFSTime t attr)))
      else if WellKnown mp \<noteq> [] then cfail ErrNotExist
      else if CacheDownloadFileExt mp \<noteq> [] then
        cbind (lift_res (getMetaFileByExt E (ModVersion mp) (CacheDownloadFileExt mp))) (\<lambda>v. cret (sized v attr))
      else if \<not> InZip mp then cfail (ErrMsg ''open of non-file'')
      else
      cbind (lift_res (getZipRoot E (ModVersion mp))) (\<lambda>mh s.
      case Stat (Store E) (st (f_fs s)) mh (Path mp) of
        Inl e \<Rightarrow> cfail e s
      | Inr fi \<Rightarrow>
          if is_dir (fi_mode fi) then cfail (ErrMsg ''gomodfs OpenFile is a directory, not a file'') s
          else case GetFile (Store E) (st (f_fs s)) mh (Path mp) of
            Inl e \<Rightarrow> cfail e s
          | Inr contents \<Rightarrow> cret (sized contents (attr\<lparr>fa_FileMode := mode_bits (fi_mode fi) AND ModePerm\<rparr>)) s))"

text \<open>A handle that does not resolve is reported as stale.\<close>

definition nfs_getFileContents ::
  "('st, 'h) front_env \<Rightarrow> bytes \<Rightarrow> ('st, 'h) front \<Rightarrow> ((herr + bytes \<times> FileAttribute) \<times> ('st, 'h) front) option" where
  "nfs_getFileContents F h s =
     (case rc_lookup (f_rc s) h of
        None \<Rightarrow> None
      | Some (Some r, rc) \<Rightarrow> Some (Inr r, s\<lparr>f_rc := rc\<rparr>)
      | Some (None, rc) \<Rightarrow>
          (case fromHandle (fe_fs F) (fe_fuel F) h (f_fs s) of
             None \<Rightarrow> None
           | Some (Inl e, fs) \<Rightarrow> Some (Inl (NfsErr NFSStatusStale), s\<lparr>f_rc := rc, f_fs := fs\<rparr>)
           | Some (Inr ht, fs) \<Rightarrow>
               (case getFileContentsUncached F (t_path ht) (s\<lparr>f_rc := rc, f_fs := fs\<rparr>) of
                  None \<Rightarrow> None
                | Some (Inl e, s) \<Rightarrow> Some (Inl (OtherErr e), s)
                | Some (Inr (contents, attr), s) \<Rightarrow>
                    map_option (\<lambda>rc. (Inr (contents, attr), s\<lparr>f_rc := rc\<rparr>))
                      (setReadCache (sha (fe_fs F)) (FileCacheSize F) h attr contents (f_rc s)))))"

text \<open>\<^verbatim>\<open>int(offset)+len(data) == len(contents)\<close> wraps around.\<close>

definition read_slice :: "bytes \<Rightarrow> u64 \<Rightarrow> u32 \<Rightarrow> bytes" where
  "read_slice contents offset cnt = take (min (unat cnt) (16 * 2 ^ 20)) (drop (min (length contents) (unat offset)) contents)"

definition OnNFSRead ::
  "('st, 'h) front_env \<Rightarrow> bytes \<Rightarrow> u64 \<Rightarrow> u32 \<Rightarrow> ('st, 'h) front \<Rightarrow> ((herr + NFSReadResult) \<times> ('st, 'h) front) option" where
  "OnNFSRead F handleb offset cnt s =
     (if length handleb \<noteq> 64 then Some (Inl (NfsErr NFSStatusStale), s)
      else case nfs_getFileContents F handleb s of
        None \<Rightarrow> None
      | Some (Inl (OtherErr e), s) \<Rightarrow> Some (Inl (if os_IsNotExist e then NfsErr NFSStatusNoEnt else OtherErr e), s)
      | Some (Inl e, s) \<Rightarrow> Some (Inl e, s)
      | Some (Inr (contents, attr), s) \<Rightarrow>
          let data = read_slice contents offset cnt in
          Some (Inr \<lparr>rr_Data = data, rr_EOF = (i64 (sint offset + int (length data)) = int (length contents)), rr_Attr = Some attr\<rparr>, s))"

section \<open>The handler\<close>

definition errReadonly :: err where "errReadonly = ErrMsg ''gomodfs is read-only''"

definition nfs_FSStat :: "FSStat \<Rightarrow> 's \<Rightarrow> ((herr + FSStat) \<times> 's) option" where
  "nfs_FSStat stat s = Some (Inr (stat\<lparr>TotalFiles := 123\<rparr>), s)"

text \<open>
  \<^verbatim>\<open>NFSHandler\<close> with \<^verbatim>\<open>billyFS\<close>: it has no write capability and no changes; \<^verbatim>\<open>Open\<close>, \<^verbatim>\<open>OpenFile\<close>, \<^verbatim>\<open>Stat\<close> and
  \<^verbatim>\<open>Readlink\<close> panic; \<^verbatim>\<open>Create\<close> and its like fail.
\<close>

definition nfsHandler :: "('st, 'h) front_env \<Rightarrow> (('st, 'h) front, unit) nfs_user" where
  "nfsHandler F = \<lparr>
     u_FromHandle = (\<lambda>h s. map_option (\<lambda>(r, fs). (r, s\<lparr>f_fs := fs\<rparr>)) (FromHandle (fe_fs F) (fe_fuel F) h (f_fs s))),
     u_ToHandle = (\<lambda>p s. let (h, fs) = ToHandle (fe_fs F) p (f_fs s) in (h, s\<lparr>f_fs := fs\<rparr>)),
     u_InvalidateHandle = (\<lambda>h. cret ()),
     u_HandleLimit = 2 ^ 63 - 1,
     u_Mount = (\<lambda>d s. ((0, [0]), s)),
     u_FSStat = nfs_FSStat,
     u_OnNFSRead = Some (OnNFSRead F),
     u_Caching = None,
     u_Change = None,
     u_sha = sha (fe_fs F),
     u_now = f_now,
     b_Join = path_Join,
     b_writable = False,
     b_isSymlinkFS = True,
     b_Lstat = billy_Lstat F,
     b_Stat = (\<lambda>p s. None),
     b_ReadDir = billy_ReadDir F,
     b_Readlink = (\<lambda>p s. None),
     b_Open = (\<lambda>p s. None),
     b_OpenFile = (\<lambda>p fl m s. None),
     b_Create = (\<lambda>p. cfail errReadonly),
     b_Rename = (\<lambda>p q. cfail errReadonly),
     b_Remove = (\<lambda>p. cfail errReadonly),
     b_MkdirAll = (\<lambda>p m. cfail errReadonly),
     b_Symlink = (\<lambda>p q. cfail errReadonly),
     f_ReadAt = (\<lambda>f n off s. None),
     f_Seek = (\<lambda>f off s. None),
     f_Write = (\<lambda>f d s. None),
     f_Truncate = (\<lambda>f n s. None),
     f_Close = (\<lambda>f s. None),
     f_Name = (\<lambda>f. [])\<rparr>"

end
