(* ===== verification/Nfs_Serving.thy ===== *)
theory Nfs_Serving
  imports Nfs_Frontend
begin

unbundle bit_operations_syntax

text \<open>
  What NFS clients of the file system get: a module's directories listed page by page, and a module's
  files read piece by piece, through handles, the caches and the store.
\<close>

section \<open>Calls\<close>

lemma getZipRoot_hit: "getZipRootCached mv s = Some mh \<Longrightarrow> getZipRoot E mv s = (Ok mh, s)"
  by (simp add: getZipRoot_def)

lemma lift_hit: "getZipRootCached mv (f_fs s) = Some mh \<Longrightarrow> lift_res (getZipRoot E mv) s = Some (Inr mh, s)"
  by (simp add: lift_res_def getZipRoot_hit)

definition handle_of_segs :: "('st, 'h) fs_env \<Rightarrow> string list \<Rightarrow> bytes" where
  "handle_of_segs E ss = fst (ToHandle E ss \<lparr>st = undefined, fetched = [], zipRootCache = None, modVerHash = None, pathHashTarget = None, handle_map = None\<rparr>)"

lemma ToHandle_segs: "fst (ToHandle E ss s) = handle_of_segs E ss"
  unfolding handle_of_segs_def by (rule ToHandle_fst)

lemma ToHandle_state:
  "st (snd (ToHandle E ss s)) = st s" "zipRootCache (snd (ToHandle E ss s)) = zipRootCache s"
  "get_handle h s = Some t \<Longrightarrow> get_handle h (snd (ToHandle E ss s)) = Some t"
  by (auto simp: ToHandle_def Let_def set_handle_def get_handle_def update_conv' split: option.splits)

section \<open>A module's directory\<close>

text \<open>Whether the attributes of a path are answered without leaving the caches: no meta file, and no other module.\<close>

definition local_path :: "('st, 'h) fs_env \<Rightarrow> mod_version \<Rightarrow> string \<Rightarrow> bool" where
  "local_path E mv name \<longleftrightarrow>
     (let mp = parsePath (XM E) name in
      NotExist mp \<or> WellKnown mp \<noteq> [] \<or> (CacheDownloadFileExt mp = [] \<and> (InZip mp \<longrightarrow> ModVersion mp = mv)))"

text \<open>
  The state knows the handle \<open>h\<close> of the directory \<open>name\<close>, which is the directory \<open>dir\<close> of the module
  \<open>mv\<close>, whose handle is cached and whose store lists it as \<open>ents\<close>.
\<close>

definition at_module_path :: "('st, 'h) front_env \<Rightarrow> mod_version \<Rightarrow> 'h \<Rightarrow> string \<Rightarrow> bytes \<Rightarrow> string \<Rightarrow> ('st, 'h) front \<Rightarrow> bool" where
  "at_module_path F mv mh p h name s \<longleftrightarrow>
     length h = 64 \<and> h \<noteq> zeroHandle \<and> h \<noteq> statusHandle \<and>
     get_handle h (f_fs s) = Some (mkTargetFromPath name) \<and>
     parsePath (XM (fe_fs F)) name = zero_path\<lparr>ModVersion := mv, Path := p, InZip := True\<rparr> \<and>
     getZipRootCached mv (f_fs s) = Some mh"

definition dir_inv ::
  "('st, 'h) front_env \<Rightarrow> mod_version \<Rightarrow> 'h \<Rightarrow> string \<Rightarrow> bytes \<Rightarrow> string \<Rightarrow> dirent list \<Rightarrow> ('st, 'h) front \<Rightarrow> bool" where
  "dir_inv F mv mh dir h name ents s \<longleftrightarrow>
     at_module_path F mv mh dir h name s \<and>
     name \<noteq> [] \<and> name \<noteq> ''cache'' \<and> path_Join (splitSegs name) = name \<and>
     local_path (fe_fs F) mv (path_Join (butlast (splitSegs name))) \<and>
     Readdir (Store (fe_fs F)) (st (f_fs s)) mh dir = Inr ents \<and> length ents + 2 < 2 ^ 62"

lemma dirent_info_now: "dirent_info t e = dirent_info t' e"
  by (simp add: dirent_info_def reg_info_def reg_file_def)

lemma dirent_info_name [simp]: "oi_name (dirent_info t e) = d_name e"
  by (simp add: dirent_info_def reg_info_def reg_file_def dirFileInfo_def)

lemma FromHandle_seen:
  assumes "length h = 64" "h \<noteq> zeroHandle" "h \<noteq> statusHandle" "get_handle h s = Some t"
  shows "fromHandle E n h s = Some (Inr t, s)" "FromHandle E n h s = Some (Inr (t_segs t), s)"
proof -
  show "fromHandle E n h s = Some (Inr t, s)" using assms by (simp add: fromHandle_def)
  moreover have "h \<noteq> notExistHandle" using assms(1) special_lengths(3) by auto
  ultimately show "FromHandle E n h s = Some (Inr (t_segs t), s)" using assms(1) by (simp add: FromHandle_def)
qed

lemma Lstat_local:
  assumes "local_path (fe_fs F) mv name" "getZipRootCached mv (f_fs s) = Some mh"
  shows "\<exists>r s'. billy_Lstat F name s = Some (r, s') \<and> f_fs s' = f_fs s"
  using assms lift_hit [OF assms(2), of "fe_fs F"]
  by (auto simp: billy_Lstat_def local_path_def Let_def cfail_def cret_def cbind_def with_status_def statusFile_snapshot_def
      split: option.split sum.split prod.split)

lemma sort_key_map: "sort_key f (map g xs) = map g (sort_key (\<lambda>x. f (g x)) xs)"
proof (induction xs)
  case (Cons x xs)
  have "insort_key f (g x) (map g ys) = map g (insort_key (\<lambda>x. f (g x)) x ys)" for ys by (induction ys) auto
  then show ?case using Cons by simp
qed simp

interpretation module_dir: nfs_dir "nfsHandler F" "dir_inv F mv mh dir h name ents" h "splitSegs name"
  "map (dirent_info FakeStaticFileTime) ents" "handle_of_segs (fe_fs F)" for F mv mh dir h name ents
proof
  fix s assume s: "dir_inv F mv mh dir h name ents s"
  let ?E = "fe_fs F"
  have t: "length h = 64" "h \<noteq> zeroHandle" "h \<noteq> statusHandle" "get_handle h (f_fs s) = Some (mkTargetFromPath name)"
    and z: "getZipRootCached mv (f_fs s) = Some mh"
    and pp: "parsePath (XM ?E) name = zero_path\<lparr>ModVersion := mv, Path := dir, InZip := True\<rparr>"
    and n: "name \<noteq> []" "name \<noteq> ''cache''" "path_Join (splitSegs name) = name" "local_path ?E mv (path_Join (butlast (splitSegs name)))"
    and rd: "Readdir (Store ?E) (st (f_fs s)) mh dir = Inr ents" and len: "length ents + 2 < 2 ^ 62"
    using s by (auto simp: dir_inv_def at_module_path_def)
  have keep: "dir_inv F mv mh dir h name ents s'" if "f_fs s' = f_fs s" for s' using s that by (simp add: dir_inv_def at_module_path_def)
  show "\<exists>s'. u_FromHandle (nfsHandler F) h s = Some (Inr (splitSegs name), s') \<and> dir_inv F mv mh dir h name ents s'"
    using FromHandle_seen(2) [OF t, of ?E "fe_fuel F"] s keep by (simp add: nfsHandler_def mkTargetFromPath_def)
  show "\<exists>r s'. b_Lstat (nfsHandler F) (b_Join (nfsHandler F) q) s = Some (r, s') \<and> dir_inv F mv mh dir h name ents s'"
    if "q = splitSegs name \<or> q = butlast (splitSegs name)" for q
  proof -
    have "local_path ?E mv name" using pp by (simp add: local_path_def zero_path_def)
    then have "local_path ?E mv (path_Join q)" using that n by auto
    from Lstat_local [OF this z] show ?thesis using keep by (auto simp: nfsHandler_def)
  qed
  show "\<exists>s'. b_ReadDir (nfsHandler F) (b_Join (nfsHandler F) (splitSegs name)) s = Some (Inr (map (dirent_info FakeStaticFileTime) ents), s') \<and> dir_inv F mv mh dir h name ents s'"
    using n pp rd z lift_hit [OF z, of ?E] s dirent_info_now [of "f_now s" _ FakeStaticFileTime]
    by (simp add: nfsHandler_def billy_ReadDir_def Let_def zero_path_def cbind_def cret_def)
  show "\<exists>s'. u_ToHandle (nfsHandler F) (splitSegs name @ [oi_name c]) s = (handle_of_segs ?E (splitSegs name @ [oi_name c]), s') \<and> dir_inv F mv mh dir h name ents s'" for c
  proof -
    let ?r = "ToHandle ?E (splitSegs name @ [oi_name c]) (f_fs s)"
    have "dir_inv F mv mh dir h name ents (s\<lparr>f_fs := snd ?r\<rparr>)"
      using s ToHandle_state [where E = ?E and ss = "splitSegs name @ [oi_name c]" and s = "f_fs s"] by (simp add: dir_inv_def at_module_path_def getZipRootCached_def)
    then show ?thesis using ToHandle_segs [of ?E "splitSegs name @ [oi_name c]" "f_fs s"] by (simp add: nfsHandler_def case_prod_beta)
  qed
  show "int (length (map (dirent_info FakeStaticFileTime) ents)) + 2 \<le> u_HandleLimit (nfsHandler F) div 2"
    "length (map (dirent_info FakeStaticFileTime) ents) + 2 < 2 ^ 64" using len by (simp_all add: nfsHandler_def)
qed (simp_all add: nfsHandler_def)

lemma pents_view:
  "map (\<lambda>e. (pe_Name e, pe_Handle e, pe_Attributes e)) (pents_from hdl p i cs) =
   map (\<lambda>c. (oi_name c, Some (hdl (p @ [oi_name c])), Some (ToFileAttribute c (path_Join (p @ [oi_name c]))))) cs"
  by (induction cs arbitrary: i) (simp_all add: pentity_def Let_def)

text \<open>
  C8. A module's directory is listed completely: a client that pages through it with READDIRPLUS, with
  any sizes the server accepts that have room for each name, gets to the end after finitely many
  replies and has then seen \<^verbatim>\<open>.\<close>, \<^verbatim>\<open>..\<close> and every entry of the store exactly once, sorted by name, each
  with its attributes and with the handle of its path.
\<close>
theorem module_dir_listed:
  assumes "dir_inv F mv mh dir h name ents s" "512 \<le> dc" "4096 \<le> mc" "\<forall>e \<in> set ents. length (d_name e) + 20 \<le> unat dc"
  shows "\<exists>da d dd es s'. list_dir_plus (length ents + 2) (nfsHandler F) h dc mc s = Some (dot_entities_plus da d dd @ es, s') \<and>
    map (\<lambda>e. (pe_Name e, pe_Handle e, pe_Attributes e)) es =
      map (\<lambda>x. (d_name x, Some (handle_of_segs (fe_fs F) (splitSegs name @ [d_name x])),
        Some (ToFileAttribute (dirent_info FakeStaticFileTime x) (path_Join (splitSegs name @ [d_name x]))))) (sort_key d_name ents)"
proof -
  have "\<forall>c \<in> set (map (dirent_info FakeStaticFileTime) ents). length (oi_name c) + 20 \<le> unat dc" using assms(4) by simp
  from module_dir.list_all_entries_plus [OF assms(1-3) this] obtain da d dd s' where
    l: "list_dir_plus (length ents + 2) (nfsHandler F) h dc mc s =
      Some (dot_entities_plus da d dd @ pents_from (handle_of_segs (fe_fs F)) (splitSegs name) 0 (sort_key oi_name (map (dirent_info FakeStaticFileTime) ents)), s')"
    unfolding module_dir.cs_def length_map by blast
  show ?thesis by (rule exI [of _ da], rule exI [of _ d], rule exI [of _ dd], rule exI, rule exI [of _ s'], rule conjI, rule l)
    (simp add: pents_view sort_key_map comp_def)
qed

text \<open>A store with one module of two files, for examples.\<close>

definition two_files :: "dirent list" where
  "two_files = [\<lparr>d_name = ''b.go'', d_mode = \<lparr>is_dir = False, perm = 420\<rparr>, d_size = 3\<rparr>, \<lparr>d_name = ''a'', d_mode = \<lparr>is_dir = True, perm = 493\<rparr>, d_size = 0\<rparr>]"

definition toy_front :: "((mod_version \<times> put_data) list, mod_version) front_env" where
  "toy_front = \<lparr>fe_fs = mem_env False\<lparr>Store := mem_store\<lparr>
       Readdir := (\<lambda>d h p. if p = [] then Inr two_files else Inl ErrNotExist),
       Stat := (\<lambda>d h p. if p = ''b.go'' then Inr \<lparr>fi_name = p, fi_size = 3, fi_mode = \<lparr>is_dir = False, perm = 420\<rparr>\<rparr> else Inl ErrNotExist),
       GetFile := (\<lambda>d h p. if p = ''b.go'' then Inr [1, 2, 3] else Inl ErrNotExist)\<rparr>\<rparr>,
     fe_fuel = 3, FileCacheSize = 0, StatusJSON = (\<lambda>s. [])\<rparr>"

definition toy_handle :: bytes where
  "toy_handle = handle_of (fe_fs toy_front) ''go4.org/mem@v1.2.3''"

definition toy_state :: "((mod_version \<times> put_data) list, mod_version) front" where
  "toy_state = \<lparr>f_fs = fs0\<lparr>zipRootCache := Some [(mem_mv, mem_mv)], handle_map := Some [(toy_handle, mkTargetFromPath ''go4.org/mem@v1.2.3'')]\<rparr>,
     f_rc = zero_rcache, f_status = None, f_now = FakeStaticFileTime\<rparr>"

lemma toy_parse: "parsePath (XM (fe_fs toy_front)) ''go4.org/mem@v1.2.3'' = zero_path\<lparr>ModVersion := mem_mv, Path := [], InZip := True\<rparr>"
  by code_simp

lemma toy_dir_inv: "dir_inv toy_front mem_mv mem_mv [] toy_handle ''go4.org/mem@v1.2.3'' two_files toy_state"
proof -
  have "length toy_handle = 64" "toy_handle \<noteq> zeroHandle" "toy_handle \<noteq> statusHandle" by code_simp+
  moreover have "get_handle toy_handle (f_fs toy_state) = Some (mkTargetFromPath ''go4.org/mem@v1.2.3'')"
    "getZipRootCached mem_mv (f_fs toy_state) = Some mem_mv"
    by (simp_all add: toy_state_def get_handle_def getZipRootCached_def)
  moreover have "path_Join (splitSegs ''go4.org/mem@v1.2.3'') = ''go4.org/mem@v1.2.3''"
    "local_path (fe_fs toy_front) mem_mv (path_Join (butlast (splitSegs ''go4.org/mem@v1.2.3'')))" by code_simp+
  moreover have "Readdir (Store (fe_fs toy_front)) (st (f_fs toy_state)) mem_mv [] = Inr two_files" by (simp add: toy_front_def)
  ultimately show ?thesis using toy_parse by (simp add: dir_inv_def at_module_path_def two_files_def)
qed

theorem module_dir_listed_witness:
  "\<exists>es s'. list_dir_plus 4 (nfsHandler toy_front) toy_handle 512 4096 toy_state = Some (es, s') \<and>
     map pe_Name es = [''.'', ''..'', ''a'', ''b.go'']"
proof -
  have "\<forall>e \<in> set two_files. length (d_name e) + 20 \<le> unat (512 :: u32)" by (simp add: two_files_def)
  from module_dir_listed [OF toy_dir_inv _ _ this, of 4096] obtain da d dd es s' where
    l: "list_dir_plus (length two_files + 2) (nfsHandler toy_front) toy_handle 512 4096 toy_state = Some (dot_entities_plus da d dd @ es, s')"
    and v: "map (\<lambda>e. (pe_Name e, pe_Handle e, pe_Attributes e)) es =
      map (\<lambda>x. (d_name x, Some (handle_of_segs (fe_fs toy_front) (splitSegs ''go4.org/mem@v1.2.3'' @ [d_name x])),
        Some (ToFileAttribute (dirent_info FakeStaticFileTime x) (path_Join (splitSegs ''go4.org/mem@v1.2.3'' @ [d_name x]))))) (sort_key d_name two_files)"
    by auto
  have "map pe_Name es = map d_name (sort_key d_name two_files)" using arg_cong [OF v, of "map fst"] by (simp add: comp_def)
  moreover have "map d_name (sort_key d_name two_files) = [''a'', ''b.go'']" by code_simp
  moreover have "length two_files + 2 = 4" by (simp add: two_files_def)
  ultimately show ?thesis using l by (auto simp: dot_entities_plus_def)
qed

section \<open>A module's file\<close>

lemma i64_nat: "int k < 2 ^ 63 \<Longrightarrow> i64 (int k) = int k"
  by (subst i64_id) (simp_all add: in_i64_def)

lemma map_leD: "m \<subseteq>\<^sub>m m' \<Longrightarrow> m k = Some v \<Longrightarrow> m' k = Some v"
  by (auto simp: map_le_def dom_def)

text \<open>A client that reads on from where the last reply ended, until one is marked as the end.\<close>

fun read_all :: "nat \<Rightarrow> (u64 \<Rightarrow> 's \<Rightarrow> ((herr + NFSReadResult) \<times> 's) option) \<Rightarrow> nat \<Rightarrow> 's \<Rightarrow> (bytes \<times> 's) option" where
  "read_all 0 rd off s = None"
| "read_all (Suc k) rd off s =
     (case rd (word_of_nat off) s of
        Some (Inr r, s) \<Rightarrow>
          if rr_EOF r then Some (rr_Data r, s)
          else if rr_Data r = [] then None
          else map_option (\<lambda>(d, s). (rr_Data r @ d, s)) (read_all k rd (off + length (rr_Data r)) s)
      | _ \<Rightarrow> None)"

text \<open>What such a client relies on: replies are the pieces asked for, and the end is marked truly.\<close>

locale nfs_reads =
  fixes rd :: "u64 \<Rightarrow> 's \<Rightarrow> ((herr + NFSReadResult) \<times> 's) option" and inv :: "'s \<Rightarrow> bool" and contents :: bytes and n :: nat
  assumes slice: "inv s \<Longrightarrow> unat off \<le> length contents \<Longrightarrow> \<exists>r s'. rd off s = Some (Inr r, s') \<and> inv s' \<and>
      rr_Data r = take n (drop (unat off) contents) \<and> (rr_EOF r \<longleftrightarrow> unat off + length (rr_Data r) = length contents)"
    and chunk: "inv s \<Longrightarrow> 0 < n"
    and fits: "inv s \<Longrightarrow> length contents < 2 ^ 63"
begin

lemma read_rest:
  "inv s \<Longrightarrow> off \<le> length contents \<Longrightarrow> length contents - off < k \<Longrightarrow>
   \<exists>s'. read_all k rd off s = Some (drop off contents, s') \<and> inv s'"
proof (induction k arbitrary: off s)
  case (Suc k)
  have u: "unat (word_of_nat off :: u64) = off"
    using fits [OF Suc.prems(1)] Suc.prems(2) by (simp add: unsigned_of_nat take_bit_nat_eq_self)
  let ?d = "take n (drop off contents)"
  obtain r s1 where r: "rd (word_of_nat off) s = Some (Inr r, s1)" "inv s1" "rr_Data r = ?d" "rr_EOF r \<longleftrightarrow> off + length ?d = length contents"
    using slice [OF Suc.prems(1), of "word_of_nat off"] Suc.prems(2) u by auto
  show ?case
  proof (cases "off + length ?d = length contents")
    case True
    then have "?d = drop off contents" by (cases "length contents - off \<le> n") auto
    then show ?thesis using True r by simp
  next
    case False
    then have l: "?d \<noteq> []" "off + length ?d \<le> length contents" "length contents - (off + length ?d) < k"
      using chunk [OF Suc.prems(1)] Suc.prems(2,3) by (auto simp: min_def split: if_splits)
    have "drop off contents = ?d @ drop (off + length ?d) contents"
      using append_take_drop_id [of n "drop off contents"] False by (simp add: min_def add.commute split: if_splits)
    then show ?thesis using Suc.IH [OF r(2) l(2,3)] r False l(1) by auto
  qed
qed simp

end

definition rc_holds :: "(bytes \<Rightarrow> 'b) \<Rightarrow> 'k \<Rightarrow> bytes \<Rightarrow> 'a \<Rightarrow> ('k, 'b, 'a) rcache \<Rightarrow> bool" where
  "rc_holds hf h c attr rc \<longleftrightarrow> rc_inv hf rc \<and> (\<forall>a bh. ent_map rc h = Some (a, bh) \<longrightarrow> a = attr \<and> bh = hf c) \<and>
     (\<forall>b. blob_map rc (hf c) = Some b \<longrightarrow> b = c)"

lemma rc_holds_lookup:
  assumes "rc_holds hf h c attr rc"
  shows "\<exists>r rc'. rc_lookup rc h = Some (r, rc') \<and> rc_holds hf h c attr rc' \<and> (r = None \<or> r = Some (c, attr))"
  using rc_lookup_ok [of hf rc h] assms by (cases "blob_map rc (hf c)") (auto simp: rc_holds_def split: option.splits prod.splits)

lemma rc_holds_fill:
  assumes "rc_holds hf h c attr rc"
  shows "\<exists>rc'. setReadCache hf n h attr c rc = Some rc' \<and> rc_holds hf h c attr rc'"
proof -
  have i: "rc_inv hf rc" using assms by (simp add: rc_holds_def)
  from setReadCache_ok [OF i, of n h attr c] obtain rc' where r: "setReadCache hf n h attr c rc = Some rc'" "rc_ready hf rc'"
    "ent_map rc' \<subseteq>\<^sub>m (ent_map rc)(h \<mapsto> (attr, hf c))" "blob_map rc' \<subseteq>\<^sub>m (blob_map rc)(hf c \<mapsto> c)" by blast
  have "ent_map rc' h = Some x \<Longrightarrow> x = (attr, hf c)" "blob_map rc' (hf c) = Some y \<Longrightarrow> y = c" for x y
    using map_leD [OF r(3), of h x] map_leD [OF r(4), of "hf c" y] by simp_all
  then show ?thesis using r(1) ready_inv [OF r(2)] by (auto simp: rc_holds_def)
qed

text \<open>
  The state knows the handle \<open>h\<close> of the file \<open>name\<close>, which is the file \<open>p\<close> of the module \<open>mv\<close> with
  contents \<open>c\<close>; what the read cache has for the handle is that file, and there is no other content of
  its hash.
\<close>

definition file_attr :: "string \<Rightarrow> file_info \<Rightarrow> bytes \<Rightarrow> FileAttribute" where
  "file_attr name fi c = snd (sized c ((base_attr name)\<lparr>fa_FileMode := mode_bits (fi_mode fi) AND ModePerm\<rparr>))"

definition file_inv ::
  "('st, 'h) front_env \<Rightarrow> mod_version \<Rightarrow> 'h \<Rightarrow> string \<Rightarrow> bytes \<Rightarrow> string \<Rightarrow> file_info \<Rightarrow> bytes \<Rightarrow> u32 \<Rightarrow> ('st, 'h) front \<Rightarrow> bool" where
  "file_inv F mv mh p h name fi c cnt s \<longleftrightarrow>
     at_module_path F mv mh p h name s \<and>
     Stat (Store (fe_fs F)) (st (f_fs s)) mh p = Inr fi \<and> \<not> is_dir (fi_mode fi) \<and>
     GetFile (Store (fe_fs F)) (st (f_fs s)) mh p = Inr c \<and>
     rc_holds (sha (fe_fs F)) h c (file_attr name fi c) (f_rc s) \<and> 0 < cnt \<and> length c < 2 ^ 63"

lemma file_contents:
  assumes "file_inv F mv mh p h name fi c cnt s"
  shows "\<exists>s'. nfs_getFileContents F h s = Some (Inr (c, file_attr name fi c), s') \<and> file_inv F mv mh p h name fi c cnt s'"
proof -
  let ?a = "file_attr name fi c"
  have t: "length h = 64" "h \<noteq> zeroHandle" "h \<noteq> statusHandle" "get_handle h (f_fs s) = Some (mkTargetFromPath name)"
    and z: "getZipRootCached mv (f_fs s) = Some mh"
    and pp: "parsePath (XM (fe_fs F)) name = zero_path\<lparr>ModVersion := mv, Path := p, InZip := True\<rparr>"
    and f: "Stat (Store (fe_fs F)) (st (f_fs s)) mh p = Inr fi" "\<not> is_dir (fi_mode fi)" "GetFile (Store (fe_fs F)) (st (f_fs s)) mh p = Inr c"
    and rc: "rc_holds (sha (fe_fs F)) h c ?a (f_rc s)"
    using assms by (auto simp: file_inv_def at_module_path_def)
  have keep: "file_inv F mv mh p h name fi c cnt (s\<lparr>f_rc := rc'\<rparr>)" if "rc_holds (sha (fe_fs F)) h c ?a rc'" for rc'
    using assms that by (simp add: file_inv_def at_module_path_def)
  obtain r rc1 where r: "rc_lookup (f_rc s) h = Some (r, rc1)" "rc_holds (sha (fe_fs F)) h c ?a rc1" "r = None \<or> r = Some (c, ?a)"
    using rc_holds_lookup [OF rc] by blast
  show ?thesis
  proof (cases r)
    case (Some x)
    then show ?thesis using r keep by (simp add: nfs_getFileContents_def)
  next
    case None
    obtain rc2 where rc2: "setReadCache (sha (fe_fs F)) (FileCacheSize F) h ?a c rc1 = Some rc2" "rc_holds (sha (fe_fs F)) h c ?a rc2"
      using rc_holds_fill [OF r(2)] by blast
    have "getFileContentsUncached F name (s\<lparr>f_rc := rc1\<rparr>) = Some (Inr (c, ?a), s\<lparr>f_rc := rc1\<rparr>)"
      using pp f lift_hit [of mv "s\<lparr>f_rc := rc1\<rparr>" mh "fe_fs F"] z
      by (simp add: getFileContentsUncached_def Let_def zero_path_def wkTSGoExtracted_def statusFile_def cbind_def cret_def file_attr_def sized_def)
    then show ?thesis using None r(1) rc2 keep FromHandle_seen(1) [OF t, of "fe_fs F" "fe_fuel F"]
      by (simp add: nfs_getFileContents_def mkTargetFromPath_def)
  qed
qed

interpretation module_file: nfs_reads "\<lambda>off. OnNFSRead F h off cnt" "file_inv F mv mh p h name fi c cnt" c "min (unat cnt) (16 * 2 ^ 20)"
  for F h cnt mv mh p name fi c
proof
  fix s off assume s: "file_inv F mv mh p h name fi c cnt s" and off: "unat (off :: u64) \<le> length c"
  have l: "length h = 64" "length c < 2 ^ 63" using s by (simp_all add: file_inv_def at_module_path_def)
  have "int (unat off) < 2 ^ 63" using order_le_less_trans [OF off l(2)] by (simp del: of_nat_unat)
  then have "sint off = int (unat off)" using order_trans [OF _ uint_ge_0, of "- (2 ^ 63)" off] by (simp add: sint_uint signed_take_bit_int_eq_self_iff)
  moreover have le: "unat off + length (read_slice c off cnt) \<le> length c" using off by (simp add: read_slice_def)
  ultimately have "sint off + int (length (read_slice c off cnt)) = int (unat off + length (read_slice c off cnt))" by (simp only: of_nat_add)
  moreover have "int (unat off + length (read_slice c off cnt)) < 2 ^ 63" using le l(2) by (simp only: of_nat_less_numeral_power_cancel_iff)
  ultimately have e: "i64 (sint off + int (length (read_slice c off cnt))) = int (length c) \<longleftrightarrow> unat off + length (read_slice c off cnt) = length c"
    by (simp only: i64_nat of_nat_eq_iff)
  show "\<exists>r s'. OnNFSRead F h off cnt s = Some (Inr r, s') \<and> file_inv F mv mh p h name fi c cnt s' \<and>
      rr_Data r = take (min (unat cnt) (16 * 2 ^ 20)) (drop (unat off) c) \<and> (rr_EOF r \<longleftrightarrow> unat off + length (rr_Data r) = length c)"
    using file_contents [OF s] l(1) e off by (auto simp: OnNFSRead_def Let_def read_slice_def)
next
  fix s assume s: "file_inv F mv mh p h name fi c cnt s"
  then have "cnt \<noteq> 0" by (auto simp: file_inv_def)
  then show "0 < min (unat cnt) (16 * 2 ^ 20)" by (simp add: unat_gt_0)
  show "length c < 2 ^ 63" using s by (simp add: file_inv_def)
qed

text \<open>
  C9. A module's file is read completely: a client that reads through the file's handle with any
  count, each time from where the last reply ended, gets to a reply marked as the end, and the pieces
  it was given are the file's contents, whether they came from the read cache or from the store.
\<close>
theorem module_file_read:
  assumes "file_inv F mv mh p h name fi c cnt s"
  shows "\<exists>s'. read_all (length c + 1) (\<lambda>off. OnNFSRead F h off cnt) 0 s = Some (c, s') \<and> file_inv F mv mh p h name fi c cnt s'"
  using module_file.read_rest [OF assms, of 0 "length c + 1"] by auto

definition toy_file_handle :: bytes where
  "toy_file_handle = handle_of (fe_fs toy_front) ''go4.org/mem@v1.2.3/b.go''"

definition toy_file_state :: "((mod_version \<times> put_data) list, mod_version) front" where
  "toy_file_state = toy_state\<lparr>f_fs := (f_fs toy_state)\<lparr>handle_map := Some [(toy_file_handle, mkTargetFromPath ''go4.org/mem@v1.2.3/b.go'')]\<rparr>\<rparr>"

lemma toy_file_inv:
  "file_inv toy_front mem_mv mem_mv ''b.go'' toy_file_handle ''go4.org/mem@v1.2.3/b.go''
     \<lparr>fi_name = ''b.go'', fi_size = 3, fi_mode = \<lparr>is_dir = False, perm = 420\<rparr>\<rparr> [1, 2, 3] 2 toy_file_state"
proof -
  have "length toy_file_handle = 64" "toy_file_handle \<noteq> zeroHandle" "toy_file_handle \<noteq> statusHandle" by code_simp+
  moreover have "parsePath (XM (fe_fs toy_front)) ''go4.org/mem@v1.2.3/b.go'' = zero_path\<lparr>ModVersion := mem_mv, Path := ''b.go'', InZip := True\<rparr>" by code_simp
  moreover have "rc_holds f h c a zero_rcache" for f :: "bytes \<Rightarrow> bytes" and h :: bytes and c and a :: FileAttribute
    using zero_rcache_inv by (simp add: rc_holds_def ent_map_def blob_map_def zero_rcache_def)
  ultimately show ?thesis
    by (simp add: file_inv_def at_module_path_def toy_file_state_def toy_state_def get_handle_def getZipRootCached_def toy_front_def)
qed

theorem module_file_read_witness:
  "\<exists>s'. read_all 4 (\<lambda>off. OnNFSRead toy_front toy_file_handle off 2) 0 toy_file_state = Some ([1, 2, 3], s')"
  using module_file_read [OF toy_file_inv] by (simp add: numeral_eq_Suc) blast

end
