(* ===== verification/Nfs_Writes.thy ===== *)
theory Nfs_Writes
  imports Nfs_Procs
begin

unbundle bit_operations_syntax

text \<open>
  The procedures of the NFS server that change a file system (\<^verbatim>\<open>nfs_onsetattr.go\<close>, \<^verbatim>\<open>nfs_onwrite.go\<close>,
  \<^verbatim>\<open>nfs_oncreate.go\<close>, \<^verbatim>\<open>nfs_onmkdir.go\<close>, \<^verbatim>\<open>nfs_onremove.go\<close>, \<^verbatim>\<open>nfs_onrmdir.go\<close>, \<^verbatim>\<open>nfs_onrename.go\<close>,
  \<^verbatim>\<open>nfs_onlink.go\<close>, \<^verbatim>\<open>nfs_onsymlink.go\<close>, \<^verbatim>\<open>nfs_onmknod.go\<close>) with the attributes they set (\<^verbatim>\<open>file.go\<close>), and
  that a file system without the write capability is never changed by them.
\<close>

section \<open>Setting attributes\<close>

record SetFileAttributes =
  SetMode :: "u32 option"
  SetUID :: "u32 option"
  SetGID :: "u32 option"
  SetSize :: "u64 option"
  SetAtime :: "gotime option"
  SetMtime :: "gotime option"

definition r_optional :: "xdr_lib \<Rightarrow> (bytes \<Rightarrow> ('a \<times> bytes) option) \<Rightarrow> bytes \<Rightarrow> ('a option \<times> bytes) option" where
  "r_optional X rd b = do {
     (has, b) \<leftarrow> r_u32 X b;
     if has \<noteq> 0 then do { (v, b) \<leftarrow> rd b; Some (Some v, b) } else Some (None, b)
   }"

definition r_time :: "xdr_lib \<Rightarrow> bytes \<Rightarrow> (FileTime \<times> bytes) option" where
  "r_time X b = do {
     (s, b) \<leftarrow> r_u32 X b;
     (n, b) \<leftarrow> r_u32 X b;
     Some (\<lparr>Seconds = s, Nseconds = n\<rparr>, b)
   }"

definition r_set_time :: "xdr_lib \<Rightarrow> gotime \<Rightarrow> bytes \<Rightarrow> (gotime option \<times> bytes) option" where
  "r_set_time X now b = do {
     (how, b) \<leftarrow> r_u32 X b;
     if how = 1 then Some (Some now, b)
     else if how = 2 then do { (t, b) \<leftarrow> r_time X b; Some (Some (Native t), b) }
     else Some (None, b)
   }"

text \<open>Both readings of the clock are the same time here.\<close>

definition ReadSetFileAttributes :: "xdr_lib \<Rightarrow> gotime \<Rightarrow> bytes \<Rightarrow> (SetFileAttributes \<times> bytes) option" where
  "ReadSetFileAttributes X now b = do {
     (m, b) \<leftarrow> r_optional X (r_u32 X) b;
     (u, b) \<leftarrow> r_optional X (r_u32 X) b;
     (g, b) \<leftarrow> r_optional X (r_u32 X) b;
     (sz, b) \<leftarrow> r_optional X (r_u64 X) b;
     (at, b) \<leftarrow> r_set_time X now b;
     (mt, b) \<leftarrow> r_set_time X now b;
     Some (\<lparr>SetMode = m, SetUID = u, SetGID = g, SetSize = sz, SetAtime = at, SetMtime = mt\<rparr>, b)
   }"

definition set_mode :: "SetFileAttributes \<Rightarrow> u32 \<Rightarrow> u32" where
  "set_mode a def = (case SetMode a of Some m \<Rightarrow> m AND ModePerm | None \<Rightarrow> def)"

text \<open>Steps in sequence, and a change that may be denied or not supported at all.\<close>

definition andThen :: "('s, 'a) step \<Rightarrow> ('a \<Rightarrow> ('s, 'b) step) \<Rightarrow> ('s, 'b) step" where
  "andThen m f s = (case m s of None \<Rightarrow> None | Some (Inl e, s) \<Rightarrow> Some (Inl e, s) | Some (Inr x, s) \<Rightarrow> f x s)"

definition access_err :: "err \<Rightarrow> herr" where
  "access_err e = (if errors_Is e ErrPermission then NfsErr NFSStatusAccess else OtherErr e)"

definition change :: "'s changer option \<Rightarrow> ('s changer \<Rightarrow> ('s, unit) call) \<Rightarrow> ('s, unit) step" where
  "change c f = (case c of None \<Rightarrow> fail NFSStatusNotSupp | Some c \<Rightarrow> call (f c) access_err ret)"

definition apply_mode :: "SetFileAttributes \<Rightarrow> 's changer option \<Rightarrow> FileAttribute \<Rightarrow> string \<Rightarrow> ('s, unit) step" where
  "apply_mode a c cur file =
     (case SetMode a of
        None \<Rightarrow> ret ()
      | Some m \<Rightarrow>
          let mode = m AND ModePerm in
          if mode \<noteq> fa_FileMode cur AND ModePerm then change c (\<lambda>c. ch_Chmod c file mode) else ret ())"

definition apply_owner :: "SetFileAttributes \<Rightarrow> 's changer option \<Rightarrow> FileAttribute \<Rightarrow> string \<Rightarrow> ('s, unit) step" where
  "apply_owner a c cur file =
     (if SetUID a = None \<and> SetGID a = None then ret ()
      else
      let euid = (case SetUID a of None \<Rightarrow> fa_UID cur | Some u \<Rightarrow> u);
          egid = (case SetGID a of None \<Rightarrow> fa_GID cur | Some g \<Rightarrow> g) in
      if euid \<noteq> fa_UID cur \<or> egid \<noteq> fa_GID cur then change c (\<lambda>c. ch_Lchown c file euid egid) else ret ())"

definition O_WRONLY :: u32 where "O_WRONLY = 1"
definition O_RDWR :: u32 where "O_RDWR = 2"
definition O_EXCL :: u32 where "O_EXCL = 0x80"

definition apply_size :: "SetFileAttributes \<Rightarrow> ('s, 'f) nfs_user \<Rightarrow> FileAttribute \<Rightarrow> string \<Rightarrow> ('s, unit) step" where
  "apply_size a U cur file =
     (case SetSize a of
        None \<Rightarrow> ret ()
      | Some sz \<Rightarrow>
          if fa_FileMode cur AND ModeSymlink \<noteq> 0 then fail NFSStatusNotSupp
          else
          call (b_OpenFile U file (O_WRONLY OR O_EXCL) 0) access_err (\<lambda>fp.
          if 2 ^ 63 - 1 < sz then fail NFSStatusInval
          else
          call (f_Truncate U fp (uint sz)) OtherErr (\<lambda>_.
          call (f_Close U fp) OtherErr ret)))"

text \<open>The times are compared as pointers to fresh values, which always differ.\<close>

definition apply_times :: "SetFileAttributes \<Rightarrow> 's changer option \<Rightarrow> FileAttribute \<Rightarrow> string \<Rightarrow> ('s, unit) step" where
  "apply_times a c cur file =
     (if SetAtime a = None \<and> SetMtime a = None then ret ()
      else
      let atime = (case SetAtime a of None \<Rightarrow> Native (fa_Atime cur) | Some t \<Rightarrow> t);
          mtime = (case SetMtime a of None \<Rightarrow> Native (fa_Mtime cur) | Some t \<Rightarrow> t) in
      change c (\<lambda>c. ch_Chtimes c file atime mtime))"

text \<open>An error of \<^verbatim>\<open>Lstat\<close> other than the two is no error of \<^verbatim>\<open>Apply\<close>.\<close>

definition Apply :: "SetFileAttributes \<Rightarrow> 's changer option \<Rightarrow> ('s, 'f) nfs_user \<Rightarrow> string \<Rightarrow> ('s, unit) step" where
  "Apply a c U file s =
     (case b_Lstat U file s of
        None \<Rightarrow> None
      | Some (Inl e, s) \<Rightarrow>
          if errors_Is e ErrNotExist then fail NFSStatusNoEnt s
          else if errors_Is e ErrPermission then fail NFSStatusAccess s
          else ret () s
      | Some (Inr curOS, s) \<Rightarrow>
          let cur = ToFileAttribute curOS file in
          andThen (apply_mode a c cur file) (\<lambda>_.
          andThen (apply_owner a c cur file) (\<lambda>_.
          andThen (apply_size a U cur file) (\<lambda>_.
          apply_times a c cur file))) s)"

text \<open>Where a caller of \<^verbatim>\<open>Apply\<close> reports its errors with a status of its own.\<close>

definition apply_or :: "NFSStatus \<Rightarrow> SetFileAttributes \<Rightarrow> 's changer option \<Rightarrow> ('s, 'f) nfs_user \<Rightarrow> string \<Rightarrow> ('s, 'b) step \<Rightarrow> ('s, 'b) step" where
  "apply_or st a c U file k s =
     (case Apply a c U file s of None \<Rightarrow> None | Some (Inl e, s) \<Rightarrow> fail st s | Some (Inr _, s) \<Rightarrow> k s)"

definition with_attrs ::
  "xdr_lib \<Rightarrow> ('s, 'f) nfs_user \<Rightarrow> bytes \<Rightarrow> (SetFileAttributes \<times> bytes \<Rightarrow> ('s, 'b) step) \<Rightarrow> ('s, 'b) step" where
  "with_attrs X U b k s = arg (ReadSetFileAttributes X (u_now U s) b) k s"

definition guard_ctime :: "xdr_lib \<Rightarrow> FileAttribute \<Rightarrow> bytes \<Rightarrow> ('s, 'b) step \<Rightarrow> ('s, 'b) step" where
  "guard_ctime X attr b k =
     arg (r_u32 X b) (\<lambda>(g, b).
     if g = 0 then k
     else arg (r_time X b) (\<lambda>(t, b). if t \<noteq> fa_Ctime attr then fail NFSStatusNotSync else k))"

definition setAttr_body :: "xdr_lib \<Rightarrow> ('s, 'f) nfs_user \<Rightarrow> bytes \<Rightarrow> ('s, bytes) step" where
  "setAttr_body X U b =
     arg (r_opaque X b) (\<lambda>(handle, b).
     fromH U handle (\<lambda>path.
     with_attrs X U b (\<lambda>(attrs, b).
     let fullPath = b_Join U path in
     call (b_Lstat U fullPath) (\<lambda>e. NfsErr (if os_IsNotExist e then NFSStatusNoEnt else NFSStatusAccess)) (\<lambda>info.
     guard_ctime X (ToFileAttribute info fullPath) b (
     if \<not> b_writable U then fail NFSStatusROFS
     else
     andThen (Apply attrs (u_Change U) U fullPath) (\<lambda>_.
     withStat U path (\<lambda>post.
     ret (statusOk X @ WriteWcc X (Some (AsCache (ToFileAttribute info fullPath))) post))))))))"

definition onSetAttr where "onSetAttr X U = run_proc X (Some wccDataErrorFormatter) (setAttr_body X U)"

section \<open>Writing\<close>

definition unstable :: u32 where "unstable = 0"
definition dataSync :: u32 where "dataSync = 1"
definition fileSync :: u32 where "fileSync = 2"

record writeArgs =
  wa_Handle :: bytes
  wa_Offset :: u64
  wa_Count :: u32
  wa_How :: u32
  wa_Data :: bytes

definition r_writeArgs :: "xdr_lib \<Rightarrow> bytes \<Rightarrow> writeArgs option" where
  "r_writeArgs X b = do {
     (h, b) \<leftarrow> r_opaque X b;
     (off, b) \<leftarrow> r_u64 X b;
     (c, b) \<leftarrow> r_u32 X b;
     (how, b) \<leftarrow> r_u32 X b;
     (d, b) \<leftarrow> r_opaque X b;
     Some \<lparr>wa_Handle = h, wa_Offset = off, wa_Count = c, wa_How = how, wa_Data = d\<rparr>
   }"

definition stat_err :: "err \<Rightarrow> herr" where
  "stat_err e = NfsErr (if os_IsNotExist e then NFSStatusNoEnt else NFSStatusAccess)"

definition write_file :: "('s, 'f) nfs_user \<Rightarrow> writeArgs \<Rightarrow> 'f \<Rightarrow> ('s, nat) step" where
  "write_file U req file =
     andThen (if wa_Offset req > 0 then call (f_Seek U file (sint (wa_Offset req))) (\<lambda>e. NfsErr NFSStatusIO) ret else ret ()) (\<lambda>_.
     call (f_Write U file (take (unat (wa_Count req)) (wa_Data req))) (\<lambda>e. NfsErr NFSStatusIO) (\<lambda>n.
     call (f_Close U file) (\<lambda>e. NfsErr NFSStatusIO) (\<lambda>_. ret n)))"

definition write_body :: "xdr_lib \<Rightarrow> bytes \<Rightarrow> ('s, 'f) nfs_user \<Rightarrow> bytes \<Rightarrow> ('s, bytes) step" where
  "write_body X serverID U b =
     arg (r_writeArgs X b) (\<lambda>req.
     fromH U (wa_Handle req) (\<lambda>path.
     if \<not> b_writable U then fail NFSStatusROFS
     else if length (wa_Data req) > 2 ^ 31 - 1 \<or> wa_Count req > 2 ^ 31 - 1 then fail NFSStatusFBig
     else if wa_How req \<notin> {unstable, dataSync, fileSync} then fail NFSStatusInval
     else
     let fullPath = b_Join U path in
     call (b_Stat U fullPath) stat_err (\<lambda>info.
     if \<not> IsRegular (oi_mode info) then fail NFSStatusInval
     else
     call (b_OpenFile U fullPath O_RDWR (oi_mode info AND ModePerm)) (\<lambda>e. NfsErr NFSStatusAccess) (\<lambda>file.
     andThen (write_file U req file) (\<lambda>writtenCount.
     withStat U path (\<lambda>post.
     ret (statusOk X @ WriteWcc X (Some (AsCache (ToFileAttribute info fullPath))) post @
       x_u32 X (word_of_nat writtenCount) @ x_u32 X fileSync @ serverID)))))))"

definition onWrite where "onWrite X serverID U = run_proc X (Some wccDataErrorFormatter) (write_body X serverID U)"

section \<open>Creating\<close>

definition createModeUnchecked :: u32 where "createModeUnchecked = 0"
definition createModeGuarded :: u32 where "createModeGuarded = 1"
definition createModeExclusive :: u32 where "createModeExclusive = 2"

definition parent_dir :: "('s, 'f) nfs_user \<Rightarrow> string list \<Rightarrow> (os_info \<Rightarrow> ('s, 'b) step) \<Rightarrow> ('s, 'b) step" where
  "parent_dir U path k =
     call (b_Stat U (b_Join U path)) (\<lambda>e. NfsErr NFSStatusAccess) (\<lambda>s. if \<not> oi_IsDir s then fail NFSStatusNotDir else k s)"

text \<open>
  Where the new name exists as a directory (or at all, when \<open>guarded\<close>) there is an error; where it
  does not, its parent must be a directory.
\<close>

definition new_name :: "('s, 'f) nfs_user \<Rightarrow> bool \<Rightarrow> string list \<Rightarrow> string \<Rightarrow> ('s, 'b) step \<Rightarrow> ('s, 'b) step" where
  "new_name U guarded path newPath k s =
     (case b_Stat U newPath s of
        None \<Rightarrow> None
      | Some (Inr i, s) \<Rightarrow> if oi_IsDir i \<or> guarded then fail NFSStatusExist s else k s
      | Some (Inl e, s) \<Rightarrow> parent_dir U path (\<lambda>_. k) s)"

definition created :: "xdr_lib \<Rightarrow> ('s, 'f) nfs_user \<Rightarrow> bytes \<Rightarrow> string list \<Rightarrow> string list \<Rightarrow> ('s, bytes) step" where
  "created X U fp file path =
     withStat U file (\<lambda>fa. withStat U path (\<lambda>pa.
     ret (statusOk X @ x_u32 X 1 @ x_opaque X fp @ WritePostOpAttrs X fa @ WriteWcc X None pa)))"

definition create_at :: "xdr_lib \<Rightarrow> ('s, 'f) nfs_user \<Rightarrow> SetFileAttributes \<Rightarrow> string list \<Rightarrow> string list \<Rightarrow> ('s, bytes) step" where
  "create_at X U attrs path newFile =
     (let newFilePath = b_Join U newFile in
      call (b_Create U newFilePath) (\<lambda>e. NfsErr NFSStatusAccess) (\<lambda>file.
      call (f_Close U file) (\<lambda>e. NfsErr NFSStatusAccess) (\<lambda>_ s.
      let (fp, s) = u_ToHandle U newFile s in
      apply_or NFSStatusIO attrs (u_Change U) U newFilePath (created X U fp [f_Name U file] path) s)))"

definition create_body :: "xdr_lib \<Rightarrow> ('s, 'f) nfs_user \<Rightarrow> bytes \<Rightarrow> ('s, bytes) step" where
  "create_body X U b =
     arg (r_DirOpArg X b) (\<lambda>(obj, b).
     arg (r_u32 X b) (\<lambda>(how, b).
     if how = createModeUnchecked \<or> how = createModeGuarded then
       with_attrs X U b (\<lambda>(attrs, b).
       fromH U (do_Handle obj) (\<lambda>path.
       if \<not> b_writable U then fail NFSStatusROFS
       else if length (do_Filename obj) > PathNameMax then fail NFSStatusNameTooLong
       else
       let newFile = path @ [do_Filename obj] in
       new_name U (how = createModeGuarded) path (b_Join U newFile) (create_at X U attrs path newFile)))
     else if how = createModeExclusive then
       (if length b < 8 then fail NFSStatusInval else fail NFSStatusNotSupp)
     else fail NFSStatusNotSupp))"

definition onCreate where "onCreate X U = run_proc X (Some wccDataErrorFormatter) (create_body X U)"

text \<open>The default mode is the decimal number 755.\<close>

definition mkdirDefaultMode :: u32 where "mkdirDefaultMode = 755"

definition mkdir_at :: "xdr_lib \<Rightarrow> ('s, 'f) nfs_user \<Rightarrow> SetFileAttributes \<Rightarrow> string list \<Rightarrow> string list \<Rightarrow> ('s, bytes) step" where
  "mkdir_at X U attrs path newFolder =
     (let newFolderPath = b_Join U newFolder in
      call (b_MkdirAll U newFolderPath (set_mode attrs mkdirDefaultMode)) (\<lambda>e. NfsErr NFSStatusAccess) (\<lambda>_ s.
      let (fp, s) = u_ToHandle U newFolder s;
          done' = created X U fp newFolder path in
      case u_Change U of None \<Rightarrow> done' s | Some c \<Rightarrow> apply_or NFSStatusIO attrs (Some c) U newFolderPath done' s))"

definition mkdir_body :: "xdr_lib \<Rightarrow> ('s, 'f) nfs_user \<Rightarrow> bytes \<Rightarrow> ('s, bytes) step" where
  "mkdir_body X U b =
     arg (r_DirOpArg X b) (\<lambda>(obj, b).
     with_attrs X U b (\<lambda>(attrs, b).
     fromH U (do_Handle obj) (\<lambda>path.
     if \<not> b_writable U then fail NFSStatusROFS
     else if length (do_Filename obj) > PathNameMax then fail NFSStatusNameTooLong
     else if do_Filename obj = ''.'' \<or> do_Filename obj = ''..'' then fail NFSStatusExist
     else
     let newFolder = path @ [do_Filename obj] in
     new_name U False path (b_Join U newFolder) (mkdir_at X U attrs path newFolder))))"

definition onMkdir where "onMkdir X U = run_proc X (Some wccDataErrorFormatter) (mkdir_body X U)"

section \<open>Removing and renaming\<close>

definition remove_err :: "err \<Rightarrow> herr" where
  "remove_err e = NfsErr (if os_IsNotExist e then NFSStatusNoEnt else if os_IsPermission e then NFSStatusAccess else NFSStatusIO)"

definition remove_body :: "xdr_lib \<Rightarrow> ('s, 'f) nfs_user \<Rightarrow> bytes \<Rightarrow> ('s, bytes) step" where
  "remove_body X U b =
     arg (r_DirOpArg X b) (\<lambda>(obj, b).
     fromH U (do_Handle obj) (\<lambda>path.
     if \<not> b_writable U then fail NFSStatusROFS
     else if length (do_Filename obj) > PathNameMax then fail NFSStatusNameTooLong
     else
     let fullPath = b_Join U path in
     call (b_Stat U fullPath) remove_err (\<lambda>dirInfo.
     if \<not> oi_IsDir dirInfo then fail NFSStatusNotDir
     else (\<lambda>s.
     let (toDeleteHandle, s) = u_ToHandle U (path @ [do_Filename obj]) s in
     call (b_Remove U (b_Join U (path @ [do_Filename obj]))) remove_err (\<lambda>_.
     call (u_InvalidateHandle U toDeleteHandle) (\<lambda>e. NfsErr NFSStatusServerFault) (\<lambda>_.
     withStat U path (\<lambda>post.
     ret (statusOk X @ WriteWcc X (Some (AsCache (ToFileAttribute dirInfo fullPath))) post)))) s))))"

definition onRemove where "onRemove X U = run_proc X (Some wccDataErrorFormatter) (remove_body X U)"
definition onRmDir where "onRmDir X U = onRemove X U"

definition dir_info :: "('s, 'f) nfs_user \<Rightarrow> string list \<Rightarrow> (FileCacheAttribute \<Rightarrow> ('s, 'b) step) \<Rightarrow> ('s, 'b) step" where
  "dir_info U path k =
     (let p = b_Join U path in
      call (b_Stat U p) (\<lambda>e. NfsErr (if os_IsNotExist e then NFSStatusNoEnt else NFSStatusIO)) (\<lambda>i.
      if \<not> oi_IsDir i then fail NFSStatusNotDir else k (AsCache (ToFileAttribute i p))))"

text \<open>One handler serves one file system, so that the two compared are always the same.\<close>

definition rename_body :: "xdr_lib \<Rightarrow> ('s, 'f) nfs_user \<Rightarrow> bytes \<Rightarrow> ('s, bytes) step" where
  "rename_body X U b =
     arg (r_DirOpArg X b) (\<lambda>(from, b).
     fromH U (do_Handle from) (\<lambda>fromPath.
     arg (r_DirOpArg X b) (\<lambda>(to, b).
     fromH U (do_Handle to) (\<lambda>toPath.
     if \<not> b_writable U then fail NFSStatusROFS
     else if length (do_Filename from) > PathNameMax \<or> length (do_Filename to) > PathNameMax then fail NFSStatusNameTooLong
     else
     dir_info U fromPath (\<lambda>preCacheData.
     dir_info U toPath (\<lambda>preDestData s.
     let (oldHandle, s) = u_ToHandle U (fromPath @ [do_Filename from]) s in
     call (b_Rename U (b_Join U (fromPath @ [do_Filename from])) (b_Join U (toPath @ [do_Filename to]))) remove_err (\<lambda>_.
     call (u_InvalidateHandle U oldHandle) (\<lambda>e. NfsErr NFSStatusServerFault) (\<lambda>_.
     withStat U fromPath (\<lambda>fa. withStat U toPath (\<lambda>ta.
     ret (statusOk X @ WriteWcc X (Some preCacheData) fa @ WriteWcc X (Some preDestData) ta))))) s))))))"

definition onRename where "onRename X U = run_proc X (Some (errFormatterWithBody doubleWccErrorBody)) (rename_body X U)"

section \<open>Links and special files\<close>

definition no_such_name :: "('s, 'f) nfs_user \<Rightarrow> string list \<Rightarrow> string \<Rightarrow> (os_info \<Rightarrow> ('s, 'b) step) \<Rightarrow> ('s, 'b) step" where
  "no_such_name U path newFilePath k s =
     (case b_Stat U newFilePath s of
        None \<Rightarrow> None
      | Some (Inr i, s) \<Rightarrow> fail NFSStatusExist s
      | Some (Inl e, s) \<Rightarrow> parent_dir U path k s)"

definition link_body :: "xdr_lib \<Rightarrow> ('s, 'f) nfs_user \<Rightarrow> bytes \<Rightarrow> ('s, bytes) step" where
  "link_body X U b =
     arg (r_DirOpArg X b) (\<lambda>(obj, b).
     with_attrs X U b (\<lambda>(attrs, b).
     arg (r_opaque X b) (\<lambda>(target, b).
     fromH U (do_Handle obj) (\<lambda>path.
     if \<not> b_writable U then fail NFSStatusROFS
     else if length (do_Filename obj) > PathNameMax then fail NFSStatusNameTooLong
     else
     let newFile = path @ [do_Filename obj]; newFilePath = b_Join U newFile in
     no_such_name U path newFilePath (\<lambda>_ s.
     let (fp, s) = u_ToHandle U newFile s in
     (case u_Change U of
        None \<Rightarrow> fail NFSStatusAccess
      | Some c \<Rightarrow>
          (case ch_unix c of
             None \<Rightarrow> fail NFSStatusAccess
           | Some cos \<Rightarrow>
               call (ch_Link cos (str_of_bytes target) newFilePath) (\<lambda>e. NfsErr NFSStatusAccess) (\<lambda>_.
               apply_or NFSStatusIO attrs (Some c) U newFilePath (created X U fp newFile path)))) s)))))"

definition onLink where "onLink X U = run_proc X (Some wccDataErrorFormatter) (link_body X U)"

definition symlink_body :: "xdr_lib \<Rightarrow> ('s, 'f) nfs_user \<Rightarrow> bytes \<Rightarrow> ('s, bytes) step" where
  "symlink_body X U b =
     arg (r_DirOpArg X b) (\<lambda>(obj, b).
     with_attrs X U b (\<lambda>(attrs, b).
     arg (r_opaque X b) (\<lambda>(target, b).
     fromH U (do_Handle obj) (\<lambda>path.
     if \<not> b_writable U then fail NFSStatusROFS
     else if length (do_Filename obj) > PathNameMax then fail NFSStatusNameTooLong
     else
     let newFile = path @ [do_Filename obj]; newFilePath = b_Join U newFile in
     no_such_name U path newFilePath (\<lambda>_.
     call (b_Symlink U (str_of_bytes target) newFilePath) (\<lambda>e. NfsErr NFSStatusAccess) (\<lambda>_ s.
     let (fp, s) = u_ToHandle U newFile s; done' = created X U fp newFile path in
     case u_Change U of None \<Rightarrow> done' s | Some c \<Rightarrow> apply_or NFSStatusIO attrs (Some c) U newFilePath done' s))))))"

definition onSymlink where "onSymlink X U = run_proc X (Some wccDataErrorFormatter) (symlink_body X U)"

definition FTYPE_NF3BLK :: u32 where "FTYPE_NF3BLK = 3"
definition FTYPE_NF3CHR :: u32 where "FTYPE_NF3CHR = 4"
definition FTYPE_NF3SOCK :: u32 where "FTYPE_NF3SOCK = 6"
definition FTYPE_NF3FIFO :: u32 where "FTYPE_NF3FIFO = 7"

text \<open>The case of a character device is empty: Go's cases do not fall through.\<close>

definition mknod_make ::
  "xdr_lib \<Rightarrow> ('s, 'f) nfs_user \<Rightarrow> 's changer \<Rightarrow> 's unix_change \<Rightarrow> u32 \<Rightarrow> bytes \<Rightarrow> string \<Rightarrow> os_info \<Rightarrow> ('s, bytes) step \<Rightarrow> ('s, bytes) step" where
  "mknod_make X U c cu ftype b newFilePath parent k =
     (let applied = (\<lambda>attrs. apply_or NFSStatusServerFault attrs (Some c) U newFilePath k);
          denied = (\<lambda>e. NfsErr NFSStatusAccess) in
      if ftype = FTYPE_NF3CHR then k
      else if ftype = FTYPE_NF3BLK then
        with_attrs X U b (\<lambda>(attrs, b).
        arg (r_u32 X b) (\<lambda>(specData1, b).
        arg (r_u32 X b) (\<lambda>(specData2, b).
        call (ch_Mknod cu newFilePath (set_mode attrs (oi_mode parent)) specData1 specData2) denied (\<lambda>_. applied attrs))))
      else if ftype = FTYPE_NF3SOCK then
        with_attrs X U b (\<lambda>(attrs, b). call (ch_Socket cu newFilePath) denied (\<lambda>_. applied attrs))
      else if ftype = FTYPE_NF3FIFO then
        with_attrs X U b (\<lambda>(attrs, b). call (ch_Mkfifo cu newFilePath (set_mode attrs (oi_mode parent))) denied (\<lambda>_. applied attrs))
      else fail NFSStatusBadType)"

definition mknod_body :: "xdr_lib \<Rightarrow> ('s, 'f) nfs_user \<Rightarrow> bytes \<Rightarrow> ('s, bytes) step" where
  "mknod_body X U b =
     arg (r_DirOpArg X b) (\<lambda>(obj, b).
     arg (r_u32 X b) (\<lambda>(ftype, b).
     fromH U (do_Handle obj) (\<lambda>path.
     if \<not> b_writable U then fail NFSStatusROFS
     else
     case u_Change U of
       None \<Rightarrow> fail NFSStatusAccess
     | Some c \<Rightarrow>
     (case ch_unix c of
       None \<Rightarrow> fail NFSStatusAccess
     | Some cu \<Rightarrow>
     if length (do_Filename obj) > PathNameMax then fail NFSStatusNameTooLong
     else
     let newFile = path @ [do_Filename obj]; newFilePath = b_Join U newFile in
     no_such_name U path newFilePath (\<lambda>parent s.
     let (fp, s) = u_ToHandle U newFile s in
     mknod_make X U c cu ftype b newFilePath parent (created X U fp newFile path) s)))))"

definition onMknod where "onMknod X U = run_proc X (Some wccDataErrorFormatter) (mknod_body X U)"

section \<open>File systems without the write capability\<close>

text \<open>A step that never succeeds, and moves the state only within \<open>rel\<close>.\<close>

definition refuses :: "('s \<Rightarrow> 's \<Rightarrow> bool) \<Rightarrow> ('s, 'a) step \<Rightarrow> bool" where
  "refuses rel m \<longleftrightarrow> (\<forall>s r s'. m s = Some (r, s') \<longrightarrow> (\<exists>st. r = Inl (NfsErr st) \<and> st \<noteq> NFSStatusOk) \<and> rel s s')"

definition nfs_mutations ::
  "bytes \<Rightarrow> (xdr_lib \<Rightarrow> ('s, 'f) nfs_user \<Rightarrow> response \<Rightarrow> 's \<Rightarrow> (herr option \<times> response \<times> 's) option) list" where
  "nfs_mutations serverID =
     [onSetAttr, \<lambda>X. onWrite X serverID, onCreate, onMkdir, onSymlink, onMknod, onRemove, onRmDir, onRename, onLink, \<lambda>X. onCommit X serverID]"

locale read_only_user =
  fixes U :: "('s, 'f) nfs_user" and rel :: "'s \<Rightarrow> 's \<Rightarrow> bool"
  assumes ro: "\<not> b_writable U"
    and rel_refl: "rel s s" and rel_trans: "rel a b \<Longrightarrow> rel b c \<Longrightarrow> rel a c"
    and FromHandle_rel: "u_FromHandle U h s = Some (r, s') \<Longrightarrow> rel s s'"
    and Lstat_rel: "b_Lstat U p s = Some (i, s') \<Longrightarrow> rel s s'"
begin

lemma refuses_fail: "st \<noteq> NFSStatusOk \<Longrightarrow> refuses rel (fail st)"
  by (simp add: refuses_def fail_def rel_refl)

lemma refuses_arg: "(\<And>x. refuses rel (f x)) \<Longrightarrow> refuses rel (arg r f)"
  by (auto simp: arg_def refuses_fail split: option.split)

lemma refuses_call:
  assumes "\<And>s r s'. m s = Some (r, s') \<Longrightarrow> rel s s'" "\<And>e. \<exists>st. h e = NfsErr st \<and> st \<noteq> NFSStatusOk" "\<And>x. refuses rel (f x)"
  shows "refuses rel (call m h f)"
  unfolding refuses_def
proof (intro allI impI)
  fix s r s' assume c: "call m h f s = Some (r, s')"
  then obtain r1 s1 where m: "m s = Some (r1, s1)" by (auto simp: call_def split: option.splits)
  show "(\<exists>st. r = Inl (NfsErr st) \<and> st \<noteq> NFSStatusOk) \<and> rel s s'"
  proof (cases r1)
    case (Inl e)
    then show ?thesis using c m assms(1) [OF m] assms(2) [of e] by (auto simp: call_def)
  next
    case (Inr x)
    then have "f x s1 = Some (r, s')" using c m by (simp add: call_def)
    then show ?thesis using assms(3) [of x] rel_trans [OF assms(1) [OF m]] by (auto simp: refuses_def)
  qed
qed

lemma refuses_fromH: "(\<And>p. refuses rel (f p)) \<Longrightarrow> refuses rel (fromH U h f)"
  unfolding fromH_def by (rule refuses_call) (auto dest: FromHandle_rel)

lemma refuses_attrs:
  assumes "\<And>x. refuses rel (f x)"
  shows "refuses rel (with_attrs X U b f)"
  unfolding refuses_def
proof (intro allI impI)
  fix s r s' assume "with_attrs X U b f s = Some (r, s')"
  then show "(\<exists>st. r = Inl (NfsErr st) \<and> st \<noteq> NFSStatusOk) \<and> rel s s'"
    using refuses_arg [of f "ReadSetFileAttributes X (u_now U s) b", OF assms] by (auto simp: with_attrs_def refuses_def)
qed

lemma refuses_guard: "refuses rel k \<Longrightarrow> refuses rel (guard_ctime X a b k)"
  unfolding guard_ctime_def by (auto intro!: refuses_arg refuses_fail split: prod.split)

lemma refuses_rofs: "refuses rel (if \<not> b_writable U then fail NFSStatusROFS else m)"
  using ro by (simp add: refuses_fail)

lemma refuses_split: "(\<And>a b. refuses rel (f a b)) \<Longrightarrow> refuses rel (case_prod f x)"
  by (cases x) simp

lemma refuses_if: "(c \<Longrightarrow> refuses rel m) \<Longrightarrow> (\<not> c \<Longrightarrow> refuses rel m') \<Longrightarrow> refuses rel (if c then m else m')"
  by simp

lemmas refusals = refuses_arg refuses_fromH refuses_attrs refuses_split refuses_rofs refuses_guard

lemma refuses_setAttr: "refuses rel (setAttr_body X U b)"
  unfolding setAttr_body_def Let_def by (intro refusals refuses_call) (auto dest: Lstat_rel)

lemma refuses_create: "refuses rel (create_body X U b)"
  unfolding create_body_def by (intro refusals refuses_if refuses_fail) simp_all

lemma refuses_commit: "refuses rel (commit_body X serverID U b)"
  unfolding commit_body_def using ro by (intro refusals) (simp add: refuses_fail)

lemma refuses_bodies:
  "refuses rel (write_body X serverID U b)" "refuses rel (mkdir_body X U b)" "refuses rel (symlink_body X U b)"
  "refuses rel (mknod_body X U b)" "refuses rel (remove_body X U b)" "refuses rel (rename_body X U b)" "refuses rel (link_body X U b)"
  unfolding write_body_def mkdir_body_def symlink_body_def mknod_body_def remove_body_def rename_body_def link_body_def
  by (intro refusals)+

lemma mutation_refused:
  assumes "p \<in> set (nfs_mutations serverID)" "p X U w s = Some (e, w', s')"
  shows "(\<exists>st. e = Some (NfsErr st) \<and> st \<noteq> NFSStatusOk) \<and> w_writer w' = w_writer w \<and> w_responded w' = w_responded w \<and> rel s s'"
proof -
  have run: "(\<exists>st. e = Some (NfsErr st) \<and> st \<noteq> NFSStatusOk) \<and> w_writer w' = w_writer w \<and> w_responded w' = w_responded w \<and> rel s s'"
    if q: "refuses rel (q (w_body w))" and r: "run_proc X fmt q w s = Some (e, w', s')" for q fmt
  proof -
    let ?w = "case fmt of None \<Rightarrow> w | Some f \<Rightarrow> w\<lparr>w_errorFmt := f\<rparr>"
    have w: "w_body ?w = w_body w" "w_writer ?w = w_writer w" "w_responded ?w = w_responded w" by (auto split: option.split)
    obtain r1 s1 where o: "q (w_body w) s = Some (r1, s1)" using r by (auto simp: run_proc_def Let_def w split: option.splits)
    then obtain st where "r1 = Inl (NfsErr st)" "st \<noteq> NFSStatusOk" "rel s s1" using q unfolding refuses_def by blast
    then show ?thesis using r o w by (auto simp: run_proc_def Let_def)
  qed
  note bodies = refuses_bodies refuses_setAttr refuses_create refuses_commit
  consider fmt q where "run_proc X fmt q w s = Some (e, w', s')" "refuses rel (q (w_body w))"
    using assms bodies [of X]
    by (auto simp: nfs_mutations_def onSetAttr_def onWrite_def onCreate_def onMkdir_def onSymlink_def onMknod_def onRemove_def onRmDir_def onRename_def onLink_def onCommit_def)
  then show ?thesis by cases (rule run)
qed

end

text \<open>
  Where the lookups return, from every state of an invariant and into one, so does every request to change something: the
  refusal comes before anything else is called.
\<close>

definition returns :: "('s \<Rightarrow> bool) \<Rightarrow> ('s, 'a) step \<Rightarrow> bool" where
  "returns I m \<longleftrightarrow> (\<forall>s. I s \<longrightarrow> (\<exists>r s'. m s = Some (r, s') \<and> I s'))"

locale read_only_total = read_only_user U rel for U :: "('s, 'f) nfs_user" and rel :: "'s \<Rightarrow> 's \<Rightarrow> bool" +
  fixes I :: "'s \<Rightarrow> bool"
  assumes FromHandle_total: "I s \<Longrightarrow> \<exists>r s'. u_FromHandle U h s = Some (r, s') \<and> I s'"
    and Lstat_total: "I s \<Longrightarrow> \<exists>r s'. b_Lstat U p s = Some (r, s') \<and> I s'"
begin

lemma returns_fail: "returns I (fail st)"
  by (simp add: returns_def fail_def)

lemma returns_arg: "(\<And>x. returns I (f x)) \<Longrightarrow> returns I (arg r f)"
  by (auto simp: arg_def returns_fail split: option.split)

lemma returns_call:
  assumes "\<And>s. I s \<Longrightarrow> \<exists>r s'. m s = Some (r, s') \<and> I s'" "\<And>x. returns I (f x)"
  shows "returns I (call m h f)"
  unfolding returns_def
proof (intro allI impI)
  fix s assume "I s"
  then obtain r s1 where m: "m s = Some (r, s1)" "I s1" using assms(1) by blast
  then show "\<exists>r s'. call m h f s = Some (r, s') \<and> I s'" using assms(2) by (cases r) (auto simp: call_def returns_def)
qed

lemma returns_fromH: "(\<And>p. returns I (f p)) \<Longrightarrow> returns I (fromH U h f)"
  unfolding fromH_def by (rule returns_call) (auto dest: FromHandle_total)

lemma returns_attrs: "(\<And>x. returns I (f x)) \<Longrightarrow> returns I (with_attrs X U b f)"
  using returns_arg [of f] by (auto simp: with_attrs_def returns_def)

lemma returns_guard: "returns I k \<Longrightarrow> returns I (guard_ctime X a b k)"
  unfolding guard_ctime_def by (auto intro!: returns_arg returns_fail split: prod.split)

lemma returns_rofs: "returns I (if \<not> b_writable U then fail st else m)"
  using ro by (simp add: returns_fail)

lemma returns_split: "(\<And>a b. returns I (f a b)) \<Longrightarrow> returns I (case_prod f x)"
  by (cases x) simp

lemma returns_if: "returns I m \<Longrightarrow> returns I m' \<Longrightarrow> returns I (if c then m else m')"
  by simp

lemmas returnings = returns_arg returns_fromH returns_attrs returns_split returns_rofs returns_guard

lemma returns_bodies:
  "returns I (write_body X serverID U b)" "returns I (mkdir_body X U b)" "returns I (symlink_body X U b)"
  "returns I (mknod_body X U b)" "returns I (remove_body X U b)" "returns I (rename_body X U b)" "returns I (link_body X U b)"
  "returns I (commit_body X serverID U b)"
  unfolding write_body_def mkdir_body_def symlink_body_def mknod_body_def remove_body_def rename_body_def link_body_def commit_body_def
  by (intro returnings)+

lemma returns_setAttr: "returns I (setAttr_body X U b)"
  unfolding setAttr_body_def Let_def by (intro returnings returns_call) (auto dest: Lstat_total)

lemma returns_create: "returns I (create_body X U b)"
  unfolding create_body_def by (intro returnings returns_if returns_fail)

lemma mutation_returns:
  assumes "p \<in> set (nfs_mutations serverID)" "I s"
  shows "\<exists>e w' s'. p X U w s = Some (e, w', s') \<and> I s'"
proof -
  have run: "\<exists>e w' s'. run_proc X fmt q w s = Some (e, w', s') \<and> I s'" if q: "returns I (q (w_body w))" for fmt and q :: "bytes \<Rightarrow> ('s, bytes) step"
  proof -
    let ?w = "case fmt of None \<Rightarrow> w | Some f \<Rightarrow> w\<lparr>w_errorFmt := f\<rparr>"
    have w: "w_body ?w = w_body w" by (simp split: option.split)
    obtain r s1 where "q (w_body w) s = Some (r, s1)" "I s1" using q assms(2) unfolding returns_def by blast
    then show ?thesis by (cases r; cases "Write X (projr r) ?w"; cases "fst (Write X (projr r) ?w)") (auto simp: run_proc_def Let_def w)
  qed
  show ?thesis
    using assms(1) run returns_bodies [of X] returns_setAttr [of X] returns_create [of X]
    by (auto simp: nfs_mutations_def onSetAttr_def onWrite_def onCreate_def onMkdir_def onSymlink_def onMknod_def onRemove_def onRmDir_def onRename_def onLink_def onCommit_def)
qed

end

end
