(* ===== verification/Nfs_Readonly.thy ===== *)
theory Nfs_Readonly
  imports Nfs_Writes Nfs_Serving
begin

text \<open>
  Requests to change the file system: a file system without the write capability refuses every one of
  them, and gomodfs is such a file system.  The state of gomodfs still moves with every request, since
  handles are resolved and attributes are looked up; what it has given out is kept.
\<close>

section \<open>What every operation of the file system keeps\<close>

text \<open>Handles that are resolved and zip roots that are known stay so.\<close>

definition fs_kept :: "('st, 'h) fs \<Rightarrow> ('st, 'h) fs \<Rightarrow> bool" where
  "fs_kept s s' \<longleftrightarrow> (\<forall>h t. get_handle h s = Some t \<longrightarrow> get_handle h s' = Some t) \<and>
     (\<forall>mv mh. getZipRootCached mv s = Some mh \<longrightarrow> getZipRootCached mv s' = Some mh)"

lemma fs_kept_refl [simp]: "fs_kept s s"
  by (simp add: fs_kept_def)

lemma fs_kept_trans [trans]: "fs_kept a b \<Longrightarrow> fs_kept b c \<Longrightarrow> fs_kept a c"
  by (simp add: fs_kept_def)

lemma fs_kept_same: "handle_map s' = handle_map s \<Longrightarrow> zipRootCache s' = zipRootCache s \<Longrightarrow> fs_kept s s'"
  by (simp add: fs_kept_def get_handle_def getZipRootCached_def)

lemma tables_kept: "tables_only s s' \<Longrightarrow> fs_kept s s'"
  by (simp add: tables_only_def same_io_def fs_kept_same)

lemma fold_opt_tables:
  assumes "\<And>x s s'. f x s = Some s' \<Longrightarrow> tables_only s s'"
  shows "fold_opt f xs s = Some s' \<Longrightarrow> tables_only s s'"
proof (induction xs arbitrary: s)
  case (Cons x xs)
  then obtain s1 where "f x s = Some s1" "fold_opt f xs s1 = Some s'" by (auto split: Option.bind_splits)
  then show ?case using assms Cons.IH tables_only_trans by blast
qed simp

lemma add_module_tables:
  assumes "Option.bind (put_mvh E mv s) (addModuleVersionPathsLocked E mv) = Some s'"
  shows "tables_only s s'"
  using assms put_mvh_tables addModuleVersionPaths_tables tables_only_trans by (fastforce split: Option.bind_splits)

lemma initHandleMaps_tables:
  assumes "initHandleMapsLocked E s = Some (r, s')"
  shows "tables_only s s'"
proof (cases "modVerHash s \<noteq> None \<or> isl (CachedModules (Store E) (st s))")
  case True
  then show ?thesis using assms by (auto simp: initHandleMapsLocked_def isl_def split: if_splits)
next
  case False
  let ?s = "s\<lparr>modVerHash := Some [], pathHashTarget := Some []\<rparr>"
  obtain mvs s1 where "fold_opt (\<lambda>mv s. Option.bind (put_mvh E mv s) (addModuleVersionPathsLocked E mv)) mvs ?s = Some s1"
    "fold_opt (addPathHashTargetLocked E) ([''cache'', ''cache/download'', statusFile] @ tsgo_dirs) s1 = Some s'"
    using assms False by (auto simp: initHandleMapsLocked_def Let_def isl_def split: sum.splits Option.bind_splits)
  from fold_opt_tables [OF add_module_tables this(1)] fold_opt_tables [OF addPathHashTarget_tables this(2)]
  have "tables_only ?s s'" by (rule tables_only_trans)
  then show ?thesis by (simp add: tables_only_def same_io_def)
qed

lemma fromHandle_cold_tables: "fromHandle_cold E n h s = Some (r, s') \<Longrightarrow> tables_only s s'"
  by (auto simp: fromHandle_cold_def handleTargetWithPathHash_def moduleVersionWithHash_def Let_def
      dest: initHandleMaps_tables split: if_splits option.splits sum.splits)

lemma FromHandle_kept:
  assumes "FromHandle E n h s = Some (r, s')"
  shows "fs_kept s s' \<and> st s' = st s \<and> fetched s' = fetched s"
proof (cases "s' = s")
  case False
  then obtain r1 s1 where c: "get_handle h s = None" "fromHandle_cold E n h s = Some (r1, s1)" "s' = s1 \<or> (\<exists>t. s' = set_handle h t s1)"
    using assms by (auto simp: FromHandle_def fromHandle_def split: if_splits option.splits sum.splits prod.splits)
  have t: "tables_only s s1" using fromHandle_cold_tables [OF c(2)] .
  have "fs_kept s1 (set_handle h t s1)" for t
    using t c(1) by (auto simp: fs_kept_def tables_only_def same_io_def get_handle_def getZipRootCached_def set_handle_def update_conv' split: option.splits)
  then show ?thesis using c(3) t fs_kept_trans [OF tables_kept [OF t]] by (auto simp: tables_only_def same_io_def set_handle_def)
qed simp

lemma done_root_kept:
  assumes "done_root E mv root s = (r, s')" "getZipRootCached mv s = None"
  shows "fs_kept s s'"
proof (cases "setZipRootCache E mv root s")
  case (Some s1)
  let ?s0 = "if zipRootCache s = None then s\<lparr>zipRootCache := Some []\<rparr> else s"
  have z: "getZipRootCached m ?s0 = getZipRootCached m s" "get_handle h ?s0 = get_handle h s" for m h
    by (simp_all add: getZipRootCached_def get_handle_def)
  obtain s2 where s2: "(if modVerHash ?s0 \<noteq> None then Option.bind (put_mvh E mv ?s0) (addModuleVersionPathsLocked E mv) else Some ?s0) = Some s2"
    "s1 = s2\<lparr>zipRootCache := map_option (AList.update mv root) (zipRootCache s2)\<rparr>"
    using Some by (auto simp: setZipRootCache_def Let_def)
  then have "tables_only ?s0 s2" by (metis add_module_tables option.inject tables_only_refl)
  then show ?thesis using assms Some s2(2) z
    by (auto simp: done_root_def fs_kept_def tables_only_def same_io_def get_handle_def getZipRootCached_def update_conv' split: option.splits if_splits)
qed (use assms in \<open>simp add: done_root_def\<close>)

lemma netSlurp_kept: "netSlurp E u s = (r, s') \<Longrightarrow> handle_map s' = handle_map s \<and> zipRootCache s' = zipRootCache s"
  by (auto simp: netSlurp_def)

lemma zipProxy_kept: "zipProxy_loop E errs bs s = (r, s') \<Longrightarrow> handle_map s' = handle_map s \<and> zipRootCache s' = zipRootCache s"
  by (induction bs arbitrary: errs s) (auto simp: downloadZipSet_def netSlurp_def split: sum.splits prod.splits)

lemma downloadZip_kept: "downloadZip E mv s = (r, s') \<Longrightarrow> handle_map s' = handle_map s \<and> zipRootCache s' = zipRootCache s"
  by (auto simp: downloadZip_def Let_def dest!: zipProxy_kept split: sum.splits prod.splits res.splits)

lemma tsgo_kept: "getTailscaleGoRoot E a b c s = (r, s') \<Longrightarrow> handle_map s' = handle_map s \<and> zipRootCache s' = zipRootCache s"
  by (auto simp: getTailscaleGoRoot_def netSlurp_def Let_def split: sum.splits prod.splits if_splits)

lemma done_root_kept':
  assumes "handle_map s1 = handle_map s \<and> zipRootCache s1 = zipRootCache s" "done_root E mv root s1 = (r, s')" "getZipRootCached mv s = None"
  shows "fs_kept s s'"
proof -
  have "getZipRootCached mv s1 = None" using assms(1,3) by (simp add: getZipRootCached_def)
  from fs_kept_trans [OF fs_kept_same done_root_kept [OF assms(2) this]] show ?thesis using assms(1) by simp
qed

lemma rbind_cases:
  assumes "rbind m f = (r, s')"
  obtains x where "m = (x, s')" | x s1 where "m = (Ok x, s1)" "f x s1 = (r, s')"
  using assms by (cases "(m, f)" rule: rbind.cases) auto

lemma getZipRoot_kept:
  assumes "getZipRoot E mv s = (r, s')"
  shows "fs_kept s s'"
proof (cases "getZipRootCached mv s")
  case None
  note keep = done_root_kept' [OF _ _ None]
  show ?thesis
  proof (cases "is_tsgo_mv mv")
    case True
    then show ?thesis using assms None by (auto simp: getZipRoot_def getZipRoot_tsgo_def Let_def
        intro: fs_kept_same keep dest!: tsgo_kept split: if_splits prod.splits res.splits)
  next
    case False
    consider "s' = s" | root where "done_root E mv root s = (r, s')" | "rbind (downloadZip E mv s) (done_root E mv) = (r, s')"
      using assms None False by (auto simp: getZipRoot_def split: if_splits sum.splits)
    then show ?thesis
    proof cases
      case 3
      then show ?thesis by (rule rbind_cases) (auto dest: downloadZip_kept intro: fs_kept_same keep)
    qed (auto intro: keep)
  qed
qed (use assms in \<open>simp add: getZipRoot_def\<close>)

lemma metaFile_kept: "metaFile_loop E put mv ext errs bs s = (r, s') \<Longrightarrow> handle_map s' = handle_map s \<and> zipRootCache s' = zipRootCache s"
  by (induction bs arbitrary: errs s) (auto simp: netSlurp_def split: sum.splits prod.splits option.splits)

lemma getMetaFile_kept:
  assumes "getMetaFileByExt E mv ext s = (r, s')"
  shows "fs_kept s s'"
proof -
  have "fs_kept s s1" if "getMetaFile E g (\<lambda>mv s. downloadMetaFile E put mv x s) mv s = (r1, s1)" for g put x r1 s1
    using that by (auto simp: getMetaFile_def downloadMetaFile_def dest!: metaFile_kept intro: fs_kept_same split: sum.splits if_splits prod.splits)
  moreover have "fs_kept s s1" if "getZiphash E mv s = (r1, s1)" for r1 s1
    using that unfolding getZiphash_def by (rule rbind_cases) (auto dest: getZipRoot_kept)
  ultimately show ?thesis using assms
    by (auto simp: getMetaFileByExt_def getModFile_def getInfoFile_def downloadModFile_def [abs_def] downloadInfoFile_def [abs_def] split: if_splits)
qed

text \<open>Of the front end: the contents read so far stay cached too, and the clock is not touched.\<close>

definition front_kept :: "('st, 'h) front \<Rightarrow> ('st, 'h) front \<Rightarrow> bool" where
  "front_kept s s' \<longleftrightarrow> fs_kept (f_fs s) (f_fs s') \<and> f_rc s' = f_rc s \<and> f_now s' = f_now s"

lemma front_kept_refl [simp]: "front_kept s s"
  by (simp add: front_kept_def)

lemma front_kept_trans: "front_kept a b \<Longrightarrow> front_kept b c \<Longrightarrow> front_kept a c"
  using fs_kept_trans by (auto simp: front_kept_def)

lemma with_status_kept:
  assumes "with_status F f s = Some (r, s')" "\<And>m s1. f m s1 = Some (r, s') \<Longrightarrow> s' = s1"
  shows "front_kept s s'"
proof -
  let ?m = "fst (statusFile_snapshot F s)" and ?s1 = "snd (statusFile_snapshot F s)"
  have "f ?m ?s1 = Some (r, s')" using assms(1) by (simp add: with_status_def case_prod_beta)
  then have "s' = ?s1" by (rule assms(2))
  then show ?thesis by (auto simp: statusFile_snapshot_def front_kept_def Let_def split: option.splits prod.splits if_splits)
qed

lemma lift_res_kept:
  assumes "lift_res m s = Some (r, s')" "\<And>x fs'. m (f_fs s) = (x, fs') \<Longrightarrow> fs_kept (f_fs s) fs'"
  shows "front_kept s s'"
  using assms by (auto simp: lift_res_def front_kept_def split: prod.splits res.splits)

lemma Lstat_kept:
  assumes "billy_Lstat F name s = Some (r, s')"
  shows "front_kept s s'"
proof -
  let ?E = "fe_fs F" and ?mp = "parsePath (XM (fe_fs F)) name"
  consider "s' = s" | g where "with_status F (\<lambda>m s. cret (g m s) s) s = Some (r, s')"
    | r1 where "lift_res (getMetaFileByExt ?E (ModVersion ?mp) (CacheDownloadFileExt ?mp)) s = Some (r1, s')"
    | r1 where "lift_res (getZipRoot ?E (ModVersion ?mp)) s = Some (r1, s')"
    using assms by (auto simp: billy_Lstat_def Let_def cret_def cfail_def cbind_def split: if_splits option.splits sum.splits prod.splits)
  then show ?thesis
  proof cases
    case (2 g)
    then show ?thesis by (rule with_status_kept) (simp add: cret_def)
  next
    case 3
    then show ?thesis by (rule lift_res_kept) (rule getMetaFile_kept)
  next
    case 4
    then show ?thesis by (rule lift_res_kept) (rule getZipRoot_kept)
  qed simp
qed

section \<open>Lookups return\<close>

text \<open>
  What the file system relies on of its surroundings: the escaping functions behave as documented, every module the store
  returns is a tree that fits the fuel of the walk, storing a module does not panic, and the names in the
  zips that are downloaded (if any are) are under the module's prefix.
\<close>

definition env_returns :: "('st, 'h) fs_env \<Rightarrow> nat \<Rightarrow> bool" where
  "env_returns E fuel \<longleftrightarrow> xmod_ok (XM E) \<and>
     (\<forall>d mv mh. GetZipRoot (Store E) d mv = Inr mh \<longrightarrow> walkStoreModulePaths fuel (Readdir (Store E) d mh) \<noteq> None) \<and>
     (\<forall>d mv p. fst (PutModule (Store E) d mv p) \<noteq> Panic) \<and>
     (ReadOnly E \<or> (\<forall>mv download. mk_put E mv download \<noteq> Panic))"

text \<open>The tables of a running process: both are there or neither, and every target has a path.\<close>

definition fs_sound :: "('st, 'h) fs_env \<Rightarrow> ('st, 'h) fs \<Rightarrow> bool" where
  "fs_sound E s \<longleftrightarrow> (pathHashTarget s = None \<longleftrightarrow> modVerHash s = None) \<and> tbl_ok E UNIV s"

lemma fs_sound_start: "pathHashTarget s = None \<Longrightarrow> modVerHash s = None \<Longrightarrow> fs_sound E s"
  by (simp add: fs_sound_def tbl_ok_def)

lemma fs_sound_same: "pathHashTarget s' = pathHashTarget s \<Longrightarrow> modVerHash s' = modVerHash s \<Longrightarrow> fs_sound E s \<Longrightarrow> fs_sound E s'"
  by (simp add: fs_sound_def tbl_ok_def)

lemma fs_sound_grows: "grows E UNIV s s' \<Longrightarrow> pathHashTarget s \<noteq> None \<Longrightarrow> modVerHash s \<noteq> None \<Longrightarrow> fs_sound E s \<Longrightarrow> fs_sound E s'"
  by (auto simp: grows_def fs_sound_def)

lemma tbl_ok_UNIV:
  assumes "tbl_ok E M s"
  shows "tbl_ok E UNIV s"
proof -
  have "table_dirs (XM E) M \<subseteq> table_dirs (XM E) UNIV" unfolding table_dirs_def by blast
  then show ?thesis using assms unfolding tbl_ok_def by (meson subsetD)
qed

lemma initHandleMaps_total:
  assumes "xmod_ok (XM E)" "fs_sound E s"
  obtains r s' where "initHandleMapsLocked E s = Some (r, s')" "fs_sound E s'"
proof (cases "modVerHash s = None")
  case False
  then show ?thesis using that assms(2) by (simp add: initHandleMapsLocked_def)
next
  case True
  show ?thesis
  proof (cases "CachedModules (Store E) (st s)")
    case (Inl e)
    then show ?thesis using that True assms(2) by (simp add: initHandleMapsLocked_def)
  next
    case (Inr mvs)
    from initHandleMaps_ok [OF assms(1) True Inr] obtain s' where s': "initHandleMapsLocked E s = Some (None, s')" "tbl_ok E (set mvs) s'"
      "modVerHash s' \<noteq> None" "covers E s' ''cache''" by auto
    then have "fs_sound E s'" using tbl_ok_UNIV by (auto simp: fs_sound_def covers_def)
    then show ?thesis using that s'(1) by blast
  qed
qed

lemma find_path_target:
  assumes "xmod_ok (XM E)" "find_path E mv want items = Some t"
  shows "t_path t \<noteq> [] \<and> t_segs t \<noteq> []"
  using assms(2)
proof (induction items)
  case (Cons x xs)
  then show ?case using zip_prefix_relative [OF assms(1)]
    by (cases x) (auto simp: mkTargetFromPath_def splitSegs_def emptyPathJoin_def split: if_splits option.splits)
qed simp

lemma target_ne [simp]: "t_path (mkTargetFromPath p) = [] \<longleftrightarrow> p = []" "t_segs (mkTargetFromPath p) = [] \<longleftrightarrow> p = []"
  "cdPath X mv ext \<noteq> []" "tsGoZipRoot t \<noteq> []"
  by (simp_all add: mkTargetFromPath_def splitSegs_def cdPath_def tsGoZipRoot_def)

lemma fromHandle_module_total:
  assumes "env_returns E fuel"
  shows "\<exists>r. fromHandle_module E fuel mv want s = Some r \<and> (\<forall>t. r = Inr t \<longrightarrow> t_path t \<noteq> [] \<and> t_segs t \<noteq> [])"
proof (cases "GetZipRoot (Store E) (st s) mv")
  case (Inl e)
  then show ?thesis by (auto simp: fromHandle_module_def)
next
  case (Inr mh)
  then obtain items where w: "walkStoreModulePaths fuel (Readdir (Store E) (st s) mh) = Some items"
    using assms unfolding env_returns_def by blast
  have "t_path t \<noteq> [] \<and> t_segs t \<noteq> []" if "find_path E mv want items = Some t" for t
    using find_path_target [OF _ that] assms by (simp add: env_returns_def)
  then show ?thesis using Inr w by (auto simp: fromHandle_module_def split: option.splits)
qed

lemma fromHandle_cold_total:
  assumes e: "env_returns E fuel" and s: "fs_sound E s"
  shows "\<exists>r s'. fromHandle_cold E fuel h s = Some (r, s') \<and> fs_sound E s' \<and> (\<forall>t. r = Inr t \<longrightarrow> t_path t \<noteq> [] \<and> t_segs t \<noteq> [])"
proof -
  obtain r s' where i: "initHandleMapsLocked E s = Some (r, s')" "fs_sound E s'"
    using initHandleMaps_total [OF _ s] e by (auto simp: env_returns_def)
  show ?thesis
  proof (cases "take 32 h = replicate 32 0")
    case True
    have "t_path t \<noteq> [] \<and> t_segs t \<noteq> []" if "pathHashTarget s' = Some m" "map_of m k = Some t" for m k t
      using i(2) that by (fastforce simp: fs_sound_def tbl_ok_def mkTargetFromPath_def splitSegs_def)
    then show ?thesis using True i by (auto simp: fromHandle_cold_def handleTargetWithPathHash_def Let_def split: option.split)
  next
    case False
    obtain rm where m: "moduleVersionWithHash E (take 32 h) s = Some (rm, s')" using i(1) by (cases r) (auto simp: moduleVersionWithHash_def)
    obtain r2 where r2: "fromHandle_module E fuel (projr rm) (drop 32 h) s' = Some r2" "\<forall>t. r2 = Inr t \<longrightarrow> t_path t \<noteq> [] \<and> t_segs t \<noteq> []"
      using fromHandle_module_total [OF e] by blast
    then show ?thesis using False m i(2) by (cases rm) (auto simp: fromHandle_cold_def Let_def)
  qed
qed

lemma FromHandle_returns:
  assumes "env_returns E fuel" "fs_sound E s"
  shows "\<exists>r s'. FromHandle E fuel h s = Some (r, s') \<and> fs_sound E s'"
proof -
  obtain r s' where c: "fromHandle_cold E fuel h s = Some (r, s')" "fs_sound E s'" "\<forall>t. r = Inr t \<longrightarrow> t_path t \<noteq> [] \<and> t_segs t \<noteq> []"
    using fromHandle_cold_total [OF assms] by blast
  have "fs_sound E (set_handle h t s')" for t using c(2) by (rule fs_sound_same [rotated 2]) (simp_all add: set_handle_def)
  then show ?thesis using c assms(2) by (cases r) (auto simp: FromHandle_def fromHandle_def split: option.split)
qed

definition keeps_tables :: "('st, 'h) fs \<Rightarrow> ('st, 'h) fs \<Rightarrow> bool" where
  "keeps_tables s s' \<longleftrightarrow> pathHashTarget s' = pathHashTarget s \<and> modVerHash s' = modVerHash s"

lemma keeps_refl [simp]: "keeps_tables s s"
  by (simp add: keeps_tables_def)

lemma keeps_sound: "keeps_tables s s' \<Longrightarrow> fs_sound E s \<Longrightarrow> fs_sound E s'"
  by (auto simp: keeps_tables_def intro: fs_sound_same)

lemma zipProxy_keeps: "zipProxy_loop E errs bs s = (r, s') \<Longrightarrow> keeps_tables s s'"
  by (induction bs arbitrary: errs s) (auto simp: keeps_tables_def downloadZipSet_def netSlurp_def split: sum.splits prod.splits)

lemma metaFile_keeps: "metaFile_loop E put mv ext errs bs s = (r, s') \<Longrightarrow> keeps_tables s s'"
  by (induction bs arbitrary: errs s) (auto simp: keeps_tables_def netSlurp_def split: sum.splits prod.splits option.splits)

lemma done_root_total:
  assumes "xmod_ok (XM E)" "fs_sound E s" "done_root E mv root s = (r, s')"
  shows "r \<noteq> Panic \<and> fs_sound E s'"
proof -
  let ?s0 = "if zipRootCache s = None then s\<lparr>zipRootCache := Some []\<rparr> else s"
  have t0: "keeps_tables s ?s0" by (simp add: keeps_tables_def)
  have s0: "fs_sound E ?s0" by (rule keeps_sound [OF t0 assms(2)])
  have "\<exists>s2. (if modVerHash ?s0 \<noteq> None then Option.bind (put_mvh E mv ?s0) (addModuleVersionPathsLocked E mv) else Some ?s0) = Some s2 \<and> fs_sound E s2"
  proof (cases "modVerHash ?s0 = None")
    case False
    then have p: "pathHashTarget ?s0 \<noteq> None" using s0 by (simp add: fs_sound_def)
    from add_module_known [OF assms(1) p False UNIV_I] obtain s2 where
      "Option.bind (put_mvh E mv ?s0) (addModuleVersionPathsLocked E mv) = Some s2" "grows E UNIV ?s0 s2" by blast
    then show ?thesis using fs_sound_grows [OF _ p False s0] False by auto
  qed (use s0 in simp)
  then obtain s2 where s2: "(if modVerHash ?s0 \<noteq> None then Option.bind (put_mvh E mv ?s0) (addModuleVersionPathsLocked E mv) else Some ?s0) = Some s2" "fs_sound E s2" by blast
  then have "setZipRootCache E mv root s = Some (s2\<lparr>zipRootCache := map_option (AList.update mv root) (zipRootCache s2)\<rparr>)"
    unfolding setZipRootCache_def Let_def s2(1) by simp
  moreover have "fs_sound E (s2\<lparr>zipRootCache := z\<rparr>)" for z using s2(2) by (rule fs_sound_same [rotated 2]) simp_all
  ultimately show ?thesis using assms(3) by (auto simp: done_root_def)
qed

lemma getZipRoot_total:
  assumes e: "env_returns E fuel" and s: "fs_sound E s" and g: "getZipRoot E mv s = (r, s')"
  shows "r \<noteq> Panic \<and> fs_sound E s'"
proof -
  have X: "xmod_ok (XM E)" using e by (simp add: env_returns_def)
  have put: "r1 \<noteq> Panic" if "PutModule (Store E) d m p = (r1, d')" for d m p r1 d' using e that unfolding env_returns_def by (metis fst_conv)
  note dr = done_root_total [OF X]
  have tsgo: "r1 \<noteq> Panic \<and> keeps_tables s s1" if "getTailscaleGoRoot E a b c s = (r1, s1)" for a b c r1 s1
    using that put by (auto simp: getTailscaleGoRoot_def netSlurp_def Let_def keeps_tables_def split: sum.splits prod.splits if_splits)
  have dlz: "r1 \<noteq> Panic \<and> keeps_tables s s1" if "downloadZip E mv s = (r1, s1)" "\<not> ReadOnly E" for r1 s1
  proof -
    have mk: "mk_put E mv d \<noteq> Panic" for d using e that(2) by (simp add: env_returns_def)
    show ?thesis using that(1) mk put zipProxy_keeps [of E "[]" _ s]
      by (auto simp: downloadZip_def Let_def keeps_tables_def split: sum.splits prod.splits res.splits)
  qed
  show ?thesis
  proof (cases "getZipRootCached mv s")
    case None
    show ?thesis
    proof (cases "is_tsgo_mv mv")
      case True
      then show ?thesis using g None s by (auto simp: getZipRoot_def getZipRoot_tsgo_def Let_def
          dest!: tsgo intro: dr [THEN conjunct2] dr [THEN conjunct1, THEN notE] keeps_sound split: if_splits prod.splits res.splits)
    next
      case False
      consider (fail) "s' = s" "r \<noteq> Panic" | (root) root where "done_root E mv root s = (r, s')"
        | (dl) "rbind (downloadZip E mv s) (done_root E mv) = (r, s')" "\<not> ReadOnly E"
        using g None False by (auto simp: getZipRoot_def split: if_splits sum.splits)
      then show ?thesis
      proof cases
        case dl
        obtain r1 s1 where d: "downloadZip E mv s = (r1, s1)" by fastforce
        then have k: "r1 \<noteq> Panic" "fs_sound E s1" using dlz [OF d dl(2)] keeps_sound s by blast+
        show ?thesis using dl(1) k dr [OF k(2)] unfolding d by (cases r1) auto
      qed (use s dr [OF s] in auto)
    qed
  qed (use g s in \<open>auto simp: getZipRoot_def\<close>)
qed

lemma getMetaFile_total:
  assumes e: "env_returns E fuel" and s: "fs_sound E s" and g: "getMetaFileByExt E mv ext s = (r, s')"
  shows "r \<noteq> Panic \<and> fs_sound E s'"
proof -
  have m: "r1 \<noteq> Panic \<and> fs_sound E s1" if "getMetaFile E g (\<lambda>mv s. downloadMetaFile E put mv x s) mv s = (r1, s1)" for g put x r1 s1
    using that s by (auto simp: getMetaFile_def downloadMetaFile_def dest!: metaFile_keeps intro: keeps_sound split: sum.splits if_splits prod.splits)
  have z: "r1 \<noteq> Panic \<and> fs_sound E s1" if "getZiphash E mv s = (r1, s1)" for r1 s1
  proof -
    obtain r0 s0 where z0: "getZipRoot E mv s = (r0, s0)" by fastforce
    then show ?thesis using that getZipRoot_total [OF e s z0] by (cases r0; auto simp: getZiphash_def elim: of_sum.elims)
  qed
  show ?thesis using g m z s
    by (auto simp: getMetaFileByExt_def getModFile_def getInfoFile_def downloadModFile_def [abs_def] downloadInfoFile_def [abs_def] split: if_splits)
qed

lemma lift_res_total:
  assumes "fs_sound E (f_fs s)" "\<And>r fs'. m (f_fs s) = (r, fs') \<Longrightarrow> r \<noteq> Panic \<and> fs_sound E fs'"
  shows "\<exists>r s'. lift_res m s = Some (r, s') \<and> fs_sound E (f_fs s')"
proof -
  obtain r fs' where m: "m (f_fs s) = (r, fs')" by fastforce
  then show ?thesis using assms(2) [OF m] by (cases r) (auto simp: lift_res_def)
qed

lemma billy_Lstat_returns:
  assumes e: "env_returns (fe_fs F) (fe_fuel F)" and s: "fs_sound (fe_fs F) (f_fs s)"
  shows "\<exists>r s'. billy_Lstat F name s = Some (r, s') \<and> fs_sound (fe_fs F) (f_fs s')"
proof -
  let ?E = "fe_fs F" and ?mp = "parsePath (XM (fe_fs F)) name"
  obtain rm sm where m: "lift_res (getMetaFileByExt ?E (ModVersion ?mp) (CacheDownloadFileExt ?mp)) s = Some (rm, sm)" "fs_sound ?E (f_fs sm)"
    using lift_res_total [OF s, of "getMetaFileByExt ?E (ModVersion ?mp) (CacheDownloadFileExt ?mp)"] getMetaFile_total [OF e s] by blast
  obtain rz sz where z: "lift_res (getZipRoot ?E (ModVersion ?mp)) s = Some (rz, sz)" "fs_sound ?E (f_fs sz)"
    using lift_res_total [OF s, of "getZipRoot ?E (ModVersion ?mp)"] getZipRoot_total [OF e s] by blast
  have st: "f_fs (snd (statusFile_snapshot F s)) = f_fs s" by (auto simp: statusFile_snapshot_def Let_def split: option.split prod.split)
  show ?thesis using s m z st
    by (cases rm; cases rz) (auto simp: billy_Lstat_def Let_def cfail_def cret_def cbind_def with_status_def case_prod_beta split: sum.split)
qed

section \<open>Requests to change something\<close>

interpretation gomodfs_ro: read_only_user "nfsHandler F" front_kept for F
proof
  show "front_kept s s'" if "u_FromHandle (nfsHandler F) h s = Some (r, s')" for h s r s'
    using that by (auto simp: nfsHandler_def front_kept_def dest: FromHandle_kept)
  show "front_kept s s'" if "b_Lstat (nfsHandler F) p s = Some (r, s')" for p s r s'
    using that by (auto simp: nfsHandler_def intro: Lstat_kept)
qed (auto simp: nfsHandler_def intro: front_kept_trans)

interpretation gomodfs_rt: read_only_total "nfsHandler F" front_kept "\<lambda>s. env_returns (fe_fs F) (fe_fuel F) \<and> fs_sound (fe_fs F) (f_fs s)" for F
proof
  fix s :: "('a, 'b) front" assume i: "env_returns (fe_fs F) (fe_fuel F) \<and> fs_sound (fe_fs F) (f_fs s)"
  show "\<exists>r s'. u_FromHandle (nfsHandler F) h s = Some (r, s') \<and> env_returns (fe_fs F) (fe_fuel F) \<and> fs_sound (fe_fs F) (f_fs s')" for h
    using FromHandle_returns [of "fe_fs F" "fe_fuel F" "f_fs s" h] i by (auto simp: nfsHandler_def)
  show "\<exists>r s'. b_Lstat (nfsHandler F) p s = Some (r, s') \<and> env_returns (fe_fs F) (fe_fuel F) \<and> fs_sound (fe_fs F) (f_fs s')" for p
    using billy_Lstat_returns [of F s p] i by (auto simp: nfsHandler_def)
qed


definition remove_request :: response where
  "remove_request = \<lparr>w_writer = [], w_responded = False, w_errorFmt = basicErrorFormatter, w_xid = 7, w_prog = 100003, w_proc = 12,
     w_body = x_opaque rfc_xdr zeroHandle @ x_opaque rfc_xdr (to_bytes ''cache'')\<rparr>"

lemma remove_request_args:
  "r_DirOpArg rfc_xdr (w_body remove_request) = Some (\<lparr>do_Handle = zeroHandle, do_Filename = ''cache''\<rparr>, [])"
proof -
  have "r_opaque rfc_xdr (x_opaque rfc_xdr (to_bytes ''cache'')) = Some (to_bytes ''cache'', [])"
    using xdr_okD(3) [OF rfc_xdr_ok, of "to_bytes ''cache''" "[]"] by simp
  moreover have "str_of_bytes (to_bytes ''cache'') = ''cache''" by code_simp
  ultimately show ?thesis using xdr_okD(3) [OF rfc_xdr_ok, of zeroHandle]
    by (simp add: r_DirOpArg_def remove_request_def special_lengths)
qed

definition ro_front :: "((mod_version \<times> put_data) list, mod_version) front_env" where
  "ro_front = toy_front\<lparr>fe_fs := (fe_fs toy_front)\<lparr>ReadOnly := True\<rparr>\<rparr>"

lemma ro_front_returns: "env_returns (fe_fs ro_front) (fe_fuel ro_front)" "fs_sound (fe_fs ro_front) (f_fs toy_state)"
proof -
  have "walkStoreModulePaths 3 (\<lambda>p. if p = [] then Inr two_files else Inl ErrNotExist) \<noteq> None" by code_simp
  then show "env_returns (fe_fs ro_front) (fe_fuel ro_front)"
    using mem_xmod_ok by (simp add: env_returns_def ro_front_def toy_front_def mem_env_def mem_store_def)
  show "fs_sound (fe_fs ro_front) (f_fs toy_state)" by (rule fs_sound_start) (simp_all add: toy_state_def fs0_def)
qed


end
