(* ===== verification/Nfs_Conn.thy ===== *)
theory Nfs_Conn
  imports Nfs_Writes Portmap
begin

unbundle bit_operations_syntax

text \<open>
  How the NFS server takes requests and answers them: records and request headers (\<^verbatim>\<open>conn.go\<close>), the
  table of procedures (\<^verbatim>\<open>server.go\<close>, \<^verbatim>\<open>nfs.go\<close>), the procedures of the mount and lock services (\<^verbatim>\<open>mount.go\<close>,
  \<^verbatim>\<open>fakelock.go\<close>), and the handling of one request with its error replies.
\<close>

section \<open>Records\<close>

definition lastFragMask :: u32 where "lastFragMask = push_bit 31 1"
definition maxRPCSize :: nat where "maxRPCSize = 10 * 2 ^ 20"

datatype rec_err = RecEOF | RecUnexpectedEOF | RecTooLarge | ErrInputInvalid | RecBadHeader

text \<open>What is read from a stream that ends after \<open>b\<close>; \<^verbatim>\<open>xdr.ReadUint32\<close> reads four bytes, big-endian.\<close>

function ReadRPCRecord_loop :: "bytes \<Rightarrow> bytes \<Rightarrow> rec_err + bytes \<times> bytes" where
  "ReadRPCRecord_loop msg b =
     (if b = [] then Inl RecEOF
      else if length b < 4 then Inl RecUnexpectedEOF
      else
      let frag = be_get32 (take 4 b); r = drop 4 b;
          last = (frag AND lastFragMask \<noteq> 0); n = unat (frag AND NOT lastFragMask) in
      if n + length msg > maxRPCSize then Inl RecTooLarge
      else if length r < n then Inl RecUnexpectedEOF
      else if last then Inr (msg @ take n r, drop n r)
      else ReadRPCRecord_loop (msg @ take n r) (drop n r))"
  by auto
termination by (relation "measure (\<lambda>(m, b). length b)") auto

declare ReadRPCRecord_loop.simps [simp del]

definition ReadRPCRecord :: "bytes \<Rightarrow> rec_err + bytes \<times> bytes" where
  "ReadRPCRecord b = ReadRPCRecord_loop [] b"

text \<open>
  The RPC header (\<^verbatim>\<open>rpc.Header\<close> of the module go-nfs-client) is read by a parameter: it yields the
  program and the procedure, and what follows.
\<close>

record conn_lib =
  cl_xdr :: xdr_lib
  cl_Header :: "bytes \<Rightarrow> ((u32 \<times> u32) \<times> bytes) option"

definition new_response :: "u32 \<Rightarrow> u32 \<Rightarrow> u32 \<Rightarrow> bytes \<Rightarrow> response" where
  "new_response xid prog prc args =
     \<lparr>w_writer = [], w_responded = False, w_errorFmt = basicErrorFormatter, w_xid = xid, w_prog = prog, w_proc = prc, w_body = args\<rparr>"

definition parse_request :: "conn_lib \<Rightarrow> bytes \<Rightarrow> rec_err + response" where
  "parse_request L rpcMsg =
     (if length rpcMsg < 40 then Inl ErrInputInvalid
      else
      case r_u32 (cl_xdr L) rpcMsg of
        None \<Rightarrow> Inl RecBadHeader
      | Some (xid, r) \<Rightarrow>
          (case r_u32 (cl_xdr L) r of
             None \<Rightarrow> Inl RecBadHeader
           | Some (reqType, r) \<Rightarrow>
               if reqType \<noteq> 0 then Inl ErrInputInvalid
               else (case cl_Header L r of
                  None \<Rightarrow> Inl RecBadHeader
                | Some ((prog, prc), r) \<Rightarrow> Inr (new_response xid prog prc r))))"

definition readRequestHeader :: "conn_lib \<Rightarrow> bytes \<Rightarrow> rec_err + response \<times> bytes" where
  "readRequestHeader L b =
     (case ReadRPCRecord b of
        Inl e \<Rightarrow> Inl e
      | Inr (rpcMsg, rest) \<Rightarrow> (case parse_request L rpcMsg of Inl e \<Rightarrow> Inl e | Inr w \<Rightarrow> Inr (w, rest)))"

lemma ReadRPCRecord_shrinks: "ReadRPCRecord_loop msg b = Inr (m, rest) \<Longrightarrow> length rest + 4 \<le> length b"
proof (induction msg b rule: ReadRPCRecord_loop.induct)
  case (1 msg b)
  let ?frag = "be_get32 (take 4 b)" and ?r = "drop 4 b"
  let ?n = "unat (?frag AND NOT lastFragMask)"
  have p: "b \<noteq> []" "\<not> length b < 4" "\<not> ?n + length msg > maxRPCSize" "\<not> length ?r < ?n"
    using 1(2) by (auto simp: ReadRPCRecord_loop.simps [of msg b] Let_def split: if_splits)
  show ?case
  proof (cases "?frag AND lastFragMask = 0")
    case True
    then have "ReadRPCRecord_loop (msg @ take ?n ?r) (drop ?n ?r) = Inr (m, rest)"
      using 1(2) p by (simp add: ReadRPCRecord_loop.simps [of msg b] Let_def)
    then show ?thesis using 1(1) [OF p(1,2) refl refl refl refl p(3,4)] True by simp
  next
    case False
    then have "rest = drop ?n ?r" using 1(2) p by (simp add: ReadRPCRecord_loop.simps [of msg b] Let_def)
    then show ?thesis using p(2) by simp
  qed
qed

lemma readRequest_shrinks: "readRequestHeader L b = Inr (w, rest) \<Longrightarrow> length rest + 4 \<le> length b"
  by (auto simp: readRequestHeader_def ReadRPCRecord_def dest!: ReadRPCRecord_shrinks split: sum.splits)

lemma parse_request_fresh: "parse_request L m = Inr w \<Longrightarrow> \<not> w_responded w \<and> w_writer w = []"
  by (auto simp: parse_request_def new_response_def split: if_splits option.splits)

lemma readRequest_fresh: "readRequestHeader L b = Inr (w, rest) \<Longrightarrow> \<not> w_responded w \<and> w_writer w = []"
  by (auto simp: readRequestHeader_def dest: parse_request_fresh split: sum.splits)

lemma ReadRPCRecord_frags:
  "length msg + length (concat frags) + length final \<le> maxRPCSize \<Longrightarrow>
   ReadRPCRecord_loop msg (record_of frags final @ rest) = Inr (msg @ concat frags @ final, rest)"
proof (induction frags arbitrary: msg)
  case Nil
  then have "length final < 2 ^ 31" by (simp add: maxRPCSize_def)
  with Nil show ?case using frag_len_last [of "length final"]
    by (simp add: record_of_def frame_def ReadRPCRecord_loop.simps [of msg] frag_len_def frag_last_def lastFragMask_def Let_def)
next
  case (Cons f frags)
  then have "length f < 2 ^ 31" by (simp add: maxRPCSize_def)
  moreover have "ReadRPCRecord_loop (msg @ f) (record_of frags final @ rest) = Inr ((msg @ f) @ concat frags @ final, rest)"
    using Cons by (intro Cons.IH) simp
  ultimately show ?case using Cons.prems frag_len_last [of "length f"]
    by (simp add: record_of_def fragment_def ReadRPCRecord_loop.simps [of msg] frag_len_def frag_last_def lastFragMask_def Let_def)
qed

section \<open>The mount service\<close>

type_synonym 's HandleFunc = "response \<Rightarrow> 's \<Rightarrow> (herr option \<times> response \<times> 's) option"

definition with_header :: "xdr_lib \<Rightarrow> (response \<Rightarrow> 's \<Rightarrow> (herr option \<times> response \<times> 's) option) \<Rightarrow> 's HandleFunc" where
  "with_header X k w s = (case writeHeader X ResponseCodeSuccess w of (Some e, w) \<Rightarrow> Some (Some e, w, s) | (None, w) \<Rightarrow> k w s)"

definition answer_empty :: "xdr_lib \<Rightarrow> 's HandleFunc" where
  "answer_empty X = with_header X (\<lambda>w s. Some (None, w, s))"

definition answer :: "xdr_lib \<Rightarrow> bytes \<Rightarrow> 's HandleFunc" where
  "answer X b w s = (let (e, w) = Write X b w in Some (e, w, s))"

definition xdr_failed :: herr where "xdr_failed = OtherErr (ErrMsg ''xdr'')"

definition onMountNull :: "xdr_lib \<Rightarrow> ('s, 'f) nfs_user \<Rightarrow> 's HandleFunc" where
  "onMountNull X U = answer_empty X"

definition MountStatusOk :: u32 where "MountStatusOk = 0"

definition x_flavors :: "xdr_lib \<Rightarrow> u32 list \<Rightarrow> bytes" where
  "x_flavors X fl = x_u32 X (word_of_nat (length fl)) @ concat (map (x_u32 X) fl)"

definition onMount :: "xdr_lib \<Rightarrow> ('s, 'f) nfs_user \<Rightarrow> 's HandleFunc" where
  "onMount X U w s =
     (case r_opaque X (w_body w) of
        None \<Rightarrow> Some (Some xdr_failed, w, s)
      | Some (dirpath, _) \<Rightarrow>
          let ((status, flavors), s) = u_Mount U dirpath s in
          with_header X (\<lambda>w s.
            let (rootHndl, s) = u_ToHandle U [] s in
            answer X (x_u32 X status @ (if status = MountStatusOk then x_opaque X rootHndl @ x_flavors X flavors else [])) w s) w s)"

definition onUMount :: "xdr_lib \<Rightarrow> ('s, 'f) nfs_user \<Rightarrow> 's HandleFunc" where
  "onUMount X U w s = (case r_opaque X (w_body w) of None \<Rightarrow> Some (Some xdr_failed, w, s) | Some _ \<Rightarrow> answer_empty X w s)"

definition onUMountAll :: "xdr_lib \<Rightarrow> ('s, 'f) nfs_user \<Rightarrow> 's HandleFunc" where
  "onUMountAll X U = answer_empty X"

definition onMountExport :: "xdr_lib \<Rightarrow> ('s, 'f) nfs_user \<Rightarrow> 's HandleFunc" where
  "onMountExport X U = with_header X (answer X (x_opaque X (to_bytes ''gomodfs'') @ x_bool X False @ x_bool X False))"

section \<open>The lock service\<close>

definition nlm4Granted :: u32 where "nlm4Granted = 0"

definition onLockNull :: "xdr_lib \<Rightarrow> ('s, 'f) nfs_user \<Rightarrow> 's HandleFunc" where
  "onLockNull X U = answer_empty X"

definition onLockFreeAll :: "xdr_lib \<Rightarrow> ('s, 'f) nfs_user \<Rightarrow> 's HandleFunc" where
  "onLockFreeAll X U w s =
     (case Option.bind (r_opaque X (w_body w)) (\<lambda>(name, b). r_u32 X b) of
        None \<Rightarrow> Some (Some xdr_failed, w, s)
      | Some _ \<Rightarrow> answer_empty X w s)"

text \<open>The cookie is read without the padding of its encoding, and written back the same way.\<close>

definition read_cookie :: "xdr_lib \<Rightarrow> bool \<Rightarrow> bytes \<Rightarrow> (u32 \<times> bytes) option" where
  "read_cookie X aligned b =
     (case r_u32 X b of
        None \<Rightarrow> None
      | Some (cookieLen, b) \<Rightarrow>
          if cookieLen > 128 then None
          else if aligned \<and> unat cookieLen mod 4 \<noteq> 0 then None
          else if length b < unat cookieLen then None
          else Some (cookieLen, take (unat cookieLen) b))"

definition onLockShareUnshare :: "xdr_lib \<Rightarrow> 's HandleFunc" where
  "onLockShareUnshare X w s =
     (case read_cookie X True (w_body w) of
        None \<Rightarrow> Some (Some (OtherErr (ErrMsg ''nlm'')), w, s)
      | Some (cookieLen, cookie) \<Rightarrow>
          with_header X (answer X (be_put32 cookieLen @ cookie @ be_put32 nlm4Granted @ be_put32 0)) w s)"

definition onLockShare :: "xdr_lib \<Rightarrow> ('s, 'f) nfs_user \<Rightarrow> 's HandleFunc" where
  "onLockShare X U = onLockShareUnshare X"

definition onLockUnshare :: "xdr_lib \<Rightarrow> ('s, 'f) nfs_user \<Rightarrow> 's HandleFunc" where
  "onLockUnshare X U = onLockShareUnshare X"

definition onLockUnlockCancel :: "xdr_lib \<Rightarrow> ('s, 'f) nfs_user \<Rightarrow> 's HandleFunc" where
  "onLockUnlockCancel X U w s =
     (case read_cookie X False (w_body w) of
        None \<Rightarrow> Some (Some (OtherErr (ErrMsg ''nlm'')), w, s)
      | Some (cookieLen, cookie) \<Rightarrow> with_header X (answer X (be_put32 cookieLen @ cookie @ be_put32 nlm4Granted)) w s)"

section \<open>The table of procedures\<close>

type_synonym 's handlers = "((u32 \<times> u32) \<times> 's HandleFunc) list"

definition RegisterMessageHandler :: "u32 \<Rightarrow> u32 \<Rightarrow> 's HandleFunc \<Rightarrow> 's handlers \<Rightarrow> err option \<times> 's handlers" where
  "RegisterMessageHandler protocol prc handler tbl =
     (if map_of tbl (protocol, prc) \<noteq> None then (Some (ErrMsg ''already registered''), tbl)
      else (None, ((protocol, prc), handler) # tbl))"

definition handlerFor :: "'s handlers \<Rightarrow> u32 \<Rightarrow> u32 \<Rightarrow> 's HandleFunc option" where
  "handlerFor tbl prog prc = map_of tbl (prog, prc)"

definition nfsServiceID :: u32 where "nfsServiceID = 100003"
definition mountServiceID :: u32 where "mountServiceID = 100005"
definition lockServiceID :: u32 where "lockServiceID = 100021"

record server =
  srv_ID :: bytes
  ForWindowsClients :: bool

definition lock_procs :: "xdr_lib \<Rightarrow> ('s, 'f) nfs_user \<Rightarrow> (u32 \<times> 's HandleFunc) list" where
  "lock_procs X U =
     [(0, onLockNull X U), (23, onLockFreeAll X U), (20, onLockShare X U), (21, onLockUnshare X U),
      (2, onLockUnlockCancel X U), (22, onLockUnlockCancel X U), (3, onLockUnlockCancel X U), (4, onLockUnlockCancel X U)]"

definition mount_procs :: "xdr_lib \<Rightarrow> ('s, 'f) nfs_user \<Rightarrow> (u32 \<times> 's HandleFunc) list" where
  "mount_procs X U =
     [(0, onMountNull X U), (1, onMount X U), (3, onUMount X U), (4, onUMountAll X U), (5, onMountExport X U)]"

definition nfs_procs :: "xdr_lib \<Rightarrow> server \<Rightarrow> ('s, 'f) nfs_user \<Rightarrow> (u32 \<times> 's HandleFunc) list" where
  "nfs_procs X V U =
     [(0, onNull X U), (1, onGetAttr X U), (2, onSetAttr X U), (3, onLookup X U), (4, onAccess X U), (5, onReadLink X U),
      (6, onRead X U), (7, onWrite X (srv_ID V) U), (8, onCreate X U), (9, onMkdir X U), (10, onSymlink X U), (11, onMknod X U),
      (12, onRemove X U), (13, onRmDir X U), (14, onRename X U), (15, onLink X U), (16, onReadDir X U),
      (17, onReadDirPlus X (ForWindowsClients V) U), (18, onFSStat X U), (19, onFSInfo X U), (20, onPathConf X U),
      (21, onCommit X (srv_ID V) U)]"

definition register_all :: "u32 \<Rightarrow> (u32 \<times> 's HandleFunc) list \<Rightarrow> 's handlers \<Rightarrow> 's handlers" where
  "register_all service = fold (\<lambda>(prc, f) tbl. snd (RegisterMessageHandler service prc f tbl))"

text \<open>The three \<^verbatim>\<open>init\<close> functions, in the order of their files.\<close>

definition registeredHandlers :: "xdr_lib \<Rightarrow> server \<Rightarrow> ('s, 'f) nfs_user \<Rightarrow> 's handlers" where
  "registeredHandlers X V U =
     register_all nfsServiceID (nfs_procs X V U)
       (register_all mountServiceID (mount_procs X U) (register_all lockServiceID (lock_procs X U) []))"

section \<open>Handling one request\<close>

text \<open>\<open>cancelled\<close> is whether the connection's context is done.\<close>

definition conn_err :: "xdr_lib \<Rightarrow> bool \<Rightarrow> response \<Rightarrow> herr \<Rightarrow> herr option \<times> response" where
  "conn_err X cancelled w e =
     (if cancelled \<or> w_responded w then (None, w)
      else
      let rpcErr = w_errorFmt w e in
      case writeHeader X (Code rpcErr) w of
        (Some we, w) \<Rightarrow> (Some we, w)
      | (None, w) \<Rightarrow> Write X (MarshalBinary rpcErr) w)"

definition handle_error :: "xdr_lib \<Rightarrow> bool \<Rightarrow> herr option \<Rightarrow> response \<Rightarrow> herr option \<times> response" where
  "handle_error X cancelled appError w =
     (case (case appError of Some e \<Rightarrow> if w_responded w then (None, w) else conn_err X cancelled w e | None \<Rightarrow> (None, w)) of
        (Some e, w) \<Rightarrow> (Some e, w)
      | (None, w) \<Rightarrow> if w_responded w then (None, w) else conn_err X cancelled w (RpcErr ResponseCodeSystemError))"

definition conn_handle :: "xdr_lib \<Rightarrow> 's handlers \<Rightarrow> bool \<Rightarrow> response \<Rightarrow> 's \<Rightarrow> (herr option \<times> response \<times> 's) option" where
  "conn_handle X tbl cancelled w s =
     (case handlerFor tbl (w_prog w) (w_proc w) of
        None \<Rightarrow> (let (e, w) = conn_err X cancelled w (RpcErr ResponseCodeProcUnavailableError) in Some (e, w, s))
      | Some handler \<Rightarrow>
          (case handler w s of
             None \<Rightarrow> None
           | Some (appError, w, s) \<Rightarrow> (let (e, w) = handle_error X cancelled appError w in Some (e, w, s))))"

section \<open>One reply for one request\<close>

definition reply_head :: "xdr_lib \<Rightarrow> u32 \<Rightarrow> ResponseCode \<Rightarrow> bytes" where
  "reply_head X xid code =
     (let denied = (code = ResponseCodeAuthError \<or> code = ResponseCodeRPCMismatch) in
      x_u32 X xid @ x_u32 X 1 @ x_u32 X (if denied then 1 else 0) @ (if denied then [] else x_u32 X 0 @ x_opaque X []) @ x_u32 X (respcode code))"

lemma writeHeader_fresh:
  "\<not> w_responded w \<Longrightarrow> writeHeader X code w = (None, w\<lparr>w_responded := True, w_writer := w_writer w @ reply_head X (w_xid w) code\<rparr>)"
  by (simp add: writeHeader_def reply_head_def writeXdrHeader_def Let_def)

lemma Write_fresh:
  "\<not> w_responded w \<Longrightarrow> Write X b w = (None, w\<lparr>w_responded := True, w_writer := w_writer w @ reply_head X (w_xid w) ResponseCodeSuccess @ b\<rparr>)"
  by (simp add: Write_def writeHeader_fresh)

text \<open>One header, with the request's transaction id, and a body after it; or nothing yet.\<close>

definition one_reply :: "xdr_lib \<Rightarrow> u32 \<Rightarrow> bytes \<Rightarrow> bool" where
  "one_reply X xid msg \<longleftrightarrow> (\<exists>code b. msg = reply_head X xid code @ b)"

lemma one_reply_simps [simp]:
  "one_reply X xid (reply_head X xid code)" "one_reply X xid (reply_head X xid code @ b)"
  by (auto simp: one_reply_def intro: exI [of _ "[]"])

definition proper :: "xdr_lib \<Rightarrow> u32 \<Rightarrow> response \<Rightarrow> bool" where
  "proper X xid w \<longleftrightarrow> w_xid w = xid \<and> (if w_responded w then one_reply X xid (w_writer w) else w_writer w = [])"

text \<open>A procedure that, given a fresh response, leaves it proper.\<close>

definition proper_proc :: "xdr_lib \<Rightarrow> 's HandleFunc \<Rightarrow> bool" where
  "proper_proc X f \<longleftrightarrow> (\<forall>w s e w' s'. \<not> w_responded w \<and> w_writer w = [] \<and> f w s = Some (e, w', s') \<longrightarrow> proper X (w_xid w) w')"

lemma proper_fresh: "\<not> w_responded w \<Longrightarrow> w_writer w = [] \<Longrightarrow> proper X (w_xid w) w"
  by (simp add: proper_def)

lemma proper_run: "proper_proc X (run_proc X fmt q)"
proof -
  have f: "\<not> w_responded w \<Longrightarrow> w_writer w = [] \<Longrightarrow> proper X (w_xid w) (snd (Write X b w))" for w b
    by (auto simp: Write_fresh proper_def)
  show ?thesis unfolding proper_proc_def
  proof (intro allI impI, elim conjE)
    fix w s e w' s' assume w: "\<not> w_responded w" "w_writer w = []" and r: "run_proc X fmt q w s = Some (e, w', s')"
    let ?w = "case fmt of None \<Rightarrow> w | Some f \<Rightarrow> w\<lparr>w_errorFmt := f\<rparr>"
    have w': "\<not> w_responded ?w" "w_writer ?w = []" "w_xid ?w = w_xid w" using w by (auto split: option.split)
    have "w' = ?w \<or> (\<exists>b. w' = snd (Write X b ?w))"
      using r by (auto simp: run_proc_def Let_def Write_eq split: option.splits sum.splits prod.splits)
    then show "proper X (w_xid w) w'" using proper_fresh [OF w'(1,2), of X] f [OF w'(1,2)] w'(3) by auto
  qed
qed

lemma proper_answer_empty: "proper_proc X (answer_empty X)"
  by (auto simp: proper_proc_def answer_empty_def with_header_def writeHeader_fresh proper_def)

lemma proper_answer: "proper_proc X (answer X b)"
  by (auto simp: proper_proc_def answer_def Write_fresh proper_def)

lemma with_header_answer:
  assumes "\<not> w_responded w"
  shows "with_header X (answer X b) w s =
    Some (None, w\<lparr>w_responded := True, w_writer := w_writer w @ reply_head X (w_xid w) ResponseCodeSuccess @ b\<rparr>, s)"
  using assms by (simp add: with_header_def writeHeader_fresh answer_def Write_def)

lemma with_header_answer':
  assumes "\<not> w_responded w"
  shows "with_header X (\<lambda>w s. case t s of (h, s) \<Rightarrow> answer X (g h) w s) w s =
    Some (None, w\<lparr>w_responded := True, w_writer := w_writer w @ reply_head X (w_xid w) ResponseCodeSuccess @ g (fst (t s))\<rparr>, snd (t s))"
  using assms by (simp add: with_header_def writeHeader_fresh answer_def Write_def case_prod_beta)

lemma proper_header_answer: "proper_proc X (with_header X (answer X b))"
  by (auto simp: proper_proc_def with_header_answer proper_def)

lemma proper_read: "(\<And>x. proper_proc X (k x)) \<Longrightarrow> proper_proc X (\<lambda>w s. case rd (w_body w) of None \<Rightarrow> Some (Some e, w, s) | Some x \<Rightarrow> k x w s)"
  unfolding proper_proc_def by (fastforce simp: proper_fresh split: option.splits)

lemma proper_mount: "proper_proc X (onMount X U)"
  unfolding onMount_def [abs_def]
proof (rule proper_read, unfold split_paired_all prod.case)
  fix dirpath r
  show "proper_proc X (\<lambda>w s. let ((status, flavors), s) = u_Mount U dirpath s in
    with_header X (\<lambda>w s. let (rootHndl, s) = u_ToHandle U [] s in
      answer X (x_u32 X status @ (if status = MountStatusOk then x_opaque X rootHndl @ x_flavors X flavors else [])) w s) w s)"
    unfolding proper_proc_def Let_def by (auto simp: with_header_answer' proper_def split: prod.splits)
qed

lemma proper_locks: "proper_proc X (onLockShareUnshare X)" "proper_proc X (onLockUnlockCancel X U)" "proper_proc X (onLockFreeAll X U)" "proper_proc X (onUMount X U)"
proof -
  note defs = onLockShareUnshare_def [abs_def] onLockUnlockCancel_def [abs_def] onLockFreeAll_def [abs_def] onUMount_def [abs_def]
  show "proper_proc X (onLockShareUnshare X)"
    unfolding defs by (rule proper_read [where rd = "read_cookie X True"]) (auto simp: proper_header_answer split: prod.split)
  show "proper_proc X (onLockUnlockCancel X U)"
    unfolding defs by (rule proper_read [where rd = "read_cookie X False"]) (auto simp: proper_header_answer split: prod.split)
  show "proper_proc X (onUMount X U)"
    unfolding defs by (rule proper_read) (simp add: proper_answer_empty)
  show "proper_proc X (onLockFreeAll X U)"
    unfolding defs by (rule proper_read [where rd = "\<lambda>b. Option.bind (r_opaque X b) (\<lambda>(name, b). r_u32 X b)"]) (simp add: proper_answer_empty)
qed

lemma proper_all:
  "(k, f) \<in> set (nfs_procs X V U @ mount_procs X U @ lock_procs X U) \<Longrightarrow> proper_proc X f"
proof -
  have n: "proper_proc X (onNull X U)" using proper_answer [of X "[]"] by (simp add: onNull_def [abs_def] answer_def [abs_def])
  note nfs = onGetAttr_def onSetAttr_def onLookup_def onAccess_def onReadLink_def onRead_def onWrite_def onCreate_def onMkdir_def onSymlink_def
    onMknod_def onRemove_def onRmDir_def onRename_def onLink_def onReadDir_def onReadDirPlus_def onFSStat_def onFSInfo_def onPathConf_def onCommit_def
  have "list_all (\<lambda>(k, f). proper_proc X f) (nfs_procs X V U)" by (simp add: nfs_procs_def n nfs proper_run)
  moreover have "list_all (\<lambda>(k, f). proper_proc X f) (mount_procs X U @ lock_procs X U)"
    by (simp add: mount_procs_def lock_procs_def onMountNull_def onUMountAll_def onMountExport_def onLockNull_def onLockShare_def onLockUnshare_def
        proper_answer_empty proper_header_answer proper_mount proper_locks)
  ultimately show "(k, f) \<in> set (nfs_procs X V U @ mount_procs X U @ lock_procs X U) \<Longrightarrow> proper_proc X f"
    by (auto simp: list_all_iff)
qed

lemma register_all_lookup:
  "map_of (register_all sv ps tbl) (a, b) =
     (case map_of tbl (a, b) of Some f \<Rightarrow> Some f | None \<Rightarrow> if a = sv then map_of ps b else None)"
proof (induction ps arbitrary: tbl)
  case (Cons p ps)
  obtain prc f where [simp]: "p = (prc, f)" by fastforce
  have r: "map_of (snd (RegisterMessageHandler sv prc f tbl)) (a, b) =
    (case map_of tbl (a, b) of Some g \<Rightarrow> Some g | None \<Rightarrow> if a = sv \<and> b = prc then Some f else None)"
    by (auto simp: RegisterMessageHandler_def split: option.split)
  show ?case using Cons [of "snd (RegisterMessageHandler sv prc f tbl)"]
    unfolding register_all_def by (auto simp: r split: option.splits)
qed (simp add: register_all_def split: option.split)

lemma handlerFor_registered:
  "handlerFor (registeredHandlers X V U) prog prc =
     (if prog = lockServiceID then map_of (lock_procs X U) prc
      else if prog = mountServiceID then map_of (mount_procs X U) prc
      else if prog = nfsServiceID then map_of (nfs_procs X V U) prc else None)"
  by (auto simp: handlerFor_def registeredHandlers_def register_all_lookup lockServiceID_def mountServiceID_def nfsServiceID_def split: option.split)

lemma handler_proper:
  assumes "handlerFor (registeredHandlers X V U) prog prc = Some f"
  shows "proper_proc X f"
proof -
  obtain k where "(k, f) \<in> set (nfs_procs X V U @ mount_procs X U @ lock_procs X U)"
    using assms by (auto simp: handlerFor_registered dest: map_of_SomeD split: if_splits)
  then show ?thesis by (rule proper_all)
qed

lemma conn_err_proper:
  assumes "proper X xid w"
  shows "\<exists>w'. conn_err X c w e = (None, w') \<and> proper X xid w' \<and> (\<not> c \<longrightarrow> w_responded w')"
  using assms by (auto simp: conn_err_def Let_def writeHeader_fresh Write_def proper_def)

lemma handle_error_proper:
  assumes "proper X xid w"
  shows "\<exists>w'. handle_error X c e w = (None, w') \<and> proper X xid w' \<and> (\<not> c \<longrightarrow> w_responded w')"
proof -
  have "\<exists>w1. (case e of Some e \<Rightarrow> if w_responded w then (None, w) else conn_err X c w e | None \<Rightarrow> (None, w)) = (None, w1) \<and> proper X xid w1"
    using assms conn_err_proper [OF assms, of c "the e"] by (cases e) auto
  then obtain w1 where w1: "(case e of Some e \<Rightarrow> if w_responded w then (None, w) else conn_err X c w e | None \<Rightarrow> (None, w)) = (None, w1)" "proper X xid w1"
    by blast
  show ?thesis using w1 conn_err_proper [OF w1(2), of c "RpcErr ResponseCodeSystemError"] by (auto simp: handle_error_def)
qed

lemma conn_handle_proper:
  assumes "conn_handle X (registeredHandlers X V U) c w s = Some (e, w', s')" "\<not> w_responded w" "w_writer w = []"
  shows "e = None \<and> proper X (w_xid w) w' \<and> (\<not> c \<longrightarrow> w_responded w')"
proof (cases "handlerFor (registeredHandlers X V U) (w_prog w) (w_proc w)")
  case None
  then show ?thesis using assms conn_err_proper [OF proper_fresh [OF assms(2,3)], of X c "RpcErr ResponseCodeProcUnavailableError"]
    by (auto simp: conn_handle_def)
next
  case (Some f)
  then obtain a w1 where h: "f w s = Some (a, w1, s')" "handle_error X c a w1 = (e, w')"
    using assms(1) by (auto simp: conn_handle_def split: option.splits prod.splits)
  then have "proper X (w_xid w) w1" using handler_proper [OF Some] assms(2,3) unfolding proper_proc_def by blast
  from handle_error_proper [OF this, of c a] h(2) show ?thesis by auto
qed

end
