(* ===== verification/Nfs_Serve.thy ===== *)
theory Nfs_Serve
  imports Nfs_Conn "HOL-Library.Multiset"
begin

text \<open>
  A connection of the NFS server (\<^verbatim>\<open>conn.serve\<close>, \<^verbatim>\<open>conn.serializeWrites\<close>, \<^verbatim>\<open>response.finish\<close> of \<^verbatim>\<open>conn.go\<close>) as
  a step relation: one goroutine reads requests, at most 32 handle them, one writes replies.  Every
  interleaving answers each request at most once and with its own reply; and as long as nothing
  fails, every interleaving answers them all.
\<close>

section \<open>States and steps\<close>

definition concurrentHandlers :: nat where "concurrentHandlers = 32"

text \<open>
  Requests are numbered as they are read, and replies carry the number of their request.  \<open>c_flight\<close>
  are the goroutines still to run their handler, \<open>c_ready\<close> those in \<^verbatim>\<open>finish\<close>; both hold a token of the
  semaphore.  \<open>c_chan\<close> is \<^verbatim>\<open>writeSerializer\<close>, \<open>c_out\<close> the records written.
\<close>

record 's nconn =
  c_in :: bytes
  c_reqs :: "response list"
  c_pend :: "(nat \<times> response) option"
  c_flight :: "(nat \<times> response) list"
  c_ready :: "(nat \<times> bytes) list"
  c_chan :: "(nat \<times> bytes) list"
  c_out :: "(nat \<times> bytes) list"
  c_reading :: bool
  c_writing :: bool
  c_cancelled :: bool
  c_st :: 's

definition conn_start :: "bytes \<Rightarrow> 's \<Rightarrow> 's nconn" where
  "conn_start b s = \<lparr>c_in = b, c_reqs = [], c_pend = None, c_flight = [], c_ready = [], c_chan = [], c_out = [],
     c_reading = True, c_writing = True, c_cancelled = False, c_st = s\<rparr>"

text \<open>The bytes on the wire.\<close>

definition fragment_header :: "bytes \<Rightarrow> bytes" where
  "fragment_header msg = be_put32 (word_of_nat (length msg) OR lastFragMask)"

definition wire :: "'s nconn \<Rightarrow> bytes" where
  "wire c = concat (map (\<lambda>(i, msg). fragment_header msg @ msg) (c_out c))"

text \<open>The steps of a connection where nothing fails.\<close>

inductive conn_go :: "conn_lib \<Rightarrow> 's handlers \<Rightarrow> 's nconn \<Rightarrow> 's nconn \<Rightarrow> bool" for L tbl where
  read: "c_reading c \<Longrightarrow> c_pend c = None \<Longrightarrow> readRequestHeader L (c_in c) = Inr (w, rest) \<Longrightarrow>
    conn_go L tbl c (c\<lparr>c_in := rest, c_reqs := c_reqs c @ [w], c_pend := Some (length (c_reqs c), w)\<rparr>)"
| acquire: "c_reading c \<Longrightarrow> c_pend c = Some r \<Longrightarrow> length (c_flight c) + length (c_ready c) < concurrentHandlers \<Longrightarrow>
    conn_go L tbl c (c\<lparr>c_pend := None, c_flight := c_flight c @ [r]\<rparr>)"
| handle: "c_flight c = a @ (i, w) # b \<Longrightarrow> conn_handle (cl_xdr L) tbl (c_cancelled c) w (c_st c) = Some (None, w', s') \<Longrightarrow>
    conn_go L tbl c (c\<lparr>c_flight := a @ b, c_ready := c_ready c @ [(i, w_writer w')], c_st := s'\<rparr>)"
| finish: "c_ready c = a @ m # b \<Longrightarrow> length (c_chan c) < concurrentHandlers \<Longrightarrow>
    conn_go L tbl c (c\<lparr>c_ready := a @ b, c_chan := c_chan c @ [m]\<rparr>)"
| write_out: "c_writing c \<Longrightarrow> c_chan c = m # ms \<Longrightarrow> conn_go L tbl c (c\<lparr>c_chan := ms, c_out := c_out c @ [m]\<rparr>)"

text \<open>
  All steps: more bytes may come; the stream may end or hold no request, and then \<^verbatim>\<open>serve\<close> returns and
  its context is cancelled; the handling may fail; with the context cancelled a request may be
  abandoned, a reply dropped, and the writer may stop; and a write may fail, which only stops the writer.
\<close>

inductive conn_step :: "conn_lib \<Rightarrow> 's handlers \<Rightarrow> 's nconn \<Rightarrow> 's nconn \<Rightarrow> bool" for L tbl where
  go: "conn_go L tbl c c' \<Longrightarrow> conn_step L tbl c c'"
| recv: "conn_step L tbl c (c\<lparr>c_in := c_in c @ d\<rparr>)"
| stop: "c_reading c \<Longrightarrow> c_pend c = None \<Longrightarrow> readRequestHeader L (c_in c) = Inl e \<Longrightarrow>
    conn_step L tbl c (c\<lparr>c_reading := False, c_cancelled := True\<rparr>)"
| abandon: "c_reading c \<Longrightarrow> c_pend c = Some r \<Longrightarrow> c_cancelled c \<Longrightarrow> conn_step L tbl c (c\<lparr>c_reading := False, c_pend := None\<rparr>)"
| handle_fail: "c_flight c = a @ (i, w) # b \<Longrightarrow> conn_handle (cl_xdr L) tbl (c_cancelled c) w (c_st c) = Some (Some e, w', s') \<Longrightarrow>
    conn_step L tbl c (c\<lparr>c_flight := a @ b, c_cancelled := True, c_st := s'\<rparr>)"
| drop: "c_ready c = a @ m # b \<Longrightarrow> c_cancelled c \<Longrightarrow> conn_step L tbl c (c\<lparr>c_ready := a @ b\<rparr>)"
| writer_stop: "c_writing c \<Longrightarrow> c_cancelled c \<Longrightarrow> conn_step L tbl c (c\<lparr>c_writing := False\<rparr>)"
| write_fail: "c_writing c \<Longrightarrow> c_chan c = m # ms \<Longrightarrow> conn_step L tbl c (c\<lparr>c_chan := ms, c_writing := False\<rparr>)"

inductive_cases conn_goE: "conn_go L tbl c c'"
inductive_cases conn_stepE: "conn_step L tbl c c'"

inductive conn_reach :: "conn_lib \<Rightarrow> 's handlers \<Rightarrow> 's \<Rightarrow> 's nconn \<Rightarrow> bool" for L tbl s where
  start: "conn_reach L tbl s (conn_start b s)"
| step: "conn_reach L tbl s c \<Longrightarrow> conn_step L tbl c c' \<Longrightarrow> conn_reach L tbl s c'"

text \<open>Runs in which nothing fails, with their length.\<close>

inductive conn_run :: "conn_lib \<Rightarrow> 's handlers \<Rightarrow> nat \<Rightarrow> 's nconn \<Rightarrow> 's nconn \<Rightarrow> bool" for L tbl where
  run_0: "conn_run L tbl 0 c c"
| run_Suc: "conn_run L tbl n c c' \<Longrightarrow> conn_go L tbl c' c'' \<Longrightarrow> conn_run L tbl (Suc n) c c''"

text \<open>All the requests of a stream.\<close>

function requests :: "conn_lib \<Rightarrow> bytes \<Rightarrow> response list" where
  "requests L b = (case readRequestHeader L b of Inl e \<Rightarrow> [] | Inr (w, rest) \<Rightarrow> w # requests L rest)"
  by auto
termination by (relation "measure (\<lambda>(L, b). length b)") (auto dest: readRequest_shrinks)

declare requests.simps [simp del]

section \<open>Every request once\<close>

text \<open>The numbers of the requests under way or answered.\<close>

definition live :: "'s nconn \<Rightarrow> nat multiset" where
  "live c = (case c_pend c of None \<Rightarrow> {#} | Some r \<Rightarrow> {#fst r#}) + mset (map fst (c_flight c)) + mset (map fst (c_ready c)) +
     mset (map fst (c_chan c)) + mset (map fst (c_out c))"

definition msg_ok :: "xdr_lib \<Rightarrow> response list \<Rightarrow> bool \<Rightarrow> nat \<times> bytes \<Rightarrow> bool" where
  "msg_ok X reqs cancelled m \<longleftrightarrow> fst m < length reqs \<and> (one_reply X (w_xid (reqs ! fst m)) (snd m) \<or> (snd m = [] \<and> cancelled))"

definition req_ok :: "response list \<Rightarrow> nat \<times> response \<Rightarrow> bool" where
  "req_ok reqs r \<longleftrightarrow> fst r < length reqs \<and> snd r = reqs ! fst r \<and> \<not> w_responded (snd r) \<and> w_writer (snd r) = []"

definition conn_ok :: "xdr_lib \<Rightarrow> 's nconn \<Rightarrow> bool" where
  "conn_ok X c \<longleftrightarrow> length (c_flight c) + length (c_ready c) \<le> concurrentHandlers \<and> length (c_chan c) \<le> concurrentHandlers \<and>
     live c \<subseteq># mset [0..<length (c_reqs c)] \<and>
     (\<forall>r \<in> set_option (c_pend c) \<union> set (c_flight c). req_ok (c_reqs c) r) \<and>
     (\<forall>m \<in> set (c_ready c @ c_chan c @ c_out c). msg_ok X (c_reqs c) (c_cancelled c) m)"

text \<open>What a table of procedures must guarantee for one request.\<close>

locale nfs_table =
  fixes L :: conn_lib and tbl :: "'s handlers"
  assumes answers: "conn_handle (cl_xdr L) tbl c w s = Some (e, w', s') \<Longrightarrow> \<not> w_responded w \<Longrightarrow> w_writer w = [] \<Longrightarrow>
    e = None \<and> proper (cl_xdr L) (w_xid w) w' \<and> (\<not> c \<longrightarrow> w_responded w')"
begin

abbreviation "ok \<equiv> conn_ok (cl_xdr L)"

lemma msg_ok_mono: "msg_ok X reqs cn m \<Longrightarrow> cn \<longrightarrow> cn' \<Longrightarrow> msg_ok X (reqs @ ws) cn' m"
  by (auto simp: msg_ok_def nth_append)

lemma req_ok_mono: "req_ok reqs r \<Longrightarrow> req_ok (reqs @ ws) r"
  by (auto simp: req_ok_def nth_append)

lemma handled_msg:
  assumes "req_ok reqs (i, w)" "conn_handle (cl_xdr L) tbl cn w s = Some (e, w', s')"
  shows "e = None \<and> msg_ok (cl_xdr L) reqs cn (i, w_writer w')"
  using answers [OF assms(2)] assms(1) by (auto simp: req_ok_def msg_ok_def proper_def split: if_splits)

lemma go_ok:
  assumes "conn_go L tbl c c'" "ok c"
  shows "ok c' \<and> (c_cancelled c' = c_cancelled c) \<and> c_writing c' = c_writing c \<and> c_reading c' = c_reading c"
  using assms(1)
proof cases
  case (read w rest)
  then have fresh: "\<not> w_responded w \<and> w_writer w = []" using readRequest_fresh by blast
  have "live c \<subseteq># mset [0..<length (c_reqs c)]" using assms(2) by (simp add: conn_ok_def)
  then have "live c' \<subseteq># mset [0..<length (c_reqs c')]" using read by (simp add: live_def add.assoc)
  then show ?thesis using read assms(2) fresh unfolding conn_ok_def
    by (auto simp: req_ok_def nth_append intro: msg_ok_mono)
next
  case (acquire r)
  then show ?thesis using assms(2) unfolding conn_ok_def by (auto simp: live_def)
next
  case (handle a i w b w' s')
  have "req_ok (c_reqs c) (i, w)" using handle(2) assms(2) by (auto simp: conn_ok_def)
  from handled_msg [OF this handle(3)] show ?thesis using handle assms(2) unfolding conn_ok_def by (auto simp: live_def)
next
  case (finish a m b)
  then show ?thesis using assms(2) unfolding conn_ok_def by (auto simp: live_def)
next
  case (write_out m ms)
  then show ?thesis using assms(2) unfolding conn_ok_def by (auto simp: live_def)
qed

lemma step_ok:
  assumes "conn_step L tbl c c'" "ok c"
  shows "ok c'"
  using assms(1)
proof cases
  case go
  then show ?thesis using go_ok assms(2) by blast
next
  case (abandon r)
  then have "live c' \<subseteq># live c" by (simp add: live_def)
  then show ?thesis using abandon assms(2) unfolding conn_ok_def by (auto intro: subset_mset.order_trans)
next
  case (handle_fail a i w b e w' s')
  have "req_ok (c_reqs c) (i, w)" using handle_fail(2) assms(2) by (auto simp: conn_ok_def)
  from handled_msg [OF this handle_fail(3)] show ?thesis by simp
next
  case (drop a m b)
  then have "live c' \<subseteq># live c" by (simp add: live_def)
  then show ?thesis using drop assms(2) unfolding conn_ok_def by (auto intro: subset_mset.order_trans)
next
  case (write_fail m ms)
  then have "live c' \<subseteq># live c" by (simp add: live_def)
  then show ?thesis using write_fail assms(2) unfolding conn_ok_def by (auto intro: subset_mset.order_trans)
next
  case (stop e)
  have "msg_ok X reqs cn m \<Longrightarrow> msg_ok X reqs True m" for X reqs cn m by (auto simp: msg_ok_def)
  then show ?thesis using stop assms(2) unfolding conn_ok_def live_def by simp blast
qed (use assms(2) in \<open>auto simp: conn_ok_def live_def\<close>)

lemma start_ok: "ok (conn_start b s)"
  by (simp add: conn_ok_def conn_start_def live_def)

lemma reach_ok: "conn_reach L tbl s c \<Longrightarrow> ok c"
  by (induction rule: conn_reach.induct) (auto intro: start_ok step_ok)

end

section \<open>All of them\<close>

text \<open>What is left to do, and what the steps without failures keep.\<close>

definition work :: "'s nconn \<Rightarrow> nat" where
  "work c = 5 * length (c_in c) + (if c_pend c = None then 0 else 4) + 3 * length (c_flight c) + 2 * length (c_ready c) + length (c_chan c)"

lemma go_work: "conn_go L tbl c c' \<Longrightarrow> work c' < work c"
  by (induction rule: conn_go.induct) (auto simp: work_def dest!: readRequest_shrinks)

lemma run_work: "conn_run L tbl n c c' \<Longrightarrow> work c' + n \<le> work c"
  by (induction rule: conn_run.induct) (auto dest!: go_work)

lemma run_ends: "\<exists>n c'. conn_run L tbl n c c' \<and> (\<nexists>c''. conn_go L tbl c' c'')"
proof (rule ccontr)
  assume *: "\<not> ?thesis"
  have "\<exists>c'. conn_run L tbl n c c'" for n
  proof (induction n)
    case (Suc n)
    then show ?case using * conn_run.run_Suc by metis
  qed (use conn_run.run_0 in blast)
  then obtain c' where "conn_run L tbl (Suc (work c)) c c'" by blast
  from run_work [OF this] show False by simp
qed

definition complete :: "conn_lib \<Rightarrow> bytes \<Rightarrow> 's nconn \<Rightarrow> bool" where
  "complete L b c \<longleftrightarrow> live c = mset [0..<length (c_reqs c)] \<and> c_reqs c @ requests L (c_in c) = requests L b \<and>
     c_reading c \<and> c_writing c \<and> \<not> c_cancelled c"

lemma go_complete: "conn_go L tbl c c' \<Longrightarrow> complete L b c \<Longrightarrow> complete L b c'"
proof (induction rule: conn_go.induct)
  case (read c w rest)
  then show ?case using requests.simps [of L "c_in c"] by (simp add: complete_def live_def add.assoc)
qed (auto simp: complete_def live_def)

text \<open>A table whose procedures return for the requests in \<open>good\<close>, in the states in \<open>inv\<close>.\<close>

locale nfs_service = nfs_table L tbl for L :: conn_lib and tbl :: "'s handlers" +
  fixes inv :: "'s \<Rightarrow> bool" and good :: "response \<Rightarrow> bool"
  assumes returns: "inv s \<Longrightarrow> good w \<Longrightarrow> conn_handle (cl_xdr L) tbl False w s \<noteq> None"
    and keeps: "inv s \<Longrightarrow> good w \<Longrightarrow> conn_handle (cl_xdr L) tbl False w s = Some (e, w', s') \<Longrightarrow> inv s'"
begin

definition good_conn :: "'s nconn \<Rightarrow> bool" where
  "good_conn c \<longleftrightarrow> ok c \<and> inv (c_st c) \<and> list_all good (c_reqs c) \<and> list_all good (requests L (c_in c))"

lemma flight_good: "ok c \<Longrightarrow> list_all good (c_reqs c) \<Longrightarrow> (i, w) \<in> set (c_flight c) \<Longrightarrow> good w"
proof -
  assume "ok c" "list_all good (c_reqs c)" "(i, w) \<in> set (c_flight c)"
  then have "req_ok (c_reqs c) (i, w)" by (simp add: conn_ok_def)
  then show "good w" using \<open>list_all good (c_reqs c)\<close> by (auto simp: req_ok_def list_all_length)
qed

lemma go_good:
  assumes "conn_go L tbl c c'" "good_conn c" "complete L b c"
  shows "good_conn c'"
proof -
  have "ok c'" using go_ok [OF assms(1)] assms(2) by (simp add: good_conn_def)
  from assms(1) show ?thesis
  proof cases
    case (read w rest)
    then show ?thesis using \<open>ok c'\<close> assms(2) requests.simps [of L "c_in c"] by (simp add: good_conn_def)
  next
    case (handle a i w b w' s')
    have "good w" using flight_good [of c i w] assms(2) handle by (simp add: good_conn_def)
    then have "inv s'" using keeps [of "c_st c" w None w' s'] assms(2,3) handle by (simp add: good_conn_def complete_def)
    then show ?thesis using \<open>ok c'\<close> assms(2) handle by (simp add: good_conn_def)
  qed (use \<open>ok c'\<close> assms(2) in \<open>auto simp: good_conn_def\<close>)
qed

lemma stuck_done:
  assumes "good_conn c" "complete L b c" "\<nexists>c'. conn_go L tbl c c'"
  shows "mset (map fst (c_out c)) = mset [0..<length (requests L b)] \<and> c_reqs c = requests L b"
proof -
  have rw: "c_reading c" "c_writing c" "\<not> c_cancelled c" using assms(2) by (simp_all add: complete_def)
  have chan: "c_chan c = []" using rw(2) assms(3) conn_go.write_out by (cases "c_chan c") blast+
  have ready: "c_ready c = []"
  proof (rule ccontr)
    assume "c_ready c \<noteq> []"
    then obtain m b' where "c_ready c = [] @ m # b'" by (cases "c_ready c") auto
    from conn_go.finish [OF this] show False using assms(3) chan by (auto simp: concurrentHandlers_def)
  qed
  have flight: "c_flight c = []"
  proof (rule ccontr)
    assume "c_flight c \<noteq> []"
    then obtain i w b' where f: "c_flight c = [] @ (i, w) # b'" by (cases "c_flight c") auto
    then have g: "good w" "req_ok (c_reqs c) (i, w)" "inv (c_st c)"
      using assms(1) flight_good [of c i w] by (auto simp: good_conn_def conn_ok_def)
    obtain e w' s' where h: "conn_handle (cl_xdr L) tbl (c_cancelled c) w (c_st c) = Some (e, w', s')"
      using returns [OF g(3,1)] rw(3) by auto
    from handled_msg [OF g(2) h] h conn_go.handle [OF f, where w' = w' and s' = s'] show False using assms(3) by auto
  qed
  have pend: "c_pend c = None"
    using conn_go.acquire [OF rw(1), of _ L tbl] flight ready assms(3) by (cases "c_pend c") (auto simp: concurrentHandlers_def)
  have "requests L (c_in c) = []"
    using conn_go.read [OF rw(1) pend, where L = L and tbl = tbl] assms(3) requests.simps [of L "c_in c"] by (cases "readRequestHeader L (c_in c)") (auto split: prod.splits)
  then show ?thesis using assms(2) chan ready flight pend by (simp add: complete_def live_def)
qed

lemma run_good:
  "conn_run L tbl n c0 c \<Longrightarrow> good_conn c0 \<Longrightarrow> complete L b c0 \<Longrightarrow> good_conn c \<and> complete L b c"
  by (induction rule: conn_run.induct) (auto intro: go_good go_complete)

lemma start_good: "inv s \<Longrightarrow> list_all good (requests L b) \<Longrightarrow> good_conn (conn_start b s) \<and> complete L b (conn_start b s)"
  using start_ok by (simp add: good_conn_def complete_def live_def conn_start_def)

lemma all_answered:
  assumes "inv s" "list_all good (requests L b)" "conn_run L tbl n (conn_start b s) c"
  shows "n \<le> 5 * length b \<and>
    ((\<exists>c'. conn_go L tbl c c') \<or>
     (mset (map fst (c_out c)) = mset [0..<length (requests L b)] \<and>
      (\<forall>(i, msg) \<in> set (c_out c). one_reply (cl_xdr L) (w_xid (requests L b ! i)) msg)))"
proof -
  have g: "good_conn c" "complete L b c" using run_good [OF assms(3)] start_good [OF assms(1,2)] by auto
  have "n \<le> 5 * length b" using run_work [OF assms(3)] by (simp add: work_def conn_start_def)
  moreover have "one_reply (cl_xdr L) (w_xid (requests L b ! i)) msg" if "(i, msg) \<in> set (c_out c)" "c_reqs c = requests L b" for i msg
  proof -
    have "msg_ok (cl_xdr L) (c_reqs c) (c_cancelled c) (i, msg)" using g(1) that(1) by (simp add: good_conn_def conn_ok_def)
    then show ?thesis using g(2) that(2) by (simp add: complete_def msg_ok_def)
  qed
  ultimately show ?thesis using stuck_done [OF g] by blast
qed

end

section \<open>The server's table\<close>

interpretation nfs_server: nfs_table L "registeredHandlers (cl_xdr L) V U" for L V U
  by standard (rule conn_handle_proper)

lemma mset_upt_distinct: "mset xs \<subseteq># mset [0..<n] \<Longrightarrow> distinct xs \<and> set xs \<subseteq> {..<n}"
proof -
  assume s: "mset xs \<subseteq># mset [0..<n]"
  then have "count (mset xs) a \<le> count (mset [0..<n]) a" for a by (rule mset_subset_eq_count)
  moreover have "count (mset [0..<n]) a = (if a < n then 1 else 0)" for a
    using distinct_count_atmost_1 [of "[0..<n]"] by (simp add: not_less)
  ultimately have c: "count (mset xs) a \<le> (if a < n then 1 else 0)" for a by metis
  have "count (mset xs) a = (if a \<in> set xs then 1 else 0)" for a
    using c [of a] by (cases "a \<in> set xs") (auto simp: le_Suc_eq count_mset_0_iff split: if_splits)
  then have "distinct xs" by (simp add: distinct_count_atmost_1)
  moreover have "set xs \<subseteq> {..<n}" using mset_subset_eqD [OF s] by fastforce
  ultimately show ?thesis ..
qed

text \<open>What the invariant says of the replies.\<close>

lemma conn_ok_replies:
  assumes "conn_ok X c"
  shows "length (c_flight c) + length (c_ready c) \<le> 32 \<and> distinct (map fst (c_out c)) \<and>
    (\<forall>(i, msg) \<in> set (c_out c). i < length (c_reqs c) \<and> (one_reply X (w_xid (c_reqs c ! i)) msg \<or> (msg = [] \<and> c_cancelled c)))"
proof -
  have "mset (map fst (c_out c)) \<subseteq># live c" by (simp add: live_def)
  then have "mset (map fst (c_out c)) \<subseteq># mset [0..<length (c_reqs c)]" using assms by (auto simp: conn_ok_def intro: subset_mset.order_trans)
  then have "distinct (map fst (c_out c))" using mset_upt_distinct by blast
  moreover have "i < length (c_reqs c) \<and> (one_reply X (w_xid (c_reqs c ! i)) msg \<or> (msg = [] \<and> c_cancelled c))" if "(i, msg) \<in> set (c_out c)" for i msg
  proof -
    have "msg_ok X (c_reqs c) (c_cancelled c) (i, msg)" using assms that by (simp add: conn_ok_def)
    then show ?thesis by (simp add: msg_ok_def)
  qed
  ultimately show ?thesis using assms by (auto simp: conn_ok_def concurrentHandlers_def)
qed

section \<open>Calls as RFC 5531 has them, for examples\<close>

definition rfc_auth :: "bytes \<Rightarrow> bytes option" where
  "rfc_auth b = Option.bind (r_u32 rfc_xdr b) (\<lambda>(flavor, b). map_option snd (r_opaque rfc_xdr b))"

definition rfc_Header :: "bytes \<Rightarrow> ((u32 \<times> u32) \<times> bytes) option" where
  "rfc_Header b = do {
     (rpcvers, b) \<leftarrow> r_u32 rfc_xdr b;
     (prog, b) \<leftarrow> r_u32 rfc_xdr b;
     (vers, b) \<leftarrow> r_u32 rfc_xdr b;
     (prc, b) \<leftarrow> r_u32 rfc_xdr b;
     b \<leftarrow> rfc_auth b;
     b \<leftarrow> rfc_auth b;
     Some ((prog, prc), b)
   }"

definition rfc_lib :: conn_lib where
  "rfc_lib = \<lparr>cl_xdr = rfc_xdr, cl_Header = rfc_Header\<rparr>"

definition nfs_call :: "u32 \<Rightarrow> u32 \<Rightarrow> u32 \<Rightarrow> bytes \<Rightarrow> bytes" where
  "nfs_call xid prog prc args =
     be_put32 xid @ be_put32 0 @ be_put32 2 @ be_put32 prog @ be_put32 3 @ be_put32 prc @
     be_put32 0 @ x_opaque rfc_xdr [] @ be_put32 0 @ x_opaque rfc_xdr [] @ args"

lemma rfc_read:
  "r_u32 rfc_xdr (be_put32 v @ rest) = Some (v, rest)" "r_opaque rfc_xdr (x_opaque rfc_xdr [] @ rest) = Some ([], rest)"
  using xdr_okD(1) [OF rfc_xdr_ok, of v rest] xdr_okD(3) [OF rfc_xdr_ok, of "[]" rest] by (simp_all add: rfc_xdr_def)

lemma nfs_call_length: "length (nfs_call xid prog prc args) = 40 + length args"
  by (simp add: nfs_call_def rfc_xdr_def opaque_pad_def)

lemma readRequest_call:
  assumes "length args \<le> 2 ^ 20"
  shows "readRequestHeader rfc_lib (frame (nfs_call xid prog prc args) @ rest) = Inr (new_response xid prog prc args, rest)"
proof -
  have "ReadRPCRecord (frame (nfs_call xid prog prc args) @ rest) = Inr (nfs_call xid prog prc args, rest)"
    using ReadRPCRecord_frags [of "[]" "[]" "nfs_call xid prog prc args" rest] assms
    by (simp add: ReadRPCRecord_def record_of_def maxRPCSize_def nfs_call_length)
  moreover have "parse_request rfc_lib (nfs_call xid prog prc args) = Inr (new_response xid prog prc args)"
    using nfs_call_length [of xid prog prc args]
    by (simp add: parse_request_def rfc_lib_def nfs_call_def rfc_read rfc_Header_def rfc_auth_def)
  ultimately show ?thesis by (simp add: readRequestHeader_def)
qed

lemma requests_call:
  assumes "length args \<le> 2 ^ 20"
  shows "requests rfc_lib (frame (nfs_call xid prog prc args) @ rest) = new_response xid prog prc args # requests rfc_lib rest"
  by (subst requests.simps) (simp add: readRequest_call [OF assms])

lemma requests_Nil: "requests L [] = []"
  by (subst requests.simps) (simp add: readRequestHeader_def ReadRPCRecord_def ReadRPCRecord_loop.simps)

end
