(* ===== verification/Nfs_Sessions.thy ===== *)
theory Nfs_Sessions
  imports Nfs_Serve Nfs_Readonly
begin

text \<open>
  Sessions with gomodfs over NFS: what every interleaving of a connection guarantees, for the table of
  procedures the server registers and the file system gomodfs serves.
\<close>

section \<open>Requests\<close>

text \<open>A connection on which one call, of a procedure that does not exist, was answered.\<close>

definition null_stream :: bytes where
  "null_stream = frame (nfs_call 7 100003 99 [])"

lemma null_answered:
  "\<exists>c. conn_reach rfc_lib (registeredHandlers rfc_xdr \<lparr>srv_ID = [], ForWindowsClients = False\<rparr> (nfsHandler toy_front)) toy_state c \<and>
     map fst (c_out c) = [0] \<and> w_xid (c_reqs c ! 0) = 7 \<and> \<not> c_cancelled c"
proof -
  let ?U = "nfsHandler toy_front" and ?V = "\<lparr>srv_ID = [], ForWindowsClients = False\<rparr> :: server"
  let ?tbl = "registeredHandlers rfc_xdr ?V ?U" and ?w = "new_response 7 100003 99 []"
  let ?step = "conn_step rfc_lib ?tbl"
  have r: "readRequestHeader rfc_lib null_stream = Inr (?w, [])" using readRequest_call [of "[]" 7 100003 99 "[]"] by (simp add: null_stream_def)
  have "handlerFor ?tbl 100003 99 = None" by (simp add: handlerFor_registered lockServiceID_def mountServiceID_def nfsServiceID_def nfs_procs_def)
  then obtain w' where w': "conn_handle rfc_xdr ?tbl False ?w toy_state = Some (None, w', toy_state)"
    by (auto simp: conn_handle_def conn_err_def Let_def writeHeader_fresh Write_def new_response_def)
  let ?c0 = "conn_start null_stream toy_state"
  let ?c1 = "?c0\<lparr>c_in := [], c_reqs := c_reqs ?c0 @ [?w], c_pend := Some (length (c_reqs ?c0), ?w)\<rparr>"
  let ?c2 = "?c1\<lparr>c_pend := None, c_flight := c_flight ?c1 @ [(0, ?w)]\<rparr>"
  let ?c3 = "?c2\<lparr>c_flight := [] @ [], c_ready := c_ready ?c2 @ [(0, w_writer w')], c_st := toy_state\<rparr>"
  let ?c4 = "?c3\<lparr>c_ready := [] @ [], c_chan := c_chan ?c3 @ [(0, w_writer w')]\<rparr>"
  let ?c5 = "?c4\<lparr>c_chan := [], c_out := c_out ?c4 @ [(0, w_writer w')]\<rparr>"
  have s1: "?step ?c0 ?c1" by (intro conn_step.go conn_go.read) (simp_all add: conn_start_def r)
  have s2: "?step ?c1 ?c2" by (intro conn_step.go conn_go.acquire) (simp_all add: conn_start_def concurrentHandlers_def)
  have s3: "?step ?c2 ?c3" by (intro conn_step.go conn_go.handle [where w = ?w]) (simp_all add: conn_start_def rfc_lib_def w')
  have s4: "?step ?c3 ?c4" by (intro conn_step.go conn_go.finish) (simp_all add: conn_start_def concurrentHandlers_def)
  have s5: "?step ?c4 ?c5" by (intro conn_step.go conn_go.write_out) (simp_all add: conn_start_def)
  have c: "conn_reach rfc_lib ?tbl toy_state ?c5"
    by (rule conn_reach.step [OF conn_reach.step [OF conn_reach.step [OF conn_reach.step [OF conn_reach.step [OF conn_reach.start s1] s2] s3] s4] s5])
  then show ?thesis by (intro exI [of _ ?c5]) (simp add: conn_start_def new_response_def)
qed

section \<open>The answer to one request\<close>

text \<open>The reply that an error becomes: the header with its code, then its encoding.\<close>

definition error_reply :: "xdr_lib \<Rightarrow> u32 \<Rightarrow> RPCError \<Rightarrow> bytes" where
  "error_reply X xid r = reply_head X xid (Code r) @ MarshalBinary r"

text \<open>The zero bytes after the status in the error replies of the NFS procedures: attributes that are absent.\<close>

definition error_pad :: "u32 \<Rightarrow> nat" where
  "error_pad k = (if k = 14 then 16 else if k \<in> {2, 7, 8, 9, 10, 11, 12, 13, 15, 21} then 8 else if k \<in> {3, 4, 5, 6, 16, 17} then 4 else 0)"

lemma conn_err_fresh:
  "\<not> w_responded w \<Longrightarrow> conn_err X False w e = (None, w\<lparr>w_responded := True, w_writer := w_writer w @ error_reply X (w_xid w) (w_errorFmt w e)\<rparr>)"
  by (simp add: conn_err_def Let_def writeHeader_fresh Write_def error_reply_def)

lemma handle_error_exact:
  "handle_error X False e w = (None, if w_responded w then w
     else w\<lparr>w_responded := True, w_writer := w_writer w @ error_reply X (w_xid w) (w_errorFmt w (case e of Some e \<Rightarrow> e | None \<Rightarrow> RpcErr ResponseCodeSystemError))\<rparr>)"
  by (cases e) (simp_all add: handle_error_def conn_err_fresh)

lemma run_proc_error:
  assumes "run_proc X fmt q w s = Some (Some e, w1, s1)" "\<not> w_responded w"
  shows "w1 = (case fmt of None \<Rightarrow> w | Some f \<Rightarrow> w\<lparr>w_errorFmt := f\<rparr>)"
  using assms by (cases fmt) (auto simp: run_proc_def Let_def Write_fresh split: option.splits sum.splits prod.splits)

definition nfs_shape :: "xdr_lib \<Rightarrow> u32 \<Rightarrow> NFSStatus \<Rightarrow> u32 \<Rightarrow> 's HandleFunc \<Rightarrow> bool" where
  "nfs_shape X xid st' k f \<longleftrightarrow> (\<exists>fmt q. f = run_proc X fmt q \<and>
    error_reply X xid ((case fmt of None \<Rightarrow> basicErrorFormatter | Some g \<Rightarrow> g) (NfsErr st')) =
      reply_head X xid ResponseCodeSuccess @ be_put32 (nfsstat st') @ replicate (error_pad k) 0)"

lemma nfs_shapes:
  "error_pad k = 0 \<Longrightarrow> nfs_shape X xid st' k (run_proc X None q)"
  "n = error_pad k \<Longrightarrow> nfs_shape X xid st' k (run_proc X (Some (errFormatterWithBody (replicate n 0))) q)"
  unfolding nfs_shape_def by (rule exI [of _ None], simp add: error_reply_def, blast)
    (rule exI [of _ "Some (errFormatterWithBody (replicate n 0))"], simp add: error_reply_def, blast)

lemma nfs_error_shape:
  assumes "map_of (nfs_procs X V U) k = Some f" "k \<noteq> 0"
  shows "nfs_shape X xid st' k f"
proof -
  note fs = onGetAttr_def onSetAttr_def onLookup_def onAccess_def onReadLink_def onRead_def onWrite_def onCreate_def onMkdir_def onSymlink_def
    onMknod_def onRemove_def onRmDir_def onRename_def onLink_def onReadDir_def onReadDirPlus_def onFSStat_def onFSInfo_def onPathConf_def onCommit_def
  have "(k, f) \<in> set (nfs_procs X V U)" using assms(1) by (rule map_of_SomeD)
  moreover have "list_all (\<lambda>(k, f). k = 0 \<or> nfs_shape X xid st' k f) (nfs_procs X V U)"
    by (simp add: nfs_procs_def fs opAttrErrorFormatter_def wccDataErrorFormatter_def doubleWccErrorBody_def nfs_shapes error_pad_def)
  ultimately show ?thesis using assms(2) by (auto simp: list_all_iff)
qed

text \<open>
  C13. Every request is dispatched and answered.  The procedures of NFS version 3, of the mount and of the lock protocol are registered
  under their numbers, and nothing else is; a request for any other is answered with procedure unavailable and changes
  nothing.  Where the procedure returns, handling the request succeeds and leaves exactly one reply, with the transaction id of the
  request: the procedure's own, if it wrote one, and otherwise the header with the code of its error followed by the encoding of that
  error, as the procedure formats it (a system error, if it returned none).  An NFS error of a procedure is thus a reply of success at the
  level of RPC, the status in four bytes, and the zero bytes of the attributes that are absent from it.
\<close>
theorem nfs_request_answered:
  "map (handlerFor (registeredHandlers X V U) 100003) [0, 1, 2, 3, 4, 5, 6, 7, 8, 9, 10, 11, 12, 13, 14, 15, 16, 17, 18, 19, 20, 21] =
      map Some [onNull X U, onGetAttr X U, onSetAttr X U, onLookup X U, onAccess X U, onReadLink X U, onRead X U, onWrite X (srv_ID V) U,
        onCreate X U, onMkdir X U, onSymlink X U, onMknod X U, onRemove X U, onRmDir X U, onRename X U, onLink X U, onReadDir X U,
        onReadDirPlus X (ForWindowsClients V) U, onFSStat X U, onFSInfo X U, onPathConf X U, onCommit X (srv_ID V) U] \<and>
    map (handlerFor (registeredHandlers X V U) 100005) [0, 1, 3, 4, 5] = map Some [onMountNull X U, onMount X U, onUMount X U, onUMountAll X U, onMountExport X U] \<and>
    map (handlerFor (registeredHandlers X V U) 100021) [0, 2, 3, 4, 20, 21, 22, 23] =
      map Some [onLockNull X U, onLockUnlockCancel X U, onLockUnlockCancel X U, onLockUnlockCancel X U, onLockShare X U, onLockUnshare X U,
        onLockUnlockCancel X U, onLockFreeAll X U] \<and>
    (\<not> (prog = 100003 \<and> prc \<le> 21 \<or> prog = 100005 \<and> prc \<in> {0, 1, 3, 4, 5} \<or> prog = 100021 \<and> prc \<in> {0, 2, 3, 4, 20, 21, 22, 23}) \<longrightarrow>
       (\<exists>w'. conn_handle X (registeredHandlers X V U) False (new_response xid prog prc args) s = Some (None, w', s) \<and>
          w_writer w' = reply_head X xid ResponseCodeProcUnavailable)) \<and>
    (\<forall>f e w1 s1. handlerFor (registeredHandlers X V U) prog prc = Some f \<and> f (new_response xid prog prc args) s = Some (e, w1, s1) \<longrightarrow>
       (\<exists>w'. conn_handle X (registeredHandlers X V U) False (new_response xid prog prc args) s = Some (None, w', s1) \<and> one_reply X xid (w_writer w') \<and>
          w_writer w' = (if w_responded w1 then w_writer w1
            else let r = w_errorFmt w1 (case e of Some e \<Rightarrow> e | None \<Rightarrow> RpcErr ResponseCodeSystemError) in reply_head X xid (Code r) @ MarshalBinary r) \<and>
          (\<forall>st'. prog = 100003 \<and> prc \<noteq> 0 \<and> e = Some (NfsErr st') \<longrightarrow>
             w_writer w' = reply_head X xid ResponseCodeSuccess @ be_put32 (nfsstat st') @ replicate (error_pad prc) 0)))"
proof (intro conjI impI allI)
  let ?w = "new_response xid prog prc args"
  have w: "\<not> w_responded ?w" "w_writer ?w = []" "w_xid ?w = xid" "w_errorFmt ?w = basicErrorFormatter" "w_prog ?w = prog" "w_proc ?w = prc"
    by (simp_all add: new_response_def)
  note reg = handlerFor_registered lockServiceID_def mountServiceID_def nfsServiceID_def
  show "map (handlerFor (registeredHandlers X V U) 100003) [0, 1, 2, 3, 4, 5, 6, 7, 8, 9, 10, 11, 12, 13, 14, 15, 16, 17, 18, 19, 20, 21] =
      map Some [onNull X U, onGetAttr X U, onSetAttr X U, onLookup X U, onAccess X U, onReadLink X U, onRead X U, onWrite X (srv_ID V) U,
        onCreate X U, onMkdir X U, onSymlink X U, onMknod X U, onRemove X U, onRmDir X U, onRename X U, onLink X U, onReadDir X U,
        onReadDirPlus X (ForWindowsClients V) U, onFSStat X U, onFSInfo X U, onPathConf X U, onCommit X (srv_ID V) U]"
    by (simp add: reg nfs_procs_def)
  show "map (handlerFor (registeredHandlers X V U) 100005) [0, 1, 3, 4, 5] = map Some [onMountNull X U, onMount X U, onUMount X U, onUMountAll X U, onMountExport X U]"
    by (simp add: reg mount_procs_def)
  show "map (handlerFor (registeredHandlers X V U) 100021) [0, 2, 3, 4, 20, 21, 22, 23] =
      map Some [onLockNull X U, onLockUnlockCancel X U, onLockUnlockCancel X U, onLockUnlockCancel X U, onLockShare X U, onLockUnshare X U,
        onLockUnlockCancel X U, onLockFreeAll X U]"
    by (simp add: reg lock_procs_def)
  show "\<exists>w'. conn_handle X (registeredHandlers X V U) False ?w s = Some (None, w', s) \<and> w_writer w' = reply_head X xid ResponseCodeProcUnavailable"
    if n: "\<not> (prog = 100003 \<and> prc \<le> 21 \<or> prog = 100005 \<and> prc \<in> {0, 1, 3, 4, 5} \<or> prog = 100021 \<and> prc \<in> {0, 2, 3, 4, 20, 21, 22, 23})"
  proof -
    have "handlerFor (registeredHandlers X V U) prog prc = None" using n by (auto simp: reg nfs_procs_def mount_procs_def lock_procs_def)
    then show ?thesis using w by (simp add: conn_handle_def conn_err_fresh error_reply_def)
  qed
  fix f e w1 s1 assume f: "handlerFor (registeredHandlers X V U) prog prc = Some f \<and> f ?w s = Some (e, w1, s1)"
  let ?r = "w_errorFmt w1 (case e of Some e \<Rightarrow> e | None \<Rightarrow> RpcErr ResponseCodeSystemError)"
  have pr: "proper X xid w1" using handler_proper [of X V U prog prc f] f w unfolding proper_proc_def by metis
  define w' where "w' = (if w_responded w1 then w1 else w1\<lparr>w_responded := True, w_writer := w_writer w1 @ error_reply X (w_xid w1) ?r\<rparr>)"
  have c: "conn_handle X (registeredHandlers X V U) False ?w s = Some (None, w', s1)" using f w by (simp add: conn_handle_def handle_error_exact w'_def)
  have o: "w_writer w' = (if w_responded w1 then w_writer w1 else reply_head X xid (Code ?r) @ MarshalBinary ?r)"
    using pr by (simp add: w'_def proper_def error_reply_def)
  moreover have "one_reply X xid (w_writer w')" using pr unfolding o by (auto simp: proper_def)
  moreover have "w_writer w' = reply_head X xid ResponseCodeSuccess @ be_put32 (nfsstat st') @ replicate (error_pad prc) 0"
    if n: "prog = 100003" "prc \<noteq> 0" "e = Some (NfsErr st')" for st'
  proof -
    have "map_of (nfs_procs X V U) prc = Some f" using f n(1) by (simp add: reg)
    from nfs_error_shape [OF this n(2), of xid st'] obtain fmt q where q: "f = run_proc X fmt q"
      "error_reply X xid ((case fmt of None \<Rightarrow> basicErrorFormatter | Some g \<Rightarrow> g) (NfsErr st')) =
        reply_head X xid ResponseCodeSuccess @ be_put32 (nfsstat st') @ replicate (error_pad prc) 0" unfolding nfs_shape_def by blast
    have "w1 = (case fmt of None \<Rightarrow> ?w | Some g \<Rightarrow> ?w\<lparr>w_errorFmt := g\<rparr>)" using run_proc_error [of X fmt q ?w s] f n(3) w(1) q(1) by blast
    then have "\<not> w_responded w1" "?r = (case fmt of None \<Rightarrow> basicErrorFormatter | Some g \<Rightarrow> g) (NfsErr st')"
      using w n(3) by (cases fmt; simp)+
    then show ?thesis using q(2) unfolding o by (simp add: error_reply_def)
  qed
  ultimately show "\<exists>w'. conn_handle X (registeredHandlers X V U) False ?w s = Some (None, w', s1) \<and> one_reply X xid (w_writer w') \<and>
      w_writer w' = (if w_responded w1 then w_writer w1 else let r = ?r in reply_head X xid (Code r) @ MarshalBinary r) \<and>
      (\<forall>st'. prog = 100003 \<and> prc \<noteq> 0 \<and> e = Some (NfsErr st') \<longrightarrow>
         w_writer w' = reply_head X xid ResponseCodeSuccess @ be_put32 (nfsstat st') @ replicate (error_pad prc) 0)"
    using c unfolding Let_def by blast
qed

theorem nfs_request_answered_witness:
  "\<exists>w'. conn_handle rfc_xdr (registeredHandlers rfc_xdr \<lparr>srv_ID = [], ForWindowsClients = False\<rparr> (nfsHandler toy_front)) False
     (new_response 7 100003 6 []) toy_state = Some (None, w', toy_state) \<and>
     w_writer w' = reply_head rfc_xdr 7 ResponseCodeSuccess @ be_put32 22 @ [0, 0, 0, 0]"
proof -
  let ?V = "\<lparr>srv_ID = [], ForWindowsClients = False\<rparr> :: server" and ?U = "nfsHandler toy_front" and ?w = "new_response 7 100003 6 []"
  have h: "handlerFor (registeredHandlers rfc_xdr ?V ?U) 100003 6 = Some (onRead rfc_xdr ?U)"
    by (simp add: handlerFor_registered lockServiceID_def mountServiceID_def nfsServiceID_def nfs_procs_def)
  have "r_readArgs rfc_xdr [] = None" by (simp add: r_readArgs_def rfc_xdr_def)
  then obtain w1 where "onRead rfc_xdr ?U ?w toy_state = Some (Some (NfsErr NFSStatusInval), w1, toy_state)"
    by (simp add: onRead_def run_proc_def Let_def read_body_def arg_def fail_def new_response_def)
  with nfs_request_answered [of rfc_xdr ?V ?U 100003 6 7 "[]" toy_state] h obtain w' where
    "conn_handle rfc_xdr (registeredHandlers rfc_xdr ?V ?U) False ?w toy_state = Some (None, w', toy_state)"
    "w_writer w' = reply_head rfc_xdr 7 ResponseCodeSuccess @ be_put32 (nfsstat NFSStatusInval) @ replicate (error_pad 6) 0" by fastforce
  moreover have "error_pad 6 = 4" by (simp add: error_pad_def)
  moreover have "replicate 4 (0 :: u8) = [0, 0, 0, 0]" by (simp add: numeral_eq_Suc)
  moreover have "nfsstat NFSStatusInval = 22" by simp
  ultimately show ?thesis by metis
qed

section \<open>Sessions that end\<close>

text \<open>
  Requests whose handlers surely return: those for the mount and lock services, for programs and
  procedures that are not there, NULL, and READ of the file with the handle \<open>h\<close>.
\<close>

definition sure_request :: "xdr_lib \<Rightarrow> bytes \<Rightarrow> response \<Rightarrow> bool" where
  "sure_request X h w \<longleftrightarrow> w_prog w \<noteq> nfsServiceID \<or> w_proc w = 0 \<or> 21 < w_proc w \<or>
     (w_proc w = 6 \<and> (case r_readArgs X (w_body w) of None \<Rightarrow> True | Some a \<Rightarrow> ra_Handle a = h))"

definition stays :: "'s HandleFunc \<Rightarrow> bool" where
  "stays f \<longleftrightarrow> (\<forall>w s. \<exists>e w'. f w s = Some (e, w', s))"

lemma stays_answers:
  "stays (answer_empty X)" "stays (answer X b)" "stays (with_header X (answer X b))"
  by (auto simp: stays_def answer_empty_def answer_def with_header_def split: prod.split option.split)

lemma stays_read: "(\<And>x. stays (k x)) \<Longrightarrow> stays (\<lambda>w s. case rd (w_body w) of None \<Rightarrow> Some (Some e, w, s) | Some x \<Rightarrow> k x w s)"
  unfolding stays_def by (auto split: option.split)

lemma stays_mount: "stays (onMount X (nfsHandler F))"
proof -
  have "u_Mount (nfsHandler F) d s = ((0, [0]), s)" "u_ToHandle (nfsHandler F) [] s = (zeroHandle, s)" for d s
    by (simp_all add: nfsHandler_def ToHandle_def)
  then show ?thesis by (auto simp: stays_def onMount_def with_header_def answer_def Let_def split: option.split prod.split)
qed

lemma stays_others:
  "(k, f) \<in> set (mount_procs X (nfsHandler F) @ lock_procs X (nfsHandler F)) \<Longrightarrow> stays f"
proof -
  have "stays (onLockShareUnshare X)" "stays (onLockUnlockCancel X (nfsHandler F))" "stays (onLockFreeAll X (nfsHandler F))" "stays (onUMount X (nfsHandler F))"
    by (auto simp: stays_def onLockShareUnshare_def onLockUnlockCancel_def onLockFreeAll_def onUMount_def answer_empty_def answer_def with_header_def
        split: option.split prod.split)
  then have "list_all (\<lambda>(k, f). stays f) (mount_procs X (nfsHandler F) @ lock_procs X (nfsHandler F))"
    by (simp add: mount_procs_def lock_procs_def onMountNull_def onUMountAll_def onMountExport_def onLockNull_def onLockShare_def onLockUnshare_def stays_answers stays_mount)
  then show "(k, f) \<in> set (mount_procs X (nfsHandler F) @ lock_procs X (nfsHandler F)) \<Longrightarrow> stays f" by (auto simp: list_all_iff)
qed

lemma OnNFSRead_sure:
  assumes "file_inv F mv mh p h name fi c cnt s"
  shows "\<exists>r s'. OnNFSRead F h off n s = Some (Inr r, s') \<and> file_inv F mv mh p h name fi c cnt s'"
proof -
  have "length h = 64" using assms by (simp add: file_inv_def at_module_path_def)
  then show ?thesis using file_contents [OF assms] by (auto simp: OnNFSRead_def Let_def)
qed

lemma onRead_sure:
  assumes "file_inv F mv mh p h name fi c cnt s" "case r_readArgs X (w_body w) of None \<Rightarrow> True | Some a \<Rightarrow> ra_Handle a = h"
  shows "\<exists>e w' s'. onRead X (nfsHandler F) w s = Some (e, w', s') \<and> file_inv F mv mh p h name fi c cnt s'"
proof (cases "r_readArgs X (w_body w)")
  case None
  then show ?thesis using assms(1) by (simp add: onRead_def run_proc_def Let_def read_body_def arg_def fail_def)
next
  case (Some a)
  obtain r s' where r: "OnNFSRead F h (ra_Offset a) (ra_Count a) s = Some (Inr r, s')" "file_inv F mv mh p h name fi c cnt s'"
    using OnNFSRead_sure [OF assms(1)] by blast
  have "u_OnNFSRead (nfsHandler F) = Some (OnNFSRead F)" by (simp add: nfsHandler_def)
  then show ?thesis using Some assms(2) r by (simp add: onRead_def run_proc_def Let_def read_body_def arg_def read_direct_def ret_def split: prod.split option.split)
qed

lemma sure_handler:
  assumes "file_inv F mv mh p h name fi c cnt s" "sure_request X h w" "handlerFor (registeredHandlers X V (nfsHandler F)) (w_prog w) (w_proc w) = Some f"
  shows "\<exists>e w' s'. f w s = Some (e, w', s') \<and> file_inv F mv mh p h name fi c cnt s'"
proof (cases "w_prog w = nfsServiceID")
  case False
  then obtain k where "(k, f) \<in> set (mount_procs X (nfsHandler F) @ lock_procs X (nfsHandler F))"
    using assms(3) by (auto simp: handlerFor_registered dest: map_of_SomeD split: if_splits)
  from stays_others [OF this] show ?thesis using assms(1) unfolding stays_def by meson
next
  case True
  then have m: "map_of (nfs_procs X V (nfsHandler F)) (w_proc w) = Some f"
    using assms(3) by (simp add: handlerFor_registered nfsServiceID_def lockServiceID_def mountServiceID_def)
  consider "w_proc w = 0" | "21 < w_proc w" | "w_proc w = 6" "case r_readArgs X (w_body w) of None \<Rightarrow> True | Some a \<Rightarrow> ra_Handle a = h"
    using assms(2) True by (auto simp: sure_request_def)
  then show ?thesis
  proof cases
    case 1
    then have "f = onNull X (nfsHandler F)" using m by (simp add: nfs_procs_def)
    then show ?thesis using assms(1) by (simp add: onNull_def split: prod.split)
  next
    case 2
    then show ?thesis using m by (auto simp: nfs_procs_def split: if_splits)
  next
    case 3
    then have "f = onRead X (nfsHandler F)" using m by (simp add: nfs_procs_def)
    then show ?thesis using onRead_sure [OF assms(1) 3(2)] by simp
  qed
qed

interpretation gomodfs_nfs: nfs_service L "registeredHandlers (cl_xdr L) V (nfsHandler F)" "file_inv F mv mh p h name fi c cnt" "sure_request (cl_xdr L) h"
  for L V F mv mh p h name fi c cnt
proof
  let ?tbl = "registeredHandlers (cl_xdr L) V (nfsHandler F)"
  have r: "\<exists>e w' s'. conn_handle (cl_xdr L) ?tbl False w s = Some (e, w', s') \<and> file_inv F mv mh p h name fi c cnt s'"
    if "file_inv F mv mh p h name fi c cnt s" "sure_request (cl_xdr L) h w" for w s
    using that sure_handler [OF that, of V] by (fastforce simp: conn_handle_def split: option.split prod.split)
  show "conn_handle (cl_xdr L) ?tbl False w s \<noteq> None" if "file_inv F mv mh p h name fi c cnt s" "sure_request (cl_xdr L) h w" for w s
    using r [OF that] by auto
  show "file_inv F mv mh p h name fi c cnt s'" if "file_inv F mv mh p h name fi c cnt s" "sure_request (cl_xdr L) h w"
    "conn_handle (cl_xdr L) ?tbl False w s = Some (e, w', s')" for w s e w' s'
    using r [OF that(1,2)] that(3) by auto
qed

text \<open>
  C3. Sessions end with everything answered: a client that pipelines any number of mount and lock calls,
  NULL calls, unknown calls and READs of a known file has each of them answered, in every
  interleaving of the connection's goroutines in which no read or write on the network fails: there
  is no deadlock and no livelock, since a run has at most five steps for each byte received, and where
  no step is left each request has exactly one reply, with its transaction id.
\<close>
theorem nfs_sessions_answered:
  assumes "file_inv F mv mh p h name fi c cnt s" "list_all (sure_request (cl_xdr L) h) (requests L b)"
    "conn_run L (registeredHandlers (cl_xdr L) V (nfsHandler F)) n (conn_start b s) k"
  shows "n \<le> 5 * length b \<and>
    ((\<exists>k'. conn_go L (registeredHandlers (cl_xdr L) V (nfsHandler F)) k k') \<or>
     (mset (map fst (c_out k)) = mset [0..<length (requests L b)] \<and>
      (\<forall>(i, msg) \<in> set (c_out k). one_reply (cl_xdr L) (w_xid (requests L b ! i)) msg)))"
  using gomodfs_nfs.all_answered [OF assms] .

definition two_calls :: bytes where
  "two_calls = frame (nfs_call 7 100003 0 []) @ frame (nfs_call 8 100003 6 (x_opaque rfc_xdr toy_file_handle @ x_u64 rfc_xdr 0 @ x_u32 rfc_xdr 2)) @ []"

theorem nfs_sessions_answered_witness:
  "\<exists>n k. conn_run rfc_lib (registeredHandlers rfc_xdr \<lparr>srv_ID = [], ForWindowsClients = False\<rparr> (nfsHandler toy_front)) n (conn_start two_calls toy_file_state) k \<and>
     mset (map fst (c_out k)) = {#0, 1#}"
proof -
  let ?V = "\<lparr>srv_ID = [], ForWindowsClients = False\<rparr> :: server" and ?a = "x_opaque rfc_xdr toy_file_handle @ x_u64 rfc_xdr 0 @ x_u32 rfc_xdr 2"
  have l: "length toy_file_handle = 64" by code_simp
  have la: "length ?a \<le> 2 ^ 20" using xdr_okD(4,5) [OF rfc_xdr_ok] l by (simp add: rfc_xdr_def opaque_pad_def be_put64_def)
  have r: "requests rfc_lib two_calls = [new_response 7 100003 0 [], new_response 8 100003 6 ?a]"
    unfolding two_calls_def by (simp only: requests_call [OF la] requests_call [of "[]", simplified] requests_Nil)
  have "r_readArgs rfc_xdr ?a = Some \<lparr>ra_Handle = toy_file_handle, ra_Offset = 0, ra_Count = 2\<rparr>"
    using xdr_okD(1) [OF rfc_xdr_ok, of 2 "[]"] l by (simp add: r_readArgs_def xdr_okD(2,3) [OF rfc_xdr_ok])
  then have g: "list_all (sure_request (cl_xdr rfc_lib) toy_file_handle) (requests rfc_lib two_calls)"
    unfolding r by (simp add: sure_request_def new_response_def nfsServiceID_def rfc_lib_def)
  obtain n k where k: "conn_run rfc_lib (registeredHandlers (cl_xdr rfc_lib) ?V (nfsHandler toy_front)) n (conn_start two_calls toy_file_state) k"
    "\<nexists>k'. conn_go rfc_lib (registeredHandlers (cl_xdr rfc_lib) ?V (nfsHandler toy_front)) k k'"
    using run_ends by blast
  from nfs_sessions_answered [OF toy_file_inv g k(1)] k(2) have "mset (map fst (c_out k)) = mset [0..<2]" unfolding r by (simp add: numeral_2_eq_2)
  moreover have "[0..<2] = [0, 1 :: nat]" by (simp add: upt_rec)
  ultimately show ?thesis using k(1) by (auto simp: rfc_lib_def)
qed

end
