(* ===== verification/Nfs_Listener.thy ===== *)
theory Nfs_Listener
  imports Nfs_Sessions
begin

text \<open>
  The server around the connections, \<^verbatim>\<open>Server.Serve\<close> of \<^verbatim>\<open>server.go\<close>: the accept loop with its pauses, and any
  number of connections that are served concurrently and share the state of the file system.
\<close>

section \<open>The accept loop\<close>

text \<open>What \<^verbatim>\<open>Accept\<close> gives: a connection, an error that is a timeout, or another error.  Times are in nanoseconds.\<close>

datatype accepted = Conn | Timeout | Failed err

definition millisecond :: int where "millisecond = 1000000"
definition maxDelay :: int where "maxDelay = 1000 * millisecond"

text \<open>
  \<open>sv_sleeps\<close> is the trace of the pauses and \<open>sv_result\<close> what \<^verbatim>\<open>Serve\<close> returned; connections go on being
  served after that.
\<close>

record 's nserver =
  sv_delay :: int
  sv_sleeps :: "int list"
  sv_conns :: "'s nconn list"
  sv_result :: "err option"
  sv_st :: 's

text \<open>\<open>rnd\<close> is what reading eight random bytes gives.\<close>

definition serve_id :: "err + bytes \<Rightarrow> server \<Rightarrow> err + server" where
  "serve_id rnd V =
     (if srv_ID V = replicate 8 0
      then (case rnd of Inl e \<Rightarrow> Inl e | Inr b \<Rightarrow> Inr (V\<lparr>srv_ID := b\<rparr>))
      else Inr V)"

definition serve_start :: "'s \<Rightarrow> 's nserver" where
  "serve_start s = \<lparr>sv_delay = 0, sv_sleeps = [], sv_conns = [], sv_result = None, sv_st = s\<rparr>"

definition next_delay :: "int \<Rightarrow> int" where
  "next_delay d =
     (let d = (if d = 0 then 5 * millisecond else d * 2)
      in if d > maxDelay then maxDelay else d)"

definition serve_accept :: "accepted \<Rightarrow> 's nserver \<Rightarrow> 's nserver" where
  "serve_accept a v =
     (case a of
        Conn \<Rightarrow> v\<lparr>sv_delay := 0, sv_conns := sv_conns v @ [conn_start [] (sv_st v)]\<rparr>
      | Timeout \<Rightarrow> let d = next_delay (sv_delay v) in v\<lparr>sv_delay := d, sv_sleeps := sv_sleeps v @ [d]\<rparr>
      | Failed e \<Rightarrow> v\<lparr>sv_result := Some e\<rparr>)"

text \<open>The loop alone, over what the listener gives; it returns at the first error that is no timeout.\<close>

fun serve_loop :: "accepted list \<Rightarrow> 's nserver \<Rightarrow> 's nserver" where
  "serve_loop [] v = v"
| "serve_loop (a # as) v = (let v' = serve_accept a v in if sv_result v' \<noteq> None then v' else serve_loop as v')"

section \<open>The server\<close>

text \<open>The listener gives something, or one of the connections makes a step on the shared state.\<close>

inductive server_step :: "conn_lib \<Rightarrow> 's handlers \<Rightarrow> 's nserver \<Rightarrow> 's nserver \<Rightarrow> bool" for L tbl where
  listen: "sv_result v = None \<Longrightarrow> server_step L tbl v (serve_accept a v)"
| serve: "i < length (sv_conns v) \<Longrightarrow> conn_step L tbl ((sv_conns v ! i)\<lparr>c_st := sv_st v\<rparr>) c \<Longrightarrow>
    server_step L tbl v (v\<lparr>sv_conns := (sv_conns v)[i := c], sv_st := c_st c\<rparr>)"

inductive server_reach :: "conn_lib \<Rightarrow> 's handlers \<Rightarrow> 's \<Rightarrow> 's nserver \<Rightarrow> bool" for L tbl s where
  boot: "server_reach L tbl s (serve_start s)"
| move: "server_reach L tbl s v \<Longrightarrow> server_step L tbl v v' \<Longrightarrow> server_reach L tbl s v'"

inductive_cases server_stepE: "server_step L tbl v v'"

definition server_ok :: "xdr_lib \<Rightarrow> 's nserver \<Rightarrow> bool" where
  "server_ok X v \<longleftrightarrow> 0 \<le> sv_delay v \<and> sv_delay v \<le> maxDelay \<and> list_all (\<lambda>d. 0 < d \<and> d \<le> maxDelay) (sv_sleeps v) \<and>
     list_all (conn_ok X) (sv_conns v)"

lemma next_delay_bounds: "0 \<le> d \<Longrightarrow> 0 < next_delay d \<and> next_delay d \<le> maxDelay"
  by (auto simp: next_delay_def Let_def maxDelay_def millisecond_def)

lemma conn_ok_shared: "conn_ok X (c\<lparr>c_st := s\<rparr>) = conn_ok X c"
  by (simp add: conn_ok_def live_def)

lemma accept_ok: "server_ok X v \<Longrightarrow> server_ok X (serve_accept a v)"
  using next_delay_bounds [of "sv_delay v"]
  by (cases a) (auto simp: server_ok_def serve_accept_def Let_def nfs_server.start_ok maxDelay_def millisecond_def conn_ok_def conn_start_def live_def)

context nfs_table
begin

lemma server_step_ok:
  assumes "server_step L tbl v v'" "server_ok (cl_xdr L) v"
  shows "server_ok (cl_xdr L) v'"
  using assms(1)
proof cases
  case (listen a)
  then show ?thesis using accept_ok assms(2) by blast
next
  case (serve i c)
  have "ok (sv_conns v ! i)" using serve(2) assms(2) by (simp add: server_ok_def list_all_length)
  then have "ok c" using step_ok [OF serve(3)] by (simp add: conn_ok_shared)
  then show ?thesis using serve(1) assms(2) by (auto simp: server_ok_def list_all_iff dest!: subsetD [OF set_update_subset_insert])
qed

lemma server_reach_ok: "server_reach L tbl s v \<Longrightarrow> server_ok (cl_xdr L) v"
proof (induction rule: server_reach.induct)
  case boot
  show ?case by (simp add: server_ok_def serve_start_def maxDelay_def millisecond_def)
next
  case (move v v')
  then show ?case using server_step_ok by blast
qed

end

text \<open>A server with one client is a connection.\<close>

lemma server_of_conn:
  assumes "conn_reach L tbl s c"
  shows "server_reach L tbl s \<lparr>sv_delay = 0, sv_sleeps = [], sv_conns = [c], sv_result = None, sv_st = c_st c\<rparr>"
  using assms
proof (induction rule: conn_reach.induct)
  case (start b)
  let ?v = "serve_accept Conn (serve_start s)"
  have "server_reach L tbl s ?v" by (intro server_reach.move [OF server_reach.boot] server_step.listen) (simp add: serve_start_def)
  moreover have "conn_step L tbl ((sv_conns ?v ! 0)\<lparr>c_st := sv_st ?v\<rparr>) (conn_start b s)"
    using conn_step.recv [of L tbl "conn_start [] s" b] by (simp add: serve_accept_def serve_start_def conn_start_def)
  then have "server_step L tbl ?v (?v\<lparr>sv_conns := (sv_conns ?v)[0 := conn_start b s], sv_st := c_st (conn_start b s)\<rparr>)"
    by (rule server_step.serve [rotated]) (simp add: serve_accept_def serve_start_def)
  ultimately have "server_reach L tbl s (?v\<lparr>sv_conns := (sv_conns ?v)[0 := conn_start b s], sv_st := c_st (conn_start b s)\<rparr>)"
    by (rule server_reach.move)
  then show ?case by (simp add: serve_accept_def serve_start_def conn_start_def)
next
  case (step c c')
  let ?v = "\<lparr>sv_delay = 0, sv_sleeps = [], sv_conns = [c], sv_result = None, sv_st = c_st c\<rparr>"
  have "server_step L tbl ?v (?v\<lparr>sv_conns := (sv_conns ?v)[0 := c'], sv_st := c_st c'\<rparr>)"
    using step.hyps(2) by (intro server_step.serve) simp_all
  from server_reach.move [OF step.IH this] show ?case by simp
qed

text \<open>
  C5. Replies are never mixed up, on any connection of the server: in every state that any interleaving of the listener
  and of the readers, handlers and writers of all connections can reach, whatever bytes the clients send and whatever
  fails, a connection runs at most 32 handlers, no request has been answered twice, and every record written is one whole
  reply with the transaction id of the request it answers; only once the connection is being given up
  can a record be empty.
\<close>
theorem nfs_replies_matched:
  assumes "server_reach L (registeredHandlers (cl_xdr L) V U) s v" "c \<in> set (sv_conns v)"
  shows "length (c_flight c) + length (c_ready c) \<le> 32 \<and> distinct (map fst (c_out c)) \<and>
    (\<forall>(i, msg) \<in> set (c_out c). i < length (c_reqs c) \<and>
       (one_reply (cl_xdr L) (w_xid (c_reqs c ! i)) msg \<or> (msg = [] \<and> c_cancelled c)))"
proof -
  have "conn_ok (cl_xdr L) c" using nfs_server.server_reach_ok [OF assms(1)] assms(2) by (simp add: server_ok_def list_all_iff)
  then show ?thesis by (rule conn_ok_replies)
qed

theorem nfs_replies_matched_witness:
  "\<exists>v c. server_reach rfc_lib (registeredHandlers rfc_xdr \<lparr>srv_ID = [], ForWindowsClients = False\<rparr> (nfsHandler toy_front)) toy_state v \<and>
     c \<in> set (sv_conns v) \<and> map fst (c_out c) = [0] \<and> length (c_flight c) + length (c_ready c) \<le> 32 \<and> one_reply rfc_xdr 7 (snd (c_out c ! 0))"
proof -
  let ?U = "nfsHandler toy_front" and ?V = "\<lparr>srv_ID = [], ForWindowsClients = False\<rparr> :: server"
  obtain c where c: "conn_reach rfc_lib (registeredHandlers rfc_xdr ?V ?U) toy_state c" "map fst (c_out c) = [0]" "w_xid (c_reqs c ! 0) = 7" "\<not> c_cancelled c"
    using null_answered by (elim exE conjE) (rule that)
  let ?v = "\<lparr>sv_delay = 0, sv_sleeps = [], sv_conns = [c], sv_result = None, sv_st = c_st c\<rparr>"
  have r: "server_reach rfc_lib (registeredHandlers rfc_xdr ?V ?U) toy_state ?v" by (rule server_of_conn [OF c(1)])
  obtain msg where o: "c_out c = [(0, msg)]" using c(2) by (cases "c_out c") auto
  have x: "cl_xdr rfc_lib = rfc_xdr" by (simp add: rfc_lib_def)
  have i: "c \<in> set (sv_conns ?v)" by simp
  note m = nfs_replies_matched [of rfc_lib ?V ?U toy_state ?v c, unfolded x, OF r i]
  have "one_reply rfc_xdr 7 (snd (c_out c ! 0))" using m c(3,4) unfolding o by simp
  then show ?thesis by (intro exI [of _ ?v] exI [of _ c] conjI r i c(2) conjunct1 [OF m])
qed

section \<open>Pauses and connections\<close>

text \<open>The pause after the \<open>k\<close>-th timeout in a row, and those of a whole run.\<close>

definition pause :: "nat \<Rightarrow> int" where
  "pause k = min (5 * millisecond * 2 ^ k) maxDelay"

fun pauses :: "nat \<Rightarrow> accepted list \<Rightarrow> int list" where
  "pauses k [] = []"
| "pauses k (Conn # as) = pauses 0 as"
| "pauses k (Timeout # as) = pause k # pauses (Suc k) as"
| "pauses k (Failed e # as) = []"

fun first_failure :: "accepted list \<Rightarrow> err option" where
  "first_failure [] = None"
| "first_failure (Failed e # as) = Some e"
| "first_failure (_ # as) = first_failure as"

fun started :: "accepted list \<Rightarrow> nat" where
  "started [] = 0"
| "started (Conn # as) = Suc (started as)"
| "started (Timeout # as) = started as"
| "started (Failed e # as) = 0"

lemma next_delay_pause: "next_delay 0 = pause 0" "next_delay (pause k) = pause (Suc k)"
proof -
  show "next_delay 0 = pause 0" by (simp add: next_delay_def pause_def maxDelay_def millisecond_def)
  have "(0 :: int) < 2 ^ k" by simp
  then show "next_delay (pause k) = pause (Suc k)"
    unfolding next_delay_def pause_def Let_def maxDelay_def millisecond_def by (simp add: min_def)
qed

lemma serve_loop_spec:
  assumes "sv_result v = None" "next_delay (sv_delay v) = pause k"
  shows "sv_sleeps (serve_loop as v) = sv_sleeps v @ pauses k as \<and>
    sv_conns (serve_loop as v) = sv_conns v @ replicate (started as) (conn_start [] (sv_st v)) \<and>
    sv_result (serve_loop as v) = first_failure as \<and> sv_st (serve_loop as v) = sv_st v"
  using assms
proof (induction as arbitrary: v k)
  case (Cons a as)
  show ?case
  proof (cases a)
    case Conn
    then show ?thesis using Cons.IH [of "serve_accept Conn v" 0] Cons.prems by (simp add: serve_accept_def next_delay_pause replicate_app_Cons_same)
  next
    case Timeout
    then show ?thesis using Cons.IH [of "serve_accept Timeout v" "Suc k"] Cons.prems by (simp add: serve_accept_def next_delay_pause Let_def)
  next
    case (Failed e)
    then show ?thesis using Cons.prems by (simp add: serve_accept_def Let_def)
  qed
qed simp

text \<open>
  C14. The accept loop starts one connection for each one accepted, each with nothing read, until the first error
  that is no timeout, which it returns; after the \<open>k\<close>-th timeout in a row it pauses for \<open>5 \<cdot> 2 ^ k\<close> milliseconds, at
  most one second, and an accepted connection ends the row.
\<close>
theorem serve_accepts_exactly:
  "sv_conns (serve_loop as (serve_start s)) = replicate (started as) (conn_start [] s) \<and>
   sv_result (serve_loop as (serve_start s)) = first_failure as \<and>
   sv_sleeps (serve_loop as (serve_start s)) = pauses 0 as \<and>
   list_all (\<lambda>d. 0 < d \<and> d \<le> 1000000000) (sv_sleeps (serve_loop as (serve_start s)))"
proof -
  have "list_all (\<lambda>d. 0 < d \<and> d \<le> 1000000000) (pauses k as)" for k
    by (induction k as rule: pauses.induct) (auto simp: pause_def maxDelay_def millisecond_def)
  then show ?thesis using serve_loop_spec [of "serve_start s" 0 as] by (simp add: serve_start_def next_delay_pause)
qed

end
