(* ===== verification/Front_Webdav.thy ===== *)
theory Front_Webdav
  imports Nfs_Frontend Nfs_Writes
begin

unbundle bit_operations_syntax

text \<open>
  The WebDAV front end, \<^verbatim>\<open>webdav.go\<close>: the file system it gives to \<^verbatim>\<open>golang.org/x/net/webdav\<close> and the files
  it opens, over the state and environment of \<^theory_text>\<open>Nfs_Frontend\<close>, and which requests it answers itself.
\<close>

section \<open>Looking up names\<close>

text \<open>A file info as the WebDAV server and the WinFsp driver see it; only a status file has no true size.\<close>

definition plain_info :: "gotime \<Rightarrow> string \<Rightarrow> int \<Rightarrow> os_info" where
  "plain_info now name sz = reg_info now (reg_file name sz 0)"

definition tsgo_contents :: "gmPath \<Rightarrow> bytes" where
  "tsgo_contents dp = to_bytes (tsgoExtractedFileContents (tsgo_hash (ModVersion dp)))"

text \<open>\<^verbatim>\<open>Failed to get\<close> of a metadata file is an I/O error.\<close>

definition meta_or_EIO :: "('st, 'h) front_env \<Rightarrow> gmPath \<Rightarrow> (('st, 'h) front, bytes) call" where
  "meta_or_EIO F dp s =
     (case lift_res (getMetaFileByExt (fe_fs F) (ModVersion dp) (CacheDownloadFileExt dp)) s of
        None \<Rightarrow> None
      | Some (Inl e, s) \<Rightarrow> Some (Inl EIO, s)
      | Some (Inr v, s) \<Rightarrow> Some (Inr v, s))"

definition stat_in_zip :: "('st, 'h) front_env \<Rightarrow> gmPath \<Rightarrow> (('st, 'h) front, os_info) call" where
  "stat_in_zip F dp =
     cbind (lift_res (getZipRoot (fe_fs F) (ModVersion dp))) (\<lambda>mh s.
     case Stat (Store (fe_fs F)) (st (f_fs s)) mh (Path dp) of
       Inl e \<Rightarrow> cfail (if errors_Is e ErrNotExist then ErrNotExist else e) s
     | Inr fi \<Rightarrow> cret (stat_info fi) s)"

definition webdav_Stat :: "('st, 'h) front_env \<Rightarrow> string \<Rightarrow> (('st, 'h) front, os_info) call" where
  "webdav_Stat F name =
     (let dp = parsePath (XM (fe_fs F)) name in
      if NotExist dp then cfail ErrNotExist
      else if WellKnown dp \<noteq> [] then
        (\<lambda>s. cret (plain_info (f_now s) name (if WellKnown dp = wkTSGoExtracted then int (length (tsgo_contents dp)) else 123)) s)
      else if CacheDownloadFileExt dp \<noteq> [] then
        cbind (meta_or_EIO F dp) (\<lambda>v s. cret (plain_info (f_now s) name (int (length v))) s)
      else if \<not> InZip dp then cret (dirFileInfo (path_Base name))
      else stat_in_zip F dp)"

section \<open>Open files\<close>

datatype wd_file =
    WDRegular bytes int string
  | WDDir string string "dirent list"
  | EmptyDir string

definition newWDFileFromContents :: "string \<Rightarrow> bytes \<Rightarrow> wd_file" where
  "newWDFileFromContents name contents = WDRegular contents 0 name"

definition O_APPEND :: u32 where "O_APPEND = 0x400"
definition O_CREATE :: u32 where "O_CREATE = 0x40"
definition O_TRUNC :: u32 where "O_TRUNC = 0x200"

definition write_flags :: u32 where
  "write_flags = O_WRONLY OR O_RDWR OR O_APPEND OR O_CREATE OR O_TRUNC"

definition webdav_OpenFile :: "('st, 'h) front_env \<Rightarrow> string \<Rightarrow> u32 \<Rightarrow> (('st, 'h) front, wd_file) call" where
  "webdav_OpenFile F name flag =
     (let dp = parsePath (XM (fe_fs F)) name; base = path_Base name in
      if flag AND write_flags \<noteq> 0 then cfail ErrPermission
      else if NotExist dp then cfail ErrNotExist
      else if WellKnown dp \<noteq> [] then
        (if WellKnown dp = statusFile then (\<lambda>s. cret (newWDFileFromContents base (StatusJSON F s)) s)
         else if WellKnown dp = wkTSGoExtracted then cret (newWDFileFromContents base (tsgo_contents dp))
         else cfail ErrNotExist)
      else if CacheDownloadFileExt dp \<noteq> [] then
        cbind (meta_or_EIO F dp) (\<lambda>v. cret (newWDFileFromContents name v))
      else if \<not> InZip dp then cret (EmptyDir base)
      else
      cbind (lift_res (getZipRoot (fe_fs F) (ModVersion dp))) (\<lambda>mh s.
      case GetFile (Store (fe_fs F)) (st (f_fs s)) mh (Path dp) of
        Inr contents \<Rightarrow> cret (newWDFileFromContents name contents) s
      | Inl e \<Rightarrow>
          if errors_Is e ErrIsDir then
            (case Readdir (Store (fe_fs F)) (st (f_fs s)) mh (Path dp) of
               Inl e \<Rightarrow> cfail e s
             | Inr ents \<Rightarrow> cret (WDDir (Path dp) base ents) s)
          else cfail e s))"

text \<open>
  The methods of open files, on the file alone: the result and the file after it.  \<^verbatim>\<open>io.SectionReader\<close>
  reads what is left and reports the end once nothing is; a seek before the start is an error.
\<close>

definition ErrInvalid :: err where "ErrInvalid = ErrMsg ''invalid argument''"

fun wd_Stat :: "gotime \<Rightarrow> wd_file \<Rightarrow> os_info" where
  "wd_Stat now (WDRegular b off path) = plain_info now path (int (length b))"
| "wd_Stat now (WDDir p baseName ents) = dirFileInfo baseName"
| "wd_Stat now (EmptyDir baseName) = dirFileInfo baseName"

text \<open>\<^verbatim>\<open>wdDir.Readdir\<close> panics for a positive count.\<close>

fun wd_Readdir :: "gotime \<Rightarrow> int \<Rightarrow> wd_file \<Rightarrow> (err + os_info list) option" where
  "wd_Readdir now cnt (WDRegular b off path) = Some (Inl ErrInvalid)"
| "wd_Readdir now cnt (WDDir p baseName ents) = (if cnt > 0 then None else Some (Inr (map (dirent_info now) ents)))"
| "wd_Readdir now cnt (EmptyDir baseName) = Some (Inr [])"

text \<open>On \<^verbatim>\<open>emptyDir\<close>, reads, seeks and writes go to an embedded nil interface: a panic.\<close>

fun wd_Read :: "nat \<Rightarrow> wd_file \<Rightarrow> ((err + bytes) \<times> wd_file) option" where
  "wd_Read n (WDRegular b off path) =
     Some (if off \<ge> int (length b) then (Inl IoEOF, WDRegular b off path)
      else let d = take n (drop (nat off) b) in (Inr d, WDRegular b (off + int (length d)) path))"
| "wd_Read n (WDDir p baseName ents) = Some (Inl ErrInvalid, WDDir p baseName ents)"
| "wd_Read n (EmptyDir baseName) = None"

fun wd_Seek :: "int \<Rightarrow> nat \<Rightarrow> wd_file \<Rightarrow> ((err + int) \<times> wd_file) option" where
  "wd_Seek offset whence (WDRegular b off path) =
     Some (if whence > 2 then (Inl (ErrMsg ''Seek: invalid whence''), WDRegular b off path)
      else
      let o' = i64 (offset + (if whence = 0 then 0 else if whence = 1 then off else int (length b))) in
      if o' < 0 then (Inl (ErrMsg ''Seek: invalid offset''), WDRegular b off path) else (Inr o', WDRegular b o' path))"
| "wd_Seek offset whence (WDDir p baseName ents) = Some (Inl ErrInvalid, WDDir p baseName ents)"
| "wd_Seek offset whence (EmptyDir baseName) = None"

fun wd_Write :: "bytes \<Rightarrow> wd_file \<Rightarrow> ((err + nat) \<times> wd_file) option" where
  "wd_Write d (EmptyDir baseName) = None"
| "wd_Write d f = Some (Inl ErrInvalid, f)"

text \<open>Names are not created, removed or renamed.\<close>

definition webdav_Mkdir :: "string \<Rightarrow> ('s, unit) call" where "webdav_Mkdir name = cfail ErrPermission"
definition webdav_RemoveAll :: "string \<Rightarrow> ('s, unit) call" where "webdav_RemoveAll name = cfail ErrPermission"
definition webdav_Rename :: "string \<Rightarrow> string \<Rightarrow> ('s, unit) call" where "webdav_Rename a b = cfail ErrPermission"

section \<open>Requests\<close>

text \<open>
  What the handler does before the WebDAV library gets the request: conditional requests for contents
  are answered with not modified, other requests for contents get an expiry date.
\<close>

record wd_request =
  wr_Method :: string
  wr_IfModifiedSince :: string
  wr_IfNoneMatch :: string

datatype wd_action = WdNotModified | WdServe bool

definition webdav_serve :: "wd_request \<Rightarrow> wd_action" where
  "webdav_serve r =
     (if wr_Method r = ''GET'' \<or> wr_Method r = ''HEAD'' then
        (if wr_IfModifiedSince r \<noteq> [] \<or> wr_IfNoneMatch r \<noteq> [] then WdNotModified else WdServe True)
      else WdServe False)"

section \<open>Reading a file\<close>

text \<open>A client that reads with buffers of \<open>n\<close> bytes up to the end.\<close>

fun wd_read_all :: "nat \<Rightarrow> nat \<Rightarrow> wd_file \<Rightarrow> bytes option" where
  "wd_read_all 0 n f = None"
| "wd_read_all (Suc k) n f =
     (case wd_Read n f of
        Some (Inl e, f) \<Rightarrow> if e = IoEOF then Some [] else None
      | Some (Inr d, f) \<Rightarrow> map_option (\<lambda>b. d @ b) (wd_read_all k n f)
      | None \<Rightarrow> None)"

lemma wd_read_rest:
  "0 < n \<Longrightarrow> i \<le> length b \<Longrightarrow> length b - i < k \<Longrightarrow> wd_read_all k n (WDRegular b (int i) p) = Some (drop i b)"
proof (induction k arbitrary: i)
  case (Suc k)
  show ?case
  proof (cases "i = length b")
    case False
    let ?d = "take n (drop i b)"
    have d: "0 < length ?d" "i + length ?d \<le> length b" "length b - (i + length ?d) < k" using Suc.prems False by auto
    have "drop i b = ?d @ drop (i + length ?d) b"
      using append_take_drop_id [of n "drop i b"] by (cases "n \<le> length b - i") (simp_all add: add.commute min_def)
    moreover have "wd_read_all k n (WDRegular b (int i + int (length ?d)) p) = Some (drop (i + length ?d) b)"
      using Suc.IH [OF Suc.prems(1) d(2,3)] by (simp only: of_nat_add)
    ultimately show ?thesis using False Suc.prems(2) by (simp add: Let_def)
  qed simp
qed simp

end
