(* ===== verification/Front_Winfsp.thy ===== *)
theory Front_Winfsp
  imports Front_Webdav
begin

unbundle bit_operations_syntax

text \<open>
  The Windows front end, \<^verbatim>\<open>winfsp.go\<close>: the file system it gives to \<^verbatim>\<open>winfsp/gofs\<close>.  Its files get their
  contents when they are first read, through the cache by path of \<^verbatim>\<open>FS.getFileContents\<close>.
\<close>

section \<open>Names\<close>

text \<open>\<^verbatim>\<open>filepath.ToSlash\<close> on Windows turns backslashes into slashes.\<close>

definition unixifyPath :: "string \<Rightarrow> string" where
  "unixifyPath name = trimPrefix (map (\<lambda>c. if c = CHR 0x5C then slash else c) name) ''/''"

definition helloMsg :: string where
  "helloMsg = ''Hello from gomodfs on WinFSP!'' @ [CHR 0x0A]"

definition helloName :: string where "helloName = ''gomodfs hello.txt''"

definition helloStat :: "gotime \<Rightarrow> os_info" where
  "helloStat now = plain_info now helloName (int (length helloMsg))"

definition statusStat :: "gotime \<Rightarrow> os_info" where
  "statusStat now = plain_info now statusFile 4096"

definition rootStat :: os_info where
  "rootStat = dirFileInfo [CHR 0x5C]"

definition fsp_Stat :: "('st, 'h) front_env \<Rightarrow> string \<Rightarrow> (('st, 'h) front, os_info) call" where
  "fsp_Stat F name =
     (let name = unixifyPath name; dp = parsePath (XM (fe_fs F)) name in
      if name = [] then cret rootStat
      else if name = helloName then (\<lambda>s. cret (helloStat (f_now s)) s)
      else if NotExist dp then cfail ErrNotExist
      else if WellKnown dp \<noteq> [] then
        (\<lambda>s. cret (if WellKnown dp = statusFile then statusStat (f_now s) else plain_info (f_now s) name (int (length (tsgo_contents dp)))) s)
      else if CacheDownloadFileExt dp \<noteq> [] then
        cbind (meta_or_EIO F dp) (\<lambda>v s. cret (plain_info (f_now s) name (int (length v))) s)
      else if \<not> InZip dp then cret (dirFileInfo (path_Base name))
      else stat_in_zip F dp)"

section \<open>Open files\<close>

text \<open>What is read when a file's contents are first needed: \<^verbatim>\<open>getContents\<close> with what it has captured.\<close>

record 'h lazy_get =
  lg_mv :: mod_version
  lg_mh :: 'h
  lg_path :: string

record 'h winFSPRegularFile =
  wf_fi :: os_info
  wf_getContents :: "'h lazy_get option"
  wf_contents :: bytes
  wf_haveData :: bool

datatype 'h fsp_file =
    FspRegular "'h winFSPRegularFile"
  | FspDir wd_file
  | DirWithEnts os_info "os_info list"

definition newFWPFileFromContents :: "gotime \<Rightarrow> string \<Rightarrow> bytes \<Rightarrow> 'h winFSPRegularFile" where
  "newFWPFileFromContents now baseName contents =
     \<lparr>wf_fi = plain_info now baseName (int (length contents)), wf_getContents = None, wf_contents = contents, wf_haveData = False\<rparr>"

definition rootDir :: "gotime \<Rightarrow> 'h fsp_file" where
  "rootDir now = DirWithEnts rootStat [helloStat now, statusStat now]"

definition fsp_open_zip :: "('st, 'h) front_env \<Rightarrow> string \<Rightarrow> gmPath \<Rightarrow> (('st, 'h) front, 'h fsp_file) call" where
  "fsp_open_zip F name dp =
     cbind (lift_res (getZipRoot (fe_fs F) (ModVersion dp))) (\<lambda>mh s.
     case Stat (Store (fe_fs F)) (st (f_fs s)) mh (Path dp) of
       Inl e \<Rightarrow> cfail e s
     | Inr fi \<Rightarrow>
         if is_dir (fi_mode fi) then
           (case Readdir (Store (fe_fs F)) (st (f_fs s)) mh (Path dp) of
              Inl e \<Rightarrow> cfail e s
            | Inr ents \<Rightarrow> cret (FspDir (WDDir (Path dp) (path_Base name) ents)) s)
         else cret (FspRegular \<lparr>wf_fi = plain_info (f_now s) name (fi_size fi), wf_getContents = Some \<lparr>lg_mv = ModVersion dp, lg_mh = mh, lg_path = Path dp\<rparr>,
           wf_contents = [], wf_haveData = False\<rparr>) s)"

definition fsp_OpenFile :: "('st, 'h) front_env \<Rightarrow> string \<Rightarrow> u32 \<Rightarrow> (('st, 'h) front, 'h fsp_file) call" where
  "fsp_OpenFile F name flag =
     (let name = unixifyPath name; dp = parsePath (XM (fe_fs F)) name; base = path_Base name in
      if flag AND (O_WRONLY OR O_RDWR) \<noteq> 0 then cfail ErrPermission
      else if name = [] then (\<lambda>s. cret (rootDir (f_now s)) s)
      else if name = helloName then (\<lambda>s. cret (FspRegular (newFWPFileFromContents (f_now s) name (to_bytes helloMsg))) s)
      else if flag AND write_flags \<noteq> 0 then cfail ErrPermission
      else if NotExist dp then cfail ErrNotExist
      else if WellKnown dp \<noteq> [] then
        (if WellKnown dp = statusFile then (\<lambda>s. cret (FspRegular (newFWPFileFromContents (f_now s) base (StatusJSON F s))) s)
         else if WellKnown dp = wkTSGoExtracted then (\<lambda>s. cret (FspRegular (newFWPFileFromContents (f_now s) base (tsgo_contents dp))) s)
         else cfail ErrNotExist)
      else if CacheDownloadFileExt dp \<noteq> [] then
        cbind (meta_or_EIO F dp) (\<lambda>v s. cret (FspRegular (newFWPFileFromContents (f_now s) name v)) s)
      else if \<not> InZip dp then cret (FspDir (EmptyDir base))
      else fsp_open_zip F name dp)"

section \<open>Reading\<close>

text \<open>The keys of the cache by path are a module version and a path.\<close>

type_synonym path_cache = "(mod_version \<times> string, bytes) cache"

definition fsp_get :: "('st, 'h) front_env \<Rightarrow> 'h lazy_get \<Rightarrow> ('st, 'h) front \<Rightarrow> path_cache \<Rightarrow> ((err + bytes) \<times> path_cache) option" where
  "fsp_get F g s pc = fs_getFileContents (FileCacheSize F) (\<lambda>k. GetFile (Store (fe_fs F)) (st (f_fs s)) (lg_mh g) (snd k)) (lg_mv g, lg_path g) pc"

definition fsp_data :: "('st, 'h) front_env \<Rightarrow> 'h winFSPRegularFile \<Rightarrow> ('st, 'h) front \<Rightarrow> path_cache \<Rightarrow>
    ((err + bytes) \<times> 'h winFSPRegularFile \<times> path_cache) option" where
  "fsp_data F f s pc =
     (case wf_getContents f of
        None \<Rightarrow> Some (Inr (wf_contents f), f, pc)
      | Some g \<Rightarrow>
          if wf_haveData f then Some (Inr (wf_contents f), f, pc)
          else (case fsp_get F g s pc of
             None \<Rightarrow> None
           | Some (Inl e, pc) \<Rightarrow> Some (Inl e, f, pc)
           | Some (Inr contents, pc) \<Rightarrow> Some (Inr contents, f\<lparr>wf_contents := contents, wf_haveData := True\<rparr>, pc)))"

text \<open>A negative offset panics.\<close>

definition fsp_ReadAt :: "('st, 'h) front_env \<Rightarrow> nat \<Rightarrow> int \<Rightarrow> 'h winFSPRegularFile \<Rightarrow> ('st, 'h) front \<Rightarrow> path_cache \<Rightarrow>
    ((err + bytes) \<times> 'h winFSPRegularFile \<times> path_cache) option" where
  "fsp_ReadAt F n off f s pc =
     (case fsp_data F f s pc of
        None \<Rightarrow> None
      | Some (Inl e, r) \<Rightarrow> Some (Inl e, r)
      | Some (Inr contents, r) \<Rightarrow>
          if off < 0 then None
          else
          let d = take n (drop (nat (min off (int (length contents)))) contents) in
          Some (if d = [] \<and> n > 0 then Inl IoEOF else Inr d, r))"

fun fsp_Readdir :: "gotime \<Rightarrow> int \<Rightarrow> 'h fsp_file \<Rightarrow> (err + os_info list) option" where
  "fsp_Readdir now cnt (FspRegular f) = Some (Inl ErrInvalid)"
| "fsp_Readdir now cnt (FspDir d) = wd_Readdir now cnt d"
| "fsp_Readdir now cnt (DirWithEnts fi ents) = Some (Inr ents)"

fun fsp_file_Stat :: "gotime \<Rightarrow> 'h fsp_file \<Rightarrow> os_info" where
  "fsp_file_Stat now (FspRegular f) = wf_fi f"
| "fsp_file_Stat now (FspDir d) = wd_Stat now d"
| "fsp_file_Stat now (DirWithEnts fi ents) = fi"

definition fsp_Mkdir :: "string \<Rightarrow> ('s, unit) call" where "fsp_Mkdir name = cfail ErrPermission"
definition fsp_Remove :: "string \<Rightarrow> ('s, unit) call" where "fsp_Remove name = cfail ErrPermission"
definition fsp_Rename :: "string \<Rightarrow> string \<Rightarrow> ('s, unit) call" where "fsp_Rename a b = cfail ErrPermission"

definition fsp_Write :: "bytes \<Rightarrow> ('s, nat) call" where "fsp_Write p = cfail ErrPermission"
definition fsp_WriteAt :: "bytes \<Rightarrow> int \<Rightarrow> ('s, nat) call" where "fsp_WriteAt p off = cfail ErrPermission"
definition fsp_Truncate :: "int \<Rightarrow> ('s, unit) call" where "fsp_Truncate n = cfail ErrPermission"

definition FILE_OPEN_NO_RECALL :: u32 where "FILE_OPEN_NO_RECALL = 0x400000"

text \<open>The bit PowerShell sets is cleared before the library sees the options.\<close>

definition wrapper_Open :: "(u32 \<Rightarrow> 'a) \<Rightarrow> u32 \<Rightarrow> 'a" where
  "wrapper_Open open' createOptions = open' (createOptions AND NOT FILE_OPEN_NO_RECALL)"

end
