(* ===== verification/Front_Fuse.thy ===== *)
theory Front_Fuse
  imports Nfs_Frontend
begin

unbundle bit_operations_syntax

text \<open>
  The FUSE front end, \<^verbatim>\<open>fuse.go\<close>: the nodes of its tree and the operations that go-fuse calls on them.
  Names are resolved one segment at a time, each node making its child, and not by \<^verbatim>\<open>parsePath\<close>.  A panic
  (a slice out of range) is \<^const>\<open>None\<close>; the nodes' locks make each operation one step.
\<close>

section \<open>Nodes\<close>

datatype errno = ENOENT | E_IO | ENOTDIR | EISDIR | EINVAL

type_synonym ('s, 'a) fcall = "'s \<Rightarrow> ((errno + 'a) \<times> 's) option"

definition fret :: "'a \<Rightarrow> ('s, 'a) fcall" where "fret x s = Some (Inr x, s)"
definition ffail :: "errno \<Rightarrow> ('s, 'a) fcall" where "ffail e s = Some (Inl e, s)"

text \<open>A call whose error is only logged, and reported as an I/O error.\<close>

definition or_EIO :: "('s, 'a) call \<Rightarrow> ('a \<Rightarrow> ('s, 'b) fcall) \<Rightarrow> ('s, 'b) fcall" where
  "or_EIO m f s = (case m s of None \<Rightarrow> None | Some (Inl e, s) \<Rightarrow> Some (Inl E_IO, s) | Some (Inr x, s) \<Rightarrow> f x s)"

text \<open>\<open>zn_content\<close> and \<open>zn_ents\<close> are what the node has fetched.\<close>

record 'h zip_node =
  zn_mv :: mod_version
  zn_root :: 'h
  zn_mode :: fmode
  zn_size :: int
  zn_path :: string
  zn_content :: "bytes option"
  zn_ents :: "dirent list option"

datatype 'h fuse_node =
    ModuleNameNode "string list"
  | CacheRootNode
  | CacheDownloadNode "string list" string
  | StatusFileNode
  | TsgoRoot string string
  | MemFile bytes u32
  | PathUnderZipRoot "'h zip_node"

definition S_IFDIR :: u32 where "S_IFDIR = 0x4000"
definition S_IFREG :: u32 where "S_IFREG = 0x8000"

definition fuseMode :: "fmode \<Rightarrow> u32" where
  "fuseMode m = (if is_dir m then S_IFDIR OR 493
     else if (word_of_nat (perm m) :: u32) AND 73 \<noteq> 0 then S_IFREG OR 493 else S_IFREG OR 420)"

definition zip_root_node :: "mod_version \<Rightarrow> 'h \<Rightarrow> 'h fuse_node" where
  "zip_root_node mv root = PathUnderZipRoot
     \<lparr>zn_mv = mv, zn_root = root, zn_mode = \<lparr>is_dir = True, perm = 0\<rparr>, zn_size = 0, zn_path = [], zn_content = None, zn_ents = None\<rparr>"

section \<open>Above the modules\<close>

definition moduleName_zip :: "('st, 'h) front_env \<Rightarrow> string list \<Rightarrow> string \<Rightarrow> (('st, 'h) front, 'h fuse_node) fcall" where
  "moduleName_zip F paths name =
     (let (finalFrag, escVer, _) = cut name ''@'';
          escName = (if paths \<noteq> [] then join_on slash paths @ ''/'' @ finalFrag else finalFrag) in
      case UnescapePath (XM (fe_fs F)) escName of
        None \<Rightarrow> ffail E_IO
      | Some modName \<Rightarrow>
          (case UnescapeVersion (XM (fe_fs F)) escVer of
             None \<Rightarrow> ffail E_IO
           | Some ver \<Rightarrow>
               or_EIO (lift_res (getZipRoot (fe_fs F) \<lparr>Module = modName, Version = ver\<rparr>)) (\<lambda>root.
               fret (zip_root_node \<lparr>Module = modName, Version = ver\<rparr> root))))"

definition moduleName_Lookup :: "('st, 'h) front_env \<Rightarrow> string list \<Rightarrow> string \<Rightarrow> (('st, 'h) front, 'h fuse_node) fcall" where
  "moduleName_Lookup F paths name =
     (let (suf, tsgo) = cutPrefix name ''tsgo-'' in
      if paths = [] \<and> name = ''cache'' then fret CacheRootNode
      else if paths = [] \<and> name = statusFile then fret StatusFileNode
      else if paths = [] \<and> tsgo then
        (let (goos, goarch, ok) = cut suf ''-'' in
         if \<not> ok then ffail ENOENT
         else if \<not> validTSGoOSARCH goos goarch then ffail ENOENT
         else fret (TsgoRoot goos goarch))
      else if at_sign \<in> set name then moduleName_zip F paths name
      else fret (ModuleNameNode (paths @ [name])))"

definition cacheRoot_Lookup :: "string \<Rightarrow> ('s, 'h fuse_node) fcall" where
  "cacheRoot_Lookup name = (if name \<noteq> ''download'' then ffail ENOENT else fret (CacheDownloadNode [] []))"

text \<open>The names of the temporary files of \<^verbatim>\<open>cmd/go\<close>: \<^verbatim>\<open>\.info\d+\.tmp$\<close>.\<close>

definition isDigit :: "char \<Rightarrow> bool" where
  "isDigit c \<longleftrightarrow> (let n = (of_char c :: nat) in 48 \<le> n \<and> n \<le> 57)"

definition infoTmp :: "string \<Rightarrow> bool" where
  "infoTmp name \<longleftrightarrow>
     (let (d, ok) = cutSuffix name ''.tmp''; ds = takeWhile isDigit (rev d) in
      ok \<and> ds \<noteq> [] \<and> suffix ''.info'' (rev (dropWhile isDigit (rev d))))"

definition lookupUnderModule :: "('st, 'h) front_env \<Rightarrow> string \<Rightarrow> string \<Rightarrow> (('st, 'h) front, 'h fuse_node) fcall" where
  "lookupUnderModule F modName name =
     (let dotExt = path_Ext name in
      if suffix ''.partial'' name then ffail ENOENT
      else if dotExt \<in> {''.info'', ''.mod'', ''.ziphash''} then
        or_EIO (lift_res (getMetaFileByExt (fe_fs F) \<lparr>Module = modName, Version = trimSuffix name dotExt\<rparr> (tl dotExt))) (\<lambda>v.
        fret (MemFile v 420))
      else if infoTmp name then ffail ENOENT
      else ffail E_IO)"

definition cacheDownload_Lookup :: "('st, 'h) front_env \<Rightarrow> string list \<Rightarrow> string \<Rightarrow> string \<Rightarrow> (('st, 'h) front, 'h fuse_node) fcall" where
  "cacheDownload_Lookup F segs modName name =
     (if modName \<noteq> [] then lookupUnderModule F modName name
      else if name = ''@v'' then
        (case UnescapePath (XM (fe_fs F)) (join_on slash segs) of
           None \<Rightarrow> ffail E_IO
         | Some unescaped \<Rightarrow> fret (CacheDownloadNode [] unescaped))
      else fret (CacheDownloadNode (segs @ [name]) []))"

definition isLowerHex :: "char \<Rightarrow> bool" where
  "isLowerHex c \<longleftrightarrow> (let n = (of_char c :: nat) in 48 \<le> n \<and> n \<le> 57 \<or> 97 \<le> n \<and> n \<le> 102)"

text \<open>\<^verbatim>\<open>^([a-f0-9]{40})(\.extracted)?$\<close>.\<close>

definition tsgoRootLookup :: "string \<Rightarrow> (string \<times> bool) option" where
  "tsgoRootLookup name =
     (let (hash, ext) = cutSuffix name ''.extracted'' in
      if length hash = 40 \<and> list_all isLowerHex hash then Some (hash, ext) else None)"

definition tsgoRoot_Lookup :: "('st, 'h) front_env \<Rightarrow> string \<Rightarrow> string \<Rightarrow> string \<Rightarrow> (('st, 'h) front, 'h fuse_node) fcall" where
  "tsgoRoot_Lookup F goos goarch name =
     (case tsgoRootLookup name of
        None \<Rightarrow> ffail ENOENT
      | Some (hash, wantExtractedFile) \<Rightarrow>
          or_EIO (lift_res (getTailscaleGoRoot (fe_fs F) goos goarch hash)) (\<lambda>root.
          if wantExtractedFile then fret (MemFile (to_bytes (tsgoExtractedFileContents hash)) 420)
          else fret (zip_root_node (tsgo_mv goos goarch hash) root)))"

section \<open>In a module\<close>

text \<open>Of entries of the same name the map has the last.\<close>

definition ent_named :: "dirent list \<Rightarrow> string \<Rightarrow> dirent option" where
  "ent_named ents name = map_of (rev (map (\<lambda>e. (d_name e, e)) ents)) name"

definition initDirEnts :: "('st, 'h) front_env \<Rightarrow> 'h zip_node \<Rightarrow> ('st, 'h) front \<Rightarrow> err + 'h zip_node" where
  "initDirEnts F n s =
     (if zn_ents n \<noteq> None then Inr n
      else case Readdir (Store (fe_fs F)) (st (f_fs s)) (zn_root n) (zn_path n) of
        Inl e \<Rightarrow> Inl (Wrap ''failed to get dir files'' [e])
      | Inr ents \<Rightarrow> Inr (n\<lparr>zn_ents := Some ents\<rparr>))"

definition child_node :: "'h zip_node \<Rightarrow> dirent \<Rightarrow> string \<Rightarrow> 'h zip_node" where
  "child_node n ent name =
     \<lparr>zn_mv = zn_mv n, zn_root = zn_root n, zn_mode = d_mode ent, zn_size = d_size ent,
      zn_path = (if zn_path n \<noteq> [] then zn_path n @ ''/'' @ name else name), zn_content = None, zn_ents = None\<rparr>"

text \<open>The child, and the node after the call.\<close>

definition zip_Lookup :: "('st, 'h) front_env \<Rightarrow> 'h zip_node \<Rightarrow> string \<Rightarrow> ('st, 'h) front \<Rightarrow> (errno + 'h zip_node) \<times> 'h zip_node" where
  "zip_Lookup F n name s =
     (if \<not> is_dir (zn_mode n) then (Inl ENOTDIR, n)
      else case initDirEnts F n s of
        Inl e \<Rightarrow> (Inl E_IO, n)
      | Inr n \<Rightarrow>
          (case Option.bind (zn_ents n) (\<lambda>ents. ent_named ents name) of
             None \<Rightarrow> (Inl ENOENT, n)
           | Some ent \<Rightarrow> (Inr (child_node n ent name), n)))"

record fuse_dirent =
  fd_Name :: string
  fd_Mode :: u32
  fd_Off :: u64

definition zip_Readdir :: "('st, 'h) front_env \<Rightarrow> 'h zip_node \<Rightarrow> ('st, 'h) front \<Rightarrow> (errno + fuse_dirent list) \<times> 'h zip_node" where
  "zip_Readdir F n s =
     (case initDirEnts F n s of
        Inl e \<Rightarrow> (Inl E_IO, n)
      | Inr n \<Rightarrow>
          (let ents = (case zn_ents n of None \<Rightarrow> [] | Some ents \<Rightarrow> ents) in
           (Inr (map (\<lambda>(i, ge). \<lparr>fd_Name = d_name ge, fd_Mode = fuseMode (d_mode ge), fd_Off = word_of_nat i\<rparr>) (enumerate 0 ents)), n)))"

text \<open>A directory stream is the list of the entries left.\<close>

definition ds_HasNext :: "fuse_dirent list \<Rightarrow> bool" where "ds_HasNext ents \<longleftrightarrow> length ents > 0"

definition ds_Next :: "fuse_dirent list \<Rightarrow> (fuse_dirent \<times> fuse_dirent list) option" where
  "ds_Next ents = (case ents of [] \<Rightarrow> None | e # es \<Rightarrow> Some (e, es))"

definition isReadonlyOpenFlags :: "bool \<Rightarrow> u32 \<Rightarrow> bool" where
  "isReadonlyOpenFlags linux flags \<longleftrightarrow> flags = 0 \<or> (linux \<and> flags = 0x8000)"

definition zip_Open :: "bool \<Rightarrow> 'h zip_node \<Rightarrow> u32 \<Rightarrow> errno option" where
  "zip_Open linux n flags =
     (if is_dir (zn_mode n) then Some EISDIR else if \<not> isReadonlyOpenFlags linux flags then Some EINVAL else None)"

text \<open>A slice \<open>b[off:end]\<close>; its end is \<open>off + n\<close>, cut at the length.\<close>

definition go_slice :: "bytes \<Rightarrow> int \<Rightarrow> int \<Rightarrow> bytes option" where
  "go_slice b lo hi = (if 0 \<le> lo \<and> lo \<le> hi \<and> hi \<le> int (length b) then Some (take (nat (hi - lo)) (drop (nat lo) b)) else None)"

definition slice_to :: "bytes \<Rightarrow> int \<Rightarrow> nat \<Rightarrow> bytes option" where
  "slice_to b off n = (let e = i64 (off + int n) in go_slice b off (if e > int (length b) then int (length b) else e))"

definition zip_Read :: "('st, 'h) front_env \<Rightarrow> 'h zip_node \<Rightarrow> nat \<Rightarrow> int \<Rightarrow> ('st, 'h) front \<Rightarrow> ((errno + bytes) \<times> 'h zip_node) option" where
  "zip_Read F n len off s =
     (if is_dir (zn_mode n) then Some (Inl EISDIR, n)
      else
      case (case zn_content n of Some b \<Rightarrow> Inr (b, n)
            | None \<Rightarrow>
                (case GetFile (Store (fe_fs F)) (st (f_fs s)) (zn_root n) (zn_path n) of
                   Inl e \<Rightarrow> Inl e
                 | Inr b \<Rightarrow> Inr (b, n\<lparr>zn_content := Some b\<rparr>))) of
        Inl e \<Rightarrow> Some (Inl E_IO, n)
      | Inr (b, n) \<Rightarrow>
          if i64 (off + int len) < off then Some (Inl EINVAL, n)
          else map_option (\<lambda>d. (Inr d, n)) (slice_to b off len))"

definition zip_Getattr :: "'h zip_node \<Rightarrow> u64 \<times> u32" where
  "zip_Getattr n = (word_of_int (zn_size n), fuseMode (zn_mode n))"

section \<open>Other files\<close>

definition mem_Read :: "bytes \<Rightarrow> nat \<Rightarrow> int \<Rightarrow> bytes option" where
  "mem_Read contents len off = slice_to contents off len"

definition mem_Getattr :: "bytes \<Rightarrow> u32 \<Rightarrow> u64 \<times> u32" where
  "mem_Getattr contents mode = (word_of_nat (length contents), S_IFREG OR (mode AND 511))"

definition mem_Open :: "bool \<Rightarrow> u32 \<Rightarrow> errno option" where
  "mem_Open linux flags = (if \<not> isReadonlyOpenFlags linux flags then Some EINVAL else None)"

text \<open>An open status file holds the status of when it was opened.\<close>

definition status_Open :: "('st, 'h) front_env \<Rightarrow> ('st, 'h) front \<Rightarrow> bytes" where
  "status_Open F s = StatusJSON F s"

definition status_Read :: "bytes option \<Rightarrow> nat \<Rightarrow> int \<Rightarrow> (errno + bytes) option" where
  "status_Read fh len off = (case fh of None \<Rightarrow> Some (Inl E_IO) | Some json \<Rightarrow> map_option Inr (slice_to json off len))"

definition status_Getattr :: "bytes option \<Rightarrow> u64 \<times> u32" where
  "status_Getattr fh = ((case fh of None \<Rightarrow> 123 | Some json \<Rightarrow> word_of_nat (length json)), S_IFREG OR 420)"

section \<open>Walking\<close>

text \<open>The kernel's walk: each name is looked up in the node of the last.  Files have no children.\<close>

fun fuse_Lookup :: "('st, 'h) front_env \<Rightarrow> 'h fuse_node \<Rightarrow> string \<Rightarrow> (('st, 'h) front, 'h fuse_node) fcall" where
  "fuse_Lookup F (ModuleNameNode paths) name = moduleName_Lookup F paths name"
| "fuse_Lookup F CacheRootNode name = cacheRoot_Lookup name"
| "fuse_Lookup F (CacheDownloadNode segs m) name = cacheDownload_Lookup F segs m name"
| "fuse_Lookup F (TsgoRoot goos goarch) name = tsgoRoot_Lookup F goos goarch name"
| "fuse_Lookup F (PathUnderZipRoot n) name = (\<lambda>s. Some (map_sum id PathUnderZipRoot (fst (zip_Lookup F n name s)), s))"
| "fuse_Lookup F StatusFileNode name = ffail ENOTDIR"
| "fuse_Lookup F (MemFile b m) name = ffail ENOTDIR"

fun fuse_walk :: "('st, 'h) front_env \<Rightarrow> 'h fuse_node \<Rightarrow> string list \<Rightarrow> (('st, 'h) front, 'h fuse_node) fcall" where
  "fuse_walk F n [] = fret n"
| "fuse_walk F n (name # names) =
     (\<lambda>s. case fuse_Lookup F n name s of
        None \<Rightarrow> None
      | Some (Inl e, s) \<Rightarrow> Some (Inl e, s)
      | Some (Inr n, s) \<Rightarrow> fuse_walk F n names s)"

lemma fuse_walk_append:
  "fuse_walk F n (as @ bs) s =
     (case fuse_walk F n as s of None \<Rightarrow> None | Some (Inl e, s) \<Rightarrow> Some (Inl e, s) | Some (Inr n, s) \<Rightarrow> fuse_walk F n bs s)"
  by (induction as arbitrary: n s) (auto simp: fret_def split: option.split sum.split)

lemma walk_names:
  assumes "list_all (\<lambda>p. at_sign \<notin> set p) ps" "paths = [] \<longrightarrow> ps \<noteq> [] \<longrightarrow> List.hd ps \<noteq> ''cache'' \<and> List.hd ps \<noteq> statusFile \<and> \<not> prefix ''tsgo-'' (List.hd ps)"
  shows "fuse_walk F (ModuleNameNode paths) ps s = Some (Inr (ModuleNameNode (paths @ ps)), s)"
  using assms by (induction ps arbitrary: paths) (auto simp: fret_def moduleName_Lookup_def cutPrefix_def)

text \<open>The entry of a path in a store's listings, each directory above it being one.\<close>

fun listed :: "(string \<Rightarrow> err + dirent list) \<Rightarrow> string list \<Rightarrow> string list \<Rightarrow> dirent \<Rightarrow> bool" where
  "listed rd pre [] e \<longleftrightarrow> False"
| "listed rd pre (n # ss) e \<longleftrightarrow>
     (case rd (joinSegs pre) of
        Inl _ \<Rightarrow> False
      | Inr ents \<Rightarrow>
          (case ent_named ents n of
             None \<Rightarrow> False
           | Some d \<Rightarrow> if ss = [] then d = e else is_dir (d_mode d) \<and> listed rd (pre @ [n]) ss e))"

lemma walk_listed:
  assumes "listed (Readdir (Store (fe_fs F)) (st (f_fs s)) mh) pre ss e"
    "is_dir (zn_mode n)" "zn_root n = mh" "zn_path n = joinSegs pre" "zn_ents n = None" "list_all clean_name pre" "list_all clean_name ss"
  shows "\<exists>n'. fuse_walk F (PathUnderZipRoot n) ss s = Some (Inr (PathUnderZipRoot n'), s) \<and> zn_root n' = mh \<and> zn_mv n' = zn_mv n \<and>
    zn_path n' = joinSegs (pre @ ss) \<and> zn_mode n' = d_mode e \<and> zn_size n' = d_size e \<and> zn_content n' = None \<and> zn_ents n' = None"
  using assms
proof (induction ss arbitrary: pre n)
  case (Cons x ss)
  let ?rd = "Readdir (Store (fe_fs F)) (st (f_fs s)) mh"
  obtain ents d where d: "?rd (joinSegs pre) = Inr ents" "ent_named ents x = Some d" "if ss = [] then d = e else is_dir (d_mode d) \<and> listed ?rd (pre @ [x]) ss e"
    using Cons.prems(1) by (auto split: sum.splits option.splits)
  let ?n = "n\<lparr>zn_ents := Some ents\<rparr>" and ?c = "child_node (n\<lparr>zn_ents := Some ents\<rparr>) d x"
  have l: "fuse_Lookup F (PathUnderZipRoot n) x s = Some (Inr (PathUnderZipRoot ?c), s)"
    using d(1,2) Cons.prems(2-5) by (simp add: zip_Lookup_def initDirEnts_def)
  have p: "zn_path ?c = joinSegs (pre @ [x])"
    using Cons.prems(4) join_on_hd(1) [OF Cons.prems(6)] by (cases "pre = []") (auto simp: child_node_def joinSegs_def join_on_append)
  show ?case
  proof (cases "ss = []")
    case True
    then show ?thesis using l d(3) p Cons.prems(3) by (simp add: fret_def child_node_def)
  next
    case False
    have c: "is_dir (zn_mode ?c)" "zn_root ?c = mh" "zn_ents ?c = None" "list_all clean_name (pre @ [x])" "list_all clean_name ss"
      using False d(3) Cons.prems(3,6,7) by (simp_all add: child_node_def)
    from Cons.IH [OF _ c(1,2) p c(3-5)] False d(3) l show ?thesis by (auto simp: child_node_def)
  qed
qed simp

end
