(* ===== verification/Front_Ends.thy ===== *)
theory Front_Ends
  imports Front_Winfsp Front_Fuse Nfs_Serving
begin

unbundle bit_operations_syntax

text \<open>
  The four front ends side by side: a file of a module has the same contents over NFS, WebDAV, WinFsp
  and FUSE, although the first three parse whole paths and FUSE resolves them segment by segment.
\<close>

section \<open>Names in a module\<close>

lemma file_inv_module:
  assumes "file_inv F mv mh p h name fi c cnt s"
  shows "parsePath (XM (fe_fs F)) name = zero_path\<lparr>ModVersion := mv, Path := p, InZip := True\<rparr>"
    "lift_res (getZipRoot (fe_fs F) mv) s = Some (Inr mh, s)"
    "Stat (Store (fe_fs F)) (st (f_fs s)) mh p = Inr fi" "\<not> is_dir (fi_mode fi)" "GetFile (Store (fe_fs F)) (st (f_fs s)) mh p = Inr c"
proof -
  have "getZipRootCached mv (f_fs s) = Some mh" using assms by (simp add: file_inv_def at_module_path_def)
  then show "lift_res (getZipRoot (fe_fs F) mv) s = Some (Inr mh, s)" by (rule lift_hit)
qed (use assms in \<open>auto simp: file_inv_def at_module_path_def\<close>)

lemma webdav_module_file:
  assumes "file_inv F mv mh p h name fi c cnt s"
  shows "webdav_OpenFile F name 0 s = Some (Inr (WDRegular c 0 name), s)" "webdav_Stat F name s = Some (Inr (stat_info fi), s)"
  using file_inv_module [OF assms]
  by (simp_all add: webdav_OpenFile_def webdav_Stat_def stat_in_zip_def Let_def zero_path_def cbind_def cret_def newWDFileFromContents_def)

lemma winfsp_module_file:
  assumes "file_inv F mv mh p h name fi c cnt s" "unixifyPath wname = name" "name \<noteq> []" "name \<noteq> helloName"
  shows "fsp_OpenFile F wname 0 s = Some (Inr (FspRegular \<lparr>wf_fi = plain_info (f_now s) name (fi_size fi),
      wf_getContents = Some \<lparr>lg_mv = mv, lg_mh = mh, lg_path = p\<rparr>, wf_contents = [], wf_haveData = False\<rparr>), s)"
    "fsp_Stat F wname s = Some (Inr (stat_info fi), s)"
  using file_inv_module [OF assms(1)] assms(2-4)
  by (simp_all add: fsp_OpenFile_def fsp_open_zip_def fsp_Stat_def stat_in_zip_def Let_def zero_path_def cbind_def cret_def)

lemma winfsp_read:
  fixes G :: "mod_version \<times> string \<Rightarrow> err + bytes"
  assumes "wf_getContents f = Some g" "wf_haveData f \<longrightarrow> wf_contents f = c"
    "path_ok (FileCacheSize F) G pc" "0 < GetFileCacheSize (FileCacheSize F)" "G (lg_mv g, lg_path g) = Inr c"
    "GetFile (Store (fe_fs F)) (st (f_fs s)) (lg_mh g) (lg_path g) = Inr c" "0 \<le> off"
  shows "\<exists>f' pc'. fsp_ReadAt F n off f s pc =
      Some (if take n (drop (nat off) c) = [] \<and> 0 < n then Inl IoEOF else Inr (take n (drop (nat off) c)), f', pc') \<and>
    wf_getContents f' = Some g \<and> wf_haveData f' \<and> wf_contents f' = c \<and> path_ok (FileCacheSize F) G pc'"
proof -
  have "\<exists>f' pc'. fsp_data F f s pc = Some (Inr c, f', pc') \<and> wf_getContents f' = Some g \<and> wf_haveData f' \<and> wf_contents f' = c \<and> path_ok (FileCacheSize F) G pc'"
  proof (cases "wf_haveData f")
    case False
    have "fsp_get F g s pc = fs_getFileContents (FileCacheSize F) G (lg_mv g, lg_path g) pc"
      unfolding fsp_get_def using assms(5,6) by (intro fs_getFileContents_cong) simp
    with path_cache_ok [OF assms(3,4), of "(lg_mv g, lg_path g)"] False assms(1,5) show ?thesis by (auto simp: fsp_data_def)
  qed (use assms in \<open>auto simp: fsp_data_def\<close>)
  then obtain f' pc' where d: "fsp_data F f s pc = Some (Inr c, f', pc')" "wf_getContents f' = Some g" "wf_haveData f'" "wf_contents f' = c" "path_ok (FileCacheSize F) G pc'"
    by blast
  have "drop (nat (min off (int (length c)))) c = drop (nat off) c" using assms(7) by (simp add: min_def nat_le_iff)
  with d assms(7) show ?thesis by (auto simp: fsp_ReadAt_def Let_def)
qed

text \<open>What \<^verbatim>\<open>os.FileInfo\<close> a plain file has, and the attributes the NFS server derives from one.\<close>

lemma nfs_module_file:
  assumes "file_inv F mv mh p h name fi c cnt s"
  shows "billy_Lstat F name s = Some (Inr (stat_info fi), s)"
  using file_inv_module [OF assms]
  by (simp add: billy_Lstat_def Let_def zero_path_def statusFile_def wkTSGoExtracted_def cbind_def cret_def)

lemma perm_bits:
  assumes "k < 512"
  shows "(word_of_nat k :: u32) AND ModePerm = word_of_nat k"
proof -
  have "(word_of_nat k :: u32) AND ModePerm = take_bit 9 (word_of_nat k)"
    by (simp add: take_bit_eq_mask ModePerm_def mask_eq_exp_minus_1)
  also have "\<dots> = word_of_nat (take_bit 9 k)" by (rule take_bit_of_nat)
  finally show ?thesis using assms by (simp add: take_bit_nat_eq_self)
qed

lemma perm_bits_other:
  assumes "k < 512"
  shows "(word_of_nat k :: u32) AND ModeDir = 0" "(word_of_nat k :: u32) AND ModeSymlink = 0" "(word_of_nat k :: u32) AND ModeCharDevice = 0"
    "(word_of_nat k :: u32) AND ModeDevice = 0" "(word_of_nat k :: u32) AND ModeSocket = 0" "(word_of_nat k :: u32) AND ModeNamedPipe = 0"
proof -
  have z: "(word_of_nat k :: u32) AND m = 0" if "ModePerm AND m = 0" for m
    using perm_bits [OF assms] that by (metis and.assoc bit.conj_zero_right)
  show "(word_of_nat k :: u32) AND ModeDir = 0" "(word_of_nat k :: u32) AND ModeSymlink = 0" "(word_of_nat k :: u32) AND ModeCharDevice = 0"
    "(word_of_nat k :: u32) AND ModeDevice = 0" "(word_of_nat k :: u32) AND ModeSocket = 0" "(word_of_nat k :: u32) AND ModeNamedPipe = 0"
    by (rule z, code_simp)+
qed

lemma file_attr_stat:
  assumes "\<not> is_dir (fi_mode fi)" "perm (fi_mode fi) < 512" "fi_size fi = int (length c)"
  shows "file_attr name fi c = ToFileAttribute (stat_info fi) name"
    "fa_FileMode (file_attr name fi c) = word_of_nat (perm (fi_mode fi))"
proof -
  have m: "mode_bits (fi_mode fi) = word_of_nat (perm (fi_mode fi))" using assms(1) by (simp add: mode_bits_def)
  then show "fa_FileMode (file_attr name fi c) = word_of_nat (perm (fi_mode fi))"
    using perm_bits [OF assms(2)] by (simp add: file_attr_def sized_def)
  have "attr_type (stat_info fi) = FileTypeRegular"
    using perm_bits_other [OF assms(2)] m by (simp add: attr_type_def oi_IsDir_def stat_info_def Let_def)
  then show "file_attr name fi c = ToFileAttribute (stat_info fi) name"
    using assms(3) by (simp add: file_attr_def sized_def base_attr_def setNFSTime_def ToFileAttribute_def stat_info_def Let_def)
qed

text \<open>What a front end that reads at an offset has to give: the bytes from there, or the end.\<close>

definition bytes_at :: "bytes \<Rightarrow> nat \<Rightarrow> int \<Rightarrow> err + bytes" where
  "bytes_at c n off = (if int (length c) \<le> off then Inl IoEOF else Inr (take n (drop (nat off) c)))"

lemma winfsp_read_again:
  assumes "wf_getContents f = Some g" "wf_haveData f" "wf_contents f = c" "0 < n" "0 \<le> off"
  shows "fsp_ReadAt F n off f s pc = Some (bytes_at c n off, f, pc)"
  using assms by (auto simp: fsp_ReadAt_def fsp_data_def Let_def min_def nat_le_iff bytes_at_def le_nat_iff)

text \<open>
  C11. NFS, WebDAV and WinFsp serve the same file: for a file of a module with a known root, whose
  store reports the length of its contents as its size and permission bits only as its mode, WebDAV
  opens it and reads it to its end as exactly the contents \<open>c\<close> the NFS server reads (from its cache
  or the store); WinFsp opens it without reading it, reads at every offset the bytes of \<open>c\<close> from
  there, and once it has read does so without the store or the cache.  The three \<^verbatim>\<open>Stat\<close>s of the name
  give the same file info, the store's, and the attributes that the NFS server sends with the contents
  are those of that file info: its size, its permissions, the fixed time.  What WebDAV and WinFsp
  report for the file once it is open has that size and time too, but mode 0444 and the whole path as
  the name.
\<close>
theorem front_ends_agree:
  fixes G :: "mod_version \<times> string \<Rightarrow> err + bytes"
  assumes inv: "file_inv F mv mh p h name fi c cnt s" and sz: "fi_size fi = int (length c)" and pm: "perm (fi_mode fi) < 512"
    and nm: "unixifyPath wname = name" "name \<noteq> []" "name \<noteq> helloName"
    and pc: "path_ok (FileCacheSize F) G pc" "0 < GetFileCacheSize (FileCacheSize F)" "G (mv, p) = Inr c"
    and rd: "0 < n" "0 \<le> off"
  shows "\<exists>attr wd f f' pc' s'.
    nfs_getFileContents F h s = Some (Inr (c, attr), s') \<and>
    webdav_OpenFile F name 0 s = Some (Inr wd, s) \<and> wd_read_all (length c + 1) n wd = Some c \<and>
    fsp_OpenFile F wname 0 s = Some (Inr (FspRegular f), s) \<and> \<not> wf_haveData f \<and>
    fsp_ReadAt F n off f s pc = Some (bytes_at c n off, f', pc') \<and>
    (\<forall>k i s2 pc2. 0 < k \<and> 0 \<le> i \<longrightarrow> fsp_ReadAt F k i f' s2 pc2 = Some (bytes_at c k i, f', pc2)) \<and>
    billy_Lstat F name s = Some (Inr (stat_info fi), s) \<and>
    webdav_Stat F name s = Some (Inr (stat_info fi), s) \<and> fsp_Stat F wname s = Some (Inr (stat_info fi), s) \<and>
    oi_size (stat_info fi) = int (length c) \<and> oi_mode (stat_info fi) = word_of_nat (perm (fi_mode fi)) \<and> oi_mtime (stat_info fi) = FakeStaticFileTime \<and>
    attr = ToFileAttribute (stat_info fi) name \<and>
    fa_Filesize attr = word_of_nat (length c) \<and> fa_FileMode attr = word_of_nat (perm (fi_mode fi)) \<and> fa_Mtime attr = ToNFSTime FakeStaticFileTime \<and>
    (\<forall>now. wd_Stat now wd = \<lparr>oi_name = name, oi_size = int (length c), oi_mode = 292, oi_mtime = FakeStaticFileTime, oi_sys = None\<rparr> \<and>
       fsp_file_Stat now (FspRegular f) = wd_Stat now wd)"
proof -
  let ?g = "\<lparr>lg_mv = mv, lg_mh = mh, lg_path = p\<rparr>"
  let ?f = "\<lparr>wf_fi = plain_info (f_now s) name (fi_size fi), wf_getContents = Some ?g, wf_contents = [], wf_haveData = False\<rparr>"
  let ?a = "file_attr name fi c"
  have d: "\<not> is_dir (fi_mode fi)" using file_inv_module(4) [OF inv] .
  have e: "(if take n (drop (nat off) c) = [] \<and> 0 < n then Inl IoEOF else Inr (take n (drop (nat off) c))) = bytes_at c n off"
    using rd by (auto simp: bytes_at_def nat_le_iff le_nat_iff)
  obtain f' pc' where r: "fsp_ReadAt F n off ?f s pc = Some (bytes_at c n off, f', pc')"
    "wf_getContents f' = Some ?g" "wf_haveData f'" "wf_contents f' = c"
    using winfsp_read [of ?f ?g c F G pc s off n] pc file_inv_module(5) [OF inv] rd(2) unfolding e by auto
  have r2: "\<forall>k i s2 pc2. 0 < k \<and> 0 \<le> i \<longrightarrow> fsp_ReadAt F k i f' s2 pc2 = Some (bytes_at c k i, f', pc2)"
    using winfsp_read_again [OF r(2-4)] by blast
  obtain s' where n: "nfs_getFileContents F h s = Some (Inr (c, ?a), s')" using file_contents [OF inv] by blast
  have wd: "wd_read_all (length c + 1) n (WDRegular c 0 name) = Some c" using wd_read_rest [OF rd(1), of 0 c "length c + 1" name] by simp
  have st: "oi_size (stat_info fi) = int (length c) \<and> oi_mode (stat_info fi) = word_of_nat (perm (fi_mode fi)) \<and> oi_mtime (stat_info fi) = FakeStaticFileTime"
    using d sz by (simp add: stat_info_def mode_bits_def)
  note at = file_attr_stat [OF d pm sz, of name]
  have at2: "fa_Filesize ?a = word_of_nat (length c)" "fa_Mtime ?a = ToNFSTime FakeStaticFileTime"
    by (simp_all add: file_attr_def sized_def base_attr_def setNFSTime_def)
  have op: "\<forall>now. wd_Stat now (WDRegular c 0 name) = \<lparr>oi_name = name, oi_size = int (length c), oi_mode = 292, oi_mtime = FakeStaticFileTime, oi_sys = None\<rparr> \<and>
      fsp_file_Stat now (FspRegular ?f) = wd_Stat now (WDRegular c 0 name)"
    using sz by (simp add: plain_info_def reg_info_def reg_file_def)
  have nh: "\<not> wf_haveData ?f" by simp
  show ?thesis
    by (rule exI [of _ ?a], rule exI [of _ "WDRegular c 0 name"], rule exI [of _ ?f], rule exI [of _ f'], rule exI [of _ pc'], rule exI [of _ s'])
      (intro conjI n webdav_module_file [OF inv] wd winfsp_module_file [OF inv nm] r(1) r2 nh nfs_module_file [OF inv] op at at2
        st [THEN conjunct1] st [THEN conjunct2, THEN conjunct1] st [THEN conjunct2, THEN conjunct2])
qed

definition win_name :: string where
  "win_name = CHR 0x5C # ''go4.org'' @ CHR 0x5C # ''mem@v1.2.3'' @ CHR 0x5C # ''b.go''"

theorem front_ends_agree_witness:
  "\<exists>wd f f' pc' attr s'. webdav_OpenFile toy_front ''go4.org/mem@v1.2.3/b.go'' 0 toy_file_state = Some (Inr wd, toy_file_state) \<and> wd_read_all 4 2 wd = Some [1, 2, 3] \<and>
     fsp_OpenFile toy_front win_name 0 toy_file_state = Some (Inr (FspRegular f), toy_file_state) \<and>
     fsp_ReadAt toy_front 2 1 f toy_file_state zero_cache = Some (Inr [2, 3], f', pc') \<and>
     nfs_getFileContents toy_front toy_file_handle toy_file_state = Some (Inr ([1, 2, 3], attr), s') \<and> fa_Filesize attr = 3 \<and> fa_FileMode attr = 420"
proof -
  let ?G = "\<lambda>k :: mod_version \<times> string. if snd k = ''b.go'' then Inr [1, 2, 3] else Inl ErrNotExist"
  let ?fi = "\<lparr>fi_name = ''b.go'', fi_size = 3, fi_mode = \<lparr>is_dir = False, perm = 420\<rparr>\<rparr>"
  have p: "path_ok (FileCacheSize toy_front) ?G zero_cache" "0 < GetFileCacheSize (FileCacheSize toy_front)" "?G (mem_mv, ''b.go'') = Inr [1, 2, 3]"
    by (simp_all add: path_ok_def GetFileCacheSize_def toy_front_def) (simp add: zero_cache_def lru_Size_def)
  have n: "unixifyPath win_name = ''go4.org/mem@v1.2.3/b.go''" "''go4.org/mem@v1.2.3/b.go'' \<noteq> []" "''go4.org/mem@v1.2.3/b.go'' \<noteq> helloName"
    by code_simp+
  have z: "fi_size ?fi = int (length [1, 2, 3 :: u8])" "perm (fi_mode ?fi) < 512" "(0 :: nat) < 2" "(0 :: int) \<le> 1" by simp_all
  from front_ends_agree [OF toy_file_inv z(1,2) n p z(3,4)] obtain attr wd f f' pc' s' where w:
    "nfs_getFileContents toy_front toy_file_handle toy_file_state = Some (Inr ([1, 2, 3], attr), s')"
    "webdav_OpenFile toy_front ''go4.org/mem@v1.2.3/b.go'' 0 toy_file_state = Some (Inr wd, toy_file_state)" "wd_read_all (length [1, 2, 3 :: u8] + 1) 2 wd = Some [1, 2, 3]"
    "fsp_OpenFile toy_front win_name 0 toy_file_state = Some (Inr (FspRegular f), toy_file_state)"
    "fsp_ReadAt toy_front 2 1 f toy_file_state zero_cache = Some (bytes_at [1, 2, 3] 2 1, f', pc')"
    "fa_Filesize attr = word_of_nat (length [1, 2, 3 :: u8])" "fa_FileMode attr = word_of_nat (perm (fi_mode ?fi))"
    by (elim exE conjE) (rule that, assumption+)
  have "length [1, 2, 3 :: u8] + 1 = 4" by simp
  note w = w(1,2) w(3) [unfolded this] w(4-)
  show ?thesis
    by (rule exI [of _ wd], rule exI [of _ f], rule exI [of _ f'], rule exI [of _ pc'], rule exI [of _ attr], rule exI [of _ s'])
      (use w in \<open>simp add: bytes_at_def\<close>)
qed

section \<open>FUSE\<close>

lemma first_seg_prefix:
  assumes "prefix w (x @ slash # r)" "slash \<notin> set w"
  shows "prefix w x"
  using assms(1) unfolding prefix_append
proof
  assume "\<exists>us. w = x @ us \<and> prefix us (slash # r)"
  then obtain us where u: "w = x @ us" "prefix us (slash # r)" by blast
  then show ?thesis using assms(2) by (cases us) auto
qed

lemma set_join_on: "set (join_on x ss) \<subseteq> insert x (\<Union> (set ` set ss))"
  by (induction x ss rule: join_on.induct) (auto simp: join_on_cons)

lemma not_special:
  assumes "slash \<notin> set x" "x \<noteq> ''cache''" "\<not> prefix ''tsgo-'' x" "name = x \<or> name = x @ slash # r"
  shows "\<not> prefix ''tsgo-'' name" "\<not> prefix ''cache/download/'' name"
proof -
  have t: "slash \<notin> set ''tsgo-''" by simp
  from assms(4) show "\<not> prefix ''tsgo-'' name"
    by (rule disjE) (use assms(3) first_seg_prefix [OF _ t, of x r] in blast)+
  show "\<not> prefix ''cache/download/'' name"
  proof
    assume p: "prefix ''cache/download/'' name"
    then obtain z where z: "name = ''cache'' @ slash # ''download/'' @ z" by (auto elim: prefixE)
    from assms(4) show False
    proof
      assume "name = x"
      then have "slash \<in> set x" using z by auto
      then show False using assms(1) by simp
    next
      assume "name = x @ slash # r"
      then have "takeWhile (\<lambda>c. c \<noteq> slash) (x @ slash # r) = takeWhile (\<lambda>c. c \<noteq> slash) (''cache'' @ slash # ''download/'' @ z)" using z by simp
      moreover have "takeWhile (\<lambda>c. c \<noteq> slash) (x @ slash # r) = x" using assms(1) by (subst takeWhile_append2) auto
      ultimately show False using assms(2) by simp
    qed
  qed
qed

lemma trim_joined: "list_all clean_name ss \<Longrightarrow> trimSuffix (joinSegs ss) ''/'' = joinSegs ss"
proof (cases ss rule: rev_cases)
  case (snoc ts t)
  assume "list_all clean_name ss"
  then have "t \<noteq> []" "slash \<notin> set t" using snoc by (auto simp: clean_name_def)
  then have "last t \<noteq> slash" "t \<noteq> []" by (metis last_in_set)+
  then have "last (joinSegs ss) \<noteq> slash" by (cases "ts = []") (auto simp: snoc joinSegs_def join_on_append)
  moreover have "joinSegs ss \<noteq> []" using join_on_hd(1) [of ss] \<open>list_all clean_name ss\<close> snoc by (simp add: joinSegs_def)
  ultimately show ?thesis by (auto simp: trimSuffix_def cutSuffix_def suffix_def)
qed (simp add: joinSegs_def trimSuffix_def cutSuffix_def)

text \<open>A path of a module in the FUSE tree: the directories above it, the name with the version, the path in it.\<close>

definition fuse_path :: "string list \<Rightarrow> string \<Rightarrow> string \<Rightarrow> string list \<Rightarrow> string list" where
  "fuse_path dirs frag ver segs = dirs @ [frag @ at_sign # ver] @ segs"

definition fuse_name_ok :: "string list \<Rightarrow> string \<Rightarrow> string \<Rightarrow> string list \<Rightarrow> bool" where
  "fuse_name_ok dirs frag ver segs \<longleftrightarrow>
     list_all (\<lambda>p. clean_name p \<and> at_sign \<notin> set p) dirs \<and> slash \<notin> set frag \<and> at_sign \<notin> set frag \<and> slash \<notin> set ver \<and>
     list_all clean_name segs \<and> segs \<noteq> [] \<and>
     (let x = List.hd (fuse_path dirs frag ver segs) in x \<noteq> ''cache'' \<and> x \<noteq> statusFile \<and> \<not> prefix ''tsgo-'' x)"

lemma fuse_parse:
  assumes "fuse_name_ok dirs frag ver segs" "UnescapePath X (joinSegs (dirs @ [frag])) = Some m" "UnescapeVersion X ver = Some v"
  shows "parsePath X (joinSegs (fuse_path dirs frag ver segs)) = zero_path\<lparr>ModVersion := \<lparr>Module = m, Version = v\<rparr>, Path := joinSegs segs, InZip := True\<rparr>"
proof -
  let ?em = "joinSegs (dirs @ [frag])" and ?s = "ver @ slash # joinSegs segs"
  have n: "joinSegs (fuse_path dirs frag ver segs) = ?em @ at_sign # ?s"
    using assms(1) by (cases "dirs = []") (simp_all add: fuse_name_ok_def fuse_path_def joinSegs_def join_on_append join_on_cons)
  have at: "at_sign \<notin> set ?em"
    using assms(1) set_join_on [of slash "dirs @ [frag]"] by (auto simp: fuse_name_ok_def joinSegs_def list_all_iff)
  have cut: "cut ?s ''/'' = (ver, joinSegs segs, True)" using assms(1) by (simp add: fuse_name_ok_def cut_char)
  let ?x = "List.hd (fuse_path dirs frag ver segs)"
  have x: "slash \<notin> set ?x" "?x \<noteq> ''cache''" "\<not> prefix ''tsgo-'' ?x"
    using assms(1) by (cases dirs; auto simp: fuse_name_ok_def fuse_path_def Let_def clean_name_def)+
  have h: "?em @ at_sign # ?s = ?x \<or> ?em @ at_sign # ?s = ?x @ slash # joinSegs (tl (fuse_path dirs frag ver segs))"
    unfolding n [symmetric] by (cases "fuse_path dirs frag ver segs"; cases "tl (fuse_path dirs frag ver segs)") (auto simp: fuse_path_def joinSegs_def)
  from parsePath_zip [OF assms(2,3) at not_special [OF x h] cut] show ?thesis
    using assms(1) trim_joined [of segs] by (simp add: n fuse_name_ok_def)
qed

lemma fuse_zip_root:
  assumes "fuse_name_ok dirs frag ver segs" "UnescapePath (XM (fe_fs F)) (joinSegs (dirs @ [frag])) = Some m" "UnescapeVersion (XM (fe_fs F)) ver = Some v"
    "getZipRootCached \<lparr>Module = m, Version = v\<rparr> (f_fs s) = Some mh"
  shows "fuse_walk F (ModuleNameNode []) (dirs @ [frag @ at_sign # ver]) s = Some (Inr (zip_root_node \<lparr>Module = m, Version = v\<rparr> mh), s)"
proof -
  let ?x = "List.hd (fuse_path dirs frag ver segs)"
  have d: "list_all (\<lambda>p. at_sign \<notin> set p) dirs" and x: "?x \<noteq> ''cache''" "?x \<noteq> statusFile" "\<not> prefix ''tsgo-'' ?x"
    using assms(1) by (auto simp: fuse_name_ok_def list_all_iff Let_def)
  have w: "fuse_walk F (ModuleNameNode []) dirs s = Some (Inr (ModuleNameNode dirs), s)"
    using walk_names [OF d, of "[]" F s] x by (cases dirs) (auto simp: fuse_path_def)
  have "(if dirs \<noteq> [] then join_on slash dirs @ ''/'' @ frag else frag) = joinSegs (dirs @ [frag])"
    by (simp add: joinSegs_def join_on_append)
  moreover have "cut (frag @ at_sign # ver) ''@'' = (frag, ver, True)" using assms(1) by (simp add: fuse_name_ok_def cut_char)
  ultimately have z: "moduleName_zip F dirs (frag @ at_sign # ver) s = Some (Inr (zip_root_node \<lparr>Module = m, Version = v\<rparr> mh), s)"
    using assms(2,3) lift_hit [OF assms(4), of "fe_fs F"] by (simp add: moduleName_zip_def or_EIO_def fret_def)
  have y: "frag @ at_sign # ver \<noteq> ''cache'' \<and> frag @ at_sign # ver \<noteq> statusFile \<and> \<not> prefix ''tsgo-'' (frag @ at_sign # ver)" if "dirs = []"
    using x that by (simp add: fuse_path_def)
  have "moduleName_Lookup F dirs (frag @ at_sign # ver) = moduleName_zip F dirs (frag @ at_sign # ver)"
    using y by (cases "dirs = []") (simp_all add: moduleName_Lookup_def cutPrefix_def Let_def)
  then show ?thesis using z by (simp add: fuse_walk_append w fret_def)
qed

lemma slice_to_take:
  assumes "off \<le> length b" "length b + n < 2 ^ 63"
  shows "slice_to b (int off) n = Some (take n (drop off b))" "\<not> i64 (int off + int n) < int off"
proof -
  have "i64 (int off + int n) = int off + int n" using assms i64_nat [of "off + n"] by simp
  then show "slice_to b (int off) n = Some (take n (drop off b))" "\<not> i64 (int off + int n) < int off"
    using assms(1) by (auto simp: slice_to_def go_slice_def Let_def nat_diff_distrib nat_add_distrib)
qed

text \<open>
  C12. FUSE finds and reads the files of a module: walking the segments of a path below a module version
  from the root, one lookup each, ends at the node of the file the store lists there, with its size
  and mode, the path parser of the other front ends reads the same module version and path from the
  joined name, and reading that node at any offset within the file gives the store's bytes from there.
\<close>
theorem fuse_reads_file:
  assumes nm: "fuse_name_ok dirs frag ver segs"
    and mv: "UnescapePath (XM (fe_fs F)) (joinSegs (dirs @ [frag])) = Some m" "UnescapeVersion (XM (fe_fs F)) ver = Some v"
    and root: "getZipRootCached \<lparr>Module = m, Version = v\<rparr> (f_fs s) = Some mh"
    and ent: "listed (Readdir (Store (fe_fs F)) (st (f_fs s)) mh) [] segs e" "\<not> is_dir (d_mode e)"
    and c: "GetFile (Store (fe_fs F)) (st (f_fs s)) mh (joinSegs segs) = Inr c" "length c + len < 2 ^ 63" "off \<le> length c"
  shows "\<exists>n n'. fuse_walk F (ModuleNameNode []) (fuse_path dirs frag ver segs) s = Some (Inr (PathUnderZipRoot n), s) \<and>
    zip_Getattr n = (word_of_int (d_size e), fuseMode (d_mode e)) \<and>
    zip_Read F n len (int off) s = Some (Inr (take len (drop off c)), n') \<and>
    parsePath (XM (fe_fs F)) (joinSegs (fuse_path dirs frag ver segs)) = zero_path\<lparr>ModVersion := zn_mv n, Path := zn_path n, InZip := True\<rparr>"
proof -
  let ?n0 = "\<lparr>zn_mv = \<lparr>Module = m, Version = v\<rparr>, zn_root = mh, zn_mode = \<lparr>is_dir = True, perm = 0\<rparr>, zn_size = 0, zn_path = [], zn_content = None, zn_ents = None\<rparr>"
  have "list_all clean_name segs" using nm by (simp add: fuse_name_ok_def)
  then obtain n where n: "fuse_walk F (PathUnderZipRoot ?n0) segs s = Some (Inr (PathUnderZipRoot n), s)" "zn_root n = mh" "zn_mv n = \<lparr>Module = m, Version = v\<rparr>"
    "zn_path n = joinSegs segs" "zn_mode n = d_mode e" "zn_size n = d_size e" "zn_content n = None"
    using walk_listed [OF ent(1), of ?n0] by (auto simp: joinSegs_def)
  have "fuse_path dirs frag ver segs = (dirs @ [frag @ at_sign # ver]) @ segs" by (simp add: fuse_path_def)
  then have w: "fuse_walk F (ModuleNameNode []) (fuse_path dirs frag ver segs) s = Some (Inr (PathUnderZipRoot n), s)"
    using fuse_zip_root [OF nm mv root] n(1) by (simp only: fuse_walk_append zip_root_node_def) simp
  have "zip_Read F n len (int off) s = Some (Inr (take len (drop off c)), n\<lparr>zn_content := Some c\<rparr>)"
    using n ent(2) c slice_to_take [OF c(3,2)] by (simp add: zip_Read_def)
  then show ?thesis using w n fuse_parse [OF nm mv] by (auto simp: zip_Getattr_def)
qed

theorem fuse_reads_file_witness:
  "\<exists>n n'. fuse_walk toy_front (ModuleNameNode []) [''go4.org'', ''mem@v1.2.3'', ''b.go''] toy_state = Some (Inr (PathUnderZipRoot n), toy_state) \<and>
     zip_Read toy_front n 10 1 toy_state = Some (Inr [2, 3], n')"
proof -
  let ?e = "\<lparr>d_name = ''b.go'', d_mode = \<lparr>is_dir = False, perm = 420\<rparr>, d_size = 3\<rparr>"
  have n: "fuse_name_ok [''go4.org''] ''mem'' ''v1.2.3'' [''b.go'']" by code_simp
  have mv: "UnescapePath (XM (fe_fs toy_front)) (joinSegs ([''go4.org''] @ [''mem''])) = Some ''go4.org/mem''" "UnescapeVersion (XM (fe_fs toy_front)) ''v1.2.3'' = Some ''v1.2.3''"
    by code_simp+
  have r: "getZipRootCached \<lparr>Module = ''go4.org/mem'', Version = ''v1.2.3''\<rparr> (f_fs toy_state) = Some mem_mv"
    by (simp add: toy_state_def getZipRootCached_def mem_mv_def)
  have e: "listed (Readdir (Store (fe_fs toy_front)) (st (f_fs toy_state)) mem_mv) [] [''b.go''] ?e" "\<not> is_dir (d_mode ?e)"
    by (simp_all add: toy_front_def joinSegs_def two_files_def ent_named_def)
  have c: "GetFile (Store (fe_fs toy_front)) (st (f_fs toy_state)) mem_mv (joinSegs [''b.go'']) = Inr [1, 2, 3]" "length [1, 2, 3 :: u8] + 10 < 2 ^ 63" "1 \<le> length [1, 2, 3 :: u8]"
    by (simp_all add: toy_front_def joinSegs_def)
  from fuse_reads_file [OF n mv r e c] show ?thesis by (auto simp: fuse_path_def)
qed

text \<open>Reading beyond the end of a file panics: the slice's start is after its end.\<close>

lemma fuse_read_past_end:
  assumes "\<not> is_dir (zn_mode n)" "zn_content n = Some c" "length c < off" "off + len < 2 ^ 63"
  shows "zip_Read F n len (int off) s = None"
proof -
  have "i64 (int off + int len) = int off + int len" using assms i64_nat [of "off + len"] by simp
  then show ?thesis using assms by (simp add: zip_Read_def slice_to_def go_slice_def Let_def)
qed

end
