(* ===== verification/Op_Stats.thy ===== *)
theory Op_Stats
  imports Store_Iface
begin

text \<open>
  The operation statistics, \<^verbatim>\<open>stats/stats.go\<close>: spans that are started and ended, the counters they move,
  and the table that is shown.  A nil \<^verbatim>\<open>*Stats\<close> is \<^const>\<open>None\<close>, and a panic is \<^const>\<open>None\<close> as a result.  The
  clock is an argument; which errors mean that a context is done is a parameter.
\<close>

section \<open>Data\<close>

record OpStat =
  Started :: int
  Ended :: int
  Errs :: int
  CtxErrs :: int
  TotalDur :: int

definition zero_op :: OpStat where
  "zero_op = \<lparr>Started = 0, Ended = 0, Errs = 0, CtxErrs = 0, TotalDur = 0\<rparr>"

definition NumSuccess :: "OpStat \<Rightarrow> int" where
  "NumSuccess o' = Ended o' - Errs o'"

text \<open>
  \<^verbatim>\<open>prometheus.CounterVec\<close>: the counter of each label, used where there is one.  The duration counter
  adds up floating-point seconds; here it is the list of the durations added to it, in the clock's unit
  and oldest first, so that what it shows is the sum of their \<^verbatim>\<open>Seconds()\<close> in that order.  The
  \<^verbatim>\<open>int\<close> counters and \<^verbatim>\<open>TotalDur\<close> are integers that do not wrap: they are 64 bits wide in the code.
\<close>

record stats =
  MetricOpStarted :: "(string \<Rightarrow> int) option"
  MetricOpEnded :: "(string \<Rightarrow> int) option"
  MetricOpDuration :: "(string \<Rightarrow> int list) option"
  ops :: "(string \<times> OpStat) list option"

text \<open>The pointer a span keeps to the \<^verbatim>\<open>OpStat\<close> of its operation stays that of the map's entry.\<close>

record span =
  sp_live :: bool
  sp_op :: string
  sp_start :: int
  sp_done :: bool

definition NewStatsWithRegistry :: stats where
  "NewStatsWithRegistry = \<lparr>MetricOpStarted = Some (\<lambda>_. 0), MetricOpEnded = Some (\<lambda>_. 0), MetricOpDuration = Some (\<lambda>_. []), ops = None\<rparr>"

section \<open>Operations\<close>

definition op_of :: "stats \<Rightarrow> string \<Rightarrow> OpStat option" where
  "op_of s op = (case ops s of None \<Rightarrow> None | Some m \<Rightarrow> map_of m op)"

definition set_op :: "string \<Rightarrow> OpStat \<Rightarrow> stats \<Rightarrow> stats" where
  "set_op op v s = s\<lparr>ops := Some (AList.update op v (case ops s of None \<Rightarrow> [] | Some m \<Rightarrow> m))\<rparr>"

definition inc :: "string \<Rightarrow> int \<Rightarrow> (string \<Rightarrow> int) option \<Rightarrow> (string \<Rightarrow> int) option" where
  "inc op d m = map_option (\<lambda>f. f(op := f op + d)) m"

definition add_dur :: "string \<Rightarrow> int \<Rightarrow> (string \<Rightarrow> int list) option \<Rightarrow> (string \<Rightarrow> int list) option" where
  "add_dur op d m = map_option (\<lambda>f. f(op := f op @ [d])) m"

definition StartSpan :: "string \<Rightarrow> int \<Rightarrow> stats option \<Rightarrow> span \<times> stats option" where
  "StartSpan op now s =
     (\<lparr>sp_live = (s \<noteq> None), sp_op = op, sp_start = now, sp_done = False\<rparr>,
      case s of
        None \<Rightarrow> None
      | Some s \<Rightarrow>
          let o' = (case op_of s op of None \<Rightarrow> zero_op | Some o' \<Rightarrow> o') in
          Some ((set_op op (o'\<lparr>Started := Started o' + 1\<rparr>) s)\<lparr>MetricOpStarted := inc op 1 (MetricOpStarted s)\<rparr>))"

text \<open>\<open>ctx_err\<close> is whether the error is \<^verbatim>\<open>context.Canceled\<close> or \<^verbatim>\<open>context.DeadlineExceeded\<close>.\<close>

definition end_op :: "('e \<Rightarrow> bool) \<Rightarrow> 'e option \<Rightarrow> int \<Rightarrow> OpStat \<Rightarrow> OpStat" where
  "end_op ctx_err e duration o' =
     o'\<lparr>Ended := Ended o' + 1,
        Errs := Errs o' + (if e = None then 0 else 1),
        CtxErrs := CtxErrs o' + (case e of None \<Rightarrow> 0 | Some e \<Rightarrow> if ctx_err e then 1 else 0),
        TotalDur := TotalDur o' + duration\<rparr>"

definition End :: "('e \<Rightarrow> bool) \<Rightarrow> 'e option \<Rightarrow> int \<Rightarrow> span \<Rightarrow> stats option \<Rightarrow> (span \<times> stats option) option" where
  "End ctx_err e now sp s =
     (if sp_done sp then None
      else
      let sp = sp\<lparr>sp_done := True\<rparr> in
      if (s = None) \<noteq> (\<not> sp_live sp) then None
      else case s of
        None \<Rightarrow> Some (sp, None)
      | Some s \<Rightarrow>
          let op = sp_op sp; duration = now - sp_start sp in
          (case op_of s op of
             None \<Rightarrow> None
           | Some o' \<Rightarrow>
               Some (sp, Some ((set_op op (end_op ctx_err e duration o') s)
                 \<lparr>MetricOpEnded := inc op 1 (MetricOpEnded s), MetricOpDuration := add_dur op duration (MetricOpDuration s)\<rparr>))))"

definition Clone :: "stats option \<Rightarrow> (string \<times> OpStat) list option" where
  "Clone s = (case s of None \<Rightarrow> None | Some s \<Rightarrow> Some (case ops s of None \<Rightarrow> [] | Some m \<Rightarrow> m))"

text \<open>
  The rows of the table \<^verbatim>\<open>ServeHTTP\<close> writes, before numbers and durations are formatted: operation,
  calls, pending, errors, average and total.  Go divides towards zero.
\<close>

record stat_row =
  row_op :: string
  row_calls :: int
  row_pending :: int
  row_errs :: "(int \<times> int option) option"
  row_avg :: int
  row_total :: int

definition go_quot :: "int \<Rightarrow> int \<Rightarrow> int" where
  "go_quot a b = (if 0 \<le> a then a div b else - ((- a) div b))"

definition stat_row_of :: "string \<Rightarrow> OpStat \<Rightarrow> stat_row" where
  "stat_row_of op v =
     \<lparr>row_op = op, row_calls = Ended v, row_pending = Started v - Ended v,
      row_errs = (if Errs v > 0 then Some (Errs v, if CtxErrs v > 0 then Some (CtxErrs v) else None) else None),
      row_avg = go_quot (TotalDur v) (if Ended v \<noteq> 0 then Ended v else 1), row_total = TotalDur v\<rparr>"

definition ServeHTTP_rows :: "stats \<Rightarrow> stat_row list" where
  "ServeHTTP_rows s =
     (case ops s of None \<Rightarrow> [] | Some m \<Rightarrow> map (\<lambda>op. stat_row_of op (the (map_of m op))) (sorted_list_of_set (fst ` set m)))"

section \<open>Runs\<close>

text \<open>Spans are started and ended in any order; the spans started so far, oldest first.\<close>

datatype 'e stat_call = CStart string int | CEnd nat "'e option" int

fun stat_step :: "('e \<Rightarrow> bool) \<Rightarrow> 'e stat_call \<Rightarrow> span list \<times> stats option \<Rightarrow> (span list \<times> stats option) option" where
  "stat_step ctx_err (CStart op now) (sps, s) = (let (sp, s) = StartSpan op now s in Some (sps @ [sp], s))"
| "stat_step ctx_err (CEnd i e now) (sps, s) =
     (if i < length sps then map_option (\<lambda>(sp, s). (sps[i := sp], s)) (End ctx_err e now (sps ! i) s) else None)"

fun stat_run :: "('e \<Rightarrow> bool) \<Rightarrow> 'e stat_call list \<Rightarrow> span list \<times> stats option \<Rightarrow> (span list \<times> stats option) option" where
  "stat_run ctx_err [] c = Some c"
| "stat_run ctx_err (x # xs) c = Option.bind (stat_step ctx_err x c) (stat_run ctx_err xs)"

text \<open>
  What a sequence of calls did, read off the calls alone: the spans started, with their times, the
  spans ended, and for an operation the outcome and the duration of each of its ended spans.
\<close>

definition started_calls :: "'e stat_call list \<Rightarrow> (string \<times> int) list" where
  "started_calls xs = concat (map (\<lambda>c. case c of CStart op now \<Rightarrow> [(op, now)] | CEnd i e now \<Rightarrow> []) xs)"

definition ended_calls :: "'e stat_call list \<Rightarrow> (nat \<times> 'e option \<times> int) list" where
  "ended_calls xs = concat (map (\<lambda>c. case c of CStart op now \<Rightarrow> [] | CEnd i e now \<Rightarrow> [(i, e, now)]) xs)"

definition started_of :: "string \<Rightarrow> 'e stat_call list \<Rightarrow> nat" where
  "started_of op xs = length (filter (\<lambda>(o', now). o' = op) (started_calls xs))"

definition ended_of :: "string \<Rightarrow> 'e stat_call list \<Rightarrow> ('e option \<times> int) list" where
  "ended_of op xs = map (\<lambda>(i, e, now). (e, now - snd (started_calls xs ! i)))
     (filter (\<lambda>(i, e, now). fst (started_calls xs ! i) = op) (ended_calls xs))"

definition op_spec :: "('e \<Rightarrow> bool) \<Rightarrow> string \<Rightarrow> 'e stat_call list \<Rightarrow> OpStat" where
  "op_spec ctx_err op xs =
     \<lparr>Started = int (started_of op xs), Ended = int (length (ended_of op xs)),
      Errs = int (length (filter (\<lambda>(e, d). e \<noteq> None) (ended_of op xs))),
      CtxErrs = int (length (filter (\<lambda>(e, d). \<exists>x. e = Some x \<and> ctx_err x) (ended_of op xs))),
      TotalDur = sum_list (map snd (ended_of op xs))\<rparr>"

text \<open>Calls that end each span at most once, and only a span that was started.\<close>

fun ends_once :: "bool list \<Rightarrow> 'e stat_call list \<Rightarrow> bool" where
  "ends_once ds [] \<longleftrightarrow> True"
| "ends_once ds (CStart op now # xs) \<longleftrightarrow> ends_once (ds @ [False]) xs"
| "ends_once ds (CEnd i e now # xs) \<longleftrightarrow> i < length ds \<and> \<not> ds ! i \<and> ends_once (ds[i := True]) xs"

section \<open>The invariant of a run\<close>

definition spans_match :: "'e stat_call list \<Rightarrow> span list \<Rightarrow> bool" where
  "spans_match ys sps \<longleftrightarrow> map (\<lambda>sp. (sp_op sp, sp_start sp)) sps = started_calls ys \<and>
     (\<forall>sp \<in> set sps. sp_live sp) \<and>
     (\<forall>c \<in> set (ended_calls ys). fst c < length sps \<and> sp_done (sps ! fst c))"

definition stats_match :: "('e \<Rightarrow> bool) \<Rightarrow> 'e stat_call list \<Rightarrow> stats \<Rightarrow> bool" where
  "stats_match ctx_err ys s \<longleftrightarrow>
     (\<forall>op. op_of s op = (if started_of op ys = 0 then None else Some (op_spec ctx_err op ys))) \<and>
     MetricOpStarted s = Some (\<lambda>op. int (started_of op ys)) \<and>
     MetricOpEnded s = Some (\<lambda>op. int (length (ended_of op ys))) \<and>
     MetricOpDuration s = Some (\<lambda>op. map snd (ended_of op ys))"

lemma op_of_simps [simp]:
  "op_of (set_op op v s) op' = (if op' = op then Some v else op_of s op')"
  "op_of (s\<lparr>MetricOpStarted := a\<rparr>) op = op_of s op" "op_of (s\<lparr>MetricOpEnded := a\<rparr>) op = op_of s op" "op_of (s\<lparr>MetricOpDuration := b\<rparr>) op = op_of s op"
  by (auto simp: op_of_def set_op_def update_conv' split: option.split)

lemma set_op_metrics [simp]:
  "MetricOpStarted (set_op op v s) = MetricOpStarted s" "MetricOpEnded (set_op op v s) = MetricOpEnded s" "MetricOpDuration (set_op op v s) = MetricOpDuration s"
  by (simp_all add: set_op_def)

lemma calls_snoc [simp]:
  "started_calls (ys @ [CStart op now]) = started_calls ys @ [(op, now)]" "started_calls (ys @ [CEnd i e now]) = started_calls ys"
  "ended_calls (ys @ [CStart op now]) = ended_calls ys" "ended_calls (ys @ [CEnd i e now]) = ended_calls ys @ [(i, e, now)]"
  by (simp_all add: started_calls_def ended_calls_def)

lemma started_of_snoc [simp]:
  "started_of p (ys @ [CStart op now]) = started_of p ys + (if op = p then 1 else 0)"
  "started_of p (ys @ [CEnd i e now]) = started_of p ys"
  by (simp_all add: started_of_def)

lemma ended_of_end [simp]:
  "ended_of p (ys @ [CEnd i e now]) =
     ended_of p ys @ (if fst (started_calls ys ! i) = p then [(e, now - snd (started_calls ys ! i))] else [])"
  by (simp add: ended_of_def)

lemma ended_of_start:
  assumes "spans_match ys sps"
  shows "ended_of p (ys @ [CStart op now]) = ended_of p ys"
proof -
  have "length (started_calls ys) = length sps" using assms by (metis length_map spans_match_def)
  then have "(started_calls ys @ [(op, now)]) ! i = started_calls ys ! i" if "(i, e, t) \<in> set (ended_calls ys)" for i e t
    using assms that by (auto simp: spans_match_def nth_append)
  then show ?thesis by (auto simp: ended_of_def intro!: map_cong filter_cong)
qed

lemma not_started_not_ended:
  assumes "spans_match ys sps" "started_of p ys = 0"
  shows "ended_of p ys = []"
proof -
  have l: "length (started_calls ys) = length sps" using assms by (metis length_map spans_match_def)
  have "fst x \<noteq> p" if "x \<in> set (started_calls ys)" for x
    using assms(2) that by (auto simp: started_of_def filter_empty_conv)
  then have "fst (started_calls ys ! fst c) \<noteq> p" if "c \<in> set (ended_calls ys)" for c
    using assms(1) that l by (simp add: spans_match_def)
  then show ?thesis by (fastforce simp: ended_of_def filter_empty_conv)
qed

lemma op_spec_end:
  assumes "started_calls ys ! i = (p, t)"
  shows "op_spec ctx_err p (ys @ [CEnd i e now]) = end_op ctx_err e (now - t) (op_spec ctx_err p ys)"
    "q \<noteq> p \<Longrightarrow> op_spec ctx_err q (ys @ [CEnd i e now]) = op_spec ctx_err q ys"
  using assms by (simp_all add: op_spec_def end_op_def split: option.split)

lemma started_nth:
  assumes "spans_match ys sps" "i < length sps"
  shows "started_calls ys ! i = (sp_op (sps ! i), sp_start (sps ! i))" "started_of (sp_op (sps ! i)) ys \<noteq> 0"
proof -
  show n: "started_calls ys ! i = (sp_op (sps ! i), sp_start (sps ! i))"
    using assms nth_map [of i sps "\<lambda>sp. (sp_op sp, sp_start sp)"] by (simp add: spans_match_def)
  have "length (started_calls ys) = length sps" using assms by (metis length_map spans_match_def)
  then have "started_calls ys ! i \<in> set (started_calls ys)" using assms(2) by simp
  then show "started_of (sp_op (sps ! i)) ys \<noteq> 0" using n by (auto simp: started_of_def filter_empty_conv)
qed

lemma start_match:
  assumes sp: "spans_match ys sps" and st: "stats_match ctx_err ys s" and r: "StartSpan op now (Some s) = (x, s')"
  shows "\<not> sp_done x \<and> spans_match (ys @ [CStart op now]) (sps @ [x]) \<and> (\<exists>t. s' = Some t \<and> stats_match ctx_err (ys @ [CStart op now]) t)"
proof -
  let ?o = "case op_of s op of None \<Rightarrow> zero_op | Some o' \<Rightarrow> o'"
  let ?t = "(set_op op (?o\<lparr>Started := Started ?o + 1\<rparr>) s)\<lparr>MetricOpStarted := inc op 1 (MetricOpStarted s)\<rparr>"
  have e: "s' = Some ?t" "x = \<lparr>sp_live = True, sp_op = op, sp_start = now, sp_done = False\<rparr>" using r by (auto simp: StartSpan_def Let_def)
  have o: "?o = op_spec ctx_err op ys"
    using st not_started_not_ended [OF sp, of op] by (simp add: stats_match_def op_spec_def zero_op_def)
  have n1: "op_spec ctx_err op (ys @ [CStart op now]) = ?o\<lparr>Started := Started ?o + 1\<rparr>"
    unfolding o by (simp add: op_spec_def ended_of_start [OF sp])
  have n2: "op_spec ctx_err p (ys @ [CStart op now]) = op_spec ctx_err p ys" if "p \<noteq> op" for p
    using that by (simp add: op_spec_def ended_of_start [OF sp])
  have "stats_match ctx_err (ys @ [CStart op now]) ?t"
    unfolding stats_match_def
  proof (intro conjI allI)
    show "op_of ?t p = (if started_of p (ys @ [CStart op now]) = 0 then None else Some (op_spec ctx_err p (ys @ [CStart op now])))" for p
      using st by (cases "p = op") (simp_all add: n1 n2 stats_match_def)
  qed (use st in \<open>auto simp: stats_match_def inc_def ended_of_start [OF sp]\<close>)
  moreover have "spans_match (ys @ [CStart op now]) (sps @ [x])"
    using sp e(2) by (auto simp: spans_match_def nth_append)
  ultimately show ?thesis using e by simp
qed

lemma end_match:
  assumes sp: "spans_match ys sps" and st: "stats_match ctx_err ys s" and i: "i < length sps" "\<not> sp_done (sps ! i)"
  shows "\<exists>t. End ctx_err e now (sps ! i) (Some s) = Some ((sps ! i)\<lparr>sp_done := True\<rparr>, Some t) \<and>
     spans_match (ys @ [CEnd i e now]) (sps[i := (sps ! i)\<lparr>sp_done := True\<rparr>]) \<and> stats_match ctx_err (ys @ [CEnd i e now]) t"
proof -
  let ?op = "sp_op (sps ! i)" and ?sps = "sps[i := (sps ! i)\<lparr>sp_done := True\<rparr>]" and ?d = "now - sp_start (sps ! i)"
  note n = started_nth [OF sp i(1)]
  have l: "sp_live (sps ! i)" using sp i(1) by (simp add: spans_match_def)
  have o: "op_of s ?op = Some (op_spec ctx_err ?op ys)" using st n(2) by (simp add: stats_match_def)
  let ?t = "(set_op ?op (end_op ctx_err e ?d (op_spec ctx_err ?op ys)) s)\<lparr>MetricOpEnded := inc ?op 1 (MetricOpEnded s), MetricOpDuration := add_dur ?op ?d (MetricOpDuration s)\<rparr>"
  have "End ctx_err e now (sps ! i) (Some s) = Some ((sps ! i)\<lparr>sp_done := True\<rparr>, Some ?t)" using i(2) l o by (simp add: End_def Let_def)
  moreover have "stats_match ctx_err (ys @ [CEnd i e now]) ?t"
    unfolding stats_match_def
  proof (intro conjI allI)
    show "op_of ?t p = (if started_of p (ys @ [CEnd i e now]) = 0 then None else Some (op_spec ctx_err p (ys @ [CEnd i e now])))" for p
      using op_spec_end [OF n(1)] n(2) st by (simp add: stats_match_def)
  qed (use st n(1) in \<open>auto simp: stats_match_def inc_def add_dur_def\<close>)
  moreover have "spans_match (ys @ [CEnd i e now]) ?sps"
    unfolding spans_match_def
  proof (intro conjI)
    show "map (\<lambda>sp. (sp_op sp, sp_start sp)) ?sps = started_calls (ys @ [CEnd i e now])"
      using sp n(1) by (simp add: spans_match_def map_update) (metis list_update_id)
    show "\<forall>sp \<in> set ?sps. sp_live sp" using sp l by (auto simp: spans_match_def dest: set_update_subset_insert [THEN subsetD])
    show "\<forall>c \<in> set (ended_calls (ys @ [CEnd i e now])). fst c < length ?sps \<and> sp_done (?sps ! fst c)"
      using sp i(1) by (auto simp: spans_match_def nth_list_update)
  qed
  ultimately show ?thesis by blast
qed

lemma run_match:
  "spans_match ys sps \<Longrightarrow> stats_match ctx_err ys s \<Longrightarrow> ends_once (map sp_done sps) xs \<Longrightarrow>
   \<exists>sps' t. stat_run ctx_err xs (sps, Some s) = Some (sps', Some t) \<and> spans_match (ys @ xs) sps' \<and> stats_match ctx_err (ys @ xs) t"
proof (induction "map sp_done sps" xs arbitrary: ys sps s rule: ends_once.induct)
  case (2 op now xs)
  obtain x s' where x: "StartSpan op now (Some s) = (x, s')" by fastforce
  obtain t where t: "s' = Some t" "stats_match ctx_err (ys @ [CStart op now]) t"
    "spans_match (ys @ [CStart op now]) (sps @ [x])" "\<not> sp_done x" using start_match [OF 2(2,3) x] by blast
  then show ?case using 2(1) [of "sps @ [x]" "ys @ [CStart op now]" t] 2(4) x by auto
next
  case (3 i e now xs)
  then have i: "i < length sps" "\<not> sp_done (sps ! i)" by auto
  let ?sps = "sps[i := (sps ! i)\<lparr>sp_done := True\<rparr>]"
  obtain t where t: "End ctx_err e now (sps ! i) (Some s) = Some ((sps ! i)\<lparr>sp_done := True\<rparr>, Some t)"
    "spans_match (ys @ [CEnd i e now]) ?sps" "stats_match ctx_err (ys @ [CEnd i e now]) t"
    using end_match [OF 3(2,3) i] by blast
  have "map sp_done ?sps = (map sp_done sps)[i := True]" by (simp add: map_update)
  then show ?case using 3(1) [OF _ t(2,3)] 3(4) t(1) i by auto
qed auto

text \<open>
  C36. The statistics are exact: over any sequence of spans started and ended on new statistics, each
  ended at most once, nothing panics, and afterwards an operation has an entry exactly when it was started,
  whose fields are determined by the calls: how many of its spans were started and ended, how many
  ended with an error and with a context's error, and the sum of their durations.  The three
  metrics exist and are, for every operation, the same counts and the same durations in the order of the ends.
  Ending a span that has ended panics.
\<close>
theorem stats_exact:
  assumes "ends_once [] xs"
  shows "\<exists>sps s. stat_run ctx_err xs ([], Some NewStatsWithRegistry) = Some (sps, Some s) \<and>
    (\<forall>op. op_of s op =
       (if started_of op xs = 0 then None
        else Some \<lparr>Started = int (started_of op xs), Ended = int (length (ended_of op xs)),
               Errs = int (length (filter (\<lambda>(e, d). e \<noteq> None) (ended_of op xs))),
               CtxErrs = int (length (filter (\<lambda>(e, d). \<exists>x. e = Some x \<and> ctx_err x) (ended_of op xs))),
               TotalDur = sum_list (map snd (ended_of op xs))\<rparr>)) \<and>
    MetricOpStarted s = Some (\<lambda>op. int (started_of op xs)) \<and>
    MetricOpEnded s = Some (\<lambda>op. int (length (ended_of op xs))) \<and>
    MetricOpDuration s = Some (\<lambda>op. map snd (ended_of op xs)) \<and>
    (\<forall>(i, _) \<in> set (ended_calls xs). \<forall>e now. stat_step ctx_err (CEnd i e now) (sps, Some s) = None)"
proof -
  have "spans_match [] []" "stats_match ctx_err [] NewStatsWithRegistry"
    by (simp_all add: spans_match_def stats_match_def NewStatsWithRegistry_def op_of_def started_of_def ended_of_def started_calls_def ended_calls_def)
  from run_match [OF this, of xs] assms obtain sps s where
    r: "stat_run ctx_err xs ([], Some NewStatsWithRegistry) = Some (sps, Some s)" "spans_match xs sps" "stats_match ctx_err xs s" by auto
  have "sp_done (sps ! i)" if "(i, e', now') \<in> set (ended_calls xs)" for i e' now'
    using r(2) that by (auto simp: spans_match_def)
  then have "\<forall>(i, _) \<in> set (ended_calls xs). \<forall>e now. stat_step ctx_err (CEnd i e now) (sps, Some s) = None"
    by (auto simp: End_def)
  then show ?thesis using r(1,3) by (intro exI [of _ sps] exI [of _ s] conjI) (simp_all add: stats_match_def op_spec_def)
qed

theorem stats_exact_witness:
  "\<exists>sps s. stat_run (\<lambda>e. e = ''canceled'') [CStart ''op'' 0, CStart ''op'' 1, CEnd (Suc 0) (Some ''canceled'') 5, CEnd 0 (Some ''other'') 8] ([], Some NewStatsWithRegistry) = Some (sps, Some s) \<and>
     op_of s ''op'' = Some \<lparr>Started = 2, Ended = 2, Errs = 2, CtxErrs = 1, TotalDur = 12\<rparr> \<and> op_of s ''no'' = None \<and>
     map_option (\<lambda>m. m ''op'') (MetricOpDuration s) = Some [4, 8]"
proof -
  let ?xs = "[CStart ''op'' 0, CStart ''op'' 1, CEnd (Suc 0) (Some ''canceled'') 5, CEnd 0 (Some ''other'') 8]"
  have e: "ends_once [] ?xs" by simp
  have c: "started_of ''op'' ?xs = 2" "started_of ''no'' ?xs = 0" "ended_of ''op'' ?xs = [(Some ''canceled'', 4), (Some ''other'', 8)]"
    by (simp_all add: started_of_def ended_of_def started_calls_def ended_calls_def)
  from stats_exact [OF e, of "\<lambda>e. e = ''canceled''"] obtain sps s where
    r: "stat_run (\<lambda>e. e = ''canceled'') ?xs ([], Some NewStatsWithRegistry) = Some (sps, Some s)" and
    o: "\<forall>op. op_of s op =
       (if started_of op ?xs = 0 then None
        else Some \<lparr>Started = int (started_of op ?xs), Ended = int (length (ended_of op ?xs)),
               Errs = int (length (filter (\<lambda>(e, d). e \<noteq> None) (ended_of op ?xs))),
               CtxErrs = int (length (filter (\<lambda>(e, d). \<exists>x. e = Some x \<and> x = ''canceled'') (ended_of op ?xs))),
               TotalDur = sum_list (map snd (ended_of op ?xs))\<rparr>)" and
    d: "MetricOpDuration s = Some (\<lambda>op. map snd (ended_of op ?xs))"
    by blast
  show ?thesis using r o [THEN spec, of "''op''"] o [THEN spec, of "''no''"] d by (intro exI [of _ sps] exI [of _ s]) (simp add: c)
qed

end
