(* ===== verification/Gomodfs_Main.thy ===== *)
theory Gomodfs_Main
  imports Read_Cache Store_Iface Go_Encoding
begin

text \<open>
  The command, \<^verbatim>\<open>cmd/gomodfs\<close>, and mounting (\<^verbatim>\<open>gomodfs.go\<close>): from flags to a configured file system, the services
  it starts and the mount it makes.  The operating system is a parameter, and what the process asks
  of it is a trace of actions.  The logger of the NFS server (\<^verbatim>\<open>log.go\<close>) is here too.
\<close>

section \<open>Logging\<close>

datatype LogLevel = PanicLevel | FatalLevel | ErrorLevel | WarnLevel | InfoLevel | DebugLevel | TraceLevel

definition level_no :: "LogLevel \<Rightarrow> nat" where
  "level_no l = (case l of PanicLevel \<Rightarrow> 0 | FatalLevel \<Rightarrow> 1 | ErrorLevel \<Rightarrow> 2 | WarnLevel \<Rightarrow> 3 | InfoLevel \<Rightarrow> 4 | DebugLevel \<Rightarrow> 5 | TraceLevel \<Rightarrow> 6)"

definition level_str :: "LogLevel \<Rightarrow> string" where
  "level_str l = (case l of PanicLevel \<Rightarrow> ''[PANIC] '' | FatalLevel \<Rightarrow> ''[FATAL] '' | ErrorLevel \<Rightarrow> ''[ERROR] '' | WarnLevel \<Rightarrow> ''[WARN] ''
     | InfoLevel \<Rightarrow> ''[INFO] '' | DebugLevel \<Rightarrow> ''[DEBUG] '' | TraceLevel \<Rightarrow> ''[TRACE] '')"

definition ParseLevel :: "string \<Rightarrow> LogLevel option" where
  "ParseLevel level =
     map_of [(''panic'', PanicLevel), (''fatal'', FatalLevel), (''error'', ErrorLevel), (''warn'', WarnLevel), (''info'', InfoLevel),
       (''debug'', DebugLevel), (''trace'', TraceLevel)] level"

text \<open>The package's \<^verbatim>\<open>init\<close>; the level of a new logger is the zero value.\<close>

definition log_init :: "string \<Rightarrow> LogLevel" where
  "log_init env =
     (if env \<noteq> [] then (case ParseLevel env of Some l \<Rightarrow> l | None \<Rightarrow> PanicLevel)
      else InfoLevel)"

text \<open>
  The methods named after the levels, and their variants with a format: what is printed, \<open>msg\<close> being the
  formatted arguments.  None of them panics or exits.
\<close>

definition log_method :: "LogLevel \<Rightarrow> LogLevel \<Rightarrow> string \<Rightarrow> string option" where
  "log_method m level msg = (if level_no level < level_no m then None else Some (level_str m @ msg))"

definition log_Print :: "string \<Rightarrow> string option" where
  "log_Print msg = Some msg"

lemma log_init_invalid: "env \<noteq> [] \<Longrightarrow> ParseLevel env = None \<Longrightarrow> level_no m \<noteq> 0 \<Longrightarrow> log_method m (log_init env) msg = None"
  by (simp add: log_init_def log_method_def level_no_def)

section \<open>Flags and the operating system\<close>

record flags =
  debugListen :: string
  verbose :: bool
  useWebDAV :: bool
  flagNFS :: string
  flagMountPoint :: string
  flagMemLimitMB :: "64 word"
  portmapper :: bool
  flagWinFSP :: bool
  flagNFSForWindows :: bool
  flagRemoteStore :: string
  flagServeStoreAPI :: string

record tcp_addr =
  a_IP :: bytes
  a_Port :: nat

text \<open>
  \<open>os_ip\<close> prints an address; \<open>os_fuse\<close> and \<open>os_winfsp\<close> are the libraries' mounts, on the platforms that have
  them.
\<close>

record os =
  os_GOOS :: string
  os_Getenv :: "string \<Rightarrow> string"
  os_UserHomeDir :: "err + string"
  os_Join :: "string list \<Rightarrow> string"
  os_MkdirAll :: "string \<Rightarrow> err option"
  os_Run :: "string list \<Rightarrow> err option"
  os_Listen :: "string \<Rightarrow> err + tcp_addr"
  os_ListenPacket :: "string \<Rightarrow> err option"
  os_ip :: "bytes \<Rightarrow> string"
  os_fuse :: "string \<Rightarrow> err option"
  os_winfsp :: "string \<Rightarrow> err option"

datatype action =
    Command "string list"
  | Mkdir string
  | Serve_portmap nat
  | Serve_debug tcp_addr
  | Serve_store tcp_addr
  | Serve_nfs tcp_addr bool
  | Serve_webdav tcp_addr
  | Set_level LogLevel
  | Mount_fuse string
  | Mount_winfsp string

text \<open>How \<^verbatim>\<open>main\<close> ends: it exits, panics, waits for the mount to end, or blocks for ever.\<close>

datatype outcome = Exits string | Panics string | Waits | Blocks

section \<open>The file system object\<close>

datatype which_store = Git_store string | Remote_store string

record fs_conf =
  cf_Store :: which_store
  cf_Verbose :: bool
  cf_ReadOnly :: bool
  cf_FileCacheSize :: int

definition gitCache :: "os \<Rightarrow> string \<Rightarrow> string" where
  "gitCache W homeDir = os_Join W [homeDir, ''.cache'', ''gomodfs'']"

definition memLimit :: "flags \<Rightarrow> int" where
  "memLimit F = (if flagMemLimitMB F \<noteq> 0 then sint (push_bit 20 (flagMemLimitMB F)) else 0)"

definition main_fs :: "os \<Rightarrow> flags \<Rightarrow> string \<Rightarrow> fs_conf" where
  "main_fs W F homeDir =
     (if flagRemoteStore F \<noteq> []
      then \<lparr>cf_Store = Remote_store (flagRemoteStore F), cf_Verbose = verbose F, cf_ReadOnly = True, cf_FileCacheSize = memLimit F\<rparr>
      else \<lparr>cf_Store = Git_store (gitCache W homeDir), cf_Verbose = verbose F, cf_ReadOnly = False, cf_FileCacheSize = memLimit F\<rparr>)"

section \<open>Mounting\<close>

definition linuxNFSMountOpts :: "nat \<Rightarrow> string" where
  "linuxNFSMountOpts nfsPort = join_on (CHR '','')
     [''port='' @ dec nfsPort, ''mountport='' @ dec nfsPort, ''vers=3'', ''tcp'', ''local_lock=all'', ''timeo=1800'', ''ro'']"

definition darwinNFSMountOpts :: "nat \<Rightarrow> string" where
  "darwinNFSMountOpts nfsPort = join_on (CHR '','')
     [''port='' @ dec nfsPort, ''mountport='' @ dec nfsPort, ''vers=3'', ''tcp'', ''locallocks'', ''timeo=1800'', ''rdonly'']"

text \<open>\<^verbatim>\<open>netip.Addr\<close>'s \<^verbatim>\<open>IsUnspecified\<close> and \<^verbatim>\<open>IsLoopback\<close>, which looks through IPv4-mapped addresses.\<close>

definition v4_in_v6 :: "bytes \<Rightarrow> bool" where
  "v4_in_v6 ip \<longleftrightarrow> length ip = 16 \<and> take 12 ip = replicate 10 0 @ [255, 255]"

definition IsUnspecified :: "bytes \<Rightarrow> bool" where
  "IsUnspecified ip \<longleftrightarrow> list_all (\<lambda>b. b = 0) ip"

definition IsLoopback :: "bytes \<Rightarrow> bool" where
  "IsLoopback ip \<longleftrightarrow>
     (let ip = (if v4_in_v6 ip then drop 12 ip else ip) in
      if length ip = 4 then ip ! 0 = 127 else ip = replicate 15 0 @ [1])"

text \<open>The command that mounts, or the error that there is none.\<close>

definition nfs_mount_cmd :: "os \<Rightarrow> string \<Rightarrow> tcp_addr \<Rightarrow> err + string list" where
  "nfs_mount_cmd W mntDir a =
     (if length (a_IP a) \<noteq> 4 \<and> length (a_IP a) \<noteq> 16 then Inl (ErrMsg ''gomodfs: invalid NFS address'')
      else
      let ip = (if IsUnspecified (a_IP a) \<or> IsLoopback (a_IP a) then ''127.0.0.1'' else os_ip W (a_IP a)) in
      if os_GOOS W = ''darwin'' then Inr [''/sbin/mount'', ''-t'', ''nfs'', ''-o'', darwinNFSMountOpts (a_Port a), ip @ '':/'', mntDir]
      else if os_GOOS W = ''linux'' then Inr [''/usr/bin/mount'', ''-t'', ''nfs'', ''-o'', linuxNFSMountOpts (a_Port a), ip @ '':/'', mntDir]
      else Inl (ErrMsg ''gomodfs: unsupported OS''))"

definition MountNFS :: "os \<Rightarrow> string \<Rightarrow> tcp_addr \<Rightarrow> action list \<Rightarrow> err option \<times> action list" where
  "MountNFS W mntDir a tr =
     (case nfs_mount_cmd W mntDir a of
        Inl e \<Rightarrow> (Some e, tr)
      | Inr cmd \<Rightarrow> (map_option (\<lambda>e. Wrap ''gomodfs: failed to run mount command'' [e]) (os_Run W cmd), tr @ [Command cmd]))"

definition MountWebDAV :: "os \<Rightarrow> string \<Rightarrow> action list \<Rightarrow> err option \<times> action list" where
  "MountWebDAV W mntPoint tr =
     (if os_GOOS W \<noteq> ''darwin'' then (Some (ErrMsg ''gomodfs: WebDAV mount is currently only supported on macOS''), tr)
      else case (case os_Listen W ''localhost:8793'' of Inl _ \<Rightarrow> os_Listen W ''localhost:0'' | Inr a \<Rightarrow> Inr a) of
        Inl e \<Rightarrow> (Some (Wrap ''gomodfs: failed to listen on port'' [e]), tr)
      | Inr a \<Rightarrow>
          let cmd = [''/sbin/mount_webdav'', ''-S'', ''-v'', ''gomodfs'', ''http://localhost:'' @ dec (a_Port a), mntPoint]
          in (map_option (\<lambda>e. Wrap ''gomodfs: failed to mount WebDAV'' [e]) (os_Run W cmd), tr @ [Serve_webdav a, Command cmd]))"

definition MountFUSE :: "os \<Rightarrow> string \<Rightarrow> action list \<Rightarrow> err option \<times> action list" where
  "MountFUSE W mntPoint tr =
     (if os_GOOS W = ''windows'' then (Some (ErrMsg ''FUSE mounting is not supported on Windows; use NFS or WebDAV mode instead''), tr)
      else (os_fuse W mntPoint, tr @ [Mount_fuse mntPoint]))"

definition MountWinFSP :: "os \<Rightarrow> string \<Rightarrow> action list \<Rightarrow> err option \<times> action list" where
  "MountWinFSP W mntDir tr =
     (if os_GOOS W \<noteq> ''windows'' then (Some (ErrMsg ''WinFSP mounting is only supported on Windows''), tr)
      else (map_option (\<lambda>e. Wrap ''winfsp.Mount'' [e]) (os_winfsp W mntDir), tr @ [Mount_winfsp mntDir]))"

section \<open>The program\<close>

text \<open>A stage of \<^verbatim>\<open>main\<close> ends the program or goes on; \<^verbatim>\<open>nfsListenAddr\<close> is passed along.\<close>

record run =
  r_trace :: "action list"
  r_nfs :: "tcp_addr option"

type_synonym stage = "run \<Rightarrow> outcome option \<times> run"

definition act :: "action list \<Rightarrow> run \<Rightarrow> run" where
  "act as r = r\<lparr>r_trace := r_trace r @ as\<rparr>"

fun stages :: "stage list \<Rightarrow> stage" where
  "stages [] r = (None, r)"
| "stages (st # sts) r = (case st r of (Some e, r') \<Rightarrow> (Some e, r') | (None, r') \<Rightarrow> stages sts r')"

definition setup_store :: "os \<Rightarrow> flags \<Rightarrow> stage" where
  "setup_store W F r =
     (if flagRemoteStore F \<noteq> [] then (None, r)
      else case os_UserHomeDir W of
        Inl e \<Rightarrow> (Some (Exits ''os.UserHomeDir''), r)
      | Inr homeDir \<Rightarrow>
          if os_MkdirAll W (gitCache W homeDir) \<noteq> None then (Some (Panics ''Failed to create git cache directory''), act [Mkdir (gitCache W homeDir)] r)
          else (None, act [Mkdir (gitCache W homeDir), Command [''git'', ''init'', gitCache W homeDir]] r))"

definition prepare_mountpoint :: "os \<Rightarrow> flags \<Rightarrow> stage" where
  "prepare_mountpoint W F r =
     (let mntDir = flagMountPoint F in
      if mntDir \<noteq> [] \<and> os_GOOS W \<noteq> ''windows'' then
        (let r = act [Command [''umount'', mntDir]] r;
             r = (if os_Getenv W ''GOOS'' = ''darwin'' then act [Command [''diskutil'', ''unmount'', ''force'', mntDir]] r else r);
             r = act [Mkdir mntDir] r
         in if os_MkdirAll W mntDir \<noteq> None then (Some (Panics ''Failed to create mount directory''), r) else (None, r))
      else (None, r))"

definition startPortmapper :: "os \<Rightarrow> err option \<times> action list" where
  "startPortmapper W =
     (case os_Listen W '':111'' of
        Inl e \<Rightarrow> (Some e, [])
      | Inr _ \<Rightarrow> (case os_ListenPacket W '':111'' of Some e \<Rightarrow> (Some e, []) | None \<Rightarrow> (None, [Serve_portmap 2049])))"

definition start_portmapper :: "os \<Rightarrow> flags \<Rightarrow> stage" where
  "start_portmapper W F r =
     (if portmapper F then (case startPortmapper W of (Some e, as) \<Rightarrow> (Some (Exits ''Failed to start portmapper''), act as r) | (None, as) \<Rightarrow> (None, act as r))
      else (None, r))"

definition start_debug :: "os \<Rightarrow> flags \<Rightarrow> stage" where
  "start_debug W F r =
     (if debugListen F \<noteq> [] then
        (case os_Listen W (debugListen F) of Inl e \<Rightarrow> (Some (Exits ''Failed to listen''), r) | Inr a \<Rightarrow> (None, act [Serve_debug a] r))
      else (None, r))"

definition start_store_api :: "os \<Rightarrow> flags \<Rightarrow> stage" where
  "start_store_api W F r =
     (if flagServeStoreAPI F \<noteq> [] then
        (case os_Listen W (flagServeStoreAPI F) of Inl e \<Rightarrow> (Some (Exits ''Failed to listen on store API address''), r) | Inr a \<Rightarrow> (None, act [Serve_store a] r))
      else (None, r))"

definition start_nfs :: "os \<Rightarrow> flags \<Rightarrow> stage" where
  "start_nfs W F r =
     (if flagNFS F \<noteq> [] then
        (let r = (if verbose F then act [Set_level TraceLevel] r else r)
         in case os_Listen W (flagNFS F) of
              Inl e \<Rightarrow> (Some (Exits ''Failed to listen on NFS port''), r)
            | Inr a \<Rightarrow> (None, (act [Serve_nfs a (flagNFSForWindows F)] r)\<lparr>r_nfs := Some a\<rparr>))
      else (None, r))"

definition main_mntDir :: "os \<Rightarrow> flags \<Rightarrow> string" where
  "main_mntDir W F = (if os_GOOS W = ''windows'' \<and> flagWinFSP F \<and> flagMountPoint F = [] then ''M:'' else flagMountPoint F)"

definition main_mount :: "os \<Rightarrow> flags \<Rightarrow> stage" where
  "main_mount W F r =
     (let mntDir = main_mntDir W F in
      if mntDir = [] then (Some Blocks, r)
      else if \<not> useWebDAV F \<and> \<not> flagWinFSP F \<and> flagNFS F \<noteq> [] \<and> r_nfs r = None then (Some (Panics ''interface conversion''), r)
      else
      let ((e, tr), runner) =
        (if useWebDAV F then (MountWebDAV W mntDir (r_trace r), True)
         else if flagWinFSP F then (MountWinFSP W mntDir (r_trace r), True)
         else if flagNFS F \<noteq> [] then (MountNFS W mntDir (the (r_nfs r)) (r_trace r), False)
         else (MountFUSE W mntDir (r_trace r), True));
        r = r\<lparr>r_trace := tr\<rparr>
      in if e \<noteq> None then (Some (Exits ''Failed to mount filesystem''), r)
         else (Some (if runner then Waits else Blocks), r))"

definition main_run :: "os \<Rightarrow> flags \<Rightarrow> outcome option \<times> run" where
  "main_run W F =
     stages [setup_store W F, prepare_mountpoint W F, start_portmapper W F, start_debug W F, start_store_api W F, start_nfs W F, main_mount W F]
       \<lparr>r_trace = [], r_nfs = None\<rparr>"

section \<open>What it starts\<close>

text \<open>
  What has to have happened for each flag, and when it can: relations between the operating system's
  answers and the actions, one for each part of the start-up.
\<close>

definition repo_made :: "os \<Rightarrow> flags \<Rightarrow> action list \<Rightarrow> bool" where
  "repo_made W F as \<longleftrightarrow>
     (if flagRemoteStore F \<noteq> [] then as = []
      else \<exists>home d. os_UserHomeDir W = Inr home \<and> d = os_Join W [home, ''.cache'', ''gomodfs''] \<and> os_MkdirAll W d = None \<and>
        as = [Mkdir d, Command [''git'', ''init'', d]])"

definition mountpoint_ready :: "os \<Rightarrow> flags \<Rightarrow> action list \<Rightarrow> bool" where
  "mountpoint_ready W F as \<longleftrightarrow>
     (let d = flagMountPoint F in
      if d = [] \<or> os_GOOS W = ''windows'' then as = []
      else os_MkdirAll W d = None \<and>
        as = [Command [''umount'', d]] @ (if os_Getenv W ''GOOS'' = ''darwin'' then [Command [''diskutil'', ''unmount'', ''force'', d]] else []) @ [Mkdir d])"

definition portmap_served :: "os \<Rightarrow> flags \<Rightarrow> action list \<Rightarrow> bool" where
  "portmap_served W F as \<longleftrightarrow>
     (if portmapper F then (\<exists>a. os_Listen W '':111'' = Inr a) \<and> os_ListenPacket W '':111'' = None \<and> as = [Serve_portmap 2049] else as = [])"

text \<open>A service that a flag gives an address for listens on that address.\<close>

definition serves_on :: "os \<Rightarrow> string \<Rightarrow> (tcp_addr \<Rightarrow> action list) \<Rightarrow> action list \<Rightarrow> bool" where
  "serves_on W addr f as \<longleftrightarrow> (if addr = [] then as = [] else \<exists>a. os_Listen W addr = Inr a \<and> as = f a)"

text \<open>The mount command for an NFS server at \<open>a\<close>: local addresses are mounted from 127.0.0.1.\<close>

definition local_ip :: "bytes \<Rightarrow> bool" where
  "local_ip ip \<longleftrightarrow> set ip \<subseteq> {0} \<or> length ip = 4 \<and> List.hd ip = 127 \<or> ip = replicate 15 0 @ [1] \<or>
     length ip = 16 \<and> take 13 ip = replicate 10 0 @ [255, 255, 127]"

definition nfs_command :: "os \<Rightarrow> string \<Rightarrow> tcp_addr \<Rightarrow> string list \<Rightarrow> bool" where
  "nfs_command W d a cmd \<longleftrightarrow> length (a_IP a) \<in> {4, 16} \<and>
     (let src = (if local_ip (a_IP a) then ''127.0.0.1'' else os_ip W (a_IP a)) @ '':/''; n = dec (a_Port a) in
      os_GOOS W = ''darwin'' \<and>
        cmd = [''/sbin/mount'', ''-t'', ''nfs'', ''-o'', ''port='' @ n @ '',mountport='' @ n @ '',vers=3,tcp,locallocks,timeo=1800,rdonly'', src, d] \<or>
      os_GOOS W = ''linux'' \<and>
        cmd = [''/usr/bin/mount'', ''-t'', ''nfs'', ''-o'', ''port='' @ n @ '',mountport='' @ n @ '',vers=3,tcp,local_lock=all,timeo=1800,ro'', src, d])"

definition webdav_addr :: "os \<Rightarrow> tcp_addr \<Rightarrow> bool" where
  "webdav_addr W a \<longleftrightarrow> os_Listen W ''localhost:8793'' = Inr a \<or> (\<exists>e. os_Listen W ''localhost:8793'' = Inl e) \<and> os_Listen W ''localhost:0'' = Inr a"

definition mount_done :: "os \<Rightarrow> flags \<Rightarrow> outcome \<Rightarrow> action list \<Rightarrow> bool" where
  "mount_done W F out as \<longleftrightarrow>
     (let d = (if flagMountPoint F = [] \<and> flagWinFSP F \<and> os_GOOS W = ''windows'' then ''M:'' else flagMountPoint F) in
      if d = [] then out = Blocks \<and> as = []
      else if useWebDAV F then out = Waits \<and> os_GOOS W = ''darwin'' \<and>
        (\<exists>a cmd. webdav_addr W a \<and> cmd = [''/sbin/mount_webdav'', ''-S'', ''-v'', ''gomodfs'', ''http://localhost:'' @ dec (a_Port a), d] \<and>
           os_Run W cmd = None \<and> as = [Serve_webdav a, Command cmd])
      else if flagWinFSP F then out = Waits \<and> os_GOOS W = ''windows'' \<and> os_winfsp W d = None \<and> as = [Mount_winfsp d]
      else if flagNFS F \<noteq> [] then out = Blocks \<and>
        (\<exists>a cmd. os_Listen W (flagNFS F) = Inr a \<and> nfs_command W d a cmd \<and> os_Run W cmd = None \<and> as = [Command cmd])
      else out = Waits \<and> os_GOOS W \<noteq> ''windows'' \<and> os_fuse W d = None \<and> as = [Mount_fuse d])"

definition started_up :: "os \<Rightarrow> flags \<Rightarrow> outcome \<Rightarrow> action list \<Rightarrow> bool" where
  "started_up W F out tr \<longleftrightarrow>
     (\<exists>repo mnt pm dbg api nfs m. tr = repo @ mnt @ pm @ dbg @ api @ nfs @ m \<and>
        repo_made W F repo \<and> mountpoint_ready W F mnt \<and> portmap_served W F pm \<and>
        serves_on W (debugListen F) (\<lambda>a. [Serve_debug a]) dbg \<and> serves_on W (flagServeStoreAPI F) (\<lambda>a. [Serve_store a]) api \<and>
        serves_on W (flagNFS F) (\<lambda>a. (if verbose F then [Set_level TraceLevel] else []) @ [Serve_nfs a (flagNFSForWindows F)]) nfs \<and>
        mount_done W F out m)"

text \<open>Each stage goes on exactly when its part has happened.\<close>

lemma setup_store_acts: "setup_store W F r = (None, r') \<longleftrightarrow> (\<exists>as. repo_made W F as \<and> r' = act as r)"
  by (auto simp: setup_store_def repo_made_def gitCache_def act_def split: if_splits sum.splits)

lemma prepare_acts: "prepare_mountpoint W F r = (None, r') \<longleftrightarrow> (\<exists>as. mountpoint_ready W F as \<and> r' = act as r)"
  by (auto simp: prepare_mountpoint_def mountpoint_ready_def act_def Let_def split: if_splits)

lemma portmapper_acts: "start_portmapper W F r = (None, r') \<longleftrightarrow> (\<exists>as. portmap_served W F as \<and> r' = act as r)"
  by (auto simp: start_portmapper_def startPortmapper_def portmap_served_def act_def split: if_splits sum.splits option.splits)

lemma debug_acts: "start_debug W F r = (None, r') \<longleftrightarrow> (\<exists>as. serves_on W (debugListen F) (\<lambda>a. [Serve_debug a]) as \<and> r' = act as r)"
  by (auto simp: start_debug_def serves_on_def act_def split: if_splits sum.splits)

lemma api_acts: "start_store_api W F r = (None, r') \<longleftrightarrow> (\<exists>as. serves_on W (flagServeStoreAPI F) (\<lambda>a. [Serve_store a]) as \<and> r' = act as r)"
  by (auto simp: start_store_api_def serves_on_def act_def split: if_splits sum.splits)

lemma nfs_stage_acts:
  assumes "r_nfs r = None"
  shows "start_nfs W F r = (None, r') \<longleftrightarrow>
    (\<exists>as. serves_on W (flagNFS F) (\<lambda>a. (if verbose F then [Set_level TraceLevel] else []) @ [Serve_nfs a (flagNFSForWindows F)]) as \<and>
       r' = (act as r)\<lparr>r_nfs := (if flagNFS F = [] then None else case os_Listen W (flagNFS F) of Inr a \<Rightarrow> Some a | Inl _ \<Rightarrow> None)\<rparr>)"
  using assms by (auto simp: start_nfs_def serves_on_def act_def Let_def split: if_splits sum.splits)

lemma local_ip_iff: "length ip \<in> {4, 16} \<Longrightarrow> IsUnspecified ip \<or> IsLoopback ip \<longleftrightarrow> local_ip ip"
proof -
  assume l: "length ip \<in> {4, 16}"
  have u: "IsUnspecified ip \<longleftrightarrow> set ip \<subseteq> {0}" by (auto simp: IsUnspecified_def list_all_iff)
  have h: "length ip = 4 \<Longrightarrow> ip ! 0 = List.hd ip" by (cases ip) auto
  have t: "take 13 ip = take 12 ip @ [drop 12 ip ! 0]" if "length ip = 16" using that take_Suc_conv_app_nth [of 12 ip] by simp
  have v: "take 13 ip = replicate 10 0 @ [255, 255, 127] \<longleftrightarrow> v4_in_v6 ip \<and> drop 12 ip ! 0 = 127" if "length ip = 16"
    unfolding t [OF that] v4_in_v6_def using that by simp
  have n: "\<not> v4_in_v6 (replicate 15 0 @ [1])" by code_simp
  have "IsLoopback ip \<longleftrightarrow> length ip = 4 \<and> List.hd ip = 127 \<or> ip = replicate 15 0 @ [1] \<or> length ip = 16 \<and> take 13 ip = replicate 10 0 @ [255, 255, 127]"
  proof (cases "length ip = 4")
    case True
    then have "\<not> v4_in_v6 ip" "ip \<noteq> replicate 15 0 @ [1]" by (auto simp: v4_in_v6_def)
    then show ?thesis using True h by (simp add: IsLoopback_def)
  next
    case False
    then have s: "length ip = 16" using l by simp
    show ?thesis
    proof (cases "v4_in_v6 ip")
      case True
      then have "ip \<noteq> replicate 15 0 @ [1]" using n by blast
      then show ?thesis using s v [OF s] True by (simp add: IsLoopback_def)
    qed (use s v [OF s] in \<open>simp add: IsLoopback_def\<close>)
  qed
  then show ?thesis unfolding local_ip_def u by blast
qed

lemma nfs_command_cmd: "nfs_mount_cmd W d a = Inr cmd \<longleftrightarrow> nfs_command W d a cmd"
proof (cases "length (a_IP a) \<in> {4, 16}")
  case True
  have "darwinNFSMountOpts n = ''port='' @ dec n @ '',mountport='' @ dec n @ '',vers=3,tcp,locallocks,timeo=1800,rdonly''"
    "linuxNFSMountOpts n = ''port='' @ dec n @ '',mountport='' @ dec n @ '',vers=3,tcp,local_lock=all,timeo=1800,ro''" for n
    by (simp_all add: darwinNFSMountOpts_def linuxNFSMountOpts_def)
  then show ?thesis using True local_ip_iff [OF True] by (auto simp: nfs_mount_cmd_def nfs_command_def Let_def)
qed (auto simp: nfs_mount_cmd_def nfs_command_def)

lemma mount_acts:
  assumes "flagNFS F \<noteq> [] \<longrightarrow> os_Listen W (flagNFS F) = Inr a \<and> r_nfs r = Some a"
  shows "main_mount W F r = (Some out, r') \<and> (out = Waits \<or> out = Blocks) \<longleftrightarrow> (\<exists>m. r' = act m r \<and> mount_done W F out m)"
proof -
  have d: "(if flagMountPoint F = [] \<and> flagWinFSP F \<and> os_GOOS W = ''windows'' then ''M:'' else flagMountPoint F) = main_mntDir W F"
    by (auto simp: main_mntDir_def)
  note D = main_mount_def mount_done_def [of W F, unfolded d] act_def Let_def
  show ?thesis
  proof (cases "main_mntDir W F = []")
    case True
    then show ?thesis by (auto simp: D)
  next
    case n: False
    consider "useWebDAV F" | "\<not> useWebDAV F" "flagWinFSP F" | "\<not> useWebDAV F" "\<not> flagWinFSP F" "flagNFS F \<noteq> []" | "\<not> useWebDAV F" "\<not> flagWinFSP F" "flagNFS F = []"
      by blast
    then show ?thesis
    proof cases
      case 1
      then show ?thesis using n by (auto simp: D MountWebDAV_def webdav_addr_def split: if_splits sum.splits option.splits)
    next
      case 2
      then show ?thesis using n by (auto simp: D MountWinFSP_def split: if_splits)
    next
      case 3
      then have "r_nfs r = Some a" "os_Listen W (flagNFS F) = Inr a" using assms by simp_all
      then show ?thesis using 3 n by (auto simp: D MountNFS_def nfs_command_cmd [symmetric] split: if_splits sum.splits)
    next
      case 4
      then show ?thesis using n by (auto simp: D MountFUSE_def split: if_splits)
    qed
  qed
qed

lemma main_mount_ends: "\<exists>out r'. main_mount W F r = (Some out, r')"
  by (simp add: main_mount_def Let_def case_prod_beta')

lemma stages_Cons:
  "stages (st # sts) r = (e, r'') \<longleftrightarrow> (\<exists>r'. st r = (None, r') \<and> stages sts r' = (e, r'')) \<or> (e \<noteq> None \<and> st r = (e, r''))"
  by (auto split: prod.splits option.splits)

lemma stage_fails:
  "setup_store W F r = (Some e, r') \<Longrightarrow> e \<noteq> Waits \<and> e \<noteq> Blocks"
  "prepare_mountpoint W F r = (Some e, r') \<Longrightarrow> e \<noteq> Waits \<and> e \<noteq> Blocks"
  "start_portmapper W F r = (Some e, r') \<Longrightarrow> e \<noteq> Waits \<and> e \<noteq> Blocks"
  "start_debug W F r = (Some e, r') \<Longrightarrow> e \<noteq> Waits \<and> e \<noteq> Blocks"
  "start_store_api W F r = (Some e, r') \<Longrightarrow> e \<noteq> Waits \<and> e \<noteq> Blocks"
  "start_nfs W F r = (Some e, r') \<Longrightarrow> e \<noteq> Waits \<and> e \<noteq> Blocks"
  by (auto simp: setup_store_def prepare_mountpoint_def start_portmapper_def startPortmapper_def start_debug_def start_store_api_def start_nfs_def Let_def
      split: if_splits sum.splits option.splits)

lemma stages_last: "(\<And>r. \<exists>e r'. st r = (Some e, r')) \<Longrightarrow> \<exists>e r'. stages (sts @ [st]) r = (Some e, r')"
proof (induction sts arbitrary: r)
  case Nil
  then show ?case by (metis (mono_tags, lifting) append_Nil stages.simps(2) case_prod_conv option.simps(5))
next
  case (Cons s sts)
  then show ?case by (cases "s r"; cases "fst (s r)") auto
qed

lemma main_run_ends: "\<exists>out r. main_run W F = (Some out, r)"
  using stages_last [of "main_mount W F" "[setup_store W F, prepare_mountpoint W F, start_portmapper W F, start_debug W F, start_store_api W F, start_nfs W F]"]
    main_mount_ends unfolding main_run_def by auto

lemma main_run_stages:
  assumes "out = Waits \<or> out = Blocks"
  shows "main_run W F = (Some out, r) \<longleftrightarrow>
    (\<exists>r1 r2 r3 r4 r5 r6. setup_store W F \<lparr>r_trace = [], r_nfs = None\<rparr> = (None, r1) \<and> prepare_mountpoint W F r1 = (None, r2) \<and>
       start_portmapper W F r2 = (None, r3) \<and> start_debug W F r3 = (None, r4) \<and> start_store_api W F r4 = (None, r5) \<and>
       start_nfs W F r5 = (None, r6) \<and> main_mount W F r6 = (Some out, r))"
  using assms unfolding main_run_def stages_Cons by (auto dest: stage_fails)

lemma main_run_started:
  assumes o: "out = Waits \<or> out = Blocks"
  shows "(\<exists>r. main_run W F = (Some out, r) \<and> r_trace r = tr) \<longleftrightarrow> started_up W F out tr"
proof
  assume "\<exists>r. main_run W F = (Some out, r) \<and> r_trace r = tr"
  then obtain r r1 r2 r3 r4 r5 r6 where t: "r_trace r = tr" and s: "setup_store W F \<lparr>r_trace = [], r_nfs = None\<rparr> = (None, r1)" "prepare_mountpoint W F r1 = (None, r2)"
    "start_portmapper W F r2 = (None, r3)" "start_debug W F r3 = (None, r4)" "start_store_api W F r4 = (None, r5)" "start_nfs W F r5 = (None, r6)"
    "main_mount W F r6 = (Some out, r)"
    unfolding main_run_stages [OF o] by blast
  obtain repo mnt pm dbg api where e: "repo_made W F repo" "mountpoint_ready W F mnt" "portmap_served W F pm" "serves_on W (debugListen F) (\<lambda>a. [Serve_debug a]) dbg"
    "serves_on W (flagServeStoreAPI F) (\<lambda>a. [Serve_store a]) api"
    and r: "r1 = act repo \<lparr>r_trace = [], r_nfs = None\<rparr>" "r2 = act mnt r1" "r3 = act pm r2" "r4 = act dbg r3" "r5 = act api r4"
    using s(1-5) unfolding setup_store_acts prepare_acts portmapper_acts debug_acts api_acts by blast
  have n5: "r_nfs r5 = None" using r by (simp add: act_def)
  obtain nfs where n: "serves_on W (flagNFS F) (\<lambda>a. (if verbose F then [Set_level TraceLevel] else []) @ [Serve_nfs a (flagNFSForWindows F)]) nfs"
    "r6 = (act nfs r5)\<lparr>r_nfs := (if flagNFS F = [] then None else case os_Listen W (flagNFS F) of Inr a \<Rightarrow> Some a | Inl _ \<Rightarrow> None)\<rparr>"
    using s(6) unfolding nfs_stage_acts [OF n5] by blast
  have a: "flagNFS F \<noteq> [] \<longrightarrow> os_Listen W (flagNFS F) = Inr (the (r_nfs r6)) \<and> r_nfs r6 = Some (the (r_nfs r6))" using n by (auto simp: serves_on_def)
  obtain m where m: "r = act m r6" "mount_done W F out m" using mount_acts [OF a, of out r] s(7) o by blast
  have "tr = repo @ mnt @ pm @ dbg @ api @ nfs @ m" using t r n(2) m(1) by (simp add: act_def)
  then show "started_up W F out tr" using e n(1) m(2) unfolding started_up_def by blast
next
  assume "started_up W F out tr"
  then obtain repo mnt pm dbg api nfs m where t: "tr = repo @ mnt @ pm @ dbg @ api @ nfs @ m"
    and e: "repo_made W F repo" "mountpoint_ready W F mnt" "portmap_served W F pm" "serves_on W (debugListen F) (\<lambda>a. [Serve_debug a]) dbg"
    "serves_on W (flagServeStoreAPI F) (\<lambda>a. [Serve_store a]) api"
    "serves_on W (flagNFS F) (\<lambda>a. (if verbose F then [Set_level TraceLevel] else []) @ [Serve_nfs a (flagNFSForWindows F)]) nfs" "mount_done W F out m"
    unfolding started_up_def by blast
  let ?r0 = "\<lparr>r_trace = [], r_nfs = None\<rparr>"
  let ?r1 = "act repo ?r0" let ?r2 = "act mnt ?r1" let ?r3 = "act pm ?r2" let ?r4 = "act dbg ?r3" let ?r5 = "act api ?r4"
  let ?r6 = "(act nfs ?r5)\<lparr>r_nfs := (if flagNFS F = [] then None else case os_Listen W (flagNFS F) of Inr a \<Rightarrow> Some a | Inl _ \<Rightarrow> None)\<rparr>"
  have s: "setup_store W F ?r0 = (None, ?r1)" "prepare_mountpoint W F ?r1 = (None, ?r2)" "start_portmapper W F ?r2 = (None, ?r3)"
    "start_debug W F ?r3 = (None, ?r4)" "start_store_api W F ?r4 = (None, ?r5)"
    unfolding setup_store_acts prepare_acts portmapper_acts debug_acts api_acts using e by blast+
  have n5: "r_nfs ?r5 = None" by (simp add: act_def)
  have s6: "start_nfs W F ?r5 = (None, ?r6)" unfolding nfs_stage_acts [OF n5] using e(6) by blast
  have a: "flagNFS F \<noteq> [] \<longrightarrow> os_Listen W (flagNFS F) = Inr (the (r_nfs ?r6)) \<and> r_nfs ?r6 = Some (the (r_nfs ?r6))" using e(6) by (auto simp: serves_on_def)
  have s7: "main_mount W F ?r6 = (Some out, act m ?r6)" using mount_acts [OF a, of out "act m ?r6"] e(7) by blast
  have "main_run W F = (Some out, act m ?r6)" unfolding main_run_stages [OF o] using s s6 s7 by blast
  moreover have "r_trace (act m ?r6) = tr" by (simp add: t act_def)
  ultimately show "\<exists>r. main_run W F = (Some out, r) \<and> r_trace r = tr" by blast
qed

text \<open>
  C37. The program does what its flags say: its start-up always comes to an end, and it ends serving (waiting
  for the mount to end, or blocking) exactly when all that the flags ask for succeeds, and then it has
  done exactly this, in this order: made the git repository in the cache directory of the home
  directory (unless the store is remote), prepared the mount point, started the port mapper if asked
  for, the debug server, the store API and the NFS server, each on the address of its own flag, and
  made the one mount asked for, which succeeded: WebDAV on macOS, WinFsp on Windows, NFS on Linux or
  macOS with the port the NFS server listens on, or FUSE.  Every other end is an exit or a panic.
\<close>
theorem main_starts:
  "\<exists>out tr. fst (main_run W F) = Some out \<and> r_trace (snd (main_run W F)) = tr \<and>
     (out = Waits \<or> out = Blocks \<longleftrightarrow> (\<exists>o' tr'. (o' = Waits \<or> o' = Blocks) \<and> started_up W F o' tr')) \<and>
     (out = Waits \<or> out = Blocks \<longrightarrow> started_up W F out tr) \<and>
     (\<forall>o' tr'. (o' = Waits \<or> o' = Blocks) \<and> started_up W F o' tr' \<longrightarrow> out = o' \<and> tr = tr')"
proof -
  obtain out r where m: "main_run W F = (Some out, r)" using main_run_ends by blast
  have s: "started_up W F out (r_trace r)" if "out = Waits \<or> out = Blocks" using main_run_started [OF that] m by blast
  have u: "out = o' \<and> r_trace r = tr'" if "o' = Waits \<or> o' = Blocks" "started_up W F o' tr'" for o' tr'
    using main_run_started [OF that(1), of W F tr'] that(2) m by auto
  show ?thesis unfolding m fst_conv snd_conv using s u by (intro exI [of _ out] exI [of _ "r_trace r"]) blast
qed

text \<open>An NFS server on Linux that mounts itself and serves the store API.\<close>

definition sample_os :: os where
  "sample_os = \<lparr>os_GOOS = ''linux'', os_Getenv = (\<lambda>_. []), os_UserHomeDir = Inr ''/root'', os_Join = join_on slash, os_MkdirAll = (\<lambda>_. None),
     os_Run = (\<lambda>_. None), os_Listen = (\<lambda>f. Inr \<lparr>a_IP = replicate 16 0, a_Port = (if f = '':2049'' then 2049 else 80)\<rparr>), os_ListenPacket = (\<lambda>_. None),
     os_ip = (\<lambda>_. ''10.0.0.1''), os_fuse = (\<lambda>_. None), os_winfsp = (\<lambda>_. None)\<rparr>"

definition sample_flags :: flags where
  "sample_flags = \<lparr>debugListen = [], verbose = False, useWebDAV = False, flagNFS = '':2049'', flagMountPoint = ''/mnt'', flagMemLimitMB = 0,
     portmapper = False, flagWinFSP = False, flagNFSForWindows = False, flagRemoteStore = [], flagServeStoreAPI = '':80''\<rparr>"

definition sample_trace :: "action list" where
  "sample_trace = [Mkdir ''/root/.cache/gomodfs'', Command [''git'', ''init'', ''/root/.cache/gomodfs''], Command [''umount'', ''/mnt''], Mkdir ''/mnt'',
     Serve_store \<lparr>a_IP = replicate 16 0, a_Port = 80\<rparr>, Serve_nfs \<lparr>a_IP = replicate 16 0, a_Port = 2049\<rparr> False,
     Command [''/usr/bin/mount'', ''-t'', ''nfs'', ''-o'', ''port=2049,mountport=2049,vers=3,tcp,local_lock=all,timeo=1800,ro'', ''127.0.0.1:/'', ''/mnt'']]"

lemma sample_started: "started_up sample_os sample_flags Blocks sample_trace"
  unfolding started_up_def
proof (intro exI conjI)
  let ?a = "\<lparr>a_IP = replicate 16 0, a_Port = 2049\<rparr>" and ?d = "''/root/.cache/gomodfs''"
  let ?cmd = "[''/usr/bin/mount'', ''-t'', ''nfs'', ''-o'', ''port=2049,mountport=2049,vers=3,tcp,local_lock=all,timeo=1800,ro'', ''127.0.0.1:/'', ''/mnt'']"
  show "sample_trace = [Mkdir ?d, Command [''git'', ''init'', ?d]] @ [Command [''umount'', ''/mnt''], Mkdir ''/mnt''] @ [] @ [] @
      [Serve_store \<lparr>a_IP = replicate 16 0, a_Port = 80\<rparr>] @ [Serve_nfs ?a False] @ [Command ?cmd]" by (simp add: sample_trace_def)
  show "repo_made sample_os sample_flags [Mkdir ?d, Command [''git'', ''init'', ?d]]" by (simp add: repo_made_def sample_os_def sample_flags_def)
  show "mountpoint_ready sample_os sample_flags [Command [''umount'', ''/mnt''], Mkdir ''/mnt'']" by (simp add: mountpoint_ready_def sample_os_def sample_flags_def)
  show "portmap_served sample_os sample_flags []" by (simp add: portmap_served_def sample_flags_def)
  show "serves_on sample_os (debugListen sample_flags) (\<lambda>a. [Serve_debug a]) []" by (simp add: serves_on_def sample_flags_def)
  show "serves_on sample_os (flagServeStoreAPI sample_flags) (\<lambda>a. [Serve_store a]) [Serve_store \<lparr>a_IP = replicate 16 0, a_Port = 80\<rparr>]"
    by (simp add: serves_on_def sample_flags_def sample_os_def)
  show "serves_on sample_os (flagNFS sample_flags) (\<lambda>a. (if verbose sample_flags then [Set_level TraceLevel] else []) @ [Serve_nfs a (flagNFSForWindows sample_flags)]) [Serve_nfs ?a False]"
    by (simp add: serves_on_def sample_flags_def sample_os_def)
  have "dec 2049 = ''2049''" by code_simp
  moreover have "local_ip (replicate 16 0)" by (simp add: local_ip_def)
  ultimately have "nfs_command sample_os ''/mnt'' ?a ?cmd" by (simp add: nfs_command_def sample_os_def)
  then show "mount_done sample_os sample_flags Blocks [Command ?cmd]" by (simp add: mount_done_def sample_os_def sample_flags_def)
qed

theorem main_starts_witness:
  "fst (main_run sample_os sample_flags) = Some Blocks \<and> r_trace (snd (main_run sample_os sample_flags)) = sample_trace"
  using main_starts [of sample_os sample_flags] sample_started by (elim exE conjE) auto

text \<open>A remote store is read-only; the limit is the number of mebibytes as long as that many bytes can be counted.\<close>

lemma main_fs_readonly: "cf_ReadOnly (main_fs W F h) \<longleftrightarrow> (\<exists>u. cf_Store (main_fs W F h) = Remote_store u)"
  by (simp add: main_fs_def)

lemma memLimit_exact:
  assumes "- (2 ^ 43) \<le> sint (flagMemLimitMB F)" "sint (flagMemLimitMB F) < 2 ^ 43"
  shows "memLimit F = sint (flagMemLimitMB F) * 2 ^ 20"
proof -
  let ?m = "flagMemLimitMB F"
  have "push_bit 20 ?m = word_of_int (sint ?m * 2 ^ 20)"
    by (simp add: push_bit_eq_mult)
  moreover have "sint (word_of_int (sint ?m * 2 ^ 20) :: 64 word) = sint ?m * 2 ^ 20"
    using signed_take_bit_int_eq_self [of 63 "sint ?m * 2 ^ 20"] assms unfolding signed_of_int by simp
  ultimately show ?thesis by (simp add: memLimit_def)
qed

text \<open>A limit of 16 tebibytes is no limit of its own but the default of 2 gibibytes.\<close>

lemma memLimit_wraps: "flagMemLimitMB F = 2 ^ 44 \<Longrightarrow> GetFileCacheSize (memLimit F) = 2 * 2 ^ 30"
  by (simp add: memLimit_def GetFileCacheSize_def)

end
