(* ===== verification/Spec2Isabelle.thy ===== *)
theory Spec2Isabelle
  imports Portmap Git_Roundtrip Remote_Roundtrip Nfs_Serving Nfs_Readonly Nfs_Listener Front_Ends Op_Stats Gomodfs_Main
begin

text \<open>
  \<^bold>\<open>gomodfs\<close> is a read-only file system that has the layout of \<^verbatim>\<open>GOMODCACHE\<close> and in which every version of
  every Go module seems to be present: a module is downloaded, and stored, when it is looked at.
  This development models the program component by component and proves what makes each component, and
  their compositions, correct.

  \<^bold>\<open>How the parts fit together.\<close>  A request reaches one of four front ends (NFS, WebDAV, FUSE, WinFsp).
  The front end turns a name, or an NFS handle, into a parsed path, and asks the file system object
  \<^verbatim>\<open>FS\<close> for the root of a module or for one of its metadata files.  \<^verbatim>\<open>FS\<close> asks its store and downloads on
  a miss.  A store is a git repository, or another gomodfs asked over HTTP.  Contents pass through
  caches that are built on one LRU cache.

  \<^bold>\<open>Vocabulary.\<close>  \<^theory_text>\<open>Go_Prelude\<close>, \<^theory_text>\<open>Go_Strings\<close> and \<^theory_text>\<open>Go_Encoding\<close> model the part of Go's standard library
  that the sources use: machine integers with their wrap-around, byte strings, \<^verbatim>\<open>strings\<close>, \<^verbatim>\<open>path\<close>,
  decimal, hexadecimal and URL encodings.  Effects are state passing; an error is the left side of a sum
  or a \<^const>\<open>Fail\<close>; a panic is a \<^const>\<open>Panic\<close>, or \<^const>\<open>None\<close> where nothing else can fail.

  \<^bold>\<open>Names and storage.\<close>
  \<^item> \<^theory_text>\<open>Mod_Path\<close> (\<^verbatim>\<open>path.go\<close>, \<^verbatim>\<open>tsgo.go\<close>): parsing a name, with the memo table, and the functions that build
    names.  Names are read back as they were built, and every parsed path is consistent with its name.
  \<^item> \<^theory_text>\<open>Store_Iface\<close> (\<^verbatim>\<open>store/store.go\<close>): the store as a record of operations over its state.
  \<^item> \<^theory_text>\<open>Module_FS\<close> (\<^verbatim>\<open>gomodfs.go\<close>, \<^verbatim>\<open>tsgo.go\<close>): proxies and their fallbacks, zip sets, toolchain modules, zip
    roots and metadata files.  Which proxy a download comes from, and what read-only mode rules out.
  \<^item> \<^theory_text>\<open>Lru_Cache\<close> (\<^verbatim>\<open>internal/lru\<close>): the ring of entries in an explicit heap, refined to a list of pairs.
    \<^theory_text>\<open>Read_Cache\<close> (\<^verbatim>\<open>nfs.go\<close>, \<^verbatim>\<open>gomodfs.go\<close>): the two content caches on top of it, through its interface.
  \<^item> \<^theory_text>\<open>Git_Helper\<close>, \<^theory_text>\<open>Git_Objects\<close>, \<^theory_text>\<open>Git_Trees\<close>, \<^theory_text>\<open>Git_Pack\<close>, \<^theory_text>\<open>Git_Store\<close>, \<^theory_text>\<open>Git_Listing\<close>
    (\<^verbatim>\<open>store/gitstore\<close>): the batch helper and its queue under every interleaving, trees, packs,
    references and listings, each read back the way git reads it.  \<^theory_text>\<open>Git_Repo\<close> states what is relied on of
    git, and \<^theory_text>\<open>Git_Roundtrip\<close> that what is put into the store is what is read from it.
  \<^item> \<^theory_text>\<open>Remote_Server\<close>, \<^theory_text>\<open>Remote_Client\<close>, \<^theory_text>\<open>Remote_Roundtrip\<close> (\<^verbatim>\<open>store/remotestore\<close>): the two ends of the HTTP
    protocol, and that a client sees exactly the server's module and the server's errors.

  \<^bold>\<open>Front ends.\<close>
  \<^item> \<^theory_text>\<open>Nfs_Handles\<close> (\<^verbatim>\<open>nfs.go\<close>): handles, while the process runs and after a restart.
  \<^item> \<^theory_text>\<open>Nfs_Xdr\<close>, \<^theory_text>\<open>Nfs_Procs\<close>, \<^theory_text>\<open>Nfs_Writes\<close>, \<^theory_text>\<open>Nfs_Conn\<close>, \<^theory_text>\<open>Nfs_Serve\<close> (the fork of \<^verbatim>\<open>go-nfs\<close>): replies,
    every procedure with every status, records and dispatch, and a connection as a step relation of its
    reader, its handlers and its writer.  \<^theory_text>\<open>Nfs_Listing\<close> is a client that pages through a directory.
  \<^item> \<^theory_text>\<open>Nfs_Frontend\<close>, \<^theory_text>\<open>Nfs_Serving\<close>, \<^theory_text>\<open>Nfs_Readonly\<close>, \<^theory_text>\<open>Nfs_Sessions\<close> (\<^verbatim>\<open>nfs.go\<close>): gomodfs as the file system
    behind that server: complete listings, complete reads, refused changes, and sessions in which every
    request is answered.  \<^theory_text>\<open>Nfs_Listener\<close> is the accept loop and the server with all its connections.
  \<^item> \<^theory_text>\<open>Front_Webdav\<close>, \<^theory_text>\<open>Front_Winfsp\<close>, \<^theory_text>\<open>Front_Fuse\<close>, \<^theory_text>\<open>Front_Ends\<close> (\<^verbatim>\<open>webdav.go\<close>, \<^verbatim>\<open>winfsp.go\<close>, \<^verbatim>\<open>fuse.go\<close>): the
    other front ends, and that all of them serve the same files.
  \<^item> \<^theory_text>\<open>Portmap\<close> (\<^verbatim>\<open>portmap/\<close>): the static port mapper.  \<^theory_text>\<open>Op_Stats\<close> (\<^verbatim>\<open>stats/\<close>): operation statistics.
    \<^theory_text>\<open>Gomodfs_Main\<close> (\<^verbatim>\<open>cmd/gomodfs\<close>, mounting, \<^verbatim>\<open>log.go\<close>): the command, from its flags to the services and the
    mount, and the logger.

  \<^bold>\<open>Interfaces.\<close>  A component that relies on another does so through a locale, interpreted where the
  provider is: the LRU cache for the content caches, a directory's pages and a file's reads for NFS
  clients, a file system without the write capability for the mutating procedures, and a table of
  procedures, extended by one whose procedures return, for connections.  A git repository is an
  interface too: its laws are the manuals of the commands, and a repository in memory keeps them.

  \<^bold>\<open>Parameters.\<close>  Code outside the repository is an argument: SHA-1, SHA-256, zlib, LZ4, zip and tar, the
  network, the git commands, the XDR library, \<^verbatim>\<open>golang.org/x/mod\<close>'s escaping.  What is needed of it is a
  named hypothesis that states documented behaviour, and each witness instantiates it.

  \<^bold>\<open>Fuel.\<close>  Recursion that is not bounded by its data takes fuel: walks of directories by the depth of the
  tree (a hypothesis bounds it), the tree builder by the total length of the names, a client's pages and
  reads by the number of entries or bytes.  The theorems show that the fuel is enough.

  \<^bold>\<open>Not modelled.\<close>  Unmounting (it calls the operating system), the routes of the debug server, metrics
  registration, HTML and JSON formatting, the testing helpers and the tool that dumps a pack.  Mutexes make
  the operations they guard atomic; \<^verbatim>\<open>singleflight\<close> is the plain call; an NFS handler is one step of its
  connection.
\<close>

end
